(* ===== verification/RC_Prelude.thy ===== *)
theory RC_Prelude
  imports Main "HOL-Library.Sublist" "HOL-Library.AList" "HOL-Library.Word"
begin

text \<open>
  Shared ground of the development: the types every component uses (bytes, identifiers,
  signed 64-bit arithmetic with its wrap-around, errors as the left summand of a sum), the
  collections of facts the component proofs are run with, and the generic lemmas on lists and
  association lists that more than one component needs.
\<close>

section \<open>Types\<close>

text \<open>Go strings and byte slices are sequences of bytes; Isabelle's \<^typ>\<open>char\<close> is a byte.\<close>

type_synonym bytes = "char list"

text \<open>Go's \<open>int64\<close>: the value is an integer in the two's complement range, and an operation whose
  exact result may leave the range is wrapped by \<open>int64_wrap\<close>.\<close>

definition int64_wrap :: "int \<Rightarrow> int" where
  "int64_wrap x = (x + 2 ^ 63) mod 2 ^ 64 - 2 ^ 63"

definition is_int64 :: "int \<Rightarrow> bool" where
  "is_int64 x = (- (2 ^ 63) \<le> x \<and> x < 2 ^ 63)"

section \<open>Folding with failure\<close>

text \<open>A loop whose body may fail to return.\<close>

fun fold_opt :: "('a \<Rightarrow> 's \<Rightarrow> 's option) \<Rightarrow> 'a list \<Rightarrow> 's \<Rightarrow> 's option" where
  "fold_opt f [] s = Some s"
| "fold_opt f (x # xs) s = (case f x s of None \<Rightarrow> None | Some s' \<Rightarrow> fold_opt f xs s')"

section \<open>Collections of facts\<close>

named_theorems path_simps \<open>rewriting of slash-separated paths and their elements\<close>
named_theorems tree_simps \<open>one-step facts of the metadata tree\<close>
named_theorems cache_simps \<open>one-step facts of the content cache\<close>
named_theorems sess_simps \<open>field updates of a daemon session\<close>

section \<open>Arithmetic\<close>

lemma int64_wrap_id [simp]: "is_int64 x \<Longrightarrow> int64_wrap x = x"
  by (simp add: is_int64_def int64_wrap_def)

lemma is_int64_wrap [simp]: "is_int64 (int64_wrap x)"
  using pos_mod_bound [of "2 ^ 64 :: int" "x + 2 ^ 63"] pos_mod_sign [of "2 ^ 64 :: int" "x + 2 ^ 63"]
  by (simp add: is_int64_def int64_wrap_def)

section \<open>Association lists\<close>

text \<open>Go maps are association lists with distinct keys; every operation is read through
  \<^const>\<open>map_of\<close>.\<close>

lemma map_of_alist_update [simp]: "map_of (AList.update k v xs) = (map_of xs)(k \<mapsto> v)"
  by (rule ext) (simp add: update_conv')

lemma map_of_alist_delete [simp]: "map_of (AList.delete k xs) = (map_of xs)(k := None)"
  by (rule ext) (simp add: delete_conv')

lemma distinct_keys_update [simp]:
  "distinct (map fst xs) \<Longrightarrow> distinct (map fst (AList.update k v xs))"
  by (rule distinct_update)

lemma distinct_keys_delete [simp]:
  "distinct (map fst xs) \<Longrightarrow> distinct (map fst (AList.delete k xs))"
  by (rule distinct_delete)

end
