(* ===== verification/Go_Strings.thy ===== *)
theory Go_Strings
  imports RC_Prelude
begin

text \<open>
  What the program uses of Go's \<open>strings\<close>, \<open>fmt\<close> and \<open>unicode\<close> packages, as executable functions
  on byte strings: splitting and joining at a separator, \<open>strings.TrimSpace\<close>,
  \<open>strings.ReplaceAll\<close> of backslashes, \<open>strings.ToLower\<close> as far as a search for ASCII text can
  observe it, and the decimal rendering of unsigned counters.
\<close>

section \<open>Definitions\<close>

subsection \<open>Separators\<close>

abbreviation slash :: char where "slash \<equiv> CHR 0x2F"
abbreviation backslash :: char where "backslash \<equiv> CHR 0x5C"

text \<open>\<open>strings.Split\<close> at a one-byte separator: n separators give n + 1 pieces.\<close>

fun split_on :: "char \<Rightarrow> string \<Rightarrow> string list" where
  "split_on c [] = [[]]"
| "split_on c (x # xs) =
     (if x = c then [] # split_on c xs
      else (case split_on c xs of [] \<Rightarrow> [[x]] | w # ws \<Rightarrow> (x # w) # ws))"

text \<open>\<open>strings.Join\<close> with a one-byte separator.\<close>

fun join_with :: "char \<Rightarrow> string list \<Rightarrow> string" where
  "join_with c [] = []"
| "join_with c [w] = w"
| "join_with c (w # v # ws) = w @ c # join_with c (v # ws)"

text \<open>\<open>strings.ReplaceAll(p, "\\", "/")\<close>.\<close>

definition replace_backslash :: "string \<Rightarrow> string" where
  "replace_backslash p = map (\<lambda>c. if c = backslash then slash else c) p"

text \<open>\<open>strings.TrimPrefix\<close>.\<close>

definition trim_prefix :: "string \<Rightarrow> string \<Rightarrow> string" where
  "trim_prefix s p = (if prefix p s then drop (length p) s else s)"

text \<open>\<open>strings.TrimSuffix\<close>.\<close>

definition trim_suffix :: "string \<Rightarrow> string \<Rightarrow> string" where
  "trim_suffix s p = (if suffix p s then take (length s - length p) s else s)"

subsection \<open>White space\<close>

text \<open>The UTF-8 encodings of the code points for which \<open>unicode.IsSpace\<close> holds. No encoding is a
  prefix or a suffix of another one, and a string that begins (ends) with such an encoding is
  decoded to that code point at its beginning (end), so stripping encodings is stripping runes.\<close>

definition space_encodings :: "string list" where
  "space_encodings =
     [[CHR 0x09], [CHR 0x0A], [CHR 0x0B], [CHR 0x0C], [CHR 0x0D], [CHR 0x20],
      [CHR 0xC2, CHR 0x85], [CHR 0xC2, CHR 0xA0], [CHR 0xE1, CHR 0x9A, CHR 0x80],
      [CHR 0xE2, CHR 0x80, CHR 0x80], [CHR 0xE2, CHR 0x80, CHR 0x81],
      [CHR 0xE2, CHR 0x80, CHR 0x82], [CHR 0xE2, CHR 0x80, CHR 0x83],
      [CHR 0xE2, CHR 0x80, CHR 0x84], [CHR 0xE2, CHR 0x80, CHR 0x85],
      [CHR 0xE2, CHR 0x80, CHR 0x86], [CHR 0xE2, CHR 0x80, CHR 0x87],
      [CHR 0xE2, CHR 0x80, CHR 0x88], [CHR 0xE2, CHR 0x80, CHR 0x89],
      [CHR 0xE2, CHR 0x80, CHR 0x8A], [CHR 0xE2, CHR 0x80, CHR 0xA8],
      [CHR 0xE2, CHR 0x80, CHR 0xA9], [CHR 0xE2, CHR 0x80, CHR 0xAF],
      [CHR 0xE2, CHR 0x81, CHR 0x9F], [CHR 0xE3, CHR 0x80, CHR 0x80]]"

text \<open>Strip encodings of the list \<open>ws\<close> from the left; each round drops at least one byte.\<close>

function strip_left :: "string list \<Rightarrow> string \<Rightarrow> string" where
  "strip_left ws s =
     (case find (\<lambda>w. w \<noteq> [] \<and> prefix w s) ws of
        None \<Rightarrow> s
      | Some w \<Rightarrow> strip_left ws (drop (length w) s))"
  by pat_completeness auto
termination
  by (relation "measure (\<lambda>(ws, s). length s)")
     (auto simp: find_Some_iff dest!: prefix_length_le, metis diff_less length_0_conv length_greater_0_conv
        less_le_trans)

definition trim_space :: "string \<Rightarrow> string" where
  "trim_space s =
     rev (strip_left (map rev space_encodings) (rev (strip_left space_encodings s)))"

subsection \<open>Lower case\<close>

text \<open>\<open>strings.ToLower\<close> as seen by a search for ASCII text: ASCII capitals are lowered, and so are
  the two code points outside ASCII whose lower-case form is an ASCII letter (U+0130 and U+212A).
  Every other code point outside ASCII is mapped outside ASCII, so its bytes may stay.\<close>

fun to_lower :: "string \<Rightarrow> string" where
  "to_lower [] = []"
| "to_lower (c # s) =
     (if c = CHR 0xC4 \<and> prefix [CHR 0xB0] s then CHR ''i'' # to_lower (drop 1 s)
      else if c = CHR 0xE2 \<and> prefix [CHR 0x84, CHR 0xAA] s then CHR ''k'' # to_lower (drop 2 s)
      else if 65 \<le> (of_char c :: nat) \<and> (of_char c :: nat) \<le> 90
           then char_of ((of_char c :: nat) + 32) # to_lower s
      else c # to_lower s)"

subsection \<open>Decimal numbers\<close>

text \<open>\<open>fmt.Sprintf("%d")\<close> of an unsigned number.\<close>

fun decimal :: "nat \<Rightarrow> string" where
  "decimal n =
     (if n < 10 then [char_of (48 + n)] else decimal (n div 10) @ [char_of (48 + n mod 10)])"

declare strip_left.simps [simp del]
declare decimal.simps [simp del]

section \<open>Splitting and joining\<close>

lemma split_on_ne [simp]: "split_on c s \<noteq> []"
  by (induction s) (auto split: list.splits)

lemma split_on_no_sep: "w \<in> set (split_on c s) \<Longrightarrow> c \<notin> set w"
  by (induction s arbitrary: w) (auto split: list.splits if_splits)

lemma split_on_single: "c \<notin> set w \<Longrightarrow> split_on c w = [w]"
  by (induction w) auto

lemma split_on_append_sep: "c \<notin> set w \<Longrightarrow> split_on c (w @ c # s) = w # split_on c s"
  by (induction w) auto

lemma split_on_append: "split_on c (s @ c # t) = split_on c s @ split_on c t"
proof (induction s)
  case (Cons x s)
  then show ?case by (cases "split_on c s") auto
qed simp

lemma split_join [simp]:
  "ws \<noteq> [] \<Longrightarrow> \<forall>w \<in> set ws. c \<notin> set w \<Longrightarrow> split_on c (join_with c ws) = ws"
  by (induction c ws rule: join_with.induct)
     (auto simp: split_on_single split_on_append_sep)

lemma join_split [simp]: "join_with c (split_on c s) = s"
proof (induction s)
  case (Cons x s)
  obtain w ws where eq: "split_on c s = w # ws"
    using split_on_ne by (cases "split_on c s") auto
  with Cons show ?case by (cases ws) auto
qed simp

lemma join_with_Cons: "ws \<noteq> [] \<Longrightarrow> join_with c (w # ws) = w @ c # join_with c ws"
  by (cases ws) auto

lemma join_with_append:
  "us \<noteq> [] \<Longrightarrow> vs \<noteq> [] \<Longrightarrow> join_with c (us @ vs) = join_with c us @ c # join_with c vs"
  by (induction c us rule: join_with.induct) (auto simp: join_with_Cons)

lemma join_with_snoc: "ws \<noteq> [] \<Longrightarrow> join_with c (ws @ [w]) = join_with c ws @ c # w"
  by (simp add: join_with_append)

lemma join_with_eq_Nil [simp]: "join_with c ws = [] \<longleftrightarrow> ws = [] \<or> ws = [[]]"
  by (induction c ws rule: join_with.induct) auto

lemma join_with_inject:
  assumes "join_with c us = join_with c vs" "us \<noteq> []" "vs \<noteq> []"
    "\<forall>w \<in> set us. c \<notin> set w" "\<forall>w \<in> set vs. c \<notin> set w"
  shows "us = vs"
  using assms by (metis split_join)

lemma set_split_on: "w \<in> set (split_on d s) \<Longrightarrow> x \<in> set w \<Longrightarrow> x \<in> set s"
  by (induction s arbitrary: w) (fastforce split: list.splits if_splits)+

lemma set_join_with: "x \<in> set (join_with c ws) \<Longrightarrow> x = c \<or> (\<exists>w \<in> set ws. x \<in> set w)"
  by (induction c ws rule: join_with.induct) auto

lemma takeWhile_no_sep: "c \<notin> set w \<Longrightarrow> takeWhile (\<lambda>x. x \<noteq> c) w = w"
  by (auto simp: takeWhile_eq_all_conv)

lemma takeWhile_until_sep: "c \<notin> set w \<Longrightarrow> takeWhile (\<lambda>x. x \<noteq> c) (w @ c # s) = w"
  by (simp add: takeWhile_append2 takeWhile_tail takeWhile_no_sep)

text \<open>The first separator determines the part before it.\<close>

lemma append_sep_inject:
  assumes "w @ c # s = v @ c # t" "c \<notin> set w" "c \<notin> set v"
  shows "w = v \<and> s = t"
proof -
  have "w = takeWhile (\<lambda>x. x \<noteq> c) (w @ c # s)"
    by (rule takeWhile_until_sep [OF assms(2), symmetric])
  also have "\<dots> = v"
    unfolding assms(1) by (rule takeWhile_until_sep [OF assms(3)])
  finally show ?thesis using assms(1) by simp
qed

lemma set_replace_backslash [simp]: "backslash \<notin> set (replace_backslash p)"
  by (auto simp: replace_backslash_def)

lemma replace_backslash_id: "backslash \<notin> set p \<Longrightarrow> replace_backslash p = p"
  by (induction p) (auto simp: replace_backslash_def)

lemma replace_backslash_idem [simp]: "replace_backslash (replace_backslash p) = replace_backslash p"
  by (rule replace_backslash_id) simp

lemma replace_backslash_Nil [simp]: "replace_backslash [] = []" "replace_backslash p = [] \<longleftrightarrow> p = []"
  by (simp_all add: replace_backslash_def)

lemma replace_backslash_append [simp]:
  "replace_backslash (p @ q) = replace_backslash p @ replace_backslash q"
  by (simp add: replace_backslash_def)

section \<open>Trimming\<close>

lemma strip_left_fixed:
  "find (\<lambda>w. w \<noteq> [] \<and> prefix w s) ws = None \<Longrightarrow> strip_left ws s = s"
  by (subst strip_left.simps) simp

lemma strip_left_stop: "find (\<lambda>w. w \<noteq> [] \<and> prefix w (strip_left ws s)) ws = None"
proof (induction ws s rule: strip_left.induct)
  case (1 ws s)
  then show ?case
    by (cases "find (\<lambda>w. w \<noteq> [] \<and> prefix w s) ws") (subst strip_left.simps, simp)+
qed

lemma strip_left_idem: "strip_left ws (strip_left ws s) = strip_left ws s"
  by (rule strip_left_fixed) (rule strip_left_stop)

lemma strip_left_suffix: "suffix (strip_left ws s) s"
proof (induction ws s rule: strip_left.induct)
  case (1 ws s)
  show ?case
  proof (cases "find (\<lambda>w. w \<noteq> [] \<and> prefix w s) ws")
    case None
    then show ?thesis by (subst strip_left.simps) simp
  next
    case (Some w)
    then have "suffix (strip_left ws (drop (length w) s)) (drop (length w) s)"
      by (rule 1)
    then have "suffix (strip_left ws (drop (length w) s)) s"
      by (rule suffix_order.trans) (rule suffix_drop)
    with Some show ?thesis by (subst strip_left.simps) simp
  qed
qed

lemma trim_space_prefix: "prefix (trim_space s) (strip_left space_encodings s)"
  using strip_left_suffix [of "map rev space_encodings" "rev (strip_left space_encodings s)"]
  by (simp add: trim_space_def suffix_to_prefix)

lemma set_trim_space: "x \<in> set (trim_space s) \<Longrightarrow> x \<in> set s"
  using set_mono_prefix [OF trim_space_prefix] set_mono_suffix [OF strip_left_suffix]
  by blast

lemma strip_left_prefix_fixed:
  assumes "prefix r (strip_left ws s)"
  shows "strip_left ws r = r"
proof (rule strip_left_fixed)
  have "find (\<lambda>w. w \<noteq> [] \<and> prefix w (strip_left ws s)) ws = None"
    by (rule strip_left_stop)
  with assms show "find (\<lambda>w. w \<noteq> [] \<and> prefix w r) ws = None"
    by (auto simp: find_None_iff intro: prefix_order.trans)
qed

lemma trim_space_idem [simp]: "trim_space (trim_space s) = trim_space s"
proof -
  have "strip_left space_encodings (trim_space s) = trim_space s"
    by (rule strip_left_prefix_fixed [OF trim_space_prefix])
  then have "trim_space (trim_space s) = rev (strip_left (map rev space_encodings) (rev (trim_space s)))"
    by (simp add: trim_space_def)
  also have "\<dots> = trim_space s"
    by (simp add: trim_space_def strip_left_idem)
  finally show ?thesis .
qed

section \<open>Decimal rendering\<close>

text \<open>Reading a decimal back, which makes rendering injective.\<close>

definition undecimal :: "string \<Rightarrow> nat" where
  "undecimal s = foldl (\<lambda>n c. n * 10 + (of_char c - 48)) 0 s"

lemma of_char_digit: "d < 10 \<Longrightarrow> of_char (char_of (48 + d) :: char) = (48 + d :: nat)"
  by simp

lemma undecimal_decimal: "undecimal (decimal n) = n"
proof (induction n rule: decimal.induct)
  case (1 n)
  show ?case
  proof (cases "n < 10")
    case True
    then show ?thesis by (subst decimal.simps) (simp add: undecimal_def)
  next
    case False
    with 1 have "undecimal (decimal (n div 10)) = n div 10" by simp
    with False show ?thesis
      by (subst decimal.simps) (simp add: undecimal_def)
  qed
qed

lemma decimal_inject [simp]: "decimal m = decimal n \<longleftrightarrow> m = n"
  by (metis undecimal_decimal)

lemma decimal_digits: "c \<in> set (decimal n) \<Longrightarrow> \<exists>d < 10. c = char_of (48 + d :: nat)"
proof (induction n rule: decimal.induct)
  case (1 n)
  then show ?case
    by (subst (asm) decimal.simps) (auto split: if_splits intro: exI [of _ "n mod 10"])
qed

lemma decimal_ne [simp]: "decimal n \<noteq> []"
  by (subst decimal.simps) simp

end
