(* ===== verification/Go_Path.thy ===== *)
theory Go_Path
  imports Go_Strings
begin

text \<open>
  Go's \<open>path\<close> and \<open>path/filepath\<close> packages on a Unix host (separator \<open>/\<close>, no volume names), as far
  as the program uses them: \<open>Clean\<close>, \<open>Join\<close>, \<open>Base\<close>, \<open>Dir\<close>, \<open>IsAbs\<close> and \<open>Rel\<close>. A cleaned path is the
  rendering of its list of elements; the lemmas reduce every path function to those lists.
\<close>

section \<open>Definitions\<close>

text \<open>\<open>path.Clean\<close>: elements are pushed on a stack, empty elements and \<open>.\<close> vanish, \<open>..\<close> pops an
  ordinary element, vanishes at the root, and stays at the front of a relative path.\<close>

fun clean_step :: "bool \<Rightarrow> string list \<Rightarrow> string \<Rightarrow> string list" where
  "clean_step rooted acc c =
     (if c = [] \<or> c = ''.'' then acc
      else if c = ''..'' then
        (case acc of
           [] \<Rightarrow> if rooted then [] else [''..'']
         | a # as \<Rightarrow> if a = ''..'' then ''..'' # acc else as)
      else c # acc)"

definition is_rooted :: "string \<Rightarrow> bool" where
  "is_rooted p = prefix [slash] p"

definition clean_elems :: "string \<Rightarrow> string list" where
  "clean_elems p = rev (foldl (clean_step (is_rooted p)) [] (split_on slash p))"

definition render_path :: "bool \<Rightarrow> string list \<Rightarrow> string" where
  "render_path rooted es =
     (if rooted then slash # join_with slash es
      else if es = [] then ''.'' else join_with slash es)"

definition path_clean :: "string \<Rightarrow> string" where
  "path_clean p = render_path (is_rooted p) (clean_elems p)"

text \<open>The non-empty elements of a path.\<close>

definition path_elems :: "string \<Rightarrow> string list" where
  "path_elems p = filter (\<lambda>c. c \<noteq> []) (split_on slash p)"

text \<open>\<open>filepath.IsAbs\<close> on Unix.\<close>

definition is_abs :: "string \<Rightarrow> bool" where
  "is_abs p = is_rooted p"

text \<open>\<open>filepath.Join\<close> on Unix: leading empty elements are skipped, the rest is joined and cleaned.\<close>

fun fp_join :: "string list \<Rightarrow> string" where
  "fp_join [] = []"
| "fp_join (e # es) = (if e = [] then fp_join es else path_clean (join_with slash (e # es)))"

text \<open>\<open>path.Split\<close>: the part up to and including the last slash, and the rest.\<close>

definition path_file :: "string \<Rightarrow> string" where
  "path_file p = rev (takeWhile (\<lambda>c. c \<noteq> slash) (rev p))"

definition path_dirpart :: "string \<Rightarrow> string" where
  "path_dirpart p = rev (dropWhile (\<lambda>c. c \<noteq> slash) (rev p))"

definition path_dir :: "string \<Rightarrow> string" where
  "path_dir p = path_clean (path_dirpart p)"

text \<open>\<open>path.Base\<close>: trailing slashes are stripped first.\<close>

definition path_base :: "string \<Rightarrow> string" where
  "path_base p =
     (if p = [] then ''.''
      else let q = rev (dropWhile (\<lambda>c. c = slash) (rev p)); b = path_file q
           in if b = [] then [slash] else b)"

text \<open>\<open>filepath.Rel\<close> on Unix; \<open>None\<close> is its error. Both paths are cleaned, their common leading
  elements are dropped, and the remaining base elements are climbed with \<open>..\<close>.\<close>

fun drop_common :: "string list \<Rightarrow> string list \<Rightarrow> string list \<times> string list" where
  "drop_common (b # bs) (t # ts) = (if b = t then drop_common bs ts else (b # bs, t # ts))"
| "drop_common bs ts = (bs, ts)"

definition fp_rel :: "string \<Rightarrow> string \<Rightarrow> string option" where
  "fp_rel basepath targpath =
     (let base = path_clean basepath; targ = path_clean targpath in
      if base = targ then Some ''.''
      else if is_rooted base \<noteq> is_rooted targ then None
      else
        (let bs = (if base = ''.'' then [] else path_elems base); ts = path_elems targ;
             (b, t) = drop_common bs ts in
         if b \<noteq> [] \<and> t \<noteq> [] \<and> hd b = ''..'' then None
         else Some (join_with slash (map (\<lambda>_. ''..'') b @ t))))"

section \<open>Elements of a cleaned path\<close>

text \<open>An ordinary path element.\<close>

definition is_name :: "string \<Rightarrow> bool" where
  "is_name c = (c \<noteq> [] \<and> c \<noteq> ''.'' \<and> c \<noteq> ''..'' \<and> slash \<notin> set c)"

text \<open>The element list of a cleaned path: some \<open>..\<close> (none when rooted), then ordinary elements.\<close>

definition normal_elems :: "bool \<Rightarrow> string list \<Rightarrow> bool" where
  "normal_elems rooted es =
     (\<exists>k ns. es = replicate k ''..'' @ ns \<and> (rooted \<longrightarrow> k = 0) \<and> (\<forall>c \<in> set ns. is_name c))"

lemma is_nameD:
  assumes "is_name c"
  shows "c \<noteq> []" "c \<noteq> ''.''" "c \<noteq> ''..''" "slash \<notin> set c"
  using assms unfolding is_name_def by blast+

lemma normal_elemsI:
  "es = replicate k ''..'' @ ns \<Longrightarrow> (r \<Longrightarrow> k = 0) \<Longrightarrow> (\<And>c. c \<in> set ns \<Longrightarrow> is_name c) \<Longrightarrow> normal_elems r es"
  unfolding normal_elems_def by blast

lemma normal_elemsE:
  assumes "normal_elems r es"
  obtains k ns where "es = replicate k ''..'' @ ns" "r \<Longrightarrow> k = 0" "\<And>c. c \<in> set ns \<Longrightarrow> is_name c"
  using assms unfolding normal_elems_def by blast

lemma normal_elems_Nil [simp]: "normal_elems r []"
  by (rule normal_elemsI [of _ 0 "[]"]) simp_all

lemma normal_elems_names: "normal_elems True es \<longleftrightarrow> (\<forall>c \<in> set es. is_name c)"
  unfolding normal_elems_def by (metis append_Nil replicate_0)

lemma normal_elems_cases: "normal_elems r es \<Longrightarrow> c \<in> set es \<Longrightarrow> c = ''..'' \<or> is_name c"
  by (elim normal_elemsE) (metis Un_iff in_set_replicate set_append)

lemma normal_elems_no_slash: "normal_elems r es \<Longrightarrow> c \<in> set es \<Longrightarrow> slash \<notin> set c"
  by (drule (1) normal_elems_cases, erule disjE, simp, erule is_nameD)

lemma normal_elems_nonempty: "normal_elems r es \<Longrightarrow> c \<in> set es \<Longrightarrow> c \<noteq> []"
  by (drule (1) normal_elems_cases, erule disjE, simp, erule is_nameD)

lemma normal_elems_append_names:
  assumes "normal_elems r es" "\<forall>c \<in> set ns. is_name c" shows "normal_elems r (es @ ns)"
proof -
  from assms(1) obtain k ms where "es = replicate k ''..'' @ ms" "r \<Longrightarrow> k = 0"
    "\<And>c. c \<in> set ms \<Longrightarrow> is_name c" by (rule normal_elemsE) blast
  then show ?thesis using assms(2) by (intro normal_elemsI [of _ k "ms @ ns"]) auto
qed

text \<open>One element at a time.\<close>

lemma clean_step_skip [simp]: "clean_step r acc [] = acc" "clean_step r acc ''.'' = acc"
  by simp_all

lemma clean_step_name: "is_name c \<Longrightarrow> clean_step r acc c = c # acc"
  using is_nameD [of c] by simp

lemma clean_step_pop: "is_name a \<Longrightarrow> clean_step r (a # acc) ''..'' = acc"
  using is_nameD [of a] by simp

lemma clean_step_root: "clean_step True [] ''..'' = []"
  by simp

lemma clean_step_climb: "clean_step False (replicate k ''..'') ''..'' = replicate (Suc k) ''..''"
  by (cases k) simp_all

declare clean_step.simps [simp del]

lemma normal_elems_rev_step:
  assumes n: "normal_elems r (rev acc)" and c: "slash \<notin> set c"
  shows "normal_elems r (rev (clean_step r acc c))"
proof -
  obtain k ns where acc: "rev acc = replicate k ''..'' @ ns" and k: "r \<Longrightarrow> k = 0"
    and ns: "\<And>c. c \<in> set ns \<Longrightarrow> is_name c"
    using n by (rule normal_elemsE) blast
  consider "c = [] \<or> c = ''.''" | "is_name c" | "c = ''..''"
    using c unfolding is_name_def by blast
  then show ?thesis
  proof cases
    case 1
    then show ?thesis using n by (elim disjE) simp_all
  next
    case 2
    then show ?thesis
      using acc k ns by (intro normal_elemsI [of _ k "ns @ [c]"]) (auto simp: clean_step_name)
  next
    case 3
    show ?thesis
    proof (cases ns rule: rev_cases)
      case Nil
      then have a: "acc = replicate k ''..''"
        using acc by (metis append_Nil2 rev_replicate rev_rev_ident)
      show ?thesis
      proof (cases r)
        case True
        then show ?thesis using a k 3 by (simp add: clean_step_root)
      next
        case False
        then show ?thesis using a 3
          by (intro normal_elemsI [of _ "Suc k" "[]"]) (simp_all add: clean_step_climb del: replicate_Suc)
      qed
    next
      case (snoc ms m)
      then have "acc = m # rev (replicate k ''..'' @ ms)"
        using acc by (metis append_assoc rev_eq_Cons_iff rev_rev_ident)
      then have "rev (clean_step r acc c) = replicate k ''..'' @ ms"
        using 3 snoc ns by (simp add: clean_step_pop)
      then show ?thesis using k ns snoc by (intro normal_elemsI [of _ k ms]) auto
    qed
  qed
qed

lemma normal_elems_foldl:
  "normal_elems r (rev acc) \<Longrightarrow> \<forall>c \<in> set cs. slash \<notin> set c \<Longrightarrow>
   normal_elems r (rev (foldl (clean_step r) acc cs))"
proof (induction cs arbitrary: acc)
  case (Cons c cs)
  then have "normal_elems r (rev (clean_step r acc c))"
    by (intro normal_elems_rev_step) simp_all
  with Cons show ?case by simp
qed simp

lemma normal_clean_elems: "normal_elems (is_rooted p) (clean_elems p)"
  unfolding clean_elems_def
  by (rule normal_elems_foldl) (auto dest: split_on_no_sep)

text \<open>Pushing ordinary elements, and replaying a normal list.\<close>

lemma foldl_names:
  "\<forall>c \<in> set ns. is_name c \<Longrightarrow> foldl (clean_step r) acc ns = rev ns @ acc"
  by (induction ns arbitrary: acc) (simp_all add: clean_step_name)

lemma foldl_dotdots: "foldl (clean_step False) (replicate j ''..'') (replicate k ''..'')
   = replicate (j + k) ''..''"
proof (induction k arbitrary: j)
  case (Suc k)
  from Suc [of "Suc j"] show ?case
    by (simp add: clean_step_climb del: replicate_Suc) (simp add: clean_step_climb)
qed simp

lemma foldl_normal: "normal_elems r es \<Longrightarrow> foldl (clean_step r) [] es = rev es"
proof (erule normal_elemsE)
  fix k ns assume es: "es = replicate k ''..'' @ ns" "r \<Longrightarrow> k = 0" "\<And>c. c \<in> set ns \<Longrightarrow> is_name c"
  show ?thesis
    using foldl_dotdots [of 0 k] es by (cases r) (simp_all add: foldl_names)
qed

section \<open>Cleaning\<close>

lemma is_rooted_Cons [simp]: "is_rooted (c # p) \<longleftrightarrow> c = slash"
  by (auto simp: is_rooted_def)

lemma is_rooted_Nil [simp]: "\<not> is_rooted []"
  by (simp add: is_rooted_def)

lemma is_rooted_append [simp]: "p \<noteq> [] \<Longrightarrow> is_rooted (p @ q) = is_rooted p"
  by (cases p) simp_all

lemma join_not_rooted:
  assumes "es \<noteq> []" "normal_elems r es" shows "\<not> is_rooted (join_with slash es)"
proof -
  obtain e es' where es: "es = e # es'" using assms(1) by (cases es) auto
  with assms(2) have "e \<noteq> []" "slash \<notin> set e"
    by (auto dest: normal_elems_nonempty normal_elems_no_slash)
  then show ?thesis using es by (cases es'; cases e) auto
qed

lemma is_rooted_render: "normal_elems r es \<Longrightarrow> is_rooted (render_path r es) = r"
  using join_not_rooted [of es r] by (auto simp: render_path_def)

lemma is_rooted_clean [simp]: "is_rooted (path_clean p) = is_rooted p"
  by (simp add: path_clean_def is_rooted_render normal_clean_elems)

lemma clean_elems_render:
  assumes n: "normal_elems r es" shows "clean_elems (render_path r es) = es"
proof -
  have ns: "\<forall>w \<in> set es. slash \<notin> set w" using n by (auto dest: normal_elems_no_slash)
  have "clean_elems (render_path r es) =
      rev (foldl (clean_step r) [] (split_on slash (render_path r es)))"
    by (simp add: clean_elems_def is_rooted_render [OF n])
  also have "foldl (clean_step r) [] (split_on slash (render_path r es))
      = foldl (clean_step r) [] es"
  proof (cases "es = []")
    case True
    then show ?thesis by (cases r) (simp_all add: render_path_def)
  next
    case False
    then show ?thesis by (cases r) (simp_all add: render_path_def split_join [OF False ns])
  qed
  finally show ?thesis by (simp add: foldl_normal [OF n])
qed

lemma clean_elems_clean [simp]: "clean_elems (path_clean p) = clean_elems p"
  by (simp add: path_clean_def clean_elems_render normal_clean_elems)

lemma path_clean_idem [simp]: "path_clean (path_clean p) = path_clean p"
  by (simp add: path_clean_def [of "path_clean p"]) (simp add: path_clean_def)

lemma path_clean_ne [simp]: "path_clean p \<noteq> []"
proof -
  have "join_with slash (clean_elems p) \<noteq> []" if "clean_elems p \<noteq> []"
    using that normal_elems_nonempty [OF normal_clean_elems, of "[]" p] by auto
  then show ?thesis by (auto simp: path_clean_def render_path_def)
qed

lemma path_clean_eq_iff:
  "path_clean p = path_clean q \<longleftrightarrow> is_rooted p = is_rooted q \<and> clean_elems p = clean_elems q"
proof
  assume eq: "path_clean p = path_clean q"
  then have "is_rooted (path_clean p) = is_rooted (path_clean q)"
    "clean_elems (path_clean p) = clean_elems (path_clean q)" by simp_all
  then show "is_rooted p = is_rooted q \<and> clean_elems p = clean_elems q" by simp
next
  assume "is_rooted p = is_rooted q \<and> clean_elems p = clean_elems q"
  then show "path_clean p = path_clean q" by (simp add: path_clean_def)
qed

lemma path_elems_render:
  assumes n: "normal_elems r es" and "r \<or> es \<noteq> []"
  shows "path_elems (render_path r es) = es"
proof (cases "es = []")
  case True
  then show ?thesis using assms by (simp add: path_elems_def render_path_def)
next
  case False
  have ns: "\<forall>w \<in> set es. slash \<notin> set w" using n by (auto dest: normal_elems_no_slash)
  have "filter (\<lambda>c. c \<noteq> []) es = es"
    using n by (simp add: filter_id_conv) (auto dest: normal_elems_nonempty)
  with False ns show ?thesis
    by (cases r) (simp_all add: path_elems_def render_path_def)
qed

lemma path_elems_clean_abs: "is_rooted p \<Longrightarrow> path_elems (path_clean p) = clean_elems p"
  using normal_clean_elems [of p] by (simp add: path_clean_def path_elems_render)

lemma clean_elems_abs_names: "is_rooted p \<Longrightarrow> c \<in> set (clean_elems p) \<Longrightarrow> is_name c"
  using normal_clean_elems [of p] by (simp add: normal_elems_names)

lemma foldl_clean_step_subset:
  "c \<in> set (foldl (clean_step r) acc cs) \<Longrightarrow> c \<in> set acc \<union> set cs"
proof (induction cs arbitrary: acc)
  case (Cons x cs)
  have "set (clean_step r acc x) \<subseteq> insert x (set acc)"
    by (cases acc) (auto simp: clean_step.simps)
  with Cons.IH [of "clean_step r acc x"] Cons.prems show ?case by auto
qed simp

lemma clean_elems_chars: "c \<in> set (clean_elems p) \<Longrightarrow> set c \<subseteq> set p"
  using foldl_clean_step_subset [of c "is_rooted p" "[]" "split_on slash p"] set_split_on [of c slash p]
  by (auto simp: clean_elems_def)

section \<open>Joining below a base\<close>

lemma clean_elems_join_names:
  assumes "base \<noteq> []" "ns \<noteq> []" "\<forall>c \<in> set ns. is_name c"
  shows "clean_elems (base @ slash # join_with slash ns) = clean_elems base @ ns"
proof -
  have "\<forall>w \<in> set ns. slash \<notin> set w" using assms(3) by (blast dest: is_nameD(4))
  then have "split_on slash (base @ slash # join_with slash ns) = split_on slash base @ ns"
    by (simp add: split_on_append split_join [OF assms(2)])
  then show ?thesis
    using assms by (simp add: clean_elems_def foldl_names)
qed

lemma fp_join_names:
  assumes "base \<noteq> []" "ns \<noteq> []" "\<forall>c \<in> set ns. is_name c"
  shows "fp_join [base, join_with slash ns] = render_path (is_rooted base) (clean_elems base @ ns)"
  using assms by (simp add: path_clean_def clean_elems_join_names)

section \<open>Relative paths\<close>

lemma drop_common_append:
  "drop_common (ps @ bs) (ps @ ts) = drop_common bs ts"
  by (induction ps) auto

lemma drop_common_Nil_iff: "fst (drop_common bs ts) = [] \<longleftrightarrow> prefix bs ts"
  by (induction bs ts rule: drop_common.induct) auto

lemma drop_common_prefix: "prefix bs ts \<Longrightarrow> drop_common bs ts = ([], drop (length bs) ts)"
  using drop_common_append [of bs "[]"] by (auto simp: prefix_def)

lemma drop_common_spec:
  "drop_common bs ts = (b, t) \<Longrightarrow> \<exists>ps. bs = ps @ b \<and> ts = ps @ t"
proof (induction bs ts rule: drop_common.induct)
  case (1 b bs t ts)
  then show ?case by (cases "b = t") (auto simp: Cons_eq_append_conv)
qed auto

text \<open>Of two absolute paths, \<open>filepath.Rel\<close> never fails, and its result climbs exactly when the base
  is not a leading part of the target.\<close>

lemma fp_rel_abs:
  assumes "is_rooted base" "is_rooted targ" "path_clean base \<noteq> path_clean targ"
    "drop_common (clean_elems base) (clean_elems targ) = (b, t)"
  shows "fp_rel base targ = Some (join_with slash (map (\<lambda>_. ''..'') b @ t))"
proof -
  have "path_clean base \<noteq> ''.''"
  proof
    assume "path_clean base = ''.''"
    then have "\<not> is_rooted (path_clean base)" by simp
    with assms(1) show False by simp
  qed
  moreover have "hd b \<noteq> ''..''" if "b \<noteq> []"
  proof -
    from that drop_common_spec [OF assms(4)] have "hd b \<in> set (clean_elems base)" by auto
    with assms(1) show ?thesis by (metis clean_elems_abs_names is_nameD(3))
  qed
  ultimately show ?thesis
    using assms by (auto simp: fp_rel_def path_elems_clean_abs Let_def)
qed

end
