(* ===== verification/Safepath.thy ===== *)
theory Safepath
  imports Go_Path
begin

text \<open>
  The path guard \<open>src/pkg/safepath/safepath.go\<close>: cleaning of untrusted paths, joining below an
  absolute base, the containment test and the single-segment check, on a Unix host. The locale
  \<open>confined_join\<close> states what the daemon and the PTY host rely on: a joined path has the base's
  elements in front.
\<close>

section \<open>Definitions\<close>

datatype sp_error = ErrEmptyPath | ErrAbsoluteRel | ErrEscape | ErrBaseNotAbs | ErrUnsafeSegment

definition ToSlash :: "string \<Rightarrow> string" where
  "ToSlash p = replace_backslash p"

text \<open>\<open>filepath.FromSlash\<close> is the identity where the separator is a slash.\<close>

definition FromSlash :: "string \<Rightarrow> string" where
  "FromSlash p = p"

definition isDriveLetter :: "char \<Rightarrow> bool" where
  "isDriveLetter b =
     (((of_char CHR ''a'' :: nat) \<le> of_char b \<and> (of_char b :: nat) \<le> of_char CHR ''z'')
      \<or> ((of_char CHR ''A'' :: nat) \<le> of_char b \<and> (of_char b :: nat) \<le> of_char CHR ''Z''))"

definition isAbsLike :: "string \<Rightarrow> bool" where
  "isAbsLike p =
     (if p = [] then False
      else if prefix [slash] p \<or> prefix [backslash] p then True
      else 3 \<le> length p \<and> isDriveLetter (p ! 0) \<and> p ! 1 = CHR 0x3A
           \<and> (p ! 2 = slash \<or> p ! 2 = backslash))"

definition Clean :: "string \<Rightarrow> sp_error + string" where
  "Clean p =
     (if p = [] then Inl ErrEmptyPath
      else
        (let cleaned = path_clean (ToSlash p) in
         if cleaned = ''..'' \<or> prefix ''../'' cleaned then Inl ErrEscape
         else
           (let cleaned = trim_prefix cleaned [slash] in
            if cleaned = ''.'' then Inr [] else Inr cleaned)))"

definition IsWithin :: "string \<Rightarrow> string \<Rightarrow> sp_error + bool" where
  "IsWithin base target =
     (if base = [] \<or> target = [] then Inl ErrEmptyPath
      else if \<not> is_abs base \<or> \<not> is_abs target then Inl ErrBaseNotAbs
      else if path_clean base = path_clean target then Inr True
      else
        (case fp_rel (path_clean base) (path_clean target) of
           None \<Rightarrow> Inr False
         | Some rel \<Rightarrow> if rel = ''..'' \<or> prefix ''../'' rel then Inr False else Inr True))"

definition Join :: "string \<Rightarrow> string \<Rightarrow> sp_error + string" where
  "Join base rel =
     (if base = [] then Inl ErrEmptyPath
      else if \<not> is_abs base then Inl ErrBaseNotAbs
      else if isAbsLike rel then Inl ErrAbsoluteRel
      else
        (case Clean rel of
           Inl e \<Rightarrow> Inl e
         | Inr cleanedRel \<Rightarrow>
             if cleanedRel = [] then Inr (path_clean base)
             else
               (let joined = fp_join [base, FromSlash cleanedRel] in
                case IsWithin base joined of
                  Inl e \<Rightarrow> Inl e
                | Inr within \<Rightarrow> if \<not> within then Inl ErrEscape else Inr joined)))"

definition CleanSegment :: "string \<Rightarrow> sp_error + string" where
  "CleanSegment name =
     (let trimmed = trim_space name in
      if trimmed = [] then Inl ErrUnsafeSegment
      else if list_ex (\<lambda>c. c = slash \<or> c = backslash) trimmed then Inl ErrUnsafeSegment
      else if list_ex (\<lambda>c. (of_char c :: nat) < 0x20 \<or> (of_char c :: nat) = 0x7f) trimmed
           then Inl ErrUnsafeSegment
      else
        (case Clean trimmed of
           Inl e \<Rightarrow> Inl ErrUnsafeSegment
         | Inr cleaned \<Rightarrow> if cleaned \<noteq> trimmed then Inl ErrUnsafeSegment else Inr cleaned))"

section \<open>Cleaning\<close>

text \<open>What a successful \<open>Clean\<close> returns: the joined ordinary elements of a path.\<close>

definition rel_path :: "string list \<Rightarrow> string" where
  "rel_path ns = join_with slash ns"

lemma rel_path_Nil_iff: "\<forall>c \<in> set ns. is_name c \<Longrightarrow> rel_path ns = [] \<longleftrightarrow> ns = []"
  by (auto simp: rel_path_def dest: is_nameD(1))

lemma climbing_iff:
  assumes "normal_elems r es"
  shows "(render_path r es = ''..'' \<or> prefix ''../'' (render_path r es)) \<longleftrightarrow> \<not> r \<and> es \<noteq> [] \<and> hd es = ''..''"
proof (cases "r \<or> es = []")
  case True
  then show ?thesis by (auto simp: render_path_def)
next
  case False
  then obtain e es' where es: "es = e # es'" by (cases es) auto
  have e: "slash \<notin> set e" using assms es by (simp add: normal_elems_no_slash)
  have "e = ''..''" if "e @ slash # s = ''../'' @ t" for s t
    using append_sep_inject [of e slash s "''..''" t] that e by simp
  moreover have "e = ''..''" if "e = ''../'' @ t" for t
    using that e by simp
  moreover have "e @ slash # s \<noteq> ''..''" for s
    using e by (auto simp: append_eq_Cons_conv)
  ultimately show ?thesis
    using False es by (cases es') (auto simp: render_path_def prefix_def)
qed

lemma hd_dotdot_iff:
  "normal_elems r es \<Longrightarrow> (es \<noteq> [] \<and> hd es = ''..'') \<longleftrightarrow> \<not> (\<forall>c \<in> set es. is_name c)"
  by (erule normal_elemsE, case_tac k) (auto dest: is_nameD(3) simp: is_name_def)

text \<open>The functional behaviour of \<open>Clean\<close>, all three branches.\<close>

lemma Clean_cases:
  "Clean p =
     (if p = [] then Inl ErrEmptyPath
      else if (\<forall>c \<in> set (clean_elems (ToSlash p)). is_name c)
           then Inr (rel_path (clean_elems (ToSlash p)))
      else Inl ErrEscape)"
proof (cases "p = []")
  case False
  let ?q = "ToSlash p" and ?es = "clean_elems (ToSlash p)" and ?r = "is_rooted (ToSlash p)"
  have n: "normal_elems ?r ?es" by (rule normal_clean_elems)
  have c: "(path_clean ?q = ''..'' \<or> prefix ''../'' (path_clean ?q)) \<longleftrightarrow>
      \<not> ?r \<and> \<not> (\<forall>c \<in> set ?es. is_name c)"
    using climbing_iff [OF n] hd_dotdot_iff [OF n] by (simp add: path_clean_def)
  show ?thesis
  proof (cases "\<forall>c \<in> set ?es. is_name c")
    case True
    then have "trim_prefix (path_clean ?q) [slash] =
        (if ?es = [] \<and> \<not> ?r then ''.'' else rel_path ?es)"
      using join_not_rooted [OF _ n]
      by (auto simp: path_clean_def render_path_def trim_prefix_def rel_path_def is_rooted_def)
    moreover have "rel_path ?es \<noteq> ''.''"
      using True by (cases ?es; cases "tl ?es") (auto simp: rel_path_def append_eq_Cons_conv dest: is_nameD)
    ultimately show ?thesis using False True c by (auto simp: Clean_def Let_def rel_path_def)
  next
    case bad: False
    with n have "\<not> ?r" by (metis normal_elems_names)
    with False bad c show ?thesis by (auto simp: Clean_def Let_def)
  qed
qed (simp add: Clean_def)

lemma Clean_InrE:
  assumes "Clean p = Inr q"
  obtains ns where "q = rel_path ns" "\<forall>c \<in> set ns. is_name c" "ns = clean_elems (ToSlash p)" "p \<noteq> []"
  using assms that by (auto simp: Clean_cases split: if_splits)

lemma clean_elems_rel_path: "\<forall>c \<in> set ns. is_name c \<Longrightarrow> clean_elems (rel_path ns) = ns"
proof -
  assume ns: "\<forall>c \<in> set ns. is_name c"
  then have n: "normal_elems False ns" by (intro normal_elemsI [of _ 0 ns]) auto
  show ?thesis
  proof (cases "ns = []")
    case True
    then show ?thesis by (simp add: rel_path_def clean_elems_def)
  next
    case False
    then have "rel_path ns = render_path False ns" by (simp add: rel_path_def render_path_def)
    then show ?thesis using clean_elems_render [OF n] by simp
  qed
qed

text \<open>The lenient normalisation that the tree, the cache and the file system view each write out: the
  elements of the cleaned path, joined; a leading \<open>..\<close> is kept.\<close>

lemma rooted_trim:
  "(let p = replace_backslash p in
      if p = [] \<or> p = [slash] \<or> p = ''.'' then []
      else
        (let cleaned = trim_prefix (path_clean p) [slash] in
         if cleaned = ''.'' then [] else cleaned)) = rel_path (clean_elems (ToSlash p))"
proof -
  let ?q = "replace_backslash p"
  have n: "normal_elems (is_rooted ?q) (clean_elems ?q)" by (rule normal_clean_elems)
  have t: "trim_prefix (path_clean ?q) [slash] =
      (if clean_elems ?q = [] \<and> \<not> is_rooted ?q then ''.'' else rel_path (clean_elems ?q))"
    using join_not_rooted [OF _ n]
    by (auto simp: path_clean_def render_path_def trim_prefix_def rel_path_def is_rooted_def)
  have d: "rel_path (clean_elems ?q) \<noteq> ''.''"
  proof -
    have "c \<noteq> ''.'' \<and> c \<noteq> []" if "c \<in> set (clean_elems ?q)" for c
      using normal_elems_cases [OF n that] by (auto dest: is_nameD)
    then show ?thesis
      by (cases "clean_elems ?q"; cases "tl (clean_elems ?q)") (auto simp: rel_path_def append_eq_Cons_conv)
  qed
  have e: "clean_elems ?q = []" if "?q = [] \<or> ?q = [slash] \<or> ?q = ''.''"
    using that by (elim disjE) (simp_all add: clean_elems_def clean_step.simps)
  show ?thesis
    using t d e by (auto simp: ToSlash_def Let_def rel_path_def)
qed

lemma clean_elems_normal:
  "clean_elems (ToSlash (rel_path (clean_elems (ToSlash p)))) = clean_elems (ToSlash p)"
proof -
  let ?es = "clean_elems (ToSlash p)"
  have n: "normal_elems (is_rooted (ToSlash p)) ?es" by (rule normal_clean_elems)
  then have n': "normal_elems False ?es" by (auto elim!: normal_elemsE intro: normal_elemsI)
  have "backslash \<notin> set (rel_path ?es)"
    using clean_elems_chars [of _ "ToSlash p"] set_replace_backslash [of p]
    by (fastforce simp: rel_path_def ToSlash_def dest: set_join_with)
  then have "ToSlash (rel_path ?es) = rel_path ?es" by (simp add: ToSlash_def replace_backslash_id)
  moreover have "clean_elems (rel_path ?es) = ?es"
    using clean_elems_render [OF n'] by (cases "?es = []") (simp_all add: rel_path_def render_path_def clean_elems_def)
  ultimately show ?thesis by simp
qed

section \<open>Containment\<close>

lemma IsWithin_abs:
  assumes "is_rooted base" "is_rooted target"
  shows "IsWithin base target = Inr (prefix (clean_elems base) (clean_elems target))"
proof (cases "path_clean base = path_clean target")
  case True
  then show ?thesis
    using assms by (auto simp: IsWithin_def is_abs_def path_clean_eq_iff)
next
  case False
  obtain b t where bt: "drop_common (clean_elems base) (clean_elems target) = (b, t)"
    by (cases "drop_common (clean_elems base) (clean_elems target)")
  have rel: "fp_rel (path_clean base) (path_clean target) =
      Some (join_with slash (map (\<lambda>_. ''..'') b @ t))"
    using assms False bt by (intro fp_rel_abs) simp_all
  have names: "\<forall>c \<in> set t. is_name c"
    using drop_common_spec [OF bt] assms(2) clean_elems_abs_names by fastforce
  have b: "b = [] \<longleftrightarrow> prefix (clean_elems base) (clean_elems target)"
    using drop_common_Nil_iff [of "clean_elems base" "clean_elems target"] bt by simp
  have n: "normal_elems False (map (\<lambda>_. ''..'') b @ t)"
    using names by (intro normal_elemsI [of _ "length b" t]) (auto simp: map_replicate_const)
  have "t \<noteq> []" if "b = []"
    using that drop_common_spec [OF bt] False assms by (auto simp: path_clean_eq_iff)
  then have ne: "map (\<lambda>_. ''..'') b @ t \<noteq> []" by auto
  have "(join_with slash (map (\<lambda>_. ''..'') b @ t) = ''..''
        \<or> prefix ''../'' (join_with slash (map (\<lambda>_. ''..'') b @ t))) \<longleftrightarrow> b \<noteq> []"
  proof -
    have "hd (map (\<lambda>_. ''..'') b @ t) = ''..'' \<longleftrightarrow> b \<noteq> []"
      using names ne by (cases b; cases t) (auto dest: is_nameD(3))
    moreover have "render_path False (map (\<lambda>_. ''..'') b @ t) = join_with slash (map (\<lambda>_. ''..'') b @ t)"
      using ne by (simp only: render_path_def if_False)
    ultimately show ?thesis using climbing_iff [OF n] ne by metis
  qed
  with rel b False assms show ?thesis
    by (auto simp: IsWithin_def is_abs_def)
qed

lemma render_abs_elems:
  "\<forall>c \<in> set es. is_name c \<Longrightarrow> is_rooted (render_path True es) \<and> clean_elems (render_path True es) = es
     \<and> path_clean (render_path True es) = render_path True es"
  using clean_elems_render [of True es]
  by (simp add: normal_elems_names path_clean_def is_rooted_render)

text \<open>The complete behaviour of \<open>Join\<close>: the containment re-check at its end never fires.\<close>

lemma Join_cases:
  "Join base rel =
     (if base = [] then Inl ErrEmptyPath
      else if \<not> is_rooted base then Inl ErrBaseNotAbs
      else if isAbsLike rel then Inl ErrAbsoluteRel
      else case Clean rel of
             Inl e \<Rightarrow> Inl e
           | Inr q \<Rightarrow> Inr (render_path True (clean_elems base @ clean_elems (ToSlash rel))))"
proof (cases "base \<noteq> [] \<and> is_rooted base \<and> \<not> isAbsLike rel \<and> (\<exists>q. Clean rel = Inr q)")
  case True
  then obtain q where base: "base \<noteq> []" "is_rooted base" "\<not> isAbsLike rel" and q: "Clean rel = Inr q"
    by blast
  from q obtain ns where ns: "q = rel_path ns" "\<forall>c \<in> set ns. is_name c" "ns = clean_elems (ToSlash rel)"
    by (rule Clean_InrE)
  have bn: "\<forall>c \<in> set (clean_elems base). is_name c" using base clean_elems_abs_names by blast
  show ?thesis
  proof (cases "ns = []")
    case True
    then show ?thesis
      using base q ns by (simp add: Join_def is_abs_def rel_path_def path_clean_def)
  next
    case False
    have j: "fp_join [base, q] = render_path True (clean_elems base @ ns)"
      using fp_join_names [OF base(1) False ns(2)] base ns by (simp add: rel_path_def)
    have an: "\<forall>c \<in> set (clean_elems base @ ns). is_name c" using bn ns(2) by auto
    have "IsWithin base (render_path True (clean_elems base @ ns)) = Inr True"
      using render_abs_elems [OF an] base by (simp add: IsWithin_abs)
    moreover have "q \<noteq> []" using False ns by (simp add: rel_path_Nil_iff)
    ultimately show ?thesis
      using base q j ns by (simp add: Join_def is_abs_def FromSlash_def Let_def)
  qed
qed (auto simp: Join_def is_abs_def Let_def split: sum.splits)

lemma Join_InrE:
  assumes "Join base rel = Inr q"
  obtains ns where "q = render_path True (clean_elems base @ ns)" "\<forall>c \<in> set ns. is_name c"
    "is_rooted base" "\<forall>c \<in> set (clean_elems base). is_name c" "Clean rel = Inr (rel_path ns)"
proof -
  from assms have b: "base \<noteq> []" "is_rooted base" "\<not> isAbsLike rel"
    by (auto simp: Join_cases split: if_splits)
  with assms obtain s where s: "Clean rel = Inr s"
    and q: "q = render_path True (clean_elems base @ clean_elems (ToSlash rel))"
    by (auto simp: Join_cases split: sum.splits)
  from s obtain ns where "s = rel_path ns" "\<forall>c \<in> set ns. is_name c" "ns = clean_elems (ToSlash rel)"
    by (rule Clean_InrE)
  then show ?thesis using that q b s clean_elems_abs_names by blast
qed

section \<open>The contract of a confined join\<close>

locale confined_join =
  fixes joinf :: "string \<Rightarrow> string \<Rightarrow> 'e + string" and elems :: "string \<Rightarrow> string list"
  assumes join_elems: "joinf b r = Inr q \<Longrightarrow> \<exists>ns. elems q = elems b @ ns"
begin

lemma join_within: "joinf b r = Inr q \<Longrightarrow> prefix (elems b) (elems q)"
  by (drule join_elems) auto

lemma join_nested:
  "joinf b r = Inr q \<Longrightarrow> joinf q r' = Inr q' \<Longrightarrow> prefix (elems b) (elems q')"
  by (drule join_within)+ (rule prefix_order.trans)

lemma join_separate:
  assumes "joinf b r = Inr q" "joinf b' r' = Inr q'"
    and "\<not> prefix (elems b) (elems b')" "\<not> prefix (elems b') (elems b)"
  shows "q \<noteq> q'"
  using join_within [OF assms(1)] join_within [OF assms(2)] assms(3,4)
  by (metis prefix_same_cases)

end

interpretation sj: confined_join Join clean_elems
proof
  fix b r q
  assume "Join b r = Inr q"
  then obtain ns where "q = render_path True (clean_elems b @ ns)" "\<forall>c \<in> set ns. is_name c"
    "\<forall>c \<in> set (clean_elems b). is_name c"
    by (rule Join_InrE)
  then show "\<exists>ns. clean_elems q = clean_elems b @ ns"
    using render_abs_elems [of "clean_elems b @ ns"] by auto
qed

section \<open>Properties\<close>

lemma clean_elems_single: "is_name s \<Longrightarrow> clean_elems s = [s]"
  using clean_elems_rel_path [of "[s]"] by (simp add: rel_path_def)

lemma rel_path_no_backslash:
  "Clean p = Inr q \<Longrightarrow> backslash \<notin> set q"
proof (erule Clean_InrE)
  fix ns assume q: "q = rel_path ns" "ns = clean_elems (ToSlash p)"
  show "backslash \<notin> set q"
    using clean_elems_chars [of _ "ToSlash p"] set_replace_backslash [of p] q
    by (fastforce simp: rel_path_def ToSlash_def dest: set_join_with)
qed

text \<open>C1: a path that \<open>Join\<close> accepts is absolute, already clean, and inside the base: the base's elements
  stand in front of its own, and the containment test agrees.\<close>

theorem Join_confined:
  assumes "Join base rel = Inr q"
  shows "is_abs q \<and> path_clean q = q \<and> prefix (clean_elems base) (clean_elems q)
    \<and> IsWithin base q = Inr True"
proof -
  from assms obtain ns where q: "q = render_path True (clean_elems base @ ns)"
    and n: "\<forall>c \<in> set ns. is_name c" "\<forall>c \<in> set (clean_elems base). is_name c" and b: "is_rooted base"
    by (rule Join_InrE)
  then have a: "is_rooted q" "path_clean q = q" using render_abs_elems [of "clean_elems base @ ns"] by auto
  moreover have w: "prefix (clean_elems base) (clean_elems q)" using sj.join_within [OF assms] .
  moreover have "IsWithin base q = Inr True" using IsWithin_abs [OF b a(1)] w by simp
  ultimately show ?thesis by (simp add: is_abs_def)
qed

theorem Join_confined_witness:
  "Join ''/ws'' ''a/./b/../c.txt'' = Inr ''/ws/a/c.txt'' \<and> prefix [''ws''] (clean_elems ''/ws/a/c.txt'')"
proof -
  have j: "Join ''/ws'' ''a/./b/../c.txt'' = Inr ''/ws/a/c.txt''" by code_simp
  moreover have "clean_elems ''/ws'' = [''ws'']" by code_simp
  ultimately show ?thesis using Join_confined [OF j] by simp
qed

text \<open>C26: \<open>Join\<close> accepts exactly the relative paths that stay below an absolute base: not empty, not
  absolute in the Unix or Windows sense, and with no \<open>..\<close> left after cleaning. Everything else is an
  error and no path is produced.\<close>

theorem Join_accepts_iff:
  "(\<exists>q. Join base rel = Inr q) \<longleftrightarrow>
     is_abs base \<and> rel \<noteq> [] \<and> \<not> isAbsLike rel \<and> ''..'' \<notin> set (clean_elems (ToSlash rel))"
proof -
  have d: "''..'' \<notin> set (clean_elems (ToSlash rel)) \<longleftrightarrow> (\<forall>c \<in> set (clean_elems (ToSlash rel)). is_name c)"
    using normal_elems_cases [OF normal_clean_elems, of _ "ToSlash rel"] is_nameD(3) by blast
  have "base \<noteq> []" if "is_rooted base" using that by auto
  then show ?thesis
    unfolding d by (auto simp: Join_cases Clean_cases is_abs_def split: if_splits)
qed

lemma Clean_fixed:
  assumes "Clean p = Inr q" "q \<noteq> []"
  shows "Clean q = Inr q" "\<forall>c \<in> set (split_on slash q). is_name c"
proof -
  from assms(1) obtain ns where q: "q = rel_path ns" and n: "\<forall>c \<in> set ns. is_name c"
    by (rule Clean_InrE)
  have bs: "backslash \<notin> set q" using assms(1) by (rule rel_path_no_backslash)
  have e: "clean_elems (ToSlash q) = ns"
    using bs q clean_elems_rel_path [OF n] by (simp add: ToSlash_def replace_backslash_id)
  then show "Clean q = Inr q" using assms(2) n q by (simp add: Clean_cases)
  have "ns \<noteq> []" using assms(2) q by (auto simp: rel_path_def)
  moreover have "\<forall>c \<in> set ns. slash \<notin> set c" using n is_nameD(4) by blast
  ultimately show "\<forall>c \<in> set (split_on slash q). is_name c" using n q by (simp add: rel_path_def)
qed

text \<open>Cleaning is sound and idempotent: a result has no leading slash, no backslash, no \<open>.\<close>, \<open>..\<close> or
  empty element, and cleaning it again gives it back.\<close>

theorem Clean_normal_form:
  assumes "Clean p = Inr q" "q \<noteq> []"
  shows "Clean q = Inr q \<and> (\<forall>c \<in> set (split_on slash q). is_name c) \<and> backslash \<notin> set q"
  using Clean_fixed [OF assms] rel_path_no_backslash [OF assms(1)] by simp_all

theorem Clean_normal_form_witness:
  "Clean ''a/..//b/./c'' = Inr ''b/c'' \<and> Clean ''b/c'' = Inr ''b/c''"
proof -
  have c: "Clean ''a/..//b/./c'' = Inr ''b/c''" by code_simp
  show ?thesis using c Clean_normal_form [OF c] by simp
qed

lemma CleanSegment_InrD:
  assumes "CleanSegment name = Inr s"
  shows "is_name s" "backslash \<notin> set s" "Clean s = Inr s"
    "\<not> list_ex (\<lambda>c. (of_char c :: nat) < 0x20 \<or> (of_char c :: nat) = 0x7f) s"
proof -
  from assms have s: "Clean s = Inr s" "s \<noteq> []" "slash \<notin> set s" "backslash \<notin> set s"
    "\<not> list_ex (\<lambda>c. (of_char c :: nat) < 0x20 \<or> (of_char c :: nat) = 0x7f) s"
    by (auto simp: CleanSegment_def Let_def list_ex_iff split: if_splits sum.splits)
  have "\<forall>c \<in> set (split_on slash s). is_name c" using Clean_fixed(2) [OF s(1,2)] .
  then show "is_name s" using s(3) by (simp add: split_on_single)
  show "backslash \<notin> set s" "Clean s = Inr s"
    "\<not> list_ex (\<lambda>c. (of_char c :: nat) < 0x20 \<or> (of_char c :: nat) = 0x7f) s" by fact+
qed

text \<open>An accepted segment (a user or workspace name) is one ordinary path element, so joining it to an
  absolute directory addresses a direct child of that directory.\<close>

theorem CleanSegment_direct_child:
  assumes "CleanSegment name = Inr s" "is_abs base"
  shows "is_name s \<and> Join base s = Inr (render_path True (clean_elems base @ [s]))
    \<and> (\<forall>c \<in> set s. 0x20 \<le> (of_char c :: nat) \<and> (of_char c :: nat) \<noteq> 0x7f)"
proof (intro conjI)
  note s = CleanSegment_InrD [OF assms(1)]
  note n = s(1)
  have sl: "slash \<notin> set s" using is_nameD(4) [OF n] .
  show "is_name s" by fact
  show "\<forall>c \<in> set s. 0x20 \<le> (of_char c :: nat) \<and> (of_char c :: nat) \<noteq> 0x7f"
    using s(4) by (auto simp: list_ex_iff not_less)
  have "\<not> isAbsLike s"
  proof -
    have "s ! 2 \<noteq> slash \<and> s ! 2 \<noteq> backslash" if "3 \<le> length s"
    proof -
      have "s ! 2 \<in> set s" using that by (intro nth_mem) simp
      then show ?thesis using sl s(2) by metis
    qed
    moreover have "\<not> prefix [slash] s" "\<not> prefix [backslash] s" using sl s(2) by (cases s; auto)+
    ultimately show ?thesis by (auto simp: isAbsLike_def)
  qed
  moreover have "base \<noteq> []" "is_rooted base" using assms(2) by (auto simp: is_abs_def)
  moreover have "clean_elems (ToSlash s) = [s]"
    using s(2) clean_elems_single [OF n] by (simp add: ToSlash_def replace_backslash_id)
  ultimately show "Join base s = Inr (render_path True (clean_elems base @ [s]))"
    using s(3) by (simp add: Join_cases)
qed

theorem CleanSegment_direct_child_witness:
  "CleanSegment '' alice '' = Inr ''alice'' \<and> Join ''/srv'' ''alice'' = Inr ''/srv/alice''"
proof -
  have c: "CleanSegment '' alice '' = Inr ''alice''" "is_abs ''/srv''" by code_simp+
  have "render_path True (clean_elems ''/srv'' @ [''alice'']) = ''/srv/alice''" by code_simp
  then show ?thesis using c CleanSegment_direct_child [OF c] by simp
qed

end
