(* ===== verification/Proto.thy ===== *)
theory Proto
  imports RC_Prelude
begin

text \<open>
  The messages of \<open>src/api/proto/remotefs/v1/remotefs.proto\<close> that the file path of the system
  exchanges: file metadata, change events, file requests and responses, and the two envelopes of
  the bidirectional stream. A pointer that Go code compares with nil is an \<^typ>\<open>'a option\<close>; a nil
  message read through its generated getters has zero fields.
\<close>

section \<open>Definitions\<close>

record file_info =
  fi_path :: string
  fi_size :: int
  fi_mod_time :: int
  fi_is_dir :: bool
  fi_mode :: nat

definition zero_info :: file_info where
  "zero_info = \<lparr>fi_path = [], fi_size = 0, fi_mod_time = 0, fi_is_dir = False, fi_mode = 0\<rparr>"

text \<open>A message pointer read through its getters: nil reads as the zero message.\<close>

definition get_info :: "file_info option \<Rightarrow> file_info" where
  "get_info f = (case f of None \<Rightarrow> zero_info | Some i \<Rightarrow> i)"

datatype change_type =
  CHANGE_TYPE_UNSPECIFIED | CHANGE_TYPE_CREATE | CHANGE_TYPE_MODIFY | CHANGE_TYPE_DELETE
| CHANGE_TYPE_RENAME | CHANGE_TYPE_OTHER int

record file_change =
  fc_type :: change_type
  fc_file :: "file_info option"
  fc_old_path :: string

record file_tree =
  ft_files :: "file_info option list"
  ft_workspace_name :: string

record read_req =
  rd_path :: string
  rd_offset :: int
  rd_length :: int

record write_req =
  wr_path :: string
  wr_content :: bytes
  wr_append :: bool
  wr_mode :: nat
  wr_offset :: int

record mkdir_req =
  mk_path :: string
  mk_recursive :: bool

record rename_req =
  rn_old_path :: string
  rn_new_path :: string

record truncate_req =
  tr_path :: string
  tr_size :: int

text \<open>The operation of a request; the message under a chosen alternative may be nil.\<close>

datatype operation =
  OpRead "read_req option"
| OpStat "string option"
| OpListDir "string option"
| OpWrite "write_req option"
| OpDelete "string option"
| OpMkdir "mkdir_req option"
| OpRename "rename_req option"
| OpTruncate "truncate_req option"

record file_request =
  rq_id :: string
  rq_op :: "operation option"

datatype resp_result = ResNone | ResContent bytes | ResInfo "file_info option" | ResEntries "file_info list"

record file_response =
  rp_id :: string
  rp_success :: bool
  rp_error :: string
  rp_result :: resp_result

definition resp_content :: "file_response \<Rightarrow> bytes" where
  "resp_content r = (case rp_result r of ResContent b \<Rightarrow> b | _ \<Rightarrow> [])"

definition resp_info :: "file_response \<Rightarrow> file_info option" where
  "resp_info r = (case rp_result r of ResInfo i \<Rightarrow> i | _ \<Rightarrow> None)"

datatype daemon_msg =
  MsgFileTree "file_tree option"
| MsgChange "file_change option"
| MsgResponse "file_response option"
| MsgHeartbeat
| MsgNone

datatype server_msg = SrvRequest file_request | SrvHeartbeat

end
