(* ===== verification/Fstree.thy ===== *)
theory Fstree
  imports Safepath Proto
begin

text \<open>
  The metadata tree \<open>src/pkg/fstree/fstree.go\<close>. The Go map from paths to node pointers is an
  association list, a node's set of child names a list without repetition in an arbitrary order
  (the order Go ranges over it). The lock makes every exported operation atomic.
\<close>

section \<open>Definitions\<close>

datatype tree_error = ErrNilInfo | ErrNilChange | ErrUnknownChangeType

text \<open>\<open>n_children\<close> is \<open>None\<close> for Go's nil map.\<close>

record node =
  n_info :: file_info
  n_children :: "string list option"

record fstree =
  nodes :: "(string \<times> node) list"

definition placeholder_info :: "string \<Rightarrow> file_info" where
  "placeholder_info p = zero_info\<lparr>fi_path := p, fi_is_dir := True\<rparr>"

definition fstree_New :: fstree where
  "fstree_New = \<lparr>nodes = [([], \<lparr>n_info = placeholder_info [], n_children = Some []\<rparr>)]\<rparr>"

definition fstree_normalize :: "string \<Rightarrow> string" where
  "fstree_normalize p =
     (let p = replace_backslash p in
      if p = [] \<or> p = [slash] \<or> p = ''.'' then []
      else
        (let cleaned = trim_prefix (path_clean p) [slash] in
         if cleaned = ''.'' then [] else cleaned))"

text \<open>The cut at the last slash.\<close>

definition splitParent :: "string \<Rightarrow> string \<times> string" where
  "splitParent p =
     (if slash \<notin> set p then ([], p)
      else (let base = path_file p in (take (length p - length base - 1) p, base)))"

definition joinPath :: "string \<Rightarrow> string \<Rightarrow> string" where
  "joinPath parent base = (if parent = [] then base else parent @ slash # base)"

definition cloneInfo :: "file_info \<Rightarrow> file_info" where
  "cloneInfo i =
     \<lparr>fi_path = fi_path i, fi_size = fi_size i, fi_mod_time = fi_mod_time i,
      fi_is_dir = fi_is_dir i, fi_mode = fi_mode i\<rparr>"

text \<open>Reading, storing and removing a node of the map.\<close>

definition tmap :: "fstree \<Rightarrow> string \<Rightarrow> node option" where
  "tmap t = map_of (nodes t)"

definition put_node :: "string \<Rightarrow> node \<Rightarrow> fstree \<Rightarrow> fstree" where
  "put_node k n t = t\<lparr>nodes := AList.update k n (nodes t)\<rparr>"

definition drop_node :: "string \<Rightarrow> fstree \<Rightarrow> fstree" where
  "drop_node k t = t\<lparr>nodes := AList.delete k (nodes t)\<rparr>"

definition child_names :: "node \<Rightarrow> string list" where
  "child_names n = (case n_children n of None \<Rightarrow> [] | Some cs \<Rightarrow> cs)"

text \<open>\<open>pn.children[base] = struct{}{}\<close>, with the nil map replaced first.\<close>

definition link_child :: "string \<Rightarrow> string \<Rightarrow> fstree \<Rightarrow> fstree" where
  "link_child parent base t =
     (case tmap t parent of
        None \<Rightarrow> t
      | Some pn \<Rightarrow> put_node parent (pn\<lparr>n_children := Some (List.insert base (child_names pn))\<rparr>) t)"

text \<open>\<open>delete(pn.children, base)\<close>, a no-op on the nil map.\<close>

definition unlink_child :: "string \<Rightarrow> string \<Rightarrow> fstree \<Rightarrow> fstree" where
  "unlink_child parent base t =
     (case tmap t parent of
        None \<Rightarrow> t
      | Some pn \<Rightarrow> put_node parent (pn\<lparr>n_children := map_option (removeAll base) (n_children pn)\<rparr>) t)"

definition promoteToDir :: "node \<Rightarrow> node" where
  "promoteToDir n =
     (let n1 = (if \<not> fi_is_dir (n_info n)
                then n\<lparr>n_info := placeholder_info (fi_path (n_info n))\<rparr> else n)
      in if n_children n1 = None then n1\<lparr>n_children := Some []\<rparr> else n1)"

definition childrenMapForInfo :: "node option \<Rightarrow> file_info \<Rightarrow> string list option" where
  "childrenMapForInfo prev info =
     (if \<not> fi_is_dir info then None
      else (case prev of
              Some n \<Rightarrow> (case n_children n of Some cs \<Rightarrow> Some cs | None \<Rightarrow> Some [])
            | None \<Rightarrow> Some []))"

lemma splitParent_shorter: "fst (splitParent p) \<noteq> [] \<Longrightarrow> length (fst (splitParent p)) < length p"
  by (cases p) (auto simp: splitParent_def Let_def split: if_splits)

function ensureAncestors :: "string \<Rightarrow> fstree \<Rightarrow> fstree" where
  "ensureAncestors p t =
     (let parent = fst (splitParent p) in
      if parent = [] then t
      else
        (case tmap t parent of
           Some n \<Rightarrow> put_node parent (promoteToDir n) t
         | None \<Rightarrow>
             (let t1 = ensureAncestors parent t;
                  t2 = put_node parent \<lparr>n_info = placeholder_info parent, n_children = Some []\<rparr> t1;
                  (gp, base) = splitParent parent
              in link_child gp base t2)))"
  by pat_completeness auto
termination
  by (relation "measure (\<lambda>(p, t). length p)") (auto simp: splitParent_shorter)

text \<open>\<open>deleteLocked\<close> recurses through the child names of a directory; each level lengthens the path,
  and the fuel bounds the depth.\<close>

fun deleteLocked :: "nat \<Rightarrow> string \<Rightarrow> fstree \<Rightarrow> fstree option" where
  "deleteLocked 0 p t = None"
| "deleteLocked (Suc fuel) p t =
     (case tmap t p of
        None \<Rightarrow> Some t
      | Some n \<Rightarrow>
          (case (if fi_is_dir (n_info n)
                 then fold_opt (\<lambda>child. deleteLocked fuel (joinPath p child)) (child_names n) t
                 else Some t) of
             None \<Rightarrow> None
           | Some t1 \<Rightarrow>
               (let (parent, base) = splitParent p
                in Some (unlink_child parent base (drop_node p t1)))))"

text \<open>Enough fuel: no key is longer than \<open>key_bound\<close>.\<close>

definition key_bound :: "fstree \<Rightarrow> nat" where
  "key_bound t = foldr (\<lambda>(k, _) m. max (length k) m) (nodes t) 0"

definition delete_subtree :: "string \<Rightarrow> fstree \<Rightarrow> fstree" where
  "delete_subtree p t =
     (case deleteLocked (key_bound t + 2) p t of None \<Rightarrow> t | Some t' \<Rightarrow> t')"

definition pruneChildren :: "string \<Rightarrow> node \<Rightarrow> fstree \<Rightarrow> fstree" where
  "pruneChildren p n t = foldl (\<lambda>t child. delete_subtree (joinPath p child) t) t (child_names n)"

definition insertLocked :: "string \<Rightarrow> file_info \<Rightarrow> fstree \<Rightarrow> fstree" where
  "insertLocked p info t =
     (let t1 = (case tmap t p of
                  Some prev \<Rightarrow>
                    if fi_is_dir (n_info prev) \<and> \<not> fi_is_dir info then pruneChildren p prev t else t
                | None \<Rightarrow> t);
          t2 = ensureAncestors p t1;
          stored = (cloneInfo info)\<lparr>fi_path := p\<rparr>;
          t3 = put_node p \<lparr>n_info = stored, n_children = childrenMapForInfo (tmap t2 p) stored\<rparr> t2;
          (parent, base) = splitParent p
      in link_child parent base t3)"

text \<open>The operations that can fail return the tree they leave behind and the error, if any.\<close>

definition fstree_Insert :: "fstree \<Rightarrow> file_info option \<Rightarrow> fstree \<times> tree_error option" where
  "fstree_Insert t info =
     (case info of
        None \<Rightarrow> (t, Some ErrNilInfo)
      | Some i \<Rightarrow>
          (let cleaned = fstree_normalize (fi_path i)
           in if cleaned = [] then (t, None) else (insertLocked cleaned i t, None)))"

definition fstree_Delete :: "fstree \<Rightarrow> string \<Rightarrow> fstree" where
  "fstree_Delete t p =
     (let cleaned = fstree_normalize p in if cleaned = [] then t else delete_subtree cleaned t)"

definition fstree_Lookup :: "fstree \<Rightarrow> string \<Rightarrow> file_info option" where
  "fstree_Lookup t p = map_option (\<lambda>n. cloneInfo (n_info n)) (tmap t (fstree_normalize p))"

definition fstree_List :: "fstree \<Rightarrow> string \<Rightarrow> file_info list option" where
  "fstree_List t p =
     (let cleaned = fstree_normalize p in
      case tmap t cleaned of
        None \<Rightarrow> None
      | Some n \<Rightarrow>
          if \<not> fi_is_dir (n_info n) then None
          else Some (List.map_filter
                 (\<lambda>name. map_option (\<lambda>c. cloneInfo (n_info c)) (tmap t (joinPath cleaned name)))
                 (child_names n)))"

definition fstree_Apply :: "fstree \<Rightarrow> file_change option \<Rightarrow> fstree \<times> tree_error option" where
  "fstree_Apply t change =
     (case change of
        None \<Rightarrow> (t, Some ErrNilChange)
      | Some c \<Rightarrow>
          (case fc_type c of
             CHANGE_TYPE_CREATE \<Rightarrow> fstree_Insert t (fc_file c)
           | CHANGE_TYPE_MODIFY \<Rightarrow> fstree_Insert t (fc_file c)
           | CHANGE_TYPE_DELETE \<Rightarrow>
               (case fc_file c of None \<Rightarrow> (t, None) | Some f \<Rightarrow> (fstree_Delete t (fi_path f), None))
           | CHANGE_TYPE_RENAME \<Rightarrow> fstree_Insert (fstree_Delete t (fc_old_path c)) (fc_file c)
           | _ \<Rightarrow> (t, Some ErrUnknownChangeType)))"

definition fstree_Snapshot :: "fstree \<Rightarrow> file_info list" where
  "fstree_Snapshot t =
     map (\<lambda>(p, n). cloneInfo (n_info n)) (filter (\<lambda>(p, n). p \<noteq> []) (nodes t))"

declare ensureAncestors.simps [simp del]

end
