(* ===== verification/Fstree_Correct.thy ===== *)
theory Fstree_Correct
  imports Fstree
begin

text \<open>
  Correctness of the metadata tree. \<open>wf_tree\<close> is its invariant (every key has its ancestors as
  directories, child sets and key map agree); \<open>tinfo\<close> is the abstract view, metadata by key; \<open>spec_insert\<close>
  and \<open>spec_delete\<close> say what an operation does to the view. The locale \<open>meta_store\<close> is the contract the
  session and the file system rely on, with the replay of a full tree proved from it.
\<close>

section \<open>Keys\<close>

text \<open>A path segment, and a key below the root: no empty segment.\<close>

definition seg :: "string \<Rightarrow> bool" where
  "seg c = (c \<noteq> [] \<and> slash \<notin> set c)"

definition valid_key :: "string \<Rightarrow> bool" where
  "valid_key k = ([] \<notin> set (split_on slash k))"

abbreviation dirname :: "string \<Rightarrow> string" where "dirname k \<equiv> fst (splitParent k)"
abbreviation basename :: "string \<Rightarrow> string" where "basename k \<equiv> snd (splitParent k)"

text \<open>\<open>q\<close> is \<open>p\<close> or lies below it.\<close>

definition subpath :: "string \<Rightarrow> string \<Rightarrow> bool" where
  "subpath p q = (q = p \<or> prefix (p @ [slash]) q)"

lemma path_file_snoc: "slash \<notin> set b \<Longrightarrow> path_file (d @ slash # b) = b"
  using takeWhile_until_sep [of slash "rev b" "rev d"] by (simp add: path_file_def)

lemma splitParent_noslash [simp]: "slash \<notin> set c \<Longrightarrow> splitParent c = ([], c)"
  by (simp add: splitParent_def)

lemma splitParent_snoc [simp]: "slash \<notin> set b \<Longrightarrow> splitParent (d @ slash # b) = (d, b)"
  by (simp add: splitParent_def path_file_snoc)

lemma splitParent_joinPath [simp]: "seg c \<Longrightarrow> splitParent (joinPath d c) = (d, c)"
  by (auto simp: joinPath_def seg_def)

lemma last_slash_cases:
  obtains "slash \<notin> set k" | d b where "k = d @ slash # b" "slash \<notin> set b"
  using split_list_last [of slash k] by blast

lemma valid_key_noslash [simp]: "slash \<notin> set c \<Longrightarrow> valid_key c = (c \<noteq> [])"
  by (auto simp: valid_key_def split_on_single)

lemma valid_key_snoc [simp]: "slash \<notin> set b \<Longrightarrow> valid_key (d @ slash # b) = (valid_key d \<and> b \<noteq> [])"
  by (auto simp: valid_key_def split_on_append split_on_single)

lemma valid_key_ne [simp]: "\<not> valid_key []"
  by (simp add: valid_key_def)

lemma valid_key_joinPath: "seg c \<Longrightarrow> d = [] \<or> valid_key d \<Longrightarrow> valid_key (joinPath d c)"
  by (auto simp: joinPath_def seg_def)

lemma valid_key_parts:
  assumes "valid_key k"
  shows "k = joinPath (dirname k) (basename k)" "seg (basename k)"
    "dirname k = [] \<or> valid_key (dirname k)" "length (dirname k) < length k"
proof -
  show "k = joinPath (dirname k) (basename k)"
    using assms by (cases k rule: last_slash_cases) (auto simp: joinPath_def)
  show "seg (basename k)" "dirname k = [] \<or> valid_key (dirname k)" "length (dirname k) < length k"
    using assms by (cases k rule: last_slash_cases; auto simp: seg_def)+
qed

lemma joinPath_eq_iff: "valid_key k \<Longrightarrow> seg c \<Longrightarrow> joinPath d c = k \<longleftrightarrow> d = dirname k \<and> c = basename k"
  using valid_key_parts(1) [of k] by (metis fst_conv snd_conv splitParent_joinPath)

lemma joinPath_inject: "seg c \<Longrightarrow> seg c' \<Longrightarrow> joinPath d c = joinPath d' c' \<longleftrightarrow> d = d' \<and> c = c'"
  by (metis splitParent_joinPath prod.inject)

lemma dirname_ne: "valid_key k \<Longrightarrow> dirname k \<noteq> k"
  using valid_key_parts(4) [of k] by auto

lemma joinPath_ne [simp]: "seg c \<Longrightarrow> joinPath d c \<noteq> []"
  by (auto simp: joinPath_def seg_def)

lemma joinPath_longer: "seg c \<Longrightarrow> d \<noteq> [] \<Longrightarrow> length d < length (joinPath d c)"
  by (simp add: joinPath_def)

section \<open>Ancestors\<close>

lemma subpath_refl [simp]: "subpath p p"
  by (simp add: subpath_def)

lemma subpath_alt: "subpath p q \<longleftrightarrow> prefix (p @ [slash]) (q @ [slash])"
  by (auto simp: subpath_def prefix_snoc)

lemma subpath_trans: "subpath p q \<Longrightarrow> subpath q r \<Longrightarrow> subpath p r"
  by (auto simp: subpath_def prefix_def)

lemma subpath_length: "subpath p q \<Longrightarrow> length p \<le> length q"
  by (auto simp: subpath_def dest: prefix_length_le)

lemma subpath_antisym: "subpath p q \<Longrightarrow> subpath q p \<Longrightarrow> p = q"
  by (auto simp: subpath_def prefix_def)

lemma subpath_joinPath: "d \<noteq> [] \<Longrightarrow> subpath d (joinPath d c)"
  by (simp add: subpath_def joinPath_def)

lemma subpath_joinPath_cases:
  assumes "seg c" "p \<noteq> []"
  shows "subpath p (joinPath d c) \<longleftrightarrow> p = joinPath d c \<or> d \<noteq> [] \<and> subpath p d"
proof
  assume "subpath p (joinPath d c)"
  then show "p = joinPath d c \<or> d \<noteq> [] \<and> subpath p d"
  proof (cases "joinPath d c = p")
    case False
    with \<open>subpath p (joinPath d c)\<close> obtain r where r: "joinPath d c = p @ slash # r"
      by (auto simp: subpath_def prefix_def)
    then have d: "d \<noteq> []" using assms(1) by (auto simp: joinPath_def seg_def)
    with r have e: "d @ slash # c = p @ slash # r" by (simp add: joinPath_def)
    show ?thesis
    proof (cases r rule: last_slash_cases)
      case 1
      with e have "d = p"
        using splitParent_snoc [of c d] splitParent_snoc [of r p] assms(1) by (simp add: seg_def)
      with d show ?thesis by simp
    next
      case (2 r1 r2)
      with e have "d = p @ slash # r1"
        using splitParent_snoc [of c d] splitParent_snoc [of r2 "p @ slash # r1"] assms(1)
        by (simp add: seg_def)
      with d show ?thesis by (simp add: subpath_def prefix_def)
    qed
  qed simp
next
  assume "p = joinPath d c \<or> d \<noteq> [] \<and> subpath p d"
  then show "subpath p (joinPath d c)"
    using subpath_trans [OF _ subpath_joinPath] by auto
qed

lemma subpath_key_cases:
  assumes "valid_key q" "p \<noteq> []"
  shows "subpath p q \<longleftrightarrow> p = q \<or> dirname q \<noteq> [] \<and> subpath p (dirname q)"
  using subpath_joinPath_cases [OF valid_key_parts(2) [OF assms(1)] assms(2), of "dirname q"]
    valid_key_parts(1) [OF assms(1)] by simp

text \<open>Two subtrees are nested or disjoint.\<close>

lemma subpath_siblings:
  assumes "seg c" "seg c'" "d \<noteq> []" "subpath (joinPath d c) q" "subpath (joinPath d c') q"
  shows "c = c'"
proof -
  obtain r r' where "q @ [slash] = (d @ slash # c @ [slash]) @ r" "q @ [slash] = (d @ slash # c' @ [slash]) @ r'"
    using assms by (auto simp: subpath_alt joinPath_def prefix_def)
  then have "c @ slash # r = c' @ slash # r'" by simp
  then show ?thesis
    using append_sep_inject [of c slash r c' r'] assms by (simp add: seg_def)
qed

section \<open>Well-formed maps of nodes\<close>

definition kids :: "node \<Rightarrow> string set" where
  "kids n = set (child_names n)"

definition node_ok :: "string \<Rightarrow> node \<Rightarrow> bool" where
  "node_ok k n = (fi_path (n_info n) = k \<and> (n_children n \<noteq> None) = fi_is_dir (n_info n)
     \<and> distinct (child_names n))"

text \<open>The root is a directory; a node knows its path, has a child map iff it is a directory, and its
  child names are the last segments of the keys directly below it; keys have no empty segment and
  every key but the root has its parent.\<close>

definition wfm :: "(string \<Rightarrow> node option) \<Rightarrow> bool" where
  "wfm m =
     ((\<exists>r. m [] = Some r \<and> fi_is_dir (n_info r))
      \<and> (\<forall>k n. m k = Some n \<longrightarrow> node_ok k n \<and> kids n = {c. seg c \<and> joinPath k c \<in> dom m})
      \<and> (\<forall>k. k \<in> dom m \<and> k \<noteq> [] \<longrightarrow> valid_key k \<and> dirname k \<in> dom m))"

definition wf_tree :: "fstree \<Rightarrow> bool" where
  "wf_tree t = (distinct (map fst (nodes t)) \<and> wfm (tmap t))"

lemma wfm_root: "wfm m \<Longrightarrow> \<exists>r. m [] = Some r \<and> fi_is_dir (n_info r)"
  by (simp add: wfm_def)

lemma wfm_ok: "wfm m \<Longrightarrow> m k = Some n \<Longrightarrow> node_ok k n"
  by (simp add: wfm_def)

lemma wfm_kids: "wfm m \<Longrightarrow> m k = Some n \<Longrightarrow> kids n = {c. seg c \<and> joinPath k c \<in> dom m}"
  by (simp add: wfm_def)

lemma wfm_valid: "wfm m \<Longrightarrow> m k = Some n \<Longrightarrow> k \<noteq> [] \<Longrightarrow> valid_key k"
  by (auto simp: wfm_def)

lemma wfm_parent:
  assumes "wfm m" "m k = Some n" "k \<noteq> []"
  shows "\<exists>d. m (dirname k) = Some d \<and> fi_is_dir (n_info d) \<and> basename k \<in> kids d"
proof -
  have v: "valid_key k" using assms by (rule wfm_valid)
  obtain d where d: "m (dirname k) = Some d"
    using assms by (auto simp: wfm_def)
  have "basename k \<in> kids d"
    using wfm_kids [OF assms(1) d] valid_key_parts [OF v] assms(2) by auto
  moreover have "n_children d \<noteq> None"
    using calculation by (cases "n_children d") (simp_all add: kids_def child_names_def)
  ultimately show ?thesis using d wfm_ok [OF assms(1) d] by (auto simp: node_ok_def)
qed

text \<open>Every proper ancestor of a key is a directory of the tree.\<close>

lemma wfm_ancestor:
  assumes "wfm m" "m k = Some n" "subpath q k" "q \<noteq> k" "q \<noteq> []"
  shows "\<exists>d. m q = Some d \<and> fi_is_dir (n_info d)"
  using assms(2-)
proof (induction "length k" arbitrary: k n rule: less_induct)
  case less
  have k: "k \<noteq> []" using less.prems by (auto simp: subpath_def)
  have v: "valid_key k" using assms(1) less.prems(1) k by (rule wfm_valid)
  have u: "dirname k \<noteq> []" "subpath q (dirname k)"
    using less.prems subpath_key_cases [OF v, of q] by auto
  obtain d where d: "m (dirname k) = Some d" "fi_is_dir (n_info d)"
    using wfm_parent [OF assms(1) less.prems(1) k] by auto
  show ?case
  proof (cases "q = dirname k")
    case True
    with d show ?thesis by simp
  next
    case False
    then show ?thesis
      using less.hyps [OF valid_key_parts(4) [OF v] d(1) u(2)] less.prems(4) by simp
  qed
qed

subsection \<open>Updates that keep a map well-formed\<close>

lemma kids_upd [simp]: "kids (n\<lparr>n_children := Some cs\<rparr>) = set cs"
  by (simp add: kids_def child_names_def)

lemma kids_unlink [simp]:
  "kids (n\<lparr>n_children := map_option (removeAll b) (n_children n)\<rparr>) = kids n - {b}"
  by (cases "n_children n") (simp_all add: kids_def child_names_def)

lemma node_ok_link:
  "node_ok q d \<Longrightarrow> fi_is_dir (n_info d) \<Longrightarrow>
   node_ok q (d\<lparr>n_children := Some (List.insert b (child_names d))\<rparr>)"
  by (simp add: node_ok_def child_names_def)

lemma node_ok_unlink:
  "node_ok q d \<Longrightarrow> node_ok q (d\<lparr>n_children := map_option (removeAll b) (n_children d)\<rparr>)"
  by (cases "n_children d") (simp_all add: node_ok_def child_names_def distinct_removeAll)

text \<open>Replacing the node of a key by one with the same child names.\<close>

lemma wfm_replace:
  assumes "wfm m" "m k = Some n" "node_ok k n'" "kids n' = kids n"
    "k = [] \<Longrightarrow> fi_is_dir (n_info n')"
  shows "wfm (m(k \<mapsto> n'))"
proof -
  have dom: "dom (m(k \<mapsto> n')) = dom m" using assms(2) by auto
  show ?thesis
    unfolding wfm_def dom
    using assms wfm_root [OF assms(1)] wfm_ok [OF assms(1)] wfm_kids [OF assms(1)]
    by (auto simp: wfm_def)
qed

text \<open>A new key and its link from the parent.\<close>

lemma wfm_add:
  assumes m: "wfm m" and k: "m k = None" "valid_key k" and d: "m (dirname k) = Some d" "fi_is_dir (n_info d)"
    and n: "node_ok k n" "kids n = {}"
  shows "wfm (m(k \<mapsto> n, dirname k \<mapsto> d\<lparr>n_children := Some (List.insert (basename k) (child_names d))\<rparr>))"
    (is "wfm ?m")
proof -
  have dk: "dirname k \<noteq> k" using k(2) by (rule dirname_ne)
  have dom: "dom ?m = insert k (dom m)" using d by auto
  have below: "joinPath k c \<notin> dom m" if "seg c" for c
  proof
    assume "joinPath k c \<in> dom m"
    then obtain x where x: "m (joinPath k c) = Some x" by auto
    have "k \<noteq> []" using k(2) by auto
    then have "subpath k (joinPath k c)" "k \<noteq> joinPath k c"
      using subpath_joinPath [of k c] joinPath_longer [OF that, of k] by auto
    from wfm_ancestor [OF m x this \<open>k \<noteq> []\<close>] k(1) show False by simp
  qed
  have kid: "kids x = {c. seg c \<and> joinPath q c \<in> dom m}" "node_ok q x" if "m q = Some x" for q x
    using m that by (simp_all add: wfm_kids wfm_ok)
  show ?thesis
    unfolding wfm_def dom
  proof (intro conjI allI impI)
    show "\<exists>r. ?m [] = Some r \<and> fi_is_dir (n_info r)"
      using wfm_root [OF m] d k by (cases "dirname k = []") auto
  next
    fix q x assume q: "?m q = Some x"
    show "node_ok q x"
      using q n(1) kid(2) [of q x] node_ok_link [OF kid(2) [OF d(1)] d(2)]
      by (auto split: if_splits)
    consider "q = dirname k" | "q = k" | "q \<noteq> k" "q \<noteq> dirname k" by blast
    then show "kids x = {c. seg c \<and> joinPath q c \<in> insert k (dom m)}"
    proof cases
      case 1
      with q have "kids x = insert (basename k) (kids d)" by (auto simp: kids_def [of d])
      with 1 kid(1) [OF d(1)] valid_key_parts [OF k(2)] show ?thesis
        by (auto simp: joinPath_eq_iff [OF k(2)])
    next
      case 2
      with q dk have "x = n" by simp
      with 2 n below show ?thesis
        by (auto simp: joinPath_eq_iff [OF k(2)] dk [symmetric])
    next
      case 3
      with q kid(1) [of q x] show ?thesis
        by (auto simp: joinPath_eq_iff [OF k(2)])
    qed
  next
    fix q assume "q \<in> insert k (dom m) \<and> q \<noteq> []"
    then show "valid_key q" "dirname q \<in> insert k (dom m)"
      using m k d by (auto simp: wfm_def)
  qed
qed

text \<open>Removing a key without children and its link.\<close>

lemma wfm_remove:
  assumes m: "wfm m" and k: "m k = Some n" "k \<noteq> []" "kids n = {}" and d: "m (dirname k) = Some d"
  shows "wfm (m(k := None, dirname k \<mapsto> d\<lparr>n_children := map_option (removeAll (basename k)) (n_children d)\<rparr>))"
    (is "wfm ?m")
proof -
  have v: "valid_key k" using m k(1,2) by (rule wfm_valid)
  have dk: "dirname k \<noteq> k" using v by (rule dirname_ne)
  have dom: "dom ?m = dom m - {k}" using d dk by auto
  have kid: "kids x = {c. seg c \<and> joinPath q c \<in> dom m}" "node_ok q x" if "m q = Some x" for q x
    using m that by (simp_all add: wfm_kids wfm_ok)
  show ?thesis
    unfolding wfm_def dom
  proof (intro conjI allI impI)
    show "\<exists>r. ?m [] = Some r \<and> fi_is_dir (n_info r)"
      using wfm_root [OF m] d k by (cases "dirname k = []") auto
  next
    fix q x assume q: "?m q = Some x"
    show "node_ok q x"
      using q kid(2) [of q x] node_ok_unlink [OF kid(2) [OF d]]
      by (auto split: if_splits)
    consider "q = dirname k" | "q \<noteq> k" "q \<noteq> dirname k" using q dk by force
    then show "kids x = {c. seg c \<and> joinPath q c \<in> dom m - {k}}"
    proof cases
      case 1
      with q have "kids x = kids d - {basename k}" by auto
      with 1 kid(1) [OF d(1)] show ?thesis
        by (auto simp: joinPath_eq_iff [OF v])
    next
      case 2
      with q kid(1) [of q x] show ?thesis
        by (auto simp: joinPath_eq_iff [OF v])
    qed
  next
    fix q assume q: "q \<in> dom m - {k} \<and> q \<noteq> []"
    then obtain x where x: "m q = Some x" "q \<noteq> k" "q \<noteq> []" by auto
    show "valid_key q" using m x by (auto simp: wfm_valid)
    from wfm_parent [OF m x(1) x(3)] k(1,3) show "dirname q \<in> dom m - {k}" by auto
  qed
qed

section \<open>The view of a tree: metadata by key\<close>

definition tinfo :: "fstree \<Rightarrow> string \<Rightarrow> file_info option" where
  "tinfo t q = map_option n_info (tmap t q)"

lemma tinfo_None [simp]: "tinfo t q = None \<longleftrightarrow> tmap t q = None"
  by (simp add: tinfo_def)

lemma tmap_put [simp, tree_simps]: "tmap (put_node k n t) = (tmap t)(k \<mapsto> n)"
  by (simp add: tmap_def put_node_def)

lemma tmap_drop [simp, tree_simps]: "tmap (drop_node k t) = (tmap t)(k := None)"
  by (simp add: tmap_def drop_node_def)

lemma tmap_link [tree_simps]:
  "tmap t d = Some n \<Longrightarrow> tmap (link_child d b t) =
     (tmap t)(d \<mapsto> n\<lparr>n_children := Some (List.insert b (child_names n))\<rparr>)"
  by (simp add: link_child_def)

lemma tmap_unlink [tree_simps]:
  "tmap t d = Some n \<Longrightarrow> tmap (unlink_child d b t) =
     (tmap t)(d \<mapsto> n\<lparr>n_children := map_option (removeAll b) (n_children n)\<rparr>)"
  by (simp add: unlink_child_def)

lemma tinfo_put: "tinfo (put_node k n t) q = (if q = k then Some (n_info n) else tinfo t q)"
  by (simp add: tinfo_def)

lemma tinfo_link [simp]: "tinfo (link_child d b t) q = tinfo t q"
  by (cases "tmap t d") (auto simp: tinfo_def link_child_def)

lemma tinfo_unlink [simp]: "tinfo (unlink_child d b t) q = tinfo t q"
  by (cases "tmap t d") (auto simp: tinfo_def unlink_child_def)

definition distinct_keys :: "fstree \<Rightarrow> bool" where
  "distinct_keys t = distinct (map fst (nodes t))"

lemma distinct_keys_ops [simp]:
  "distinct_keys t \<Longrightarrow> distinct_keys (put_node k n t)"
  "distinct_keys t \<Longrightarrow> distinct_keys (drop_node k t)"
  "distinct_keys t \<Longrightarrow> distinct_keys (link_child d b t)"
  "distinct_keys t \<Longrightarrow> distinct_keys (unlink_child d b t)"
  by (simp_all add: distinct_keys_def put_node_def drop_node_def link_child_def unlink_child_def
      split: option.splits)

lemma wf_treeI: "distinct_keys t \<Longrightarrow> wfm (tmap t) \<Longrightarrow> wf_tree t"
  by (simp add: wf_tree_def distinct_keys_def)

lemma wf_treeD: "wf_tree t \<Longrightarrow> distinct_keys t" "wf_tree t \<Longrightarrow> wfm (tmap t)"
  by (simp_all add: wf_tree_def distinct_keys_def)

section \<open>Deletion\<close>

lemma wfm_descend:
  assumes "wfm m" "m q = Some n" "subpath p q" "q \<noteq> p" "p \<noteq> []"
  shows "\<exists>c. seg c \<and> joinPath p c \<in> dom m \<and> subpath (joinPath p c) q"
  using assms(2-)
proof (induction "length q" arbitrary: q n rule: less_induct)
  case less
  have q: "q \<noteq> []" using less.prems by (auto simp: subpath_def)
  have v: "valid_key q" using assms(1) less.prems(1) q by (rule wfm_valid)
  have u: "dirname q \<noteq> []" "subpath p (dirname q)"
    using less.prems subpath_key_cases [OF v, of p] by auto
  obtain d where d: "m (dirname q) = Some d"
    using wfm_parent [OF assms(1) less.prems(1) q] by auto
  show ?case
  proof (cases "dirname q = p")
    case True
    then show ?thesis
      using valid_key_parts [OF v] less.prems(1) by (intro exI [of _ "basename q"]) auto
  next
    case False
    then obtain c where c: "seg c" "joinPath p c \<in> dom m" "subpath (joinPath p c) (dirname q)"
      using less.hyps [OF valid_key_parts(4) [OF v] d u(2)] less.prems(4) by auto
    have "subpath (dirname q) q"
      using subpath_joinPath [OF u(1)] valid_key_parts(1) [OF v] by metis
    with c show ?thesis using subpath_trans by blast
  qed
qed

text \<open>Every key is short enough for the fuel that is left.\<close>

definition fits :: "nat \<Rightarrow> string \<Rightarrow> fstree \<Rightarrow> bool" where
  "fits n p t = (0 < n \<and> (\<forall>k. tmap t k \<noteq> None \<longrightarrow> length k + 2 \<le> length p + n))"

definition removes :: "(string \<Rightarrow> bool) \<Rightarrow> fstree \<Rightarrow> fstree \<Rightarrow> bool" where
  "removes P t t' = (wf_tree t' \<and> (\<forall>q. tinfo t' q = (if P q then None else tinfo t q)))"

lemma removes_dom: "removes P t t' \<Longrightarrow> tmap t' k \<noteq> None \<Longrightarrow> tmap t k \<noteq> None"
  unfolding removes_def by (metis tinfo_None)

lemma removes_fits: "removes P t t' \<Longrightarrow> fits n p t \<Longrightarrow> fits n p t'"
  using removes_dom by (fastforce simp: fits_def)

lemma fits_child:
  assumes "fits (Suc n) p t" "tmap t p \<noteq> None" "seg c" "p \<noteq> []"
  shows "fits n (joinPath p c) t"
proof -
  have "length p + 2 \<le> length p + Suc n" using assms by (auto simp: fits_def)
  moreover have "length p + 1 \<le> length (joinPath p c)"
    using joinPath_longer [OF assms(3,4)] by simp
  ultimately show ?thesis using assms(1) by (fastforce simp: fits_def)
qed

lemma removes_loop:
  assumes step: "\<And>c t. seg c \<Longrightarrow> wf_tree t \<Longrightarrow> fits n (joinPath p c) t \<Longrightarrow>
      \<exists>t'. f c t = Some t' \<and> removes (subpath (joinPath p c)) t t'"
    and "wf_tree t" "\<forall>c \<in> set cs. seg c \<and> fits n (joinPath p c) t"
  shows "\<exists>t'. fold_opt f cs t = Some t' \<and> removes (\<lambda>q. \<exists>c \<in> set cs. subpath (joinPath p c) q) t t'"
  using assms(2-)
proof (induction cs arbitrary: t)
  case Nil
  then show ?case by (simp add: removes_def)
next
  case (Cons c cs)
  then obtain t1 where t1: "f c t = Some t1" "removes (subpath (joinPath p c)) t t1"
    using step [of c t] by auto
  have "wf_tree t1" using t1(2) by (simp add: removes_def)
  moreover have "\<forall>c \<in> set cs. seg c \<and> fits n (joinPath p c) t1"
    using Cons.prems(2) removes_fits [OF t1(2)] by auto
  ultimately obtain t' where t': "fold_opt f cs t1 = Some t'"
    "removes (\<lambda>q. \<exists>c \<in> set cs. subpath (joinPath p c) q) t1 t'"
    using Cons.IH by blast
  then show ?case using t1 by (auto simp: removes_def)
qed

lemma kids_segs: "wf_tree t \<Longrightarrow> tmap t p = Some n \<Longrightarrow> c \<in> set (child_names n) \<Longrightarrow> seg c"
  using wfm_kids [OF wf_treeD(2), of t p n] by (auto simp: kids_def)

text \<open>With the subtrees of all children gone, nothing is left below the node.\<close>

lemma children_removed:
  assumes t: "wf_tree t" "tmap t p = Some n" "p \<noteq> []"
    and r: "removes (\<lambda>q. \<exists>c \<in> set (child_names n). subpath (joinPath p c) q) t t1"
  shows "removes (\<lambda>q. q \<noteq> p \<and> subpath p q) t t1" "\<exists>n1. tmap t1 p = Some n1 \<and> kids n1 = {}"
proof -
  have below: "(\<exists>c \<in> set (child_names n). subpath (joinPath p c) q) \<longleftrightarrow> q \<noteq> p \<and> subpath p q"
    if "tmap t q \<noteq> None" for q
  proof
    assume "\<exists>c \<in> set (child_names n). subpath (joinPath p c) q"
    then obtain c where c: "c \<in> set (child_names n)" "subpath (joinPath p c) q" by blast
    have "length p < length (joinPath p c)"
      using kids_segs [OF t(1,2) c(1)] t(3) by (rule joinPath_longer)
    then show "q \<noteq> p \<and> subpath p q"
      using subpath_length [OF c(2)] subpath_trans [OF subpath_joinPath [OF t(3)] c(2)] by auto
  next
    assume q: "q \<noteq> p \<and> subpath p q"
    from that obtain x where "tmap t q = Some x" by auto
    with q obtain c where "seg c" "joinPath p c \<in> dom (tmap t)" "subpath (joinPath p c) q"
      using wfm_descend [OF wf_treeD(2) [OF t(1)], of q x p] t(3) by auto
    then show "\<exists>c \<in> set (child_names n). subpath (joinPath p c) q"
      using wfm_kids [OF wf_treeD(2) [OF t(1)] t(2)] by (auto simp: kids_def)
  qed
  show a: "removes (\<lambda>q. q \<noteq> p \<and> subpath p q) t t1"
    using r below unfolding removes_def by (metis tinfo_None)
  then have "tmap t1 p \<noteq> None" using t(2) unfolding removes_def by (metis tinfo_None option.simps(3))
  then obtain n1 where n1: "tmap t1 p = Some n1" by auto
  have "joinPath p c \<notin> dom (tmap t1)" if "seg c" for c
  proof -
    have "joinPath p c \<noteq> p \<and> subpath p (joinPath p c)"
      using joinPath_longer [OF that t(3)] subpath_joinPath [OF t(3)] by auto
    then have "tinfo t1 (joinPath p c) = None" using a unfolding removes_def by metis
    then show ?thesis by auto
  qed
  then have "kids n1 = {}"
    using wfm_kids [OF wf_treeD(2) n1] a by (auto simp: removes_def)
  with n1 show "\<exists>n1. tmap t1 p = Some n1 \<and> kids n1 = {}" by blast
qed

lemma removes_leaf:
  assumes t: "wf_tree t" "tmap t p = Some n" "p \<noteq> []" "kids n = {}"
  shows "removes (\<lambda>q. q = p) t (unlink_child (dirname p) (basename p) (drop_node p t))"
proof -
  obtain d where d: "tmap t (dirname p) = Some d"
    using wfm_parent [OF wf_treeD(2) [OF t(1)] t(2,3)] by auto
  have "dirname p \<noteq> p" using dirname_ne wfm_valid [OF wf_treeD(2) [OF t(1)] t(2,3)] by blast
  with d have d': "tmap (drop_node p t) (dirname p) = Some d" by simp
  have "wf_tree (unlink_child (dirname p) (basename p) (drop_node p t))"
    using wfm_remove [OF wf_treeD(2) [OF t(1)] t(2,3,4) d] wf_treeD(1) [OF t(1)]
    by (intro wf_treeI) (simp_all add: tmap_unlink [OF d'])
  then show ?thesis by (simp add: removes_def) (simp add: tinfo_def)
qed

lemma deleteLocked_spec:
  assumes "wf_tree t" "p \<noteq> []" "fits n p t"
  shows "\<exists>t'. deleteLocked n p t = Some t' \<and> removes (subpath p) t t'"
  using assms
proof (induction n arbitrary: p t)
  case 0
  then show ?case by (simp add: fits_def)
next
  case (Suc n)
  show ?case
  proof (cases "tmap t p")
    case None
    have "tmap t q = None" if "subpath p q" for q
      using wfm_ancestor [OF wf_treeD(2) [OF Suc.prems(1)], of q _ p] that None Suc.prems(2)
      by (cases "tmap t q"; cases "p = q") auto
    then have "removes (subpath p) t t" using Suc.prems(1) by (auto simp: removes_def)
    with None show ?thesis by simp
  next
    case (Some x)
    let ?cs = "child_names x"
    have "\<exists>t1. fold_opt (\<lambda>c. deleteLocked n (joinPath p c)) ?cs t = Some t1
        \<and> removes (\<lambda>q. \<exists>c \<in> set ?cs. subpath (joinPath p c) q) t t1"
    proof (rule removes_loop [of n])
      show "\<forall>c \<in> set ?cs. seg c \<and> fits n (joinPath p c) t"
        using kids_segs [OF Suc.prems(1) Some] fits_child [OF Suc.prems(3)] Some Suc.prems(2) by auto
    qed (auto intro: Suc.IH Suc.prems)
    then obtain t1 where t1: "fold_opt (\<lambda>c. deleteLocked n (joinPath p c)) ?cs t = Some t1"
      "removes (\<lambda>q. \<exists>c \<in> set ?cs. subpath (joinPath p c) q) t t1" by blast
    have nodir: "?cs = []" if "\<not> fi_is_dir (n_info x)"
      using that wfm_ok [OF wf_treeD(2) [OF Suc.prems(1)] Some] by (auto simp: node_ok_def child_names_def)
    note r = children_removed [OF Suc.prems(1) Some Suc.prems(2) t1(2)]
    from r(2) obtain n1 where n1: "tmap t1 p = Some n1" "kids n1 = {}" by blast
    let ?t' = "unlink_child (dirname p) (basename p) (drop_node p t1)"
    have "removes (\<lambda>q. q = p) t1 ?t'"
      using r(1) n1 Suc.prems(2) by (intro removes_leaf) (auto simp: removes_def)
    then have "removes (subpath p) t ?t'"
      using r(1) by (auto simp: removes_def)
    moreover have "deleteLocked (Suc n) p t = Some ?t'"
      using Some t1(1) nodir by (auto simp: case_prod_unfold Let_def)
    ultimately show ?thesis by blast
  qed
qed

lemma key_bound: "tmap t k \<noteq> None \<Longrightarrow> length k \<le> key_bound t"
proof -
  have "map_of xs k \<noteq> None \<Longrightarrow> length k \<le> foldr (\<lambda>(k, _) m. max (length k) m) xs 0"
    for xs :: "(string \<times> node) list"
    by (induction xs) (auto simp: le_max_iff_disj split: if_splits)
  then show "tmap t k \<noteq> None \<Longrightarrow> length k \<le> key_bound t"
    by (simp add: tmap_def key_bound_def)
qed

lemma fits_key_bound: "fits (key_bound t + 2) p t"
  using key_bound by (fastforce simp: fits_def)

lemma delete_subtree_spec:
  assumes "wf_tree t" "p \<noteq> []"
  shows "removes (subpath p) t (delete_subtree p t)"
  using deleteLocked_spec [OF assms fits_key_bound] by (auto simp: delete_subtree_def)

section \<open>Insertion\<close>

text \<open>What the metadata of a proper ancestor becomes.\<close>

definition as_dir :: "string \<Rightarrow> file_info option \<Rightarrow> file_info" where
  "as_dir q i = (case i of Some i \<Rightarrow> if fi_is_dir i then i else placeholder_info q
                         | None \<Rightarrow> placeholder_info q)"

definition proper_anc :: "string \<Rightarrow> string \<Rightarrow> bool" where
  "proper_anc q p = (q \<noteq> [] \<and> q \<noteq> p \<and> subpath q p)"

lemma placeholder_info_simps [simp]:
  "fi_path (placeholder_info p) = p" "fi_is_dir (placeholder_info p)"
  by (simp_all add: placeholder_info_def)

lemma proper_anc_dirname:
  "valid_key p \<Longrightarrow> proper_anc q p \<longleftrightarrow> dirname p \<noteq> [] \<and> (q = dirname p \<or> proper_anc q (dirname p))"
  using subpath_key_cases [of p q] dirname_ne [of p] subpath_antisym [of "dirname p" p]
    subpath_joinPath [of "dirname p" "basename p"] valid_key_parts(1) [of p]
  by (auto simp: proper_anc_def)

lemma as_dir_ancestor:
  assumes "wf_tree t" "tmap t p \<noteq> None" "proper_anc q p"
  shows "tinfo t q = Some (as_dir q (tinfo t q))"
proof -
  obtain n where "tmap t p = Some n" using assms(2) by auto
  then obtain d where "tmap t q = Some d" "fi_is_dir (n_info d)"
    using wfm_ancestor [OF wf_treeD(2) [OF assms(1)], of p n q] assms(3) by (auto simp: proper_anc_def)
  then show ?thesis by (simp add: tinfo_def as_dir_def)
qed

lemma promoteToDir_spec:
  assumes "node_ok k n"
  shows "node_ok k (promoteToDir n)" "kids (promoteToDir n) = kids n"
    "n_info (promoteToDir n) = as_dir k (Some (n_info n))"
  using assms
  by (auto simp: promoteToDir_def node_ok_def kids_def child_names_def as_dir_def Let_def)

definition ancestors_made :: "string \<Rightarrow> fstree \<Rightarrow> fstree \<Rightarrow> bool" where
  "ancestors_made p t t' = (wf_tree t' \<and>
     (\<exists>d. tmap t' (dirname p) = Some d \<and> fi_is_dir (n_info d)) \<and>
     (\<forall>q. tinfo t' q = (if proper_anc q p then Some (as_dir q (tinfo t q)) else tinfo t q)))"

lemma wf_add:
  assumes t: "wf_tree t" and k: "tmap t k = None" "valid_key k"
    and d: "tmap t (dirname k) = Some d" "fi_is_dir (n_info d)"
    and n: "node_ok k n" "kids n = {}"
  shows "wf_tree (link_child (dirname k) (basename k) (put_node k n t))"
proof -
  have "tmap (put_node k n t) (dirname k) = Some d" using d dirname_ne [OF k(2)] by simp
  then show ?thesis
    using wfm_add [OF wf_treeD(2) [OF t] k d n] wf_treeD(1) [OF t]
    by (intro wf_treeI) (simp_all add: tmap_link)
qed

lemma placeholder_node_ok [simp]:
  "node_ok k \<lparr>n_info = placeholder_info k, n_children = Some []\<rparr>"
  "kids \<lparr>n_info = i, n_children = Some []\<rparr> = {}"
  by (simp_all add: node_ok_def kids_def child_names_def)

lemma ensureAncestors_spec:
  "wf_tree t \<Longrightarrow> valid_key p \<Longrightarrow> ancestors_made p t (ensureAncestors p t)"
proof (induction p t rule: ensureAncestors.induct)
  case (1 p t)
  let ?par = "dirname p"
  note w = 1(2) and v = 1(3)
  show ?case
  proof (cases "?par = []")
    case True
    then have "\<not> proper_anc q p" for q using proper_anc_dirname [OF v] by simp
    then show ?thesis
      using True w wfm_root [OF wf_treeD(2) [OF w]]
      by (subst ensureAncestors.simps) (simp add: ancestors_made_def)
  next
    case False
    then have vp: "valid_key ?par" using valid_key_parts(3) [OF v] by auto
    show ?thesis
    proof (cases "tmap t ?par")
      case (Some n)
      have ok: "node_ok ?par n" using wfm_ok [OF wf_treeD(2) [OF w] Some] .
      have e: "ensureAncestors p t = put_node ?par (promoteToDir n) t"
        using False Some by (subst ensureAncestors.simps) simp
      have "wf_tree (put_node ?par (promoteToDir n) t)"
        using wfm_replace [OF wf_treeD(2) [OF w] Some] promoteToDir_spec [OF ok] False wf_treeD(1) [OF w]
        by (intro wf_treeI) simp_all
      moreover have "fi_is_dir (n_info (promoteToDir n))"
        by (simp add: promoteToDir_spec [OF ok] as_dir_def)
      moreover have "tinfo (put_node ?par (promoteToDir n) t) q =
          (if proper_anc q p then Some (as_dir q (tinfo t q)) else tinfo t q)" for q
        using as_dir_ancestor [OF w, of ?par q] Some False proper_anc_dirname [OF v, of q]
        by (cases "q = ?par") (auto simp: tinfo_def promoteToDir_spec [OF ok])
      ultimately show ?thesis by (simp add: e ancestors_made_def)
    next
      case None
      let ?t1 = "ensureAncestors ?par t"
      let ?n = "\<lparr>n_info = placeholder_info ?par, n_children = Some []\<rparr>"
      let ?t2 = "put_node ?par ?n ?t1"
      have a: "ancestors_made ?par t ?t1" using 1(1) [OF refl False None w vp] .
      have e: "ensureAncestors p t = link_child (dirname ?par) (basename ?par) ?t2"
        using False None by (subst ensureAncestors.simps) (simp add: case_prod_unfold Let_def)
      have "\<not> proper_anc ?par ?par" by (simp add: proper_anc_def)
      with a None have "tinfo ?t1 ?par = None" by (simp add: ancestors_made_def)
      then have none: "tmap ?t1 ?par = None" by simp
      have wf: "wf_tree (link_child (dirname ?par) (basename ?par) ?t2)"
        using a vp none wf_add [of ?t1 ?par] by (auto simp: ancestors_made_def)
      moreover have tn: "tinfo t ?par = None" using None by simp
      have info: "tinfo (link_child (dirname ?par) (basename ?par) ?t2) q =
          (if proper_anc q p then Some (as_dir q (tinfo t q)) else tinfo t q)" for q
        using a None False proper_anc_dirname [OF v, of q]
        by (cases "q = ?par") (auto simp: ancestors_made_def tinfo_put as_dir_def tn)
      moreover have "\<exists>d. tmap (link_child (dirname ?par) (basename ?par) ?t2) ?par = Some d \<and> fi_is_dir (n_info d)"
      proof -
        have "proper_anc ?par p" using proper_anc_dirname [OF v] False by simp
        then have "tinfo (link_child (dirname ?par) (basename ?par) ?t2) ?par = Some (placeholder_info ?par)"
          using info None by (simp add: as_dir_def tinfo_def)
        then show ?thesis by (auto simp: tinfo_def)
      qed
      ultimately show ?thesis by (simp add: e ancestors_made_def)
    qed
  qed
qed

text \<open>The abstract effect of inserting: the key is set, its ancestors are directories, and below a
  file there is nothing.\<close>

definition spec_insert :: "string \<Rightarrow> file_info \<Rightarrow> (string \<Rightarrow> file_info option) \<Rightarrow> string \<Rightarrow> file_info option" where
  "spec_insert p info m q =
     (if q = p then Some ((cloneInfo info)\<lparr>fi_path := p\<rparr>)
      else if proper_anc q p then Some (as_dir q (m q))
      else if \<not> fi_is_dir info \<and> subpath p q then None
      else m q)"

definition spec_delete :: "string \<Rightarrow> (string \<Rightarrow> file_info option) \<Rightarrow> string \<Rightarrow> file_info option" where
  "spec_delete p m q = (if subpath p q then None else m q)"

lemma cloneInfo_id [simp]: "cloneInfo i = i"
  by (simp add: cloneInfo_def)

lemma removes_foldl:
  assumes "wf_tree t" "\<forall>c \<in> set cs. seg c"
  shows "removes (\<lambda>q. \<exists>c \<in> set cs. subpath (joinPath p c) q) t
           (foldl (\<lambda>t c. delete_subtree (joinPath p c) t) t cs)"
  using assms
proof (induction cs arbitrary: t)
  case (Cons c cs)
  then have "removes (subpath (joinPath p c)) t (delete_subtree (joinPath p c) t)"
    by (intro delete_subtree_spec) auto
  moreover from this Cons have "removes (\<lambda>q. \<exists>c \<in> set cs. subpath (joinPath p c) q) (delete_subtree (joinPath p c) t)
      (foldl (\<lambda>t c. delete_subtree (joinPath p c) t) (delete_subtree (joinPath p c) t) cs)"
    by (intro Cons.IH) (auto simp: removes_def)
  ultimately show ?case by (auto simp: removes_def)
qed (simp add: removes_def)

text \<open>The first step of an insertion: a directory that becomes a file loses everything below it.\<close>

definition prune_for :: "string \<Rightarrow> file_info \<Rightarrow> fstree \<Rightarrow> fstree" where
  "prune_for p info t =
     (case tmap t p of
        Some prev \<Rightarrow> if fi_is_dir (n_info prev) \<and> \<not> fi_is_dir info then pruneChildren p prev t else t
      | None \<Rightarrow> t)"

lemma prune_for_spec:
  assumes t: "wf_tree t" "p \<noteq> []"
  shows "removes (\<lambda>q. \<not> fi_is_dir info \<and> q \<noteq> p \<and> subpath p q) t (prune_for p info t)"
    "tmap (prune_for p info t) p = Some n \<Longrightarrow> \<not> fi_is_dir info \<Longrightarrow> kids n = {}"
proof -
  consider (prune) x where "tmap t p = Some x" "fi_is_dir (n_info x)" "\<not> fi_is_dir info"
    | (plain) x where "tmap t p = Some x" "\<not> fi_is_dir (n_info x)" "\<not> fi_is_dir info"
    | (none) "tmap t p = None" | (dir) "fi_is_dir info"
    by (cases "tmap t p") auto
  then have "removes (\<lambda>q. \<not> fi_is_dir info \<and> q \<noteq> p \<and> subpath p q) t (prune_for p info t) \<and>
      (tmap (prune_for p info t) p = Some n \<longrightarrow> \<not> fi_is_dir info \<longrightarrow> kids n = {})"
  proof cases
    case prune
    have "removes (\<lambda>q. \<exists>c \<in> set (child_names x). subpath (joinPath p c) q) t (pruneChildren p x t)"
      unfolding pruneChildren_def using t(1) kids_segs [OF t(1) prune(1)] by (intro removes_foldl) auto
    from children_removed [OF t(1) prune(1) t(2) this] prune show ?thesis
      by (auto simp: prune_for_def)
  next
    case plain
    have k: "kids x = {}"
      using plain wfm_ok [OF wf_treeD(2) [OF t(1)] plain(1)] by (auto simp: node_ok_def kids_def child_names_def)
    have "tinfo t q = None" if "q \<noteq> p" "subpath p q" for q
      using wfm_ancestor [OF wf_treeD(2) [OF t(1)], of q _ p] that plain t(2) by (cases "tmap t q") auto
    with k plain t(1) show ?thesis by (auto simp: prune_for_def removes_def simp del: tinfo_None)
  next
    case none
    have "tinfo t q = None" if "subpath p q" for q
      using wfm_ancestor [OF wf_treeD(2) [OF t(1)], of q _ p] that none t(2)
      by (cases "tmap t q"; cases "q = p") auto
    with none t(1) show ?thesis by (auto simp: prune_for_def removes_def simp del: tinfo_None)
  next
    case dir
    with t(1) show ?thesis by (cases "tmap t p") (auto simp: prune_for_def removes_def)
  qed
  then show "removes (\<lambda>q. \<not> fi_is_dir info \<and> q \<noteq> p \<and> subpath p q) t (prune_for p info t)"
    "tmap (prune_for p info t) p = Some n \<Longrightarrow> \<not> fi_is_dir info \<Longrightarrow> kids n = {}"
    by blast+
qed

lemma childrenMapForInfo_ok:
  assumes "node_ok p n" "\<not> fi_is_dir i \<Longrightarrow> kids n = {}"
  shows "node_ok p \<lparr>n_info = i\<lparr>fi_path := p\<rparr>, n_children = childrenMapForInfo (Some n) (i\<lparr>fi_path := p\<rparr>)\<rparr>"
    "kids \<lparr>n_info = j, n_children = childrenMapForInfo (Some n) (i\<lparr>fi_path := p\<rparr>)\<rparr> = kids n"
  using assms
  by (cases "n_children n"; auto simp: childrenMapForInfo_def node_ok_def kids_def child_names_def)+

text \<open>Linking a child name that is already there changes nothing.\<close>

lemma wf_relink:
  assumes "wf_tree t" "tmap t k = Some n" "k \<noteq> []"
  shows "wf_tree (link_child (dirname k) (basename k) t)"
proof -
  obtain d where d: "tmap t (dirname k) = Some d" "fi_is_dir (n_info d)" "basename k \<in> kids d"
    using wfm_parent [OF wf_treeD(2) [OF assms(1)] assms(2,3)] by auto
  let ?d = "d\<lparr>n_children := Some (List.insert (basename k) (child_names d))\<rparr>"
  have "kids ?d = kids d" using d(3) by (auto simp: kids_def child_names_def)
  then have "wfm ((tmap t)(dirname k \<mapsto> ?d))"
    using d node_ok_link [OF wfm_ok [OF wf_treeD(2) [OF assms(1)] d(1)] d(2)]
    by (intro wfm_replace [OF wf_treeD(2) [OF assms(1)] d(1)]) simp_all
  then show ?thesis
    using wf_treeD(1) [OF assms(1)] by (intro wf_treeI) (simp, simp only: tmap_link [OF d(1)])
qed

lemma insertLocked_unfold:
  "insertLocked p info t =
     link_child (dirname p) (basename p)
       (put_node p \<lparr>n_info = info\<lparr>fi_path := p\<rparr>,
           n_children = childrenMapForInfo (tmap (ensureAncestors p (prune_for p info t)) p) (info\<lparr>fi_path := p\<rparr>)\<rparr>
          (ensureAncestors p (prune_for p info t)))"
  by (simp add: insertLocked_def prune_for_def case_prod_unfold Let_def)

lemma insertLocked_spec:
  assumes t: "wf_tree t" and p: "valid_key p"
  shows "wf_tree (insertLocked p info t)" "tinfo (insertLocked p info t) = spec_insert p info (tinfo t)"
proof -
  have ne: "p \<noteq> []" using p by auto
  let ?t1 = "prune_for p info t" and ?t2 = "ensureAncestors p (prune_for p info t)"
  have r: "removes (\<lambda>q. \<not> fi_is_dir info \<and> q \<noteq> p \<and> subpath p q) t ?t1"
    using t ne by (rule prune_for_spec)
  then have a: "ancestors_made p ?t1 ?t2" using p by (intro ensureAncestors_spec) (auto simp: removes_def)
  then have w2: "wf_tree ?t2" by (simp add: ancestors_made_def)
  obtain d where d: "tmap ?t2 (dirname p) = Some d" "fi_is_dir (n_info d)"
    using a by (auto simp: ancestors_made_def)
  have below: "tinfo ?t2 q = None" if "\<not> fi_is_dir info" "q \<noteq> p" "subpath p q" for q
  proof -
    have "\<not> proper_anc q p" using that subpath_antisym by (auto simp: proper_anc_def)
    then show ?thesis using that a r by (simp add: ancestors_made_def removes_def del: tinfo_None)
  qed
  show "wf_tree (insertLocked p info t)"
  proof (cases "tmap ?t2 p")
    case None
    then show ?thesis
      using wf_add [OF w2 None p d] unfolding insertLocked_unfold
      by (simp add: childrenMapForInfo_def node_ok_def kids_def child_names_def)
  next
    case (Some n)
    have ok: "node_ok p n" using wfm_ok [OF wf_treeD(2) [OF w2] Some] .
    have leaf: "kids n = {}" if "\<not> fi_is_dir info"
    proof -
      have "joinPath p c \<notin> dom (tmap ?t2)" if "seg c" for c
        using below [OF \<open>\<not> fi_is_dir info\<close>, of "joinPath p c"] joinPath_longer [OF that ne]
          subpath_joinPath [OF ne] by (cases "joinPath p c = p") auto
      then show ?thesis using wfm_kids [OF wf_treeD(2) [OF w2] Some] by auto
    qed
    note c = childrenMapForInfo_ok [OF ok, of info, OF leaf]
    have "wf_tree (put_node p \<lparr>n_info = info\<lparr>fi_path := p\<rparr>,
        n_children = childrenMapForInfo (Some n) (info\<lparr>fi_path := p\<rparr>)\<rparr> ?t2)"
      using wfm_replace [OF wf_treeD(2) [OF w2] Some c(1) c(2)] wf_treeD(1) [OF w2] ne
      by (intro wf_treeI) simp_all
    then show ?thesis
      unfolding insertLocked_unfold Some by (rule wf_relink) (simp_all add: ne)
  qed
  show "tinfo (insertLocked p info t) = spec_insert p info (tinfo t)"
  proof
    fix q
    have "proper_anc q p \<Longrightarrow> \<not> (\<not> fi_is_dir info \<and> q \<noteq> p \<and> subpath p q)"
      using subpath_antisym by (auto simp: proper_anc_def)
    then show "tinfo (insertLocked p info t) q = spec_insert p info (tinfo t) q"
      using a r unfolding insertLocked_unfold
      by (cases "q = p") (auto simp: tinfo_put spec_insert_def ancestors_made_def removes_def)
  qed
qed

section \<open>Normalised keys\<close>

lemma fstree_normalize_alt: "fstree_normalize p = rel_path (clean_elems (ToSlash p))"
  unfolding rooted_trim [symmetric] fstree_normalize_def by (auto simp: Let_def)

lemma rel_path_valid:
  assumes "normal_elems r es" shows "rel_path es = [] \<and> es = [] \<or> valid_key (rel_path es)"
proof (cases "es = []")
  case False
  moreover have "\<forall>w \<in> set es. slash \<notin> set w" using normal_elems_no_slash [OF assms] by blast
  ultimately show ?thesis
    using normal_elems_nonempty [OF assms, of "[]"] by (auto simp: valid_key_def rel_path_def split_join)
qed (simp add: rel_path_def)

lemma normalize_valid: "fstree_normalize p \<noteq> [] \<Longrightarrow> valid_key (fstree_normalize p)"
  using rel_path_valid [OF normal_clean_elems, of "ToSlash p"] by (auto simp: fstree_normalize_alt)

lemma normalize_idem [simp]: "fstree_normalize (fstree_normalize p) = fstree_normalize p"
  by (simp add: fstree_normalize_alt clean_elems_normal)

section \<open>The exported operations\<close>

abbreviation tree_insert :: "fstree \<Rightarrow> file_info \<Rightarrow> fstree" where
  "tree_insert t i \<equiv> fst (fstree_Insert t (Some i))"

lemma fstree_Insert_ok: "snd (fstree_Insert t (Some i)) = None"
  by (simp add: fstree_Insert_def Let_def)

lemma wf_New [simp]: "wf_tree fstree_New"
proof -
  have m: "tmap fstree_New = [[] \<mapsto> \<lparr>n_info = placeholder_info [], n_children = Some []\<rparr>]"
    by (simp add: fstree_New_def tmap_def)
  show ?thesis
    by (rule wf_treeI) (simp add: distinct_keys_def fstree_New_def, auto simp: m wfm_def split: if_splits)
qed

lemma tinfo_New: "tinfo fstree_New q = (if q = [] then Some (placeholder_info []) else None)"
  by (simp add: tinfo_def tmap_def fstree_New_def)

lemma tree_insert_spec:
  assumes "wf_tree t"
  shows "wf_tree (tree_insert t i)"
    "tinfo (tree_insert t i) =
       (if fstree_normalize (fi_path i) = [] then tinfo t
        else spec_insert (fstree_normalize (fi_path i)) i (tinfo t))"
  using insertLocked_spec [OF assms normalize_valid] assms
  by (simp_all add: fstree_Insert_def Let_def)

lemma fstree_Delete_spec:
  assumes "wf_tree t"
  shows "wf_tree (fstree_Delete t p)"
    "tinfo (fstree_Delete t p) =
       (if fstree_normalize p = [] then tinfo t else spec_delete (fstree_normalize p) (tinfo t))"
  using delete_subtree_spec [OF assms, of "fstree_normalize p"] assms
  by (auto simp: fstree_Delete_def Let_def removes_def spec_delete_def fun_eq_iff)

lemma fstree_Lookup_tinfo: "fstree_Lookup t p = tinfo t (fstree_normalize p)"
  by (simp add: fstree_Lookup_def tinfo_def)

lemma wf_Insert: "wf_tree t \<Longrightarrow> wf_tree (fst (fstree_Insert t i))"
  using tree_insert_spec(1) by (cases i) (simp_all add: fstree_Insert_def)

lemma wf_Apply: "wf_tree t \<Longrightarrow> wf_tree (fst (fstree_Apply t c))"
  by (auto simp: fstree_Apply_def wf_Insert fstree_Delete_spec(1)
      split: option.splits change_type.splits)

section \<open>Normalised keys in a tree\<close>

text \<open>Every key of a tree is in the form that lookups normalise to, so what a listing names can be looked up.\<close>

definition tree_ok :: "fstree \<Rightarrow> bool" where
  "tree_ok t = (wf_tree t \<and> (\<forall>k. tmap t k \<noteq> None \<longrightarrow> fstree_normalize k = k))"

lemma normal_elems_prefix: "normal_elems r (es @ fs) \<Longrightarrow> normal_elems r es"
proof (erule normal_elemsE)
  fix k ns assume e: "es @ fs = replicate k ''..'' @ ns" "r \<Longrightarrow> k = 0" "\<And>c. c \<in> set ns \<Longrightarrow> is_name c"
  show "normal_elems r es"
  proof (cases "length es \<le> k")
    case True
    then have "es = take (length es) (replicate k ''..'')"
      using arg_cong [OF e(1), of "take (length es)"] by simp
    then have "es = replicate (length es) ''..'' @ []" using True by (simp add: min_def)
    then show ?thesis using e(2) True by (intro normal_elemsI [of es "length es" "[]"]) auto
  next
    case False
    then have es: "es = replicate k ''..'' @ take (length es - k) ns"
      using arg_cong [OF e(1), of "take (length es)"] by simp
    show ?thesis using es e(2,3) by (intro normal_elemsI [OF es]) (auto dest: in_set_takeD)
  qed
qed

lemma normal_key_iff:
  "k \<noteq> [] \<Longrightarrow> fstree_normalize k = k \<longleftrightarrow> backslash \<notin> set k \<and> normal_elems False (split_on slash k)"
proof
  assume k: "k \<noteq> []" "fstree_normalize k = k"
  let ?es = "clean_elems (ToSlash k)"
  have e: "k = rel_path ?es" using k(2) by (simp add: fstree_normalize_alt)
  have n: "normal_elems False ?es"
    using normal_clean_elems [of "ToSlash k"] by (auto elim!: normal_elemsE intro: normal_elemsI)
  have "?es \<noteq> []" using e k(1) by (auto simp: rel_path_def)
  moreover have "\<forall>w \<in> set ?es. slash \<notin> set w" using normal_elems_no_slash [OF n] by blast
  ultimately have "split_on slash (rel_path ?es) = ?es" by (simp add: rel_path_def)
  then have "normal_elems False (split_on slash k)" using e n by metis
  moreover have "backslash \<notin> set (rel_path ?es)"
    using clean_elems_chars [of _ "ToSlash k"] set_replace_backslash [of k]
    by (fastforce simp: rel_path_def ToSlash_def dest: set_join_with)
  ultimately show "backslash \<notin> set k \<and> normal_elems False (split_on slash k)" using e by metis
next
  assume k: "k \<noteq> []" "backslash \<notin> set k \<and> normal_elems False (split_on slash k)"
  have "clean_elems (render_path False (split_on slash k)) = split_on slash k"
    using clean_elems_render k(2) by blast
  moreover have "render_path False (split_on slash k) = k" by (simp add: render_path_def join_split)
  ultimately show "fstree_normalize k = k"
    using k(2) by (simp add: fstree_normalize_alt ToSlash_def replace_backslash_id rel_path_def join_split)
qed

lemma normal_key_ancestor:
  assumes "fstree_normalize k = k" "subpath q k" "q \<noteq> []" shows "fstree_normalize q = q"
proof (cases "q = k")
  case False
  then obtain r where r: "k = q @ slash # r" using assms(2) by (auto simp: subpath_def prefix_def)
  then have "k \<noteq> []" by simp
  then have "backslash \<notin> set k" "normal_elems False (split_on slash k)" using assms(1) by (simp_all add: normal_key_iff)
  then show ?thesis
    using assms(3) normal_elems_prefix [of False "split_on slash q"] by (simp add: normal_key_iff r split_on_append)
qed (use assms in simp)

lemma tree_okD: "tree_ok t \<Longrightarrow> wf_tree t" "tree_ok t \<Longrightarrow> tmap t k = Some n \<Longrightarrow> fstree_normalize k = k"
  by (auto simp: tree_ok_def)

lemma tree_okI: "wf_tree t \<Longrightarrow> (\<And>k i. tinfo t k = Some i \<Longrightarrow> fstree_normalize k = k) \<Longrightarrow> tree_ok t"
  by (auto simp: tree_ok_def tinfo_def)

lemma tree_ok_tinfo: "tree_ok t \<Longrightarrow> tinfo t k = Some i \<Longrightarrow> fstree_normalize k = k"
  by (auto simp: tree_ok_def tinfo_def)

lemma tree_ok_New: "tree_ok fstree_New"
  by (rule tree_okI) (auto simp: tinfo_New fstree_normalize_def split: if_splits)

lemma tree_ok_insert:
  assumes "tree_ok t" shows "tree_ok (tree_insert t i)"
proof (rule tree_okI)
  show "wf_tree (tree_insert t i)" using tree_insert_spec(1) [OF tree_okD(1) [OF assms]] .
  fix k j assume j: "tinfo (tree_insert t i) k = Some j"
  let ?p = "fstree_normalize (fi_path i)"
  consider "k = ?p" | "proper_anc k ?p" | "tinfo t k = Some j"
    using j by (auto simp: tree_insert_spec(2) [OF tree_okD(1) [OF assms]] spec_insert_def split: if_splits)
  then show "fstree_normalize k = k"
  proof cases
    case 2
    then show ?thesis using normal_key_ancestor [of ?p k] by (simp add: proper_anc_def)
  qed (use tree_ok_tinfo [OF assms] in auto)
qed

lemma tree_ok_Delete:
  assumes "tree_ok t" shows "tree_ok (fstree_Delete t p)"
proof (rule tree_okI)
  show "wf_tree (fstree_Delete t p)" using fstree_Delete_spec(1) [OF tree_okD(1) [OF assms]] .
  show "fstree_normalize k = k" if "tinfo (fstree_Delete t p) k = Some j" for k j
    using that tree_ok_tinfo [OF assms]
    by (auto simp: fstree_Delete_spec(2) [OF tree_okD(1) [OF assms]] spec_delete_def split: if_splits)
qed

lemma tree_ok_Insert: "tree_ok t \<Longrightarrow> tree_ok (fst (fstree_Insert t i))"
  using tree_ok_insert by (cases i) (simp_all add: fstree_Insert_def)

section \<open>The contract of a metadata store\<close>

text \<open>\<open>key\<close> normalises paths; a store answers lookups as the abstract operations on the view say.\<close>

text \<open>A list of entries that a scan can produce: no entry for the root, one entry per key, and whatever
  has an entry below it is a directory.\<close>

definition coherent :: "(string \<Rightarrow> string) \<Rightarrow> file_info list \<Rightarrow> bool" where
  "coherent key is = (\<forall>i \<in> set is. key (fi_path i) \<noteq> [] \<and>
     (\<forall>j \<in> set is. (key (fi_path i) = key (fi_path j) \<longrightarrow> i = j) \<and>
       (proper_anc (key (fi_path i)) (key (fi_path j)) \<longrightarrow> fi_is_dir i)))"

lemma coherent_snoc: "coherent key (is @ [i]) \<Longrightarrow> coherent key is"
  by (simp add: coherent_def)

locale meta_store =
  fixes new :: 't and invar :: "'t \<Rightarrow> bool" and look :: "'t \<Rightarrow> string \<Rightarrow> file_info option"
    and ins :: "'t \<Rightarrow> file_info \<Rightarrow> 't" and del :: "'t \<Rightarrow> string \<Rightarrow> 't" and key :: "string \<Rightarrow> string"
  assumes key_idem: "key (key p) = key p"
    and look_key: "look t (key p) = look t p"
    and invar_new: "invar new"
    and invar_ins: "invar t \<Longrightarrow> invar (ins t i)"
    and invar_del: "invar t \<Longrightarrow> invar (del t p)"
    and look_new: "look new p = (if key p = [] then Some (placeholder_info []) else None)"
    and look_ins: "invar t \<Longrightarrow> look (ins t i) q =
          (if key (fi_path i) = [] then look t q
           else spec_insert (key (fi_path i)) i (look t) (key q))"
    and look_del: "invar t \<Longrightarrow> look (del t p) q =
          (if key p = [] then look t q else spec_delete (key p) (look t) (key q))"
begin

lemma look_ins_same:
  "invar t \<Longrightarrow> key (fi_path i) \<noteq> [] \<Longrightarrow>
   look (ins t i) (fi_path i) = Some (i\<lparr>fi_path := key (fi_path i)\<rparr>)"
  by (simp add: look_ins spec_insert_def)

lemma look_ins_other:
  "invar t \<Longrightarrow> \<not> subpath (key q) (key (fi_path i)) \<Longrightarrow> \<not> subpath (key (fi_path i)) (key q) \<Longrightarrow>
   look (ins t i) q = look t q"
  using look_key [of t q] by (auto simp: look_ins spec_insert_def proper_anc_def)

lemma look_del_below:
  "invar t \<Longrightarrow> key p \<noteq> [] \<Longrightarrow> subpath (key p) (key q) \<Longrightarrow> look (del t p) q = None"
  by (simp add: look_del spec_delete_def)

lemma look_del_other:
  "invar t \<Longrightarrow> \<not> subpath (key p) (key q) \<Longrightarrow> look (del t p) q = look t q"
  using look_key [of t q] by (auto simp: look_del spec_delete_def)

text \<open>A whole tree is sent as a list of entries and inserted one by one.\<close>

lemma invar_load: "invar t \<Longrightarrow> invar (foldl ins t is)"
  by (induction "is" arbitrary: t) (simp_all add: invar_ins)

lemma load_complete:
  "invar t \<Longrightarrow> coherent key is \<Longrightarrow> i \<in> set is \<Longrightarrow>
   look (foldl ins t is) (fi_path i) = Some (i\<lparr>fi_path := key (fi_path i)\<rparr>)"
proof (induction "is" rule: rev_induct)
  case (snoc j js)
  have inv: "invar (foldl ins t js)" using snoc.prems by (simp add: invar_load)
  have kj: "key (fi_path j) \<noteq> []" using snoc.prems(2) by (simp add: coherent_def)
  show ?case
  proof (cases "i = j")
    case True
    then show ?thesis using look_ins_same [OF inv kj] by (simp)
  next
    case False
    then have i: "i \<in> set js" using snoc.prems by simp
    then have old: "look (foldl ins t js) (fi_path i) = Some (i\<lparr>fi_path := key (fi_path i)\<rparr>)"
      using snoc.IH snoc.prems coherent_snoc by blast
    have ki: "key (fi_path i) \<noteq> []" using snoc.prems(2) i by (simp add: coherent_def)
    have c: "key (fi_path i) \<noteq> key (fi_path j)"
      "proper_anc (key (fi_path i)) (key (fi_path j)) \<Longrightarrow> fi_is_dir i"
      "proper_anc (key (fi_path j)) (key (fi_path i)) \<Longrightarrow> fi_is_dir j"
      using snoc.prems(2) i False by (auto simp: coherent_def)
    have "look (ins (foldl ins t js) j) (fi_path i) = spec_insert (key (fi_path j)) j (look (foldl ins t js)) (key (fi_path i))"
      using look_ins [OF inv] kj by simp
    also have "\<dots> = Some (i\<lparr>fi_path := key (fi_path i)\<rparr>)"
      using c kj ki old by (auto simp: spec_insert_def as_dir_def look_key proper_anc_def)
    finally show ?thesis by (simp)
  qed
qed simp

text \<open>Nothing is in the store that was not sent or implied by a sent path.\<close>

lemma load_sound:
  "invar t \<Longrightarrow> look (foldl ins t is) q \<noteq> None \<Longrightarrow>
   look t q \<noteq> None \<or> (\<exists>i \<in> set is. key q = key (fi_path i) \<or> proper_anc (key q) (key (fi_path i)))"
proof (induction "is" rule: rev_induct)
  case (snoc j js)
  have inv: "invar (foldl ins t js)" using snoc.prems by (simp add: invar_load)
  show ?case
  proof (cases "key q = key (fi_path j) \<or> proper_anc (key q) (key (fi_path j))")
    case False
    then have "look (foldl ins t js) q = None \<Longrightarrow> look (ins (foldl ins t js) j) q = None"
      using look_ins [OF inv, of j q] look_key [of "foldl ins t js" q]
      by (simp add: spec_insert_def)
    then have "look (foldl ins t js) q \<noteq> None" using snoc.prems(2) by fastforce
    then show ?thesis using snoc.IH snoc.prems(1) by auto
  qed auto
qed simp

end

interpretation ft: meta_store fstree_New wf_tree fstree_Lookup tree_insert fstree_Delete fstree_normalize
proof
  fix t :: fstree and i :: file_info and p q :: string
  show "wf_tree t \<Longrightarrow> fstree_Lookup (tree_insert t i) q =
      (if fstree_normalize (fi_path i) = [] then fstree_Lookup t q
       else spec_insert (fstree_normalize (fi_path i)) i (fstree_Lookup t) (fstree_normalize q))"
    by (auto simp: fstree_Lookup_tinfo tree_insert_spec(2) spec_insert_def as_dir_def)
  show "wf_tree t \<Longrightarrow> fstree_Lookup (fstree_Delete t p) q =
      (if fstree_normalize p = [] then fstree_Lookup t q
       else spec_delete (fstree_normalize p) (fstree_Lookup t) (fstree_normalize q))"
    by (auto simp: fstree_Lookup_tinfo fstree_Delete_spec(2) spec_delete_def)
qed (simp_all add: fstree_Lookup_tinfo tinfo_New tree_insert_spec(1) fstree_Delete_spec(1))

section \<open>Properties\<close>

text \<open>The abstract effect of a change event on the view, by kind of change.\<close>

definition view_insert :: "file_info \<Rightarrow> (string \<Rightarrow> file_info option) \<Rightarrow> string \<Rightarrow> file_info option" where
  "view_insert i m =
     (if fstree_normalize (fi_path i) = [] then m else spec_insert (fstree_normalize (fi_path i)) i m)"

definition view_delete :: "string \<Rightarrow> (string \<Rightarrow> file_info option) \<Rightarrow> string \<Rightarrow> file_info option" where
  "view_delete p m = (if fstree_normalize p = [] then m else spec_delete (fstree_normalize p) m)"

definition view_apply :: "file_change \<Rightarrow> (string \<Rightarrow> file_info option) \<Rightarrow> string \<Rightarrow> file_info option" where
  "view_apply c m =
     (case (fc_type c, fc_file c) of
        (CHANGE_TYPE_CREATE, Some i) \<Rightarrow> view_insert i m
      | (CHANGE_TYPE_MODIFY, Some i) \<Rightarrow> view_insert i m
      | (CHANGE_TYPE_DELETE, Some i) \<Rightarrow> view_delete (fi_path i) m
      | (CHANGE_TYPE_RENAME, Some i) \<Rightarrow> view_insert i (view_delete (fc_old_path c) m)
      | (CHANGE_TYPE_RENAME, None) \<Rightarrow> view_delete (fc_old_path c) m
      | _ \<Rightarrow> m)"

text \<open>When a change is refused, and why.\<close>

definition apply_error :: "file_change option \<Rightarrow> tree_error option" where
  "apply_error change =
     (case change of
        None \<Rightarrow> Some ErrNilChange
      | Some c \<Rightarrow>
          (case fc_type c of
             CHANGE_TYPE_UNSPECIFIED \<Rightarrow> Some ErrUnknownChangeType
           | CHANGE_TYPE_OTHER n \<Rightarrow> Some ErrUnknownChangeType
           | CHANGE_TYPE_DELETE \<Rightarrow> None
           | _ \<Rightarrow> if fc_file c = None then Some ErrNilInfo else None))"

lemma tinfo_Insert:
  "wf_tree t \<Longrightarrow> tinfo (fst (fstree_Insert t (Some i))) = view_insert i (tinfo t)"
  by (simp add: tree_insert_spec(2) view_insert_def)

lemma tinfo_Delete: "wf_tree t \<Longrightarrow> tinfo (fstree_Delete t p) = view_delete p (tinfo t)"
  by (simp add: fstree_Delete_spec(2) view_delete_def)

lemma Insert_nil: "fstree_Insert t None = (t, Some ErrNilInfo)"
  by (simp add: fstree_Insert_def)

lemma tinfo_Apply:
  assumes "wf_tree t"
  shows "tinfo (fst (fstree_Apply t (Some c))) = view_apply c (tinfo t)"
  using assms
  by (cases "fc_type c"; cases "fc_file c")
    (simp_all add: fstree_Apply_def view_apply_def tinfo_Insert tinfo_Delete Insert_nil fstree_Delete_spec(1))

lemma Apply_error: "snd (fstree_Apply t change) = apply_error change"
proof (cases change)
  case (Some c)
  then show ?thesis
    by (cases "fc_type c"; cases "fc_file c")
      (simp_all add: fstree_Apply_def apply_error_def Insert_nil fstree_Insert_ok)
qed (simp add: fstree_Apply_def apply_error_def)

text \<open>C2: every change event keeps the tree well formed, acts on the metadata by key exactly as the
  abstract change does, and reports exactly the listed errors; a nil event changes nothing.\<close>

theorem Apply_refines:
  assumes "wf_tree t"
  shows "wf_tree (fst (fstree_Apply t change))
    \<and> snd (fstree_Apply t change) = apply_error change
    \<and> tinfo (fst (fstree_Apply t change)) =
        (case change of None \<Rightarrow> tinfo t | Some c \<Rightarrow> view_apply c (tinfo t))"
  using wf_Apply [OF assms] tinfo_Apply [OF assms] Apply_error assms
  by (cases change) (simp_all add: fstree_Apply_def [of t None] apply_error_def [of None])

definition demo_file :: "string \<Rightarrow> int \<Rightarrow> file_info" where
  "demo_file p n = \<lparr>fi_path = p, fi_size = n, fi_mod_time = 0, fi_is_dir = False, fi_mode = 420\<rparr>"

definition demo_tree :: fstree where
  "demo_tree = tree_insert (tree_insert fstree_New (demo_file ''a/b.txt'' 3)) (demo_file ''c'' 5)"

lemma wf_demo_tree: "wf_tree demo_tree"
  by (simp add: demo_tree_def tree_insert_spec(1))

theorem Apply_refines_witness:
  "snd (fstree_Apply demo_tree (Some \<lparr>fc_type = CHANGE_TYPE_RENAME, fc_file = Some (demo_file ''d/e'' 3),
      fc_old_path = ''a''\<rparr>)) = None
   \<and> fstree_Lookup (fst (fstree_Apply demo_tree (Some \<lparr>fc_type = CHANGE_TYPE_RENAME,
      fc_file = Some (demo_file ''d/e'' 3), fc_old_path = ''a''\<rparr>))) ''a/b.txt'' = None"
proof -
  let ?c = "\<lparr>fc_type = CHANGE_TYPE_RENAME, fc_file = Some (demo_file ''d/e'' 3), fc_old_path = ''a''\<rparr>"
  have "view_apply ?c m ''a/b.txt'' = None" for m
  proof -
    have k: "fstree_normalize ''d/e'' = ''d/e''" "fstree_normalize ''a'' = ''a''"
      "\<not> proper_anc ''a/b.txt'' ''d/e''" "subpath ''a'' ''a/b.txt''" "\<not> subpath ''d/e'' ''a/b.txt''"
      by code_simp+
    show ?thesis
      using k by (simp add: view_apply_def view_insert_def view_delete_def demo_file_def spec_insert_def spec_delete_def)
  qed
  moreover have "fstree_normalize ''a/b.txt'' = ''a/b.txt''" by code_simp
  ultimately show ?thesis
    using Apply_refines [OF wf_demo_tree, of "Some ?c"] by (simp add: fstree_Lookup_tinfo apply_error_def)
qed

text \<open>The entries directly below a directory.\<close>

lemma fstree_List_dir:
  assumes t: "wf_tree t" and n: "tmap t k = Some n"
  shows "List.map_filter (\<lambda>c. map_option (\<lambda>x. cloneInfo (n_info x)) (tmap t (joinPath k c))) (child_names n)
      = map (\<lambda>c. the (tinfo t (joinPath k c))) (child_names n)"
proof -
  have "\<exists>x. tmap t (joinPath k c) = Some x" if "c \<in> set (child_names n)" for c
    using wfm_kids [OF wf_treeD(2) [OF t] n] that by (auto simp: kids_def)
  then have "List.map_filter (\<lambda>c. map_option (\<lambda>x. cloneInfo (n_info x)) (tmap t (joinPath k c))) cs
      = map (\<lambda>c. the (tinfo t (joinPath k c))) cs" if "set cs \<subseteq> set (child_names n)" for cs
    using that by (induction cs) (force simp: List.map_filter_simps tinfo_def subset_iff)+
  then show ?thesis by simp
qed

text \<open>Listing a path answers iff the path is a directory of the tree, and then with every entry whose
  parent key is that directory, once each, and nothing else.\<close>

theorem List_exact:
  assumes "wf_tree t"
  shows "(case fstree_List t p of
      None \<Rightarrow> \<forall>i. fstree_Lookup t p = Some i \<longrightarrow> \<not> fi_is_dir i
    | Some xs \<Rightarrow> (\<exists>i. fstree_Lookup t p = Some i \<and> fi_is_dir i) \<and> distinct (map fi_path xs)
        \<and> set xs = {i. \<exists>q. q \<noteq> [] \<and> dirname q = fstree_normalize p \<and> tinfo t q = Some i})"
proof (cases "\<exists>n. tmap t (fstree_normalize p) = Some n \<and> fi_is_dir (n_info n)")
  case False
  then show ?thesis
    by (auto simp: fstree_List_def fstree_Lookup_def Let_def split: option.splits)
next
  case True
  let ?k = "fstree_normalize p"
  from True obtain n where n: "tmap t ?k = Some n" "fi_is_dir (n_info n)" by blast
  note w = wf_treeD(2) [OF assms]
  let ?xs = "map (\<lambda>c. the (tinfo t (joinPath ?k c))) (child_names n)"
  have l: "fstree_List t p = Some ?xs"
    using n fstree_List_dir [OF assms n(1)] by (simp add: fstree_List_def)
  have c: "seg c \<and> (\<exists>x. tmap t (joinPath ?k c) = Some x \<and> fi_path (n_info x) = joinPath ?k c)"
    if "c \<in> set (child_names n)" for c
    using wfm_kids [OF w n(1)] wfm_ok [OF w] that by (auto simp: kids_def node_ok_def)
  have paths: "map fi_path ?xs = map (joinPath ?k) (child_names n)"
    using c by (fastforce simp: tinfo_def)
  have "distinct (child_names n)" using wfm_ok [OF w n(1)] by (simp add: node_ok_def)
  moreover have "inj_on (joinPath ?k) (set (child_names n))"
    using c joinPath_inject by (auto simp: inj_on_def)
  ultimately have d: "distinct (map fi_path ?xs)" unfolding paths by (simp add: distinct_map)
  have "set ?xs = {i. \<exists>q. q \<noteq> [] \<and> dirname q = ?k \<and> tinfo t q = Some i}"
  proof (intro set_eqI iffI)
    fix i assume "i \<in> set ?xs"
    then obtain b where b: "b \<in> set (child_names n)" "i = the (tinfo t (joinPath ?k b))" by auto
    then show "i \<in> {i. \<exists>q. q \<noteq> [] \<and> dirname q = ?k \<and> tinfo t q = Some i}"
      using c [OF b(1)] by (auto simp: tinfo_def intro!: exI [of _ "joinPath ?k b"])
  next
    fix i assume "i \<in> {i. \<exists>q. q \<noteq> [] \<and> dirname q = ?k \<and> tinfo t q = Some i}"
    then obtain q x where q: "q \<noteq> []" "dirname q = ?k" "tmap t q = Some x" "i = n_info x"
      by (auto simp: tinfo_def)
    have v: "valid_key q" using wfm_valid [OF w q(3,1)] .
    have "basename q \<in> set (child_names n)" using wfm_parent [OF w q(3,1)] q(2) n(1) by (simp add: kids_def)
    moreover have "joinPath ?k (basename q) = q" using valid_key_parts(1) [OF v] q(2) by simp
    ultimately show "i \<in> set ?xs" using q(3,4) by (force simp: tinfo_def image_iff)
  qed
  with l d n show ?thesis by (auto simp: fstree_Lookup_def)
qed

theorem List_exact_witness:
  "\<exists>xs. fstree_List demo_tree [] = Some xs \<and> distinct (map fi_path xs)"
proof -
  have "fstree_List demo_tree [] \<noteq> None" by code_simp
  then show ?thesis using List_exact [OF wf_demo_tree, of "[]"] by auto
qed

text \<open>The recursive deletion returns on every well-formed tree (the key lengths bound its depth), and
  what is left is well formed and the old tree without the deleted subtree.\<close>

theorem deleteLocked_total:
  assumes "wf_tree t" "valid_key p" "key_bound t + 2 \<le> fuel"
  shows "\<exists>t'. deleteLocked fuel p t = Some t' \<and> wf_tree t' \<and> tinfo t' = spec_delete p (tinfo t)"
proof -
  have "fits fuel p t" using fits_key_bound [of t p] assms(3) by (fastforce simp: fits_def)
  moreover have "p \<noteq> []" using assms(2) by auto
  ultimately obtain t' where "deleteLocked fuel p t = Some t'" "removes (subpath p) t t'"
    using deleteLocked_spec [OF assms(1)] by blast
  then show ?thesis by (auto simp: removes_def spec_delete_def fun_eq_iff)
qed

theorem deleteLocked_total_witness:
  "\<exists>t'. deleteLocked 20 ''a'' demo_tree = Some t' \<and> tinfo t' ''a/b.txt'' = None"
proof -
  have "valid_key ''a''" "key_bound demo_tree + 2 \<le> 20" "subpath ''a'' ''a/b.txt''" by code_simp+
  then show ?thesis
    using deleteLocked_total [OF wf_demo_tree, of "''a''" 20] by (auto simp: spec_delete_def simp del: tinfo_None)
qed

end
