(* ===== verification/Contentcache.thy ===== *)
theory Contentcache
  imports Safepath
begin

text \<open>
  The content cache \<open>src/pkg/contentcache/cache.go\<close>: file contents by path, guarded by a signature,
  bounded by a byte budget and evicted in least-recently-used order. A list element is a pointer (its
  identity \<open>el_id\<close>) with the value it was pushed with; \<open>lru\<close> is the linked list, front first, and
  \<open>entries\<close> the map from paths to elements. The mutex makes each operation atomic; receivers are not nil.

  The abstraction \<open>items\<close> is the list of entries by recency. Every operation is shown to act on it as an
  abstract LRU list does, and the locale \<open>content_store\<close> is the contract the session relies on.
\<close>

section \<open>Definitions\<close>

record signature =
  sig_size :: int
  sig_mod_time :: int

record centry =
  ce_path :: string
  ce_sig :: signature
  ce_content :: bytes

text \<open>The dynamic type of an element's value: a cache entry or anything else.\<close>

datatype cvalue = EntryVal centry | OtherVal

record elem =
  el_id :: nat
  el_value :: cvalue

record cache =
  maxBytes :: int
  used :: int
  lru :: "elem list"
  entries :: "(string \<times> elem) list"
  next_elem :: nat

definition cache_New :: "int \<Rightarrow> cache" where
  "cache_New n = \<lparr>maxBytes = n, used = 0, lru = [], entries = [], next_elem = 0\<rparr>"

definition cache_normalize :: "string \<Rightarrow> string" where
  "cache_normalize p =
     (let p = replace_backslash p in
      if p = [] \<or> p = ''.'' \<or> p = [slash] then []
      else
        (let cleaned = trim_prefix (path_clean p) [slash] in
         if cleaned = ''.'' then [] else cleaned))"

definition matchesPrefix :: "string \<Rightarrow> string \<Rightarrow> bool" where
  "matchesPrefix p pre = (if pre = [] then True else p = pre \<or> prefix (pre @ [slash]) p)"

definition cloneBytes :: "bytes \<Rightarrow> bytes" where
  "cloneBytes b = (if b = [] then [] else take (length b) b)"

text \<open>The operations of \<open>container/list\<close> that are used.\<close>

definition list_Remove :: "elem \<Rightarrow> elem list \<Rightarrow> elem list" where
  "list_Remove e l = filter (\<lambda>x. el_id x \<noteq> el_id e) l"

definition list_MoveToFront :: "elem \<Rightarrow> elem list \<Rightarrow> elem list" where
  "list_MoveToFront e l =
     (if el_id e \<in> el_id ` set l then e # list_Remove e l else l)"

fun deleteUnknownElement :: "(string \<times> elem) list \<Rightarrow> elem \<Rightarrow> (string \<times> elem) list" where
  "deleteUnknownElement [] target = []"
| "deleteUnknownElement ((k, e) # es) target =
     (if el_id e = el_id target then es else (k, e) # deleteUnknownElement es target)"

definition removeElement :: "elem \<Rightarrow> cache \<Rightarrow> cache" where
  "removeElement e c =
     (case el_value e of
        OtherVal \<Rightarrow> c\<lparr>entries := deleteUnknownElement (entries c) e, lru := list_Remove e (lru c)\<rparr>
      | EntryVal item \<Rightarrow>
          (let u = int64_wrap (used c - int (length (ce_content item)))
           in c\<lparr>entries := AList.delete (ce_path item) (entries c), lru := list_Remove e (lru c),
                used := if u < 0 then 0 else u\<rparr>))"

lemma lru_removeElement [simp]: "lru (removeElement e c) = list_Remove e (lru c)"
  by (simp add: removeElement_def Let_def split: cvalue.split)

lemma list_Remove_shorter: "e \<in> set l \<Longrightarrow> length (list_Remove e l) < length l"
  unfolding list_Remove_def by (rule length_filter_less) auto

function evictLocked :: "cache \<Rightarrow> cache" where
  "evictLocked c =
     (if used c > maxBytes c
      then (if lru c = [] then c else evictLocked (removeElement (last (lru c)) c))
      else c)"
  by pat_completeness auto
termination
  by (relation "measure (\<lambda>c. length (lru c))") (auto intro: list_Remove_shorter)

definition cache_Get :: "cache \<Rightarrow> string \<Rightarrow> signature \<Rightarrow> cache \<times> bytes option" where
  "cache_Get c relPath sig =
     (if maxBytes c \<le> 0 then (c, None)
      else
        (case map_of (entries c) (cache_normalize relPath) of
           None \<Rightarrow> (c, None)
         | Some e \<Rightarrow>
             (case el_value e of
                OtherVal \<Rightarrow> (removeElement e c, None)
              | EntryVal item \<Rightarrow>
                  if ce_sig item \<noteq> sig then (removeElement e c, None)
                  else (c\<lparr>lru := list_MoveToFront e (lru c)\<rparr>, Some (cloneBytes (ce_content item))))))"

definition cache_Invalidate :: "cache \<Rightarrow> string \<Rightarrow> cache" where
  "cache_Invalidate c relPath =
     (if maxBytes c \<le> 0 then c
      else
        (case map_of (entries c) (cache_normalize relPath) of
           None \<Rightarrow> c
         | Some e \<Rightarrow> removeElement e c))"

definition cache_Put :: "cache \<Rightarrow> string \<Rightarrow> signature \<Rightarrow> bytes \<Rightarrow> cache \<times> bool" where
  "cache_Put c relPath sig content =
     (if maxBytes c \<le> 0 then (c, False)
      else
        (let key = cache_normalize relPath; size = int (length content) in
         if size > maxBytes c then (cache_Invalidate c key, False)
         else
           (let c1 = (case map_of (entries c) key of None \<Rightarrow> c | Some e \<Rightarrow> removeElement e c);
                item = \<lparr>ce_path = key, ce_sig = sig, ce_content = cloneBytes content\<rparr>;
                e = \<lparr>el_id = next_elem c1, el_value = EntryVal item\<rparr>;
                c2 = c1\<lparr>lru := e # lru c1, next_elem := Suc (next_elem c1)\<rparr>;
                c3 = c2\<lparr>entries := AList.update key e (entries c2)\<rparr>;
                c4 = c3\<lparr>used := int64_wrap (used c3 + int (length (ce_content item)))\<rparr>
            in (evictLocked c4, True))))"

text \<open>Ranging over the map while deleting only the current key visits every key once.\<close>

definition cache_InvalidatePrefix :: "cache \<Rightarrow> string \<Rightarrow> cache" where
  "cache_InvalidatePrefix c relPath =
     (if maxBytes c \<le> 0 then c
      else
        (let key = cache_normalize relPath
         in foldl (\<lambda>c (p, e). if matchesPrefix p key then removeElement e c else c) c (entries c)))"

definition cache_Clear :: "cache \<Rightarrow> cache" where
  "cache_Clear c = c\<lparr>used := 0, lru := [], entries := []\<rparr>"

definition cache_Len :: "cache \<Rightarrow> nat" where
  "cache_Len c = length (entries c)"

declare evictLocked.simps [simp del]

section \<open>Invariant and abstraction\<close>

definition csize :: "centry \<Rightarrow> int" where
  "csize it = int (length (ce_content it))"

definition bytes_of :: "centry list \<Rightarrow> int" where
  "bytes_of xs = sum_list (map csize xs)"

definition item_of :: "elem \<Rightarrow> centry" where
  "item_of e = (case el_value e of EntryVal it \<Rightarrow> it | OtherVal \<Rightarrow> \<lparr>ce_path = [], ce_sig = \<lparr>sig_size = 0, sig_mod_time = 0\<rparr>, ce_content = []\<rparr>)"

definition items :: "cache \<Rightarrow> centry list" where
  "items c = map item_of (lru c)"

text \<open>Everything but the byte budget: the linked list holds entries with distinct identities and paths,
  the map points to exactly these elements, and \<open>used\<close> is the exact number of bytes held.\<close>

definition cache_wf :: "cache \<Rightarrow> bool" where
  "cache_wf c =
     ((\<forall>e \<in> set (lru c). \<exists>it. el_value e = EntryVal it)
      \<and> distinct (map el_id (lru c)) \<and> (\<forall>e \<in> set (lru c). el_id e < next_elem c)
      \<and> distinct (map ce_path (items c))
      \<and> distinct (map fst (entries c))
      \<and> (\<forall>k e. map_of (entries c) k = Some e \<longleftrightarrow> e \<in> set (lru c) \<and> ce_path (item_of e) = k)
      \<and> used c = bytes_of (items c) \<and> used c < 2 ^ 63 \<and> maxBytes c < 2 ^ 62)"

definition cache_ok :: "cache \<Rightarrow> bool" where
  "cache_ok c = (cache_wf c \<and> used c \<le> max 0 (maxBytes c))"

text \<open>The abstract LRU list, most recent entry first.\<close>

definition drop_path :: "string \<Rightarrow> centry list \<Rightarrow> centry list" where
  "drop_path k xs = filter (\<lambda>it. ce_path it \<noteq> k) xs"

definition find_path :: "string \<Rightarrow> centry list \<Rightarrow> centry option" where
  "find_path k xs = List.find (\<lambda>it. ce_path it = k) xs"

text \<open>The longest initial part that fits the budget.\<close>

fun lru_fit :: "int \<Rightarrow> centry list \<Rightarrow> centry list" where
  "lru_fit m [] = []"
| "lru_fit m (x # xs) = (if csize x \<le> m then x # lru_fit (m - csize x) xs else [])"

lemma csize_nonneg [simp]: "0 \<le> csize it"
  by (simp add: csize_def)

lemma bytes_of_simps [simp]:
  "bytes_of [] = 0" "bytes_of (x # xs) = csize x + bytes_of xs" "bytes_of (xs @ ys) = bytes_of xs + bytes_of ys"
  by (simp_all add: bytes_of_def)

lemma bytes_of_nonneg [simp]: "0 \<le> bytes_of xs"
  by (induction xs) (simp_all add: bytes_of_def)

lemma lru_fit_all: "bytes_of xs \<le> m \<Longrightarrow> lru_fit m xs = xs"
proof (induction xs arbitrary: m)
  case (Cons x xs)
  then show ?case using bytes_of_nonneg [of xs] by (simp del: bytes_of_nonneg)
qed simp

lemma lru_fit_snoc: "m < bytes_of (xs @ [x]) \<Longrightarrow> lru_fit m (xs @ [x]) = lru_fit m xs"
  by (induction xs arbitrary: m) auto

lemma bytes_of_fit: "0 \<le> m \<Longrightarrow> bytes_of (lru_fit m xs) \<le> m"
  by (induction m xs rule: lru_fit.induct) auto

lemma fit_prefix: "prefix (lru_fit m xs) xs"
  by (induction m xs rule: lru_fit.induct) auto

section \<open>Removal and eviction\<close>

lemma drop_path_simps [simp]:
  "drop_path k [] = []"
  "drop_path k (it # xs) = (if ce_path it = k then drop_path k xs else it # drop_path k xs)"
  "drop_path k (xs @ ys) = drop_path k xs @ drop_path k ys"
  by (simp_all add: drop_path_def)

lemma drop_path_absent: "k \<notin> ce_path ` set xs \<Longrightarrow> drop_path k xs = xs"
  by (induction xs) auto

lemma set_drop_path [simp]: "set (drop_path k xs) = {it \<in> set xs. ce_path it \<noteq> k}"
  by (auto simp: drop_path_def)

lemma distinct_drop_path [simp]: "distinct (map ce_path xs) \<Longrightarrow> distinct (map ce_path (drop_path k xs))"
  by (simp add: drop_path_def distinct_map_filter)

lemma bytes_drop_path:
  "distinct (map ce_path xs) \<Longrightarrow> it \<in> set xs \<Longrightarrow> bytes_of (drop_path (ce_path it) xs) = bytes_of xs - csize it"
  by (induction xs) (auto simp: drop_path_absent)

lemma bytes_drop_le: "bytes_of (drop_path k xs) \<le> bytes_of xs"
  by (induction xs) (auto simp: add_increasing)

lemma bytes_member_le: "it \<in> set xs \<Longrightarrow> csize it \<le> bytes_of xs"
  by (induction xs) (auto simp: add_increasing)

lemma cache_wfD:
  assumes "cache_wf c"
  shows "e \<in> set (lru c) \<Longrightarrow> el_value e = EntryVal (item_of e)"
    "distinct (map el_id (lru c))" "e \<in> set (lru c) \<Longrightarrow> el_id e < next_elem c"
    "distinct (map ce_path (items c))" "distinct (map fst (entries c))"
    "map_of (entries c) k = Some e \<longleftrightarrow> e \<in> set (lru c) \<and> ce_path (item_of e) = k"
    "used c = bytes_of (items c)" "used c < 2 ^ 63" "maxBytes c < 2 ^ 62"
  using assms by (auto simp: cache_wf_def item_of_def)

text \<open>Removing by identity and removing by path agree.\<close>

lemma same_elem:
  assumes "cache_wf c" "e \<in> set (lru c)" "x \<in> set (lru c)"
  shows "el_id x = el_id e \<longleftrightarrow> x = e" "ce_path (item_of x) = ce_path (item_of e) \<longleftrightarrow> x = e"
proof -
  have "distinct (map (ce_path \<circ> item_of) (lru c))" using cache_wfD(4) [OF assms(1)] by (simp add: items_def)
  then have "inj_on (ce_path \<circ> item_of) (set (lru c))" by (simp only: distinct_map)
  moreover have "inj_on el_id (set (lru c))" using cache_wfD(2) [OF assms(1)] by (simp only: distinct_map)
  ultimately show "el_id x = el_id e \<longleftrightarrow> x = e" "ce_path (item_of x) = ce_path (item_of e) \<longleftrightarrow> x = e"
    using assms(2,3) unfolding inj_on_def by auto
qed

lemma items_Remove:
  assumes "cache_wf c" "e \<in> set (lru c)"
  shows "map item_of (list_Remove e (lru c)) = drop_path (ce_path (item_of e)) (items c)"
proof -
  have "filter (\<lambda>x. el_id x \<noteq> el_id e) (lru c) = filter (\<lambda>x. ce_path (item_of x) \<noteq> ce_path (item_of e)) (lru c)"
    using same_elem [OF assms] by (intro filter_cong) auto
  then show ?thesis by (simp add: list_Remove_def drop_path_def items_def filter_map o_def)
qed

lemma removeElement_spec:
  assumes w: "cache_wf c" and e: "e \<in> set (lru c)"
  shows "cache_wf (removeElement e c)" "items (removeElement e c) = drop_path (ce_path (item_of e)) (items c)"
    "maxBytes (removeElement e c) = maxBytes c"
    "entries (removeElement e c) = AList.delete (ce_path (item_of e)) (entries c)"
proof -
  let ?it = "item_of e"
  have v: "el_value e = EntryVal ?it" using cache_wfD(1) [OF w e] .
  have it: "?it \<in> set (items c)" using e by (simp add: items_def)
  have u: "used c - csize ?it = bytes_of (drop_path (ce_path ?it) (items c))"
    using bytes_drop_path [OF cache_wfD(4) [OF w] it] cache_wfD(7) [OF w] by simp
  show mb: "maxBytes (removeElement e c) = maxBytes c"
    by (simp add: removeElement_def Let_def split: cvalue.split)
  show en: "entries (removeElement e c) = AList.delete (ce_path ?it) (entries c)"
    by (simp add: removeElement_def Let_def v)
  show its: "items (removeElement e c) = drop_path (ce_path ?it) (items c)"
    using items_Remove [OF w e] by (simp add: items_def)
  have us: "used (removeElement e c) = bytes_of (drop_path (ce_path ?it) (items c))"
  proof -
    have "is_int64 (used c - csize ?it)"
      unfolding u using bytes_drop_le [of "ce_path ?it" "items c"] cache_wfD(7,8) [OF w]
        bytes_of_nonneg [of "drop_path (ce_path ?it) (items c)"]
      by (simp add: is_int64_def del: bytes_of_nonneg)
    then show ?thesis
      using u bytes_of_nonneg [of "drop_path (ce_path ?it) (items c)"]
      by (simp add: removeElement_def Let_def v csize_def not_less)
  qed
  have l: "set (lru (removeElement e c)) = set (lru c) - {e}"
    using same_elem(1) [OF w e] by (auto simp: list_Remove_def)
  have nx: "next_elem (removeElement e c) = next_elem c"
    by (simp add: removeElement_def Let_def split: cvalue.split)
  have m: "map_of (entries (removeElement e c)) k = Some x \<longleftrightarrow>
      x \<in> set (lru (removeElement e c)) \<and> ce_path (item_of x) = k" for k x
    unfolding en l using cache_wfD(6) [OF w, of k x] same_elem(2) [OF w e, of x] by auto
  have ub: "used (removeElement e c) < 2 ^ 63"
    unfolding us using bytes_drop_le [of "ce_path ?it" "items c"] cache_wfD(7,8) [OF w] by simp
  show "cache_wf (removeElement e c)"
    unfolding cache_wf_def
  proof (intro conjI)
    show "\<forall>x \<in> set (lru (removeElement e c)). \<exists>it. el_value x = EntryVal it"
      unfolding l using cache_wfD(1) [OF w] by blast
    show "distinct (map el_id (lru (removeElement e c)))"
      using cache_wfD(2) [OF w] by (simp add: list_Remove_def distinct_map_filter)
    show "\<forall>x \<in> set (lru (removeElement e c)). el_id x < next_elem (removeElement e c)"
      unfolding l nx using cache_wfD(3) [OF w] by blast
    show "distinct (map ce_path (items (removeElement e c)))"
      unfolding its using cache_wfD(4) [OF w] by simp
    show "distinct (map fst (entries (removeElement e c)))"
      unfolding en using cache_wfD(5) [OF w] by simp
    show "used (removeElement e c) = bytes_of (items (removeElement e c))" by (simp add: us its)
    show "maxBytes (removeElement e c) < 2 ^ 62" using cache_wfD(9) [OF w] by (simp add: mb)
  qed (use m ub in blast)+
qed

lemma evictLocked_spec:
  "cache_wf c \<Longrightarrow> 0 \<le> maxBytes c \<Longrightarrow>
   cache_ok (evictLocked c) \<and> items (evictLocked c) = lru_fit (maxBytes c) (items c)
   \<and> maxBytes (evictLocked c) = maxBytes c"
proof (induction c rule: evictLocked.induct)
  case (1 c)
  note w = 1(2) and m = 1(3)
  show ?case
  proof (cases "used c > maxBytes c")
    case False
    then show ?thesis
      using w m cache_wfD(7) [OF w] by (subst (1 2 3) evictLocked.simps) (simp add: cache_ok_def lru_fit_all)
  next
    case True
    then have ne: "lru c \<noteq> []" using m cache_wfD(7) [OF w] by (auto simp: items_def)
    let ?e = "last (lru c)" and ?c = "removeElement (last (lru c)) c"
    have e: "?e \<in> set (lru c)" using ne by simp
    note r = removeElement_spec [OF w e]
    have split: "items c = map item_of (butlast (lru c)) @ [item_of ?e]"
      using ne by (metis append_butlast_last_id items_def list.simps(8,9) map_append)
    have "drop_path (ce_path (item_of ?e)) (items c) = map item_of (butlast (lru c))"
      using cache_wfD(4) [OF w] unfolding split by (simp add: drop_path_absent image_image)
    then have f: "lru_fit (maxBytes c) (items ?c) = lru_fit (maxBytes c) (items c)"
      using True cache_wfD(7) [OF w] lru_fit_snoc [of "maxBytes c" "map item_of (butlast (lru c))" "item_of ?e"]
      unfolding r(2) split by simp
    have "evictLocked c = evictLocked ?c" using True ne by (subst evictLocked.simps) simp
    then show ?thesis using 1(1) [OF True ne r(1)] m f by (simp add: r(3))
  qed
qed

section \<open>The operations refine the abstract LRU list\<close>

definition spec_get :: "string \<Rightarrow> signature \<Rightarrow> centry list \<Rightarrow> centry list \<times> bytes option" where
  "spec_get k sg xs =
     (case find_path k xs of
        None \<Rightarrow> (xs, None)
      | Some it \<Rightarrow> if ce_sig it \<noteq> sg then (drop_path k xs, None)
                  else (it # drop_path k xs, Some (ce_content it)))"

definition spec_put :: "int \<Rightarrow> string \<Rightarrow> signature \<Rightarrow> bytes \<Rightarrow> centry list \<Rightarrow> centry list \<times> bool" where
  "spec_put m k sg b xs =
     (if int (length b) > m then (drop_path k xs, False)
      else (lru_fit m (\<lparr>ce_path = k, ce_sig = sg, ce_content = b\<rparr> # drop_path k xs), True))"

definition spec_invalidate_prefix :: "string \<Rightarrow> centry list \<Rightarrow> centry list" where
  "spec_invalidate_prefix k xs = filter (\<lambda>it. \<not> matchesPrefix (ce_path it) k) xs"

lemma find_path_member:
  "distinct (map ce_path xs) \<Longrightarrow> it \<in> set xs \<Longrightarrow> find_path (ce_path it) xs = Some it"
  unfolding find_path_def by (induction xs) (auto simp: image_iff)

lemma find_path_None: "find_path k xs = None \<longleftrightarrow> k \<notin> ce_path ` set xs"
  unfolding find_path_def by (auto simp: find_None_iff)

lemma find_path_Some: "find_path k xs = Some it \<Longrightarrow> it \<in> set xs \<and> ce_path it = k"
  unfolding find_path_def by (auto simp: find_Some_iff)

lemma find_path_Cons: "find_path k (it # xs) = (if ce_path it = k then Some it else find_path k xs)"
  by (simp add: find_path_def)

lemma find_drop_same [simp]: "find_path k (drop_path k xs) = None"
  by (auto simp: find_path_None)

lemma find_drop_other: "k \<noteq> j \<Longrightarrow> find_path k (drop_path j xs) = find_path k xs"
  unfolding find_path_def by (induction xs) auto

lemma cloneBytes_id [simp]: "cloneBytes b = b"
  by (simp add: cloneBytes_def)

lemma cache_lookup_cases:
  assumes "cache_wf c"
  obtains (absent) "map_of (entries c) k = None" "find_path k (items c) = None"
  | (present) e where "map_of (entries c) k = Some e" "e \<in> set (lru c)" "ce_path (item_of e) = k"
      "el_value e = EntryVal (item_of e)" "find_path k (items c) = Some (item_of e)"
proof (cases "map_of (entries c) k")
  case None
  then have "e \<in> set (lru c) \<Longrightarrow> ce_path (item_of e) \<noteq> k" for e
    using cache_wfD(6) [OF assms, of k e] by auto
  then have "find_path k (items c) = None" by (auto simp: find_path_None items_def)
  with None absent show thesis by blast
next
  case (Some e)
  then have e: "e \<in> set (lru c)" "ce_path (item_of e) = k" using cache_wfD(6) [OF assms] by auto
  then have "find_path k (items c) = Some (item_of e)"
    using find_path_member [OF cache_wfD(4) [OF assms], of "item_of e"] by (auto simp: items_def)
  with Some e cache_wfD(1) [OF assms e(1)] present show thesis by blast
qed

abbreviation drop_key :: "string \<Rightarrow> cache \<Rightarrow> cache" where
  "drop_key k c \<equiv> (case map_of (entries c) k of None \<Rightarrow> c | Some e \<Rightarrow> removeElement e c)"

lemma drop_lookup:
  assumes "cache_ok c"
  shows "cache_ok (drop_key k c) \<and> items (drop_key k c) = drop_path k (items c)
    \<and> maxBytes (drop_key k c) = maxBytes c"
proof -
  have w: "cache_wf c" using assms by (simp add: cache_ok_def)
  from w show ?thesis
  proof (cases rule: cache_lookup_cases [where k = k])
    case absent
    then show ?thesis using assms by (simp add: drop_path_absent find_path_None)
  next
    case (present e)
    note r = removeElement_spec [OF w present(2)]
    have "used (removeElement e c) \<le> used c"
      using cache_wfD(7) [OF r(1)] cache_wfD(7) [OF w] bytes_drop_le by (simp add: r(2))
    then show ?thesis using assms present r by (simp add: cache_ok_def)
  qed
qed

lemma cache_Invalidate_spec:
  assumes "cache_ok c"
  shows "cache_ok (cache_Invalidate c p)" "maxBytes (cache_Invalidate c p) = maxBytes c"
    "0 < maxBytes c \<Longrightarrow> items (cache_Invalidate c p) = drop_path (cache_normalize p) (items c)"
  using drop_lookup [OF assms, of "cache_normalize p"] assms by (auto simp: cache_Invalidate_def)

lemma cache_Get_spec:
  assumes ok: "cache_ok c" and m: "0 < maxBytes c"
  shows "cache_ok (fst (cache_Get c p sg)) \<and> maxBytes (fst (cache_Get c p sg)) = maxBytes c
    \<and> (items (fst (cache_Get c p sg)), snd (cache_Get c p sg)) = spec_get (cache_normalize p) sg (items c)"
proof -
  have w: "cache_wf c" using ok by (simp add: cache_ok_def)
  let ?k = "cache_normalize p"
  from w show ?thesis
  proof (cases rule: cache_lookup_cases [where k = "?k"])
    case absent
    then show ?thesis using ok m by (simp add: cache_Get_def spec_get_def)
  next
    case (present e)
    note r = removeElement_spec [OF w present(2)]
    show ?thesis
    proof (cases "ce_sig (item_of e) = sg")
      case False
      then show ?thesis
        using drop_lookup [OF ok, of ?k] present m by (simp add: cache_Get_def spec_get_def)
    next
      case True
      let ?c = "c\<lparr>lru := e # list_Remove e (lru c)\<rparr>"
      have g: "cache_Get c p sg = (?c, Some (ce_content (item_of e)))"
        using True present m by (simp add: cache_Get_def list_MoveToFront_def)
      have its: "items ?c = item_of e # drop_path ?k (items c)"
        using items_Remove [OF w present(2)] present(3) by (simp add: items_def)
      have l: "set (lru ?c) = set (lru c)"
        using same_elem(1) [OF w present(2)] present(2) by (auto simp: list_Remove_def)
      have b: "bytes_of (items ?c) = bytes_of (items c)"
        unfolding its using bytes_drop_path [OF cache_wfD(4) [OF w], of "item_of e"] present(2,3)
        by (simp add: items_def)
      have "cache_wf ?c"
        unfolding cache_wf_def l b
      proof (intro conjI)
        show "distinct (map el_id (lru ?c))"
          using cache_wfD(2) [OF w] by (auto simp: list_Remove_def distinct_map_filter)
        show "distinct (map ce_path (items ?c))"
          unfolding its using cache_wfD(4) [OF w] present(3) by auto
      qed (use w in \<open>auto simp: cache_wf_def\<close>)
      moreover have "used ?c \<le> max 0 (maxBytes ?c)" using ok by (simp add: cache_ok_def)
      ultimately show ?thesis
        using its True present by (simp add: g spec_get_def cache_ok_def)
    qed
  qed
qed

lemma push_wf:
  fixes sg :: signature
  assumes ok: "cache_ok c" and k: "k \<notin> ce_path ` set (items c)" and fit: "int (length b) \<le> maxBytes c"
  defines "e \<equiv> \<lparr>el_id = next_elem c, el_value = EntryVal \<lparr>ce_path = k, ce_sig = sg, ce_content = b\<rparr>\<rparr>"
  defines "c' \<equiv> c\<lparr>lru := e # lru c, next_elem := Suc (next_elem c), entries := AList.update k e (entries c),
      used := int64_wrap (used c + int (length b))\<rparr>"
  shows "cache_wf c'" and "items c' = \<lparr>ce_path = k, ce_sig = sg, ce_content = b\<rparr> # items c"
    and "maxBytes c' = maxBytes c"
proof -
  have w: "cache_wf c" using ok by (simp add: cache_ok_def)
  have ie: "item_of e = \<lparr>ce_path = k, ce_sig = sg, ce_content = b\<rparr>" by (simp add: e_def item_of_def)
  show its: "items c' = \<lparr>ce_path = k, ce_sig = sg, ce_content = b\<rparr> # items c"
    by (simp add: c'_def items_def ie)
  show "maxBytes c' = maxBytes c" by (simp add: c'_def)
  have range: "0 \<le> used c + int (length b)" "used c + int (length b) < 2 ^ 63"
    using ok cache_wfD(7,9) [OF w] fit bytes_of_nonneg [of "items c"] by (auto simp: cache_ok_def)
  then have us: "used c' = used c + int (length b)" by (simp add: c'_def is_int64_def)
  have m: "map_of (entries c') j = Some x \<longleftrightarrow> x \<in> set (lru c') \<and> ce_path (item_of x) = j" for j x
  proof -
    have "x \<in> set (lru c) \<Longrightarrow> ce_path (item_of x) \<noteq> k" using k by (auto simp: items_def)
    then show ?thesis using cache_wfD(6) [OF w, of j x] ie by (auto simp: c'_def)
  qed
  have "e \<notin> set (lru c)" using cache_wfD(3) [OF w, of e] by (auto simp: e_def)
  show "cache_wf c'"
    unfolding cache_wf_def
  proof (intro conjI)
    show "distinct (map el_id (lru c'))"
      using cache_wfD(2) [OF w] cache_wfD(3) [OF w] by (fastforce simp: c'_def e_def)
    show "\<forall>x \<in> set (lru c'). el_id x < next_elem c'"
      using cache_wfD(3) [OF w] by (auto simp: c'_def e_def less_Suc_eq)
    show "\<forall>x \<in> set (lru c'). \<exists>it. el_value x = EntryVal it"
      using cache_wfD(1) [OF w] by (auto simp: c'_def e_def)
    show "distinct (map ce_path (items c'))" unfolding its using cache_wfD(4) [OF w] k by simp
    show "distinct (map fst (entries c'))" using cache_wfD(5) [OF w] by (simp add: c'_def)
    show "used c' = bytes_of (items c')" using cache_wfD(7) [OF w] by (simp add: us its csize_def)
    show "used c' < 2 ^ 63" using range by (simp add: us)
    show "maxBytes c' < 2 ^ 62" using cache_wfD(9) [OF w] by (simp add: c'_def)
  qed (use m in blast)
qed

lemma cache_normalize_eq: "cache_normalize p = rel_path (clean_elems (ToSlash p))"
  unfolding rooted_trim [symmetric] cache_normalize_def by (auto simp: Let_def)

lemma cache_normalize_idem [simp]: "cache_normalize (cache_normalize p) = cache_normalize p"
  by (simp add: cache_normalize_eq clean_elems_normal)

lemma cache_Put_spec:
  assumes ok: "cache_ok c" and m: "0 < maxBytes c"
  shows "cache_ok (fst (cache_Put c p sg b)) \<and> maxBytes (fst (cache_Put c p sg b)) = maxBytes c
    \<and> (items (fst (cache_Put c p sg b)), snd (cache_Put c p sg b))
        = spec_put (maxBytes c) (cache_normalize p) sg b (items c)"
proof (cases "int (length b) > maxBytes c")
  case True
  then show ?thesis
    using cache_Invalidate_spec [OF ok, of "cache_normalize p"] m by (simp add: cache_Put_def spec_put_def Let_def)
next
  case False
  let ?k = "cache_normalize p" and ?c1 = "drop_key (cache_normalize p) c"
  let ?it = "\<lparr>ce_path = ?k, ce_sig = sg, ce_content = b\<rparr>"
  let ?e = "\<lparr>el_id = next_elem ?c1, el_value = EntryVal ?it\<rparr>"
  let ?c4 = "?c1\<lparr>lru := ?e # lru ?c1, next_elem := Suc (next_elem ?c1), entries := AList.update ?k ?e (entries ?c1),
      used := int64_wrap (used ?c1 + int (length b))\<rparr>"
  have d: "cache_ok ?c1" "items ?c1 = drop_path ?k (items c)" "maxBytes ?c1 = maxBytes c"
    using drop_lookup [OF ok, of ?k] by auto
  have "?k \<notin> ce_path ` set (items ?c1)" "int (length b) \<le> maxBytes ?c1"
    using False by (auto simp: d)
  note push = push_wf [OF d(1) this, of sg]
  obtain c4 where c4: "cache_Put c p sg b = (evictLocked c4, True)"
    "cache_wf c4" "items c4 = ?it # drop_path ?k (items c)" "maxBytes c4 = maxBytes c"
  proof
    show "cache_Put c p sg b = (evictLocked ?c4, True)"
      using False m unfolding cache_Put_def Let_def by simp
  qed (use push d in simp_all)
  then show ?thesis
    using evictLocked_spec [OF c4(2)] m False by (simp add: spec_put_def)
qed

lemma InvalidatePrefix_loop:
  "cache_ok c \<Longrightarrow> \<forall>(p, e) \<in> set es. matchesPrefix p k \<longrightarrow> e \<in> set (lru c) \<and> ce_path (item_of e) = p \<Longrightarrow>
   distinct (map fst es) \<Longrightarrow>
   (let c' = foldl (\<lambda>c (p, e). if matchesPrefix p k then removeElement e c else c) c es in
    cache_ok c' \<and> maxBytes c' = maxBytes c \<and>
    items c' = filter (\<lambda>it. \<not> (matchesPrefix (ce_path it) k \<and> ce_path it \<in> fst ` set es)) (items c))"
proof (induction es arbitrary: c)
  case (Cons pe es)
  obtain p e where pe: "pe = (p, e)" by (cases pe)
  have w: "cache_wf c" using Cons.prems(1) by (simp add: cache_ok_def)
  show ?case
  proof (cases "matchesPrefix p k")
    case False
    with Cons.IH [OF Cons.prems(1)] Cons.prems False pe show ?thesis
      by (simp add: Let_def) (rule filter_cong, use False in auto)
  next
    case True
    then have e: "e \<in> set (lru c)" "ce_path (item_of e) = p" using Cons.prems(2) pe by auto
    have me: "map_of (entries c) p = Some e" using cache_wfD(6) [OF w] e by simp
    have d: "cache_ok (removeElement e c)" "items (removeElement e c) = drop_path p (items c)"
      "maxBytes (removeElement e c) = maxBytes c"
      using drop_lookup [OF Cons.prems(1), of p] me by auto
    have "x \<in> set (lru (removeElement e c))" if "x \<in> set (lru c)" "ce_path (item_of x) \<noteq> p" for x
      using same_elem(1) [OF w e(1) that(1)] that e by (auto simp: list_Remove_def)
    then have "\<forall>(q, x) \<in> set es. matchesPrefix q k \<longrightarrow> x \<in> set (lru (removeElement e c)) \<and> ce_path (item_of x) = q"
      using Cons.prems(2,3) pe by force
    from Cons.IH [OF d(1) this] Cons.prems(3) True pe show ?thesis
      by (simp add: Let_def d drop_path_def) (rule filter_cong, auto)
  qed
qed simp

lemma cache_InvalidatePrefix_spec:
  assumes ok: "cache_ok c"
  shows "cache_ok (cache_InvalidatePrefix c p)" "maxBytes (cache_InvalidatePrefix c p) = maxBytes c"
    "0 < maxBytes c \<Longrightarrow> items (cache_InvalidatePrefix c p) = spec_invalidate_prefix (cache_normalize p) (items c)"
proof -
  have w: "cache_wf c" using ok by (simp add: cache_ok_def)
  have mem: "e \<in> set (lru c) \<and> ce_path (item_of e) = q" if "(q, e) \<in> set (entries c)" for q e
    using that cache_wfD(5,6) [OF w] map_of_is_SomeI by fast
  then have "\<forall>(q, e) \<in> set (entries c). matchesPrefix q (cache_normalize p) \<longrightarrow> e \<in> set (lru c) \<and> ce_path (item_of e) = q"
    by auto
  note l = InvalidatePrefix_loop [OF ok this cache_wfD(5) [OF w], unfolded Let_def]
  have "ce_path it \<in> fst ` set (entries c)" if "it \<in> set (items c)" for it
  proof -
    from that obtain e where "e \<in> set (lru c)" "it = item_of e" by (auto simp: items_def)
    then have "map_of (entries c) (ce_path it) = Some e" using cache_wfD(6) [OF w] by blast
    then have "(ce_path it, e) \<in> set (entries c)" by (rule map_of_SomeD)
    then show ?thesis by (rule image_eqI [rotated]) simp
  qed
  then have "filter (\<lambda>it. \<not> (matchesPrefix (ce_path it) k \<and> ce_path it \<in> fst ` set (entries c))) (items c)
      = spec_invalidate_prefix k (items c)" for k
    unfolding spec_invalidate_prefix_def by (intro filter_cong) auto
  with l ok show "cache_ok (cache_InvalidatePrefix c p)" "maxBytes (cache_InvalidatePrefix c p) = maxBytes c"
    "0 < maxBytes c \<Longrightarrow> items (cache_InvalidatePrefix c p) = spec_invalidate_prefix (cache_normalize p) (items c)"
    by (auto simp: cache_InvalidatePrefix_def Let_def)
qed

lemma cache_New_ok: "n < 2 ^ 62 \<Longrightarrow> cache_ok (cache_New n)" "items (cache_New n) = []"
  by (auto simp: cache_ok_def cache_wf_def cache_New_def items_def)

lemma cache_Clear_ok: "cache_ok c \<Longrightarrow> cache_ok (cache_Clear c)" "items (cache_Clear c) = []"
    "maxBytes (cache_Clear c) = maxBytes c"
  by (auto simp: cache_ok_def cache_wf_def cache_Clear_def items_def)

section \<open>The contract of a content store\<close>

text \<open>What the session relies on: a lookup answers only with what was stored last under that path and
  signature, and invalidation makes it miss. \<open>holds c k\<close> is the entry stored under a normalised path.\<close>

definition holds :: "cache \<Rightarrow> string \<Rightarrow> (signature \<times> bytes) option" where
  "holds c k = map_option (\<lambda>it. (ce_sig it, ce_content it)) (find_path k (items c))"

locale content_store =
  fixes ok :: "'c \<Rightarrow> bool" and view :: "'c \<Rightarrow> string \<Rightarrow> (signature \<times> bytes) option"
    and get :: "'c \<Rightarrow> string \<Rightarrow> signature \<Rightarrow> 'c \<times> bytes option"
    and put :: "'c \<Rightarrow> string \<Rightarrow> signature \<Rightarrow> bytes \<Rightarrow> 'c \<times> bool"
    and inv :: "'c \<Rightarrow> string \<Rightarrow> 'c" and inv_prefix :: "'c \<Rightarrow> string \<Rightarrow> 'c"
    and clear :: "'c \<Rightarrow> 'c" and key :: "string \<Rightarrow> string"
  assumes ok_get: "ok c \<Longrightarrow> ok (fst (get c p sg))"
    and ok_put: "ok c \<Longrightarrow> ok (fst (put c p sg b))"
    and ok_inv: "ok c \<Longrightarrow> ok (inv c p)"
    and ok_inv_prefix: "ok c \<Longrightarrow> ok (inv_prefix c p)"
    and ok_clear: "ok c \<Longrightarrow> ok (clear c)"
    and get_result: "ok c \<Longrightarrow> snd (get c p sg) =
          (case view c (key p) of Some (s, b) \<Rightarrow> if s = sg then Some b else None | None \<Rightarrow> None)"
    and view_get: "ok c \<Longrightarrow> view (fst (get c p sg)) k = Some v \<Longrightarrow> view c k = Some v"
    and view_put: "ok c \<Longrightarrow> view (fst (put c p sg b)) k = Some v \<Longrightarrow>
          (if k = key p then snd (put c p sg b) \<and> v = (sg, b) else view c k = Some v)"
    and put_stores: "ok c \<Longrightarrow> snd (put c p sg b) \<Longrightarrow> view (fst (put c p sg b)) (key p) = Some (sg, b)"
    and view_inv: "ok c \<Longrightarrow> view (inv c p) k = (if k = key p then None else view c k)"
    and view_inv_prefix: "ok c \<Longrightarrow> view (inv_prefix c p) k = (if matchesPrefix k (key p) then None else view c k)"
    and view_clear: "view (clear c) k = None"
begin

lemma get_after_put: "ok c \<Longrightarrow> snd (put c p sg b) \<Longrightarrow> snd (get (fst (put c p sg b)) p sg) = Some b"
  by (simp add: get_result ok_put put_stores)

lemma get_after_inv: "ok c \<Longrightarrow> key q = key p \<Longrightarrow> snd (get (inv c p) q sg) = None"
  by (simp add: get_result ok_inv view_inv)

lemma get_after_inv_prefix: "ok c \<Longrightarrow> matchesPrefix (key q) (key p) \<Longrightarrow> snd (get (inv_prefix c p) q sg) = None"
  by (simp add: get_result ok_inv_prefix view_inv_prefix)

lemma get_sound: "ok c \<Longrightarrow> snd (get c p sg) = Some b \<Longrightarrow> view c (key p) = Some (sg, b)"
  by (auto simp: get_result split: option.splits if_splits)

text \<open>A property that every stored entry has survives every operation but a \<open>put\<close> that breaks it.\<close>

lemma entries_invariant:
  assumes "ok c" "\<And>k v. view c k = Some v \<Longrightarrow> P k v"
  shows "view (fst (get c p sg)) k = Some v \<Longrightarrow> P k v"
    "view (inv c p) k = Some v \<Longrightarrow> P k v" "view (inv_prefix c p) k = Some v \<Longrightarrow> P k v"
    "(snd (put c p sg b) \<Longrightarrow> P (key p) (sg, b)) \<Longrightarrow> view (fst (put c p sg b)) k = Some v \<Longrightarrow> P k v"
proof -
  show "view (fst (get c p sg)) k = Some v \<Longrightarrow> P k v" using assms view_get by blast
  show "view (inv c p) k = Some v \<Longrightarrow> P k v" "view (inv_prefix c p) k = Some v \<Longrightarrow> P k v"
    using assms by (auto simp: view_inv view_inv_prefix split: if_splits)
  assume "snd (put c p sg b) \<Longrightarrow> P (key p) (sg, b)" "view (fst (put c p sg b)) k = Some v"
  then show "P k v" using view_put [OF assms(1), of p sg b k v] assms(2) by (auto split: if_splits)
qed

end

text \<open>A cache whose budget is not positive never holds anything.\<close>

definition cache_inv :: "cache \<Rightarrow> bool" where
  "cache_inv c = (cache_ok c \<and> (maxBytes c \<le> 0 \<longrightarrow> lru c = []))"

lemma cache_inv_pos: "cache_ok c \<Longrightarrow> 0 < maxBytes c \<Longrightarrow> cache_inv c"
  by (simp add: cache_inv_def)

lemma disabled_ops:
  assumes "maxBytes c \<le> 0"
  shows "cache_Get c p sg = (c, None)" "cache_Put c p sg b = (c, False)" "cache_Invalidate c p = c"
    "cache_InvalidatePrefix c p = c"
  using assms by (simp_all add: cache_Get_def cache_Put_def cache_Invalidate_def cache_InvalidatePrefix_def)

lemma cache_inv_ops:
  assumes "cache_inv c"
  shows "cache_inv (fst (cache_Get c p sg))" "cache_inv (fst (cache_Put c p sg b))"
    "cache_inv (cache_Invalidate c p)" "cache_inv (cache_InvalidatePrefix c p)" "cache_inv (cache_Clear c)"
proof -
  have ok: "cache_ok c" using assms by (simp add: cache_inv_def)
  show "cache_inv (fst (cache_Get c p sg))"
    using cache_Get_spec [OF ok] assms disabled_ops(1) [of c] by (cases "0 < maxBytes c") (simp_all add: cache_inv_pos)
  show "cache_inv (fst (cache_Put c p sg b))"
    using cache_Put_spec [OF ok] assms disabled_ops(2) [of c] by (cases "0 < maxBytes c") (simp_all add: cache_inv_pos)
  show "cache_inv (cache_Invalidate c p)"
    using cache_Invalidate_spec [OF ok] assms disabled_ops(3) [of c] by (cases "0 < maxBytes c") (simp_all add: cache_inv_pos)
  show "cache_inv (cache_InvalidatePrefix c p)"
    using cache_InvalidatePrefix_spec [OF ok] assms disabled_ops(4) [of c] by (cases "0 < maxBytes c") (simp_all add: cache_inv_pos)
  show "cache_inv (cache_Clear c)" using cache_Clear_ok(1) [OF ok] by (simp add: cache_inv_def cache_Clear_def)
qed

lemma cache_New_inv: "n < 2 ^ 62 \<Longrightarrow> cache_inv (cache_New n)"
  using cache_New_ok(1) [of n] by (simp add: cache_inv_def cache_New_def)

lemma holds_disabled: "cache_inv c \<Longrightarrow> maxBytes c \<le> 0 \<Longrightarrow> holds c k = None"
  by (simp add: cache_inv_def holds_def items_def find_path_def)

lemma find_prefix: "prefix ys xs \<Longrightarrow> find_path k ys = Some it \<Longrightarrow> find_path k xs = Some it"
proof -
  have "find_path k ys = Some it \<Longrightarrow> find_path k (ys @ zs) = Some it" for zs
    unfolding find_path_def by (induction ys) (auto split: if_splits)
  then show "prefix ys xs \<Longrightarrow> find_path k ys = Some it \<Longrightarrow> find_path k xs = Some it"
    by (auto simp: prefix_def)
qed

lemma find_path_filter:
  "find_path k (filter (\<lambda>it. Q (ce_path it)) xs) = (if Q k then find_path k xs else None)"
  unfolding find_path_def by (induction xs) auto

lemma holds_Get:
  assumes "cache_inv c"
  shows "snd (cache_Get c p sg) =
      (case holds c (cache_normalize p) of Some (s, b) \<Rightarrow> if s = sg then Some b else None | None \<Rightarrow> None)"
    "holds (fst (cache_Get c p sg)) k = Some v \<Longrightarrow> holds c k = Some v"
proof -
  have ok: "cache_ok c" using assms by (simp add: cache_inv_def)
  let ?k = "cache_normalize p"
  show "snd (cache_Get c p sg) =
      (case holds c ?k of Some (s, b) \<Rightarrow> if s = sg then Some b else None | None \<Rightarrow> None)"
    using cache_Get_spec [OF ok, of p sg] holds_disabled [OF assms] disabled_ops(1) [of c p sg]
    by (cases "0 < maxBytes c"; cases "find_path ?k (items c)") (auto simp: spec_get_def holds_def split: if_splits)
  assume h: "holds (fst (cache_Get c p sg)) k = Some v"
  show "holds c k = Some v"
  proof (cases "0 < maxBytes c")
    case True
    then have "items (fst (cache_Get c p sg)) = fst (spec_get ?k sg (items c))"
      using cache_Get_spec [OF ok, of p sg] by (metis fst_conv)
    moreover have "find_path k (it # drop_path ?k (items c)) = find_path k (items c)"
      if "find_path ?k (items c) = Some it" for it
      using find_path_Some [OF that] that find_drop_other [of k ?k "items c"]
      by (cases "k = ?k") (auto simp: find_path_def)
    moreover have "find_path k (drop_path ?k (items c)) = Some it \<Longrightarrow> find_path k (items c) = Some it" for it
      using find_drop_other [of k ?k "items c"] by (cases "k = ?k") auto
    ultimately show ?thesis using h by (auto simp: holds_def spec_get_def split: option.splits if_splits)
  qed (use h disabled_ops(1) [of c p sg] in simp)
qed

lemma holds_Put:
  assumes "cache_inv c"
  shows "holds (fst (cache_Put c p sg b)) k = Some v \<Longrightarrow>
      (if k = cache_normalize p then snd (cache_Put c p sg b) \<and> v = (sg, b) else holds c k = Some v)"
    "snd (cache_Put c p sg b) \<Longrightarrow> holds (fst (cache_Put c p sg b)) (cache_normalize p) = Some (sg, b)"
proof -
  have ok: "cache_ok c" using assms by (simp add: cache_inv_def)
  let ?k = "cache_normalize p" and ?it = "\<lparr>ce_path = cache_normalize p, ce_sig = sg, ce_content = b\<rparr>"
  let ?new = "?it # drop_path ?k (items c)"
  have put: "items (fst (cache_Put c p sg b)) = fst (spec_put (maxBytes c) ?k sg b (items c))"
    "snd (cache_Put c p sg b) = snd (spec_put (maxBytes c) ?k sg b (items c))" if "0 < maxBytes c"
    using cache_Put_spec [OF ok that, of p sg b] by (metis fst_conv, metis snd_conv)
  show "snd (cache_Put c p sg b) \<Longrightarrow> holds (fst (cache_Put c p sg b)) ?k = Some (sg, b)"
    using put disabled_ops(2) [of c p sg b]
    by (cases "0 < maxBytes c") (auto simp: spec_put_def holds_def find_path_def csize_def split: if_splits)
  assume h: "holds (fst (cache_Put c p sg b)) k = Some v"
  show "if k = ?k then snd (cache_Put c p sg b) \<and> v = (sg, b) else holds c k = Some v"
  proof (cases "0 < maxBytes c")
    case True
    show ?thesis
    proof (cases "int (length b) > maxBytes c")
      case big: True
      then show ?thesis
        using h put [OF True] by (cases "k = ?k") (simp_all add: holds_def spec_put_def find_drop_other)
    next
      case False
      then obtain it where it: "find_path k (lru_fit (maxBytes c) ?new) = Some it" "v = (ce_sig it, ce_content it)"
        using h put [OF True] by (auto simp: holds_def spec_put_def)
      have "find_path k ?new = Some it" using it(1) by (rule find_prefix [OF fit_prefix])
      then show ?thesis
        using it(2) False put [OF True]
        by (cases "k = ?k") (auto simp: holds_def spec_put_def find_path_Cons find_drop_other)
    qed
  qed (use h holds_disabled [OF assms] disabled_ops(2) [of c p sg b] in simp)
qed

lemma holds_Invalidate:
  assumes "cache_inv c"
  shows "holds (cache_Invalidate c p) k = (if k = cache_normalize p then None else holds c k)"
    "holds (cache_InvalidatePrefix c p) k = (if matchesPrefix k (cache_normalize p) then None else holds c k)"
proof -
  have ok: "cache_ok c" using assms by (simp add: cache_inv_def)
  show "holds (cache_Invalidate c p) k = (if k = cache_normalize p then None else holds c k)"
    using cache_Invalidate_spec [OF ok, of p] holds_disabled [OF assms] disabled_ops(3) [of c p]
    by (cases "0 < maxBytes c") (simp_all add: holds_def find_drop_other)
  show "holds (cache_InvalidatePrefix c p) k = (if matchesPrefix k (cache_normalize p) then None else holds c k)"
    using cache_InvalidatePrefix_spec [OF ok, of p] holds_disabled [OF assms] disabled_ops(4) [of c p]
      find_path_filter [of k "\<lambda>q. \<not> matchesPrefix q (cache_normalize p)" "items c"]
    by (cases "0 < maxBytes c") (simp_all add: holds_def spec_invalidate_prefix_def)
qed

interpretation cc: content_store cache_inv holds cache_Get cache_Put cache_Invalidate
  cache_InvalidatePrefix cache_Clear cache_normalize
proof
  fix c k
  show "holds (cache_Clear c) k = None"
    by (simp add: holds_def items_def cache_Clear_def find_path_def)
qed (rule cache_inv_ops holds_Get holds_Put holds_Invalidate; assumption)+

section \<open>Properties\<close>

text \<open>C3: every cache operation acts on the recency list as the abstract LRU operation does, keeps the
  invariant (map and list agree, the byte counter is exact) and never holds more than the budget.\<close>

theorem cache_refines_lru:
  assumes "cache_ok c" "0 < maxBytes c"
  shows "(items (fst (cache_Get c p sg)), snd (cache_Get c p sg)) = spec_get (cache_normalize p) sg (items c)
    \<and> (items (fst (cache_Put c p sg b)), snd (cache_Put c p sg b))
        = spec_put (maxBytes c) (cache_normalize p) sg b (items c)
    \<and> items (cache_Invalidate c p) = drop_path (cache_normalize p) (items c)
    \<and> items (cache_InvalidatePrefix c p) = spec_invalidate_prefix (cache_normalize p) (items c)
    \<and> (\<forall>c' \<in> {fst (cache_Get c p sg), fst (cache_Put c p sg b), cache_Invalidate c p, cache_InvalidatePrefix c p}.
         cache_ok c' \<and> used c' = bytes_of (items c') \<and> used c' \<le> maxBytes c)"
proof -
  let ?S = "{fst (cache_Get c p sg), fst (cache_Put c p sg b), cache_Invalidate c p, cache_InvalidatePrefix c p}"
  note g = cache_Get_spec [OF assms, of p sg] and pu = cache_Put_spec [OF assms, of p sg b]
    and i = cache_Invalidate_spec [OF assms(1), of p] and ip = cache_InvalidatePrefix_spec [OF assms(1), of p]
  have "cache_ok c' \<and> maxBytes c' = maxBytes c" if "c' \<in> ?S" for c'
    using that g pu i ip by auto
  moreover have "cache_ok c' \<Longrightarrow> used c' = bytes_of (items c') \<and> used c' \<le> max 0 (maxBytes c')" for c'
    by (simp add: cache_ok_def cache_wf_def)
  ultimately have "\<forall>c' \<in> ?S. cache_ok c' \<and> used c' = bytes_of (items c') \<and> used c' \<le> maxBytes c"
    using assms(2) by (metis max.absorb2 order_less_imp_le)
  then show ?thesis using g pu i(3) [OF assms(2)] ip(3) [OF assms(2)] by blast
qed

definition sig0 :: signature where "sig0 = \<lparr>sig_size = 2, sig_mod_time = 7\<rparr>"

definition demo_cache :: cache where
  "demo_cache = fst (cache_Put (fst (cache_Put (cache_New 4) ''a'' sig0 ''xy'')) ''b'' sig0 ''zw'')"

lemma demo_cache_ok: "cache_ok demo_cache" "0 < maxBytes demo_cache"
proof -
  have a: "cache_ok (cache_New 4)" "0 < maxBytes (cache_New 4)" using cache_New_ok(1) [of 4] by (simp_all add: cache_New_def)
  show "cache_ok demo_cache" "0 < maxBytes demo_cache"
    using cache_Put_spec [OF a, of "''a''" sig0 "''xy''"] a
      cache_Put_spec [of "fst (cache_Put (cache_New 4) ''a'' sig0 ''xy'')" "''b''" sig0 "''zw''"]
    by (simp_all add: demo_cache_def)
qed

theorem cache_refines_lru_witness:
  "map ce_path (items (fst (cache_Put demo_cache ''c'' sig0 ''uv''))) = [''c'', ''b'']"
proof -
  have i: "items demo_cache = [\<lparr>ce_path = ''b'', ce_sig = sig0, ce_content = ''zw''\<rparr>,
      \<lparr>ce_path = ''a'', ce_sig = sig0, ce_content = ''xy''\<rparr>]" "maxBytes demo_cache = 4"
    "cache_normalize ''c'' = ''c''" by code_simp+
  have "items (fst (cache_Put demo_cache ''c'' sig0 ''uv'')) = fst (spec_put 4 ''c'' sig0 ''uv'' (items demo_cache))"
    using cache_refines_lru [OF demo_cache_ok, of "''c''" sig0 "''uv''"] i(2,3) by (metis fst_conv)
  then show ?thesis unfolding i(1) by (simp add: spec_put_def csize_def)
qed

text \<open>A content that was stored is returned for the same path (in any spelling) and signature; with a
  different signature the lookup misses; after invalidating the path or a directory above it every lookup
  misses.\<close>

theorem cache_freshness:
  assumes "cache_inv c" "cache_normalize q = cache_normalize p"
  shows "(snd (cache_Put c p sg b) \<longrightarrow> snd (cache_Get (fst (cache_Put c p sg b)) q sg) = Some b)
    \<and> (snd (cache_Get (fst (cache_Put c p sg b)) q sg') = Some b' \<longrightarrow> sg' = sg \<and> b' = b)
    \<and> snd (cache_Get (cache_Invalidate c p) q sg) = None
    \<and> (matchesPrefix (cache_normalize r) (cache_normalize p) \<longrightarrow>
         snd (cache_Get (cache_InvalidatePrefix c p) r sg) = None)"
proof -
  have "snd (cache_Put c p sg b) \<longrightarrow> snd (cache_Get (fst (cache_Put c p sg b)) q sg) = Some b"
    using cc.get_result [OF cc.ok_put [OF assms(1)], of p sg b q sg] cc.put_stores [OF assms(1), of p sg b] assms(2)
    by simp
  moreover have "snd (cache_Get (fst (cache_Put c p sg b)) q sg') = Some b' \<longrightarrow> sg' = sg \<and> b' = b"
    using cc.get_sound [OF cc.ok_put [OF assms(1)], of p sg b q sg' b'] cc.view_put [OF assms(1), of p sg b "cache_normalize p"] assms(2)
    by force
  ultimately show ?thesis
    using cc.get_after_inv [OF assms, of sg] cc.get_after_inv_prefix [OF assms(1), of r p sg] by blast
qed

theorem cache_freshness_witness:
  "snd (cache_Get (fst (cache_Put demo_cache ''d/e'' sig0 ''q'')) ''./d//e'' sig0) = Some ''q''
   \<and> snd (cache_Get (cache_InvalidatePrefix demo_cache ''d'') ''d/e'' sig0) = None"
proof -
  have "cache_inv demo_cache" using demo_cache_ok by (simp add: cache_inv_pos)
  moreover have "cache_normalize ''./d//e'' = cache_normalize ''d/e''" "snd (cache_Put demo_cache ''d/e'' sig0 ''q'')"
    "matchesPrefix (cache_normalize ''d/e'') (cache_normalize ''d'')" by code_simp+
  ultimately show ?thesis
    using cache_freshness [of demo_cache "''./d//e''" "''d/e''" sig0 "''q''" sig0 "''q''" "''d/e''"]
      cache_freshness [of demo_cache "''d''" "''d''" sig0 "''q''" sig0 "''q''" "''d/e''"] by simp
qed

end
