(* ===== verification/Session.thy ===== *)
theory Session
  imports Fstree_Correct Contentcache
begin

text \<open>
  The server-side state of one connected daemon, \<open>src/pkg/session/session.go\<close>: the metadata tree, the
  content cache, the table of requests in flight with one response channel each, and the life cycle
  (open, offline read-only, closed). A receiver is not nil; \<open>time.Now()\<close> is the argument \<open>clock\<close>, a zero
  \<open>time.Time\<close> is \<open>None\<close>. A Go channel of capacity one is a record with its buffer; closing a closed
  channel or sending on one panics, which is the outcome \<open>None\<close> of the operation.

  Operations that only touch data are functions on the session; the blocks of the request protocol
  that run under a lock are functions too, and the theory \<open>Session_Conc\<close> interleaves them.
\<close>

section \<open>Definitions\<close>

datatype sess_error =
  ErrNilRequest | ErrNilDaemonMessage | ErrMissingInitialFileTree | ErrInvalidWorkspaceName
| ErrDuplicateRequestID | ErrSessionClosed | ErrSessionReplaced | ErrSessionOffline
| ErrBuildTree tree_error | ErrApplyChange tree_error | ErrStreamRecv | ErrStreamSend | ErrContext

record rchan =
  ch_buf :: "file_response option"
  ch_closed :: bool

record session =
  userID :: string
  workspaceName :: string
  sendCh :: "server_msg list"
  tree :: fstree
  scache :: cache
  prefetching :: "string list"
  pending :: "(string \<times> nat) list"
  chans :: "nat \<Rightarrow> rchan option"
  next_chan :: nat
  closeErr :: "sess_error option"
  closed :: bool
  offlineUntil :: "int option"
  reqSeq :: "64 word"
  lastHeartbeat :: int

definition sessionSendBufferSize :: nat where
  "sessionSendBufferSize = 64"

definition NewSession :: "string \<Rightarrow> int \<Rightarrow> session" where
  "NewSession uid cacheMaxBytes =
     \<lparr>userID = uid, workspaceName = [], sendCh = [], tree = fstree_New, scache = cache_New cacheMaxBytes,
      prefetching = [], pending = [], chans = (\<lambda>_. None), next_chan = 0, closeErr = None, closed = False,
      offlineUntil = None, reqSeq = 0, lastHeartbeat = 0\<rparr>"

definition LastHeartbeat :: "session \<Rightarrow> int option" where
  "LastHeartbeat s = (if lastHeartbeat s = 0 then None else Some (lastHeartbeat s))"

definition touchHeartbeat :: "int \<Rightarrow> session \<Rightarrow> session" where
  "touchHeartbeat clock s = s\<lparr>lastHeartbeat := clock\<rparr>"

subsection \<open>The tree and the cache\<close>

definition isDirectory :: "file_info option \<Rightarrow> bool" where
  "isDirectory info = (case info of None \<Rightarrow> False | Some i \<Rightarrow> fi_is_dir i)"

definition signatureFromInfo :: "file_info option \<Rightarrow> signature" where
  "signatureFromInfo info =
     (case info of
        None \<Rightarrow> \<lparr>sig_size = 0, sig_mod_time = 0\<rparr>
      | Some i \<Rightarrow> \<lparr>sig_size = fi_size i, sig_mod_time = fi_mod_time i\<rparr>)"

definition session_Lookup :: "session \<Rightarrow> string \<Rightarrow> file_info option" where
  "session_Lookup s p = fstree_Lookup (tree s) p"

definition session_List :: "session \<Rightarrow> string \<Rightarrow> file_info list option" where
  "session_List s p = fstree_List (tree s) p"

definition InvalidateContent :: "string \<Rightarrow> session \<Rightarrow> session" where
  "InvalidateContent p s = s\<lparr>scache := cache_Invalidate (scache s) p\<rparr>"

definition InvalidateContentPrefix :: "string \<Rightarrow> session \<Rightarrow> session" where
  "InvalidateContentPrefix p s = s\<lparr>scache := cache_InvalidatePrefix (scache s) p\<rparr>"

definition invalidatePath :: "string \<Rightarrow> bool \<Rightarrow> session \<Rightarrow> session" where
  "invalidatePath p recursive s = (if recursive then InvalidateContentPrefix p s else InvalidateContent p s)"

definition invalidateForInfo :: "file_info option \<Rightarrow> session \<Rightarrow> session" where
  "invalidateForInfo info s =
     (case info of None \<Rightarrow> s | Some i \<Rightarrow> invalidatePath (fi_path i) (fi_is_dir i) s)"

definition clearContentCache :: "session \<Rightarrow> session" where
  "clearContentCache s = s\<lparr>scache := cache_Clear (scache s)\<rparr>"

definition GetCachedContent :: "string \<Rightarrow> file_info option \<Rightarrow> session \<Rightarrow> session \<times> bytes option" where
  "GetCachedContent p info s =
     (case info of
        None \<Rightarrow> (s, None)
      | Some i \<Rightarrow> (let (c, r) = cache_Get (scache s) p (signatureFromInfo info) in (s\<lparr>scache := c\<rparr>, r)))"

definition PutCachedContent :: "string \<Rightarrow> file_info option \<Rightarrow> bytes \<Rightarrow> session \<Rightarrow> session \<times> bool" where
  "PutCachedContent p info content s =
     (case info of
        None \<Rightarrow> (s, False)
      | Some i \<Rightarrow> (let (c, r) = cache_Put (scache s) p (signatureFromInfo info) content in (s\<lparr>scache := c\<rparr>, r)))"

definition ApplyWriteResult :: "file_info option \<Rightarrow> session \<Rightarrow> session" where
  "ApplyWriteResult info s =
     (case info of
        None \<Rightarrow> s
      | Some i \<Rightarrow>
          (case fstree_Insert (tree s) info of
             (t, Some e) \<Rightarrow> s\<lparr>tree := t\<rparr>
           | (t, None) \<Rightarrow> invalidateForInfo info (s\<lparr>tree := t\<rparr>)))"

definition ApplyDelete :: "string \<Rightarrow> session \<Rightarrow> session" where
  "ApplyDelete p s =
     (let info = fstree_Lookup (tree s) p
      in invalidatePath p (isDirectory info) (s\<lparr>tree := fstree_Delete (tree s) p\<rparr>))"

definition ApplyRename :: "string \<Rightarrow> file_info option \<Rightarrow> session \<Rightarrow> session" where
  "ApplyRename oldRel newInfo s =
     (let oldInfo = fstree_Lookup (tree s) oldRel;
          t1 = fstree_Delete (tree s) oldRel;
          (t2, err) = (case newInfo of None \<Rightarrow> (t1, None) | Some i \<Rightarrow> fstree_Insert t1 newInfo);
          s2 = s\<lparr>tree := t2\<rparr>
      in if err \<noteq> None then s2
         else invalidateForInfo newInfo (invalidatePath oldRel (isDirectory oldInfo) s2))"

definition TryStartPrefetch :: "string \<Rightarrow> session \<Rightarrow> session \<times> bool" where
  "TryStartPrefetch p s =
     (if p = [] then (s, False)
      else if p \<in> set (prefetching s) then (s, False)
      else (s\<lparr>prefetching := p # prefetching s\<rparr>, True))"

definition FinishPrefetch :: "string \<Rightarrow> session \<Rightarrow> session" where
  "FinishPrefetch p s = (if p = [] then s else s\<lparr>prefetching := removeAll p (prefetching s)\<rparr>)"

subsection \<open>Messages of the daemon\<close>

fun load_files :: "file_info option list \<Rightarrow> fstree \<Rightarrow> tree_error + fstree" where
  "load_files [] t = Inr t"
| "load_files (f # fs) t =
     (case fstree_Insert t f of (t', None) \<Rightarrow> load_files fs t' | (t', Some e) \<Rightarrow> Inl e)"

definition replaceTree :: "file_tree option \<Rightarrow> session \<Rightarrow> session \<times> sess_error option" where
  "replaceTree ft s =
     (case load_files (case ft of None \<Rightarrow> [] | Some f \<Rightarrow> ft_files f) fstree_New of
        Inl e \<Rightarrow> (s, Some (ErrBuildTree e))
      | Inr t \<Rightarrow> (s\<lparr>tree := t\<rparr>, None))"

definition Bootstrap :: "int \<Rightarrow> daemon_msg option \<Rightarrow> session \<Rightarrow> session \<times> sess_error option" where
  "Bootstrap clock msg s =
     (case msg of
        None \<Rightarrow> (s, Some ErrNilDaemonMessage)
      | Some m \<Rightarrow>
          (case m of
             MsgFileTree (Some ft) \<Rightarrow>
               (case CleanSegment (ft_workspace_name ft) of
                  Inl e \<Rightarrow> (s, Some ErrInvalidWorkspaceName)
                | Inr name \<Rightarrow>
                    (case replaceTree (Some ft) s of
                       (s1, Some e) \<Rightarrow> (s1, Some e)
                     | (s1, None) \<Rightarrow>
                         (touchHeartbeat clock (clearContentCache (s1\<lparr>workspaceName := name\<rparr>)), None)))
           | _ \<Rightarrow> (s, Some ErrMissingInitialFileTree)))"

definition applyChange :: "file_change option \<Rightarrow> session \<Rightarrow> session \<times> sess_error option" where
  "applyChange change s =
     (case change of
        None \<Rightarrow> (s, Some (ErrApplyChange ErrNilChange))
      | Some c \<Rightarrow>
          let insert_new = (case fstree_Insert (tree s) (fc_file c) of
                (t, Some e) \<Rightarrow> (s\<lparr>tree := t\<rparr>, Some (ErrApplyChange e))
              | (t, None) \<Rightarrow> (invalidateForInfo (fc_file c) (s\<lparr>tree := t\<rparr>), None))
          in (case fc_type c of
             CHANGE_TYPE_CREATE \<Rightarrow> insert_new
           | CHANGE_TYPE_MODIFY \<Rightarrow> insert_new
           | CHANGE_TYPE_DELETE \<Rightarrow>
               (let target = fi_path (get_info (fc_file c));
                    oldInfo = fstree_Lookup (tree s) target
                in (invalidatePath target (isDirectory oldInfo) (s\<lparr>tree := fstree_Delete (tree s) target\<rparr>), None))
           | CHANGE_TYPE_RENAME \<Rightarrow>
               (let oldPath = fc_old_path c;
                    oldInfo = fstree_Lookup (tree s) oldPath
                in case fstree_Insert (fstree_Delete (tree s) oldPath) (fc_file c) of
                     (t, Some e) \<Rightarrow> (s\<lparr>tree := t\<rparr>, Some (ErrApplyChange e))
                   | (t, None) \<Rightarrow>
                       (invalidateForInfo (fc_file c)
                          (invalidatePath oldPath (isDirectory oldInfo) (s\<lparr>tree := t\<rparr>)), None))
           | _ \<Rightarrow> (s, Some (ErrApplyChange ErrUnknownChangeType))))"

subsection \<open>Channels\<close>

text \<open>\<open>close(ch)\<close> and the sending \<open>ch <- resp\<close>; the send of capacity one is modelled where it cannot block
  (the buffer is empty), a full buffer is the outcome \<open>None\<close> too.\<close>

definition chan_make :: "session \<Rightarrow> session \<times> nat" where
  "chan_make s =
     (s\<lparr>chans := (chans s)(next_chan s \<mapsto> \<lparr>ch_buf = None, ch_closed = False\<rparr>), next_chan := Suc (next_chan s)\<rparr>,
      next_chan s)"

definition chan_close :: "nat \<Rightarrow> session \<Rightarrow> session option" where
  "chan_close ch s =
     (case chans s ch of
        Some c \<Rightarrow> if ch_closed c then None else Some (s\<lparr>chans := (chans s)(ch \<mapsto> c\<lparr>ch_closed := True\<rparr>)\<rparr>)
      | None \<Rightarrow> None)"

definition chan_send :: "nat \<Rightarrow> file_response \<Rightarrow> session \<Rightarrow> session option" where
  "chan_send ch resp s =
     (case chans s ch of
        Some c \<Rightarrow> if ch_closed c \<or> ch_buf c \<noteq> None then None
                  else Some (s\<lparr>chans := (chans s)(ch \<mapsto> c\<lparr>ch_buf := Some resp\<rparr>)\<rparr>)
      | None \<Rightarrow> None)"

subsection \<open>Requests in flight\<close>

definition closeErrValue :: "session \<Rightarrow> sess_error" where
  "closeErrValue s = (case closeErr s of None \<Rightarrow> ErrSessionClosed | Some e \<Rightarrow> e)"

definition nextRequestID :: "session \<Rightarrow> session \<times> string" where
  "nextRequestID s =
     (let seq = reqSeq s + 1 in (s\<lparr>reqSeq := seq\<rparr>, userID s @ ''-'' @ decimal (unat seq)))"

definition prepareRequest :: "file_request option \<Rightarrow> session \<Rightarrow> session \<times> (sess_error + file_request)" where
  "prepareRequest req s =
     (case req of
        None \<Rightarrow> (s, Inl ErrNilRequest)
      | Some r \<Rightarrow>
          (let (s1, rid) = (if rq_id r = [] then nextRequestID s else (s, rq_id r))
           in (s1, Inr \<lparr>rq_id = rid, rq_op = rq_op r\<rparr>)))"

text \<open>\<open>registerPending\<close> first looks at \<open>closed\<close> (without the lock), then takes the lock.\<close>

definition registerLocked :: "string \<Rightarrow> session \<Rightarrow> session \<times> (sess_error + nat)" where
  "registerLocked rid s =
     (if map_of (pending s) rid \<noteq> None then (s, Inl ErrDuplicateRequestID)
      else (let (s1, ch) = chan_make s in (s1\<lparr>pending := AList.update rid ch (pending s1)\<rparr>, Inr ch)))"

definition registerPending :: "string \<Rightarrow> session \<Rightarrow> session \<times> (sess_error + nat)" where
  "registerPending rid s = (if closed s then (s, Inl (closeErrValue s)) else registerLocked rid s)"

text \<open>The block under the lock that \<open>dropPending\<close> and \<open>resolvePending\<close> share.\<close>

definition takePending :: "string \<Rightarrow> session \<Rightarrow> session \<times> nat option" where
  "takePending rid s =
     (case map_of (pending s) rid of
        None \<Rightarrow> (s, None)
      | Some ch \<Rightarrow> (s\<lparr>pending := AList.delete rid (pending s)\<rparr>, Some ch))"

definition dropPending :: "string \<Rightarrow> session \<Rightarrow> session option" where
  "dropPending rid s =
     (case takePending rid s of (s1, None) \<Rightarrow> Some s1 | (s1, Some ch) \<Rightarrow> chan_close ch s1)"

definition resolvePending :: "file_response option \<Rightarrow> session \<Rightarrow> session option" where
  "resolvePending resp s =
     (case resp of
        None \<Rightarrow> Some s
      | Some r \<Rightarrow>
          (case takePending (rp_id r) s of
             (s1, None) \<Rightarrow> Some s1
           | (s1, Some ch) \<Rightarrow> (case chan_send ch r s1 of None \<Rightarrow> None | Some s2 \<Rightarrow> chan_close ch s2)))"

definition handleDaemonMessage :: "int \<Rightarrow> daemon_msg option \<Rightarrow> session \<Rightarrow> (session \<times> sess_error option) option" where
  "handleDaemonMessage clock msg s =
     (case msg of
        None \<Rightarrow> Some (s, Some ErrNilDaemonMessage)
      | Some m \<Rightarrow>
          (let s1 = touchHeartbeat clock s in
           case m of
             MsgFileTree ft \<Rightarrow> Some (replaceTree ft s1)
           | MsgChange c \<Rightarrow> Some (applyChange c s1)
           | MsgResponse r \<Rightarrow> (case resolvePending r s1 of None \<Rightarrow> None | Some s2 \<Rightarrow> Some (s2, None))
           | MsgHeartbeat \<Rightarrow> Some (s1, None)
           | MsgNone \<Rightarrow> Some (s1, None)))"

text \<open>The branches of the two \<open>select\<close> statements of a request, each with the condition under which the
  runtime may choose it.\<close>

datatype sel = SelCtx | SelClosed | SelComm

definition enqueueRequest :: "sel \<Rightarrow> bool \<Rightarrow> file_request \<Rightarrow> session \<Rightarrow> (session \<times> sess_error option) option" where
  "enqueueRequest choice ctxDone req s =
     (case choice of
        SelCtx \<Rightarrow> if ctxDone then Some (s, Some ErrContext) else None
      | SelClosed \<Rightarrow> if closed s then Some (s, Some (closeErrValue s)) else None
      | SelComm \<Rightarrow> if length (sendCh s) < sessionSendBufferSize
                   then Some (s\<lparr>sendCh := sendCh s @ [SrvRequest req]\<rparr>, None) else None)"

definition awaitResponse :: "sel \<Rightarrow> bool \<Rightarrow> nat \<Rightarrow> session \<Rightarrow> (session \<times> (sess_error + file_response)) option" where
  "awaitResponse choice ctxDone ch s =
     (case choice of
        SelCtx \<Rightarrow> if ctxDone then Some (s, Inl ErrContext) else None
      | SelClosed \<Rightarrow> if closed s then Some (s, Inl (closeErrValue s)) else None
      | SelComm \<Rightarrow>
          (case chans s ch of
             None \<Rightarrow> None
           | Some c \<Rightarrow>
               (case ch_buf c of
                  Some r \<Rightarrow> Some (s\<lparr>chans := (chans s)(ch \<mapsto> c\<lparr>ch_buf := None\<rparr>)\<rparr>, Inr r)
                | None \<Rightarrow> if ch_closed c then Some (s, Inl (closeErrValue s)) else None)))"

subsection \<open>Life cycle\<close>

definition RetainOffline :: "int option \<Rightarrow> session \<Rightarrow> session \<times> bool" where
  "RetainOffline until s =
     (case until of
        None \<Rightarrow> (s, False)
      | Some u \<Rightarrow>
          if closeErr s = Some ErrSessionReplaced then (s, False)
          else (s\<lparr>offlineUntil := Some u, closeErr := Some ErrSessionOffline\<rparr>, True))"

definition or_clock :: "int \<Rightarrow> int option \<Rightarrow> int" where
  "or_clock clock now = (case now of None \<Rightarrow> clock | Some n \<Rightarrow> n)"

definition IsOfflineReadonly :: "int \<Rightarrow> int option \<Rightarrow> session \<Rightarrow> bool" where
  "IsOfflineReadonly clock now s =
     (case offlineUntil s of None \<Rightarrow> False | Some u \<Rightarrow> or_clock clock now < u)"

definition IsExpired :: "int \<Rightarrow> int option \<Rightarrow> session \<Rightarrow> bool" where
  "IsExpired clock now s =
     (case offlineUntil s of None \<Rightarrow> False | Some u \<Rightarrow> \<not> or_clock clock now < u)"

text \<open>\<open>closeWithError\<close>: the block under \<open>stateMu\<close>, the block under \<open>pendingMu\<close>, and the loop that closes
  the taken channels.\<close>

definition closeState :: "sess_error option \<Rightarrow> session \<Rightarrow> session \<times> bool" where
  "closeState err s =
     (if closed s then (s, False)
      else (s\<lparr>closeErr := Some (case err of None \<Rightarrow> ErrSessionClosed | Some e \<Rightarrow> e), closed := True\<rparr>, True))"

definition takeAllPending :: "session \<Rightarrow> session \<times> nat list" where
  "takeAllPending s = (s\<lparr>pending := []\<rparr>, map snd (pending s))"

definition closeWithError :: "sess_error option \<Rightarrow> session \<Rightarrow> session option" where
  "closeWithError err s =
     (case closeState err s of
        (s1, False) \<Rightarrow> Some s1
      | (s1, True) \<Rightarrow> (let (s2, chs) = takeAllPending s1 in fold_opt chan_close chs s2))"

definition firstNonNil :: "sess_error option list \<Rightarrow> sess_error option" where
  "firstNonNil errs = (case List.find (\<lambda>e. e \<noteq> None) errs of None \<Rightarrow> None | Some e \<Rightarrow> e)"

datatype stream_error = StreamCanceled | StreamEOF | StreamOther

definition nilOrWrapped :: "stream_error option \<Rightarrow> sess_error option" where
  "nilOrWrapped err =
     (case err of
        None \<Rightarrow> None | Some StreamCanceled \<Rightarrow> None | Some StreamEOF \<Rightarrow> None | Some StreamOther \<Rightarrow> Some ErrStreamRecv)"

text \<open>The receive loop over what the stream delivers: messages, then an error; the outcome \<open>None\<close> is a
  panic. An exhausted list is a loop that still waits.\<close>

datatype recv_event = RecvMsg "daemon_msg option" | RecvErr bool stream_error

datatype loop_end = Waiting | Returned "sess_error option"

fun runRecvLoop :: "int \<Rightarrow> recv_event list \<Rightarrow> session \<Rightarrow> (session \<times> loop_end) option" where
  "runRecvLoop clock [] s = Some (s, Waiting)"
| "runRecvLoop clock (RecvErr ctxDone e # evs) s =
     Some (s, Returned (if ctxDone then None else nilOrWrapped (Some e)))"
| "runRecvLoop clock (RecvMsg m # evs) s =
     (case handleDaemonMessage clock m s of
        None \<Rightarrow> None
      | Some (s1, Some e) \<Rightarrow> Some (s1, Returned (Some e))
      | Some (s1, None) \<Rightarrow> runRecvLoop clock evs s1)"

text \<open>The send loop: each round either sees the context done or takes the front message and sends it.\<close>

datatype send_event = SendCtxDone | SendOk | SendFail bool

fun runSendLoop :: "send_event list \<Rightarrow> session \<Rightarrow> session \<times> server_msg list \<times> loop_end" where
  "runSendLoop [] s = (s, [], Waiting)"
| "runSendLoop (ev # evs) s =
     (case ev of
        SendCtxDone \<Rightarrow> (s, [], Returned None)
      | SendOk \<Rightarrow>
          (case sendCh s of
             [] \<Rightarrow> (s, [], Waiting)
           | m # ms \<Rightarrow> (let (s1, out, r) = runSendLoop evs (s\<lparr>sendCh := ms\<rparr>) in (s1, m # out, r)))
      | SendFail ctxDone \<Rightarrow>
          (case sendCh s of
             [] \<Rightarrow> (s, [], Waiting)
           | m # ms \<Rightarrow> (s\<lparr>sendCh := ms\<rparr>, [], Returned (if ctxDone then None else Some ErrStreamSend))))"

text \<open>\<open>Serve\<close> joins both loops, keeps the first error and closes the session with it.\<close>

definition Serve_finish :: "sess_error option \<Rightarrow> sess_error option \<Rightarrow> session \<Rightarrow> session option \<times> sess_error option" where
  "Serve_finish recvErr sendErr s =
     (let finalErr = firstNonNil [recvErr, sendErr] in (closeWithError finalErr s, finalErr))"

section \<open>Field access\<close>

lemma session_fields [simp, sess_simps]:
  "tree (invalidatePath p r s) = tree s" "tree (invalidateForInfo i s) = tree s"
  "scache (invalidatePath p r s) = (if r then cache_InvalidatePrefix (scache s) p else cache_Invalidate (scache s) p)"
  "scache (invalidateForInfo i s) = (case i of None \<Rightarrow> scache s | Some i \<Rightarrow>
      if fi_is_dir i then cache_InvalidatePrefix (scache s) (fi_path i) else cache_Invalidate (scache s) (fi_path i))"
  by (simp_all add: invalidatePath_def invalidateForInfo_def InvalidateContent_def InvalidateContentPrefix_def
      split: option.split)

lemma applyChange_unfold:
  "applyChange (Some c) s =
     (case fc_type c of
        CHANGE_TYPE_DELETE \<Rightarrow> (ApplyDelete (fi_path (get_info (fc_file c))) s, None)
      | CHANGE_TYPE_RENAME \<Rightarrow>
          (case fc_file c of
             None \<Rightarrow> (s\<lparr>tree := fstree_Delete (tree s) (fc_old_path c)\<rparr>, Some (ErrApplyChange ErrNilInfo))
           | Some i \<Rightarrow> (ApplyRename (fc_old_path c) (Some i) s, None))
      | CHANGE_TYPE_UNSPECIFIED \<Rightarrow> (s, Some (ErrApplyChange ErrUnknownChangeType))
      | CHANGE_TYPE_OTHER n \<Rightarrow> (s, Some (ErrApplyChange ErrUnknownChangeType))
      | _ \<Rightarrow> (case fc_file c of
               None \<Rightarrow> (s, Some (ErrApplyChange ErrNilInfo))
             | Some i \<Rightarrow> (ApplyWriteResult (Some i) s, None)))"
  by (cases "fc_type c"; cases "fc_file c")
    (simp_all add: applyChange_def ApplyDelete_def ApplyRename_def ApplyWriteResult_def Let_def
      Insert_nil fstree_Insert_def)

section \<open>The invariant of the data\<close>

definition session_ok :: "session \<Rightarrow> bool" where
  "session_ok s = (tree_ok (tree s) \<and> cache_inv (scache s))"

lemma session_okD:
  "session_ok s \<Longrightarrow> wf_tree (tree s)" "session_ok s \<Longrightarrow> cache_inv (scache s)" "session_ok s \<Longrightarrow> tree_ok (tree s)"
  by (simp_all add: session_ok_def tree_okD)

lemma ok_invalidate:
  "session_ok s \<Longrightarrow> session_ok (invalidatePath p r s)" "session_ok s \<Longrightarrow> session_ok (invalidateForInfo i s)"
  by (simp_all add: session_ok_def cc.ok_inv cc.ok_inv_prefix split: option.split)

lemma ApplyWriteResult_Some:
  "ApplyWriteResult (Some i) s = invalidateForInfo (Some i) (s\<lparr>tree := tree_insert (tree s) i\<rparr>)"
  by (simp add: ApplyWriteResult_def fstree_Insert_def Let_def)

lemma ApplyRename_Some:
  "ApplyRename p (Some i) s =
     invalidateForInfo (Some i) (invalidatePath p (isDirectory (fstree_Lookup (tree s) p))
       (s\<lparr>tree := tree_insert (fstree_Delete (tree s) p) i\<rparr>))"
  by (simp add: ApplyRename_def fstree_Insert_def Let_def)

lemma ok_apply:
  assumes "session_ok s"
  shows "session_ok (ApplyWriteResult i s)" "session_ok (ApplyDelete p s)" "session_ok (ApplyRename p i s)"
proof -
  note t = session_okD(3) [OF assms] and c = session_okD(2) [OF assms]
  have u: "session_ok (s\<lparr>tree := t'\<rparr>)" if "tree_ok t'" for t' using that c by (simp add: session_ok_def)
  show "session_ok (ApplyWriteResult i s)"
    using assms u [OF tree_ok_insert [OF t]]
    by (cases i) (simp_all add: ApplyWriteResult_Some ok_invalidate, simp add: ApplyWriteResult_def)
  show "session_ok (ApplyDelete p s)"
    using u [OF tree_ok_Delete [OF t]] by (simp add: ApplyDelete_def ok_invalidate)
  show "session_ok (ApplyRename p i s)"
    using u [OF tree_ok_Delete [OF t]] u [OF tree_ok_insert [OF tree_ok_Delete [OF t]]]
    by (cases i) (simp_all add: ApplyRename_Some ok_invalidate, simp add: ApplyRename_def ok_invalidate)
qed

lemma ok_tree: "session_ok s \<Longrightarrow> tree_ok t \<Longrightarrow> session_ok (s\<lparr>tree := t\<rparr>)"
  by (simp add: session_ok_def)

lemma ok_applyChange: "session_ok s \<Longrightarrow> session_ok (fst (applyChange c s))"
proof (cases c)
  case (Some c')
  assume ok: "session_ok s"
  then show ?thesis
    using ok_tree [OF ok tree_ok_Delete [OF session_okD(3) [OF ok]]] unfolding Some applyChange_unfold
    by (cases "fc_type c'"; cases "fc_file c'") (simp_all add: ok_apply)
qed (simp add: applyChange_def)

lemma load_files_eq:
  "load_files (map Some is) t = Inr (foldl tree_insert t is)"
  by (induction "is" arbitrary: t) (simp_all add: fstree_Insert_def Let_def)

lemma load_files_wf: "tree_ok t \<Longrightarrow> load_files fs t = Inr t' \<Longrightarrow> tree_ok t'"
proof (induction fs arbitrary: t)
  case (Cons f fs)
  then show ?case using tree_ok_Insert [OF Cons.prems(1), of f] by (auto split: prod.splits option.splits)
qed simp

lemma ok_replaceTree: "session_ok s \<Longrightarrow> session_ok (fst (replaceTree ft s))"
  using load_files_wf [OF tree_ok_New] by (auto simp: replaceTree_def session_ok_def split: sum.split)

lemma ok_results:
  "replaceTree ft s = (s', e) \<Longrightarrow> session_ok s \<Longrightarrow> session_ok s'"
  "applyChange c s = (s', e) \<Longrightarrow> session_ok s \<Longrightarrow> session_ok s'"
  using ok_replaceTree [of s ft] ok_applyChange [of s c] by auto

lemma ok_chan:
  "chan_close ch s = Some s' \<Longrightarrow> tree s' = tree s \<and> scache s' = scache s"
  "chan_send ch r s = Some s' \<Longrightarrow> tree s' = tree s \<and> scache s' = scache s"
  "takePending rid s = (s', x) \<Longrightarrow> tree s' = tree s \<and> scache s' = scache s"
  by (auto simp: chan_close_def chan_send_def takePending_def split: option.splits if_splits)

lemma ok_resolvePending: "session_ok s \<Longrightarrow> resolvePending r s = Some s' \<Longrightarrow> session_ok s'"
  by (auto simp: resolvePending_def session_ok_def dest!: ok_chan split: option.splits prod.splits)

section \<open>Properties\<close>


lemma ok_NewSession: "n < 2 ^ 62 \<Longrightarrow> session_ok (NewSession u n)"
  by (simp add: session_ok_def NewSession_def cache_New_inv tree_ok_New)


text \<open>Bootstrapping from a list of entries as a scan produces them makes every entry readable with
  exactly its metadata, shows nothing else but the directories above them, empties the content cache and
  fixes a workspace name that is a single safe path element.\<close>

theorem Bootstrap_loads:
  assumes "Bootstrap clock (Some (MsgFileTree (Some ft))) s = (s', None)" "cache_inv (scache s)"
    and "ft_files ft = map Some is" "coherent fstree_normalize is"
  shows "(\<forall>i \<in> set is. session_Lookup s' (fi_path i) = Some (i\<lparr>fi_path := fstree_normalize (fi_path i)\<rparr>))
    \<and> (\<forall>q. session_Lookup s' q \<noteq> None \<longrightarrow> fstree_normalize q = [] \<or>
         (\<exists>i \<in> set is. fstree_normalize q = fstree_normalize (fi_path i)
            \<or> proper_anc (fstree_normalize q) (fstree_normalize (fi_path i))))
    \<and> (\<forall>q i. snd (GetCachedContent q i s') = None) \<and> is_name (workspaceName s') \<and> session_ok s'"
proof -
  let ?t = "foldl tree_insert fstree_New is"
  obtain name where name: "CleanSegment (ft_workspace_name ft) = Inr name"
    and s': "s' = touchHeartbeat clock (clearContentCache (s\<lparr>tree := ?t, workspaceName := name\<rparr>))"
    using assms(1,3) by (auto simp: Bootstrap_def replaceTree_def load_files_eq split: sum.splits)
  have t: "tree s' = ?t" "workspaceName s' = name" "scache s' = cache_Clear (scache s)"
    by (simp_all add: s' touchHeartbeat_def clearContentCache_def)
  have c: "cache_inv (scache s')" using assms(2) by (simp add: t cc.ok_clear)
  have nm: "is_name name" using CleanSegment_InrD(1) [OF name] .
  have "\<forall>q i. snd (GetCachedContent q i s') = None"
    using cc.get_result [OF c] cc.view_clear
    by (auto simp: GetCachedContent_def t Let_def split: option.split prod.split) (metis option.distinct(1) option.simps(4) snd_conv)
  moreover have "\<forall>i \<in> set is. session_Lookup s' (fi_path i) = Some (i\<lparr>fi_path := fstree_normalize (fi_path i)\<rparr>)"
    using ft.load_complete [OF wf_New assms(4)] by (simp add: session_Lookup_def t)
  moreover have "\<forall>q. session_Lookup s' q \<noteq> None \<longrightarrow> fstree_normalize q = [] \<or>
         (\<exists>i \<in> set is. fstree_normalize q = fstree_normalize (fi_path i)
            \<or> proper_anc (fstree_normalize q) (fstree_normalize (fi_path i)))"
    using ft.load_sound [OF wf_New, of "is"] ft.look_new by (metis session_Lookup_def t(1))
  ultimately show ?thesis
    using nm c load_files_wf [OF tree_ok_New load_files_eq, of "is"] by (simp add: t session_ok_def)
qed

definition demo_boot :: file_tree where
  "demo_boot = \<lparr>ft_files = [Some (demo_file ''a/b'' 1), Some (demo_file ''c'' 2)], ft_workspace_name = ''w''\<rparr>"

theorem Bootstrap_loads_witness:
  "session_Lookup (fst (Bootstrap 1 (Some (MsgFileTree (Some demo_boot))) (NewSession ''u'' 100))) ''a/b'' = Some (demo_file ''a/b'' 1)"
proof -
  let ?s = "NewSession ''u'' 100" and ?is = "[demo_file ''a/b'' 1, demo_file ''c'' 2]"
  have "snd (Bootstrap 1 (Some (MsgFileTree (Some demo_boot))) ?s) = None" by code_simp
  then have b: "Bootstrap 1 (Some (MsgFileTree (Some demo_boot))) ?s = (fst (Bootstrap 1 (Some (MsgFileTree (Some demo_boot))) ?s), None)"
    by (metis prod.collapse)
  have c: "cache_inv (scache ?s)" by (simp add: NewSession_def cache_New_inv)
  have "coherent fstree_normalize ?is" "fstree_normalize ''a/b'' = ''a/b''" by code_simp+
  then show ?thesis
    using Bootstrap_loads [OF b c, of ?is] by (simp add: demo_boot_def demo_file_def)
qed

text \<open>A session applies a change event to its tree exactly as the tree's own \<open>Apply\<close> does, with the
  same errors.\<close>

theorem applyChange_tree_Apply:
  "tree (fst (applyChange change s)) = fst (fstree_Apply (tree s) change)
   \<and> snd (applyChange change s) = map_option ErrApplyChange (snd (fstree_Apply (tree s) change))"
proof (cases change)
  case None
  then show ?thesis by (simp add: applyChange_def fstree_Apply_def)
next
  case (Some c)
  have root: "fstree_normalize [] = []" by (simp add: fstree_normalize_def)
  show ?thesis
    unfolding Some applyChange_unfold
    by (cases "fc_type c"; cases "fc_file c")
      (simp_all add: fstree_Apply_def ApplyWriteResult_Some ApplyRename_Some ApplyDelete_def Insert_nil
        fstree_Insert_ok get_info_def zero_info_def fstree_Delete_def root)
qed

lemma GetCached_miss:
  "(\<And>sg. snd (cache_Get (scache x) q sg) = None) \<Longrightarrow> snd (GetCachedContent q j x) = None"
  by (cases j) (simp_all add: GetCachedContent_def case_prod_unfold)

lemma keys_agree: "cache_normalize r = fstree_normalize r"
  by (simp add: cache_normalize_eq fstree_normalize_alt)

lemma subpath_matches: "subpath p k \<Longrightarrow> matchesPrefix k p" "matchesPrefix k k"
  by (auto simp: matchesPrefix_def subpath_def)

lemma write_fresh:
  assumes "session_ok s"
  shows "fstree_normalize (fi_path i) \<noteq> [] \<Longrightarrow>
      session_Lookup (ApplyWriteResult (Some i) s) (fi_path i) = Some (i\<lparr>fi_path := fstree_normalize (fi_path i)\<rparr>)"
    "snd (GetCachedContent (fi_path i) j (ApplyWriteResult (Some i) s)) = None"
proof -
  note t = session_okD(1) [OF assms] and c = session_okD(2) [OF assms]
  show "fstree_normalize (fi_path i) \<noteq> [] \<Longrightarrow>
      session_Lookup (ApplyWriteResult (Some i) s) (fi_path i) = Some (i\<lparr>fi_path := fstree_normalize (fi_path i)\<rparr>)"
    using ft.look_ins_same [OF t] by (simp add: session_Lookup_def ApplyWriteResult_Some)
  show "snd (GetCachedContent (fi_path i) j (ApplyWriteResult (Some i) s)) = None"
    by (rule GetCached_miss)
      (simp add: ApplyWriteResult_Some cc.get_after_inv [OF c] cc.get_after_inv_prefix [OF c] subpath_matches)
qed

lemma delete_fresh:
  assumes "session_ok s"
  shows "fstree_normalize p \<noteq> [] \<Longrightarrow> subpath (fstree_normalize p) (fstree_normalize q) \<Longrightarrow>
      session_Lookup (ApplyDelete p s) q = None"
    "snd (GetCachedContent p j (ApplyDelete p s)) = None"
    "isDirectory (session_Lookup s p) \<Longrightarrow> subpath (fstree_normalize p) (fstree_normalize q) \<Longrightarrow>
      snd (GetCachedContent q j (ApplyDelete p s)) = None"
proof -
  note t = session_okD(1) [OF assms] and c = session_okD(2) [OF assms]
  show "fstree_normalize p \<noteq> [] \<Longrightarrow> subpath (fstree_normalize p) (fstree_normalize q) \<Longrightarrow>
      session_Lookup (ApplyDelete p s) q = None"
    using ft.look_del_below [OF t] by (simp add: session_Lookup_def ApplyDelete_def)
  show "snd (GetCachedContent p j (ApplyDelete p s)) = None"
    by (rule GetCached_miss)
      (simp add: ApplyDelete_def cc.get_after_inv [OF c] cc.get_after_inv_prefix [OF c] subpath_matches)
  show "isDirectory (session_Lookup s p) \<Longrightarrow> subpath (fstree_normalize p) (fstree_normalize q) \<Longrightarrow>
      snd (GetCachedContent q j (ApplyDelete p s)) = None"
    by (rule GetCached_miss)
      (simp add: ApplyDelete_def session_Lookup_def cc.get_after_inv_prefix [OF c] keys_agree subpath_matches)
qed

text \<open>Once the result of a write is applied, the file's metadata is the one the daemon reported and no
  content cached before is served for it; once a deletion is applied, nothing at or below the path is
  visible, and its cached content is gone, with everything below if it was a directory.\<close>

theorem apply_results_fresh:
  assumes "session_ok s" "fstree_normalize (fi_path i) \<noteq> []" "fstree_normalize p \<noteq> []"
  shows "session_Lookup (ApplyWriteResult (Some i) s) (fi_path i) = Some (i\<lparr>fi_path := fstree_normalize (fi_path i)\<rparr>)
    \<and> snd (GetCachedContent (fi_path i) j (ApplyWriteResult (Some i) s)) = None
    \<and> (subpath (fstree_normalize p) (fstree_normalize q) \<longrightarrow> session_Lookup (ApplyDelete p s) q = None)
    \<and> snd (GetCachedContent p j (ApplyDelete p s)) = None
    \<and> (isDirectory (session_Lookup s p) \<and> subpath (fstree_normalize p) (fstree_normalize q) \<longrightarrow>
         snd (GetCachedContent q j (ApplyDelete p s)) = None)"
  using write_fresh [OF assms(1)] delete_fresh [OF assms(1)] assms(2,3) by blast

theorem apply_results_fresh_witness:
  "session_Lookup (ApplyWriteResult (Some (demo_file ''a/b'' 9)) (NewSession ''u'' 100)) ''a/b'' = Some (demo_file ''a/b'' 9)"
proof -
  have k: "fstree_normalize ''a/b'' = ''a/b''" by code_simp
  show ?thesis
    using apply_results_fresh [OF ok_NewSession [of 100 "''u''"], of "demo_file ''a/b'' 9" "''a/b''"] k
    by (simp add: demo_file_def)
qed

fun iterate_ids :: "nat \<Rightarrow> session \<Rightarrow> session" where
  "iterate_ids 0 s = s"
| "iterate_ids (Suc n) s = iterate_ids n (fst (nextRequestID s))"

lemma iterate_ids_seq: "reqSeq (iterate_ids n s) = reqSeq s + of_nat n \<and> userID (iterate_ids n s) = userID s"
  by (induction n arbitrary: s) (simp_all add: nextRequestID_def Let_def)

text \<open>The identifiers a session makes up are different for any two of fewer than \<open>2 ^ 64\<close> requests,
  across the wrap-around of the counter.\<close>

theorem nextRequestID_distinct:
  assumes "m < n" "n < m + 2 ^ 64"
  shows "snd (nextRequestID (iterate_ids m s)) \<noteq> snd (nextRequestID (iterate_ids n s))"
proof
  assume "snd (nextRequestID (iterate_ids m s)) = snd (nextRequestID (iterate_ids n s))"
  then have "decimal (unat (reqSeq s + of_nat m + 1)) = decimal (unat (reqSeq s + of_nat n + 1))"
    by (simp add: nextRequestID_def Let_def iterate_ids_seq)
  then have "reqSeq s + of_nat m + 1 = reqSeq s + of_nat n + 1" by (simp only: decimal_inject unsigned_word_eqI)
  then have "(of_nat m :: 64 word) = of_nat n" by simp
  then have "n mod 2 ^ 64 = m mod 2 ^ 64" by (simp add: word_of_nat_eq_iff take_bit_eq_mod)
  then have "2 ^ 64 dvd n - m" using assms(1) by (simp add: mod_eq_dvd_iff_nat)
  then show False using assms by (auto dest: dvd_imp_le)
qed


theorem nextRequestID_distinct_witness:
  "snd (nextRequestID (iterate_ids 2 (NewSession ''u'' 0))) \<noteq> snd (nextRequestID (iterate_ids 5 (NewSession ''u'' 0)))"
  using nextRequestID_distinct [of 2 5 "NewSession ''u'' 0"] by simp

end
