(* ===== verification/Session_Conc.thy ===== *)
theory Session_Conc
  imports Session
begin

text \<open>
  The request protocol of a session under concurrency. Any number of goroutines call \<open>Request\<close>, one runs
  the receive loop, any number call \<open>closeWithError\<close>; each atomic block of \<open>src/pkg/session/session.go\<close>
  (a critical section, a channel operation, a \<open>select\<close>) is one step, and the steps interleave freely.
  The invariant gives every open response channel one owner: the pending table, or the one goroutine that
  took it out and will close it. So no channel is closed twice or sent on after closing, no send blocks,
  and a request only ever receives the response with its own identifier.
\<close>

section \<open>Definitions\<close>

text \<open>Where a goroutine in \<open>Request\<close> stands: before the look at \<open>closed\<close>, before taking the lock, before
  the two \<open>select\<close>s, in the deferred \<open>dropPending\<close> before and after its critical section, done.\<close>

datatype rpc =
  RCheck file_request
| RLock file_request
| REnq file_request nat
| RWait string nat
| RDrop string "sess_error + file_response"
| RClose nat string "sess_error + file_response"
| RDone string "sess_error + file_response"

text \<open>The receive loop inside \<open>resolvePending\<close>, and a goroutine in \<open>closeWithError\<close>.\<close>

datatype vpc = VIdle | VSend nat file_response | VClose nat

datatype cpc = CIdle "sess_error option" | CTake | CClose "nat list" | CDone

record sys =
  ses :: session
  reqs :: "nat \<Rightarrow> rpc option"
  rcv :: vpc
  cls :: "nat \<Rightarrow> cpc"
  panicked :: bool

definition set_req :: "nat \<Rightarrow> rpc \<Rightarrow> session \<Rightarrow> sys \<Rightarrow> sys" where
  "set_req t pc s g = g\<lparr>ses := s, reqs := (reqs g)(t \<mapsto> pc)\<rparr>"

definition set_rcv :: "vpc \<Rightarrow> session \<Rightarrow> sys \<Rightarrow> sys" where
  "set_rcv pc s g = g\<lparr>ses := s, rcv := pc\<rparr>"

definition set_cls :: "nat \<Rightarrow> cpc \<Rightarrow> session \<Rightarrow> sys \<Rightarrow> sys" where
  "set_cls t pc s g = g\<lparr>ses := s, cls := (cls g)(t := pc)\<rparr>"

inductive sstep :: "sys \<Rightarrow> sys \<Rightarrow> bool" where
  start_offline: "reqs g t = None \<Longrightarrow> IsOfflineReadonly clock None (ses g) \<Longrightarrow>
     sstep g (set_req t (RDone [] (Inl ErrSessionOffline)) (ses g) g)"
| start_nil: "reqs g t = None \<Longrightarrow> \<not> IsOfflineReadonly clock None (ses g) \<Longrightarrow>
     prepareRequest r (ses g) = (s', Inl e) \<Longrightarrow> sstep g (set_req t (RDone [] (Inl e)) s' g)"
| start: "reqs g t = None \<Longrightarrow> \<not> IsOfflineReadonly clock None (ses g) \<Longrightarrow>
     prepareRequest r (ses g) = (s', Inr r') \<Longrightarrow> sstep g (set_req t (RCheck r') s' g)"
| check_closed: "reqs g t = Some (RCheck r) \<Longrightarrow> closed (ses g) \<Longrightarrow>
     sstep g (set_req t (RDone (rq_id r) (Inl (closeErrValue (ses g)))) (ses g) g)"
| check_open: "reqs g t = Some (RCheck r) \<Longrightarrow> \<not> closed (ses g) \<Longrightarrow> sstep g (set_req t (RLock r) (ses g) g)"
| lock_dup: "reqs g t = Some (RLock r) \<Longrightarrow> registerLocked (rq_id r) (ses g) = (s', Inl e) \<Longrightarrow>
     sstep g (set_req t (RDone (rq_id r) (Inl e)) s' g)"
| lock: "reqs g t = Some (RLock r) \<Longrightarrow> registerLocked (rq_id r) (ses g) = (s', Inr ch) \<Longrightarrow>
     sstep g (set_req t (REnq r ch) s' g)"
| enq: "reqs g t = Some (REnq r ch) \<Longrightarrow> enqueueRequest choice ctxDone r (ses g) = Some (s', None) \<Longrightarrow>
     sstep g (set_req t (RWait (rq_id r) ch) s' g)"
| enq_fail: "reqs g t = Some (REnq r ch) \<Longrightarrow> enqueueRequest choice ctxDone r (ses g) = Some (s', Some e) \<Longrightarrow>
     sstep g (set_req t (RDrop (rq_id r) (Inl e)) s' g)"
| await: "reqs g t = Some (RWait rid ch) \<Longrightarrow> awaitResponse choice ctxDone ch (ses g) = Some (s', res) \<Longrightarrow>
     sstep g (set_req t (RDrop rid res) s' g)"
| drop_none: "reqs g t = Some (RDrop rid res) \<Longrightarrow> takePending rid (ses g) = (s', None) \<Longrightarrow>
     sstep g (set_req t (RDone rid res) s' g)"
| drop_take: "reqs g t = Some (RDrop rid res) \<Longrightarrow> takePending rid (ses g) = (s', Some ch) \<Longrightarrow>
     sstep g (set_req t (RClose ch rid res) s' g)"
| drop_close: "reqs g t = Some (RClose ch rid res) \<Longrightarrow> chan_close ch (ses g) = Some s' \<Longrightarrow>
     sstep g (set_req t (RDone rid res) s' g)"
| drop_panic: "reqs g t = Some (RClose ch rid res) \<Longrightarrow> chan_close ch (ses g) = None \<Longrightarrow>
     sstep g (g\<lparr>panicked := True\<rparr>)"
| recv_data: "rcv g = VIdle \<Longrightarrow> (\<forall>r. msg \<noteq> Some (MsgResponse (Some r))) \<Longrightarrow>
     handleDaemonMessage clock msg (ses g) = Some (s', e) \<Longrightarrow> sstep g (set_rcv VIdle s' g)"
| recv_unknown: "rcv g = VIdle \<Longrightarrow> takePending (rp_id (r :: file_response)) (touchHeartbeat clock (ses g)) = (s', None) \<Longrightarrow>
     sstep g (set_rcv VIdle s' g)"
| recv_take: "rcv g = VIdle \<Longrightarrow> takePending (rp_id r) (touchHeartbeat clock (ses g)) = (s', Some ch) \<Longrightarrow>
     sstep g (set_rcv (VSend ch r) s' g)"
| recv_send: "rcv g = VSend ch r \<Longrightarrow> chan_send ch r (ses g) = Some s' \<Longrightarrow> sstep g (set_rcv (VClose ch) s' g)"
| recv_send_panic: "rcv g = VSend ch r \<Longrightarrow> chan_send ch r (ses g) = None \<Longrightarrow> sstep g (g\<lparr>panicked := True\<rparr>)"
| recv_close: "rcv g = VClose ch \<Longrightarrow> chan_close ch (ses g) = Some s' \<Longrightarrow> sstep g (set_rcv VIdle s' g)"
| recv_close_panic: "rcv g = VClose ch \<Longrightarrow> chan_close ch (ses g) = None \<Longrightarrow> sstep g (g\<lparr>panicked := True\<rparr>)"
| close_late: "cls g t = CIdle err \<Longrightarrow> closeState err (ses g) = (s', False) \<Longrightarrow> sstep g (set_cls t CDone s' g)"
| close_first: "cls g t = CIdle err \<Longrightarrow> closeState err (ses g) = (s', True) \<Longrightarrow> sstep g (set_cls t CTake s' g)"
| close_take: "cls g t = CTake \<Longrightarrow> takeAllPending (ses g) = (s', chs) \<Longrightarrow> sstep g (set_cls t (CClose chs) s' g)"
| close_one: "cls g t = CClose (ch # chs) \<Longrightarrow> chan_close ch (ses g) = Some s' \<Longrightarrow>
     sstep g (set_cls t (CClose chs) s' g)"
| close_panic: "cls g t = CClose (ch # chs) \<Longrightarrow> chan_close ch (ses g) = None \<Longrightarrow> sstep g (g\<lparr>panicked := True\<rparr>)"
| close_end: "cls g t = CClose [] \<Longrightarrow> sstep g (set_cls t CDone (ses g) g)"
| send_loop: "sendCh (ses g) = m # ms \<Longrightarrow> sstep g (g\<lparr>ses := (ses g)\<lparr>sendCh := ms\<rparr>\<rparr>)"
| retain: "RetainOffline until (ses g) = (s', b) \<Longrightarrow> sstep g (g\<lparr>ses := s'\<rparr>)"

text \<open>A session that was just made, no request started, and each closer with some error to close with.\<close>

definition sys_init :: "session \<Rightarrow> (nat \<Rightarrow> sess_error option) \<Rightarrow> sys" where
  "sys_init s errs = \<lparr>ses = s, reqs = (\<lambda>_. None), rcv = VIdle, cls = (\<lambda>t. CIdle (errs t)), panicked = False\<rparr>"

inductive sreach :: "sys \<Rightarrow> bool" where
  init: "sreach (sys_init (NewSession u n) errs)"
| step: "sreach g \<Longrightarrow> sstep g g' \<Longrightarrow> sreach g'"

section \<open>Ownership of channels\<close>

datatype owner = OPend | ORecv | OReq nat | OCls nat

fun owns :: "sys \<Rightarrow> owner \<Rightarrow> nat list" where
  "owns g OPend = map snd (pending (ses g))"
| "owns g ORecv = (case rcv g of VIdle \<Rightarrow> [] | VSend ch r \<Rightarrow> [ch] | VClose ch \<Rightarrow> [ch])"
| "owns g (OReq t) = (case reqs g t of Some (RClose ch rid res) \<Rightarrow> [ch] | _ \<Rightarrow> [])"
| "owns g (OCls t) = (case cls g t of CClose chs \<Rightarrow> chs | _ \<Rightarrow> [])"

text \<open>Every owned channel is open, and has one owner.\<close>

definition owned_ok :: "(owner \<Rightarrow> nat list) \<Rightarrow> (nat \<Rightarrow> rchan option) \<Rightarrow> nat \<Rightarrow> bool" where
  "owned_ok own chs nx =
     ((\<forall>x. distinct (own x) \<and> (\<forall>ch \<in> set (own x). ch < nx \<and> (\<exists>c. chs ch = Some c \<and> \<not> ch_closed c)))
      \<and> (\<forall>x y. x \<noteq> y \<longrightarrow> set (own x) \<inter> set (own y) = {}))"

lemma owned_okD:
  assumes "owned_ok own chs nx"
  shows "distinct (own x)" "ch \<in> set (own x) \<Longrightarrow> ch < nx"
    "ch \<in> set (own x) \<Longrightarrow> \<exists>c. chs ch = Some c \<and> \<not> ch_closed c"
    "ch \<in> set (own x) \<Longrightarrow> ch \<in> set (own y) \<Longrightarrow> x = y"
  using assms unfolding owned_ok_def by (simp, simp, simp, blast)

lemma owned_okI:
  assumes "\<And>x. distinct (own x)" "\<And>x ch. ch \<in> set (own x) \<Longrightarrow> ch < nx"
    "\<And>x ch. ch \<in> set (own x) \<Longrightarrow> \<exists>c. chs ch = Some c \<and> \<not> ch_closed c"
    "\<And>x y ch. ch \<in> set (own x) \<Longrightarrow> ch \<in> set (own y) \<Longrightarrow> x = y"
  shows "owned_ok own chs nx"
  unfolding owned_ok_def using assms by (intro conjI allI ballI impI) (simp, simp, simp, blast)

text \<open>Passing on what one owner has, whole or in part, to an owner that had nothing.\<close>

lemma owned_ok_pass:
  assumes "owned_ok own chs nx" "a \<noteq> b" "own b = []"
    and "distinct as" "distinct bs" "set as \<union> set bs \<subseteq> set (own a)" "set as \<inter> set bs = {}"
  shows "owned_ok (own(a := as, b := bs)) chs nx"
proof (rule owned_okI)
  note D = owned_okD [OF assms(1)]
  show "distinct ((own(a := as, b := bs)) x)" for x using assms(4,5) D(1) by simp
  have sub: "ch \<in> set ((own(a := as, b := bs)) x) \<Longrightarrow> \<exists>y. ch \<in> set (own y) \<and> (x \<noteq> b \<longrightarrow> y = x) \<and> (x = b \<longrightarrow> y = a)" for x ch
    using assms(2,6) by (auto split: if_splits)
  show "ch < nx" "\<exists>c. chs ch = Some c \<and> \<not> ch_closed c" if "ch \<in> set ((own(a := as, b := bs)) x)" for x ch
    using sub [OF that] D(2,3) by blast+
  show "x = y" if "ch \<in> set ((own(a := as, b := bs)) x)" "ch \<in> set ((own(a := as, b := bs)) y)" for x y ch
    using that sub [OF that(1)] sub [OF that(2)] D(4) assms(2,7) by (auto split: if_splits)
qed

lemma owned_ok_fewer:
  assumes "owned_ok own chs nx" "distinct as" "set as \<subseteq> set (own a)"
  shows "owned_ok (own(a := as)) chs nx"
proof (rule owned_okI)
  note D = owned_okD [OF assms(1)]
  have sub: "ch \<in> set ((own(a := as)) x) \<Longrightarrow> ch \<in> set (own x)" for x ch
    using assms(3) by (auto split: if_splits)
  show "distinct ((own(a := as)) x)" for x using assms(2) D(1) by simp
  show "ch < nx" "\<exists>c. chs ch = Some c \<and> \<not> ch_closed c" if "ch \<in> set ((own(a := as)) x)" for x ch
    using sub [OF that] D(2,3) by blast+
  show "x = y" if "ch \<in> set ((own(a := as)) x)" "ch \<in> set ((own(a := as)) y)" for x y ch
    using sub [OF that(1)] sub [OF that(2)] D(4) by blast
qed

text \<open>A change of a channel that nobody owns, or that stays open.\<close>

lemma owned_ok_chan:
  assumes "owned_ok own chs nx" "\<And>x. ch \<in> set (own x) \<Longrightarrow> \<not> ch_closed c'"
  shows "owned_ok own (chs(ch \<mapsto> c')) nx"
proof (rule owned_okI)
  note D = owned_okD [OF assms(1)]
  show "\<exists>c. (chs(ch \<mapsto> c')) k = Some c \<and> \<not> ch_closed c" if "k \<in> set (own x)" for x k
    using D(3) [OF that] assms(2) [of x] that by auto
qed (use owned_okD [OF assms(1)] in blast)+

text \<open>The owner of a channel closes it and gives it up.\<close>

lemma owned_ok_close:
  assumes "owned_ok own chs nx" "own a = ch # rest"
  shows "owned_ok (own(a := rest)) (chs(ch \<mapsto> c')) nx"
proof (rule owned_ok_chan)
  show "owned_ok (own(a := rest)) chs nx"
    using owned_okD(1) [OF assms(1), of a] assms by (intro owned_ok_fewer) auto
  show "\<not> ch_closed c'" if "ch \<in> set ((own(a := rest)) x)" for x
    using that owned_okD(1) [OF assms(1), of a] owned_okD(4) [OF assms(1), of ch a x] assms(2)
    by (auto split: if_splits)
qed

lemma owned_ok_new:
  assumes "owned_ok own chs nx"
  shows "owned_ok (own(a := own a @ [nx])) (chs(nx \<mapsto> \<lparr>ch_buf = None, ch_closed = False\<rparr>)) (Suc nx)"
proof (rule owned_okI)
  note D = owned_okD [OF assms]
  have nx: "nx \<notin> set (own x)" for x using D(2) [of nx x] by blast
  show "distinct ((own(a := own a @ [nx])) x)" for x using D(1) nx by simp
  show "ch < Suc nx" if "ch \<in> set ((own(a := own a @ [nx])) x)" for x ch
    using that D(2) [of ch x] by (auto split: if_splits)
  show "\<exists>c. (chs(nx \<mapsto> \<lparr>ch_buf = None, ch_closed = False\<rparr>)) ch = Some c \<and> \<not> ch_closed c"
    if "ch \<in> set ((own(a := own a @ [nx])) x)" for x ch
    using that D(3) [of ch x] by (auto split: if_splits)
  show "x = y" if "ch \<in> set ((own(a := own a @ [nx])) x)" "ch \<in> set ((own(a := own a @ [nx])) y)" for x y ch
    using that D(4) [of ch x y] nx by (auto split: if_splits)
qed

section \<open>The invariant\<close>

definition req_owns :: "rpc option \<Rightarrow> nat list" where
  "req_owns pc = (case pc of Some (RClose ch rid res) \<Rightarrow> [ch] | _ \<Rightarrow> [])"

definition rcv_owns :: "vpc \<Rightarrow> nat list" where
  "rcv_owns pc = (case pc of VIdle \<Rightarrow> [] | VSend ch r \<Rightarrow> [ch] | VClose ch \<Rightarrow> [ch])"

definition cls_owns :: "cpc \<Rightarrow> nat list" where
  "cls_owns pc = (case pc of CClose chs \<Rightarrow> chs | _ \<Rightarrow> [])"

text \<open>The identifier and the channel of a request that may still receive, and what a finished one got.\<close>

definition uses :: "rpc option \<Rightarrow> (string \<times> nat) option" where
  "uses pc = (case pc of Some (REnq r ch) \<Rightarrow> Some (rq_id r, ch) | Some (RWait rid ch) \<Rightarrow> Some (rid, ch) | _ \<Rightarrow> None)"

definition result_ok :: "rpc option \<Rightarrow> bool" where
  "result_ok pc =
     (case pc of
        Some (RDrop rid (Inr r)) \<Rightarrow> rp_id r = rid
      | Some (RClose ch rid (Inr r)) \<Rightarrow> rp_id r = rid
      | Some (RDone rid (Inr r)) \<Rightarrow> rp_id r = rid
      | _ \<Rightarrow> True)"

definition no_buf :: "(nat \<Rightarrow> rchan option) \<Rightarrow> nat \<Rightarrow> bool" where
  "no_buf chs ch = (\<forall>c. chs ch = Some c \<longrightarrow> ch_buf c = None)"

text \<open>Whatever can reach the channel of a waiting request carries the request's identifier.\<close>

definition matched :: "session \<Rightarrow> vpc \<Rightarrow> string \<Rightarrow> nat \<Rightarrow> bool" where
  "matched s v rid ch =
     (ch < next_chan s \<and> (\<forall>j. map_of (pending s) j = Some ch \<longrightarrow> j = rid)
      \<and> (\<forall>r. v = VSend ch r \<longrightarrow> rp_id r = rid)
      \<and> (\<forall>c r. chans s ch = Some c \<longrightarrow> ch_buf c = Some r \<longrightarrow> rp_id r = rid))"

definition bufs_ok :: "session \<Rightarrow> vpc \<Rightarrow> bool" where
  "bufs_ok s v = ((\<forall>ch \<in> snd ` set (pending s). no_buf (chans s) ch) \<and> (\<forall>ch r. v = VSend ch r \<longrightarrow> no_buf (chans s) ch))"

definition sys_ok :: "sys \<Rightarrow> bool" where
  "sys_ok g =
     (\<not> panicked g \<and> distinct (map fst (pending (ses g)))
      \<and> owned_ok (owns g) (chans (ses g)) (next_chan (ses g))
      \<and> bufs_ok (ses g) (rcv g)
      \<and> (\<forall>t rid ch. uses (reqs g t) = Some (rid, ch) \<longrightarrow> matched (ses g) (rcv g) rid ch)
      \<and> (\<forall>t. result_ok (reqs g t)))"

lemma sys_okD:
  assumes "sys_ok g"
  shows "\<not> panicked g" "distinct (map fst (pending (ses g)))"
    "owned_ok (owns g) (chans (ses g)) (next_chan (ses g))" "bufs_ok (ses g) (rcv g)"
    "uses (reqs g t) = Some (rid, ch) \<Longrightarrow> matched (ses g) (rcv g) rid ch" "result_ok (reqs g t)"
  using assms by (auto simp: sys_ok_def)

lemma owns_set:
  "owns (set_req t pc s g) = (owns g)(OPend := map snd (pending s), OReq t := req_owns (Some pc))"
  "owns (set_rcv v s g) = (owns g)(OPend := map snd (pending s), ORecv := rcv_owns v)"
  "owns (set_cls t c s g) = (owns g)(OPend := map snd (pending s), OCls t := cls_owns c)"
  by (rule ext, rename_tac x, case_tac x;
      simp add: set_req_def set_rcv_def set_cls_def req_owns_def rcv_owns_def cls_owns_def)+

lemma owns_parts:
  "owns g (OReq t) = req_owns (reqs g t)" "owns g ORecv = rcv_owns (rcv g)" "owns g (OCls t) = cls_owns (cls g t)"
  by (simp_all add: req_owns_def rcv_owns_def cls_owns_def)

lemma owns_pend_triv: "(owns g)(OPend := map snd (pending (ses g))) = owns g"
  by (rule ext) auto

text \<open>Operations that leave the pending table and the channels alone.\<close>

definition quiet :: "session \<Rightarrow> session \<Rightarrow> bool" where
  "quiet s s' = (pending s' = pending s \<and> chans s' = chans s \<and> next_chan s' = next_chan s)"

lemma quiet_simps [simp]: "quiet s s" "quiet s (s\<lparr>sendCh := x\<rparr>)" "quiet s (touchHeartbeat c s)"
  "quiet s (s\<lparr>closeErr := e, closed := b\<rparr>)" "quiet s (s\<lparr>offlineUntil := u, closeErr := e\<rparr>)" "quiet s (s\<lparr>reqSeq := q\<rparr>)"
  "quiet s (s\<lparr>tree := t'\<rparr>)" "quiet s (invalidatePath p r s)" "quiet s (invalidateForInfo i s)"
  by (simp_all add: quiet_def touchHeartbeat_def invalidatePath_def invalidateForInfo_def
      InvalidateContent_def InvalidateContentPrefix_def split: option.split)

lemma quiet_trans: "quiet a b \<Longrightarrow> quiet b c \<Longrightarrow> quiet a c"
  by (simp add: quiet_def)

lemma quiet_invalidate: "quiet s x \<Longrightarrow> quiet s (invalidatePath p r x)" "quiet s x \<Longrightarrow> quiet s (invalidateForInfo i x)"
  by (erule quiet_trans, simp)+

lemma quiet_applyChange: "quiet s (fst (applyChange c s))"
proof (cases c)
  case (Some c')
  have "quiet s (ApplyWriteResult (Some i) s)" "quiet s (ApplyDelete p s)" "quiet s (ApplyRename p (Some i) s)" for i p
    by (simp_all add: ApplyWriteResult_Some ApplyRename_Some ApplyDelete_def quiet_invalidate)
  then show ?thesis
    unfolding Some applyChange_unfold by (cases "fc_type c'"; cases "fc_file c'") simp_all
qed (simp add: applyChange_def)

lemma quiet_handle:
  assumes "handleDaemonMessage clock msg s = Some (s', e)" "\<forall>r. msg \<noteq> Some (MsgResponse (Some r))"
  shows "quiet s s'"
proof (cases msg)
  case (Some m)
  have r: "quiet s (fst (replaceTree ft (touchHeartbeat clock s)))" for ft
    by (rule quiet_trans [of _ "touchHeartbeat clock s"]) (auto simp: replaceTree_def split: sum.split)
  have a: "quiet s (fst (applyChange c (touchHeartbeat clock s)))" for c
    by (rule quiet_trans [OF _ quiet_applyChange]) simp
  show ?thesis
    using assms r a unfolding Some
    by (cases m) (auto simp: handleDaemonMessage_def Let_def resolvePending_def split: option.splits, (metis fst_conv)+)
qed (use assms in \<open>simp add: handleDaemonMessage_def\<close>)

lemma quiet_matched: "quiet s s' \<Longrightarrow> matched s' v rid ch = matched s v rid ch" "quiet s s' \<Longrightarrow> bufs_ok s' v = bufs_ok s v"
  by (simp_all add: quiet_def matched_def bufs_ok_def)

lemma quiet_step:
  assumes "sys_ok g" "quiet (ses g) s'"
  shows "sys_ok (g\<lparr>ses := s'\<rparr>)"
proof -
  have "owns (g\<lparr>ses := s'\<rparr>) x = owns g x" for x using assms(2) by (cases x) (simp_all add: quiet_def)
  then have "owns (g\<lparr>ses := s'\<rparr>) = owns g" by blast
  then show ?thesis
    using assms by (simp add: sys_ok_def quiet_matched) (simp add: quiet_def)
qed

text \<open>A step of one request that leaves the shared tables alone.\<close>

lemma req_step:
  assumes g: "sys_ok g" "quiet (ses g) s'" and o: "req_owns (Some pc) = req_owns (reqs g t)"
    and u: "uses (Some pc) = None \<or> uses (Some pc) = uses (reqs g t)" and r: "result_ok (Some pc)"
  shows "sys_ok (set_req t pc s' g)"
proof -
  have "owns (set_req t pc s' g) = owns g"
    using g(2) o owns_parts(1) [of g t] by (simp add: owns_set quiet_def owns_pend_triv)
      (metis fun_upd_triv owns_parts(1))
  moreover have "uses (((reqs g)(t \<mapsto> pc)) x) = Some k \<Longrightarrow> \<exists>y. uses (reqs g y) = Some k" for x k
    using u by (auto split: if_splits)
  ultimately show ?thesis
    using g r unfolding sys_ok_def set_req_def
    by (simp add: quiet_matched) (simp add: quiet_def, metis)
qed

section \<open>Preservation\<close>

lemma sys_okI:
  assumes "\<not> panicked g" "distinct (map fst (pending (ses g)))"
    "owned_ok (owns g) (chans (ses g)) (next_chan (ses g))" "bufs_ok (ses g) (rcv g)"
    "\<And>t rid ch. uses (reqs g t) = Some (rid, ch) \<Longrightarrow> matched (ses g) (rcv g) rid ch" "\<And>t. result_ok (reqs g t)"
  shows "sys_ok g"
  using assms by (simp add: sys_ok_def)

lemma matched_mono:
  assumes "matched s v rid ch" "next_chan s \<le> next_chan s'"
    "\<And>j. map_of (pending s') j = Some ch \<Longrightarrow> map_of (pending s) j = Some ch"
    "\<And>r. v' = VSend ch r \<Longrightarrow> v = VSend ch r \<or> rp_id r = rid"
    "\<And>c r. chans s' ch = Some c \<Longrightarrow> ch_buf c = Some r \<Longrightarrow> rp_id r = rid \<or> (\<exists>c. chans s ch = Some c \<and> ch_buf c = Some r)"
  shows "matched s' v' rid ch"
  using assms unfolding matched_def by fastforce

lemma set_fields [simp]:
  "ses (set_req t pc s g) = s" "rcv (set_req t pc s g) = rcv g" "panicked (set_req t pc s g) = panicked g"
  "reqs (set_req t pc s g) = (reqs g)(t \<mapsto> pc)"
  "ses (set_rcv v s g) = s" "rcv (set_rcv v s g) = v" "panicked (set_rcv v s g) = panicked g" "reqs (set_rcv v s g) = reqs g"
  "ses (set_cls t c s g) = s" "rcv (set_cls t c s g) = rcv g" "panicked (set_cls t c s g) = panicked g" "reqs (set_cls t c s g) = reqs g"
  by (simp_all add: set_req_def set_rcv_def set_cls_def)

lemma update_fresh: "map_of ps k = None \<Longrightarrow> AList.update k v ps = ps @ [(k, v)]"
  by (induction ps) (auto split: if_splits)

lemma takePending_Some:
  assumes "takePending rid s = (s', Some ch)" "distinct (map fst (pending s))" "distinct (map snd (pending s))"
  shows "map_of (pending s) rid = Some ch" "s' = s\<lparr>pending := AList.delete rid (pending s)\<rparr>"
    "distinct (map snd (pending s'))" "set (map snd (pending s')) = set (map snd (pending s)) - {ch}"
    "distinct (map fst (pending s'))" "ch \<in> set (map snd (pending s))"
    "\<And>j c. map_of (pending s') j = Some c \<Longrightarrow> map_of (pending s) j = Some c"
proof -
  show m: "map_of (pending s) rid = Some ch" and s': "s' = s\<lparr>pending := AList.delete rid (pending s)\<rparr>"
    using assms(1) by (auto simp: takePending_def split: option.splits)
  have mem: "(rid, ch) \<in> set (pending s)" using m by (rule map_of_SomeD)
  then show "ch \<in> set (map snd (pending s))" by force
  have f: "AList.delete rid (pending s) = filter (\<lambda>p. snd p \<noteq> ch) (pending s)"
  proof -
    have "fst p \<noteq> rid \<longleftrightarrow> snd p \<noteq> ch" if "p \<in> set (pending s)" for p
    proof -
      have "fst p = rid \<longleftrightarrow> p = (rid, ch)"
        using that mem eq_key_imp_eq_value [OF assms(2), of "fst p" "snd p" ch] by (cases p) auto
      moreover have "snd p = ch \<longleftrightarrow> p = (rid, ch)"
        using that mem assms(3) unfolding distinct_map inj_on_def by auto
      ultimately show ?thesis by blast
    qed
    then show ?thesis unfolding AList.delete_eq by (intro filter_cong) (auto simp: case_prod_unfold)
  qed
  show "distinct (map snd (pending s'))" using assms(3) by (simp add: s' f distinct_map_filter)
  show "set (map snd (pending s')) = set (map snd (pending s)) - {ch}" by (auto simp: s' f)
  show "distinct (map fst (pending s'))" using assms(2) by (simp add: s')
  show "map_of (pending s') j = Some c \<Longrightarrow> map_of (pending s) j = Some c" for j c
    by (auto simp: s' split: if_splits)
qed

lemma pending_distinct: "sys_ok g \<Longrightarrow> distinct (map snd (pending (ses g)))"
  using owned_okD(1) [OF sys_okD(3), of g OPend] by simp

lemma lock_ok:
  assumes g: "sys_ok g" and pc: "reqs g t = Some (RLock r)" and l: "registerLocked (rq_id r) (ses g) = (s', Inr ch)"
  shows "sys_ok (set_req t (REnq r ch) s' g)"
proof -
  let ?s = "ses g" and ?nx = "next_chan (ses g)"
  have new: "map_of (pending ?s) (rq_id r) = None" and ch: "ch = ?nx"
    and s': "pending s' = pending ?s @ [(rq_id r, ?nx)]" "next_chan s' = Suc ?nx"
      "chans s' = (chans ?s)(?nx \<mapsto> \<lparr>ch_buf = None, ch_closed = False\<rparr>)"
    using l by (auto simp: registerLocked_def chan_make_def Let_def update_fresh split: if_splits)
  note D = owned_okD [OF sys_okD(3) [OF g]]
  have fresh: "?nx \<notin> set (owns g x)" for x using D(2) [of ?nx x] by blast
  have pend: "?nx \<notin> set (map snd (pending ?s))" using fresh [of OPend] by simp
  have "owns (set_req t (REnq r ch) s' g) = (owns g)(OPend := owns g OPend @ [?nx])"
    using owns_parts(1) [of g t] pc by (auto simp: owns_set s' req_owns_def fun_eq_iff)
  then have "owned_ok (owns (set_req t (REnq r ch) s' g)) (chans s') (next_chan s')"
    using owned_ok_new [OF sys_okD(3) [OF g]] by (simp only: s')
  moreover have "bufs_ok s' (rcv g)"
    using sys_okD(4) [OF g] fresh [of ORecv] pend
    by (auto simp: bufs_ok_def s' no_buf_def owns_parts rcv_owns_def)
  moreover have "matched s' (rcv g) rid c" if "uses (((reqs g)(t \<mapsto> REnq r ch)) x) = Some (rid, c)" for x rid c
  proof (cases "x = t")
    case True
    then have rc: "rid = rq_id r" "c = ?nx" using that ch by (auto simp: uses_def)
    have "rcv g \<noteq> VSend ?nx r'" for r' using fresh [of ORecv] by (auto simp: owns_parts rcv_owns_def)
    moreover have "map_of (pending ?s) j \<noteq> Some ?nx" for j using pend by (force dest: map_of_SomeD)
    ultimately show ?thesis by (auto simp: matched_def rc s' map_add_def split: option.splits if_splits)
  next
    case False
    then have m: "matched ?s (rcv g) rid c" using sys_okD(5) [OF g, of x] that by simp
    then have "c < ?nx" by (simp add: matched_def)
    then show ?thesis using m
      by (auto intro!: matched_mono [OF m] simp: s' map_add_def split: option.splits if_splits)
  qed
  moreover have "result_ok (Some (REnq r ch))" by (simp add: result_ok_def)
  ultimately show ?thesis
    using g new by (intro sys_okI) (auto simp: sys_okD s' map_of_eq_None_iff)
qed

lemma await_ok:
  assumes g: "sys_ok g" and pc: "reqs g t = Some (RWait rid ch)"
    and a: "awaitResponse choice ctxDone ch (ses g) = Some (s', res)"
  shows "sys_ok (set_req t (RDrop rid res) s' g)"
proof (cases "s' = ses g \<and> (\<exists>e. res = Inl e)")
  case True
  then show ?thesis
    using pc by (auto intro!: req_step [OF g] simp: req_owns_def uses_def result_ok_def)
next
  case False
  let ?s = "ses g"
  have "choice = SelComm" using a False by (cases choice) (auto simp: awaitResponse_def split: if_splits)
  moreover from this obtain c where c1: "chans ?s ch = Some c" using a by (cases "chans ?s ch") (auto simp: awaitResponse_def)
  moreover from calculation obtain r where r1: "ch_buf c = Some r"
    using a False by (cases "ch_buf c") (auto simp: awaitResponse_def split: if_splits)
  ultimately have c: "chans ?s ch = Some c" "ch_buf c = Some r" "res = Inr r"
    and s': "s' = ?s\<lparr>chans := (chans ?s)(ch \<mapsto> c\<lparr>ch_buf := None\<rparr>)\<rparr>"
    using a by (auto simp: awaitResponse_def)
  have "matched ?s (rcv g) rid ch" using sys_okD(5) [OF g, of t] pc by (simp add: uses_def)
  then have id: "rp_id r = rid" using c by (simp add: matched_def)
  have "owns (set_req t (RDrop rid res) s' g) = owns g"
    using owns_parts(1) [of g t] pc by (auto simp: owns_set s' req_owns_def fun_eq_iff)
  moreover have "owned_ok (owns g) (chans s') (next_chan s')"
    using owned_okD(3) [OF sys_okD(3) [OF g], of ch] c(1)
    by (auto simp: s' intro!: owned_ok_chan [OF sys_okD(3) [OF g]])
  moreover have "bufs_ok s' (rcv g)"
    using sys_okD(4) [OF g] by (auto simp: bufs_ok_def s' no_buf_def)
  moreover have "matched s' (rcv g) rid' c'" if "uses (((reqs g)(t \<mapsto> RDrop rid res)) x) = Some (rid', c')" for x rid' c'
    using that sys_okD(5) [OF g, of x rid' c']
    by (auto intro!: matched_mono [of ?s "rcv g"] simp: s' uses_def [of "Some (RDrop rid res)"] split: if_splits)
  moreover have "result_ok (Some (RDrop rid res))" using id c(3) by (simp add: result_ok_def)
  ultimately show ?thesis
    using g by (intro sys_okI) (auto simp: sys_okD s')
qed

lemma drop_take_ok:
  assumes g: "sys_ok g" and pc: "reqs g t = Some (RDrop rid res)" and k: "takePending rid (ses g) = (s', Some ch)"
  shows "sys_ok (set_req t (RClose ch rid res) s' g)"
proof -
  note T = takePending_Some [OF k sys_okD(2) [OF g] pending_distinct [OF g]]
  have f: "chans s' = chans (ses g)" "next_chan s' = next_chan (ses g)" by (simp_all add: T(2))
  have "owned_ok (owns (set_req t (RClose ch rid res) s' g)) (chans s') (next_chan s')"
    unfolding owns_set f using T owns_parts(1) [of g t] pc
    by (intro owned_ok_pass [OF sys_okD(3) [OF g]]) (auto simp: req_owns_def)
  moreover have "bufs_ok s' (rcv g)"
    using sys_okD(4) [OF g] T(4) by (auto simp: bufs_ok_def f)
  moreover have "matched s' (rcv g) rid' c'" if "uses (((reqs g)(t \<mapsto> RClose ch rid res)) x) = Some (rid', c')" for x rid' c'
    using that sys_okD(5) [OF g, of x rid' c'] T(7)
    by (auto intro!: matched_mono [of "ses g" "rcv g"] simp: f uses_def [of "Some (RClose ch rid res)"] split: if_splits)
  moreover have "result_ok (Some (RClose ch rid res))"
    using sys_okD(6) [OF g, of t] pc by (simp add: result_ok_def)
  ultimately show ?thesis
    using g T(5) by (intro sys_okI) (auto simp: sys_okD)
qed

text \<open>Whoever owns a channel can close it.\<close>

lemma close_spec:
  assumes "sys_ok g" "ch \<in> set (owns g x)"
  obtains c where "chans (ses g) ch = Some c"
    "chan_close ch (ses g) = Some ((ses g)\<lparr>chans := (chans (ses g))(ch \<mapsto> c\<lparr>ch_closed := True\<rparr>)\<rparr>)"
  using owned_okD(3) [OF sys_okD(3) [OF assms(1)] assms(2)] by (auto simp: chan_close_def)

lemma close_rest:
  assumes g: "sys_ok g" and c: "chans (ses g) ch = Some c"
    and s': "s' = (ses g)\<lparr>chans := (chans (ses g))(ch \<mapsto> c\<lparr>ch_closed := True\<rparr>)\<rparr>"
  shows "bufs_ok s' (rcv g)" "matched (ses g) v rid k \<Longrightarrow> matched s' v rid k" "bufs_ok s' VIdle"
  using sys_okD(4) [OF g] c by (auto simp: bufs_ok_def s' no_buf_def matched_def split: if_splits)

lemma drop_close_ok:
  assumes g: "sys_ok g" and pc: "reqs g t = Some (RClose ch rid res)" and k: "chan_close ch (ses g) = Some s'"
  shows "sys_ok (set_req t (RDone rid res) s' g)"
proof -
  have o: "owns g (OReq t) = [ch]" by (simp add: pc)
  then obtain c where c: "chans (ses g) ch = Some c" "s' = (ses g)\<lparr>chans := (chans (ses g))(ch \<mapsto> c\<lparr>ch_closed := True\<rparr>)\<rparr>"
    using close_spec [OF g, of ch "OReq t"] k by auto
  have "owned_ok (owns (set_req t (RDone rid res) s' g)) (chans s') (next_chan s')"
    using owned_ok_close [OF sys_okD(3) [OF g] o] by (simp add: owns_set c(2) req_owns_def owns_pend_triv)
  moreover have "matched s' (rcv g) rid' c'" if "uses (((reqs g)(t \<mapsto> RDone rid res)) x) = Some (rid', c')" for x rid' c'
    using that sys_okD(5) [OF g, of x rid' c'] close_rest(2) [OF g c]
    by (auto simp: uses_def [of "Some (RDone rid res)"] split: if_splits)
  moreover have "result_ok (Some (RDone rid res))"
    using sys_okD(6) [OF g, of t] pc by (simp add: result_ok_def)
  ultimately show ?thesis
    using g close_rest(1) [OF g c] by (intro sys_okI) (auto simp: sys_okD c(2))
qed

lemma take_none: "takePending rid s = (s', None) \<Longrightarrow> s' = s"
  by (auto simp: takePending_def split: option.splits)

lemma rcv_idle_step:
  assumes g: "sys_ok g" "quiet (ses g) s'" "rcv g = VIdle" shows "sys_ok (set_rcv VIdle s' g)"
  using quiet_step [OF g(1,2)] g(3) by (simp add: set_rcv_def)
    (metis (full_types) g(3) sys.surjective sys.update_convs(1) sys.update_convs(3))

lemma recv_take_ok:
  assumes g: "sys_ok g" and v: "rcv g = VIdle"
    and k: "takePending (rp_id r) (touchHeartbeat clock (ses g)) = (s', Some ch)"
  shows "sys_ok (set_rcv (VSend ch r) s' g)"
proof -
  let ?s = "touchHeartbeat clock (ses g)"
  have p: "pending ?s = pending (ses g)" "chans ?s = chans (ses g)" "next_chan ?s = next_chan (ses g)"
    by (simp_all add: touchHeartbeat_def)
  note T = takePending_Some [OF k, unfolded p, OF sys_okD(2) [OF g] pending_distinct [OF g]]
  have f: "chans s' = chans (ses g)" "next_chan s' = next_chan (ses g)" by (simp_all add: T(2) p)
  have "owned_ok (owns (set_rcv (VSend ch r) s' g)) (chans s') (next_chan s')"
    unfolding owns_set f using T v
    by (intro owned_ok_pass [OF sys_okD(3) [OF g]]) (auto simp: rcv_owns_def)
  moreover have "bufs_ok s' (VSend ch r)"
    using sys_okD(4) [OF g] T(4,6) by (auto simp: bufs_ok_def f)
  moreover have "matched s' (VSend ch r) rid c" if "uses (reqs g x) = Some (rid, c)" for x rid c
  proof -
    have m: "matched (ses g) (rcv g) rid c" using sys_okD(5) [OF g that] .
    then have "c = ch \<Longrightarrow> rp_id r = rid" using T(1) by (simp add: matched_def)
    then show ?thesis using T(7) by (intro matched_mono [OF m]) (auto simp: f)
  qed
  ultimately show ?thesis using g T(5) by (intro sys_okI) (auto simp: sys_okD)
qed

lemma send_possible:
  assumes g: "sys_ok g" and v: "rcv g = VSend ch r"
  obtains c where "chans (ses g) ch = Some c" "\<not> ch_closed c"
    "chan_send ch r (ses g) = Some ((ses g)\<lparr>chans := (chans (ses g))(ch \<mapsto> c\<lparr>ch_buf := Some r\<rparr>)\<rparr>)"
proof -
  have "ch \<in> set (owns g ORecv)" by (simp add: v)
  then obtain c where c: "chans (ses g) ch = Some c" "\<not> ch_closed c"
    using owned_okD(3) [OF sys_okD(3) [OF g]] by blast
  moreover have "ch_buf c = None" using sys_okD(4) [OF g] v c(1) by (simp add: bufs_ok_def no_buf_def)
  ultimately show thesis using that by (simp add: chan_send_def)
qed

lemma recv_send_ok:
  assumes g: "sys_ok g" and v: "rcv g = VSend ch r" and k: "chan_send ch r (ses g) = Some s'"
  shows "sys_ok (set_rcv (VClose ch) s' g)"
proof -
  obtain c where c: "chans (ses g) ch = Some c" "\<not> ch_closed c"
    "s' = (ses g)\<lparr>chans := (chans (ses g))(ch \<mapsto> c\<lparr>ch_buf := Some r\<rparr>)\<rparr>"
    using send_possible [OF g v] k by auto
  have own: "owns (set_rcv (VClose ch) s' g) = owns g"
    by (auto simp: owns_set c(3) rcv_owns_def v fun_eq_iff)
  have "ch \<in> set (owns g ORecv)" by (simp add: v)
  then have np: "ch \<notin> snd ` set (pending (ses g))"
    using owned_okD(4) [OF sys_okD(3) [OF g], of ch ORecv OPend] by auto
  have "owned_ok (owns g) (chans s') (next_chan s')"
    using c(2) by (simp add: c(3) owned_ok_chan [OF sys_okD(3) [OF g]])
  moreover have "bufs_ok s' (VClose ch)"
    using sys_okD(4) [OF g] np by (auto simp: bufs_ok_def c(3) no_buf_def)
  moreover have "matched s' (VClose ch) rid k" if "uses (reqs g x) = Some (rid, k)" for x rid k
  proof -
    have m: "matched (ses g) (rcv g) rid k" using sys_okD(5) [OF g that] .
    then have "k = ch \<Longrightarrow> rp_id r = rid" using v by (simp add: matched_def)
    then show ?thesis by (intro matched_mono [OF m]) (auto simp: c(3) split: if_splits)
  qed
  ultimately show ?thesis using g own by (intro sys_okI) (auto simp: sys_okD c(3))
qed

lemma recv_close_ok:
  assumes g: "sys_ok g" and v: "rcv g = VClose ch" and k: "chan_close ch (ses g) = Some s'"
  shows "sys_ok (set_rcv VIdle s' g)"
proof -
  have o: "owns g ORecv = [ch]" by (simp add: v)
  then obtain c where c: "chans (ses g) ch = Some c" "s' = (ses g)\<lparr>chans := (chans (ses g))(ch \<mapsto> c\<lparr>ch_closed := True\<rparr>)\<rparr>"
    using close_spec [OF g, of ch ORecv] k by auto
  have "owned_ok (owns (set_rcv VIdle s' g)) (chans s') (next_chan s')"
    using owned_ok_close [OF sys_okD(3) [OF g] o] by (simp add: owns_set c(2) rcv_owns_def owns_pend_triv)
  moreover have "matched s' VIdle rid k" if "uses (reqs g x) = Some (rid, k)" for x rid k
    using close_rest(2) [OF g c sys_okD(5) [OF g that]] by (auto simp: matched_def)
  ultimately show ?thesis
    using g close_rest(3) [OF g c] by (intro sys_okI) (auto simp: sys_okD c(2))
qed

lemma close_take_ok:
  assumes g: "sys_ok g" and k: "cls g t = CTake" "takeAllPending (ses g) = (s', chs)"
  shows "sys_ok (set_cls t (CClose chs) s' g)"
proof -
  have f: "pending s' = []" "chans s' = chans (ses g)" "next_chan s' = next_chan (ses g)" "chs = map snd (pending (ses g))"
    using k(2) by (auto simp: takeAllPending_def)
  have "owned_ok (owns (set_cls t (CClose chs) s' g)) (chans s') (next_chan s')"
    unfolding owns_set f(2,3) using pending_distinct [OF g] k(1)
    by (intro owned_ok_pass [OF sys_okD(3) [OF g]]) (auto simp: cls_owns_def f)
  moreover have "bufs_ok s' (rcv g)" using sys_okD(4) [OF g] by (auto simp: bufs_ok_def f)
  moreover have "matched s' (rcv g) rid c" if "uses (reqs g x) = Some (rid, c)" for x rid c
    by (intro matched_mono [OF sys_okD(5) [OF g that]]) (auto simp: f)
  ultimately show ?thesis using g by (intro sys_okI) (auto simp: sys_okD f)
qed

lemma close_one_ok:
  assumes g: "sys_ok g" and v: "cls g t = CClose (ch # chs)" and k: "chan_close ch (ses g) = Some s'"
  shows "sys_ok (set_cls t (CClose chs) s' g)"
proof -
  have o: "owns g (OCls t) = ch # chs" by (simp add: v)
  then obtain c where c: "chans (ses g) ch = Some c" "s' = (ses g)\<lparr>chans := (chans (ses g))(ch \<mapsto> c\<lparr>ch_closed := True\<rparr>)\<rparr>"
    using close_spec [OF g, of ch "OCls t"] k by auto
  have "owned_ok (owns (set_cls t (CClose chs) s' g)) (chans s') (next_chan s')"
    using owned_ok_close [OF sys_okD(3) [OF g] o] by (simp add: owns_set c(2) cls_owns_def owns_pend_triv)
  moreover have "matched s' (rcv g) rid k" if "uses (reqs g x) = Some (rid, k)" for x rid k
    using close_rest(2) [OF g c sys_okD(5) [OF g that]] .
  ultimately show ?thesis
    using g close_rest(1) [OF g c] by (intro sys_okI) (auto simp: sys_okD c(2))
qed

lemma cls_step:
  assumes g: "sys_ok g" "quiet (ses g) s'" and o: "cls_owns pc = cls_owns (cls g t)"
  shows "sys_ok (set_cls t pc s' g)"
proof -
  have "owns (set_cls t pc s' g) = owns g"
    using g(2) o owns_parts(3) [of g t] by (auto simp: owns_set quiet_def fun_eq_iff)
  then show ?thesis
    using g by (intro sys_okI) (auto simp: sys_okD quiet_matched, auto simp: quiet_def sys_okD)
qed

lemma quiet_prepare: "prepareRequest r s = (s', x) \<Longrightarrow> quiet s s'"
  by (auto simp: prepareRequest_def nextRequestID_def Let_def split: option.splits if_splits)

lemma quiet_enqueue: "enqueueRequest choice d r s = Some (s', x) \<Longrightarrow> quiet s s'"
  by (auto simp: enqueueRequest_def split: sel.splits if_splits)

lemma quiet_closeState: "closeState err s = (s', b) \<Longrightarrow> quiet s s'"
  by (auto simp: closeState_def split: if_splits)

lemma quiet_retain: "RetainOffline u s = (s', b) \<Longrightarrow> quiet s s'"
  by (auto simp: RetainOffline_def split: option.splits if_splits)

lemma quiet_lock_dup: "registerLocked rid s = (s', Inl e) \<Longrightarrow> quiet s s'"
  by (auto simp: registerLocked_def chan_make_def split: if_splits)

lemmas quiet_ops = quiet_prepare quiet_enqueue quiet_closeState quiet_retain quiet_lock_dup

lemma close_no_panic: "sys_ok g \<Longrightarrow> ch \<in> set (owns g x) \<Longrightarrow> chan_close ch (ses g) \<noteq> None"
  by (erule (1) close_spec) simp

lemma sstep_ok: "sstep g g' \<Longrightarrow> sys_ok g \<Longrightarrow> sys_ok g'"
proof (induction rule: sstep.induct)
  case (drop_none g t rid res s')
  then show ?case
    using sys_okD(6) [OF drop_none(3), of t]
    by (auto dest!: take_none intro!: req_step simp: req_owns_def uses_def result_ok_def)
next
  case (recv_unknown g r clock s')
  then show ?case by (auto dest!: take_none intro!: rcv_idle_step)
next
  case (recv_data g msg clock s' e)
  then show ?case using quiet_handle by (intro rcv_idle_step) blast+
next
  case (drop_panic g t ch rid res)
  then show ?case using close_no_panic [of g ch "OReq t"] by simp
next
  case (recv_send_panic g ch r)
  then show ?case using send_possible [of g ch r] by auto
next
  case (recv_close_panic g ch)
  then show ?case using close_no_panic [of g ch ORecv] by simp
next
  case (close_panic g t ch chs)
  then show ?case using close_no_panic [of g ch "OCls t"] by simp
next
  case (send_loop g m ms)
  then show ?case by (intro quiet_step) simp_all
next
  case (retain until g s' b)
  then show ?case by (intro quiet_step quiet_ops)
next
  case (close_late g t err s')
  then show ?case by (intro cls_step) (auto simp: cls_owns_def intro: quiet_ops)
next
  case (close_first g t err s')
  then show ?case by (intro cls_step) (auto simp: cls_owns_def intro: quiet_ops)
next
  case (close_end g t)
  then show ?case by (intro cls_step) (auto simp: cls_owns_def)
qed ((rule lock_ok await_ok drop_take_ok drop_close_ok recv_take_ok recv_send_ok recv_close_ok close_take_ok
        close_one_ok; assumption)
    | (rule req_step; auto intro: quiet_ops simp: req_owns_def uses_def result_ok_def))+

lemma sreach_ok: "sreach g \<Longrightarrow> sys_ok g"
proof (induction rule: sreach.induct)
  case (init u n errs)
  have "owns (sys_init (NewSession u n) errs) x = []" for x
    by (cases x) (simp_all add: sys_init_def NewSession_def)
  then show ?case
    by (intro sys_okI) (simp_all add: owned_ok_def sys_init_def NewSession_def bufs_ok_def uses_def result_ok_def)
qed (rule sstep_ok)

section \<open>The sequential operations\<close>

text \<open>The sequential operations of the session are what the steps of one goroutine do when nobody interferes.\<close>

lemma dropPending_steps:
  assumes "reqs g t = Some (RDrop rid res)" "dropPending rid (ses g) = Some s'"
  shows "sstep\<^sup>*\<^sup>* g (set_req t (RDone rid res) s' g)"
proof (cases "takePending rid (ses g)")
  case (Pair s1 ch)
  show ?thesis
  proof (cases ch)
    case None
    then show ?thesis using assms Pair sstep.drop_none by (auto simp: dropPending_def)
  next
    case (Some c)
    let ?g = "set_req t (RClose c rid res) s1 g"
    have "sstep g ?g" using assms(1) Pair Some by (auto intro: sstep.drop_take)
    moreover have "sstep ?g (set_req t (RDone rid res) s' ?g)"
      using assms(2) Pair Some by (intro sstep.drop_close) (auto simp: dropPending_def set_req_def)
    ultimately show ?thesis by (simp add: set_req_def)
  qed
qed

lemma resolvePending_steps:
  assumes "rcv g = VIdle" "resolvePending (Some r) (touchHeartbeat clock (ses g)) = Some s'"
  shows "sstep\<^sup>*\<^sup>* g (set_rcv VIdle s' g)"
proof (cases "takePending (rp_id r) (touchHeartbeat clock (ses g))")
  case (Pair s1 ch)
  show ?thesis
  proof (cases ch)
    case None
    then show ?thesis using assms Pair sstep.recv_unknown by (auto simp: resolvePending_def)
  next
    case (Some c)
    then obtain s2 where s2: "chan_send c r s1 = Some s2" "chan_close c s2 = Some s'"
      using assms(2) Pair by (auto simp: resolvePending_def split: option.splits)
    let ?g1 = "set_rcv (VSend c r) s1 g" and ?g2 = "set_rcv (VClose c) s2 g"
    have "sstep g ?g1" using assms(1) Pair Some by (auto intro: sstep.recv_take)
    moreover have "sstep ?g1 (set_rcv (VClose c) s2 ?g1)" using s2 by (intro sstep.recv_send) (auto simp: set_rcv_def)
    moreover have "sstep ?g2 (set_rcv VIdle s' ?g2)" using s2 by (intro sstep.recv_close) (auto simp: set_rcv_def)
    ultimately show ?thesis by (simp add: set_rcv_def)
  qed
qed

lemma close_list_steps:
  assumes "cls g t = CClose chs" "fold_opt chan_close chs (ses g) = Some s'"
  shows "sstep\<^sup>*\<^sup>* g (set_cls t CDone s' g)"
  using assms
proof (induction chs arbitrary: g)
  case Nil
  then show ?case using sstep.close_end by auto
next
  case (Cons c cs)
  then obtain s1 where s1: "chan_close c (ses g) = Some s1" "fold_opt chan_close cs s1 = Some s'"
    by (auto split: option.splits)
  let ?g = "set_cls t (CClose cs) s1 g"
  have "sstep g ?g" using Cons.prems(1) s1(1) by (auto intro: sstep.close_one)
  moreover have "sstep\<^sup>*\<^sup>* ?g (set_cls t CDone s' ?g)" using s1(2) by (intro Cons.IH) (auto simp: set_cls_def)
  ultimately show ?case by (simp add: set_cls_def)
qed

lemma closeWithError_steps:
  assumes "cls g t = CIdle err" "closeWithError err (ses g) = Some s'"
  shows "sstep\<^sup>*\<^sup>* g (set_cls t CDone s' g)"
proof (cases "closeState err (ses g)")
  case (Pair s1 first)
  show ?thesis
  proof (cases first)
    case False
    then show ?thesis using assms Pair sstep.close_late by (auto simp: closeWithError_def)
  next
    case True
    obtain s2 chs where t: "takeAllPending s1 = (s2, chs)" by fastforce
    let ?g1 = "set_cls t CTake s1 g" and ?g2 = "set_cls t (CClose chs) s2 g"
    have "sstep g ?g1" using assms(1) Pair True by (auto intro: sstep.close_first)
    moreover have "sstep ?g1 (set_cls t (CClose chs) s2 ?g1)" using t by (intro sstep.close_take) (auto simp: set_cls_def)
    moreover have "sstep\<^sup>*\<^sup>* ?g2 (set_cls t CDone s' ?g2)"
      using assms(2) Pair True t by (intro close_list_steps) (auto simp: closeWithError_def set_cls_def)
    ultimately show ?thesis by (simp add: set_cls_def)
  qed
qed

section \<open>Properties\<close>

text \<open>C4: in no interleaving of requests, responses, drops and closings does a goroutine close a closed
  channel, send on a closed one or block in sending a response, and whenever a goroutine is about to send
  or close, it can.\<close>

theorem channels_never_panic:
  assumes "sreach g"
  shows "\<not> panicked g
    \<and> (\<forall>ch r. rcv g = VSend ch r \<longrightarrow> chan_send ch r (ses g) \<noteq> None)
    \<and> (\<forall>ch. rcv g = VClose ch \<longrightarrow> chan_close ch (ses g) \<noteq> None)
    \<and> (\<forall>t ch rid res. reqs g t = Some (RClose ch rid res) \<longrightarrow> chan_close ch (ses g) \<noteq> None)
    \<and> (\<forall>t ch chs. cls g t = CClose (ch # chs) \<longrightarrow> chan_close ch (ses g) \<noteq> None)"
proof -
  have ok: "sys_ok g" using assms by (rule sreach_ok)
  show ?thesis
  proof (intro conjI allI impI)
    show "\<not> panicked g" using sys_okD(1) [OF ok] .
    show "chan_send ch r (ses g) \<noteq> None" if "rcv g = VSend ch r" for ch r
      using send_possible [OF ok that] by auto
    show "chan_close ch (ses g) \<noteq> None" if "rcv g = VClose ch" for ch
      using that by (intro close_no_panic [OF ok, of _ ORecv]) simp
    show "chan_close ch (ses g) \<noteq> None" if "reqs g t = Some (RClose ch rid res)" for t ch rid res
      using that by (intro close_no_panic [OF ok, of _ "OReq t"]) simp
    show "chan_close ch (ses g) \<noteq> None" if "cls g t = CClose (ch # chs)" for t ch chs
      using that by (intro close_no_panic [OF ok, of _ "OCls t"]) simp
  qed
qed

text \<open>C5: a request that returns a response returns the one with its own identifier, whatever other
  requests are in flight.\<close>

theorem response_matches_request:
  assumes "sreach g" "reqs g t = Some (RDone rid (Inr r))"
  shows "rp_id r = rid"
  using sys_okD(6) [OF sreach_ok [OF assms(1)], of t] assms(2) by (simp add: result_ok_def)

definition demo_req :: file_request where
  "demo_req = \<lparr>rq_id = ''q'', rq_op = Some (OpStat (Some ''a''))\<rparr>"

definition demo_resp :: file_response where
  "demo_resp = \<lparr>rp_id = ''q'', rp_success = True, rp_error = [], rp_result = ResNone\<rparr>"

text \<open>One full round: start, look, lock, enqueue, response taken, sent, received, dropped.\<close>

lemma demo_run: "\<exists>g. sreach g \<and> reqs g 0 = Some (RDone ''q'' (Inr demo_resp))"
proof -
  let ?g0 = "sys_init (NewSession ''u'' 0) (\<lambda>_. None)"
  let ?s0 = "NewSession ''u'' 0"
  let ?g1 = "set_req 0 (RCheck demo_req) ?s0 ?g0"
  let ?g2 = "set_req 0 (RLock demo_req) ?s0 ?g1"
  let ?s3 = "fst (registerLocked ''q'' ?s0)"
  let ?g3 = "set_req 0 (REnq demo_req 0) ?s3 ?g2"
  let ?s4 = "?s3\<lparr>sendCh := [SrvRequest demo_req]\<rparr>"
  let ?g4 = "set_req 0 (RWait ''q'' 0) ?s4 ?g3"
  let ?s5 = "(touchHeartbeat 1 ?s4)\<lparr>pending := []\<rparr>"
  let ?g5 = "set_rcv (VSend 0 demo_resp) ?s5 ?g4"
  let ?s6 = "the (chan_send 0 demo_resp ?s5)"
  let ?g6 = "set_rcv (VClose 0) ?s6 ?g5"
  let ?s7 = "fst (the (awaitResponse SelComm False 0 ?s6))"
  let ?g7 = "set_req 0 (RDrop ''q'' (Inr demo_resp)) ?s7 ?g6"
  let ?g8 = "set_req 0 (RDone ''q'' (Inr demo_resp)) ?s7 ?g7"
  note d = NewSession_def registerLocked_def chan_make_def chan_send_def awaitResponse_def touchHeartbeat_def
    takePending_def demo_req_def demo_resp_def enqueueRequest_def sessionSendBufferSize_def IsOfflineReadonly_def
    prepareRequest_def
  have "sreach ?g0" by (rule sreach.init)
  moreover have "sstep ?g0 ?g1" by (rule sstep.start [where r = "Some demo_req"]) (simp_all add: sys_init_def d)
  moreover have "sstep ?g1 ?g2"
    using sstep.check_open [of ?g1 0 demo_req] by (simp add: d sys_init_def)
  moreover have "sstep ?g2 ?g3" by (rule sstep.lock [where r = demo_req]) (simp_all add: d sys_init_def)
  moreover have "sstep ?g3 ?g4"
    using sstep.enq [of ?g3 0 demo_req 0 SelComm False ?s4] by (simp add: d)
  moreover have "sstep ?g4 ?g5"
    by (rule sstep.recv_take [where r = demo_resp and clock = 1]) (simp_all add: d sys_init_def)
  moreover have "sstep ?g5 ?g6" by (rule sstep.recv_send [where r = demo_resp]) (simp_all add: d)
  moreover have "sstep ?g6 ?g7"
    by (rule sstep.await [where choice = SelComm and ctxDone = False and ch = 0]) (simp_all add: d)
  moreover have "sstep ?g7 ?g8" by (rule sstep.drop_none [where rid = "''q''"]) (simp_all add: d)
  ultimately have "sreach ?g8" by (meson sreach.step)
  then show ?thesis by (intro exI [of _ ?g8]) simp
qed

theorem channels_never_panic_witness:
  "\<exists>g. sreach g \<and> reqs g 0 = Some (RDone ''q'' (Inr demo_resp)) \<and> \<not> panicked g"
  using demo_run channels_never_panic by blast

theorem response_matches_request_witness:
  "\<exists>g. sreach g \<and> reqs g 0 = Some (RDone ''q'' (Inr demo_resp)) \<and> rp_id demo_resp = ''q''"
  using demo_run response_matches_request by blast

end
