(* ===== verification/Manager.thy ===== *)
theory Manager
  imports Session "HOL-Library.List_Lexorder" "HOL-Library.Char_ord"
begin

text \<open>
  The registry of sessions and PTY slots, \<open>src/pkg/session/manager.go\<close>, and the daemon stream's life
  around it, \<open>src/pkg/session/service.go\<close>. Sessions are objects on a heap and the registry compares
  pointers, because a user's old session may disconnect after a newer one took its place. Each operation
  runs under the manager's lock; \<open>Get\<close> reads under the read lock and removes under the write lock, two
  steps. \<open>time.Now()\<close> is an argument.
\<close>

section \<open>Definitions\<close>

datatype mgr_error = ErrNilSession | ErrEmptyUserID | ErrPTYBusy | ErrNilManager | ErrMissingUserID

record manager =
  sessions :: "(string \<times> nat) list"
  activePTY :: "(string \<times> string) list"
  nextPTYID :: "64 word"
  requestTimeout :: int
  cacheMaxBytes :: int
  offlineReadOnlyTTL :: int
  prefetchEnabled :: bool
  prefetchMaxFileBytes :: int
  prefetchMaxFilesPerDir :: int

record manager_options =
  mo_RequestTimeout :: int
  mo_CacheMaxBytes :: int
  mo_OfflineReadOnlyTTL :: int
  mo_PrefetchEnabled :: bool
  mo_PrefetchMaxFileBytes :: int
  mo_PrefetchMaxFilesPerDir :: int

text \<open>The heap of session objects; a pointer is its address.\<close>

type_synonym sheap = "nat \<Rightarrow> session option"

definition NewManager :: "manager_options \<Rightarrow> manager" where
  "NewManager cfg =
     \<lparr>sessions = [], activePTY = [], nextPTYID = 0,
      requestTimeout = mo_RequestTimeout cfg, cacheMaxBytes = mo_CacheMaxBytes cfg,
      offlineReadOnlyTTL = mo_OfflineReadOnlyTTL cfg, prefetchEnabled = mo_PrefetchEnabled cfg,
      prefetchMaxFileBytes = mo_PrefetchMaxFileBytes cfg, prefetchMaxFilesPerDir = mo_PrefetchMaxFilesPerDir cfg\<rparr>"

definition manager_NewSession :: "manager \<Rightarrow> string \<Rightarrow> session" where
  "manager_NewSession m uid = NewSession uid (cacheMaxBytes m)"

definition expired_at :: "int \<Rightarrow> sheap \<Rightarrow> nat \<Rightarrow> bool" where
  "expired_at now h p = (case h p of None \<Rightarrow> False | Some s \<Rightarrow> IsExpired now (Some now) s)"

definition user_at :: "sheap \<Rightarrow> nat \<Rightarrow> string" where
  "user_at h p = (case h p of None \<Rightarrow> [] | Some s \<Rightarrow> userID s)"

definition pruneExpiredLocked :: "int \<Rightarrow> sheap \<Rightarrow> manager \<Rightarrow> manager" where
  "pruneExpiredLocked now h m = m\<lparr>sessions := filter (\<lambda>(u, p). \<not> expired_at now h p) (sessions m)\<rparr>"

definition manager_Register :: "int \<Rightarrow> sheap \<Rightarrow> nat option \<Rightarrow> manager \<Rightarrow> manager \<times> (mgr_error + nat option)" where
  "manager_Register now h sp m =
     (case sp of
        None \<Rightarrow> (m, Inl ErrNilSession)
      | Some p \<Rightarrow>
          if user_at h p = [] then (m, Inl ErrEmptyUserID)
          else
            (let m1 = pruneExpiredLocked now h m;
                 prev = map_of (sessions m1) (user_at h p)
             in (m1\<lparr>sessions := AList.update (user_at h p) p (sessions m1)\<rparr>, Inr prev)))"

definition removeExpired :: "int \<Rightarrow> sheap \<Rightarrow> string \<Rightarrow> nat \<Rightarrow> manager \<Rightarrow> manager" where
  "removeExpired now h uid expired m =
     (case map_of (sessions m) uid of
        Some cur \<Rightarrow>
          if cur = expired \<and> expired_at now h cur then m\<lparr>sessions := AList.delete uid (sessions m)\<rparr> else m
      | None \<Rightarrow> m)"

definition manager_Get :: "int \<Rightarrow> int \<Rightarrow> sheap \<Rightarrow> string \<Rightarrow> manager \<Rightarrow> manager \<times> nat option" where
  "manager_Get now now' h uid m =
     (case map_of (sessions m) uid of
        None \<Rightarrow> (m, None)
      | Some p \<Rightarrow> if expired_at now h p then (removeExpired now' h uid p m, None) else (m, Some p))"

definition sessionClosed :: "sheap \<Rightarrow> nat \<Rightarrow> bool" where
  "sessionClosed h p = (case h p of None \<Rightarrow> True | Some s \<Rightarrow> closed s)"

definition LookupDaemon :: "int \<Rightarrow> sheap \<Rightarrow> string \<Rightarrow> manager \<Rightarrow> manager \<times> nat option" where
  "LookupDaemon now h uid m =
     (if uid = [] then (m, None)
      else
        (let m1 = pruneExpiredLocked now h m
         in case map_of (sessions m1) uid of
              None \<Rightarrow> (m1, None)
            | Some p \<Rightarrow> if sessionClosed h p then (m1, None) else (m1, Some p)))"

definition nextPTYSessionIDLocked :: "string \<Rightarrow> manager \<Rightarrow> manager \<times> string" where
  "nextPTYSessionIDLocked uid m =
     (let n = nextPTYID m + 1 in (m\<lparr>nextPTYID := n\<rparr>, uid @ ''-pty-'' @ decimal (unat n)))"

definition RegisterPTY :: "string \<Rightarrow> manager \<Rightarrow> manager \<times> (mgr_error + string)" where
  "RegisterPTY uid m =
     (if uid = [] then (m, Inl ErrEmptyUserID)
      else if map_of (activePTY m) uid \<noteq> None then (m, Inl ErrPTYBusy)
      else
        (let (m1, sid) = nextPTYSessionIDLocked uid m
         in (m1\<lparr>activePTY := AList.update uid sid (activePTY m1)\<rparr>, Inr sid)))"

definition UnregisterPTY :: "string \<Rightarrow> string \<Rightarrow> manager \<Rightarrow> manager \<times> bool" where
  "UnregisterPTY uid sid m =
     (if uid = [] \<or> sid = [] then (m, False)
      else
        (case map_of (activePTY m) uid of
           None \<Rightarrow> (m, False)
         | Some cur \<Rightarrow>
             if cur \<noteq> sid then (m, False)
             else (m\<lparr>activePTY := AList.delete uid (activePTY m)\<rparr>, True)))"

definition manager_Remove :: "sheap \<Rightarrow> nat option \<Rightarrow> manager \<Rightarrow> manager" where
  "manager_Remove h sp m =
     (case sp of
        None \<Rightarrow> m
      | Some p \<Rightarrow>
          if user_at h p = [] then m
          else (case map_of (sessions m) (user_at h p) of
                  Some cur \<Rightarrow> if cur = p then m\<lparr>sessions := AList.delete (user_at h p) (sessions m)\<rparr> else m
                | None \<Rightarrow> m))"

definition UserIDs :: "int \<Rightarrow> sheap \<Rightarrow> manager \<Rightarrow> manager \<times> string list" where
  "UserIDs now h m =
     (let m1 = pruneExpiredLocked now h m in (m1, sort (map fst (sessions m1))))"

definition HandleDisconnect ::
  "int \<Rightarrow> int \<Rightarrow> sess_error option \<Rightarrow> nat option \<Rightarrow> manager \<times> sheap \<Rightarrow> manager \<times> sheap" where
  "HandleDisconnect now now' serveErr sp mh =
     (case mh of (m, h) \<Rightarrow>
       (case sp of
          None \<Rightarrow> (m, h)
        | Some p \<Rightarrow>
            if user_at h p = [] then (m, h)
            else if map_of (sessions m) (user_at h p) \<noteq> Some p then (m, h)
            else if serveErr = Some ErrSessionReplaced \<or> offlineReadOnlyTTL m \<le> 0
                 then (m\<lparr>sessions := AList.delete (user_at h p) (sessions m)\<rparr>, h)
            else
              (let h1 = (case h p of
                           None \<Rightarrow> h
                         | Some s \<Rightarrow> h(p \<mapsto> fst (RetainOffline (Some (now + offlineReadOnlyTTL m)) s)))
               in (pruneExpiredLocked now' h1 m, h1))))"

subsection \<open>The daemon stream\<close>

datatype conn_error = ConnUnauthenticated | ConnRecv stream_error | ConnBootstrap sess_error | ConnRegister mgr_error

text \<open>\<open>Connect\<close> up to \<open>Serve\<close>: the new session is made, bootstrapped, put on the heap and registered, and a
  session it replaces is closed. \<open>None\<close> is a panic.\<close>

definition Connect_open ::
  "int \<Rightarrow> string option \<Rightarrow> stream_error + daemon_msg option \<Rightarrow> nat \<Rightarrow> manager \<times> sheap
     \<Rightarrow> ((manager \<times> sheap) \<times> (conn_error + nat)) option" where
  "Connect_open now ctxUser initial p mh =
     (case mh of (m, h) \<Rightarrow>
       (case ctxUser of
          None \<Rightarrow> Some ((m, h), Inl ConnUnauthenticated)
        | Some uid \<Rightarrow>
            (case initial of
               Inl e \<Rightarrow> Some ((m, h), Inl (ConnRecv e))
             | Inr msg \<Rightarrow>
                 (case Bootstrap now msg (manager_NewSession m uid) of
                    (s, Some e) \<Rightarrow> Some ((m, h), Inl (ConnBootstrap e))
                  | (s, None) \<Rightarrow>
                      (let h1 = h(p \<mapsto> s) in
                       case manager_Register now h1 (Some p) m of
                         (m1, Inl e) \<Rightarrow> Some ((m1, h1), Inl (ConnRegister e))
                       | (m1, Inr None) \<Rightarrow> Some ((m1, h1), Inr p)
                       | (m1, Inr (Some q)) \<Rightarrow>
                           (case h1 q of
                              None \<Rightarrow> None
                            | Some old \<Rightarrow>
                                (case closeWithError (Some ErrSessionReplaced) old of
                                   None \<Rightarrow> None
                                 | Some old' \<Rightarrow> Some ((m1, h1(q \<mapsto> old')), Inr p))))))))"

definition Connect_close ::
  "int \<Rightarrow> int \<Rightarrow> sess_error option \<Rightarrow> nat \<Rightarrow> manager \<times> sheap \<Rightarrow> (manager \<times> sheap) \<times> sess_error option" where
  "Connect_close now now' serveErr p mh = (HandleDisconnect now now' serveErr (Some p) mh, serveErr)"

section \<open>Invariant\<close>

text \<open>Every registered pointer is a live object under its own user, and a user has one entry.\<close>

definition mgr_ok :: "manager \<Rightarrow> sheap \<Rightarrow> bool" where
  "mgr_ok m h =
     (distinct (map fst (sessions m)) \<and> distinct (map fst (activePTY m))
      \<and> (\<forall>u p. map_of (sessions m) u = Some p \<longrightarrow> u \<noteq> [] \<and> (\<exists>s. h p = Some s \<and> userID s = u)))"

lemma map_of_prune:
  "distinct (map fst (sessions m)) \<Longrightarrow>
   map_of (sessions (pruneExpiredLocked now h m)) u =
     (case map_of (sessions m) u of Some p \<Rightarrow> if expired_at now h p then None else Some p | None \<Rightarrow> None)"
proof -
  have "distinct (map fst xs) \<Longrightarrow> map_of (filter (\<lambda>(u, p). \<not> expired_at now h p) xs) u =
      (case map_of xs u of Some p \<Rightarrow> if expired_at now h p then None else Some p | None \<Rightarrow> None)"
    for xs :: "(string \<times> nat) list"
    by (induction xs) (auto split: option.split simp: map_of_eq_None_iff)
  then show "distinct (map fst (sessions m)) \<Longrightarrow> ?thesis" by (simp add: pruneExpiredLocked_def)
qed

lemma prune_fields [simp]:
  "activePTY (pruneExpiredLocked now h m) = activePTY m" "offlineReadOnlyTTL (pruneExpiredLocked now h m) = offlineReadOnlyTTL m"
  "nextPTYID (pruneExpiredLocked now h m) = nextPTYID m"
  "distinct (map fst (sessions m)) \<Longrightarrow> distinct (map fst (sessions (pruneExpiredLocked now h m)))"
  by (simp_all add: pruneExpiredLocked_def distinct_map_filter)

lemma mgr_okD:
  assumes "mgr_ok m h"
  shows "distinct (map fst (sessions m))" "distinct (map fst (activePTY m))"
    "map_of (sessions m) u = Some p \<Longrightarrow> u \<noteq> [] \<and> (\<exists>s. h p = Some s \<and> userID s = u)"
  using assms unfolding mgr_ok_def by blast+

lemma mgr_okI:
  assumes "distinct (map fst (sessions m))" "distinct (map fst (activePTY m))"
    "\<And>u p. map_of (sessions m) u = Some p \<Longrightarrow> u \<noteq> [] \<and> (\<exists>s. h p = Some s \<and> userID s = u)"
  shows "mgr_ok m h"
  using assms unfolding mgr_ok_def by blast

lemma mgr_ok_sub:
  assumes "mgr_ok m h" "distinct (map fst (sessions m'))" "distinct (map fst (activePTY m'))"
    "\<And>u p. map_of (sessions m') u = Some p \<Longrightarrow> map_of (sessions m) u = Some p"
  shows "mgr_ok m' h"
  by (rule mgr_okI) (use assms mgr_okD(3) [OF assms(1)] in blast)+

lemma mgr_ok_prune: "mgr_ok m h \<Longrightarrow> mgr_ok (pruneExpiredLocked now h m) h"
proof (rule mgr_ok_sub, assumption)
  assume ok: "mgr_ok m h"
  show "distinct (map fst (sessions (pruneExpiredLocked now h m)))" using mgr_okD(1) [OF ok] by (rule prune_fields)
  show "distinct (map fst (activePTY (pruneExpiredLocked now h m)))" using mgr_okD(2) [OF ok] by simp
  show "map_of (sessions (pruneExpiredLocked now h m)) u = Some p \<Longrightarrow> map_of (sessions m) u = Some p" for u p
    unfolding map_of_prune [OF mgr_okD(1) [OF ok]] by (auto split: option.splits if_splits)
qed

lemma mgr_ok_update:
  assumes "mgr_ok m h" "h p = Some s" "userID s \<noteq> []"
  shows "mgr_ok (m\<lparr>sessions := AList.update (userID s) p (sessions m)\<rparr>) h"
proof (rule mgr_okI)
  let ?m = "m\<lparr>sessions := AList.update (userID s) p (sessions m)\<rparr>"
  show "distinct (map fst (sessions ?m))" "distinct (map fst (activePTY ?m))" using mgr_okD(1,2) [OF assms(1)] by simp_all
  show "u \<noteq> [] \<and> (\<exists>s. h q = Some s \<and> userID s = u)" if "map_of (sessions ?m) u = Some q" for u q
    using that assms(2,3) mgr_okD(3) [OF assms(1), of u q] by (cases "u = userID s") simp_all
qed

lemma mgr_ok_Register:
  assumes "mgr_ok m h" "h p = Some s"
  shows "mgr_ok (fst (manager_Register now h (Some p) m)) h"
  using assms mgr_ok_update [OF mgr_ok_prune [OF assms(1), of now] assms(2)]
  by (simp add: manager_Register_def user_at_def Let_def)

lemma mgr_ok_delete: "mgr_ok m h \<Longrightarrow> mgr_ok (m\<lparr>sessions := AList.delete u (sessions m)\<rparr>) h"
proof (rule mgr_ok_sub, assumption)
  let ?m = "m\<lparr>sessions := AList.delete u (sessions m)\<rparr>"
  assume ok: "mgr_ok m h"
  show "distinct (map fst (sessions ?m))" "distinct (map fst (activePTY ?m))" using mgr_okD(1,2) [OF ok] by simp_all
  show "map_of (sessions ?m) v = Some p \<Longrightarrow> map_of (sessions m) v = Some p" for v p by (simp split: if_splits)
qed

lemma mgr_ok_pty: "mgr_ok m h \<Longrightarrow> distinct (map fst a) \<Longrightarrow> mgr_ok (m\<lparr>activePTY := a, nextPTYID := n\<rparr>) h"
  by (simp add: mgr_ok_def)

lemma mgr_ok_ops:
  assumes "mgr_ok m h"
  shows "mgr_ok (removeExpired now h u q m) h" "mgr_ok (fst (manager_Get now now' h u m)) h"
    "mgr_ok (fst (LookupDaemon now h u m)) h" "mgr_ok (fst (RegisterPTY u m)) h"
    "mgr_ok (fst (UnregisterPTY u sid m)) h" "mgr_ok (manager_Remove h sp m) h" "mgr_ok (fst (UserIDs now h m)) h"
proof -
  show r: "mgr_ok (removeExpired now h u q m) h" for now q
    using assms mgr_ok_delete [OF assms] by (auto simp: removeExpired_def split: option.splits)
  show "mgr_ok (fst (manager_Get now now' h u m)) h"
    using assms r by (auto simp: manager_Get_def split: option.splits)
  show "mgr_ok (fst (LookupDaemon now h u m)) h"
    using assms mgr_ok_prune [OF assms] by (auto simp: LookupDaemon_def Let_def split: option.splits)
  show "mgr_ok (fst (RegisterPTY u m)) h" "mgr_ok (fst (UnregisterPTY u sid m)) h"
    using assms mgr_okD(2) [OF assms]
    by (simp_all add: RegisterPTY_def UnregisterPTY_def nextPTYSessionIDLocked_def Let_def mgr_ok_def
        split: option.split)
  show "mgr_ok (manager_Remove h sp m) h"
    using assms mgr_ok_delete [OF assms] by (auto simp: manager_Remove_def split: option.splits)
  show "mgr_ok (fst (UserIDs now h m)) h"
    using mgr_ok_prune [OF assms] by (simp add: UserIDs_def Let_def)
qed

text \<open>Updating a session object without changing its user keeps the registry well formed.\<close>

lemma mgr_ok_heap:
  assumes "mgr_ok m h" "h p = Some s" "userID s' = userID s" shows "mgr_ok m (h(p \<mapsto> s'))"
proof (rule mgr_okI)
  show "u \<noteq> [] \<and> (\<exists>s. (h(p \<mapsto> s')) q = Some s \<and> userID s = u)" if "map_of (sessions m) u = Some q" for u q
    using mgr_okD(3) [OF assms(1) that] assms(2,3) by auto
qed (use mgr_okD [OF assms(1)] in blast)+

lemma RetainOffline_user [simp]: "userID (fst (RetainOffline u s)) = userID s"
  by (auto simp: RetainOffline_def split: option.split)

text \<open>The three outcomes of a disconnect.\<close>

lemma HandleDisconnect_cases:
  assumes "mgr_ok m h"
  obtains (stale) "HandleDisconnect now now' e (Some p) (m, h) = (m, h)" "\<forall>u. map_of (sessions m) u \<noteq> Some p"
  | (gone) s where "h p = Some s" "map_of (sessions m) (userID s) = Some p"
      "e = Some ErrSessionReplaced \<or> offlineReadOnlyTTL m \<le> 0"
      "HandleDisconnect now now' e (Some p) (m, h) = (m\<lparr>sessions := AList.delete (userID s) (sessions m)\<rparr>, h)"
  | (kept) s where "h p = Some s" "map_of (sessions m) (userID s) = Some p"
      "e \<noteq> Some ErrSessionReplaced" "0 < offlineReadOnlyTTL m"
      "HandleDisconnect now now' e (Some p) (m, h) =
        (let h1 = h(p \<mapsto> fst (RetainOffline (Some (now + offlineReadOnlyTTL m)) s)) in (pruneExpiredLocked now' h1 m, h1))"
proof (cases "user_at h p \<noteq> [] \<and> map_of (sessions m) (user_at h p) = Some p")
  case True
  then obtain s where s: "h p = Some s" "user_at h p = userID s"
    by (cases "h p") (auto simp: user_at_def)
  with True gone kept show thesis
    by (cases "e = Some ErrSessionReplaced \<or> offlineReadOnlyTTL m \<le> 0")
      (simp_all add: HandleDisconnect_def not_le)
next
  case False
  have "user_at h p = u \<and> u \<noteq> []" if "map_of (sessions m) u = Some p" for u
    using mgr_okD(3) [OF assms that] by (auto simp: user_at_def)
  with False have "\<forall>u. map_of (sessions m) u \<noteq> Some p" by metis
  moreover have "HandleDisconnect now now' e (Some p) (m, h) = (m, h)"
    using False by (cases "user_at h p = []") (simp_all add: HandleDisconnect_def)
  ultimately show thesis using stale by blast
qed

lemma mgr_ok_HandleDisconnect:
  assumes "mgr_ok m h" "HandleDisconnect now now' e (Some p) (m, h) = (m', h')"
  shows "mgr_ok m' h'"
  using assms(1)
proof (cases rule: HandleDisconnect_cases [where now = now and now' = now' and e = e and p = p])
  case stale
  then show ?thesis using assms by simp
next
  case (gone s)
  then show ?thesis using assms mgr_ok_delete [OF assms(1)] by simp
next
  case (kept s)
  then show ?thesis
    using assms(2) mgr_ok_prune [OF mgr_ok_heap [OF assms(1) kept(1) RetainOffline_user]] by (auto simp: Let_def)
qed

section \<open>Closing a replaced session\<close>

text \<open>The channels of the pending table are open and pairwise different, as the protocol's invariant says.\<close>

definition session_chans_ok :: "session \<Rightarrow> bool" where
  "session_chans_ok s =
     (distinct (map snd (pending s)) \<and> (\<forall>ch \<in> snd ` set (pending s). \<exists>c. chans s ch = Some c \<and> \<not> ch_closed c))"

lemma close_all:
  "distinct chs \<Longrightarrow> \<forall>ch \<in> set chs. \<exists>c. chans s ch = Some c \<and> \<not> ch_closed c \<Longrightarrow>
   \<exists>s'. fold_opt chan_close chs s = Some s' \<and> closed s' = closed s \<and> closeErr s' = closeErr s \<and> pending s' = pending s
     \<and> userID s' = userID s \<and> (\<forall>ch \<in> set chs. \<exists>c. chans s' ch = Some c \<and> ch_closed c)
     \<and> (\<forall>ch. ch \<notin> set chs \<longrightarrow> chans s' ch = chans s ch)"
proof (induction chs arbitrary: s)
  case (Cons ch chs)
  then obtain c where c: "chans s ch = Some c" "\<not> ch_closed c" by auto
  let ?s = "s\<lparr>chans := (chans s)(ch \<mapsto> c\<lparr>ch_closed := True\<rparr>)\<rparr>"
  have "chan_close ch s = Some ?s" using c by (simp add: chan_close_def)
  moreover have "\<forall>k \<in> set chs. \<exists>c. chans ?s k = Some c \<and> \<not> ch_closed c" using Cons.prems by auto
  with Cons.IH [of ?s] Cons.prems(1) obtain s' where s': "fold_opt chan_close chs ?s = Some s'"
    "closed s' = closed s" "closeErr s' = closeErr s" "pending s' = pending s" "userID s' = userID s"
    "\<forall>k \<in> set chs. \<exists>c. chans s' k = Some c \<and> ch_closed c" "\<forall>k. k \<notin> set chs \<longrightarrow> chans s' k = chans ?s k"
    by auto
  moreover have "\<exists>c. chans s' ch = Some c \<and> ch_closed c" using s'(7) Cons.prems(1) by simp
  ultimately show ?case using Cons.prems(1) by (intro exI [of _ s']) auto
qed simp

lemma closeWithError_wakes:
  assumes "session_chans_ok s" "\<not> closed s"
  shows "\<exists>s'. closeWithError err s = Some s' \<and> closed s' \<and> pending s' = [] \<and> userID s' = userID s
    \<and> closeErr s' = Some (case err of None \<Rightarrow> ErrSessionClosed | Some e \<Rightarrow> e)
    \<and> (\<forall>ch \<in> snd ` set (pending s). \<exists>c. chans s' ch = Some c \<and> ch_closed c)"
proof -
  let ?e = "Some (case err of None \<Rightarrow> ErrSessionClosed | Some e \<Rightarrow> e)"
  let ?s = "s\<lparr>closeErr := ?e, closed := True, pending := []\<rparr>"
  have "distinct (map snd (pending s))" "\<forall>ch \<in> set (map snd (pending s)). \<exists>c. chans ?s ch = Some c \<and> \<not> ch_closed c"
    using assms(1) by (auto simp: session_chans_ok_def)
  from close_all [OF this] obtain s' where "fold_opt chan_close (map snd (pending s)) ?s = Some s'"
    "closed s'" "closeErr s' = ?e" "pending s' = []" "userID s' = userID s"
    "\<forall>ch \<in> set (map snd (pending s)). \<exists>c. chans s' ch = Some c \<and> ch_closed c" by auto
  moreover have "closeWithError err s = fold_opt chan_close (map snd (pending s)) ?s"
    using assms(2) by (simp add: closeWithError_def closeState_def takeAllPending_def)
  ultimately show ?thesis by (intro exI [of _ s']) auto
qed

section \<open>Properties\<close>


definition demo_mgr :: manager where
  "demo_mgr = (NewManager \<lparr>mo_RequestTimeout = 0, mo_CacheMaxBytes = 0, mo_OfflineReadOnlyTTL = 10,
      mo_PrefetchEnabled = False, mo_PrefetchMaxFileBytes = 0, mo_PrefetchMaxFilesPerDir = 0\<rparr>)\<lparr>sessions := [(''u'', 1)]\<rparr>"

definition demo_heap :: sheap where
  "demo_heap = (\<lambda>_. None)(1 \<mapsto> NewSession ''u'' 0, 2 \<mapsto> NewSession ''u'' 0)"

lemma demo_mgr_ok: "mgr_ok demo_mgr demo_heap"
  by (rule mgr_okI) (auto simp: demo_mgr_def NewManager_def demo_heap_def NewSession_def split: if_splits)


text \<open>C29: when a user reconnects, the late clean-up of the replaced session (its disconnect, its removal,
  an expiry check started earlier) never unregisters the new one.\<close>

theorem reconnect_survives_stale_cleanup:
  assumes "mgr_ok m h" "h p = Some s" "h q = Some s'" "userID s = u" "userID s' = u" "u \<noteq> []" "p \<noteq> q"
    and "manager_Register now h (Some q) m = (m1, r)"
  shows "map_of (sessions m1) u = Some q
    \<and> HandleDisconnect t1 t2 e (Some p) (m1, h) = (m1, h)
    \<and> manager_Remove h (Some p) m1 = m1 \<and> removeExpired t1 h u p m1 = m1"
proof -
  have uq: "user_at h q = u" and up: "user_at h p = u" using assms by (simp_all add: user_at_def)
  have m1: "map_of (sessions m1) u = Some q"
    using assms(6,8) by (auto simp: manager_Register_def uq Let_def)
  then show ?thesis
    using assms(6,7) up by (simp add: HandleDisconnect_def manager_Remove_def removeExpired_def)
qed

theorem reconnect_survives_stale_cleanup_witness:
  "HandleDisconnect 7 8 None (Some 1) (fst (manager_Register 5 demo_heap (Some 2) demo_mgr), demo_heap)
     = (fst (manager_Register 5 demo_heap (Some 2) demo_mgr), demo_heap)"
proof -
  have h: "demo_heap 1 = Some (NewSession ''u'' 0)" "demo_heap 2 = Some (NewSession ''u'' 0)"
    "userID (NewSession ''u'' 0) = ''u''" by (simp_all add: demo_heap_def NewSession_def)
  obtain m1 r where m1: "manager_Register 5 demo_heap (Some 2) demo_mgr = (m1, r)"
    by (cases "manager_Register 5 demo_heap (Some 2) demo_mgr")
  show ?thesis
    using reconnect_survives_stale_cleanup [OF demo_mgr_ok h(1,2,3,3) _ _ m1] by (simp add: m1)
qed

text \<open>After a disconnect with a retention time, the session stays registered as an offline read-only
  snapshot until exactly that time has passed, and is gone from then on.\<close>

theorem offline_retention:
  assumes "mgr_ok m h" "h p = Some s" "map_of (sessions m) (userID s) = Some p"
    and "e \<noteq> Some ErrSessionReplaced" "closeErr s \<noteq> Some ErrSessionReplaced" "0 < offlineReadOnlyTTL m"
    and "now' < now + offlineReadOnlyTTL m"
    and "HandleDisconnect now now' e (Some p) (m, h) = (m1, h1)"
  shows "(t < now + offlineReadOnlyTTL m \<longrightarrow>
        manager_Get t t' h1 (userID s) m1 = (m1, Some p) \<and> (\<exists>s1. h1 p = Some s1 \<and> IsOfflineReadonly t (Some t) s1))
    \<and> (now + offlineReadOnlyTTL m \<le> t \<longrightarrow> snd (manager_Get t t' h1 (userID s) m1) = None)"
proof -
  let ?ttl = "now + offlineReadOnlyTTL m"
  let ?s1 = "s\<lparr>offlineUntil := Some ?ttl, closeErr := Some ErrSessionOffline\<rparr>"
  have uid: "userID s \<noteq> []" using mgr_okD(3) [OF assms(1,3)] by simp
  have h1: "h1 = h(p \<mapsto> ?s1)" and m1: "m1 = pruneExpiredLocked now' h1 m"
    using assms(2-8) uid by (auto simp: HandleDisconnect_def user_at_def RetainOffline_def Let_def)
  have ex: "expired_at x h1 p \<longleftrightarrow> ?ttl \<le> x" for x
    by (auto simp: expired_at_def h1 IsExpired_def or_clock_def)
  have reg: "map_of (sessions m1) (userID s) = Some p"
    unfolding m1 map_of_prune [OF mgr_okD(1) [OF assms(1)]] using assms(3,7) ex by simp
  show ?thesis
    using ex [of t] reg by (auto simp: manager_Get_def h1 IsOfflineReadonly_def or_clock_def)
qed

theorem offline_retention_witness:
  "manager_Get 12 12 (snd (HandleDisconnect 5 6 None (Some 1) (demo_mgr, demo_heap))) ''u''
       (fst (HandleDisconnect 5 6 None (Some 1) (demo_mgr, demo_heap)))
     = (fst (HandleDisconnect 5 6 None (Some 1) (demo_mgr, demo_heap)), Some 1)"
proof -
  have h: "demo_heap 1 = Some (NewSession ''u'' 0)" "map_of (sessions demo_mgr) (userID (NewSession ''u'' 0)) = Some 1"
    "closeErr (NewSession ''u'' 0) \<noteq> Some ErrSessionReplaced" "offlineReadOnlyTTL demo_mgr = 10" "userID (NewSession ''u'' 0) = ''u''"
    by (simp_all add: demo_heap_def NewSession_def demo_mgr_def NewManager_def)
  obtain m1 h1 where d: "HandleDisconnect 5 6 None (Some 1) (demo_mgr, demo_heap) = (m1, h1)"
    by (cases "HandleDisconnect 5 6 None (Some 1) (demo_mgr, demo_heap)")
  show ?thesis
    using offline_retention [OF demo_mgr_ok h(1,2) _ h(3) _ _ d, of 12 12] h by (simp add: d del: One_nat_def)
qed

text \<open>A user has at most one PTY: while one is registered a second is refused, only its own identifier
  releases it, and other users are not affected.\<close>

theorem pty_slot_exclusive:
  assumes "RegisterPTY u m = (m1, Inr sid)"
  shows "map_of (activePTY m) u = None \<and> map_of (activePTY m1) u = Some sid
    \<and> RegisterPTY u m1 = (m1, Inl ErrPTYBusy)
    \<and> (\<forall>sid'. sid' \<noteq> sid \<longrightarrow> UnregisterPTY u sid' m1 = (m1, False))
    \<and> snd (UnregisterPTY u sid m1) \<and> map_of (activePTY (fst (UnregisterPTY u sid m1))) u = None
    \<and> (\<forall>v. v \<noteq> u \<longrightarrow> map_of (activePTY m1) v = map_of (activePTY m) v)"
  using assms
  by (auto simp: RegisterPTY_def UnregisterPTY_def nextPTYSessionIDLocked_def Let_def split: if_splits)

lemma decimal_1: "decimal (Suc 0) = ''1''"
  by code_simp

theorem pty_slot_exclusive_witness:
  "RegisterPTY ''u'' (fst (RegisterPTY ''u'' demo_mgr)) = (fst (RegisterPTY ''u'' demo_mgr), Inl ErrPTYBusy)"
proof -
  have "RegisterPTY ''u'' demo_mgr = (fst (RegisterPTY ''u'' demo_mgr), Inr ''u-pty-1'')"
    using decimal_1 by (simp add: RegisterPTY_def demo_mgr_def NewManager_def nextPTYSessionIDLocked_def)
  from pty_slot_exclusive [OF this] show ?thesis by blast
qed

lemma last_sep_inject:
  "c \<notin> set ys \<Longrightarrow> c \<notin> set ys' \<Longrightarrow> xs @ c # ys = xs' @ c # ys' \<longleftrightarrow> xs = xs' \<and> ys = ys'"
proof -
  assume c: "c \<notin> set ys" "c \<notin> set ys'"
  have "xs @ c # ys = xs' @ c # ys' \<longleftrightarrow> rev ys @ c # rev xs = rev ys' @ c # rev xs'"
    by (metis append_assoc append_Cons append_Nil rev.simps(2) rev_append rev_rev_ident)
  then show ?thesis using c append_sep_inject [of "rev ys" c "rev xs" "rev ys'" "rev xs'"] by auto
qed

text \<open>A PTY identifier determines the user and the counter it was made from, so two registrations get
  the same identifier only for the same user and the same counter value.\<close>

theorem pty_id_injective:
  "snd (nextPTYSessionIDLocked u m) = snd (nextPTYSessionIDLocked u' m') \<longleftrightarrow> u = u' \<and> nextPTYID m = nextPTYID m'"
proof -
  have d: "CHR ''-'' \<notin> set (decimal n)" for n
  proof
    assume "CHR ''-'' \<in> set (decimal n)"
    then obtain d where d: "d < 10" "CHR ''-'' = (char_of (48 + d :: nat) :: char)" using decimal_digits by blast
    have "of_char (CHR ''-'') = (48 + d :: nat)" unfolding d(2) using d(1) by (rule of_char_digit)
    then show False by simp
  qed
  have "u @ ''-pty'' @ CHR ''-'' # decimal a = u' @ ''-pty'' @ CHR ''-'' # decimal b \<longleftrightarrow> u = u' \<and> a = b" for a b
    using last_sep_inject [OF d d, of "u @ ''-pty''" a "u' @ ''-pty''" b] by simp
  then show ?thesis by (simp add: nextPTYSessionIDLocked_def Let_def word_unat_eq_iff [symmetric])
qed

lemma Bootstrap_user: "Bootstrap now msg s = (s', None) \<Longrightarrow> userID s' = userID s"
  by (auto simp: Bootstrap_def replaceTree_def touchHeartbeat_def clearContentCache_def
      split: option.splits daemon_msg.splits sum.splits)

text \<open>A second connection of a user that bootstraps takes over: it is the user's registered session, and
  the previous one is closed with the replacement error and every request waiting in it is woken.\<close>

theorem reconnect_replaces:
  assumes "mgr_ok m h" "h p = None" "uid \<noteq> []" "Bootstrap now msg (manager_NewSession m uid) = (s, None)"
    and "map_of (sessions m) uid = Some q" "h q = Some old" "\<not> IsExpired now (Some now) old"
    and "\<not> closed old" "session_chans_ok old"
  shows "\<exists>m1 h1 old'. Connect_open now (Some uid) (Inr msg) p (m, h) = Some ((m1, h1), Inr p)
    \<and> map_of (sessions m1) uid = Some p \<and> h1 p = Some s \<and> h1 q = Some old'
    \<and> closed old' \<and> closeErr old' = Some ErrSessionReplaced \<and> pending old' = []
    \<and> (\<forall>ch \<in> snd ` set (pending old). \<exists>c. chans old' ch = Some c \<and> ch_closed c)"
proof -
  let ?h = "h(p \<mapsto> s)" and ?m = "pruneExpiredLocked now (h(p \<mapsto> s)) m"
  have u: "userID s = uid" using Bootstrap_user [OF assms(4)] by (simp add: manager_NewSession_def NewSession_def)
  have pq: "p \<noteq> q" using assms(2,6) by auto
  obtain old' where o: "closeWithError (Some ErrSessionReplaced) old = Some old'" "closed old'" "pending old' = []"
    "closeErr old' = Some ErrSessionReplaced" "\<forall>ch \<in> snd ` set (pending old). \<exists>c. chans old' ch = Some c \<and> ch_closed c"
    using closeWithError_wakes [OF assms(9,8), of "Some ErrSessionReplaced"] by auto
  have "map_of (sessions ?m) uid = Some q"
    unfolding map_of_prune [OF mgr_okD(1) [OF assms(1)]] using assms(5-7) pq by (simp add: expired_at_def)
  then have r: "manager_Register now ?h (Some p) m = (?m\<lparr>sessions := AList.update uid p (sessions ?m)\<rparr>, Inr (Some q))"
    using assms(3) u by (simp add: manager_Register_def user_at_def Let_def)
  have "Connect_open now (Some uid) (Inr msg) p (m, h) =
      Some ((?m\<lparr>sessions := AList.update uid p (sessions ?m)\<rparr>, ?h(q \<mapsto> old')), Inr p)"
    using assms(4,6) pq o(1) by (simp add: Connect_open_def r Let_def)
  then show ?thesis using o pq by simp
qed

theorem reconnect_replaces_witness:
  "\<exists>m1 h1. Connect_open 5 (Some ''u'') (Inr (Some (MsgFileTree (Some demo_boot)))) 9 (demo_mgr, demo_heap) = Some ((m1, h1), Inr 9)"
proof -
  let ?msg = "Some (MsgFileTree (Some demo_boot))" and ?new = "manager_NewSession demo_mgr ''u''"
  have "snd (Bootstrap 5 ?msg ?new) = None" by code_simp
  then have b: "Bootstrap 5 ?msg ?new = (fst (Bootstrap 5 ?msg ?new), None)" by (metis prod.collapse)
  have h: "demo_heap 9 = None" "demo_heap 1 = Some (NewSession ''u'' 0)" "map_of (sessions demo_mgr) ''u'' = Some 1"
    by (simp_all add: demo_heap_def demo_mgr_def)
  have o: "\<not> IsExpired 5 (Some 5) (NewSession ''u'' 0)" "\<not> closed (NewSession ''u'' 0)" "session_chans_ok (NewSession ''u'' 0)"
    by (simp_all add: NewSession_def IsExpired_def session_chans_ok_def)
  show ?thesis using reconnect_replaces [OF demo_mgr_ok h(1) _ b h(3,2) o] by auto
qed

end
