(* ===== verification/View.thy ===== *)
theory View
  imports Manager
begin

text \<open>
  The file-system view of the sessions, \<open>src/pkg/fusefs/view.go\<close> and \<open>prefetch.go\<close>: lookups, listings,
  cached reads, the mutating operations that go through a daemon request, and the classification of their
  errors. The world is the manager with the heap of sessions. A request is the argument \<open>env\<close>: it maps the
  world in which \<open>Request\<close> is called to the world in which it returns (other goroutines may have changed
  it) and to what it returns; the protocol itself is in \<open>Session_Conc\<close>. The clock does not advance within
  one operation, the manager is not nil (\<open>validateOptions\<close> refuses one), and a wrapped error is its
  sentinel: the text after it is dropped.
\<close>

section \<open>Definitions\<close>

datatype ferr =
  FErrNilManager | ErrEmptyMountpoint | FErrSessionOffline | ErrPathNotFound | ErrNotDirectory | ErrIsDirectory
| ErrReadFailed | ErrPermissionDenied | ErrAlreadyExists | ErrDirectoryNotEmpty | ErrCrossDevice
| ErrInvalidArgument | ErrIOFailed | ErrRequestTimeout | ErrSessionFailed | CtxCanceled

text \<open>What \<open>Request\<close> returns as an error: the two context errors and the session's own.\<close>

datatype req_err = ReqDeadline | ReqCanceled | ReqSess sess_error

record world =
  w_mgr :: manager
  w_heap :: sheap

text \<open>The record is extensible: the rest of a larger system can be carried along, and the operations below do not touch it.\<close>

type_synonym 'w env = "'w world_scheme \<Rightarrow> nat \<Rightarrow> file_request \<Rightarrow> 'w world_scheme \<times> (req_err + file_response option)"

record options =
  o_Mountpoint :: string
  o_Manager :: "manager option"
  o_EntryTimeout :: int
  o_AttrTimeout :: int
  o_NegativeTimeout :: int

definition validateOptions :: "options \<Rightarrow> ferr option" where
  "validateOptions opts =
     (if o_Manager opts = None then Some FErrNilManager
      else if trim_space (o_Mountpoint opts) = [] then Some ErrEmptyMountpoint
      else None)"

definition defaultedOptions :: "options \<Rightarrow> options" where
  "defaultedOptions opts =
     (let o1 = (if o_EntryTimeout opts \<le> 0 then opts\<lparr>o_EntryTimeout := 1000000000\<rparr> else opts)
      in if o_AttrTimeout o1 \<le> 0 then o1\<lparr>o_AttrTimeout := 1000000000\<rparr> else o1)"

text \<open>Dereferencing a session pointer and updating the object behind it.\<close>

definition session_at :: "'w world_scheme \<Rightarrow> nat \<Rightarrow> session" where
  "session_at w p = (case w_heap w p of Some s \<Rightarrow> s | None \<Rightarrow> NewSession [] 0)"

definition upd_session :: "nat \<Rightarrow> session \<Rightarrow> 'w world_scheme \<Rightarrow> 'w world_scheme" where
  "upd_session p s w = w\<lparr>w_heap := (w_heap w)(p \<mapsto> s)\<rparr>"

subsection \<open>Errors\<close>

fun contains :: "string \<Rightarrow> string \<Rightarrow> bool" where
  "contains [] sub = (sub = [])"
| "contains (c # cs) sub = (prefix sub (c # cs) \<or> contains cs sub)"

definition classifyError :: "string \<Rightarrow> ferr" where
  "classifyError msg =
     (let lower = to_lower msg in
      if contains lower ''no such file'' \<or> contains lower ''cannot find the file'' \<or> contains lower ''cannot find the path''
      then ErrPathNotFound
      else if contains lower ''permission denied'' \<or> contains lower ''access is denied'' then ErrPermissionDenied
      else if contains lower ''file exists'' \<or> contains lower ''already exists'' then ErrAlreadyExists
      else if contains lower ''not a directory'' then ErrNotDirectory
      else if contains lower ''is a directory'' then ErrIsDirectory
      else if contains lower ''directory not empty'' then ErrDirectoryNotEmpty
      else if contains lower ''cross-device'' \<or> contains lower ''invalid cross-device'' then ErrCrossDevice
      else if contains lower ''invalid argument'' then ErrInvalidArgument
      else ErrIOFailed)"

text \<open>The result \<open>None\<close> is Go's nil error.\<close>

definition classifyRequestErr :: "req_err option \<Rightarrow> string \<Rightarrow> ferr option" where
  "classifyRequestErr reqErr respErr =
     (case reqErr of
        Some ReqDeadline \<Rightarrow> Some ErrRequestTimeout
      | Some ReqCanceled \<Rightarrow> Some CtxCanceled
      | Some (ReqSess ErrSessionOffline) \<Rightarrow> Some FErrSessionOffline
      | Some (ReqSess e) \<Rightarrow> Some ErrSessionFailed
      | None \<Rightarrow> if respErr = [] then None else Some (classifyError respErr))"

subsection \<open>Sessions and metadata\<close>

definition requireSession :: "int \<Rightarrow> string \<Rightarrow> 'w world_scheme \<Rightarrow> 'w world_scheme \<times> (ferr + nat)" where
  "requireSession clock uid w =
     (let (m, r) = manager_Get clock clock (w_heap w) uid (w_mgr w)
      in (w\<lparr>w_mgr := m\<rparr>, case r of None \<Rightarrow> Inl FErrSessionOffline | Some p \<Rightarrow> Inr p))"

definition is_root_path :: "string \<Rightarrow> bool" where
  "is_root_path rel = (rel = [] \<or> rel = ''.'' \<or> rel = [slash])"

definition lookupInfo :: "int \<Rightarrow> string \<Rightarrow> string \<Rightarrow> 'w world_scheme \<Rightarrow> 'w world_scheme \<times> (ferr + file_info)" where
  "lookupInfo clock uid rel w =
     (case requireSession clock uid w of
        (w1, Inl e) \<Rightarrow> (w1, Inl e)
      | (w1, Inr p) \<Rightarrow>
          if is_root_path rel then (w1, Inr (zero_info\<lparr>fi_is_dir := True, fi_mode := 365\<rparr>))
          else (case session_Lookup (session_at w1 p) rel of
                  None \<Rightarrow> (w1, Inl ErrPathNotFound)
                | Some i \<Rightarrow> (w1, Inr i)))"

definition listInfos :: "int \<Rightarrow> string \<Rightarrow> string \<Rightarrow> 'w world_scheme \<Rightarrow> 'w world_scheme \<times> (ferr + file_info list)" where
  "listInfos clock uid rel w =
     (case requireSession clock uid w of
        (w1, Inl e) \<Rightarrow> (w1, Inl e)
      | (w1, Inr p) \<Rightarrow>
          let listed = (case session_List (session_at w1 p) rel of None \<Rightarrow> (w1, Inl ErrNotDirectory) | Some is \<Rightarrow> (w1, Inr is))
          in if \<not> is_root_path rel
             then (case session_Lookup (session_at w1 p) rel of
                     None \<Rightarrow> (w1, Inl ErrPathNotFound)
                   | Some i \<Rightarrow> if \<not> fi_is_dir i then (w1, Inl ErrNotDirectory) else listed)
             else listed)"

definition workspaceNameFor :: "int \<Rightarrow> string \<Rightarrow> 'w world_scheme \<Rightarrow> 'w world_scheme \<times> (ferr + string)" where
  "workspaceNameFor clock uid w =
     (case requireSession clock uid w of
        (w1, Inl e) \<Rightarrow> (w1, Inl e)
      | (w1, Inr p) \<Rightarrow>
          if workspaceName (session_at w1 p) = [] then (w1, Inl ErrPathNotFound)
          else (w1, Inr (workspaceName (session_at w1 p))))"

subsection \<open>Reading\<close>

text \<open>\<open>data[a:b]\<close>, which panics out of range.\<close>

definition go_slice :: "bytes \<Rightarrow> int \<Rightarrow> int \<Rightarrow> bytes option" where
  "go_slice data a b =
     (if 0 \<le> a \<and> a \<le> b \<and> b \<le> int (length data) then Some (take (nat (b - a)) (drop (nat a) data)) else None)"

definition sliceReadContent :: "bytes \<Rightarrow> int \<Rightarrow> int \<Rightarrow> bytes option" where
  "sliceReadContent data offset sz =
     (let tot = int (length data);
          off = (if offset < 0 then 0 else offset)
      in if off \<ge> tot then Some []
         else go_slice data off (if 0 < sz \<and> sz < int64_wrap (tot - off) then int64_wrap (off + sz) else tot))"

definition shouldUseContentCache :: "manager \<Rightarrow> file_info option \<Rightarrow> bool" where
  "shouldUseContentCache m info =
     (case info of
        None \<Rightarrow> False
      | Some i \<Rightarrow> if fi_is_dir i then False
                  else 0 < cacheMaxBytes m \<and> 0 \<le> fi_size i \<and> fi_size i \<le> cacheMaxBytes m)"

definition read_request :: "string \<Rightarrow> int \<Rightarrow> int \<Rightarrow> file_request" where
  "read_request rel off len =
     \<lparr>rq_id = [], rq_op = Some (OpRead (Some \<lparr>rd_path = rel, rd_offset = off, rd_length = len\<rparr>))\<rparr>"

text \<open>A failed response with an empty error text classifies as no error: the content is then empty.\<close>

definition requestRead :: "int \<Rightarrow> 'w env \<Rightarrow> nat \<Rightarrow> string \<Rightarrow> int \<Rightarrow> int \<Rightarrow> 'w world_scheme \<Rightarrow> 'w world_scheme \<times> (ferr + bytes)" where
  "requestRead clock env p rel off len w =
     (if IsOfflineReadonly clock None (session_at w p) then (w, Inl FErrSessionOffline)
      else
        (case env w p (read_request rel off len) of
           (w1, Inl e) \<Rightarrow> (w1, case classifyRequestErr (Some e) [] of Some e \<Rightarrow> Inl e | None \<Rightarrow> Inr [])
         | (w1, Inr None) \<Rightarrow> (w1, Inl ErrReadFailed)
         | (w1, Inr (Some resp)) \<Rightarrow>
             if \<not> rp_success resp
             then (w1, case classifyRequestErr None (rp_error resp) of Some e \<Rightarrow> Inl e | None \<Rightarrow> Inr [])
             else (w1, Inr (resp_content resp))))"

text \<open>The outcome \<open>None\<close> is a slice out of range.\<close>

definition readChunk ::
  "int \<Rightarrow> 'w env \<Rightarrow> string \<Rightarrow> string \<Rightarrow> int \<Rightarrow> int \<Rightarrow> 'w world_scheme \<Rightarrow> ('w world_scheme \<times> (ferr + bytes)) option" where
  "readChunk clock env uid rel off sz w =
     (case lookupInfo clock uid rel w of
        (w1, Inl e) \<Rightarrow> Some (w1, Inl e)
      | (w1, Inr info) \<Rightarrow>
          if fi_is_dir info then Some (w1, Inl ErrIsDirectory)
          else
            (case requireSession clock uid w1 of
               (w2, Inl e) \<Rightarrow> Some (w2, Inl e)
             | (w2, Inr p) \<Rightarrow>
                 (let sz = (if sz < 0 then 0 else sz);
                      (s, cached) = GetCachedContent rel (Some info) (session_at w2 p);
                      w3 = upd_session p s w2
                  in case cached of
                       Some data \<Rightarrow> map_option (\<lambda>d. (w3, Inr d)) (sliceReadContent data off sz)
                     | None \<Rightarrow>
                         if IsOfflineReadonly clock None s then Some (w3, Inl FErrSessionOffline)
                         else if shouldUseContentCache (w_mgr w3) (Some info)
                         then (case requestRead clock env p rel 0 0 w3 of
                                 (w4, Inl e) \<Rightarrow> Some (w4, Inl e)
                               | (w4, Inr data) \<Rightarrow>
                                   (let w5 = upd_session p (fst (PutCachedContent rel (Some info) data (session_at w4 p))) w4
                                    in map_option (\<lambda>d. (w5, Inr d)) (sliceReadContent data off sz)))
                         else Some (requestRead clock env p rel off sz w3))))"

subsection \<open>Mutating operations\<close>

text \<open>\<open>Inr None\<close> is the nil response and nil session that a failed response with an empty error text
  leads to.\<close>

definition requestFileOp ::
  "int \<Rightarrow> 'w env \<Rightarrow> string \<Rightarrow> operation \<Rightarrow> 'w world_scheme \<Rightarrow> 'w world_scheme \<times> (ferr + (file_response \<times> nat) option)" where
  "requestFileOp clock env uid op w =
     (case requireSession clock uid w of
        (w1, Inl e) \<Rightarrow> (w1, Inl e)
      | (w1, Inr p) \<Rightarrow>
          if IsOfflineReadonly clock None (session_at w1 p) then (w1, Inl FErrSessionOffline)
          else
            (case env w1 p \<lparr>rq_id = [], rq_op = Some op\<rparr> of
               (w2, Inl e) \<Rightarrow> (w2, case classifyRequestErr (Some e) [] of Some e \<Rightarrow> Inl e | None \<Rightarrow> Inr None)
             | (w2, Inr None) \<Rightarrow> (w2, Inl ErrIOFailed)
             | (w2, Inr (Some resp)) \<Rightarrow>
                 if \<not> rp_success resp
                 then (w2, case classifyRequestErr None (rp_error resp) of Some e \<Rightarrow> Inl e | None \<Rightarrow> Inr None)
                 else (w2, Inr (Some (resp, p)))))"

text \<open>Writing, creating, making a directory and truncating all apply the returned metadata.\<close>

definition apply_info_op :: "int \<Rightarrow> 'w env \<Rightarrow> string \<Rightarrow> operation \<Rightarrow> 'w world_scheme \<Rightarrow> 'w world_scheme \<times> ferr option" where
  "apply_info_op clock env uid op w =
     (case requestFileOp clock env uid op w of
        (w1, Inl e) \<Rightarrow> (w1, Some e)
      | (w1, Inr None) \<Rightarrow> (w1, Some ErrIOFailed)
      | (w1, Inr (Some (resp, p))) \<Rightarrow>
          if resp_info resp = None then (w1, Some ErrIOFailed)
          else (upd_session p (ApplyWriteResult (resp_info resp) (session_at w1 p)) w1, None))"

definition writeChunk :: "int \<Rightarrow> 'w env \<Rightarrow> string \<Rightarrow> string \<Rightarrow> int \<Rightarrow> bytes \<Rightarrow> 'w world_scheme \<Rightarrow> 'w world_scheme \<times> ferr option" where
  "writeChunk clock env uid rel offset data =
     apply_info_op clock env uid
       (OpWrite (Some \<lparr>wr_path = rel, wr_content = data, wr_append = False, wr_mode = 0, wr_offset = offset\<rparr>))"

definition createFile :: "int \<Rightarrow> 'w env \<Rightarrow> string \<Rightarrow> string \<Rightarrow> 'w world_scheme \<Rightarrow> 'w world_scheme \<times> ferr option" where
  "createFile clock env uid rel =
     apply_info_op clock env uid
       (OpWrite (Some \<lparr>wr_path = rel, wr_content = [], wr_append = False, wr_mode = 420, wr_offset = 0\<rparr>))"

definition mkdirAt :: "int \<Rightarrow> 'w env \<Rightarrow> string \<Rightarrow> string \<Rightarrow> bool \<Rightarrow> 'w world_scheme \<Rightarrow> 'w world_scheme \<times> ferr option" where
  "mkdirAt clock env uid rel recursive =
     apply_info_op clock env uid (OpMkdir (Some \<lparr>mk_path = rel, mk_recursive = recursive\<rparr>))"

definition truncatePath :: "int \<Rightarrow> 'w env \<Rightarrow> string \<Rightarrow> string \<Rightarrow> int \<Rightarrow> 'w world_scheme \<Rightarrow> 'w world_scheme \<times> ferr option" where
  "truncatePath clock env uid rel sz =
     apply_info_op clock env uid (OpTruncate (Some \<lparr>tr_path = rel, tr_size = sz\<rparr>))"

text \<open>\<open>removePath\<close> does not look at the response; on the nil session \<open>ApplyDelete\<close> does nothing.\<close>

definition removePath :: "int \<Rightarrow> 'w env \<Rightarrow> string \<Rightarrow> string \<Rightarrow> 'w world_scheme \<Rightarrow> 'w world_scheme \<times> ferr option" where
  "removePath clock env uid rel w =
     (case requestFileOp clock env uid (OpDelete (Some rel)) w of
        (w1, Inl e) \<Rightarrow> (w1, Some e)
      | (w1, Inr None) \<Rightarrow> (w1, None)
      | (w1, Inr (Some (resp, p))) \<Rightarrow> (upd_session p (ApplyDelete rel (session_at w1 p)) w1, None))"

definition renamePath :: "int \<Rightarrow> 'w env \<Rightarrow> string \<Rightarrow> string \<Rightarrow> string \<Rightarrow> 'w world_scheme \<Rightarrow> 'w world_scheme \<times> ferr option" where
  "renamePath clock env uid oldRel newRel w =
     (case requestFileOp clock env uid (OpRename (Some \<lparr>rn_old_path = oldRel, rn_new_path = newRel\<rparr>)) w of
        (w1, Inl e) \<Rightarrow> (w1, Some e)
      | (w1, Inr None) \<Rightarrow> (w1, Some ErrIOFailed)
      | (w1, Inr (Some (resp, p))) \<Rightarrow>
          if resp_info resp = None then (w1, Some ErrIOFailed)
          else (upd_session p (ApplyRename oldRel (resp_info resp) (session_at w1 p)) w1, None))"

subsection \<open>Prefetching\<close>

definition shouldPrefetchFile :: "manager \<Rightarrow> session \<Rightarrow> file_info option \<Rightarrow> session \<times> bool" where
  "shouldPrefetchFile m s info =
     (case info of
        None \<Rightarrow> (s, False)
      | Some i \<Rightarrow>
          if fi_is_dir i \<or> fi_path i = [] \<or> fi_size i \<le> 0 then (s, False)
          else if fi_size i > prefetchMaxFileBytes m \<or> \<not> shouldUseContentCache m info then (s, False)
          else (let (s1, cached) = GetCachedContent (fi_path i) info s in (s1, cached = None)))"

fun prefetch_filter :: "manager \<Rightarrow> file_info list \<Rightarrow> session \<Rightarrow> session \<times> file_info list" where
  "prefetch_filter m [] s = (s, [])"
| "prefetch_filter m (i # is) s =
     (let (s1, ok) = shouldPrefetchFile m s (Some i); (s2, rest) = prefetch_filter m is s1
      in (s2, if ok then i # rest else rest))"

definition prefetchCandidates :: "manager \<Rightarrow> file_info list \<Rightarrow> session \<Rightarrow> session \<times> file_info list" where
  "prefetchCandidates m infos s =
     (if \<not> prefetchEnabled m then (s, [])
      else if cacheMaxBytes m \<le> 0 \<or> prefetchMaxFileBytes m \<le> 0 \<or> prefetchMaxFilesPerDir m \<le> 0 then (s, [])
      else
        (let (s1, ok) = prefetch_filter m infos s;
             srt = sort_key fi_path ok
         in (s1, if int (length srt) > prefetchMaxFilesPerDir m then take (nat (prefetchMaxFilesPerDir m)) srt else srt)))"

text \<open>The goroutines to start: one per candidate whose path is not being fetched already.\<close>

fun start_each :: "file_info list \<Rightarrow> session \<Rightarrow> session \<times> file_info list" where
  "start_each [] s = (s, [])"
| "start_each (i # is) s =
     (let (s1, started) = TryStartPrefetch (fi_path i) s; (s2, rest) = start_each is s1
      in (s2, if started then i # rest else rest))"

definition startPrefetch :: "int \<Rightarrow> string \<Rightarrow> file_info list \<Rightarrow> 'w world_scheme \<Rightarrow> 'w world_scheme \<times> file_info list" where
  "startPrefetch clock uid infos w =
     (case requireSession clock uid w of
        (w1, Inl e) \<Rightarrow> (w1, [])
      | (w1, Inr p) \<Rightarrow>
          if IsOfflineReadonly clock None (session_at w1 p) then (w1, [])
          else (let (s1, cands) = prefetchCandidates (w_mgr w1) infos (session_at w1 p); (s2, started) = start_each cands s1
                in (upd_session p s2 w1, started)))"

definition prefetchFile :: "int \<Rightarrow> 'w env \<Rightarrow> nat \<Rightarrow> file_info \<Rightarrow> 'w world_scheme \<Rightarrow> 'w world_scheme" where
  "prefetchFile clock env p i w =
     (let rel = fi_path i;
          (s, cached) = GetCachedContent rel (Some i) (session_at w p);
          w1 = upd_session p s w;
          w2 = (if cached \<noteq> None then w1
                else (case requestRead clock env p rel 0 0 w1 of
                        (w', Inl e) \<Rightarrow> w'
                      | (w', Inr data) \<Rightarrow> upd_session p (fst (PutCachedContent rel (Some i) data (session_at w' p))) w'))
      in upd_session p (FinishPrefetch rel (session_at w2 p)) w2)"

section \<open>Reads\<close>

text \<open>What a read of \<open>len\<close> bytes at \<open>off\<close> means; no length means the rest of the file.\<close>

definition read_slice :: "bytes \<Rightarrow> int \<Rightarrow> int \<Rightarrow> bytes" where
  "read_slice data off len =
     (let rest = drop (nat off) data in if 0 < len then take (nat len) rest else rest)"

lemma sliceReadContent_eq:
  assumes "int (length data) < 2 ^ 63" "is_int64 len"
  shows "sliceReadContent data off len = Some (read_slice data off len)"
proof (cases "int (length data) \<le> max 0 off")
  case True
  then have "sliceReadContent data off len = Some []"
    by (auto simp: sliceReadContent_def Let_def max_def split: if_splits)
  moreover have "length data \<le> nat off" using True by linarith
  ultimately show ?thesis by (simp add: read_slice_def)
next
  case False
  define m where "m = max 0 off"
  let ?t = "int (length data)"
  have o: "0 \<le> m" "m < ?t" "nat m = nat off" "(if off < 0 then 0 else off) = m" using False by (auto simp: m_def)
  have w: "int64_wrap (?t - m) = ?t - m" using o assms(1) by (intro int64_wrap_id) (simp add: is_int64_def)
  have s: "sliceReadContent data off len =
      go_slice data m (if 0 < len \<and> len < ?t - m then int64_wrap (m + len) else ?t)"
    using o(2) w by (simp add: sliceReadContent_def Let_def o(4))
  show ?thesis
  proof (cases "0 < len \<and> len < ?t - m")
    case True
    then have "int64_wrap (m + len) = m + len"
      using o assms(1) by (intro int64_wrap_id) (simp add: is_int64_def)
    then show ?thesis using True o by (simp add: s go_slice_def read_slice_def)
  next
    case long: False
    have "take (nat (?t - m)) (drop (nat off) data) = drop (nat off) data" using o by (intro take_all) simp
    moreover have "take (nat len) (drop (nat off) data) = drop (nat off) data" if "0 < len"
      using long that o by (intro take_all) simp
    ultimately show ?thesis using long o by (auto simp: s go_slice_def read_slice_def)
  qed
qed

lemma read_slice_twice: "read_slice (read_slice data 0 0) off len = read_slice data off len"
  by (simp add: read_slice_def)

lemma Get_Put_fields:
  "fst (GetCachedContent rel i s) = s\<lparr>scache := scache (fst (GetCachedContent rel i s))\<rparr>"
  "fst (PutCachedContent rel i b s) = s\<lparr>scache := scache (fst (PutCachedContent rel i b s))\<rparr>"
  by (cases i; cases "cache_Get (scache s) rel (signatureFromInfo i)"; simp add: GetCachedContent_def)
    (cases i; cases "cache_Put (scache s) rel (signatureFromInfo i) b"; simp add: PutCachedContent_def)

lemma offline_scache [simp]: "IsOfflineReadonly c n (s\<lparr>scache := x\<rparr>) = IsOfflineReadonly c n s"
  by (simp add: IsOfflineReadonly_def)

lemma offline_Get [simp]: "IsOfflineReadonly c n (fst (GetCachedContent rel i s)) = IsOfflineReadonly c n s"
  by (subst Get_Put_fields(1)) simp

lemma session_at_upd [simp]: "session_at (upd_session p s w) q = (if q = p then s else session_at w q)"
  by (simp add: session_at_def upd_session_def)

lemma w_mgr_upd [simp]: "w_mgr (upd_session p s w) = w_mgr w"
  by (simp add: upd_session_def)

text \<open>The steps of \<open>readChunk\<close> up to the cache, when the session is there and the path is a file.\<close>

lemma readChunk_file:
  assumes "requireSession clock uid w = (w, Inr p)" "\<not> is_root_path rel"
    and "session_Lookup (session_at w p) rel = Some i" "\<not> fi_is_dir i"
  shows "readChunk clock env uid rel off sz w =
     (let sz = max 0 sz; s = fst (GetCachedContent rel (Some i) (session_at w p)); w3 = upd_session p s w
      in case snd (GetCachedContent rel (Some i) (session_at w p)) of
           Some data \<Rightarrow> map_option (\<lambda>d. (w3, Inr d)) (sliceReadContent data off sz)
         | None \<Rightarrow>
             if IsOfflineReadonly clock None (session_at w p) then Some (w3, Inl FErrSessionOffline)
             else if shouldUseContentCache (w_mgr w) (Some i)
             then (case requestRead clock env p rel 0 0 w3 of
                     (w4, Inl e) \<Rightarrow> Some (w4, Inl e)
                   | (w4, Inr data) \<Rightarrow>
                       map_option (\<lambda>d. (upd_session p (fst (PutCachedContent rel (Some i) data (session_at w4 p))) w4, Inr d))
                         (sliceReadContent data off sz))
             else Some (requestRead clock env p rel off sz w3))"
proof -
  have l: "lookupInfo clock uid rel w = (w, Inr i)" using assms by (simp add: lookupInfo_def)
  show ?thesis
    unfolding readChunk_def l using assms(1,4)
    by (simp add: Let_def case_prod_unfold max_def not_less split: option.split sum.split)
qed


text \<open>While a session is offline read-only, no operation of the view sends a request: mutations fail with
  the offline error and change nothing, and a read is answered from the cache or fails with it.\<close>

theorem offline_sends_nothing:
  assumes "requireSession clock uid w = (w, Inr p)" "IsOfflineReadonly clock None (session_at w p)"
  shows "writeChunk clock env uid rel off data w = (w, Some FErrSessionOffline)
    \<and> createFile clock env uid rel w = (w, Some FErrSessionOffline)
    \<and> mkdirAt clock env uid rel b w = (w, Some FErrSessionOffline)
    \<and> truncatePath clock env uid rel n w = (w, Some FErrSessionOffline)
    \<and> removePath clock env uid rel w = (w, Some FErrSessionOffline)
    \<and> renamePath clock env uid rel rel' w = (w, Some FErrSessionOffline)
    \<and> readChunk clock env uid rel off sz w = readChunk clock env' uid rel off sz w"
proof -
  have "requestFileOp clock env uid op w = (w, Inl FErrSessionOffline)" for op
    using assms by (simp add: requestFileOp_def)
  moreover have "readChunk clock env uid rel off sz w = readChunk clock env' uid rel off sz w"
  proof (cases "lookupInfo clock uid rel w")
    case (Pair w1 r)
    show ?thesis
    proof (cases r)
      case (Inl e)
      then show ?thesis by (simp add: readChunk_def Pair)
    next
      case (Inr i)
      have w1: "w1 = w" using Pair assms(1) by (auto simp: lookupInfo_def split: option.splits if_splits)
      show ?thesis
        unfolding readChunk_def Pair Inr using assms
        by (auto simp: w1 Let_def case_prod_unfold split: option.split)
    qed
  qed
  ultimately show ?thesis
    by (simp add: writeChunk_def createFile_def mkdirAt_def truncatePath_def removePath_def renamePath_def apply_info_op_def)
qed


definition demo_content :: bytes where "demo_content = ''hello''"

definition demo_session :: session where
  "demo_session = ApplyWriteResult (Some (demo_file ''a/b'' 5)) (NewSession ''u'' 100)"

definition demo_world :: world where
  "demo_world = \<lparr>w_mgr = demo_mgr, w_heap = demo_heap(1 \<mapsto> demo_session)\<rparr>"

text \<open>A daemon that holds one file and answers reads of it.\<close>

definition demo_env :: "unit env" where
  "demo_env w p rq = (w, Inr (Some
     (case rq_op rq of
        Some (OpRead (Some r)) \<Rightarrow>
          \<lparr>rp_id = [], rp_success = True, rp_error = [], rp_result = ResContent (read_slice demo_content (rd_offset r) (rd_length r))\<rparr>
      | _ \<Rightarrow> \<lparr>rp_id = [], rp_success = True, rp_error = [], rp_result = ResInfo (Some (demo_file ''a/b'' 9))\<rparr>)))"

lemma demo_world_facts:
  "requireSession 5 ''u'' demo_world = (demo_world, Inr 1)" "session_at demo_world 1 = demo_session"
  "\<not> is_root_path ''a/b''" "session_Lookup demo_session ''a/b'' = Some (demo_file ''a/b'' 5)"
  "\<not> IsOfflineReadonly 5 None demo_session" "snd (GetCachedContent ''a/b'' (Some (demo_file ''a/b'' 5)) demo_session) = None"
proof -
  have s: "offlineUntil demo_session = None" "userID demo_session = ''u''"
    by (simp_all add: demo_session_def ApplyWriteResult_Some invalidateForInfo_def invalidatePath_def demo_file_def
        InvalidateContent_def NewSession_def)
  show "requireSession 5 ''u'' demo_world = (demo_world, Inr 1)"
    by (simp add: requireSession_def demo_world_def manager_Get_def demo_mgr_def expired_at_def IsExpired_def s)
  show "session_at demo_world 1 = demo_session" by (simp add: session_at_def demo_world_def)
  show "\<not> is_root_path ''a/b''" by code_simp
  show "session_Lookup demo_session ''a/b'' = Some (demo_file ''a/b'' 5)" by code_simp
  show "\<not> IsOfflineReadonly 5 None demo_session" by (simp add: IsOfflineReadonly_def s)
  show "snd (GetCachedContent ''a/b'' (Some (demo_file ''a/b'' 5)) demo_session) = None" by code_simp
qed


theorem offline_sends_nothing_witness:
  "writeChunk 5 demo_env ''u'' ''a/b'' 0 ''x'' (upd_session 1 (demo_session\<lparr>offlineUntil := Some 9\<rparr>) demo_world)
     = (upd_session 1 (demo_session\<lparr>offlineUntil := Some 9\<rparr>) demo_world, Some FErrSessionOffline)"
proof -
  let ?s = "demo_session\<lparr>offlineUntil := Some 9\<rparr>"
  let ?w = "upd_session 1 ?s demo_world"
  have "requireSession 5 ''u'' ?w = (?w, Inr 1)"
    by (simp add: requireSession_def demo_world_def manager_Get_def demo_mgr_def expired_at_def IsExpired_def
        upd_session_def or_clock_def)
  moreover have "IsOfflineReadonly 5 None (session_at ?w 1)" by (simp add: IsOfflineReadonly_def or_clock_def)
  ultimately show ?thesis using offline_sends_nothing by blast
qed

section \<open>Writes\<close>

lemma apply_info_op_cases:
  assumes "apply_info_op clock env uid op w = (w', None)"
  obtains resp p i w1 where "requestFileOp clock env uid op w = (w1, Inr (Some (resp, p)))" "resp_info resp = Some i"
    "w' = upd_session p (ApplyWriteResult (Some i) (session_at w1 p)) w1"
  using assms by (auto simp: apply_info_op_def split: prod.splits sum.splits option.splits if_splits)

lemma requestFileOp_session:
  "requestFileOp clock env uid op w = (w1, Inr (Some (resp, p))) \<Longrightarrow>
   rp_success resp \<and> (\<exists>w0. requireSession clock uid w = (w0, Inr p) \<and> env w0 p \<lparr>rq_id = [], rq_op = Some op\<rparr> = (w1, Inr (Some resp)))"
  by (auto simp: requestFileOp_def split: prod.splits sum.splits option.splits if_splits)


text \<open>When a write, a creation, a directory creation or a truncation reports success, the view shows the
  metadata the daemon returned and serves no content cached before.\<close>

theorem mutation_visible:
  assumes "op = OpWrite (Some \<lparr>wr_path = rel, wr_content = data, wr_append = False, wr_mode = 0, wr_offset = off\<rparr>)
        \<and> writeChunk clock env uid rel off data w = (w', None)
      \<or> op = OpWrite (Some \<lparr>wr_path = rel, wr_content = [], wr_append = False, wr_mode = 420, wr_offset = 0\<rparr>)
        \<and> createFile clock env uid rel w = (w', None)
      \<or> op = OpMkdir (Some \<lparr>mk_path = rel, mk_recursive = b\<rparr>) \<and> mkdirAt clock env uid rel b w = (w', None)
      \<or> op = OpTruncate (Some \<lparr>tr_path = rel, tr_size = n\<rparr>) \<and> truncatePath clock env uid rel n w = (w', None)"
    and "requireSession clock uid w = (w0, Inr p)" "session_ok (session_at w p)"
    and "\<And>w0 rq. session_ok (session_at w0 p) \<Longrightarrow> session_ok (session_at (fst (env w0 p rq)) p)"
  shows "\<exists>w1 resp i. env w0 p \<lparr>rq_id = [], rq_op = Some op\<rparr> = (w1, Inr (Some resp)) \<and> rp_success resp
    \<and> resp_info resp = Some i
    \<and> (fstree_normalize (fi_path i) \<noteq> [] \<longrightarrow>
         session_Lookup (session_at w' p) (fi_path i) = Some (i\<lparr>fi_path := fstree_normalize (fi_path i)\<rparr>))
    \<and> snd (GetCachedContent (fi_path i) j (session_at w' p)) = None \<and> session_ok (session_at w' p)"
proof -
  have "apply_info_op clock env uid op w = (w', None)"
    using assms(1) unfolding writeChunk_def createFile_def mkdirAt_def truncatePath_def by blast
  then obtain resp q i w1 where r: "requestFileOp clock env uid op w = (w1, Inr (Some (resp, q)))"
    and i: "resp_info resp = Some i" and w': "w' = upd_session q (ApplyWriteResult (Some i) (session_at w1 q)) w1"
    by (rule apply_info_op_cases)
  have q: "q = p" "env w0 p \<lparr>rq_id = [], rq_op = Some op\<rparr> = (w1, Inr (Some resp))" "rp_success resp"
    using requestFileOp_session [OF r] assms(2) by auto
  have "session_ok (session_at w0 p)"
    using assms(2,3) by (auto simp: requireSession_def session_at_def split: prod.splits option.splits)
  then have ok: "session_ok (session_at w1 p)" using assms(4) [of w0] q(2) by (metis fst_conv)
  show ?thesis
    using write_fresh [OF ok, of i] ok_apply(1) [OF ok, of "Some i"] q i
    by (intro exI [of _ w1] exI [of _ resp] exI [of _ i]) (simp add: w')
qed

theorem mutation_visible_witness:
  "\<exists>w'. writeChunk 5 demo_env ''u'' ''a/b'' 0 ''hi'' demo_world = (w', None) \<and> session_ok (session_at w' 1)"
proof -
  have ok: "session_ok demo_session" unfolding demo_session_def by (intro ok_apply ok_NewSession) simp
  have "snd (writeChunk 5 demo_env ''u'' ''a/b'' 0 ''hi'' demo_world) = None"
    using demo_world_facts
    by (simp add: writeChunk_def apply_info_op_def requestFileOp_def demo_env_def resp_info_def)
  then obtain w' where w': "writeChunk 5 demo_env ''u'' ''a/b'' 0 ''hi'' demo_world = (w', None)" by (metis prod.collapse)
  have e: "fst (demo_env w0 1 rq) = w0" for w0 rq by (simp add: demo_env_def)
  show ?thesis
    using mutation_visible [OF disjI1 [OF conjI [OF refl w']] demo_world_facts(1), of None] w' e ok demo_world_facts(2) by auto
qed

text \<open>A daemon response that reports failure with an empty error text is taken for success: the deletion
  returns no error although nothing was deleted, and the read returns the empty content.\<close>

theorem empty_error_reads_as_success:
  assumes "requireSession clock uid w = (w, Inr p)" "\<not> IsOfflineReadonly clock None (session_at w p)"
    and "\<And>rq. env w p rq = (w, Inr (Some \<lparr>rp_id = [], rp_success = False, rp_error = [], rp_result = ResNone\<rparr>))"
  shows "removePath clock env uid rel w = (w, None) \<and> requestRead clock env p rel off len w = (w, Inr [])"
  using assms by (simp add: removePath_def requestFileOp_def requestRead_def classifyRequestErr_def)

theorem empty_error_reads_as_success_witness:
  "removePath 5 (\<lambda>w p rq. (w, Inr (Some \<lparr>rp_id = [], rp_success = False, rp_error = [], rp_result = ResNone\<rparr>)))
     ''u'' ''a/b'' demo_world = (demo_world, None)"
  using empty_error_reads_as_success [of 5 "''u''" demo_world 1
      "\<lambda>w p rq. (w, Inr (Some \<lparr>rp_id = [], rp_success = False, rp_error = [], rp_result = ResNone\<rparr>))"] demo_world_facts
  by simp

section \<open>Prefetching\<close>

lemma prefetch_filter_sub:
  "i \<in> set (snd (prefetch_filter m is s)) \<Longrightarrow>
   i \<in> set is \<and> \<not> fi_is_dir i \<and> fi_path i \<noteq> [] \<and> 0 < fi_size i \<and> fi_size i \<le> prefetchMaxFileBytes m
   \<and> fi_size i \<le> cacheMaxBytes m"
  by (induction m "is" s rule: prefetch_filter.induct)
    (auto simp: Let_def case_prod_unfold shouldPrefetchFile_def shouldUseContentCache_def split: if_splits)

lemma start_each_spec:
  "set (map fi_path (snd (start_each is s))) \<inter> set (prefetching s) = {}
   \<and> distinct (map fi_path (snd (start_each is s)))
   \<and> set (prefetching (fst (start_each is s))) = set (prefetching s) \<union> set (map fi_path (snd (start_each is s)))
   \<and> set (snd (start_each is s)) \<subseteq> set is"
proof (induction "is" arbitrary: s)
  case (Cons i "is")
  show ?case
    using Cons.IH [of s] Cons.IH [of "s\<lparr>prefetching := fi_path i # prefetching s\<rparr>"]
    by (cases "fi_path i = [] \<or> fi_path i \<in> set (prefetching s)")
      (auto simp: Let_def case_prod_unfold TryStartPrefetch_def)
qed simp

text \<open>Listing a directory starts at most the configured number of prefetches, only for non-empty files
  within both size limits, in path order, and never a second one for a path in flight.\<close>

theorem prefetch_bounded:
  assumes "prefetchCandidates m infos s = (s1, cands)" "start_each cands s1 = (s2, started)"
  shows "int (length cands) \<le> max 0 (prefetchMaxFilesPerDir m) \<and> sorted (map fi_path cands)
    \<and> (\<forall>i \<in> set cands. i \<in> set infos \<and> \<not> fi_is_dir i \<and> 0 < fi_size i
         \<and> fi_size i \<le> prefetchMaxFileBytes m \<and> fi_size i \<le> cacheMaxBytes m)
    \<and> set started \<subseteq> set cands \<and> distinct (map fi_path started)
    \<and> (\<forall>i \<in> set started. fi_path i \<notin> set (prefetching s1) \<and> fi_path i \<in> set (prefetching s2))"
proof -
  let ?srt = "sort_key fi_path (snd (prefetch_filter m infos s))"
  have c: "cands = [] \<or> 0 < prefetchMaxFilesPerDir m \<and>
      (cands = ?srt \<and> int (length ?srt) \<le> prefetchMaxFilesPerDir m \<or> cands = take (nat (prefetchMaxFilesPerDir m)) ?srt)"
    using assms(1) by (auto simp: prefetchCandidates_def Let_def case_prod_unfold split: if_splits)
  have sub: "set cands \<subseteq> set (snd (prefetch_filter m infos s))"
    using c set_take_subset [of "nat (prefetchMaxFilesPerDir m)" ?srt] by auto
  have "sorted (map fi_path cands)" using c by (auto simp: take_map [symmetric] sorted_wrt_take)
  moreover have "int (length cands) \<le> max 0 (prefetchMaxFilesPerDir m)" using c by auto
  moreover have "\<forall>i \<in> set cands. i \<in> set infos \<and> \<not> fi_is_dir i \<and> 0 < fi_size i
      \<and> fi_size i \<le> prefetchMaxFileBytes m \<and> fi_size i \<le> cacheMaxBytes m"
    using sub prefetch_filter_sub by blast
  ultimately show ?thesis using start_each_spec [of cands s1] assms(2) by auto
qed

theorem prefetch_bounded_witness:
  "snd (prefetchCandidates (demo_mgr\<lparr>prefetchEnabled := True, cacheMaxBytes := 100, prefetchMaxFileBytes := 10,
      prefetchMaxFilesPerDir := 1\<rparr>) [demo_file ''b'' 3, demo_file ''a'' 4] demo_session) = [demo_file ''a'' 4]
   \<and> sorted (map fi_path [demo_file ''a'' 4])"
proof -
  let ?m = "demo_mgr\<lparr>prefetchEnabled := True, cacheMaxBytes := 100, prefetchMaxFileBytes := 10, prefetchMaxFilesPerDir := 1\<rparr>"
  let ?r = "prefetchCandidates ?m [demo_file ''b'' 3, demo_file ''a'' 4] demo_session"
  have c: "snd ?r = [demo_file ''a'' 4]" by code_simp
  then have "?r = (fst ?r, [demo_file ''a'' 4])" by (metis prod.collapse)
  from prefetch_bounded [OF this prod.collapse [symmetric]] c show ?thesis by simp
qed

end
