(* ===== verification/Fuse.thy ===== *)
theory Fuse
  imports View
begin

text \<open>
  The mounted file system, \<open>src/pkg/fusefs/inode.go\<close> and the node operations of \<open>mount_linux.go\<close>: stable
  inode numbers, the three levels of nodes (root, user, workspace), attributes and the mapping of errors to
  \<open>errno\<close>. The go-fuse library is not modelled: an operation that registers a child with it returns the
  child node with its stable attributes. \<open>mod\<close>, \<open>ino\<close> and mode bits are words of their Go width.
\<close>

unbundle bit_operations_syntax

section \<open>Definitions\<close>

subsection \<open>Inode numbers\<close>

definition S_IFDIR :: "32 word" where "S_IFDIR = 0x4000"
definition S_IFREG :: "32 word" where "S_IFREG = 0x8000"

record inode_key =
  ik_user :: string
  ik_workspace :: string
  ik_rel :: string
  ik_mode :: "32 word"

record stable_attr =
  sa_mode :: "32 word"
  sa_ino :: "64 word"
  sa_gen :: "64 word"

record inode_allocator =
  ino_next :: "64 word"
  byPath :: "(inode_key \<times> 64 word) list"

definition firstWorkspaceInode :: "64 word" where
  "firstWorkspaceInode = 2"

definition newInodeAllocator :: inode_allocator where
  "newInodeAllocator = \<lparr>ino_next = firstWorkspaceInode, byPath = []\<rparr>"

definition stableMode :: "file_info option \<Rightarrow> 32 word" where
  "stableMode info = (case info of Some i \<Rightarrow> if fi_is_dir i then S_IFDIR else S_IFREG | None \<Rightarrow> S_IFREG)"

definition stableAttr :: "string \<Rightarrow> string \<Rightarrow> string \<Rightarrow> file_info option \<Rightarrow> inode_allocator \<Rightarrow> inode_allocator \<times> stable_attr" where
  "stableAttr uid ws rel info a =
     (let mode = stableMode info;
          key = \<lparr>ik_user = uid, ik_workspace = ws, ik_rel = rel, ik_mode = mode\<rparr>
      in case map_of (byPath a) key of
           Some ino \<Rightarrow> (a, \<lparr>sa_mode = mode, sa_ino = ino, sa_gen = 0\<rparr>)
         | None \<Rightarrow>
             (\<lparr>ino_next = ino_next a + 1, byPath = AList.update key (ino_next a) (byPath a)\<rparr>,
              \<lparr>sa_mode = mode, sa_ino = ino_next a, sa_gen = 0\<rparr>))"

definition forget :: "string \<Rightarrow> string \<Rightarrow> string \<Rightarrow> inode_allocator \<Rightarrow> inode_allocator" where
  "forget uid ws rel a =
     a\<lparr>byPath :=
         AList.delete \<lparr>ik_user = uid, ik_workspace = ws, ik_rel = rel, ik_mode = S_IFDIR\<rparr>
           (AList.delete \<lparr>ik_user = uid, ik_workspace = ws, ik_rel = rel, ik_mode = S_IFREG\<rparr> (byPath a))\<rparr>"

subsection \<open>Errors and attributes\<close>

datatype errno =
  EINTR | ETIMEDOUT | EIO | ENOENT | EACCES | EEXIST | ENOTDIR | EISDIR | ENOTEMPTY | EXDEV | EINVAL

definition errnoRules :: "(errno \<times> ferr list) list" where
  "errnoRules =
     [(EINTR, [CtxCanceled]), (ETIMEDOUT, [ErrRequestTimeout]), (EIO, [FErrSessionOffline, ErrSessionFailed]),
      (ENOENT, [ErrPathNotFound]), (EACCES, [ErrPermissionDenied]), (EEXIST, [ErrAlreadyExists]),
      (ENOTDIR, [ErrNotDirectory]), (EISDIR, [ErrIsDirectory]), (ENOTEMPTY, [ErrDirectoryNotEmpty]),
      (EXDEV, [ErrCrossDevice]), (EINVAL, [ErrInvalidArgument])]"

definition isAnyError :: "ferr \<Rightarrow> ferr list \<Rightarrow> bool" where
  "isAnyError err targets = list_ex (\<lambda>t. err = t) targets"

definition errnoFromError :: "ferr option \<Rightarrow> errno option" where
  "errnoFromError err =
     (case err of
        None \<Rightarrow> None
      | Some e \<Rightarrow>
          (case List.find (\<lambda>(_, targets). isAnyError e targets) errnoRules of
             Some (no, _) \<Rightarrow> Some no
           | None \<Rightarrow> Some EIO))"

definition err_no :: "ferr \<Rightarrow> errno" where
  "err_no e = (case errnoFromError (Some e) of Some no \<Rightarrow> no | None \<Rightarrow> EIO)"

record fattr =
  at_mode :: "32 word"
  at_size :: "64 word"
  at_nlink :: "32 word"
  at_mtime :: "64 word"
  at_ctime :: "64 word"
  at_atime :: "64 word"

definition maxInt64 :: "int \<Rightarrow> int \<Rightarrow> int" where
  "maxInt64 v floor = (if v < floor then floor else v)"

definition visibleMode :: "file_info option \<Rightarrow> 32 word" where
  "visibleMode info =
     (case info of
        None \<Rightarrow> S_IFREG OR 0x124
      | Some i \<Rightarrow>
          (let perms = (if fi_mode i = 0 then (if fi_is_dir i then 0x16D else 0x124) else of_nat (fi_mode i))
           in stableMode info OR perms))"

text \<open>The clock is in seconds here; a negative time wraps in the conversion to \<open>uint64\<close>.\<close>

definition fillAttr :: "int \<Rightarrow> file_info \<Rightarrow> fattr" where
  "fillAttr clock i =
     (let modTime = (if fi_mod_time i = 0 then clock else fi_mod_time i)
      in \<lparr>at_mode = visibleMode (Some i), at_size = word_of_int (maxInt64 (fi_size i) 0), at_nlink = 1,
          at_mtime = word_of_int modTime, at_ctime = word_of_int modTime, at_atime = word_of_int clock\<rparr>)"

definition childPath :: "string \<Rightarrow> string \<Rightarrow> string" where
  "childPath parent name = (if parent = [] then name else parent @ slash # name)"

definition baseName :: "string \<Rightarrow> string" where
  "baseName rel = path_base rel"

subsection \<open>Nodes\<close>

record 'w fstate =
  f_world :: "'w world_scheme"
  f_inodes :: inode_allocator

record user_node =
  un_user :: string

record workspace_node =
  wn_user :: string
  wn_workspace :: string
  wn_rel :: string

record dir_entry =
  de_name :: string
  de_mode :: "32 word"
  de_ino :: "64 word"

definition dir_info :: file_info where
  "dir_info = zero_info\<lparr>fi_is_dir := True\<rparr>"

definition alloc :: "string \<Rightarrow> string \<Rightarrow> string \<Rightarrow> file_info \<Rightarrow> 'w fstate \<Rightarrow> 'w fstate \<times> stable_attr" where
  "alloc uid ws rel i st = (let (a, sa) = stableAttr uid ws rel (Some i) (f_inodes st) in (st\<lparr>f_inodes := a\<rparr>, sa))"

definition root_Lookup :: "int \<Rightarrow> string \<Rightarrow> 'w fstate \<Rightarrow> 'w fstate \<times> (errno + user_node \<times> stable_attr \<times> fattr)" where
  "root_Lookup clock name st =
     (case lookupInfo clock name [] (f_world st) of
        (w, Inl e) \<Rightarrow> (st\<lparr>f_world := w\<rparr>, Inl (err_no e))
      | (w, Inr i) \<Rightarrow>
          (let (st1, sa) = alloc name [] [] i (st\<lparr>f_world := w\<rparr>)
           in (st1, Inr (\<lparr>un_user = name\<rparr>, sa, fillAttr clock i))))"

fun alloc_users :: "string list \<Rightarrow> 'w fstate \<Rightarrow> 'w fstate \<times> dir_entry list" where
  "alloc_users [] st = (st, [])"
| "alloc_users (u # us) st =
     (let (st1, sa) = alloc u [] [] dir_info st; (st2, es) = alloc_users us st1
      in (st2, \<lparr>de_name = u, de_mode = sa_mode sa, de_ino = sa_ino sa\<rparr> # es))"

definition root_Readdir :: "int \<Rightarrow> 'w fstate \<Rightarrow> 'w fstate \<times> dir_entry list" where
  "root_Readdir clock st =
     (let (m, users) = UserIDs clock (w_heap (f_world st)) (w_mgr (f_world st))
      in alloc_users users (st\<lparr>f_world := (f_world st)\<lparr>w_mgr := m\<rparr>\<rparr>))"

definition user_Getattr :: "int \<Rightarrow> user_node \<Rightarrow> 'w fstate \<Rightarrow> 'w fstate \<times> (errno + 32 word \<times> 64 word)" where
  "user_Getattr clock n st =
     (case requireSession clock (un_user n) (f_world st) of
        (w, Inl e) \<Rightarrow> (st\<lparr>f_world := w\<rparr>, Inl (err_no e))
      | (w, Inr p) \<Rightarrow> (st\<lparr>f_world := w\<rparr>, Inr (S_IFDIR OR 0x16D, word_of_int clock)))"

definition user_Lookup ::
  "int \<Rightarrow> user_node \<Rightarrow> string \<Rightarrow> 'w fstate \<Rightarrow> 'w fstate \<times> (errno + workspace_node \<times> stable_attr \<times> fattr)" where
  "user_Lookup clock n name st =
     (case workspaceNameFor clock (un_user n) (f_world st) of
        (w, Inl e) \<Rightarrow> (st\<lparr>f_world := w\<rparr>, Inl (err_no e))
      | (w, Inr ws) \<Rightarrow>
          if name \<noteq> ws then (st\<lparr>f_world := w\<rparr>, Inl ENOENT)
          else
            (let i = dir_info\<lparr>fi_mode := 365\<rparr>;
                 (st1, sa) = alloc (un_user n) ws [] i (st\<lparr>f_world := w\<rparr>)
             in (st1, Inr (\<lparr>wn_user = un_user n, wn_workspace = ws, wn_rel = []\<rparr>, sa, fillAttr clock i))))"

definition user_Readdir :: "int \<Rightarrow> user_node \<Rightarrow> 'w fstate \<Rightarrow> 'w fstate \<times> (errno + dir_entry list)" where
  "user_Readdir clock n st =
     (case workspaceNameFor clock (un_user n) (f_world st) of
        (w, Inl e) \<Rightarrow> (st\<lparr>f_world := w\<rparr>, Inl (err_no e))
      | (w, Inr ws) \<Rightarrow>
          (let (st1, sa) = alloc (un_user n) ws [] dir_info (st\<lparr>f_world := w\<rparr>)
           in (st1, Inr [\<lparr>de_name = ws, de_mode = sa_mode sa, de_ino = sa_ino sa\<rparr>])))"

definition ws_Getattr :: "int \<Rightarrow> workspace_node \<Rightarrow> 'w fstate \<Rightarrow> 'w fstate \<times> (errno + fattr)" where
  "ws_Getattr clock n st =
     (case lookupInfo clock (wn_user n) (wn_rel n) (f_world st) of
        (w, Inl e) \<Rightarrow> (st\<lparr>f_world := w\<rparr>, Inl (err_no e))
      | (w, Inr i) \<Rightarrow> (st\<lparr>f_world := w\<rparr>, Inr (fillAttr clock i)))"

definition ws_Lookup ::
  "int \<Rightarrow> workspace_node \<Rightarrow> string \<Rightarrow> 'w fstate \<Rightarrow> 'w fstate \<times> (errno + workspace_node \<times> stable_attr \<times> fattr)" where
  "ws_Lookup clock n name st =
     (let nextPath = childPath (wn_rel n) name in
      case lookupInfo clock (wn_user n) nextPath (f_world st) of
        (w, Inl e) \<Rightarrow> (st\<lparr>f_world := w\<rparr>, Inl (err_no e))
      | (w, Inr i) \<Rightarrow>
          (let (st1, sa) = alloc (wn_user n) (wn_workspace n) nextPath i (st\<lparr>f_world := w\<rparr>)
           in (st1, Inr (n\<lparr>wn_rel := nextPath\<rparr>, sa, fillAttr clock i))))"

fun alloc_infos :: "string \<Rightarrow> string \<Rightarrow> file_info list \<Rightarrow> 'w fstate \<Rightarrow> 'w fstate \<times> dir_entry list" where
  "alloc_infos uid ws [] st = (st, [])"
| "alloc_infos uid ws (i # is) st =
     (let (st1, sa) = alloc uid ws (fi_path i) i st; (st2, es) = alloc_infos uid ws is st1
      in (st2, \<lparr>de_name = baseName (fi_path i), de_mode = sa_mode sa, de_ino = sa_ino sa\<rparr> # es))"

text \<open>The prefetches it starts run on their own; they are the third component.\<close>

definition ws_Readdir :: "int \<Rightarrow> workspace_node \<Rightarrow> 'w fstate \<Rightarrow> 'w fstate \<times> (errno + dir_entry list) \<times> file_info list" where
  "ws_Readdir clock n st =
     (case listInfos clock (wn_user n) (wn_rel n) (f_world st) of
        (w, Inl e) \<Rightarrow> (st\<lparr>f_world := w\<rparr>, Inl (err_no e), [])
      | (w, Inr infos) \<Rightarrow>
          (let (w1, started) = startPrefetch clock (wn_user n) infos w;
               (st1, es) = alloc_infos (wn_user n) (wn_workspace n) (sort_key (\<lambda>i. baseName (fi_path i)) infos)
                 (st\<lparr>f_world := w1\<rparr>)
           in (st1, Inr es, started)))"

definition ws_Open :: "int \<Rightarrow> workspace_node \<Rightarrow> 'w fstate \<Rightarrow> 'w fstate \<times> errno option" where
  "ws_Open clock n st =
     (case lookupInfo clock (wn_user n) (wn_rel n) (f_world st) of
        (w, Inl e) \<Rightarrow> (st\<lparr>f_world := w\<rparr>, Some (err_no e))
      | (w, Inr i) \<Rightarrow> (st\<lparr>f_world := w\<rparr>, if fi_is_dir i then Some EISDIR else None))"

definition ws_Read :: "int \<Rightarrow> 'w env \<Rightarrow> workspace_node \<Rightarrow> int \<Rightarrow> int \<Rightarrow> 'w fstate \<Rightarrow> ('w fstate \<times> (errno + bytes)) option" where
  "ws_Read clock env n destLen off st =
     map_option (\<lambda>(w, r). (st\<lparr>f_world := w\<rparr>, case r of Inl e \<Rightarrow> Inl (err_no e) | Inr d \<Rightarrow> Inr d))
       (readChunk clock env (wn_user n) (wn_rel n) off destLen (f_world st))"

definition ws_Write :: "int \<Rightarrow> 'w env \<Rightarrow> workspace_node \<Rightarrow> bytes \<Rightarrow> int \<Rightarrow> 'w fstate \<Rightarrow> 'w fstate \<times> (errno + 32 word)" where
  "ws_Write clock env n data off st =
     (case writeChunk clock env (wn_user n) (wn_rel n) off data (f_world st) of
        (w, Some e) \<Rightarrow> (st\<lparr>f_world := w\<rparr>, Inl (err_no e))
      | (w, None) \<Rightarrow> (st\<lparr>f_world := w\<rparr>, Inr (of_nat (length data))))"

text \<open>After a creation the node is looked up and registered; \<open>Create\<close> and \<open>Mkdir\<close> share this.\<close>

definition lookup_child ::
  "int \<Rightarrow> workspace_node \<Rightarrow> string \<Rightarrow> 'w fstate \<Rightarrow> 'w fstate \<times> (errno + workspace_node \<times> stable_attr \<times> fattr)" where
  "lookup_child clock n childRel st =
     (case lookupInfo clock (wn_user n) childRel (f_world st) of
        (w, Inl e) \<Rightarrow> (st\<lparr>f_world := w\<rparr>, Inl (err_no e))
      | (w, Inr i) \<Rightarrow>
          (let (st1, sa) = alloc (wn_user n) (wn_workspace n) childRel i (st\<lparr>f_world := w\<rparr>)
           in (st1, Inr (n\<lparr>wn_rel := childRel\<rparr>, sa, fillAttr clock i))))"

definition ws_Create ::
  "int \<Rightarrow> 'w env \<Rightarrow> workspace_node \<Rightarrow> string \<Rightarrow> 'w fstate \<Rightarrow> 'w fstate \<times> (errno + workspace_node \<times> stable_attr \<times> fattr)" where
  "ws_Create clock env n name st =
     (let childRel = childPath (wn_rel n) name in
      case createFile clock env (wn_user n) childRel (f_world st) of
        (w, Some e) \<Rightarrow> (st\<lparr>f_world := w\<rparr>, Inl (err_no e))
      | (w, None) \<Rightarrow> lookup_child clock n childRel (st\<lparr>f_world := w\<rparr>))"

definition ws_Mkdir ::
  "int \<Rightarrow> 'w env \<Rightarrow> workspace_node \<Rightarrow> string \<Rightarrow> 'w fstate \<Rightarrow> 'w fstate \<times> (errno + workspace_node \<times> stable_attr \<times> fattr)" where
  "ws_Mkdir clock env n name st =
     (let childRel = childPath (wn_rel n) name in
      case mkdirAt clock env (wn_user n) childRel False (f_world st) of
        (w, Some e) \<Rightarrow> (st\<lparr>f_world := w\<rparr>, Inl (err_no e))
      | (w, None) \<Rightarrow> lookup_child clock n childRel (st\<lparr>f_world := w\<rparr>))"

definition ws_Unlink :: "int \<Rightarrow> 'w env \<Rightarrow> workspace_node \<Rightarrow> string \<Rightarrow> 'w fstate \<Rightarrow> 'w fstate \<times> errno option" where
  "ws_Unlink clock env n name st =
     (let childRel = childPath (wn_rel n) name in
      case removePath clock env (wn_user n) childRel (f_world st) of
        (w, Some e) \<Rightarrow> (st\<lparr>f_world := w\<rparr>, Some (err_no e))
      | (w, None) \<Rightarrow>
          (st\<lparr>f_world := w, f_inodes := forget (wn_user n) (wn_workspace n) childRel (f_inodes st)\<rparr>, None))"

definition ws_Rmdir :: "int \<Rightarrow> 'w env \<Rightarrow> workspace_node \<Rightarrow> string \<Rightarrow> 'w fstate \<Rightarrow> 'w fstate \<times> errno option" where
  "ws_Rmdir clock env n name st =
     (let childRel = childPath (wn_rel n) name in
      case removePath clock env (wn_user n) childRel (f_world st) of
        (w, Some e) \<Rightarrow> (st\<lparr>f_world := w\<rparr>, Some (err_no e))
      | (w, None) \<Rightarrow>
          (st\<lparr>f_world := w, f_inodes := forget (wn_user n) (wn_workspace n) childRel (f_inodes st)\<rparr>, None))"

text \<open>The new parent is \<open>None\<close> when it is not a workspace node.\<close>

definition ws_Rename ::
  "int \<Rightarrow> 'w env \<Rightarrow> workspace_node \<Rightarrow> string \<Rightarrow> workspace_node option \<Rightarrow> string \<Rightarrow> 'w fstate \<Rightarrow> 'w fstate \<times> errno option" where
  "ws_Rename clock env n oldName newParent newName st =
     (case newParent of
        None \<Rightarrow> (st, Some EINVAL)
      | Some target \<Rightarrow>
          if wn_user target \<noteq> wn_user n \<or> wn_workspace target \<noteq> wn_workspace n then (st, Some EXDEV)
          else
            (let oldRel = childPath (wn_rel n) oldName; newRel = childPath (wn_rel target) newName in
             case renamePath clock env (wn_user n) oldRel newRel (f_world st) of
               (w, Some e) \<Rightarrow> (st\<lparr>f_world := w\<rparr>, Some (err_no e))
             | (w, None) \<Rightarrow>
                 (st\<lparr>f_world := w, f_inodes := forget (wn_user n) (wn_workspace n) oldRel (f_inodes st)\<rparr>, None)))"

text \<open>\<open>sz\<close> is the requested size when \<open>FATTR_SIZE\<close> is set.\<close>

definition ws_Setattr :: "int \<Rightarrow> 'w env \<Rightarrow> workspace_node \<Rightarrow> 64 word option \<Rightarrow> 'w fstate \<Rightarrow> 'w fstate \<times> (errno + fattr)" where
  "ws_Setattr clock env n sz st =
     (case sz of
        None \<Rightarrow> ws_Getattr clock n st
      | Some sz \<Rightarrow>
          (case truncatePath clock env (wn_user n) (wn_rel n) (sint sz) (f_world st) of
             (w, Some e) \<Rightarrow> (st\<lparr>f_world := w\<rparr>, Inl (err_no e))
           | (w, None) \<Rightarrow> ws_Getattr clock n (st\<lparr>f_world := w\<rparr>)))"

section \<open>Inode numbers\<close>

text \<open>Every recorded number was handed out before the next one, and no two keys share one.\<close>

definition inodes_ok :: "inode_allocator \<Rightarrow> bool" where
  "inodes_ok a =
     (distinct (map fst (byPath a)) \<and> inj_on (map_of (byPath a)) (dom (map_of (byPath a)))
      \<and> (\<forall>k v. map_of (byPath a) k = Some v \<longrightarrow> 2 \<le> v \<and> v < ino_next a) \<and> 2 \<le> ino_next a)"

definition ino_key :: "string \<Rightarrow> string \<Rightarrow> string \<Rightarrow> file_info option \<Rightarrow> inode_key" where
  "ino_key uid ws rel info = \<lparr>ik_user = uid, ik_workspace = ws, ik_rel = rel, ik_mode = stableMode info\<rparr>"

lemma stableAttr_cases:
  "stableAttr uid ws rel info a =
     (case map_of (byPath a) (ino_key uid ws rel info) of
        Some ino \<Rightarrow> (a, \<lparr>sa_mode = stableMode info, sa_ino = ino, sa_gen = 0\<rparr>)
      | None \<Rightarrow> (\<lparr>ino_next = ino_next a + 1, byPath = AList.update (ino_key uid ws rel info) (ino_next a) (byPath a)\<rparr>,
                 \<lparr>sa_mode = stableMode info, sa_ino = ino_next a, sa_gen = 0\<rparr>))"
  unfolding stableAttr_def ino_key_def Let_def by simp

lemma stableAttr_records:
  "map_of (byPath (fst (stableAttr uid ws rel info a))) (ino_key uid ws rel info) = Some (sa_ino (snd (stableAttr uid ws rel info a)))"
  "map_of (byPath a) k = Some v \<Longrightarrow> map_of (byPath (fst (stableAttr uid ws rel info a))) k = Some v"
  "sa_mode (snd (stableAttr uid ws rel info a)) = stableMode info"
  by (auto simp: stableAttr_cases split: option.splits)

lemma stableAttr_again:
  "map_of (byPath a) (ino_key uid ws rel info) = Some v \<Longrightarrow>
   stableAttr uid ws rel info a = (a, \<lparr>sa_mode = stableMode info, sa_ino = v, sa_gen = 0\<rparr>)"
  by (simp add: stableAttr_cases)

lemma word_less_succ: "(x :: 64 word) \<noteq> - 1 \<Longrightarrow> x < x + 1"
proof -
  assume "x \<noteq> - 1"
  then have "1 + x \<noteq> 0" using max_word_wrap [of x] by (auto simp: add.commute)
  then have "unat (1 + x) = Suc (unat x)" by (rule unatSuc)
  then show ?thesis by (simp add: word_less_nat_alt add.commute)
qed

lemma inodes_okD:
  assumes "inodes_ok a"
  shows "distinct (map fst (byPath a))" "map_of (byPath a) k = Some v \<Longrightarrow> 2 \<le> v \<and> v < ino_next a"
    "map_of (byPath a) k = Some v \<Longrightarrow> map_of (byPath a) j = Some v \<Longrightarrow> k = j" "2 \<le> ino_next a"
  using assms unfolding inodes_ok_def inj_on_def by (blast, blast, metis domI, blast)

lemma inodes_ok_stableAttr:
  assumes ok: "inodes_ok a" and room: "ino_next a \<noteq> - 1"
  shows "inodes_ok (fst (stableAttr uid ws rel info a))"
proof (cases "map_of (byPath a) (ino_key uid ws rel info)")
  case (Some v)
  then show ?thesis using ok by (simp add: stableAttr_again)
next
  case None
  let ?k = "ino_key uid ws rel info" and ?m = "map_of (byPath a)"
  have lt: "ino_next a < ino_next a + 1" using room by (rule word_less_succ)
  have old: "2 \<le> v \<and> v < ino_next a" if "?m k = Some v" for k v using ok that by (simp add: inodes_ok_def)
  have "inj_on (?m(?k \<mapsto> ino_next a)) (insert ?k (dom ?m))"
    using ok None old by (auto simp: inj_on_def inodes_ok_def dom_def)
  moreover have "2 \<le> v \<and> v < ino_next a + 1" if "(?m(?k \<mapsto> ino_next a)) k = Some v" for k v
    using that old [of k v] lt inodes_okD(4) [OF ok] by (cases "k = ?k") (auto intro: order.strict_trans)
  moreover have "2 \<le> ino_next a + 1" using ok lt by (auto simp: inodes_ok_def)
  ultimately show ?thesis
    using ok None by (simp add: stableAttr_cases inodes_ok_def)
qed

lemma inodes_ok_forget: "inodes_ok a \<Longrightarrow> inodes_ok (forget uid ws rel a)"
  unfolding inodes_ok_def forget_def by (auto simp: inj_on_def dom_def split: if_splits)


subsection \<open>Identity of inodes\<close>

text \<open>Inode numbers are stable and unique: asking again for the same entry gives the same number, two
  different recorded entries never share one, the root's number is never handed out, and an entry that was
  forgotten and reappears gets a new number; this holds until the 64-bit counter is exhausted.\<close>

theorem inode_identity:
  assumes "inodes_ok a" "ino_next a \<noteq> - 1" "stableAttr uid ws rel info a = (a1, sa)"
  shows "inodes_ok a1 \<and> stableAttr uid ws rel info a1 = (a1, sa) \<and> sa_ino sa \<noteq> 1
    \<and> (\<forall>k. map_of (byPath a1) k = Some (sa_ino sa) \<longrightarrow> k = ino_key uid ws rel info)
    \<and> (map_of (byPath a) (ino_key uid ws rel info) = None \<longrightarrow> (\<forall>k. map_of (byPath a) k \<noteq> Some (sa_ino sa)))
    \<and> inodes_ok (forget uid ws rel a1) \<and> map_of (byPath (forget uid ws rel a1)) (ino_key uid ws rel info) = None
    \<and> sa_ino (snd (stableAttr uid ws rel info (forget uid ws rel a1))) \<noteq> sa_ino sa"
proof -
  let ?k = "ino_key uid ws rel info"
  have ok1: "inodes_ok a1" using inodes_ok_stableAttr [OF assms(1,2), of uid ws rel info] assms(3) by simp
  have rec: "map_of (byPath a1) ?k = Some (sa_ino sa)" using stableAttr_records(1) [of uid ws rel info a] assms(3) by simp
  have uniq: "k = ?k" if "map_of (byPath a1) k = Some (sa_ino sa)" for k
    using ok1 that rec unfolding inodes_ok_def inj_on_def by (metis domI)
  have b: "2 \<le> sa_ino sa" "sa_ino sa < ino_next a1" using ok1 rec by (auto simp: inodes_ok_def)
  have sa: "sa = \<lparr>sa_mode = stableMode info, sa_ino = sa_ino sa, sa_gen = 0\<rparr>"
    using assms(3) by (auto simp: stableAttr_cases split: option.splits)
  have again: "stableAttr uid ws rel info a1 = (a1, sa)" using stableAttr_again [OF rec] sa by simp
  have fresh: "map_of (byPath a) k \<noteq> Some (sa_ino sa)" if "map_of (byPath a) ?k = None" for k
    using that assms(3) inodes_okD(2) [OF assms(1), of k "sa_ino sa"] by (auto simp: stableAttr_cases)
  have mode: "stableMode info = S_IFREG \<or> stableMode info = S_IFDIR"
    by (simp add: stableMode_def split: option.split)
  have gone: "map_of (byPath (forget uid ws rel a1)) ?k = None"
    using mode by (auto simp: forget_def ino_key_def)
  have "sa_ino (snd (stableAttr uid ws rel info (forget uid ws rel a1))) = ino_next a1"
    using gone by (simp add: stableAttr_cases) (simp add: forget_def)
  moreover have "sa_ino sa \<noteq> 1" using b(1) by (auto simp: word_le_nat_alt)
  ultimately show ?thesis
    using ok1 again uniq fresh gone b inodes_ok_forget [OF ok1] by auto
qed

lemma newInodeAllocator_ok: "inodes_ok newInodeAllocator"
  by (simp add: inodes_ok_def newInodeAllocator_def firstWorkspaceInode_def)

theorem inode_identity_witness:
  "sa_ino (snd (stableAttr ''u'' ''w'' ''a'' (Some (demo_file ''a'' 1)) newInodeAllocator)) \<noteq> 1"
  using inode_identity [OF newInodeAllocator_ok _ prod.collapse [symmetric], of "''u''" "''w''" "''a''" "Some (demo_file ''a'' 1)"]
  by (simp add: newInodeAllocator_def firstWorkspaceInode_def)


section \<open>Listings and lookups\<close>

lemma path_base_joinPath: "seg c \<Longrightarrow> path_base (joinPath d c) = c"
proof -
  assume c: "seg c"
  have nd: "dropWhile (\<lambda>x. x = slash) (rev (joinPath d c)) = rev (joinPath d c)"
    using c by (cases "rev c") (auto simp: joinPath_def seg_def rev_swap)
  have "path_file (joinPath d c) = c"
    using c by (cases "d = []") (auto simp: joinPath_def seg_def path_file_snoc, simp add: path_file_def takeWhile_no_sep)
  then show ?thesis using c nd by (simp add: path_base_def Let_def) (simp add: seg_def)
qed

lemma alloc_infos_spec:
  "alloc_infos uid ws is st = (st1, es) \<Longrightarrow>
   f_world st1 = f_world st \<and> map de_name es = map (\<lambda>i. baseName (fi_path i)) is
   \<and> (\<forall>e \<in> set es. \<exists>i \<in> set is. de_name e = baseName (fi_path i) \<and> de_mode e = stableMode (Some i)
       \<and> map_of (byPath (f_inodes st1)) (ino_key uid ws (fi_path i) (Some i)) = Some (de_ino e))
   \<and> (\<forall>k v. map_of (byPath (f_inodes st)) k = Some v \<longrightarrow> map_of (byPath (f_inodes st1)) k = Some v)"
proof (induction "is" arbitrary: st es)
  case (Cons i "is")
  obtain a sa where a: "stableAttr uid ws (fi_path i) (Some i) (f_inodes st) = (a, sa)" by fastforce
  obtain es' where r: "alloc_infos uid ws is (st\<lparr>f_inodes := a\<rparr>) = (st1, es')"
    and es: "es = \<lparr>de_name = baseName (fi_path i), de_mode = sa_mode sa, de_ino = sa_ino sa\<rparr> # es'"
    using Cons.prems by (auto simp: alloc_def a Let_def split: prod.splits)
  have keep: "map_of (byPath a) k = Some v" if "map_of (byPath (f_inodes st)) k = Some v" for k v
    using stableAttr_records(2) [OF that, of uid ws "fi_path i" "Some i"] a by simp
  have new: "map_of (byPath a) (ino_key uid ws (fi_path i) (Some i)) = Some (sa_ino sa)" "sa_mode sa = stableMode (Some i)"
    using stableAttr_records(1,3) [of uid ws "fi_path i" "Some i" "f_inodes st"] a by simp_all
  show ?case using Cons.IH [OF r] keep new es by auto
qed simp

text \<open>Looking for prefetches changes only the cache and the set of fetches in flight.\<close>

definition same_files :: "session \<Rightarrow> session \<Rightarrow> bool" where
  "same_files s s' = (tree s' = tree s \<and> offlineUntil s' = offlineUntil s \<and> userID s' = userID s
     \<and> workspaceName s' = workspaceName s)"

lemma same_files_Get: "same_files s (fst (GetCachedContent p i s))"
  by (subst Get_Put_fields(1)) (simp add: same_files_def)

lemma same_files_trans: "same_files a b \<Longrightarrow> same_files b c \<Longrightarrow> same_files a c"
  by (simp add: same_files_def)

lemma same_files_should: "same_files s (fst (shouldPrefetchFile m s i))"
  using same_files_Get [of s]
  by (auto simp: shouldPrefetchFile_def case_prod_unfold Let_def same_files_def split: option.split)

lemma same_files_filter: "same_files s (fst (prefetch_filter m is s))"
proof (induction "is" arbitrary: s)
  case (Cons i "is")
  show ?case
    using same_files_trans [OF same_files_should Cons.IH] by (simp add: Let_def case_prod_unfold)
qed (simp add: same_files_def)

lemma same_files_start: "same_files s (fst (start_each is s))"
  by (induction "is" arbitrary: s)
    (simp_all add: Let_def case_prod_unfold TryStartPrefetch_def same_files_def)

lemma startPrefetch_same:
  assumes "requireSession clock uid w = (w, Inr p)" "startPrefetch clock uid infos w = (w1, started)"
  shows "requireSession clock uid w1 = (w1, Inr p)" "tree (session_at w1 p) = tree (session_at w p)"
proof -
  let ?c = "prefetchCandidates (w_mgr w) infos (session_at w p)"
  let ?s = "fst (start_each (snd ?c) (fst ?c))"
  have "same_files (session_at w p) (fst ?c)"
    using same_files_filter [of "session_at w p"]
    by (auto simp: prefetchCandidates_def case_prod_unfold Let_def same_files_def)
  then have sf: "same_files (session_at w p) ?s" using same_files_start same_files_trans by blast
  have w1: "w1 = w \<or> w1 = upd_session p ?s w"
    using assms by (auto simp: startPrefetch_def case_prod_unfold Let_def split: if_splits)
  show "tree (session_at w1 p) = tree (session_at w p)" using w1 sf by (auto simp: same_files_def)
  have g: "map_of (sessions (w_mgr w)) uid = Some p" "\<not> expired_at clock (w_heap w) p"
    using assms(1) by (auto simp: requireSession_def manager_Get_def split: option.splits if_splits prod.splits)
  then have "\<not> expired_at clock (w_heap (upd_session p ?s w)) p"
    using sf by (auto simp: expired_at_def upd_session_def same_files_def session_at_def IsExpired_def NewSession_def
        split: option.splits)
  then show "requireSession clock uid w1 = (w1, Inr p)"
    using w1 g assms(1) by (auto simp: requireSession_def manager_Get_def)
qed


lemma childPath_joinPath: "childPath d c = joinPath d c"
  by (simp add: childPath_def joinPath_def)

text \<open>What a listing returns: entries of the tree directly below the directory.\<close>

lemma listed_entry:
  assumes "tree_ok t" "fstree_List t d = Some infos" "i \<in> set infos" "fstree_normalize d = d"
  shows "\<exists>c. seg c \<and> fi_path i = joinPath d c \<and> fstree_normalize (joinPath d c) = joinPath d c \<and> tinfo t (joinPath d c) = Some i"
proof -
  note w = wf_treeD(2) [OF tree_okD(1) [OF assms(1)]]
  obtain n where n: "tmap t d = Some n" "fi_is_dir (n_info n)"
    using assms(2,4) by (auto simp: fstree_List_def Let_def split: option.splits if_splits)
  then have "infos = map (\<lambda>c. the (tinfo t (joinPath d c))) (child_names n)"
    using assms(2,4) fstree_List_dir [OF tree_okD(1) [OF assms(1)] n(1)] by (simp add: fstree_List_def)
  then obtain c where c: "c \<in> set (child_names n)" "i = the (tinfo t (joinPath d c))" using assms(3) by auto
  then obtain x where x: "seg c" "tmap t (joinPath d c) = Some x"
    using wfm_kids [OF w n(1)] by (auto simp: kids_def)
  have "fi_path (n_info x) = joinPath d c" using wfm_ok [OF w x(2)] by (simp add: node_ok_def)
  then show ?thesis using c(2) x tree_okD(2) [OF assms(1) x(2)] by (auto simp: tinfo_def)
qed

lemma normal_not_root: "fstree_normalize k = k \<Longrightarrow> k \<noteq> [] \<Longrightarrow> \<not> is_root_path k"
proof -
  have "fstree_normalize [CHR ''.''] = []" "fstree_normalize [slash] = []" by code_simp+
  moreover assume "fstree_normalize k = k" "k \<noteq> []"
  ultimately show ?thesis unfolding is_root_path_def by metis
qed

text \<open>A directory listing and the lookups of its names agree: every listed name can be looked up, with
  the type and inode number of the listing; the names come sorted.\<close>

theorem readdir_lookup_agree:
  assumes "requireSession clock (wn_user n) (f_world st) = (f_world st, Inr p)"
    and "session_ok (session_at (f_world st) p)" "fstree_normalize (wn_rel n) = wn_rel n"
    and "ws_Readdir clock n st = (st1, Inr es, started)"
  shows "sorted (map de_name es) \<and>
    (\<forall>e \<in> set es. \<exists>m fa. snd (ws_Lookup clock n (de_name e) st1)
       = Inr (m, \<lparr>sa_mode = de_mode e, sa_ino = de_ino e, sa_gen = 0\<rparr>, fa))"
proof -
  let ?w = "f_world st" and ?t = "tree (session_at (f_world st) p)"
  note ok = session_okD(3) [OF assms(2)]
  obtain infos where l: "listInfos clock (wn_user n) (wn_rel n) ?w = (?w, Inr infos)"
    and t: "fstree_List ?t (wn_rel n) = Some infos"
    using assms(1,4)
    by (auto simp: ws_Readdir_def listInfos_def session_List_def Let_def split: if_splits option.splits)
  obtain w1 where sp: "startPrefetch clock (wn_user n) infos ?w = (w1, started)"
    and al: "alloc_infos (wn_user n) (wn_workspace n) (sort_key (\<lambda>i. baseName (fi_path i)) infos) (st\<lparr>f_world := w1\<rparr>) = (st1, es)"
    using assms(4) by (auto simp: ws_Readdir_def l Let_def split: prod.splits)
  note S = startPrefetch_same [OF assms(1) sp] and A = alloc_infos_spec [OF al]
  have "map de_name es = map (\<lambda>i. baseName (fi_path i)) (sort_key (\<lambda>i. baseName (fi_path i)) infos)" using A by blast
  then have srt: "sorted (map de_name es)" by simp
  have "\<exists>m fa. snd (ws_Lookup clock n (de_name e) st1) = Inr (m, \<lparr>sa_mode = de_mode e, sa_ino = de_ino e, sa_gen = 0\<rparr>, fa)"
    if e: "e \<in> set es" for e
  proof -
    obtain i where i: "i \<in> set infos" "de_name e = baseName (fi_path i)" "de_mode e = stableMode (Some i)"
      "map_of (byPath (f_inodes st1)) (ino_key (wn_user n) (wn_workspace n) (fi_path i) (Some i)) = Some (de_ino e)"
      using A [THEN conjunct2, THEN conjunct2, THEN conjunct1, rule_format, OF e] by (auto simp only: set_sort)
    obtain c where c: "seg c" "fi_path i = joinPath (wn_rel n) c" "tinfo ?t (joinPath (wn_rel n) c) = Some i"
      "fstree_normalize (joinPath (wn_rel n) c) = joinPath (wn_rel n) c"
      using listed_entry [OF ok t i(1) assms(3)] by blast
    have name: "de_name e = c" using i(2) c(1,2) path_base_joinPath by (simp add: baseName_def)
    have "session_Lookup (session_at w1 p) (joinPath (wn_rel n) c) = Some i"
      using c(3,4) S(2) by (simp add: session_Lookup_def fstree_Lookup_tinfo)
    moreover have "\<not> is_root_path (joinPath (wn_rel n) c)" using normal_not_root [OF c(4)] joinPath_ne [OF c(1)] by blast
    ultimately have "lookupInfo clock (wn_user n) (joinPath (wn_rel n) c) w1 = (w1, Inr i)"
      using S(1) by (simp add: lookupInfo_def)
    moreover have "f_world st1 = w1" using A by simp
    moreover have "stableAttr (wn_user n) (wn_workspace n) (joinPath (wn_rel n) c) (Some i) (f_inodes st1)
        = (f_inodes st1, \<lparr>sa_mode = stableMode (Some i), sa_ino = de_ino e, sa_gen = 0\<rparr>)"
      using stableAttr_again i(4) c(2) by simp
    ultimately show ?thesis
      using i(3) name by (simp add: ws_Lookup_def childPath_joinPath alloc_def)
  qed
  with srt show ?thesis by blast
qed

definition demo_fs :: "unit fstate" where
  "demo_fs = \<lparr>f_world = demo_world, f_inodes = newInodeAllocator\<rparr>"

definition demo_root :: workspace_node where
  "demo_root = \<lparr>wn_user = ''u'', wn_workspace = ''w'', wn_rel = []\<rparr>"

lemma Readdir_returns:
  assumes "requireSession clock (wn_user n) (f_world st) = (f_world st, Inr p)"
    and "fstree_List (tree (session_at (f_world st) p)) (wn_rel n) = Some infos"
    and "is_root_path (wn_rel n)"
  shows "\<exists>st1 es started. ws_Readdir clock n st = (st1, Inr es, started)
    \<and> map de_name es = map (\<lambda>i. baseName (fi_path i)) (sort_key (\<lambda>i. baseName (fi_path i)) infos)"
proof -
  obtain w1 started where sp: "startPrefetch clock (wn_user n) infos (f_world st) = (w1, started)" by fastforce
  obtain st1 es where al: "alloc_infos (wn_user n) (wn_workspace n) (sort_key (\<lambda>i. baseName (fi_path i)) infos) (st\<lparr>f_world := w1\<rparr>) = (st1, es)"
    by fastforce
  have "ws_Readdir clock n st = (st1, Inr es, started)"
    using assms sp al by (simp add: ws_Readdir_def listInfos_def session_List_def)
  then show ?thesis using alloc_infos_spec [OF al] by blast
qed

theorem readdir_lookup_agree_witness:
  "\<exists>st1 es started. ws_Readdir 5 demo_root demo_fs = (st1, Inr es, started) \<and> map de_name es = [''a'']
     \<and> (\<exists>m sa fa. snd (ws_Lookup 5 demo_root ''a'' st1) = Inr (m, sa, fa))"
proof -
  have r: "requireSession 5 (wn_user demo_root) (f_world demo_fs) = (f_world demo_fs, Inr 1)"
    using demo_world_facts by (simp add: demo_fs_def demo_root_def)
  have ok: "session_ok (session_at (f_world demo_fs) 1)"
    using demo_world_facts(2) unfolding demo_fs_def by (simp add: demo_session_def ok_apply ok_NewSession)
  have n: "fstree_normalize (wn_rel demo_root) = wn_rel demo_root" by (simp add: demo_root_def fstree_normalize_def)
  have "map_option (\<lambda>is. map (\<lambda>i. baseName (fi_path i)) (sort_key (\<lambda>i. baseName (fi_path i)) is)) (fstree_List (tree demo_session) []) = Some [''a'']"
    by code_simp
  then obtain infos where i: "fstree_List (tree (session_at (f_world demo_fs) 1)) (wn_rel demo_root) = Some infos"
    "map (\<lambda>i. baseName (fi_path i)) (sort_key (\<lambda>i. baseName (fi_path i)) infos) = [''a'']"
    using demo_world_facts(2) by (auto simp: demo_fs_def demo_root_def)
  obtain st1 es started where d: "ws_Readdir 5 demo_root demo_fs = (st1, Inr es, started)" "map de_name es = [''a'']"
    using Readdir_returns [OF r i(1)] i(2) by (auto simp: demo_root_def is_root_path_def)
  then obtain e where e: "e \<in> set es" "de_name e = ''a''" by (cases es) auto
  then obtain m fa where "snd (ws_Lookup 5 demo_root ''a'' st1) = Inr (m, \<lparr>sa_mode = de_mode e, sa_ino = de_ino e, sa_gen = 0\<rparr>, fa)"
    using readdir_lookup_agree [OF r ok n d(1)] by metis
  then have "\<exists>m sa fa. snd (ws_Lookup 5 demo_root ''a'' st1) = Inr (m, sa, fa)" by (intro exI)
  with d have "ws_Readdir 5 demo_root demo_fs = (st1, Inr es, started) \<and> map de_name es = [''a'']
     \<and> (\<exists>m sa fa. snd (ws_Lookup 5 demo_root ''a'' st1) = Inr (m, sa, fa))" by (intro conjI)
  then show ?thesis by (intro exI)
qed


end
