(* ===== verification/Osfs.thy ===== *)
theory Osfs
  imports Go_Path "HOL-Library.List_Lexorder" "HOL-Library.Char_ord"
begin

text \<open>
  The part of Go's \<open>os\<close> and \<open>path/filepath\<close> the daemon uses, on Linux: a file system as a nested tree of files,
  symbolic links and directories (entries sorted by name, as \<open>os.ReadDir\<close> returns them), path resolution with the
  kernel's limit on links, and the calls with their errors. A call may also fail for a reason outside the model
  (permissions, a full disk): \<open>fs_fault\<close> names the calls that do, and such a call has no effect. Hard links,
  mount points and owners are not modelled; all paths the daemon passes are absolute.
\<close>

unbundle bit_operations_syntax

section \<open>Definitions\<close>

subsection \<open>Errors\<close>

datatype os_err =
  OS_ENOENT | OS_EEXIST | OS_ENOTDIR | OS_EISDIR | OS_ENOTEMPTY | OS_EINVAL | OS_ELOOP | OS_EACCES | OS_EBUSY
| OS_EFBIG | OS_EXDEV | OS_EIO

fun errno_text :: "os_err \<Rightarrow> string" where
  "errno_text OS_ENOENT = ''no such file or directory''"
| "errno_text OS_EEXIST = ''file exists''"
| "errno_text OS_ENOTDIR = ''not a directory''"
| "errno_text OS_EISDIR = ''is a directory''"
| "errno_text OS_ENOTEMPTY = ''directory not empty''"
| "errno_text OS_EINVAL = ''invalid argument''"
| "errno_text OS_ELOOP = ''too many levels of symbolic links''"
| "errno_text OS_EACCES = ''permission denied''"
| "errno_text OS_EBUSY = ''device or resource busy''"
| "errno_text OS_EFBIG = ''file too large''"
| "errno_text OS_EXDEV = ''invalid cross-device link''"
| "errno_text OS_EIO = ''input/output error''"

text \<open>\<open>*os.PathError\<close>, \<open>*os.LinkError\<close> and errors made of a text.\<close>

datatype go_err =
  PathError string string os_err
| LinkError string string string os_err
| TextError string

fun go_err_text :: "go_err \<Rightarrow> string" where
  "go_err_text (PathError op p e) = op @ '' '' @ p @ '': '' @ errno_text e"
| "go_err_text (LinkError op old new e) = op @ '' '' @ old @ '' '' @ new @ '': '' @ errno_text e"
| "go_err_text (TextError s) = s"

text \<open>\<open>errors.Is(err, fs.ErrNotExist)\<close>.\<close>

fun is_not_exist :: "go_err \<Rightarrow> bool" where
  "is_not_exist (PathError op p e) = (e = OS_ENOENT)"
| "is_not_exist (LinkError op old new e) = (e = OS_ENOENT)"
| "is_not_exist (TextError s) = False"

subsection \<open>The tree\<close>

text \<open>Contents, permission bits and modification time in seconds.\<close>

datatype fnode =
  FFile bytes nat int
| FLink string nat int
| FDir "(string \<times> fnode) list" nat int

record osfs =
  fs_root :: fnode
  fs_now :: int
  fs_umask :: nat
  fs_maxsize :: int
  fs_dirsize :: int
  fs_fault :: "string \<Rightarrow> string \<Rightarrow> os_err option"

fun is_fdir :: "fnode \<Rightarrow> bool" where
  "is_fdir (FDir _ _ _) = True"
| "is_fdir _ = False"

fun is_flink :: "fnode \<Rightarrow> bool" where
  "is_flink (FLink _ _ _) = True"
| "is_flink _ = False"

fun fget :: "fnode \<Rightarrow> string list \<Rightarrow> fnode option" where
  "fget n [] = Some n"
| "fget (FDir es m t) (c # cs) = (case map_of es c of None \<Rightarrow> None | Some n \<Rightarrow> fget n cs)"
| "fget n (c # cs) = None"

fun dir_put :: "string \<Rightarrow> fnode \<Rightarrow> (string \<times> fnode) list \<Rightarrow> (string \<times> fnode) list" where
  "dir_put k v [] = [(k, v)]"
| "dir_put k v ((k', v') # es) =
     (if k = k' then (k, v) # es else if k < k' then (k, v) # (k', v') # es else (k', v') # dir_put k v es)"

definition dir_del :: "string \<Rightarrow> (string \<times> fnode) list \<Rightarrow> (string \<times> fnode) list" where
  "dir_del k es = filter (\<lambda>(k', _). k' \<noteq> k) es"

text \<open>Set or remove the node at a path; the directory's time is set when the call touches it.\<close>

fun fput :: "string list \<Rightarrow> fnode option \<Rightarrow> int option \<Rightarrow> fnode \<Rightarrow> fnode" where
  "fput [] v touch n = n"
| "fput [c] v touch (FDir es m t) =
     FDir (case v of Some x \<Rightarrow> dir_put c x es | None \<Rightarrow> dir_del c es) m (case touch of Some now \<Rightarrow> now | None \<Rightarrow> t)"
| "fput (c # d # cs) v touch (FDir es m t) =
     (case map_of es c of
        None \<Rightarrow> FDir es m t
      | Some n \<Rightarrow> FDir (dir_put c (fput (d # cs) v touch n) es) m t)"
| "fput (c # cs) v touch n = n"

fun fwf :: "fnode \<Rightarrow> bool" where
  "fwf (FDir es m t) = (sorted_wrt (<) (map fst es) \<and> list_all (\<lambda>(c, n). is_name c \<and> fwf n) es)"
| "fwf _ = True"

subsection \<open>Path resolution\<close>

text \<open>From the directory \<open>cur\<close> along the remaining elements; \<open>follow\<close> says whether a final link is followed. The
  result is the canonical path; its last element may not exist.\<close>

function (sequential) resolve :: "nat \<Rightarrow> fnode \<Rightarrow> string list \<Rightarrow> string list \<Rightarrow> bool \<Rightarrow> os_err + string list" where
  "resolve links root cur [] follow = Inr cur"
| "resolve links root cur (c # cs) follow =
     (case fget root cur of
        Some (FDir es _ _) \<Rightarrow>
          if c = [] \<or> c = ''.'' then resolve links root cur cs follow
          else if c = ''..'' then resolve links root (butlast cur) cs follow
          else
            (case map_of es c of
               None \<Rightarrow> if cs = [] then Inr (cur @ [c]) else Inl OS_ENOENT
             | Some (FLink target _ _) \<Rightarrow>
                 if cs = [] \<and> \<not> follow then Inr (cur @ [c])
                 else
                   (case links of
                      0 \<Rightarrow> Inl OS_ELOOP
                    | Suc l \<Rightarrow>
                        resolve l root (if is_rooted target then [] else cur) (split_on slash target @ cs) follow)
             | Some _ \<Rightarrow> resolve links root (cur @ [c]) cs follow)
      | _ \<Rightarrow> Inl OS_ENOTDIR)"
  by pat_completeness auto
termination
  by (relation "measures [\<lambda>(links, _, _, _, _). links, \<lambda>(_, _, _, cs, _). length cs]") auto

definition kernel_links :: nat where "kernel_links = 40"

definition os_resolve :: "osfs \<Rightarrow> string \<Rightarrow> bool \<Rightarrow> os_err + string list" where
  "os_resolve fs p follow =
     (if p = [] then Inl OS_ENOENT else resolve kernel_links (fs_root fs) [] (split_on slash p) follow)"

definition os_lookup :: "osfs \<Rightarrow> string \<Rightarrow> bool \<Rightarrow> os_err + string list \<times> fnode" where
  "os_lookup fs p follow =
     (case os_resolve fs p follow of
        Inl e \<Rightarrow> Inl e
      | Inr q \<Rightarrow> (case fget (fs_root fs) q of None \<Rightarrow> Inl OS_ENOENT | Some n \<Rightarrow> Inr (q, n)))"

subsection \<open>Calls that read\<close>

record os_info =
  oi_size :: int
  oi_mtime :: int
  oi_isdir :: bool
  oi_islink :: bool
  oi_perm :: nat

fun node_info :: "osfs \<Rightarrow> fnode \<Rightarrow> os_info" where
  "node_info fs (FFile b m t) = \<lparr>oi_size = int (length b), oi_mtime = t, oi_isdir = False, oi_islink = False, oi_perm = m\<rparr>"
| "node_info fs (FLink p m t) = \<lparr>oi_size = int (length p), oi_mtime = t, oi_isdir = False, oi_islink = True, oi_perm = m\<rparr>"
| "node_info fs (FDir es m t) = \<lparr>oi_size = fs_dirsize fs, oi_mtime = t, oi_isdir = True, oi_islink = False, oi_perm = m\<rparr>"

definition os_stat_node :: "string \<Rightarrow> bool \<Rightarrow> osfs \<Rightarrow> string \<Rightarrow> go_err + fnode" where
  "os_stat_node op follow fs p =
     (case fs_fault fs op p of
        Some e \<Rightarrow> Inl (PathError op p e)
      | None \<Rightarrow> (case os_lookup fs p follow of Inl e \<Rightarrow> Inl (PathError op p e) | Inr (q, n) \<Rightarrow> Inr n))"

definition os_Lstat :: "osfs \<Rightarrow> string \<Rightarrow> go_err + os_info" where
  "os_Lstat fs p = map_sum id (node_info fs) (os_stat_node ''lstat'' False fs p)"

definition os_Stat :: "osfs \<Rightarrow> string \<Rightarrow> go_err + os_info" where
  "os_Stat fs p = map_sum id (node_info fs) (os_stat_node ''stat'' True fs p)"

definition os_ReadFile :: "osfs \<Rightarrow> string \<Rightarrow> go_err + bytes" where
  "os_ReadFile fs p =
     (case os_stat_node ''open'' True fs p of
        Inl e \<Rightarrow> Inl e
      | Inr (FFile b _ _) \<Rightarrow> Inr b
      | Inr _ \<Rightarrow> Inl (PathError ''read'' p OS_EISDIR))"

definition os_ReadDir :: "osfs \<Rightarrow> string \<Rightarrow> go_err + (string \<times> fnode) list" where
  "os_ReadDir fs p =
     (case os_stat_node ''open'' True fs p of
        Inl e \<Rightarrow> Inl e
      | Inr (FDir es _ _) \<Rightarrow> Inr es
      | Inr _ \<Rightarrow> Inl (PathError ''open'' p OS_ENOTDIR))"

definition os_Readlink :: "osfs \<Rightarrow> string \<Rightarrow> go_err + string" where
  "os_Readlink fs p =
     (case os_stat_node ''readlink'' False fs p of
        Inl e \<Rightarrow> Inl e
      | Inr (FLink target _ _) \<Rightarrow> Inr target
      | Inr _ \<Rightarrow> Inl (PathError ''readlink'' p OS_EINVAL))"

text \<open>\<open>filepath.EvalSymlinks\<close> of an absolute path; its own limit is 255 links. The error names the path that was
  given, not the component that failed.\<close>

definition fp_EvalSymlinks :: "osfs \<Rightarrow> string \<Rightarrow> go_err + string" where
  "fp_EvalSymlinks fs p =
     (case fs_fault fs ''lstat'' p of
        Some e \<Rightarrow> Inl (PathError ''lstat'' p e)
      | None \<Rightarrow>
          (case resolve 255 (fs_root fs) [] (split_on slash p) True of
             Inl OS_ELOOP \<Rightarrow> Inl (TextError ''EvalSymlinks: too many links'')
           | Inl e \<Rightarrow> Inl (PathError ''lstat'' p e)
           | Inr q \<Rightarrow>
               if fget (fs_root fs) q = None then Inl (PathError ''lstat'' p OS_ENOENT)
               else Inr (render_path True q)))"

subsection \<open>Calls that change the tree\<close>

definition new_perm :: "osfs \<Rightarrow> nat \<Rightarrow> nat" where
  "new_perm fs mode = (let perm = mode AND 0x1FF in perm - (perm AND fs_umask fs))"

text \<open>\<open>os.OpenFile\<close> with \<open>O_CREATE\<close> for writing; the handle is the canonical path of the file.\<close>

definition os_OpenFile_create :: "osfs \<Rightarrow> string \<Rightarrow> nat \<Rightarrow> osfs \<times> (go_err + string list)" where
  "os_OpenFile_create fs p mode =
     (case fs_fault fs ''open'' p of
        Some e \<Rightarrow> (fs, Inl (PathError ''open'' p e))
      | None \<Rightarrow>
          (case os_resolve fs p True of
             Inl e \<Rightarrow> (fs, Inl (PathError ''open'' p e))
           | Inr q \<Rightarrow>
               (case fget (fs_root fs) q of
                  None \<Rightarrow>
                    (fs\<lparr>fs_root := fput q (Some (FFile [] (new_perm fs mode) (fs_now fs))) (Some (fs_now fs)) (fs_root fs)\<rparr>, Inr q)
                | Some (FFile _ _ _) \<Rightarrow> (fs, Inr q)
                | Some _ \<Rightarrow> (fs, Inl (PathError ''open'' p OS_EISDIR)))))"

text \<open>Bytes written over a content at an offset; a gap is filled with zeros.\<close>

definition overlay :: "bytes \<Rightarrow> nat \<Rightarrow> bytes \<Rightarrow> bytes" where
  "overlay old off new =
     (if new = [] then old
      else take off old @ replicate (off - length old) (CHR 0x00) @ new @ drop (off + length new) old)"

definition file_put :: "osfs \<Rightarrow> string list \<Rightarrow> (bytes \<Rightarrow> bytes) \<Rightarrow> osfs" where
  "file_put fs q f =
     (case fget (fs_root fs) q of
        Some (FFile b m t) \<Rightarrow> fs\<lparr>fs_root := fput q (Some (FFile (f b) m (fs_now fs))) None (fs_root fs)\<rparr>
      | _ \<Rightarrow> fs)"

definition file_size :: "osfs \<Rightarrow> string list \<Rightarrow> int" where
  "file_size fs q = (case fget (fs_root fs) q of Some (FFile b _ _) \<Rightarrow> int (length b) | _ \<Rightarrow> 0)"

text \<open>\<open>(*os.File).Write\<close> of a file opened with \<open>O_APPEND\<close> and \<open>WriteAt\<close>; writing nothing changes nothing.\<close>

definition file_Write_append :: "osfs \<Rightarrow> string \<Rightarrow> string list \<Rightarrow> bytes \<Rightarrow> osfs \<times> go_err option" where
  "file_Write_append fs p q content =
     (if content = [] then (fs, None)
      else
        (case fs_fault fs ''write'' p of
           Some e \<Rightarrow> (fs, Some (PathError ''write'' p e))
         | None \<Rightarrow>
             if file_size fs q + int (length content) > fs_maxsize fs then (fs, Some (PathError ''write'' p OS_EFBIG))
             else (file_put fs q (\<lambda>b. b @ content), None)))"

definition file_WriteAt :: "osfs \<Rightarrow> string \<Rightarrow> string list \<Rightarrow> bytes \<Rightarrow> int \<Rightarrow> osfs \<times> go_err option" where
  "file_WriteAt fs p q content off =
     (if off < 0 then (fs, Some (TextError ''negative offset''))
      else if content = [] then (fs, None)
      else
        (case fs_fault fs ''write'' p of
           Some e \<Rightarrow> (fs, Some (PathError ''write'' p e))
         | None \<Rightarrow>
             if off + int (length content) > fs_maxsize fs then (fs, Some (PathError ''write'' p OS_EFBIG))
             else (file_put fs q (\<lambda>b. overlay b (nat off) content), None)))"

definition file_Close :: "osfs \<Rightarrow> string \<Rightarrow> go_err option" where
  "file_Close fs p = map_option (PathError ''close'' p) (fs_fault fs ''close'' p)"

definition os_Truncate :: "osfs \<Rightarrow> string \<Rightarrow> int \<Rightarrow> osfs \<times> go_err option" where
  "os_Truncate fs p sz =
     (case fs_fault fs ''truncate'' p of
        Some e \<Rightarrow> (fs, Some (PathError ''truncate'' p e))
      | None \<Rightarrow>
          (case os_lookup fs p True of
             Inl e \<Rightarrow> (fs, Some (PathError ''truncate'' p e))
           | Inr (q, FFile _ _ _) \<Rightarrow>
               if sz < 0 then (fs, Some (PathError ''truncate'' p OS_EINVAL))
               else if sz > fs_maxsize fs then (fs, Some (PathError ''truncate'' p OS_EFBIG))
               else (file_put fs q (\<lambda>b. take (nat sz) b @ replicate (nat sz - length b) (CHR 0x00)), None)
           | Inr _ \<Rightarrow> (fs, Some (PathError ''truncate'' p OS_EISDIR))))"

definition os_Mkdir :: "osfs \<Rightarrow> string \<Rightarrow> nat \<Rightarrow> osfs \<times> go_err option" where
  "os_Mkdir fs p mode =
     (case fs_fault fs ''mkdir'' p of
        Some e \<Rightarrow> (fs, Some (PathError ''mkdir'' p e))
      | None \<Rightarrow>
          (case os_resolve fs p False of
             Inl e \<Rightarrow> (fs, Some (PathError ''mkdir'' p e))
           | Inr q \<Rightarrow>
               if fget (fs_root fs) q \<noteq> None then (fs, Some (PathError ''mkdir'' p OS_EEXIST))
               else (fs\<lparr>fs_root := fput q (Some (FDir [] (new_perm fs mode) (fs_now fs))) (Some (fs_now fs)) (fs_root fs)\<rparr>, None)))"

text \<open>\<open>os.MkdirAll\<close> of a clean absolute path, given by its elements, last first.\<close>

fun mkdir_all :: "osfs \<Rightarrow> string list \<Rightarrow> nat \<Rightarrow> osfs \<times> go_err option" where
  "mkdir_all fs relems mode =
     (let p = render_path True (rev relems) in
      case os_Stat fs p of
        Inr i \<Rightarrow> if oi_isdir i then (fs, None) else (fs, Some (PathError ''mkdir'' p OS_ENOTDIR))
      | Inl _ \<Rightarrow>
          (let (fs1, err) = (case relems of [] \<Rightarrow> (fs, None) | c # cs \<Rightarrow> mkdir_all fs cs mode) in
           case err of
             Some e \<Rightarrow> (fs1, Some e)
           | None \<Rightarrow>
               (case os_Mkdir fs1 p mode of
                  (fs2, None) \<Rightarrow> (fs2, None)
                | (fs2, Some e) \<Rightarrow>
                    (case os_Lstat fs2 p of Inr i \<Rightarrow> if oi_isdir i then (fs2, None) else (fs2, Some e) | Inl _ \<Rightarrow> (fs2, Some e)))))"

definition os_MkdirAll :: "osfs \<Rightarrow> string \<Rightarrow> nat \<Rightarrow> osfs \<times> go_err option" where
  "os_MkdirAll fs p mode = mkdir_all fs (rev (clean_elems p)) mode"

definition os_Remove :: "osfs \<Rightarrow> string \<Rightarrow> osfs \<times> go_err option" where
  "os_Remove fs p =
     (case fs_fault fs ''remove'' p of
        Some e \<Rightarrow> (fs, Some (PathError ''remove'' p e))
      | None \<Rightarrow>
          (case os_lookup fs p False of
             Inl e \<Rightarrow> (fs, Some (PathError ''remove'' p e))
           | Inr (q, n) \<Rightarrow>
               if q = [] then (fs, Some (PathError ''remove'' p OS_EBUSY))
               else if (case n of FDir es _ _ \<Rightarrow> es \<noteq> [] | _ \<Rightarrow> False) then (fs, Some (PathError ''remove'' p OS_ENOTEMPTY))
               else (fs\<lparr>fs_root := fput q None (Some (fs_now fs)) (fs_root fs)\<rparr>, None)))"

text \<open>\<open>os.Rename\<close>: an existing directory at the new name is refused before the system call, unless it is the
  same file under a different name.\<close>

definition os_Rename :: "osfs \<Rightarrow> string \<Rightarrow> string \<Rightarrow> osfs \<times> go_err option" where
  "os_Rename fs old new =
     (let fail = (\<lambda>e. (fs, Some (LinkError ''rename'' old new e))) in
      case fs_fault fs ''rename'' old of
        Some e \<Rightarrow> fail e
      | None \<Rightarrow>
          (case (os_lookup fs old False, os_resolve fs new False) of
             (Inl e, _) \<Rightarrow> fail e
           | (Inr _, Inl e) \<Rightarrow> fail e
           | (Inr (q, n), Inr q') \<Rightarrow>
               if (case fget (fs_root fs) q' of Some n' \<Rightarrow> is_fdir n' | None \<Rightarrow> False) \<and> (new = old \<or> q' \<noteq> q) then fail OS_EEXIST
               else if q' = q then (fs, None)
               else if q = [] \<or> q' = [] then fail OS_EBUSY
               else if is_fdir n \<and> prefix q q' then fail OS_EINVAL
               else if is_fdir n \<and> fget (fs_root fs) q' \<noteq> None then fail OS_ENOTDIR
               else
                 (fs\<lparr>fs_root := fput q' (Some n) (Some (fs_now fs)) (fput q None (Some (fs_now fs)) (fs_root fs))\<rparr>, None)))"

section \<open>The tree\<close>

lemma map_of_dir_put [simp]: "map_of (dir_put k v es) = (map_of es)(k \<mapsto> v)"
  by (induction es) (auto simp: fun_eq_iff)

lemma map_of_dir_del [simp]: "map_of (dir_del k es) = (map_of es)(k := None)"
  by (induction es) (auto simp: dir_del_def fun_eq_iff)

lemma fget_append: "fget n (p @ q) = (case fget n p of None \<Rightarrow> None | Some m \<Rightarrow> fget m q)"
proof (induction n p rule: fget.induct)
  case (2 es m t c cs)
  then show ?case by (cases "map_of es c") simp_all
qed simp_all

text \<open>What path resolution sees of a node.\<close>

datatype kind = KFile | KLink string | KDir

fun node_kind :: "fnode \<Rightarrow> kind" where
  "node_kind (FFile _ _ _) = KFile"
| "node_kind (FLink target _ _) = KLink target"
| "node_kind (FDir _ _ _) = KDir"

definition kind_at :: "fnode \<Rightarrow> string list \<Rightarrow> kind option" where
  "kind_at n p = map_option node_kind (fget n p)"

lemma node_kind_KDir: "node_kind n = KDir \<longleftrightarrow> is_fdir n" by (cases n) simp_all

lemma kind_at_dir: "kind_at n p = Some KDir \<longleftrightarrow> (\<exists>es m t. fget n p = Some (FDir es m t))"
proof -
  have "node_kind x = KDir \<longleftrightarrow> (\<exists>es m t. x = FDir es m t)" for x by (cases x) simp_all
  then show ?thesis by (auto simp: kind_at_def)
qed

lemma kind_at_None: "kind_at n p = None \<longleftrightarrow> fget n p = None"
  by (simp add: kind_at_def)

lemma kind_at_prefix:
  assumes "fget n (p @ q) \<noteq> None" "q \<noteq> []" shows "kind_at n p = Some KDir"
proof -
  obtain c cs where q: "q = c # cs" using assms(2) by (cases q) auto
  obtain x where x: "fget n p = Some x" using assms(1) by (auto simp: fget_append split: option.splits)
  then show ?thesis using assms(1) by (cases x) (auto simp: fget_append q kind_at_def)
qed

lemma fget_snoc: "fget n p = Some (FDir es m t) \<Longrightarrow> fget n (p @ [c]) = map_of es c"
  by (simp add: fget_append split: option.split)

lemma kind_at_step:
  "kind_at (FDir es m t) (c # p) = Some k \<Longrightarrow> \<exists>n. map_of es c = Some n \<and> kind_at n p = Some k"
  by (auto simp: kind_at_def split: option.splits)

text \<open>The kinds after an update below an existing directory: below the path those of the new node, elsewhere as
  before.\<close>

lemma kind_at_fput:
  assumes "q \<noteq> []" "kind_at n (butlast q) = Some KDir"
  shows "kind_at (fput q v touch n) p =
    (if prefix q p then (case v of None \<Rightarrow> None | Some x \<Rightarrow> kind_at x (drop (length q) p)) else kind_at n p)"
  using assms
proof (induction q v touch n arbitrary: p rule: fput.induct)
  case (2 c v touch es m t)
  show ?case
  proof (cases p)
    case Nil
    then show ?thesis by (simp add: kind_at_def)
  next
    case (Cons d ds)
    then show ?thesis by (cases v) (auto simp: kind_at_def split: option.splits)
  qed
next
  case (3 c d cs v touch es m t)
  have "butlast (c # d # cs) = c # butlast (d # cs)" by simp
  then obtain n where n: "map_of es c = Some n" and k: "kind_at n (butlast (d # cs)) = Some KDir"
    using "3.prems"(2) kind_at_step by metis
  note IH = "3.IH" [OF n _ k]
  show ?case
  proof (cases p)
    case Nil
    then show ?thesis using n by (simp add: kind_at_def)
  next
    case (Cons e ps)
    show ?thesis
    proof (cases "e = c")
      case True
      then show ?thesis using Cons n IH [of ps] by (cases v) (simp_all add: kind_at_def)
    next
      case False
      then show ?thesis using Cons n by (auto simp: kind_at_def)
    qed
  qed
qed (auto simp: kind_at_def split: if_splits)

text \<open>Nodes other than the directories above the path are untouched.\<close>

lemma fget_fput_other: "\<not> prefix q p \<Longrightarrow> \<not> prefix p q \<Longrightarrow> fget (fput q v touch n) p = fget n p"
proof (induction q v touch n arbitrary: p rule: fput.induct)
  case (2 c v touch es m t)
  then show ?case by (cases p; cases v) auto
next
  case (3 c d cs v touch es m t)
  show ?case
  proof (cases "map_of es c")
    case (Some n)
    then show ?thesis using 3 by (cases p) auto
  qed simp
qed auto

lemma fget_fput_file:
  assumes "fget n p = Some x" "\<not> is_fdir x" "\<not> prefix q p" "q \<noteq> []" "kind_at n (butlast q) = Some KDir"
  shows "fget (fput q v touch n) p = Some x"
proof -
  have "\<not> prefix p q"
  proof
    assume "prefix p q"
    then obtain r where r: "q = p @ r" by (auto simp: prefix_def)
    moreover have "r \<noteq> []" using assms(3) r by auto
    ultimately have "butlast q = p @ butlast r" by (simp add: butlast_append)
    then have "fget n (p @ butlast r) \<noteq> None" using assms(5) by (auto simp: kind_at_def)
    then have "kind_at n p = Some KDir"
      using assms(5) \<open>butlast q = p @ butlast r\<close> kind_at_prefix by (cases "butlast r = []") auto
    then show False using assms(1,2) by (auto simp: kind_at_def node_kind_KDir)
  qed
  then show ?thesis using fget_fput_other assms by simp
qed

lemma fget_fput_same:
  "q \<noteq> [] \<Longrightarrow> kind_at n (butlast q) = Some KDir \<Longrightarrow> fget (fput q v touch n) q = v"
proof (induction q v touch n rule: fput.induct)
  case (2 c v touch es m t)
  then show ?case by (cases v) auto
next
  case (3 c d cs v touch es m t)
  have "butlast (c # d # cs) = c # butlast (d # cs)" by simp
  then obtain n where n: "map_of es c = Some n" and k: "kind_at n (butlast (d # cs)) = Some KDir"
    using "3.prems"(2) kind_at_step by metis
  show ?case using "3.IH" [OF n _ k] n by simp
qed (auto simp: kind_at_def split: if_splits)

section \<open>Resolution\<close>

lemma resolve_Cons:
  "resolve links root cur (c # cs) follow =
     (if kind_at root cur \<noteq> Some KDir then Inl OS_ENOTDIR
      else if c = [] \<or> c = ''.'' then resolve links root cur cs follow
      else if c = ''..'' then resolve links root (butlast cur) cs follow
      else (case kind_at root (cur @ [c]) of
              None \<Rightarrow> if cs = [] then Inr (cur @ [c]) else Inl OS_ENOENT
            | Some (KLink target) \<Rightarrow>
                if cs = [] \<and> \<not> follow then Inr (cur @ [c])
                else (case links of
                        0 \<Rightarrow> Inl OS_ELOOP
                      | Suc l \<Rightarrow> resolve l root (if is_rooted target then [] else cur) (split_on slash target @ cs) follow)
            | Some _ \<Rightarrow> resolve links root (cur @ [c]) cs follow))"
proof (cases "kind_at root cur = Some KDir")
  case True
  then obtain es m t where d: "fget root cur = Some (FDir es m t)" unfolding kind_at_dir by blast
  then have k: "kind_at root (cur @ [c]) = map_option node_kind (map_of es c)" by (simp add: kind_at_def fget_snoc)
  show ?thesis
  proof (cases "map_of es c")
    case None
    then show ?thesis using d k True by simp
  next
    case (Some n)
    then show ?thesis using d k True by (cases n) simp_all
  qed
next
  case False
  then show ?thesis by (auto simp: kind_at_def split: option.split fnode.split)
qed

declare resolve.simps(2) [simp del]

text \<open>Only the kinds of the nodes matter.\<close>

lemma resolve_cong:
  assumes k: "\<And>p. kind_at r p = kind_at r' p"
  shows "resolve links r cur cs follow = resolve links r' cur cs follow"
proof (induction links arbitrary: cur cs)
  case 0
  show ?case
  proof (induction cs arbitrary: cur)
    case (Cons a cs)
    show ?case unfolding resolve_Cons k Cons.IH nat.case by (rule refl)
  qed simp
next
  case (Suc l)
  show ?case
  proof (induction cs arbitrary: cur)
    case (Cons a cs)
    show ?case unfolding resolve_Cons k Cons.IH nat.case Suc.IH by (rule refl)
  qed simp
qed

text \<open>A case split over one step of the resolution.\<close>

lemma resolve_step_cases:
  assumes "resolve links root cur (c # cs) follow = Inr q"
  obtains (skip) "kind_at root cur = Some KDir" "c = [] \<or> c = ''.''" "resolve links root cur cs follow = Inr q"
    | (up) "kind_at root cur = Some KDir" "c = ''..''" "resolve links root (butlast cur) cs follow = Inr q"
    | (missing) "kind_at root cur = Some KDir" "c \<noteq> []" "c \<noteq> ''.''" "c \<noteq> ''..''" "kind_at root (cur @ [c]) = None" "cs = []" "q = cur @ [c]"
    | (final) target where "kind_at root cur = Some KDir" "c \<noteq> []" "c \<noteq> ''.''" "c \<noteq> ''..''" "kind_at root (cur @ [c]) = Some (KLink target)"
        "cs = []" "\<not> follow" "q = cur @ [c]"
    | (link) target l where "kind_at root cur = Some KDir" "c \<noteq> []" "c \<noteq> ''.''" "c \<noteq> ''..''" "kind_at root (cur @ [c]) = Some (KLink target)"
        "cs \<noteq> [] \<or> follow" "links = Suc l"
        "resolve l root (if is_rooted target then [] else cur) (split_on slash target @ cs) follow = Inr q"
    | (down) k where "kind_at root cur = Some KDir" "c \<noteq> []" "c \<noteq> ''.''" "c \<noteq> ''..''" "kind_at root (cur @ [c]) = Some k" "k = KFile \<or> k = KDir"
        "resolve links root (cur @ [c]) cs follow = Inr q"
proof (cases "kind_at root cur = Some KDir")
  case d: True
  note r = assms [unfolded resolve_Cons]
  show ?thesis
  proof (cases "c = [] \<or> c = ''.''")
    case True
    show ?thesis by (rule skip) (use r d True in auto)
  next
    case n1: False
    show ?thesis
    proof (cases "c = ''..''")
      case True
      show ?thesis by (rule up) (use r d True in auto)
    next
      case n2: False
      have n: "c \<noteq> []" "c \<noteq> ''.''" using n1 by blast+
      note r' = r [unfolded if_not_P [OF not_not [THEN iffD2, OF d]] if_not_P [OF n1] if_not_P [OF n2]]
      show ?thesis
      proof (cases "kind_at root (cur @ [c])")
        case None
        then show ?thesis using r' d by (intro missing [OF d n n2]) (simp_all split: if_splits)
      next
        case (Some k)
        show ?thesis
        proof (cases k)
          case (KLink target)
          show ?thesis
          proof (cases "cs = [] \<and> \<not> follow")
            case True
            then show ?thesis using r' Some KLink by (intro final [OF d n n2]) simp_all
          next
            case False
            show ?thesis
            proof (cases links)
              case 0
              then show ?thesis using r' Some KLink False by simp
            next
              case (Suc l)
              show ?thesis using r' Some KLink False Suc by (intro link [OF d n n2 _ _ Suc]) auto
            qed
          qed
        next
          case KFile
          then show ?thesis using r' Some by (intro down [OF d n n2 Some]) simp_all
        next
          case KDir
          then show ?thesis using r' Some by (intro down [OF d n n2 Some]) simp_all
        qed
      qed
    qed
  qed
next
  case False
  then show ?thesis using assms by (simp add: resolve_Cons)
qed

text \<open>Successful resolution as an inductive relation, for rule induction.\<close>

inductive resolves :: "fnode \<Rightarrow> bool \<Rightarrow> nat \<Rightarrow> string list \<Rightarrow> string list \<Rightarrow> string list \<Rightarrow> bool" for root follow where
  stop: "resolves root follow links cur [] cur"
| skip: "kind_at root cur = Some KDir \<Longrightarrow> c = [] \<or> c = ''.'' \<Longrightarrow> resolves root follow links cur cs q \<Longrightarrow>
    resolves root follow links cur (c # cs) q"
| up: "kind_at root cur = Some KDir \<Longrightarrow> c = ''..'' \<Longrightarrow> resolves root follow links (butlast cur) cs q \<Longrightarrow>
    resolves root follow links cur (c # cs) q"
| missing: "kind_at root cur = Some KDir \<Longrightarrow> c \<noteq> [] \<Longrightarrow> c \<noteq> ''.'' \<Longrightarrow> c \<noteq> ''..'' \<Longrightarrow> kind_at root (cur @ [c]) = None \<Longrightarrow>
    resolves root follow links cur [c] (cur @ [c])"
| final: "kind_at root cur = Some KDir \<Longrightarrow> c \<noteq> [] \<Longrightarrow> c \<noteq> ''.'' \<Longrightarrow> c \<noteq> ''..'' \<Longrightarrow>
    kind_at root (cur @ [c]) = Some (KLink target) \<Longrightarrow> \<not> follow \<Longrightarrow> resolves root follow links cur [c] (cur @ [c])"
| link: "kind_at root cur = Some KDir \<Longrightarrow> c \<noteq> [] \<Longrightarrow> c \<noteq> ''.'' \<Longrightarrow> c \<noteq> ''..'' \<Longrightarrow>
    kind_at root (cur @ [c]) = Some (KLink target) \<Longrightarrow> cs \<noteq> [] \<or> follow \<Longrightarrow>
    resolves root follow l (if is_rooted target then [] else cur) (split_on slash target @ cs) q \<Longrightarrow>
    resolves root follow (Suc l) cur (c # cs) q"
| down: "kind_at root cur = Some KDir \<Longrightarrow> c \<noteq> [] \<Longrightarrow> c \<noteq> ''.'' \<Longrightarrow> c \<noteq> ''..'' \<Longrightarrow> kind_at root (cur @ [c]) = Some k \<Longrightarrow>
    k = KFile \<or> k = KDir \<Longrightarrow> resolves root follow links (cur @ [c]) cs q \<Longrightarrow> resolves root follow links cur (c # cs) q"

lemma resolve_resolves: "resolve links root cur cs follow = Inr q \<Longrightarrow> resolves root follow links cur cs q"
proof (induction links arbitrary: cur cs rule: less_induct)
  case (less links)
  from less.prems show ?case
  proof (induction cs arbitrary: cur)
    case Nil
    then show ?case by (simp add: resolves.stop)
  next
    case (Cons c cs)
    from Cons.prems show ?case
      by (cases rule: resolve_step_cases)
        (use Cons.IH less.IH in \<open>auto simp del: split_on.simps intro: resolves.intros\<close>)
  qed
qed

lemma resolves_resolve: "resolves root follow links cur cs q \<Longrightarrow> resolve links root cur cs follow = Inr q"
  by (induction rule: resolves.induct) (auto simp: resolve_Cons)

lemma resolve_iff: "resolve links root cur cs follow = Inr q \<longleftrightarrow> resolves root follow links cur cs q"
  using resolve_resolves resolves_resolve by blast

lemma kind_dir_butlast: "kind_at n p = Some KDir \<Longrightarrow> kind_at n (butlast p) = Some KDir"
proof (cases p rule: rev_cases)
  case (snoc q c)
  then show "kind_at n p = Some KDir \<Longrightarrow> ?thesis" using kind_at_prefix [of n q "[c]"] by (auto simp: kind_at_def)
qed simp

text \<open>The directory of a resolved path exists.\<close>

lemma resolves_parent:
  "resolves root follow links cur cs q \<Longrightarrow> kind_at root [] = Some KDir \<Longrightarrow> kind_at root (butlast cur) = Some KDir \<Longrightarrow>
   kind_at root (butlast q) = Some KDir"
  by (induction rule: resolves.induct) (auto intro: kind_dir_butlast)

text \<open>Creating the file a path resolves to does not change what it resolves to.\<close>

lemma resolve_after_create:
  assumes "resolves root follow links cur cs q" "kind_at root q = None \<or> kind_at root q = Some KFile"
    and k: "\<And>p. kind_at root' p = (if prefix q p then (if p = q then Some KFile else None) else kind_at root p)"
  shows "resolve links root' cur cs follow = Inr q"
proof -
  have above: "\<not> prefix q p" if "kind_at root p = Some KDir" for p
  proof
    assume "prefix q p"
    then obtain r where "p = q @ r" by (auto simp: prefix_def)
    then have "kind_at root q = Some KDir" using that kind_at_prefix [of root q r] by (cases "r = []") (auto simp: kind_at_def)
    then show False using assms(2) by simp
  qed
  have d: "kind_at root' p = Some KDir" if "kind_at root p = Some KDir" for p using above [OF that] that k by simp
  have l: "kind_at root' (p @ [c]) = Some (KLink t)" if "kind_at root p = Some KDir" "kind_at root (p @ [c]) = Some (KLink t)" for p c t
    using above [OF that(1)] that(2) assms(2) k by (auto simp: prefix_snoc)
  have f: "kind_at root' (p @ [c]) = Some k'" if "kind_at root p = Some KDir" "kind_at root (p @ [c]) = Some k'" "k' = KFile \<or> k' = KDir" for p c k'
    using above [OF that(1)] that(2,3) assms(2) k by (auto simp: prefix_snoc)
  show ?thesis
    using assms(1,2) k
  proof (induction rule: resolves.induct)
    case (missing cur c links)
    then show ?case using d [OF missing(1)] by (simp add: resolve_Cons)
  next
    case (final cur c target links)
    then show ?case by simp
  next
    case (link cur c target cs l q)
    then show ?case using d [OF link(1)] l [OF link(1,5)] by (simp add: resolve_Cons) blast
  next
    case (down cur c k' links cs q)
    then show ?case using d [OF down(1)] f [OF down(1,5,6)] by (auto simp: resolve_Cons)
  qed (use d in \<open>auto simp: resolve_Cons\<close>)
qed

text \<open>A path without links resolves to itself.\<close>

lemma resolve_no_links:
  "resolve links root cur cs follow = Inr q \<Longrightarrow> \<forall>c \<in> set cs. is_name c \<Longrightarrow>
   (\<And>k t. kind_at root (cur @ take k cs) \<noteq> Some (KLink t)) \<Longrightarrow> q = cur @ cs"
proof (induction cs arbitrary: cur)
  case (Cons c cs)
  have n: "c \<noteq> []" "c \<noteq> ''.''" "c \<noteq> ''..''" using Cons.prems(2) is_nameD [of c] by simp_all
  have nl: "kind_at root (cur @ [c]) \<noteq> Some (KLink t)" for t using Cons.prems(3) [of 1 t] by simp
  have rest: "kind_at root ((cur @ [c]) @ take k cs) \<noteq> Some (KLink t)" for k t using Cons.prems(3) [of "Suc k" t] by simp
  from Cons.prems(1) show ?case
    by (cases rule: resolve_step_cases) (use n nl rest Cons.IH [of "cur @ [c]"] Cons.prems(2) in auto)
qed simp

lemma resolve_split_render:
  assumes "\<forall>c \<in> set es. is_name c" "kind_at root [] = Some KDir"
  shows "resolve links root [] (split_on slash (render_path True es)) follow = resolve links root [] es follow"
proof (cases "es = []")
  case True
  then show ?thesis using assms(2) by (simp add: render_path_def resolve_Cons)
next
  case False
  have "split_on slash (join_with slash es) = es" using assms(1) False is_nameD(4) by (intro split_join) auto
  then show ?thesis using assms(2) by (simp add: render_path_def resolve_Cons)
qed

lemma os_resolve_render:
  "\<forall>c \<in> set es. is_name c \<Longrightarrow> kind_at (fs_root fs) [] = Some KDir \<Longrightarrow>
   os_resolve fs (render_path True es) follow = resolve kernel_links (fs_root fs) [] es follow"
  using resolve_split_render by (simp add: os_resolve_def) (simp add: render_path_def)

end
