(* ===== verification/Sync_Filter.thy ===== *)
theory Sync_Filter
  imports Safepath
begin

text \<open>
  The two filters of the daemon, \<open>src/pkg/syncer/selfwrite.go\<close> and \<open>sensitive_filter.go\<close>, with the exclude
  test of \<open>scan.go\<close>. The glob library doublestar is a parameter, a record of the three functions the code calls.
  The clock is an argument; a nil filter is \<^const>\<open>None\<close>.
\<close>

section \<open>Definitions\<close>

subsection \<open>Self-write suppression\<close>

record self_write_filter =
  sw_ttl :: int
  sw_entries :: "(string \<times> int) list"

definition newSelfWriteFilter :: "int \<Rightarrow> self_write_filter" where
  "newSelfWriteFilter ttl = \<lparr>sw_ttl = ttl, sw_entries = []\<rparr>"

definition Remember :: "int \<Rightarrow> string list \<Rightarrow> self_write_filter option \<Rightarrow> self_write_filter option" where
  "Remember now paths f =
     (case f of
        None \<Rightarrow> None
      | Some f \<Rightarrow>
          if sw_ttl f \<le> 0 then Some f
          else
            (let expiry = now + sw_ttl f
             in Some (f\<lparr>sw_entries := foldl (\<lambda>es p. AList.update (ToSlash p) expiry es) (sw_entries f) paths\<rparr>)))"

definition ShouldSuppress :: "int \<Rightarrow> string \<Rightarrow> self_write_filter option \<Rightarrow> self_write_filter option \<times> bool" where
  "ShouldSuppress now p f =
     (case f of
        None \<Rightarrow> (None, False)
      | Some f \<Rightarrow>
          if sw_ttl f \<le> 0 then (Some f, False)
          else
            (let key = ToSlash p;
                 es = filter (\<lambda>(_, expiry). now < expiry) (sw_entries f)
             in (Some (f\<lparr>sw_entries := es\<rparr>),
                 case map_of es key of Some expiry \<Rightarrow> now < expiry | None \<Rightarrow> False)))"

subsection \<open>Sensitive paths\<close>

text \<open>\<open>doublestar.ValidatePattern\<close>, \<open>doublestar.MatchUnvalidated\<close> and \<open>doublestar.Match\<close>, whose error is
  \<^const>\<open>None\<close>.\<close>

record glob =
  g_valid :: "string \<Rightarrow> bool"
  g_match_unvalidated :: "string \<Rightarrow> string \<Rightarrow> bool"
  g_match :: "string \<Rightarrow> string \<Rightarrow> bool option"

definition defaultSensitivePatterns :: "string list" where
  "defaultSensitivePatterns =
     [''.env'', ''.env.*'', ''*.pem'', ''*.key'', ''*.p12'', ''*.pfx'', ''*.crt'', ''*.cer'', ''*.p8'',
      ''id_rsa'', ''id_dsa'', ''id_ecdsa'', ''id_ed25519'', ''*_secret'', ''*_secret.*'']"

record sensitive_filter =
  patterns :: "string list"

definition normalizePattern :: "string \<Rightarrow> string" where
  "normalizePattern p = replace_backslash (trim_space p)"

text \<open>The error names the raw pattern that is invalid.\<close>

fun add_patterns :: "glob \<Rightarrow> string list \<Rightarrow> string list \<Rightarrow> string + string list" where
  "add_patterns g acc [] = Inr acc"
| "add_patterns g acc (raw # rest) =
     (let p = normalizePattern raw in
      if p = [] \<or> \<not> g_valid g p then Inl raw else add_patterns g (acc @ [p]) rest)"

definition NewSensitiveFilter :: "glob \<Rightarrow> string list \<Rightarrow> string + sensitive_filter" where
  "NewSensitiveFilter g extra =
     (case add_patterns g defaultSensitivePatterns extra of
        Inl raw \<Rightarrow> Inl raw
      | Inr ps \<Rightarrow> Inr \<lparr>patterns = ps\<rparr>)"

definition normalizeRelativePath :: "string \<Rightarrow> string" where
  "normalizeRelativePath relPath =
     (let relPath = ToSlash relPath in
      if relPath = [] \<or> relPath = ''.'' \<or> relPath = [slash] then []
      else
        (let cleaned = trim_prefix (path_clean relPath) [slash]
         in if cleaned = ''.'' then [] else cleaned))"

text \<open>The loop over the parents. Each parent is shorter than the one before it, so as many rounds as the path
  has characters are enough; \<open>pathCandidates_elems\<close> shows that the loop ends by its own condition.\<close>

fun parent_loop :: "nat \<Rightarrow> string \<Rightarrow> string \<Rightarrow> string list" where
  "parent_loop 0 relPath parent = []"
| "parent_loop (Suc n) relPath parent =
     (if parent \<noteq> ''.'' \<and> parent \<noteq> [slash] \<and> parent \<noteq> relPath
      then parent # parent_loop n relPath (path_dir parent)
      else [])"

definition pathCandidates :: "string \<Rightarrow> string list" where
  "pathCandidates relPath = relPath # parent_loop (length relPath) relPath (path_dir relPath)"

definition matchSensitivePattern :: "glob \<Rightarrow> string \<Rightarrow> string \<Rightarrow> bool" where
  "matchSensitivePattern g candidate pattern =
     (let target = (if slash \<notin> set pattern then path_base candidate else candidate) in
      if g_match_unvalidated g pattern target then True
      else if slash \<in> set pattern \<and> suffix ''/**'' pattern
           then candidate = trim_suffix pattern ''/**''
      else False)"

definition sensitive_Match :: "glob \<Rightarrow> sensitive_filter option \<Rightarrow> string \<Rightarrow> bool" where
  "sensitive_Match g f relPath =
     (case f of
        None \<Rightarrow> False
      | Some f \<Rightarrow>
          if patterns f = [] then False
          else
            (let rel = normalizeRelativePath relPath in
             if rel = [] then False
             else list_ex (\<lambda>candidate. list_ex (matchSensitivePattern g candidate) (patterns f)) (pathCandidates rel)))"

definition isSensitivePath :: "glob \<Rightarrow> sensitive_filter option \<Rightarrow> string \<Rightarrow> bool" where
  "isSensitivePath g f relPath = (f \<noteq> None \<and> sensitive_Match g f relPath)"

definition matchExclude :: "glob \<Rightarrow> string \<Rightarrow> string list \<Rightarrow> bool" where
  "matchExclude g rel ps =
     list_ex (\<lambda>p. g_match g p (if slash \<notin> set p then path_base rel else rel) = Some True) ps"

section \<open>The candidates of a path\<close>

lemma normalizeRelativePath_elems: "normalizeRelativePath p = rel_path (clean_elems (ToSlash p))"
  using rooted_trim [of p] unfolding normalizeRelativePath_def ToSlash_def Let_def by (simp only: disj_ac)

text \<open>The relative paths that cleaning gives: some \<open>..\<close>, then ordinary elements.\<close>

lemma normal_elems_butlast:
  assumes "normal_elems r (es @ [c])" shows "normal_elems r es"
proof -
  obtain k ns where e: "es @ [c] = replicate k ''..'' @ ns" "r \<Longrightarrow> k = 0" "\<And>x. x \<in> set ns \<Longrightarrow> is_name x"
    using assms by (elim normal_elemsE) blast
  show ?thesis
  proof (cases ns rule: rev_cases)
    case Nil
    then obtain j where j: "k = Suc j" using e(1) by (cases k) auto
    then have "es @ [c] = replicate j ''..'' @ [''..'']"
      using e(1) Nil by (simp add: replicate_append_same del: replicate_Suc flip: replicate_Suc)
    then have "es = replicate j ''..''" by simp
    then show ?thesis using e(2) j by (intro normal_elemsI [of _ j "[]"]) auto
  next
    case (snoc ms x)
    then have "es = replicate k ''..'' @ ms" using e(1) by (simp flip: append_assoc)
    then show ?thesis using e snoc by (intro normal_elemsI [of _ k ms]) auto
  qed
qed

lemma normal_elems_take: "normal_elems r es \<Longrightarrow> normal_elems r (take k es)"
proof (induction es rule: rev_induct)
  case (snoc c es)
  then show ?case using normal_elems_butlast [OF snoc.prems] by (cases "k \<le> length es") auto
qed simp

lemma clean_elems_trailing: "q \<noteq> [] \<Longrightarrow> clean_elems (q @ [slash]) = clean_elems q"
  by (simp add: clean_elems_def split_on_append [of slash q "[]", simplified])

lemma path_dir_snoc:
  assumes n: "normal_elems False (es @ [c])"
  shows "path_dir (rel_path (es @ [c])) = (if es = [] then ''.'' else rel_path es)"
proof -
  have c: "slash \<notin> set c" using normal_elems_no_slash [OF n] by simp
  have ne: "normal_elems False es" using n by (rule normal_elems_butlast)
  show ?thesis
  proof (cases "es = []")
    case True
    then have "path_dirpart (rel_path (es @ [c])) = []"
      using c by (auto simp: path_dirpart_def rel_path_def dropWhile_eq_Nil_conv)
    then show ?thesis using True by (simp add: path_dir_def path_clean_def clean_elems_def render_path_def)
  next
    case False
    have "rel_path (es @ [c]) = rel_path es @ slash # c" using False by (simp add: rel_path_def join_with_snoc)
    then have d: "path_dirpart (rel_path (es @ [c])) = rel_path es @ [slash]"
      using c by (simp add: path_dirpart_def dropWhile_append)
    have r: "rel_path es = render_path False es" using False by (simp add: rel_path_def render_path_def)
    have "rel_path es \<noteq> []" using False normal_elems_nonempty [OF ne, of "[]"] by (auto simp: rel_path_def)
    moreover have "\<not> is_rooted (rel_path es)" using is_rooted_render [OF ne] r by simp
    ultimately show ?thesis
      using False clean_elems_trailing [of "rel_path es"] clean_elems_render [OF ne]
      by (simp add: path_dir_def d path_clean_def) (simp add: r)
  qed
qed

lemma rel_path_neq:
  assumes "normal_elems False es" "es \<noteq> []"
  shows "rel_path es \<noteq> ''.''" "rel_path es \<noteq> [slash]" "rel_path es \<noteq> []"
proof -
  have r: "rel_path es = render_path False es" using assms by (simp add: rel_path_def render_path_def)
  have c: "clean_elems (rel_path es) = es" using clean_elems_render [OF assms(1)] r by simp
  have "clean_elems ''.'' = []" "clean_elems [slash] = []" "clean_elems [] = []" by code_simp+
  then show "rel_path es \<noteq> ''.''" "rel_path es \<noteq> [slash]" "rel_path es \<noteq> []" using c assms(2) by metis+
qed

lemma length_rel_path: "normal_elems False es \<Longrightarrow> length es \<le> length (rel_path es)"
proof (induction es rule: rev_induct)
  case (snoc c es)
  have "c \<noteq> []" using normal_elems_nonempty [OF snoc.prems, of c] by simp
  then have "1 \<le> length c" by (cases c) auto
  then show ?case
    using snoc.IH [OF normal_elems_butlast [OF snoc.prems]]
    by (cases "es = []") (simp_all add: rel_path_def join_with_snoc)
qed simp

lemma rel_path_inject:
  assumes "normal_elems False es" "normal_elems False fs" "rel_path es = rel_path fs"
  shows "es = fs"
proof (cases "es = [] \<or> fs = []")
  case True
  moreover have "rel_path [] = []" by (simp add: rel_path_def)
  ultimately show ?thesis using assms rel_path_neq(3) by metis
next
  case False
  then have "render_path False es = render_path False fs" using assms(3) by (simp add: rel_path_def render_path_def)
  then show ?thesis using clean_elems_render assms(1,2) by metis
qed

definition ancestors :: "string list \<Rightarrow> string list" where
  "ancestors es = map (\<lambda>k. rel_path (take k es)) (rev [1..<Suc (length es)])"

lemma ancestors_snoc: "ancestors (es @ [c]) = rel_path (es @ [c]) # ancestors es"
  by (auto simp: ancestors_def)

lemma set_ancestors: "set (ancestors es) = {rel_path (take k es) |k. 0 < k \<and> k \<le> length es}"
proof -
  have "set [1..<Suc (length es)] = {k. 0 < k \<and> k \<le> length es}" by auto
  then show ?thesis unfolding ancestors_def set_map set_rev by blast
qed

lemma parent_loop_elems:
  assumes "normal_elems False es" "es \<noteq> []" "length es \<le> n"
    and "\<And>k. k \<le> length es \<Longrightarrow> relPath \<noteq> rel_path (take k es)"
  shows "parent_loop n relPath (rel_path es) = ancestors es"
  using assms
proof (induction es arbitrary: n rule: rev_induct)
  case (snoc c es)
  obtain m where n: "n = Suc m" using snoc.prems(3) by (cases n) auto
  have neq: "rel_path (es @ [c]) \<noteq> relPath" using snoc.prems(4) [of "length (es @ [c])"] by simp
  have "parent_loop n relPath (rel_path (es @ [c]))
      = rel_path (es @ [c]) # parent_loop m relPath (path_dir (rel_path (es @ [c])))"
    using rel_path_neq [OF snoc.prems(1,2)] neq by (simp add: n)
  moreover have "parent_loop m relPath (path_dir (rel_path (es @ [c]))) = ancestors es"
  proof (cases "es = []")
    case True
    have "path_dir (rel_path (es @ [c])) = ''.''" using path_dir_snoc [OF snoc.prems(1)] True by (simp only: if_True simp_thms)
    then show ?thesis using True by (cases m) (simp_all add: ancestors_def)
  next
    case False
    have "relPath \<noteq> rel_path (take k es)" if "k \<le> length es" for k
      using snoc.prems(4) [of k] that by simp
    then show ?thesis
      using False snoc.IH [OF normal_elems_butlast [OF snoc.prems(1)] False] snoc.prems(3) n
      by (simp add: path_dir_snoc [OF snoc.prems(1)])
  qed
  ultimately show ?case by (simp add: ancestors_snoc)
qed simp

text \<open>The candidates are the path and all its ancestors, nearest first.\<close>

lemma pathCandidates_elems:
  assumes n: "normal_elems False es" and "es \<noteq> []"
  shows "pathCandidates (rel_path es) = ancestors es"
proof -
  obtain ds c where es: "es = ds @ [c]" using assms(2) by (cases es rule: rev_cases) auto
  have nd: "normal_elems False ds" using n normal_elems_butlast es by blast
  show ?thesis
  proof (cases "ds = []")
    case True
    have "path_dir (rel_path es) = ''.''" using path_dir_snoc [of ds c] n es True by (simp only: if_True simp_thms)
    then show ?thesis using True by (cases "length (rel_path es)") (simp_all add: pathCandidates_def es ancestors_def)
  next
    case False
    have "rel_path es \<noteq> rel_path (take k ds)" for k
    proof
      assume "rel_path es = rel_path (take k ds)"
      then have "length es = length (take k ds)" using rel_path_inject [OF n normal_elems_take [OF nd]] by metis
      then show False by (simp add: es)
    qed
    moreover have "length ds \<le> length (rel_path es)" using length_rel_path [OF n] es by simp
    ultimately show ?thesis
      using parent_loop_elems [OF nd False] n es False
      by (simp add: pathCandidates_def path_dir_snoc ancestors_snoc)
  qed
qed

lemma normal_elems_False: "normal_elems r es \<Longrightarrow> normal_elems False es"
  by (elim normal_elemsE) (auto intro: normal_elemsI)

text \<open>A path is sensitive when a pattern matches it or an ancestor of it.\<close>

lemma sensitive_Match_iff:
  "sensitive_Match g (Some f) p \<longleftrightarrow>
     (\<exists>k pat. 0 < k \<and> k \<le> length (clean_elems (ToSlash p)) \<and> pat \<in> set (patterns f)
        \<and> matchSensitivePattern g (rel_path (take k (clean_elems (ToSlash p)))) pat)"
proof -
  let ?es = "clean_elems (ToSlash p)"
  have n: "normal_elems False ?es" using normal_clean_elems normal_elems_False by blast
  show ?thesis
  proof (cases "?es = []")
    case True
    then show ?thesis
      by (auto simp: sensitive_Match_def normalizeRelativePath_elems rel_path_def Let_def)
  next
    case False
    then have "sensitive_Match g (Some f) p \<longleftrightarrow>
        (\<exists>cand \<in> set (ancestors ?es). \<exists>pat \<in> set (patterns f). matchSensitivePattern g cand pat)"
      using rel_path_neq(3) [OF n] pathCandidates_elems [OF n]
      by (auto simp: sensitive_Match_def normalizeRelativePath_elems Let_def list_ex_iff)
    then show ?thesis unfolding set_ancestors by blast
  qed
qed

lemma sensitive_below:
  assumes "sensitive_Match g (Some f) p" "prefix (clean_elems (ToSlash p)) (clean_elems (ToSlash q))"
  shows "sensitive_Match g (Some f) q"
proof -
  obtain zs where z: "clean_elems (ToSlash q) = clean_elems (ToSlash p) @ zs" using assms(2) by (auto simp: prefix_def)
  obtain k pat where "0 < k" "k \<le> length (clean_elems (ToSlash p))" "pat \<in> set (patterns f)"
    "matchSensitivePattern g (rel_path (take k (clean_elems (ToSlash p)))) pat"
    using assms(1) unfolding sensitive_Match_iff by blast
  then show ?thesis unfolding sensitive_Match_iff z by (intro exI [of _ k] exI [of _ pat]) simp
qed

section \<open>The documented behaviour of the glob library\<close>

text \<open>A pattern without special characters matches itself, and \<open>*\<close> matches any run of characters other than
  the separator. Nothing else about the library is used.\<close>

definition plain :: "string \<Rightarrow> bool" where
  "plain p = list_all (\<lambda>c. c \<notin> set ''*?[]{}'' \<and> c \<noteq> backslash \<and> c \<noteq> slash) p"

abbreviation star :: char where "star \<equiv> CHR ''*''"

definition glob_documented :: "glob \<Rightarrow> bool" where
  "glob_documented g =
     ((\<forall>p t. plain p \<longrightarrow> g_match_unvalidated g p t = (t = p))
      \<and> (\<forall>p t. plain p \<longrightarrow> g_match_unvalidated g (star # p) t = (\<exists>u. t = u @ p \<and> slash \<notin> set u))
      \<and> (\<forall>p t. plain p \<longrightarrow> g_match_unvalidated g (p @ [star]) t = (\<exists>u. t = p @ u \<and> slash \<notin> set u))
      \<and> (\<forall>p t. plain p \<longrightarrow> g_match_unvalidated g (star # p @ [star]) t
             = (\<exists>u v. t = u @ p @ v \<and> slash \<notin> set u \<and> slash \<notin> set v)))"

definition is_secret_name :: "string \<Rightarrow> bool" where
  "is_secret_name c =
     (c \<in> {''.env'', ''id_rsa'', ''id_dsa'', ''id_ecdsa'', ''id_ed25519''} \<or> prefix ''.env.'' c
      \<or> list_ex (\<lambda>s. suffix s c) [''.pem'', ''.key'', ''.p12'', ''.pfx'', ''.crt'', ''.cer'', ''.p8'', ''_secret'']
      \<or> sublist ''_secret.'' c)"

lemma path_base_snoc:
  assumes n: "normal_elems False (es @ [c])"
  shows "path_base (rel_path (es @ [c])) = c"
proof -
  have c: "slash \<notin> set c" "c \<noteq> []" using normal_elems_no_slash [OF n] normal_elems_nonempty [OF n] by simp_all
  have ne: "rel_path (es @ [c]) \<noteq> []" using rel_path_neq(3) [OF n] by simp
  have r: "rel_path (es @ [c]) = (if es = [] then c else rel_path es @ slash # c)"
    by (simp add: rel_path_def join_with_snoc)
  have "dropWhile (\<lambda>x. x = slash) (rev (rel_path (es @ [c]))) = rev (rel_path (es @ [c]))"
    unfolding r using c by (cases "rev c") (auto simp: rev_swap)
  moreover have "path_file (rel_path (es @ [c])) = c"
    unfolding r using c takeWhile_until_sep [of slash "rev c" "rev (rel_path es)"]
    by (auto simp: path_file_def takeWhile_no_sep)
  ultimately show ?thesis using ne c by (simp add: path_base_def Let_def)
qed

lemma secret_pattern:
  assumes g: "glob_documented g" and c: "is_secret_name c" "slash \<notin> set c"
  shows "\<exists>pat \<in> set defaultSensitivePatterns. slash \<notin> set pat \<and> g_match_unvalidated g pat c"
proof -
  have m: "plain p \<Longrightarrow> g_match_unvalidated g p p"
    "plain p \<Longrightarrow> suffix p c \<Longrightarrow> g_match_unvalidated g (star # p) c"
    "plain p \<Longrightarrow> prefix p c \<Longrightarrow> g_match_unvalidated g (p @ [star]) c" for p
    using g c(2) unfolding glob_documented_def suffix_def prefix_def by auto
  have m4: "g_match_unvalidated g (star # p @ [star]) c" if p: "plain p" "sublist p c" for p
  proof -
    obtain u v where "c = u @ p @ v" "slash \<notin> set u" "slash \<notin> set v" using p(2) c(2) by (auto simp: sublist_def)
    then show ?thesis using g p(1) unfolding glob_documented_def by blast
  qed
  have pl: "plain ''.env''" "plain ''id_rsa''" "plain ''id_dsa''" "plain ''id_ecdsa''" "plain ''id_ed25519''"
    "plain ''.env.''" "plain ''.pem''" "plain ''.key''" "plain ''.p12''" "plain ''.pfx''" "plain ''.crt''"
    "plain ''.cer''" "plain ''.p8''" "plain ''_secret''" "plain ''_secret.''"
    by (simp_all add: plain_def)
  note lits = m(1) [OF pl(1)] m(1) [OF pl(2)] m(1) [OF pl(3)] m(1) [OF pl(4)] m(1) [OF pl(5)]
  note sufs = m(2) [OF pl(7)] m(2) [OF pl(8)] m(2) [OF pl(9)] m(2) [OF pl(10)] m(2) [OF pl(11)] m(2) [OF pl(12)]
    m(2) [OF pl(13)] m(2) [OF pl(14)]
  note rest = m(3) [OF pl(6)] m4 [OF pl(15)]
  consider "c \<in> {''.env'', ''id_rsa'', ''id_dsa'', ''id_ecdsa'', ''id_ed25519''}" | "prefix ''.env.'' c"
    | "list_ex (\<lambda>s. suffix s c) [''.pem'', ''.key'', ''.p12'', ''.pfx'', ''.crt'', ''.cer'', ''.p8'', ''_secret'']"
    | "sublist ''_secret.'' c"
    using c(1) unfolding is_secret_name_def by blast
  then show ?thesis
  proof cases
    case 1
    then show ?thesis unfolding defaultSensitivePatterns_def using lits by auto
  next
    case 2
    from rest(1) [OF this] show ?thesis unfolding defaultSensitivePatterns_def by simp
  next
    case 3
    then show ?thesis unfolding defaultSensitivePatterns_def using sufs by auto
  next
    case 4
    from rest(2) [OF this] show ?thesis unfolding defaultSensitivePatterns_def by simp
  qed
qed

lemma add_patterns_keeps: "add_patterns g acc raws = Inr ps \<Longrightarrow> set acc \<subseteq> set ps"
  by (induction g acc raws rule: add_patterns.induct) (auto simp: Let_def split: if_splits)

section \<open>Properties\<close>

text \<open>Whatever patterns the user adds, every path with an element that names a secret (a dotenv file, a
  private key, a certificate, a secret file) is sensitive, and so is everything below it.\<close>

theorem default_secrets_blocked:
  assumes "glob_documented g" "NewSensitiveFilter g extra = Inr f"
    and "c \<in> set (clean_elems (ToSlash p))" "is_secret_name c"
  shows "sensitive_Match g (Some f) p"
proof -
  let ?es = "clean_elems (ToSlash p)"
  have n: "normal_elems False ?es" using normal_clean_elems normal_elems_False by blast
  obtain i where i: "i < length ?es" "?es ! i = c" using assms(3) by (auto simp: in_set_conv_nth)
  have t: "take (Suc i) ?es = take i ?es @ [c]" using i by (simp add: take_Suc_conv_app_nth)
  have nt: "normal_elems False (take i ?es @ [c])" using normal_elems_take [OF n, of "Suc i"] t by simp
  have "slash \<notin> set c" using normal_elems_no_slash [OF n assms(3)] .
  then obtain pat where pat: "pat \<in> set defaultSensitivePatterns" "slash \<notin> set pat" "g_match_unvalidated g pat c"
    using secret_pattern [OF assms(1,4)] by blast
  have "pat \<in> set (patterns f)"
    using assms(2) pat(1) add_patterns_keeps [of g defaultSensitivePatterns extra]
    by (auto simp: NewSensitiveFilter_def split: sum.splits)
  moreover have "matchSensitivePattern g (rel_path (take (Suc i) ?es)) pat"
    using pat path_base_snoc [OF nt] by (simp add: matchSensitivePattern_def t)
  ultimately show ?thesis unfolding sensitive_Match_iff using i by (intro exI [of _ "Suc i"] exI [of _ pat]) simp
qed

text \<open>A matcher for literals and \<open>*\<close>, to run the model on.\<close>

fun star_match :: "string \<Rightarrow> string \<Rightarrow> bool" where
  "star_match [] t = (t = [])"
| "star_match (c # p) [] = (c = star \<and> star_match p [])"
| "star_match (c # p) (d # t) =
     (if c = star then star_match p (d # t) \<or> (d \<noteq> slash \<and> star_match (c # p) t) else c = d \<and> star_match p t)"

definition star_glob :: glob where
  "star_glob = \<lparr>g_valid = (\<lambda>p. True), g_match_unvalidated = star_match, g_match = (\<lambda>p t. Some (star_match p t))\<rparr>"

lemma star_match_plain: "plain p \<Longrightarrow> star_match (p @ q) t = (\<exists>v. t = p @ v \<and> star_match q v)"
  by (induction p arbitrary: t) (case_tac [2] t, auto simp: plain_def)

lemma ex_split_Cons:
  "(\<exists>u v. d # t = u @ v \<and> x \<notin> set u \<and> P v) \<longleftrightarrow> P (d # t) \<or> (d \<noteq> x \<and> (\<exists>u v. t = u @ v \<and> x \<notin> set u \<and> P v))"
  (is "?l \<longleftrightarrow> ?r")
proof
  assume ?l
  then obtain u v where "d # t = u @ v" "x \<notin> set u" "P v" by blast
  then show ?r by (cases u) auto
next
  assume ?r
  then consider "P (d # t)" | u v where "d \<noteq> x" "t = u @ v" "x \<notin> set u" "P v" by blast
  then show ?l
  proof cases
    case 1
    then show ?thesis by (intro exI [of _ "[]"] exI [of _ "d # t"]) simp
  next
    case 2
    then show ?thesis by (intro exI [of _ "d # u"] exI [of _ v]) auto
  qed
qed

lemma star_match_star: "star_match (star # q) t = (\<exists>u v. t = u @ v \<and> slash \<notin> set u \<and> star_match q v)"
proof (induction t)
  case (Cons d t)
  show ?case unfolding ex_split_Cons using Cons.IH by simp
qed simp

lemma glob_documented_star: "glob_documented star_glob"
proof -
  have e: "star_match [] v \<longleftrightarrow> v = []" for v by simp
  have "star_match [star] v \<longleftrightarrow> slash \<notin> set v" for v
    using star_match_star [of "[]" v] by auto
  then show ?thesis
    using star_match_plain [of _ "[]"] star_match_plain [of _ "[star]"]
    by (auto simp: glob_documented_def star_glob_def star_match_star simp del: star_match.simps simp add: e)
qed

theorem default_secrets_blocked_witness:
  "NewSensitiveFilter star_glob [] = Inr \<lparr>patterns = defaultSensitivePatterns\<rparr>
   \<and> sensitive_Match star_glob (Some \<lparr>patterns = defaultSensitivePatterns\<rparr>) ''cfg/server.pem/x''"
proof -
  have f: "NewSensitiveFilter star_glob [] = Inr \<lparr>patterns = defaultSensitivePatterns\<rparr>"
    by (simp add: NewSensitiveFilter_def)
  have c: "''server.pem'' \<in> set (clean_elems (ToSlash ''cfg/server.pem/x''))" by code_simp
  have s: "is_secret_name ''server.pem''" by (simp add: is_secret_name_def suffix_def)
  show ?thesis using f default_secrets_blocked [OF glob_documented_star f c s] by simp
qed

text \<open>The daemon's own writes are recognised: after \<open>Remember\<close>, an event on one of the paths is suppressed
  until the time is over and not after, in either spelling of the separators; other paths are as before, and the
  test forgets nothing that is still in force.\<close>

theorem self_write_window:
  assumes "0 < sw_ttl f" "Remember now ps (Some f) = Some f1" "distinct (map fst (sw_entries f))"
  shows "(\<forall>p \<in> set ps. snd (ShouldSuppress t p (Some f1)) = (t < now + sw_ttl f))
    \<and> (\<forall>q. ToSlash q \<notin> ToSlash ` set ps \<longrightarrow>
         snd (ShouldSuppress t q (Some f1)) = snd (ShouldSuppress t q (Some f)))
    \<and> (\<forall>f2 r t'. fst (ShouldSuppress t r (Some f1)) = Some f2 \<and> t \<le> t' \<longrightarrow>
         snd (ShouldSuppress t' q (Some f2)) = snd (ShouldSuppress t' q (Some f1)))"
proof -
  have f1: "f1 = f\<lparr>sw_entries := foldl (\<lambda>es p. AList.update (ToSlash p) (now + sw_ttl f) es) (sw_entries f) ps\<rparr>"
    using assms(1,2) by (simp add: Remember_def Let_def split: if_splits)
  have m: "map_of (foldl (\<lambda>es p. AList.update (ToSlash p) e es) es ps)
      = (\<lambda>k. if k \<in> ToSlash ` set ps then Some e else map_of es k)" for e es
    by (induction ps arbitrary: es) (auto simp: fun_eq_iff)
  have d: "distinct (map fst (foldl (\<lambda>es p. AList.update (ToSlash p) e es) es ps))"
    if "distinct (map fst es)" for e es
    using that by (induction ps arbitrary: es) simp_all
  have fl: "map_of (filter (\<lambda>(_, x). u < x) es) k = (case map_of es k of Some x \<Rightarrow> if u < x then Some x else None | None \<Rightarrow> None)"
    if "distinct (map fst es)" for es :: "(string \<times> int) list" and u k
    using that by (induction es) (auto simp: map_of_eq_None_iff image_iff split: option.splits)
  have s: "snd (ShouldSuppress u q (Some h)) = (case map_of (sw_entries h) (ToSlash q) of Some x \<Rightarrow> u < x | None \<Rightarrow> False)"
    if "0 < sw_ttl h" "distinct (map fst (sw_entries h))" for h u q
    using that fl by (auto simp: ShouldSuppress_def Let_def split: option.splits)
  have ok: "0 < sw_ttl f1" "distinct (map fst (sw_entries f1))" using assms(1,3) d by (simp_all add: f1)
  have "snd (ShouldSuppress t' q (Some f2)) = snd (ShouldSuppress t' q (Some f1))"
    if "fst (ShouldSuppress t r (Some f1)) = Some f2" "t \<le> t'" for f2 r t'
  proof -
    have f2: "f2 = f1\<lparr>sw_entries := filter (\<lambda>(_, x). t < x) (sw_entries f1)\<rparr>"
      using that ok by (simp add: ShouldSuppress_def Let_def split: if_splits)
    have "distinct (map fst (sw_entries f2))" using ok(2) by (simp add: f2 distinct_map_filter)
    then show ?thesis
      using s [of f2] s [of f1] ok fl [OF ok(2)] that(2) by (auto simp: f2 split: option.splits)
  qed
  moreover have mf1: "map_of (sw_entries f1) k = (if k \<in> ToSlash ` set ps then Some (now + sw_ttl f) else map_of (sw_entries f) k)" for k
    unfolding f1 by (simp add: m del: foldl_Cons)
  have "\<forall>p \<in> set ps. snd (ShouldSuppress t p (Some f1)) = (t < now + sw_ttl f)"
    unfolding s [OF ok] mf1 by simp
  moreover have "snd (ShouldSuppress t q (Some f1)) = snd (ShouldSuppress t q (Some f))"
    if "ToSlash q \<notin> ToSlash ` set ps" for q
    unfolding s [OF ok] s [OF assms(1,3)] mf1 using that by (simp only: if_False)
  ultimately show ?thesis by blast
qed

theorem self_write_window_witness:
  "snd (ShouldSuppress 12 ''a'' (Remember 10 [''a''] (Some (newSelfWriteFilter 5))))"
proof -
  obtain f1 where f1: "Remember 10 [''a''] (Some (newSelfWriteFilter 5)) = Some f1"
    by (simp add: Remember_def newSelfWriteFilter_def Let_def)
  show ?thesis
    using self_write_window [of "newSelfWriteFilter 5" 10 "[''a'']" f1 12] f1 by (simp add: newSelfWriteFilter_def)
qed

end
