(* ===== verification/Sync_Path.thy ===== *)
theory Sync_Path
  imports Osfs Sync_Filter
begin

text \<open>
  The daemon's path checks, \<open>src/pkg/syncer/path_resolution.go\<close> and the helpers of \<open>handle.go\<close> it uses: a request
  path is joined below the workspace root, its symbolic links are followed by hand, and the target is matched
  against the sensitive patterns. The routine that follows links is compared with the kernel's resolution.
\<close>

section \<open>Definitions\<close>

text \<open>\<open>strconv.Quote\<close>, the verb \<open>%q\<close>: control characters, quotes and backslashes are escaped. Bytes from 0x80 on are
  kept, as they are for printable UTF-8 text.\<close>

definition hex_digit :: "nat \<Rightarrow> char" where
  "hex_digit d = ''0123456789abcdef'' ! d"

definition quote_char :: "char \<Rightarrow> string" where
  "quote_char c =
     (let n = (of_char c :: nat) in
      if c = CHR 0x22 then [backslash, c]
      else if c = backslash then [backslash, backslash]
      else if n = 7 then [backslash, CHR ''a''] else if n = 8 then [backslash, CHR ''b'']
      else if n = 9 then [backslash, CHR ''t''] else if n = 10 then [backslash, CHR ''n'']
      else if n = 11 then [backslash, CHR ''v''] else if n = 12 then [backslash, CHR ''f'']
      else if n = 13 then [backslash, CHR ''r'']
      else if n < 32 \<or> n = 127 then [backslash, CHR ''x'', hex_digit (n div 16), hex_digit (n mod 16)]
      else [c])"

definition go_quote :: "string \<Rightarrow> string" where
  "go_quote s = CHR 0x22 # concat (map quote_char s) @ [CHR 0x22]"

fun sp_error_text :: "sp_error \<Rightarrow> string" where
  "sp_error_text ErrEmptyPath = ''safepath: empty path''"
| "sp_error_text ErrAbsoluteRel = ''safepath: relative path must not be absolute''"
| "sp_error_text ErrEscape = ''safepath: path escapes base''"
| "sp_error_text ErrBaseNotAbs = ''safepath: base must be absolute''"
| "sp_error_text ErrUnsafeSegment = ''safepath: unsafe path segment''"

definition resolveWorkspacePath :: "string \<Rightarrow> string \<Rightarrow> sp_error + string" where
  "resolveWorkspacePath root rel = (if rel = [] \<or> rel = ''.'' \<or> rel = [slash] then Inr root else Join root rel)"

definition joinRelPath :: "string \<Rightarrow> string \<Rightarrow> string" where
  "joinRelPath parent base =
     (let parent = ToSlash parent in if parent = [] \<or> parent = ''.'' then base else parent @ slash # base)"

record path_resolution_options =
  allowMissingLeaf :: bool
  followFinalSymlink :: bool

definition maxSymlinkResolveDepth :: nat where "maxSymlinkResolveDepth = 40"

text \<open>On Unix the volume name is empty.\<close>

definition splitAbsPath :: "string \<Rightarrow> string \<times> string list" where
  "splitAbsPath absp =
     (let rest = trim_prefix (path_clean absp) [slash]
      in ([slash], if rest = [] then [] else split_on slash rest))"

text \<open>The metadata, or \<^const>\<open>None\<close> for a missing leaf that is allowed.\<close>

definition lstatActionPath :: "osfs \<Rightarrow> string \<Rightarrow> bool \<Rightarrow> bool \<Rightarrow> go_err + os_info option" where
  "lstatActionPath fs p isLeaf allowMissing =
     (case os_Lstat fs p of
        Inr info \<Rightarrow> Inr (Some info)
      | Inl e \<Rightarrow> if allowMissing \<and> isLeaf \<and> is_not_exist e then Inr None else Inl e)"

definition shouldFollowSymlink :: "os_info \<Rightarrow> bool \<Rightarrow> bool \<Rightarrow> bool" where
  "shouldFollowSymlink info isLeaf followFinal = (oi_islink info \<and> (followFinal \<or> \<not> isLeaf))"

definition expandSymlinkTarget :: "osfs \<Rightarrow> string \<Rightarrow> string list \<Rightarrow> go_err + string" where
  "expandSymlinkTarget fs p remaining =
     (case os_Readlink fs p of
        Inl e \<Rightarrow> Inl e
      | Inr target \<Rightarrow>
          (let target = (if \<not> is_abs target then fp_join [path_dir p, target] else target)
           in if remaining = [] then Inr target else Inr (fp_join [target, fp_join remaining])))"

datatype pass_result = Resolved string | Restart string

fun pass_loop :: "osfs \<Rightarrow> path_resolution_options \<Rightarrow> string \<Rightarrow> string list \<Rightarrow> go_err + pass_result" where
  "pass_loop fs opts resolved [] = Inr (Resolved resolved)"
| "pass_loop fs opts resolved (part # rest) =
     (let next = fp_join [resolved, part] in
      case lstatActionPath fs next (rest = []) (allowMissingLeaf opts) of
        Inl e \<Rightarrow> Inl e
      | Inr None \<Rightarrow> Inr (Resolved next)
      | Inr (Some info) \<Rightarrow>
          if \<not> shouldFollowSymlink info (rest = []) (followFinalSymlink opts) then pass_loop fs opts next rest
          else
            (case expandSymlinkTarget fs next rest of
               Inl e \<Rightarrow> Inl e
             | Inr target \<Rightarrow> Inr (Restart (path_clean target))))"

definition resolveActionTargetPass :: "osfs \<Rightarrow> path_resolution_options \<Rightarrow> string \<Rightarrow> go_err + pass_result" where
  "resolveActionTargetPass fs opts current =
     (let (resolved, parts) = splitAbsPath current in pass_loop fs opts resolved parts)"

fun depth_loop :: "nat \<Rightarrow> osfs \<Rightarrow> path_resolution_options \<Rightarrow> string \<Rightarrow> string \<Rightarrow> go_err + string" where
  "depth_loop 0 fs opts absp current = Inl (TextError (''syncer: resolve '' @ go_quote absp @ '': too many symlinks''))"
| "depth_loop (Suc n) fs opts absp current =
     (case resolveActionTargetPass fs opts current of
        Inl e \<Rightarrow> Inl e
      | Inr (Resolved r) \<Rightarrow> Inr r
      | Inr (Restart next) \<Rightarrow> depth_loop n fs opts absp next)"

definition resolveActionTargetAbs :: "osfs \<Rightarrow> path_resolution_options \<Rightarrow> string \<Rightarrow> go_err + string" where
  "resolveActionTargetAbs fs opts absp = depth_loop maxSymlinkResolveDepth fs opts absp (path_clean absp)"

text \<open>The relative path of the target, or \<^const>\<open>None\<close> when the target is outside the workspace.\<close>

definition resolveActionTargetRel :: "osfs \<Rightarrow> path_resolution_options \<Rightarrow> string \<Rightarrow> string \<Rightarrow> go_err + string option" where
  "resolveActionTargetRel fs opts root relPath =
     (case resolveWorkspacePath root relPath of
        Inl e \<Rightarrow> Inl (TextError (sp_error_text e))
      | Inr absp \<Rightarrow>
          (case fp_EvalSymlinks fs root of
             Inl e \<Rightarrow> Inl e
           | Inr canonicalRoot \<Rightarrow>
               (case resolveActionTargetAbs fs opts absp of
                  Inl e \<Rightarrow> Inl e
                | Inr resolvedAbs \<Rightarrow>
                    (case IsWithin canonicalRoot resolvedAbs of
                       Inl e \<Rightarrow> Inl (TextError (sp_error_text e))
                     | Inr within \<Rightarrow>
                         if \<not> within then Inr None
                         else
                           (case fp_rel canonicalRoot resolvedAbs of
                              None \<Rightarrow> Inl (TextError (''Rel: can't make '' @ resolvedAbs @ '' relative to '' @ canonicalRoot))
                            | Some targetRel \<Rightarrow> Inr (Some (normalizeRelativePath targetRel)))))))"

definition blocksSensitivePath ::
  "glob \<Rightarrow> osfs \<Rightarrow> path_resolution_options \<Rightarrow> string \<Rightarrow> string \<Rightarrow> sensitive_filter option \<Rightarrow> go_err + bool" where
  "blocksSensitivePath g fs opts root relPath f =
     (if isSensitivePath g f relPath then Inr True
      else
        (case resolveActionTargetRel fs opts root relPath of
           Inl e \<Rightarrow> if is_not_exist e then Inr False else Inl e
         | Inr None \<Rightarrow> Inr False
         | Inr (Some targetRel) \<Rightarrow> Inr (isSensitivePath g f targetRel)))"

subsection \<open>Walking a tree\<close>

text \<open>\<open>filepath.WalkDir\<close>: the callback is given the path, the entry and the error of reading the directory.\<close>

datatype 'e walk_res = WContinue | WSkipDir | WErr 'e

definition after_callback :: "fnode \<Rightarrow> 'e walk_res \<Rightarrow> 'e walk_res" where
  "after_callback n r = (if r = WSkipDir \<and> is_fdir n then WContinue else r)"

fun walk_node :: "osfs \<Rightarrow> (string \<Rightarrow> fnode \<Rightarrow> go_err option \<Rightarrow> 's \<Rightarrow> 's \<times> 'e walk_res) \<Rightarrow> string \<Rightarrow> fnode \<Rightarrow> 's \<Rightarrow> 's \<times> 'e walk_res"
and walk_list :: "osfs \<Rightarrow> (string \<Rightarrow> fnode \<Rightarrow> go_err option \<Rightarrow> 's \<Rightarrow> 's \<times> 'e walk_res) \<Rightarrow> string \<Rightarrow> (string \<times> fnode) list \<Rightarrow> 's \<Rightarrow> 's \<times> 'e walk_res" where
  "walk_node fs fn p (FFile b m t) s = fn p (FFile b m t) None s"
| "walk_node fs fn p (FLink b m t) s = fn p (FLink b m t) None s"
| "walk_node fs fn p (FDir es m t) s =
     (case fn p (FDir es m t) None s of
        (s1, WContinue) \<Rightarrow>
          (case fs_fault fs ''open'' p of
             None \<Rightarrow> walk_list fs fn p es s1
           | Some e \<Rightarrow>
               (case fn p (FDir es m t) (Some (PathError ''open'' p e)) s1 of
                  (s2, r) \<Rightarrow> (s2, after_callback (FDir es m t) r)))
      | (s1, r) \<Rightarrow> (s1, after_callback (FDir es m t) r))"
| "walk_list fs fn p [] s = (s, WContinue)"
| "walk_list fs fn p ((c, n) # es) s =
     (case walk_node fs fn (fp_join [p, c]) n s of
        (s1, WContinue) \<Rightarrow> walk_list fs fn p es s1
      | (s1, WSkipDir) \<Rightarrow> (s1, WContinue)
      | (s1, WErr e) \<Rightarrow> (s1, WErr e))"

text \<open>The callback of an unreadable root is called without an entry; all callbacks of the daemon test the error
  first, so the entry passed here does not matter.\<close>

definition fp_WalkDir :: "osfs \<Rightarrow> (string \<Rightarrow> fnode \<Rightarrow> go_err option \<Rightarrow> 's \<Rightarrow> 's \<times> 'e walk_res) \<Rightarrow> string \<Rightarrow> 's \<Rightarrow> 's \<times> 'e option" where
  "fp_WalkDir fs fn root s =
     (let (s1, r) = (case os_stat_node ''lstat'' False fs root of
                       Inl e \<Rightarrow> fn root (FFile [] 0 0) (Some e) s
                     | Inr n \<Rightarrow> walk_node fs fn root n s)
      in (s1, case r of WErr e \<Rightarrow> Some e | _ \<Rightarrow> None))"

text \<open>\<open>hasSensitiveDescendant\<close>: the walk stops at the first sensitive entry (\<open>Inl\<close> marks it) or at an error.\<close>

definition sensitive_walk ::
  "glob \<Rightarrow> sensitive_filter option \<Rightarrow> string \<Rightarrow> string \<Rightarrow> string \<Rightarrow> fnode \<Rightarrow> go_err option \<Rightarrow> unit \<Rightarrow> unit \<times> (unit + go_err) walk_res" where
  "sensitive_walk g f relPath absp p n walkErr s =
     (case walkErr of
        Some e \<Rightarrow> (s, WErr (Inr e))
      | None \<Rightarrow>
          if p = absp then (s, WContinue)
          else
            (case fp_rel absp p of
               None \<Rightarrow> (s, WErr (Inr (TextError (''Rel: can't make '' @ p @ '' relative to '' @ absp))))
             | Some descendant \<Rightarrow>
                 if isSensitivePath g f (joinRelPath relPath descendant) then (s, WErr (Inl ())) else (s, WContinue)))"

definition hasSensitiveDescendant :: "glob \<Rightarrow> osfs \<Rightarrow> string \<Rightarrow> string \<Rightarrow> sensitive_filter option \<Rightarrow> go_err + bool" where
  "hasSensitiveDescendant g fs root relPath f =
     (if f = None then Inr False
      else
        (case resolveWorkspacePath root relPath of
           Inl e \<Rightarrow> Inl (TextError (sp_error_text e))
         | Inr absp \<Rightarrow>
             (case os_Lstat fs absp of
                Inl e \<Rightarrow> Inl e
              | Inr info \<Rightarrow>
                  if \<not> oi_isdir info then Inr False
                  else
                    (case snd (fp_WalkDir fs (sensitive_walk g f relPath absp) absp ()) of
                       Some (Inl _) \<Rightarrow> Inr True
                     | Some (Inr e) \<Rightarrow> Inl e
                     | None \<Rightarrow> Inr False))))"

end
