(* ===== verification/Sync_Handle.thy ===== *)
theory Sync_Handle
  imports Sync_Path Proto
begin

text \<open>
  The daemon's request handler, \<open>src/pkg/syncer/handle.go\<close>, \<open>handle_write.go\<close> and \<open>audit.go\<close>. A handler takes the
  file system, the self-write filter and the audit log and returns them with the response. The lock a mutating
  handler holds around its calls is modelled on its own in the theory of the path locker; here one request runs
  at a time.
\<close>

section \<open>Definitions\<close>

record handle_options =
  ho_root :: string
  ho_max_read :: int
  ho_filter :: "sensitive_filter option"
  ho_audit :: bool

record audit_record =
  ar_time :: int
  ar_request_id :: string
  ar_operation :: string
  ar_path :: string
  ar_target :: string
  ar_bytes :: int
  ar_success :: bool
  ar_error :: string

record hstate =
  h_fs :: osfs
  h_self :: "self_write_filter option"
  h_clock :: int
  h_log :: "audit_record list"

subsection \<open>Responses\<close>

definition errResponse :: "string \<Rightarrow> string \<Rightarrow> file_response" where
  "errResponse reqID msg = \<lparr>rp_id = reqID, rp_success = False, rp_error = msg, rp_result = ResNone\<rparr>"

definition success_with :: "string \<Rightarrow> resp_result \<Rightarrow> file_response" where
  "success_with reqID r = \<lparr>rp_id = reqID, rp_success = True, rp_error = [], rp_result = r\<rparr>"

definition successWithInfo :: "string \<Rightarrow> file_info option \<Rightarrow> file_response" where
  "successWithInfo reqID info = success_with reqID (ResInfo info)"

definition successNoResult :: "string \<Rightarrow> file_response" where
  "successNoResult reqID = success_with reqID ResNone"

definition formatErrText :: "string \<Rightarrow> string \<Rightarrow> string \<Rightarrow> string" where
  "formatErrText op p msg = ''syncer: '' @ op @ '' '' @ go_quote p @ '': '' @ msg"

definition formatErr :: "string \<Rightarrow> string \<Rightarrow> go_err \<Rightarrow> string" where
  "formatErr op p err = formatErrText op p (go_err_text err)"

definition formatRenameErr :: "string \<Rightarrow> string \<Rightarrow> string \<Rightarrow> string" where
  "formatRenameErr oldPath newPath msg =
     ''syncer: rename '' @ go_quote oldPath @ ''->'' @ go_quote newPath @ '': '' @ msg"

definition unsafe_path :: "sp_error \<Rightarrow> string" where
  "unsafe_path e = ''syncer: unsafe path: '' @ sp_error_text e"

definition fileInfoFromFS :: "string \<Rightarrow> os_info \<Rightarrow> file_info" where
  "fileInfoFromFS rel fi =
     \<lparr>fi_path = ToSlash rel, fi_size = oi_size fi, fi_mod_time = oi_mtime fi, fi_is_dir = oi_isdir fi, fi_mode = oi_perm fi\<rparr>"

definition lstatToFileInfo :: "osfs \<Rightarrow> string \<Rightarrow> string \<Rightarrow> go_err + file_info" where
  "lstatToFileInfo fs absp rel = map_sum id (fileInfoFromFS rel) (os_Lstat fs absp)"

text \<open>The handlers ignore an error of the sensitive check that says the path does not exist.\<close>

definition tolerate_missing :: "go_err + bool \<Rightarrow> go_err + bool" where
  "tolerate_missing r = (case r of Inl e \<Rightarrow> if is_not_exist e then Inr False else Inl e | Inr b \<Rightarrow> Inr b)"

subsection \<open>Reading\<close>

text \<open>\<open>offset\<close> and \<open>length\<close> are int64; the subtraction is of two values in range with \<open>0 \<le> offset < total\<close>.\<close>

definition sliceContent :: "bytes \<Rightarrow> int \<Rightarrow> int \<Rightarrow> bytes" where
  "sliceContent data offset len =
     (let total = int (length data);
          offset = (if offset < 0 then 0 else offset)
      in if offset \<ge> total then []
         else
           (let end = (if len > 0 \<and> len < int64_wrap (total - offset) then int64_wrap (offset + len) else total)
            in take (nat end - nat offset) (drop (nat offset) data)))"

definition handleRead :: "glob \<Rightarrow> handle_options \<Rightarrow> osfs \<Rightarrow> string \<Rightarrow> read_req option \<Rightarrow> file_response" where
  "handleRead g opts fs reqID req =
     (case req of
        None \<Rightarrow> errResponse reqID ''syncer: nil read request''
      | Some r \<Rightarrow>
          (case resolveWorkspacePath (ho_root opts) (rd_path r) of
             Inl e \<Rightarrow> errResponse reqID (unsafe_path e)
           | Inr absp \<Rightarrow>
               (case tolerate_missing (blocksSensitivePath g fs \<lparr>allowMissingLeaf = False, followFinalSymlink = True\<rparr> (ho_root opts) (rd_path r) (ho_filter opts)) of
                  Inl e \<Rightarrow> errResponse reqID (formatErr ''read'' (rd_path r) e)
                | Inr True \<Rightarrow> errResponse reqID (formatErrText ''read'' (rd_path r) (errno_text OS_ENOENT))
                | Inr False \<Rightarrow>
                    (case os_ReadFile fs absp of
                       Inl e \<Rightarrow> errResponse reqID (formatErr ''read'' (rd_path r) e)
                     | Inr data \<Rightarrow>
                         (let sliced = sliceContent data (rd_offset r) (rd_length r);
                              sliced = (if ho_max_read opts > 0 \<and> int (length sliced) > ho_max_read opts
                                        then take (nat (ho_max_read opts)) sliced else sliced)
                          in success_with reqID (ResContent sliced))))))"

definition handleStat :: "glob \<Rightarrow> handle_options \<Rightarrow> osfs \<Rightarrow> string \<Rightarrow> string option \<Rightarrow> file_response" where
  "handleStat g opts fs reqID req =
     (case req of
        None \<Rightarrow> errResponse reqID ''syncer: nil stat request''
      | Some p \<Rightarrow>
          (case resolveWorkspacePath (ho_root opts) p of
             Inl e \<Rightarrow> errResponse reqID (unsafe_path e)
           | Inr absp \<Rightarrow>
               (case tolerate_missing (blocksSensitivePath g fs \<lparr>allowMissingLeaf = False, followFinalSymlink = False\<rparr> (ho_root opts) p (ho_filter opts)) of
                  Inl e \<Rightarrow> errResponse reqID (formatErr ''stat'' p e)
                | Inr True \<Rightarrow> errResponse reqID (formatErrText ''stat'' p (errno_text OS_ENOENT))
                | Inr False \<Rightarrow>
                    (case os_Lstat fs absp of
                       Inl e \<Rightarrow> errResponse reqID (formatErr ''stat'' p e)
                     | Inr fi \<Rightarrow> successWithInfo reqID (Some (fileInfoFromFS p fi))))))"

text \<open>The metadata of each entry is read anew; an entry for which that fails is left out.\<close>

fun list_entries :: "glob \<Rightarrow> sensitive_filter option \<Rightarrow> osfs \<Rightarrow> string \<Rightarrow> string \<Rightarrow> (string \<times> fnode) list \<Rightarrow> file_info list" where
  "list_entries g f fs absp parent [] = []"
| "list_entries g f fs absp parent ((name, n) # es) =
     (let rest = list_entries g f fs absp parent es in
      if fs_fault fs ''lstat'' (absp @ slash # name) \<noteq> None then rest
      else
        (let relPath = joinRelPath parent name in
         if isSensitivePath g f relPath then rest else fileInfoFromFS relPath (node_info fs n) # rest))"

definition handleListDir :: "glob \<Rightarrow> handle_options \<Rightarrow> osfs \<Rightarrow> string \<Rightarrow> string option \<Rightarrow> file_response" where
  "handleListDir g opts fs reqID req =
     (case req of
        None \<Rightarrow> errResponse reqID ''syncer: nil list_dir request''
      | Some p \<Rightarrow>
          (case resolveWorkspacePath (ho_root opts) p of
             Inl e \<Rightarrow> errResponse reqID (unsafe_path e)
           | Inr absp \<Rightarrow>
               (case tolerate_missing (blocksSensitivePath g fs \<lparr>allowMissingLeaf = False, followFinalSymlink = True\<rparr> (ho_root opts) p (ho_filter opts)) of
                  Inl e \<Rightarrow> errResponse reqID (formatErr ''list'' p e)
                | Inr True \<Rightarrow> errResponse reqID (formatErrText ''list'' p (errno_text OS_ENOENT))
                | Inr False \<Rightarrow>
                    (case os_ReadDir fs absp of
                       Inl e \<Rightarrow> errResponse reqID (formatErr ''list'' p e)
                     | Inr entries \<Rightarrow> success_with reqID (ResEntries (list_entries g (ho_filter opts) fs absp p entries))))))"

subsection \<open>Writing\<close>

definition resolveMutatingPath ::
  "glob \<Rightarrow> handle_options \<Rightarrow> osfs \<Rightarrow> string \<Rightarrow> string \<Rightarrow> string \<Rightarrow> path_resolution_options \<Rightarrow> file_response + string" where
  "resolveMutatingPath g opts fs reqID op relPath resolveOpts =
     (case resolveWorkspacePath (ho_root opts) relPath of
        Inl e \<Rightarrow> Inl (errResponse reqID (unsafe_path e))
      | Inr absp \<Rightarrow>
          (case tolerate_missing (blocksSensitivePath g fs resolveOpts (ho_root opts) relPath (ho_filter opts)) of
             Inl e \<Rightarrow> Inl (errResponse reqID (formatErr op relPath e))
           | Inr True \<Rightarrow> Inl (errResponse reqID (formatErrText op relPath ''permission denied''))
           | Inr False \<Rightarrow> Inr absp))"

definition resolveRenamePaths ::
  "glob \<Rightarrow> handle_options \<Rightarrow> osfs \<Rightarrow> string \<Rightarrow> rename_req \<Rightarrow> file_response + string \<times> string" where
  "resolveRenamePaths g opts fs reqID r =
     (case resolveMutatingPath g opts fs reqID ''rename'' (rn_old_path r) \<lparr>allowMissingLeaf = False, followFinalSymlink = False\<rparr> of
        Inl resp \<Rightarrow> Inl resp
      | Inr oldAbs \<Rightarrow>
          (case resolveMutatingPath g opts fs reqID ''rename'' (rn_new_path r) \<lparr>allowMissingLeaf = True, followFinalSymlink = False\<rparr> of
             Inl resp \<Rightarrow> Inl resp
           | Inr newAbs \<Rightarrow>
               (case hasSensitiveDescendant g fs (ho_root opts) (rn_old_path r) (ho_filter opts) of
                  Inl e \<Rightarrow>
                    if \<not> is_not_exist e then Inl (errResponse reqID (formatErr ''rename'' (rn_old_path r) e))
                    else Inr (oldAbs, newAbs)
                | Inr True \<Rightarrow> Inl (errResponse reqID (formatRenameErr (rn_old_path r) (rn_new_path r) ''permission denied''))
                | Inr False \<Rightarrow> Inr (oldAbs, newAbs))))"

definition defaultWriteMode :: "nat \<Rightarrow> nat" where
  "defaultWriteMode mode = (if mode = 0 then 420 else mode)"

definition openWriteTarget :: "osfs \<Rightarrow> string \<Rightarrow> nat \<Rightarrow> osfs \<times> (go_err + string list)" where
  "openWriteTarget fs absp mode = os_OpenFile_create fs absp mode"

definition writeContent :: "osfs \<Rightarrow> string \<Rightarrow> string list \<Rightarrow> bytes \<Rightarrow> int \<Rightarrow> bool \<Rightarrow> osfs \<times> go_err option" where
  "writeContent fs absp q content offset appendMode =
     (if appendMode then file_Write_append fs absp q content else file_WriteAt fs absp q content offset)"

definition closeAfterWrite :: "osfs \<Rightarrow> string \<Rightarrow> go_err option \<Rightarrow> go_err option" where
  "closeAfterWrite fs absp writeErr = (case writeErr of Some e \<Rightarrow> Some e | None \<Rightarrow> file_Close fs absp)"

text \<open>The end of every mutating handler but the deletion: the metadata of the changed file.\<close>

definition with_info :: "hstate \<Rightarrow> string \<Rightarrow> string \<Rightarrow> string \<Rightarrow> (go_err \<Rightarrow> string) \<Rightarrow> hstate \<times> file_response" where
  "with_info st reqID absp rel fmt =
     (case lstatToFileInfo (h_fs st) absp rel of
        Inl e \<Rightarrow> (st, errResponse reqID (fmt e))
      | Inr info \<Rightarrow> (st, successWithInfo reqID (Some info)))"

definition remember :: "string list \<Rightarrow> hstate \<Rightarrow> hstate" where
  "remember ps st = st\<lparr>h_self := Remember (h_clock st) ps (h_self st)\<rparr>"

definition handleWrite :: "glob \<Rightarrow> handle_options \<Rightarrow> hstate \<Rightarrow> string \<Rightarrow> write_req option \<Rightarrow> hstate \<times> file_response" where
  "handleWrite g opts st reqID req =
     (case req of
        None \<Rightarrow> (st, errResponse reqID ''syncer: nil write request'')
      | Some r \<Rightarrow>
          if \<not> wr_append r \<and> wr_offset r < 0
          then (st, errResponse reqID (formatErrText ''write'' (wr_path r) ''invalid argument''))
          else
            (case resolveMutatingPath g opts (h_fs st) reqID ''write'' (wr_path r) \<lparr>allowMissingLeaf = True, followFinalSymlink = True\<rparr> of
               Inl resp \<Rightarrow> (st, resp)
             | Inr absp \<Rightarrow>
                 (let st1 = remember [wr_path r] st in
                  case openWriteTarget (h_fs st1) absp (defaultWriteMode (wr_mode r)) of
                    (fs2, Inl e) \<Rightarrow> (st1\<lparr>h_fs := fs2\<rparr>, errResponse reqID (formatErr ''write'' (wr_path r) e))
                  | (fs2, Inr q) \<Rightarrow>
                      (let (fs3, werr) = writeContent fs2 absp q (wr_content r) (wr_offset r) (wr_append r);
                           st3 = st1\<lparr>h_fs := fs3\<rparr>
                       in case closeAfterWrite fs3 absp werr of
                            Some e \<Rightarrow> (st3, errResponse reqID (formatErr ''write'' (wr_path r) e))
                          | None \<Rightarrow> with_info st3 reqID absp (wr_path r) (formatErr ''write'' (wr_path r))))))"

definition handleMkdir :: "glob \<Rightarrow> handle_options \<Rightarrow> hstate \<Rightarrow> string \<Rightarrow> mkdir_req option \<Rightarrow> hstate \<times> file_response" where
  "handleMkdir g opts st reqID req =
     (case req of
        None \<Rightarrow> (st, errResponse reqID ''syncer: nil mkdir request'')
      | Some r \<Rightarrow>
          (case resolveMutatingPath g opts (h_fs st) reqID ''mkdir'' (mk_path r) \<lparr>allowMissingLeaf = True, followFinalSymlink = False\<rparr> of
             Inl resp \<Rightarrow> (st, resp)
           | Inr absp \<Rightarrow>
               (let st1 = remember [mk_path r] st;
                    (fs2, err) = (if mk_recursive r then os_MkdirAll (h_fs st1) absp 493 else os_Mkdir (h_fs st1) absp 493);
                    st2 = st1\<lparr>h_fs := fs2\<rparr>
                in case err of
                     Some e \<Rightarrow> (st2, errResponse reqID (formatErr ''mkdir'' (mk_path r) e))
                   | None \<Rightarrow> with_info st2 reqID absp (mk_path r) (formatErr ''mkdir'' (mk_path r)))))"

definition handleDelete :: "glob \<Rightarrow> handle_options \<Rightarrow> hstate \<Rightarrow> string \<Rightarrow> string option \<Rightarrow> hstate \<times> file_response" where
  "handleDelete g opts st reqID req =
     (case req of
        None \<Rightarrow> (st, errResponse reqID ''syncer: nil delete request'')
      | Some p \<Rightarrow>
          (case resolveMutatingPath g opts (h_fs st) reqID ''delete'' p \<lparr>allowMissingLeaf = False, followFinalSymlink = False\<rparr> of
             Inl resp \<Rightarrow> (st, resp)
           | Inr absp \<Rightarrow>
               (let st1 = remember [p] st in
                case os_Remove (h_fs st1) absp of
                  (fs2, Some e) \<Rightarrow> (st1\<lparr>h_fs := fs2\<rparr>, errResponse reqID (formatErr ''delete'' p e))
                | (fs2, None) \<Rightarrow> (st1\<lparr>h_fs := fs2\<rparr>, successNoResult reqID))))"

definition handleRename :: "glob \<Rightarrow> handle_options \<Rightarrow> hstate \<Rightarrow> string \<Rightarrow> rename_req option \<Rightarrow> hstate \<times> file_response" where
  "handleRename g opts st reqID req =
     (case req of
        None \<Rightarrow> (st, errResponse reqID ''syncer: nil rename request'')
      | Some r \<Rightarrow>
          (case resolveRenamePaths g opts (h_fs st) reqID r of
             Inl resp \<Rightarrow> (st, resp)
           | Inr (oldAbs, newAbs) \<Rightarrow>
               (let st1 = remember [rn_old_path r, rn_new_path r] st;
                    fmt = (\<lambda>e. formatRenameErr (rn_old_path r) (rn_new_path r) (go_err_text e))
                in case os_Rename (h_fs st1) oldAbs newAbs of
                     (fs2, Some e) \<Rightarrow> (st1\<lparr>h_fs := fs2\<rparr>, errResponse reqID (fmt e))
                   | (fs2, None) \<Rightarrow> with_info (st1\<lparr>h_fs := fs2\<rparr>) reqID newAbs (rn_new_path r) fmt)))"

definition handleTruncate :: "glob \<Rightarrow> handle_options \<Rightarrow> hstate \<Rightarrow> string \<Rightarrow> truncate_req option \<Rightarrow> hstate \<times> file_response" where
  "handleTruncate g opts st reqID req =
     (case req of
        None \<Rightarrow> (st, errResponse reqID ''syncer: nil truncate request'')
      | Some r \<Rightarrow>
          if tr_size r < 0 then (st, errResponse reqID (formatErrText ''truncate'' (tr_path r) ''invalid argument''))
          else
            (case resolveMutatingPath g opts (h_fs st) reqID ''truncate'' (tr_path r) \<lparr>allowMissingLeaf = False, followFinalSymlink = True\<rparr> of
               Inl resp \<Rightarrow> (st, resp)
             | Inr absp \<Rightarrow>
                 (let st1 = remember [tr_path r] st in
                  case os_Truncate (h_fs st1) absp (tr_size r) of
                    (fs2, Some e) \<Rightarrow> (st1\<lparr>h_fs := fs2\<rparr>, errResponse reqID (formatErr ''truncate'' (tr_path r) e))
                  | (fs2, None) \<Rightarrow> with_info (st1\<lparr>h_fs := fs2\<rparr>) reqID absp (tr_path r) (formatErr ''truncate'' (tr_path r)))))"

subsection \<open>The audit record\<close>

definition fillReadLikeAudit :: "audit_record \<Rightarrow> operation option \<Rightarrow> file_response \<Rightarrow> audit_record option" where
  "fillReadLikeAudit rec op resp =
     (case op of
        Some (OpRead r) \<Rightarrow>
          Some (rec\<lparr>ar_operation := ''read'', ar_path := (case r of Some r \<Rightarrow> rd_path r | None \<Rightarrow> []),
                    ar_bytes := int (length (resp_content resp))\<rparr>)
      | Some (OpStat p) \<Rightarrow> Some (rec\<lparr>ar_operation := ''stat'', ar_path := (case p of Some p \<Rightarrow> p | None \<Rightarrow> [])\<rparr>)
      | Some (OpListDir p) \<Rightarrow> Some (rec\<lparr>ar_operation := ''list_dir'', ar_path := (case p of Some p \<Rightarrow> p | None \<Rightarrow> [])\<rparr>)
      | _ \<Rightarrow> None)"

definition fillMutatingAudit :: "audit_record \<Rightarrow> operation option \<Rightarrow> audit_record" where
  "fillMutatingAudit rec op =
     (case op of
        Some (OpWrite r) \<Rightarrow>
          rec\<lparr>ar_operation := ''write'', ar_path := (case r of Some r \<Rightarrow> wr_path r | None \<Rightarrow> []),
              ar_bytes := (case r of Some r \<Rightarrow> int (length (wr_content r)) | None \<Rightarrow> 0)\<rparr>
      | Some (OpDelete p) \<Rightarrow> rec\<lparr>ar_operation := ''delete'', ar_path := (case p of Some p \<Rightarrow> p | None \<Rightarrow> [])\<rparr>
      | Some (OpMkdir r) \<Rightarrow> rec\<lparr>ar_operation := ''mkdir'', ar_path := (case r of Some r \<Rightarrow> mk_path r | None \<Rightarrow> [])\<rparr>
      | Some (OpRename r) \<Rightarrow>
          rec\<lparr>ar_operation := ''rename'', ar_path := (case r of Some r \<Rightarrow> rn_old_path r | None \<Rightarrow> []),
              ar_target := (case r of Some r \<Rightarrow> rn_new_path r | None \<Rightarrow> [])\<rparr>
      | Some (OpTruncate r) \<Rightarrow>
          rec\<lparr>ar_operation := ''truncate'', ar_path := (case r of Some r \<Rightarrow> tr_path r | None \<Rightarrow> []),
              ar_bytes := (case r of Some r \<Rightarrow> tr_size r | None \<Rightarrow> 0)\<rparr>
      | _ \<Rightarrow> rec\<lparr>ar_operation := ''unknown''\<rparr>)"

definition auditRequest :: "bool \<Rightarrow> file_request \<Rightarrow> file_response \<Rightarrow> hstate \<Rightarrow> hstate" where
  "auditRequest auditor req resp st =
     (if \<not> auditor then st
      else
        (let rec = \<lparr>ar_time = h_clock st, ar_request_id = rq_id req, ar_operation = [], ar_path = [], ar_target = [],
                    ar_bytes = 0, ar_success = rp_success resp, ar_error = rp_error resp\<rparr>;
             rec = (case fillReadLikeAudit rec (rq_op req) resp of Some rec' \<Rightarrow> rec' | None \<Rightarrow> fillMutatingAudit rec (rq_op req))
         in st\<lparr>h_log := h_log st @ [rec]\<rparr>))"

subsection \<open>The handler\<close>

definition handleReadLike :: "glob \<Rightarrow> handle_options \<Rightarrow> osfs \<Rightarrow> string \<Rightarrow> operation option \<Rightarrow> file_response option" where
  "handleReadLike g opts fs reqID op =
     (case op of
        Some (OpRead r) \<Rightarrow> Some (handleRead g opts fs reqID r)
      | Some (OpStat r) \<Rightarrow> Some (handleStat g opts fs reqID r)
      | Some (OpListDir r) \<Rightarrow> Some (handleListDir g opts fs reqID r)
      | _ \<Rightarrow> None)"

definition handleMutating :: "glob \<Rightarrow> handle_options \<Rightarrow> hstate \<Rightarrow> string \<Rightarrow> operation option \<Rightarrow> hstate \<times> file_response" where
  "handleMutating g opts st reqID op =
     (case op of
        Some (OpWrite r) \<Rightarrow> handleWrite g opts st reqID r
      | Some (OpDelete r) \<Rightarrow> handleDelete g opts st reqID r
      | Some (OpMkdir r) \<Rightarrow> handleMkdir g opts st reqID r
      | Some (OpRename r) \<Rightarrow> handleRename g opts st reqID r
      | Some (OpTruncate r) \<Rightarrow> handleTruncate g opts st reqID r
      | _ \<Rightarrow> (st, errResponse reqID ''syncer: unknown operation''))"

definition Handle :: "glob \<Rightarrow> handle_options \<Rightarrow> hstate \<Rightarrow> file_request option \<Rightarrow> hstate \<times> file_response" where
  "Handle g opts st req =
     (case req of
        None \<Rightarrow> (st, errResponse [] ''syncer: nil request'')
      | Some rq \<Rightarrow>
          (let (st1, resp) = (case handleReadLike g opts (h_fs st) (rq_id rq) (rq_op rq) of
                                Some resp \<Rightarrow> (st, resp)
                              | None \<Rightarrow> handleMutating g opts st (rq_id rq) (rq_op rq))
           in (auditRequest (ho_audit opts) rq resp st1, resp)))"

end
