(* ===== verification/Sync_Write.thy ===== *)
theory Sync_Write
  imports Sync_Handle
begin

text \<open>
  What the mutating handlers do to the disk: the calls of \<open>os\<close> they make, the content a write leaves behind, the
  files it leaves alone, and the audit trail. Link-free and linked paths are treated alike: the file meant is the
  one the kernel resolves the path to.
\<close>

section \<open>Effects of the calls\<close>

text \<open>A disk whose root is a directory.\<close>

abbreviation disk_ok :: "osfs \<Rightarrow> bool" where
  "disk_ok fs \<equiv> kind_at (fs_root fs) [] = Some KDir"

lemma os_resolve_parent:
  "os_resolve fs p follow = Inr q \<Longrightarrow> disk_ok fs \<Longrightarrow> kind_at (fs_root fs) (butlast q) = Some KDir"
  by (auto simp: os_resolve_def resolve_iff split: if_splits elim!: resolves_parent)

lemma kind_at_Some_file: "fget n q = Some (FFile b m t) \<Longrightarrow> kind_at n q = Some KFile"
  by (simp add: kind_at_def)

lemma prefix_below_file:
  assumes "kind_at n q = Some KFile" "prefix q p" "p \<noteq> q" shows "kind_at n p = None"
proof (rule ccontr)
  assume a: "kind_at n p \<noteq> None"
  obtain r where r: "p = q @ r" "r \<noteq> []" using assms(2,3) by (auto simp: prefix_def)
  then show False using kind_at_prefix [of n q r] a assms(1) by (simp add: kind_at_None)
qed

lemma kind_at_file_below:
  assumes "prefix q p" shows "kind_at (FFile b m t) (drop (length q) p) = (if p = q then Some KFile else None)"
proof -
  obtain r where "p = q @ r" using assms by (auto simp: prefix_def)
  then show ?thesis by (cases r) (simp_all add: kind_at_def)
qed

lemma kind_at_fput_file:
  assumes "fget n q = Some (FFile b m t)" "q \<noteq> []"
  shows "kind_at (fput q (Some (FFile b' m' t')) touch n) p = kind_at n p"
proof -
  have k: "kind_at n q = Some KFile" using assms(1) by (rule kind_at_Some_file)
  have "fget n (butlast q @ [last q]) \<noteq> None" using assms by simp
  then have d: "kind_at n (butlast q) = Some KDir" by (rule kind_at_prefix) simp
  have "kind_at (FFile b' m' t') (drop (length q) p) = kind_at n p" if "prefix q p"
    using kind_at_file_below [OF that] prefix_below_file [OF k that] k by auto
  then show ?thesis using kind_at_fput [OF assms(2) d] by simp
qed

lemma file_put_facts:
  assumes "fget (fs_root fs) q = Some (FFile b m t)" "q \<noteq> []"
  shows "fget (fs_root (file_put fs q f)) q = Some (FFile (f b) m (fs_now fs))"
    "kind_at (fs_root (file_put fs q f)) p = kind_at (fs_root fs) p"
    "file_put fs q f = fs\<lparr>fs_root := fs_root (file_put fs q f)\<rparr>"
proof -
  have "fget (fs_root fs) (butlast q @ [last q]) \<noteq> None" using assms by simp
  then have d: "kind_at (fs_root fs) (butlast q) = Some KDir" by (rule kind_at_prefix) simp
  show "fget (fs_root (file_put fs q f)) q = Some (FFile (f b) m (fs_now fs))"
    using fget_fput_same [OF assms(2) d] assms(1) by (simp add: file_put_def)
  show "kind_at (fs_root (file_put fs q f)) p = kind_at (fs_root fs) p"
    using kind_at_fput_file [OF assms] assms(1) by (simp add: file_put_def)
  show "file_put fs q f = fs\<lparr>fs_root := fs_root (file_put fs q f)\<rparr>" using assms(1) by (simp add: file_put_def)
qed

lemma os_resolve_same_kinds:
  "(\<And>p. kind_at (fs_root fs') p = kind_at (fs_root fs) p) \<Longrightarrow> os_resolve fs' p follow = os_resolve fs p follow"
  unfolding os_resolve_def using resolve_cong [of "fs_root fs'" "fs_root fs"] by simp

lemma resolved_file_ne:
  "disk_ok fs \<Longrightarrow> kind_at (fs_root fs) q = None \<or> kind_at (fs_root fs) q = Some KFile \<Longrightarrow> q \<noteq> []"
  by auto

text \<open>Opening for writing: the file exists afterwards, empty if it was new, and the path leads to it.\<close>

lemma open_create_facts:
  assumes "os_OpenFile_create fs p mode = (fs2, Inr q)" "disk_ok fs"
  shows "fs_fault fs ''open'' p = None" "os_resolve fs p True = Inr q" "q \<noteq> []" "os_resolve fs2 p True = Inr q" "disk_ok fs2"
    "fs2 = fs\<lparr>fs_root := fs_root fs2\<rparr>"
    "\<exists>b m t. fget (fs_root fs2) q = Some (FFile b m t) \<and> (fget (fs_root fs) q = Some (FFile b m t) \<and> fs2 = fs \<or> fget (fs_root fs) q = None \<and> b = [])"
proof -
  show flt: "fs_fault fs ''open'' p = None" and r: "os_resolve fs p True = Inr q"
    using assms(1) by (auto simp: os_OpenFile_create_def split: option.splits sum.splits fnode.splits)
  note d = os_resolve_parent [OF r assms(2)]
  have "q \<noteq> [] \<and> os_resolve fs2 p True = Inr q \<and> disk_ok fs2 \<and> fs2 = fs\<lparr>fs_root := fs_root fs2\<rparr>
      \<and> (\<exists>b m t. fget (fs_root fs2) q = Some (FFile b m t) \<and> (fget (fs_root fs) q = Some (FFile b m t) \<and> fs2 = fs \<or> fget (fs_root fs) q = None \<and> b = []))"
  proof (cases "fget (fs_root fs) q")
    case None
    let ?x = "FFile [] (new_perm fs mode) (fs_now fs)"
    have fs2: "fs2 = fs\<lparr>fs_root := fput q (Some ?x) (Some (fs_now fs)) (fs_root fs)\<rparr>"
      using assms(1) flt r None by (simp add: os_OpenFile_create_def)
    have ne: "q \<noteq> []" using None by auto
    have k: "kind_at (fs_root fs2) p' = (if prefix q p' then (if p' = q then Some KFile else None) else kind_at (fs_root fs) p')" for p'
      using kind_at_fput [OF ne d, of "Some ?x" "Some (fs_now fs)" p'] kind_at_file_below [of q p'] by (simp add: fs2)
    have "resolves (fs_root fs) True kernel_links [] (split_on slash p) q" "p \<noteq> []"
      using r by (auto simp: os_resolve_def resolve_iff split: if_splits)
    then have "os_resolve fs2 p True = Inr q"
      using resolve_after_create [of "fs_root fs" True kernel_links "[]" "split_on slash p" q "fs_root fs2"] k None
      by (simp add: os_resolve_def kind_at_None)
    moreover have "disk_ok fs2" using k [of "[]"] ne assms(2) by simp
    moreover have "fget (fs_root fs2) q = Some ?x" using fget_fput_same [OF ne d] by (simp add: fs2)
    ultimately show ?thesis using None ne fs2 by simp
  next
    case (Some n)
    then obtain b m t where "n = FFile b m t" "fs2 = fs"
      using assms(1) flt r by (auto simp: os_OpenFile_create_def split: fnode.splits)
    moreover have "q \<noteq> []" using Some \<open>n = FFile b m t\<close> assms(2) by (auto simp: kind_at_def)
    ultimately show ?thesis using Some r assms(2) by auto
  qed
  then show "q \<noteq> []" "os_resolve fs2 p True = Inr q" "disk_ok fs2" "fs2 = fs\<lparr>fs_root := fs_root fs2\<rparr>"
    "\<exists>b m t. fget (fs_root fs2) q = Some (FFile b m t) \<and> (fget (fs_root fs) q = Some (FFile b m t) \<and> fs2 = fs \<or> fget (fs_root fs) q = None \<and> b = [])"
    by blast+
qed

text \<open>Writing to an open file.\<close>

definition new_content :: "bool \<Rightarrow> int \<Rightarrow> bytes \<Rightarrow> bytes \<Rightarrow> bytes" where
  "new_content appendMode off old content = (if appendMode then old @ content else overlay old (nat off) content)"

lemma writeContent_facts:
  assumes "writeContent fs p q content off appendMode = (fs3, None)" "fget (fs_root fs) q = Some (FFile b m t)" "q \<noteq> []" "disk_ok fs"
  shows "\<exists>t'. fget (fs_root fs3) q = Some (FFile (new_content appendMode off b content) m t')"
    "os_resolve fs3 p' follow = os_resolve fs p' follow" "disk_ok fs3" "fs_fault fs3 = fs_fault fs"
proof -
  have c: "fs3 = fs \<and> content = [] \<or> fs3 = file_put fs q (\<lambda>b. new_content appendMode off b content)"
    using assms(1)
    by (auto simp: writeContent_def file_Write_append_def file_WriteAt_def new_content_def split: if_splits option.splits)
  note F = file_put_facts [OF assms(2,3), where f = "\<lambda>b. new_content appendMode off b content"]
  show "\<exists>t'. fget (fs_root fs3) q = Some (FFile (new_content appendMode off b content) m t')"
    using c F(1) assms(2) by (auto simp: new_content_def overlay_def)
  have k: "kind_at (fs_root fs3) x = kind_at (fs_root fs) x" for x using c F(2) by auto
  show "os_resolve fs3 p' follow = os_resolve fs p' follow" by (rule os_resolve_same_kinds) (rule k)
  show "disk_ok fs3" using k assms(4) by simp
  show "fs_fault fs3 = fs_fault fs" using c F(3) by (metis osfs.select_convs(6) osfs.surjective osfs.update_convs(1))
qed

lemma os_ReadFile_iff:
  "os_ReadFile fs p = Inr b \<longleftrightarrow>
     fs_fault fs ''open'' p = None \<and> (\<exists>q m t. os_resolve fs p True = Inr q \<and> fget (fs_root fs) q = Some (FFile b m t))"
  by (auto simp: os_ReadFile_def os_stat_node_def os_lookup_def split: option.splits sum.splits fnode.splits)

text \<open>Files other than the one opened keep their content.\<close>

lemma below_missing:
  assumes "fget n q = None \<or> fget n q = Some (FFile b m t)" "prefix q p" "p \<noteq> q" shows "fget n p = None"
proof (rule ccontr)
  assume a: "fget n p \<noteq> None"
  obtain r where r: "p = q @ r" "r \<noteq> []" using assms(2,3) by (auto simp: prefix_def)
  then have "kind_at n q = Some KDir" using kind_at_prefix [of n q r] a by simp
  then show False using assms(1) by (auto simp: kind_at_def)
qed

lemma file_put_others:
  assumes "fget (fs_root fs) q = Some (FFile b m t)" "q \<noteq> []" "fget (fs_root fs) p = Some x" "\<not> is_fdir x" "p \<noteq> q"
  shows "fget (fs_root (file_put fs q f)) p = Some x"
proof -
  have "fget (fs_root fs) (butlast q @ [last q]) \<noteq> None" using assms by simp
  then have d: "kind_at (fs_root fs) (butlast q) = Some KDir" by (rule kind_at_prefix) simp
  have "\<not> prefix q p" using below_missing [OF disjI2 [OF assms(1)], of p] assms(3,5) by auto
  then show ?thesis using fget_fput_file [OF assms(3,4) _ assms(2) d] assms(1) by (simp add: file_put_def)
qed

lemma open_create_others:
  assumes "os_OpenFile_create fs p mode = (fs2, Inr q)" "disk_ok fs" "fget (fs_root fs) p' = Some x" "\<not> is_fdir x" "p' \<noteq> q"
  shows "fget (fs_root fs2) p' = Some x"
proof -
  note O = open_create_facts [OF assms(1,2)]
  note d = os_resolve_parent [OF O(2) assms(2)]
  show ?thesis
  proof (cases "fget (fs_root fs) q")
    case None
    then have "\<not> prefix q p'" using below_missing [of "fs_root fs" q, OF disjI1] assms(3,5) by auto
    then show ?thesis
      using fget_fput_file [OF assms(3,4) _ O(3) d] assms(1) O(1,2) None by (auto simp: os_OpenFile_create_def)
  next
    case (Some n)
    then show ?thesis using O(7) assms(3) by auto
  qed
qed

lemma writeContent_others:
  assumes "writeContent fs p q content off appendMode = (fs3, err)" "fget (fs_root fs) q = Some (FFile b m t)" "q \<noteq> []"
    "fget (fs_root fs) p' = Some x" "\<not> is_fdir x" "p' \<noteq> q"
  shows "fget (fs_root fs3) p' = Some x"
proof -
  have "fs3 = fs \<or> (\<exists>f. fs3 = file_put fs q f)"
    using assms(1) by (auto simp: writeContent_def file_Write_append_def file_WriteAt_def split: if_splits option.splits)
  then show ?thesis using file_put_others [OF assms(2-6)] assms(4) by auto
qed

lemma remember_fields [simp]: "h_fs (remember ps st) = h_fs st" "h_log (remember ps st) = h_log st" "h_clock (remember ps st) = h_clock st"
  by (simp_all add: remember_def)

text \<open>The steps of a successful write.\<close>

lemma handleWrite_success:
  assumes "handleWrite g opts st reqID (Some r) = (st', resp)" "rp_success resp"
  obtains absp fs2 q info where "resolveWorkspacePath (ho_root opts) (wr_path r) = Inr absp"
    "os_OpenFile_create (h_fs st) absp (defaultWriteMode (wr_mode r)) = (fs2, Inr q)"
    "writeContent fs2 absp q (wr_content r) (wr_offset r) (wr_append r) = (h_fs st', None)"
    "os_Lstat (h_fs st') absp = Inr info" "resp_info resp = Some (fileInfoFromFS (wr_path r) info)"
proof -
  have n: "\<not> (\<not> wr_append r \<and> wr_offset r < 0)" using assms by (auto simp: handleWrite_def errResponse_def split: if_splits)
  let ?m = "resolveMutatingPath g opts (h_fs st) reqID ''write'' (wr_path r) \<lparr>allowMissingLeaf = True, followFinalSymlink = True\<rparr>"
  have f: "\<not> rp_success rp" if "?m = Inl rp" for rp
    using that by (auto simp: resolveMutatingPath_def errResponse_def split: sum.splits bool.splits)
  obtain absp where m: "?m = Inr absp" and a: "resolveWorkspacePath (ho_root opts) (wr_path r) = Inr absp"
  proof (cases ?m)
    case (Inl rp)
    then show ?thesis using assms n f [OF Inl] by (auto simp: handleWrite_def)
  next
    case (Inr absp)
    then have "resolveWorkspacePath (ho_root opts) (wr_path r) = Inr absp"
      by (auto simp: resolveMutatingPath_def split: sum.splits bool.splits)
    then show ?thesis using that Inr by blast
  qed
  obtain fs2 q where o: "os_OpenFile_create (h_fs st) absp (defaultWriteMode (wr_mode r)) = (fs2, Inr q)"
    using assms n m by (auto simp: handleWrite_def openWriteTarget_def Let_def errResponse_def split: prod.splits sum.splits)
  obtain fs3 werr where w: "writeContent fs2 absp q (wr_content r) (wr_offset r) (wr_append r) = (fs3, werr)" by fastforce
  have h: "handleWrite g opts st reqID (Some r) =
      (let st3 = (remember [wr_path r] st)\<lparr>h_fs := fs3\<rparr> in
       case closeAfterWrite fs3 absp werr of
         Some e \<Rightarrow> (st3, errResponse reqID (formatErr ''write'' (wr_path r) e))
       | None \<Rightarrow> with_info st3 reqID absp (wr_path r) (formatErr ''write'' (wr_path r)))"
    using n m o w by (auto simp: handleWrite_def openWriteTarget_def Let_def)
  have c: "closeAfterWrite fs3 absp werr = None"
    using assms unfolding h by (auto simp: errResponse_def Let_def split: option.splits)
  then have we: "werr = None" by (auto simp: closeAfterWrite_def split: option.splits)
  have wi: "with_info ((remember [wr_path r] st)\<lparr>h_fs := fs3\<rparr>) reqID absp (wr_path r) (formatErr ''write'' (wr_path r)) = (st', resp)"
    using assms(1) c unfolding h by (simp add: Let_def)
  show ?thesis
  proof (cases "os_Lstat fs3 absp")
    case (Inl e)
    then show ?thesis using wi assms(2) by (auto simp: with_info_def lstatToFileInfo_def errResponse_def)
  next
    case (Inr info)
    then have "h_fs st' = fs3" "resp_info resp = Some (fileInfoFromFS (wr_path r) info)"
      using wi by (auto simp: with_info_def lstatToFileInfo_def successWithInfo_def success_with_def resp_info_def)
    then show ?thesis using that [OF a o _ _ ] w we Inr by simp
  qed
qed

text \<open>What a successful write did to the disk, and what it reports.\<close>

lemma handleWrite_effect:
  assumes "disk_ok (h_fs st)" "handleWrite g opts st reqID (Some r) = (st', resp)" "rp_success resp"
  shows "\<exists>absp old. resolveWorkspacePath (ho_root opts) (wr_path r) = Inr absp
    \<and> (os_ReadFile (h_fs st) absp = Inr old
       \<or> os_ReadFile (h_fs st) absp = Inl (PathError ''open'' absp OS_ENOENT) \<and> old = [])
    \<and> os_ReadFile (h_fs st') absp = Inr (new_content (wr_append r) (wr_offset r) old (wr_content r))
    \<and> (\<forall>p x. fget (fs_root (h_fs st)) p = Some x \<and> \<not> is_fdir x \<and> os_resolve (h_fs st) absp True \<noteq> Inr p \<longrightarrow>
         fget (fs_root (h_fs st')) p = Some x)
    \<and> (\<exists>info. os_Lstat (h_fs st') absp = Inr info \<and> resp_info resp = Some (fileInfoFromFS (wr_path r) info))"
proof -
  obtain absp fs2 q info where a: "resolveWorkspacePath (ho_root opts) (wr_path r) = Inr absp"
    and o: "os_OpenFile_create (h_fs st) absp (defaultWriteMode (wr_mode r)) = (fs2, Inr q)"
    and w: "writeContent fs2 absp q (wr_content r) (wr_offset r) (wr_append r) = (h_fs st', None)"
    and i: "os_Lstat (h_fs st') absp = Inr info" "resp_info resp = Some (fileInfoFromFS (wr_path r) info)"
    using handleWrite_success [OF assms(2,3)] by metis
  note O = open_create_facts [OF o assms(1)]
  obtain b m t where b: "fget (fs_root fs2) q = Some (FFile b m t)"
    and old: "fget (fs_root (h_fs st)) q = Some (FFile b m t) \<and> fs2 = h_fs st \<or> fget (fs_root (h_fs st)) q = None \<and> b = []"
    using O(7) by blast
  note W = writeContent_facts [OF w b O(3,5)]
  have flt: "fs_fault fs2 = fs_fault (h_fs st)" using O(6) by (metis osfs.select_convs(6) osfs.surjective osfs.update_convs(1))
  have before: "os_ReadFile (h_fs st) absp = Inr b \<or> os_ReadFile (h_fs st) absp = Inl (PathError ''open'' absp OS_ENOENT) \<and> b = []"
    using old
  proof
    assume "fget (fs_root (h_fs st)) q = Some (FFile b m t) \<and> fs2 = h_fs st"
    then show ?thesis using O(1,2) by (auto simp: os_ReadFile_iff)
  next
    assume "fget (fs_root (h_fs st)) q = None \<and> b = []"
    then show ?thesis using O(1,2) by (simp add: os_ReadFile_def os_stat_node_def os_lookup_def)
  qed
  have after: "os_ReadFile (h_fs st') absp = Inr (new_content (wr_append r) (wr_offset r) b (wr_content r))"
    using W O(1,4) flt by (auto simp: os_ReadFile_iff)
  have others: "fget (fs_root (h_fs st')) p = Some x"
    if "fget (fs_root (h_fs st)) p = Some x" "\<not> is_fdir x" "os_resolve (h_fs st) absp True \<noteq> Inr p" for p x
  proof -
    have "p \<noteq> q" using that(3) O(2) by auto
    then show ?thesis using writeContent_others [OF w b O(3) open_create_others [OF o assms(1) that(1,2)] that(2)] by simp
  qed
  show ?thesis
    using a before after others i by (intro exI [of _ absp] exI [of _ b]) blast
qed

section \<open>Properties\<close>

text \<open>C13: a write that reports success has written: reading the path afterwards gives the old content (empty for a
  new file) with the bytes at their offset, a gap filled with zeros, or appended; every other file and link keeps
  its content; and the response carries the metadata of the written path.\<close>

theorem write_then_read:
  assumes "disk_ok (h_fs st)" "handleWrite g opts st reqID (Some r) = (st', resp)" "rp_success resp"
  shows "\<exists>absp old. resolveWorkspacePath (ho_root opts) (wr_path r) = Inr absp
    \<and> (os_ReadFile (h_fs st) absp = Inr old
       \<or> os_ReadFile (h_fs st) absp = Inl (PathError ''open'' absp OS_ENOENT) \<and> old = [])
    \<and> os_ReadFile (h_fs st') absp = Inr (new_content (wr_append r) (wr_offset r) old (wr_content r))
    \<and> (\<forall>p x. fget (fs_root (h_fs st)) p = Some x \<and> \<not> is_fdir x \<and> os_resolve (h_fs st) absp True \<noteq> Inr p \<longrightarrow>
         fget (fs_root (h_fs st')) p = Some x)
    \<and> (\<exists>info. resp_info resp = Some info \<and> fi_path info = ToSlash (wr_path r))"
  using handleWrite_effect [OF assms] by (elim exE conjE) (intro exI conjI, assumption+, simp add: fileInfoFromFS_def)

text \<open>A small disk: the workspace \<open>/w\<close> with one file.\<close>

definition demo_disk :: osfs where
  "demo_disk = \<lparr>fs_root = FDir [(''w'', FDir [(''a'', FFile ''hello'' 420 1)] 493 1)] 493 1, fs_now = 9, fs_umask = 18,
     fs_maxsize = 2 ^ 62, fs_dirsize = 4096, fs_fault = (\<lambda>_ _. None)\<rparr>"

definition demo_opts :: handle_options where
  "demo_opts = \<lparr>ho_root = ''/w'', ho_max_read = 0, ho_filter = None, ho_audit = True\<rparr>"

definition demo_host :: hstate where
  "demo_host = \<lparr>h_fs = demo_disk, h_self = None, h_clock = 9, h_log = []\<rparr>"

definition demo_write :: write_req where
  "demo_write = \<lparr>wr_path = ''a'', wr_content = ''XY'', wr_append = False, wr_mode = 0, wr_offset = 1\<rparr>"

theorem write_then_read_witness:
  "\<exists>absp old. resolveWorkspacePath ''/w'' ''a'' = Inr absp
     \<and> os_ReadFile (h_fs (fst (handleWrite star_glob demo_opts demo_host ''1'' (Some demo_write)))) absp
         = Inr (new_content False 1 old ''XY'')"
proof -
  have s: "rp_success (snd (handleWrite star_glob demo_opts demo_host ''1'' (Some demo_write)))" by code_simp
  have d: "disk_ok (h_fs demo_host)" by (simp add: demo_host_def demo_disk_def kind_at_def)
  show ?thesis
    using write_then_read [OF d prod.collapse [symmetric] s] by (auto simp: demo_opts_def demo_write_def)
qed

section \<open>The audit trail\<close>

lemma response_ids:
  "rp_id (errResponse reqID msg) = reqID" "rp_id (success_with reqID res) = reqID"
  "rp_id (snd (with_info st reqID absp rel fmt)) = reqID" "h_log (fst (with_info st reqID absp rel fmt)) = h_log st"
  by (simp_all add: errResponse_def success_with_def with_info_def successWithInfo_def split: sum.split)

lemma resolve_response_id:
  "resolveMutatingPath g opts fs reqID op p ro = Inl resp \<Longrightarrow> rp_id resp = reqID"
  "resolveRenamePaths g opts fs reqID rn = Inl resp \<Longrightarrow> rp_id resp = reqID"
  by (auto simp: resolveMutatingPath_def resolveRenamePaths_def response_ids split: sum.splits bool.splits if_splits)

lemma readlike_id: "handleReadLike g opts fs reqID op = Some resp \<Longrightarrow> rp_id resp = reqID"
  by (auto simp: handleReadLike_def handleRead_def handleStat_def handleListDir_def response_ids successWithInfo_def Let_def
      split: option.splits operation.splits sum.splits bool.splits)

lemma mutating_id:
  "rp_id (snd (handleMutating g opts st reqID op)) = reqID \<and> h_log (fst (handleMutating g opts st reqID op)) = h_log st"
proof -
  have "rp_id (snd (handleWrite g opts st reqID w)) = reqID \<and> h_log (fst (handleWrite g opts st reqID w)) = h_log st" for w
    by (auto simp: handleWrite_def Let_def response_ids resolve_response_id split: option.split sum.split prod.split)
  moreover have "rp_id (snd (handleMkdir g opts st reqID w)) = reqID \<and> h_log (fst (handleMkdir g opts st reqID w)) = h_log st" for w
    by (auto simp: handleMkdir_def Let_def response_ids resolve_response_id split: option.split sum.split prod.split)
  moreover have "rp_id (snd (handleDelete g opts st reqID w)) = reqID \<and> h_log (fst (handleDelete g opts st reqID w)) = h_log st" for w
    by (auto simp: handleDelete_def Let_def response_ids resolve_response_id successNoResult_def split: option.split sum.split prod.split)
  moreover have "rp_id (snd (handleRename g opts st reqID w)) = reqID \<and> h_log (fst (handleRename g opts st reqID w)) = h_log st" for w
    by (auto simp: handleRename_def Let_def response_ids resolve_response_id split: option.split sum.split prod.split)
  moreover have "rp_id (snd (handleTruncate g opts st reqID w)) = reqID \<and> h_log (fst (handleTruncate g opts st reqID w)) = h_log st" for w
    by (auto simp: handleTruncate_def Let_def response_ids resolve_response_id split: option.split sum.split prod.split)
  ultimately show ?thesis by (auto simp: handleMutating_def response_ids split: option.split operation.split)
qed

lemma audit_fields:
  "fillReadLikeAudit rec op resp = Some rec' \<Longrightarrow>
     ar_request_id rec' = ar_request_id rec \<and> ar_success rec' = ar_success rec \<and> ar_error rec' = ar_error rec"
  "ar_request_id (fillMutatingAudit rec op) = ar_request_id rec \<and> ar_success (fillMutatingAudit rec op) = ar_success rec
     \<and> ar_error (fillMutatingAudit rec op) = ar_error rec"
  by (auto simp: fillReadLikeAudit_def fillMutatingAudit_def split: option.splits operation.splits)

text \<open>Every request is answered under its own identifier, and when an auditor is set exactly one record is
  written for it, carrying the identifier, the success flag and the error of the response.\<close>

theorem every_request_audited:
  "rp_id (snd (Handle g opts st (Some rq))) = rq_id rq
   \<and> (if ho_audit opts
      then \<exists>rec. h_log (fst (Handle g opts st (Some rq))) = h_log st @ [rec] \<and> ar_request_id rec = rq_id rq
             \<and> ar_success rec = rp_success (snd (Handle g opts st (Some rq)))
             \<and> ar_error rec = rp_error (snd (Handle g opts st (Some rq)))
      else h_log (fst (Handle g opts st (Some rq))) = h_log st)"
proof -
  define res where "res = (case handleReadLike g opts (h_fs st) (rq_id rq) (rq_op rq) of
      Some resp \<Rightarrow> (st, resp) | None \<Rightarrow> handleMutating g opts st (rq_id rq) (rq_op rq))"
  have id: "rp_id (snd res) = rq_id rq" "h_log (fst res) = h_log st"
    using readlike_id mutating_id by (auto simp: res_def split: option.split)
  have H: "Handle g opts st (Some rq) = (auditRequest (ho_audit opts) rq (snd res) (fst res), snd res)"
    by (simp add: Handle_def res_def case_prod_unfold Let_def)
  show ?thesis
    unfolding H using id audit_fields(1) audit_fields(2)
    by (auto simp: auditRequest_def Let_def split: option.split)
qed

end
