(* ===== verification/Sync_Scan.thy ===== *)
theory Sync_Scan
  imports Sync_Handle
begin

text \<open>
  The initial scan, the watcher and the choice of the workspace root: \<open>src/pkg/syncer/scan.go\<close>, \<open>watch.go\<close> and
  \<open>workspace.go\<close>. The fsnotify library is not modelled: its events are the input of the watch loop, and the set of
  directories handed to it is the state.
\<close>

section \<open>Definitions\<close>

subsection \<open>Scan\<close>

datatype scan_error =
  ErrRootNotAbsolute | ErrRootNotDirectory | ScanStat go_err | ScanWalk

record scan_options =
  so_root :: string
  so_excludes :: "string list"
  so_filter :: "sensitive_filter option"

definition validateScanRoot :: "osfs \<Rightarrow> string \<Rightarrow> scan_error option" where
  "validateScanRoot fs root =
     (if \<not> is_abs root then Some ErrRootNotAbsolute
      else
        (case os_Stat fs root of
           Inl e \<Rightarrow> Some (ScanStat e)
         | Inr info \<Rightarrow> if \<not> oi_isdir info then Some ErrRootNotDirectory else None))"

definition scanRelativePath :: "string \<Rightarrow> string \<Rightarrow> string option" where
  "scanRelativePath root p = map_option ToSlash (fp_rel root p)"

definition dirEntryToFileInfo :: "string \<Rightarrow> os_info \<Rightarrow> file_info" where
  "dirEntryToFileInfo rel info =
     \<lparr>fi_path = rel, fi_size = oi_size info, fi_mod_time = oi_mtime info, fi_is_dir = oi_isdir info, fi_mode = oi_perm info\<rparr>"

text \<open>The entry to report, and whether to skip the directory.\<close>

definition scanEntry ::
  "glob \<Rightarrow> osfs \<Rightarrow> string \<Rightarrow> string \<Rightarrow> fnode \<Rightarrow> go_err option \<Rightarrow> string list \<Rightarrow> sensitive_filter option \<Rightarrow> file_info option \<times> bool" where
  "scanEntry g fs root p d walkErr excludes f =
     (if walkErr \<noteq> None \<or> p = root then (None, False)
      else
        (case scanRelativePath root p of
           None \<Rightarrow> (None, False)
         | Some rel \<Rightarrow>
             if f \<noteq> None \<and> sensitive_Match g f rel then (None, is_fdir d)
             else if matchExclude g rel excludes then (None, is_fdir d)
             else if fs_fault fs ''lstat'' p \<noteq> None then (None, False)
             else (Some (dirEntryToFileInfo rel (node_info fs d)), False)))"

definition scanWalkFn ::
  "glob \<Rightarrow> osfs \<Rightarrow> scan_options \<Rightarrow> string \<Rightarrow> fnode \<Rightarrow> go_err option \<Rightarrow> file_info list \<Rightarrow> file_info list \<times> unit walk_res" where
  "scanWalkFn g fs opts p d walkErr out =
     (let (entry, skipDir) = scanEntry g fs (so_root opts) p d walkErr (so_excludes opts) (so_filter opts) in
      if skipDir then (out, WSkipDir)
      else (case entry of Some e \<Rightarrow> (out @ [e], WContinue) | None \<Rightarrow> (out, WContinue)))"

definition Scan :: "glob \<Rightarrow> osfs \<Rightarrow> scan_options \<Rightarrow> scan_error + file_info list" where
  "Scan g fs opts =
     (case validateScanRoot fs (so_root opts) of
        Some e \<Rightarrow> Inl e
      | None \<Rightarrow>
          (case fp_WalkDir fs (scanWalkFn g fs opts) (so_root opts) [] of
             (out, Some _) \<Rightarrow> Inl ScanWalk
           | (out, None) \<Rightarrow> Inr out))"

subsection \<open>Watch\<close>

text \<open>The bits of an fsnotify operation.\<close>

record fs_op =
  op_create :: bool
  op_write :: bool
  op_remove :: bool
  op_rename :: bool

record fs_event =
  ev_name :: string
  ev_op :: fs_op

record watch_options =
  wo_root :: string
  wo_excludes :: "string list"
  wo_filter :: "sensitive_filter option"

definition toChangeType :: "fs_op \<Rightarrow> change_type" where
  "toChangeType op =
     (if op_create op then CHANGE_TYPE_CREATE
      else if op_write op then CHANGE_TYPE_MODIFY
      else if op_remove op then CHANGE_TYPE_DELETE
      else if op_rename op then CHANGE_TYPE_DELETE
      else CHANGE_TYPE_UNSPECIFIED)"

definition watchRelativePath :: "string \<Rightarrow> string \<Rightarrow> string option" where
  "watchRelativePath root name =
     (case fp_rel root name of
        None \<Rightarrow> None
      | Some rel \<Rightarrow> (let rel = ToSlash rel in if rel = [] \<or> rel = ''.'' then None else Some rel))"

definition lookupChangedInfo :: "osfs \<Rightarrow> string \<Rightarrow> string \<Rightarrow> change_type \<Rightarrow> file_info" where
  "lookupChangedInfo fs root rel ct =
     (if ct = CHANGE_TYPE_DELETE then zero_info\<lparr>fi_path := rel\<rparr>
      else
        (case Join root rel of
           Inl _ \<Rightarrow> zero_info\<lparr>fi_path := rel\<rparr>
         | Inr absp \<Rightarrow>
             (case os_Lstat fs absp of
                Inl _ \<Rightarrow> zero_info\<lparr>fi_path := rel\<rparr>
              | Inr fi \<Rightarrow>
                  \<lparr>fi_path = rel, fi_size = oi_size fi, fi_mod_time = oi_mtime fi, fi_is_dir = oi_isdir fi, fi_mode = oi_perm fi\<rparr>)))"

text \<open>The change to send, whether to watch the new directory, and the self-write filter after the test.\<close>

definition watchChangeFromEvent ::
  "glob \<Rightarrow> osfs \<Rightarrow> int \<Rightarrow> watch_options \<Rightarrow> fs_event \<Rightarrow> self_write_filter option \<Rightarrow> self_write_filter option \<times> file_change option \<times> bool" where
  "watchChangeFromEvent g fs now opts ev self =
     (case watchRelativePath (wo_root opts) (ev_name ev) of
        None \<Rightarrow> (self, None, False)
      | Some rel \<Rightarrow>
          if matchExclude g rel (wo_excludes opts) then (self, None, False)
          else if wo_filter opts \<noteq> None \<and> sensitive_Match g (wo_filter opts) rel then (self, None, False)
          else
            (let (self1, suppress) = ShouldSuppress now rel self in
             if suppress then (self1, None, False)
             else
               (let ct = toChangeType (ev_op ev) in
                if ct = CHANGE_TYPE_UNSPECIFIED then (self1, None, False)
                else
                  (let info = lookupChangedInfo fs (wo_root opts) rel ct
                   in (self1, Some \<lparr>fc_type = ct, fc_file = Some info, fc_old_path = []\<rparr>,
                       ct = CHANGE_TYPE_CREATE \<and> fi_is_dir info)))))"

record watch_state =
  w_watched :: "string list"
  w_self :: "self_write_filter option"
  w_sent :: "file_change list"

text \<open>One event. \<open>addable\<close> says whether \<open>watcher.Add\<close> succeeds; a failure is only logged.\<close>

definition handleWatchEvent ::
  "glob \<Rightarrow> osfs \<Rightarrow> int \<Rightarrow> watch_options \<Rightarrow> (string \<Rightarrow> bool) \<Rightarrow> fs_event \<Rightarrow> watch_state \<Rightarrow> watch_state" where
  "handleWatchEvent g fs now opts addable ev st =
     (let (self, change, watchDir) = watchChangeFromEvent g fs now opts ev (w_self st); st1 = st\<lparr>w_self := self\<rparr> in
      case change of
        None \<Rightarrow> st1
      | Some ch \<Rightarrow>
          (let st2 = (if watchDir \<and> addable (ev_name ev) then st1\<lparr>w_watched := w_watched st1 @ [ev_name ev]\<rparr> else st1)
           in st2\<lparr>w_sent := w_sent st2 @ [ch]\<rparr>))"

definition shouldSkipWatchedDir :: "glob \<Rightarrow> string \<Rightarrow> string \<Rightarrow> string list \<Rightarrow> sensitive_filter option \<Rightarrow> bool" where
  "shouldSkipWatchedDir g root p excludes f =
     (if p = root then False
      else
        (case fp_rel root p of
           None \<Rightarrow> False
         | Some rel \<Rightarrow>
             (let rel = ToSlash rel in
              if f \<noteq> None \<and> sensitive_Match g f rel then True else matchExclude g rel excludes)))"

definition watch_walk ::
  "glob \<Rightarrow> (string \<Rightarrow> bool) \<Rightarrow> string \<Rightarrow> string list \<Rightarrow> sensitive_filter option \<Rightarrow> string \<Rightarrow> fnode \<Rightarrow> go_err option \<Rightarrow> string list \<Rightarrow> string list \<times> string walk_res" where
  "watch_walk g addable root excludes f p n walkErr ws =
     (if walkErr \<noteq> None then (ws, WContinue)
      else if \<not> is_fdir n then (ws, WContinue)
      else if shouldSkipWatchedDir g root p excludes f then (ws, WSkipDir)
      else if addable p then (ws @ [p], WContinue) else (ws, WErr p))"

definition addTreeRecursively ::
  "glob \<Rightarrow> osfs \<Rightarrow> (string \<Rightarrow> bool) \<Rightarrow> string \<Rightarrow> string list \<Rightarrow> sensitive_filter option \<Rightarrow> string list \<times> string option" where
  "addTreeRecursively g fs addable root excludes f = fp_WalkDir fs (watch_walk g addable root excludes f) root []"

subsection \<open>The workspace root\<close>

datatype ws_error =
  ErrWorkspaceRootRequired | ErrWorkspaceRootNotAbs | ErrWorkspaceRootNotDir | ErrWorkspaceNameUnsafe | ErrWorkspaceRootUnscoped
| ErrGetwd

definition ValidateWorkspaceRoot :: "osfs \<Rightarrow> string \<Rightarrow> ws_error + string" where
  "ValidateWorkspaceRoot fs root =
     (if root = [] then Inl ErrWorkspaceRootRequired
      else if \<not> is_abs root then Inl ErrWorkspaceRootNotAbs
      else
        (case os_Stat fs root of
           Inl _ \<Rightarrow> Inl ErrWorkspaceRootNotDir
         | Inr info \<Rightarrow>
             if \<not> oi_isdir info then Inl ErrWorkspaceRootNotDir
             else
               (case CleanSegment (path_base (path_clean root)) of
                  Inl _ \<Rightarrow> Inl ErrWorkspaceNameUnsafe
                | Inr name \<Rightarrow> Inr name)))"

text \<open>\<open>home\<close> is the result of \<open>os.UserHomeDir\<close>, \<^const>\<open>None\<close> on error.\<close>

definition guardWorkspaceRoot :: "string option \<Rightarrow> string \<Rightarrow> ws_error option" where
  "guardWorkspaceRoot home root =
     (let cleaned = path_clean root in
      if cleaned = [slash] then Some ErrWorkspaceRootUnscoped
      else
        (case home of
           Some h \<Rightarrow> if path_clean h = cleaned then Some ErrWorkspaceRootUnscoped else None
         | None \<Rightarrow> None))"

text \<open>\<open>cwd\<close> is the result of \<open>os.Getwd\<close>.\<close>

definition ResolveWorkspaceRoot :: "osfs \<Rightarrow> string option \<Rightarrow> string option \<Rightarrow> ws_error + string" where
  "ResolveWorkspaceRoot fs home cwd =
     (case cwd of
        None \<Rightarrow> Inl ErrGetwd
      | Some cwd \<Rightarrow>
          (case guardWorkspaceRoot home cwd of
             Some e \<Rightarrow> Inl e
           | None \<Rightarrow> (case ValidateWorkspaceRoot fs cwd of Inl e \<Rightarrow> Inl e | Inr _ \<Rightarrow> Inr cwd)))"


section \<open>What a walk sees\<close>

text \<open>The entries a walk reaches, in its order: a hidden entry is left out with everything below it, and a directory that
  cannot be opened is listed without its entries.\<close>

fun vis_node :: "(string list \<Rightarrow> bool) \<Rightarrow> (string list \<Rightarrow> bool) \<Rightarrow> string list \<Rightarrow> fnode \<Rightarrow> (string list \<times> fnode) list"
and vis_list :: "(string list \<Rightarrow> bool) \<Rightarrow> (string list \<Rightarrow> bool) \<Rightarrow> string list \<Rightarrow> (string \<times> fnode) list \<Rightarrow> (string list \<times> fnode) list" where
  "vis_node hid closed r (FFile b m t) = (if hid r then [] else [(r, FFile b m t)])"
| "vis_node hid closed r (FLink b m t) = (if hid r then [] else [(r, FLink b m t)])"
| "vis_node hid closed r (FDir es m t) =
     (if hid r then [] else (r, FDir es m t) # (if closed r then [] else vis_list hid closed r es))"
| "vis_list hid closed r [] = []"
| "vis_list hid closed r ((c, n) # es) = vis_node hid closed (r @ [c]) n @ vis_list hid closed r es"

lemma set_vis_list: "set (vis_list hid closed r es) = (\<Union>(c, n) \<in> set es. set (vis_node hid closed (r @ [c]) n))"
  by (induction es) auto

definition seen :: "(string list \<Rightarrow> bool) \<Rightarrow> (string list \<Rightarrow> bool) \<Rightarrow> string list \<Rightarrow> string list \<Rightarrow> bool" where
  "seen hid closed r s = ((\<forall>k \<le> length s. \<not> hid (r @ take k s)) \<and> (\<forall>k < length s. \<not> closed (r @ take k s)))"

lemma seen_Nil: "seen hid closed r [] = (\<not> hid r)"
  by (simp add: seen_def)

lemma seen_Cons: "seen hid closed r (c # s) = (\<not> hid r \<and> \<not> closed r \<and> seen hid closed (r @ [c]) s)"
  by (auto simp: seen_def All_less_Suc2 simp flip: less_Suc_eq_le)

lemma fwf_dir: "fwf (FDir es m t) \<Longrightarrow> distinct (map fst es) \<and> (\<forall>c n. (c, n) \<in> set es \<longrightarrow> is_name c \<and> fwf n)"
  by (auto simp: list_all_iff strict_sorted_iff)

lemma vis_exact:
  "fwf n \<Longrightarrow> set (vis_node hid closed r n) = {(r @ s, n') |s n'. fget n s = Some n' \<and> seen hid closed r s}"
  "list_all (\<lambda>(c, n). fwf n) es \<Longrightarrow> (c, n) \<in> set es \<Longrightarrow>
     set (vis_node hid closed (r @ [c]) n) = {((r @ [c]) @ s, n') |s n'. fget n s = Some n' \<and> seen hid closed (r @ [c]) s}"
proof (induction hid closed r n and hid closed r es arbitrary: and c n rule: vis_node_vis_list.induct)
  case (1 hid closed r b m t)
  have "fget (FFile b m t) s = Some n' \<longleftrightarrow> s = [] \<and> n' = FFile b m t" for s n' by (cases s) auto
  then show ?case by (auto simp: seen_Nil)
next
  case (2 hid closed r b m t)
  have "fget (FLink b m t) s = Some n' \<longleftrightarrow> s = [] \<and> n' = FLink b m t" for s n' by (cases s) auto
  then show ?case by (auto simp: seen_Nil)
next
  case (3 hid closed r es m t)
  show ?case
  proof (cases "hid r \<or> closed r")
    case True
    have "seen hid closed r s \<longleftrightarrow> s = [] \<and> \<not> hid r" for s using True by (cases s) (auto simp: seen_Nil seen_Cons)
    then show ?thesis using True by auto
  next
    case False
    note wf = fwf_dir [OF 3(2)]
    have g: "fget (FDir es m t) (c # s) = Some n' \<longleftrightarrow> (\<exists>n. (c, n) \<in> set es \<and> fget n s = Some n')" for c s n'
    proof -
      have "map_of es c = Some n \<longleftrightarrow> (c, n) \<in> set es" for n using wf by (simp add: map_of_eq_Some_iff)
      then have "(\<exists>n. (c, n) \<in> set es \<and> fget n s = Some n') \<longleftrightarrow> (\<exists>n. map_of es c = Some n \<and> fget n s = Some n')" by simp
      then show ?thesis by (simp split: option.splits)
    qed
    have l: "set (vis_list hid closed r es) = {(r @ c # s, n') |c n s n'. (c, n) \<in> set es \<and> fget n s = Some n' \<and> seen hid closed (r @ [c]) s}"
    proof -
      have "set (vis_node hid closed (r @ [c]) n) = {((r @ [c]) @ s, n') |s n'. fget n s = Some n' \<and> seen hid closed (r @ [c]) s}"
        if "(c, n) \<in> set es" for c n using 3(1) [of c n] False that wf by (auto simp: list_all_iff)
      then show ?thesis unfolding set_vis_list by (auto simp: split_def)
    qed
    have A: "(r @ s, n') \<in> set (vis_node hid closed r (FDir es m t)) \<longleftrightarrow> fget (FDir es m t) s = Some n' \<and> seen hid closed r s" for s n'
      using False by (cases s) (auto simp: l seen_Nil seen_Cons g simp del: fget.simps(2))
    have B: "\<exists>s. r' = r @ s" if "(r', n') \<in> set (vis_node hid closed r (FDir es m t))" for r' n'
      using that False by (auto simp: l)
    show ?thesis
    proof (intro set_eqI iffI)
      fix x assume x: "x \<in> set (vis_node hid closed r (FDir es m t))"
      then obtain s where "fst x = r @ s" using B [of "fst x" "snd x"] by auto
      then have "x = (r @ s, snd x)" by (simp add: prod_eq_iff)
      then show "x \<in> {(r @ s, n') |s n'. fget (FDir es m t) s = Some n' \<and> seen hid closed r s}"
        using A [of s "snd x"] x by (metis (mono_tags, lifting) mem_Collect_eq)
    qed (use A in blast)
  qed
next
  case (4 hid closed r)
  then show ?case by simp
next
  case (5 hid closed r c n es)
  then show ?case by auto
qed

lemma vis_prefix:
  "x \<in> set (vis_node hid closed r n) \<Longrightarrow> prefix r (fst x)"
  "x \<in> set (vis_list hid closed r es) \<Longrightarrow> \<exists>c \<in> fst ` set es. prefix (r @ [c]) (fst x)"
proof (induction hid closed r n and hid closed r es rule: vis_node_vis_list.induct)
  case (3 hid closed r es m t)
  then show ?case by (auto split: if_splits dest: append_prefixD)
qed (auto split: if_splits)

lemma vis_order:
  "fwf n \<Longrightarrow> sorted_wrt (\<lambda>x y. \<not> prefix (fst y) (fst x)) (vis_node hid closed r n)"
  "list_all (\<lambda>(c, n). fwf n) es \<Longrightarrow> distinct (map fst es) \<Longrightarrow>
     sorted_wrt (\<lambda>x y. \<not> prefix (fst y) (fst x)) (vis_list hid closed r es)"
proof (induction hid closed r n and hid closed r es rule: vis_node_vis_list.induct)
  case (3 hid closed r es m t)
  note wf = fwf_dir [OF 3(2)]
  then have l: "list_all (\<lambda>(c, n). fwf n) es" by (auto simp: list_all_iff)
  have "\<not> prefix (fst x) r" if h: "x \<in> set (vis_list hid closed r es)" for x
  proof
    assume "prefix (fst x) r"
    then have "\<exists>c. prefix (r @ [c]) r" using vis_prefix(2) [OF h] prefix_order.trans by blast
    then show False by (simp add: prefix_def)
  qed
  then show ?case using 3 wf l by auto
next
  case (5 hid closed r c n es)
  have "\<not> prefix (fst y) (fst x)" if h: "x \<in> set (vis_node hid closed (r @ [c]) n)" "y \<in> set (vis_list hid closed r es)" for x y
  proof
    assume p: "prefix (fst y) (fst x)"
    obtain d where d: "d \<in> fst ` set es" "prefix (r @ [d]) (fst y)" using vis_prefix(2) [OF h(2)] by blast
    then have "prefix (r @ [d]) (fst x)" using p prefix_order.trans by blast
    moreover have "d \<noteq> c" using d(1) 5(4) by force
    ultimately have "prefix (r @ [d]) (fst x) \<and> prefix (r @ [c]) (fst x) \<and> d \<noteq> c" using vis_prefix(1) [OF h(1)] by blast
    then show False by (auto simp: prefix_def)
  qed
  then show ?case using 5 by (auto simp: sorted_wrt_append)
qed simp_all


text \<open>The contract of a callback that skips what is hidden, ignores errors and otherwise folds the entry into its state.\<close>

locale walk_callback =
  fixes fs :: osfs and R :: "string list" and fn :: "string \<Rightarrow> fnode \<Rightarrow> go_err option \<Rightarrow> 's \<Rightarrow> 's \<times> 'e walk_res"
    and hid :: "string list \<Rightarrow> bool" and upd :: "'s \<Rightarrow> string list \<times> fnode \<Rightarrow> 's"
  assumes visit: "\<forall>c \<in> set (R @ r). is_name c \<Longrightarrow> fn (render_path True (R @ r)) n None s
      = (if hid r then (s, if is_fdir n then WSkipDir else WContinue) else (upd s (r, n), WContinue))"
    and failed: "\<forall>c \<in> set (R @ r). is_name c \<Longrightarrow> fn (render_path True (R @ r)) n (Some e) s = (s, WContinue)"
begin

definition closed :: "string list \<Rightarrow> bool" where
  "closed r = (fs_fault fs ''open'' (render_path True (R @ r)) \<noteq> None)"

lemma walk_child: "\<forall>c \<in> set (R @ r @ [c]). is_name c \<Longrightarrow> fp_join [render_path True (R @ r), c] = render_path True (R @ r @ [c])"
  using fp_join_names [of "render_path True (R @ r)" "[c]"] render_abs_elems [of "R @ r"] path_clean_ne
  by simp (metis list.distinct(1) render_path_def)

lemma walk_vis:
  "fwf n \<Longrightarrow> \<forall>c \<in> set (R @ r). is_name c \<Longrightarrow> h = hid \<Longrightarrow> cl = closed \<Longrightarrow>
     walk_node fs fn (render_path True (R @ r)) n s = (foldl upd s (vis_node h cl r n), WContinue)"
  "list_all (\<lambda>(c, n). is_name c \<and> fwf n) es \<Longrightarrow> \<forall>c \<in> set (R @ r). is_name c \<Longrightarrow> h = hid \<Longrightarrow> cl = closed \<Longrightarrow>
     walk_list fs fn (render_path True (R @ r)) es s = (foldl upd s (vis_list h cl r es), WContinue)"
proof (induction h cl r n and h cl r es arbitrary: s and s rule: vis_node_vis_list.induct)
  case (1 h cl r b m t)
  then show ?case by (simp add: visit)
next
  case (2 h cl r b m t)
  then show ?case by (simp add: visit)
next
  case (3 h cl r es m t)
  then show ?case by (simp add: visit failed after_callback_def closed_def split: option.split)
next
  case (4 h cl r)
  then show ?case by simp
next
  case (5 h cl r c n es)
  then show ?case using walk_child [of r c] by simp
qed

end


text \<open>Both callbacks of the daemon satisfy it, with the same idea of what is hidden.\<close>

definition hidden :: "glob \<Rightarrow> string list \<Rightarrow> sensitive_filter option \<Rightarrow> string list \<Rightarrow> bool" where
  "hidden g excludes f r = (r \<noteq> [] \<and>
     (f \<noteq> None \<and> sensitive_Match g f (ToSlash (rel_path r)) \<or> matchExclude g (ToSlash (rel_path r)) excludes))"

lemma render_abs_inject:
  "\<forall>c \<in> set p. is_name c \<Longrightarrow> \<forall>c \<in> set q. is_name c \<Longrightarrow> render_path True p = render_path True q \<longleftrightarrow> p = q"
  using render_abs_elems [of p] render_abs_elems [of q] by metis

lemma fp_rel_below:
  assumes "\<forall>c \<in> set (R @ r). is_name c" "r \<noteq> []"
  shows "fp_rel (render_path True R) (render_path True (R @ r)) = Some (rel_path r)"
proof -
  have a: "is_rooted (render_path True R)" "clean_elems (render_path True R) = R" "path_clean (render_path True R) = render_path True R"
    and b: "is_rooted (render_path True (R @ r))" "clean_elems (render_path True (R @ r)) = R @ r"
      "path_clean (render_path True (R @ r)) = render_path True (R @ r)"
    using assms(1) render_abs_elems [of R] render_abs_elems [of "R @ r"] by auto
  have "drop_common R (R @ r) = ([], r)" using drop_common_append [of R "[]" r] by simp
  then show ?thesis
    using fp_rel_abs [of "render_path True R" "render_path True (R @ r)" "[]" r] a b render_abs_inject [of R "R @ r"] assms
    by (simp add: rel_path_def)
qed

definition scan_upd :: "osfs \<Rightarrow> string list \<Rightarrow> file_info list \<Rightarrow> string list \<times> fnode \<Rightarrow> file_info list" where
  "scan_upd fs R out x = (if fst x = [] \<or> fs_fault fs ''lstat'' (render_path True (R @ fst x)) \<noteq> None then out
     else out @ [dirEntryToFileInfo (ToSlash (rel_path (fst x))) (node_info fs (snd x))])"

interpretation scan_cb: walk_callback fs R "scanWalkFn g fs (opts\<lparr>so_root := render_path True R\<rparr>)"
  "hidden g (so_excludes opts) (so_filter opts)" "scan_upd fs R" for fs R g opts
proof
  fix r n s assume n: "\<forall>c \<in> set (R @ r). is_name c"
  then have i: "render_path True (R @ r) = render_path True R \<longleftrightarrow> r = []"
    using render_abs_inject [of "R @ r" R] by simp
  show "scanWalkFn g fs (opts\<lparr>so_root := render_path True R\<rparr>) (render_path True (R @ r)) n None s
     = (if hidden g (so_excludes opts) (so_filter opts) r then (s, if is_fdir n then WSkipDir else WContinue)
        else (scan_upd fs R s (r, n), WContinue))"
    using fp_rel_below [OF n] i
    by (cases "r = []") (auto simp: scanWalkFn_def scanEntry_def scanRelativePath_def hidden_def scan_upd_def)
qed (simp add: scanWalkFn_def scanEntry_def)

definition watch_upd :: "string list \<Rightarrow> string list \<Rightarrow> string list \<times> fnode \<Rightarrow> string list" where
  "watch_upd R ws x = (if is_fdir (snd x) then ws @ [render_path True (R @ fst x)] else ws)"

lemma scan_upd_foldl: "foldl (scan_upd fs R) out xs = out @
   map (\<lambda>(r, n). dirEntryToFileInfo (ToSlash (rel_path r)) (node_info fs n))
     (filter (\<lambda>(r, n). r \<noteq> [] \<and> fs_fault fs ''lstat'' (render_path True (R @ r)) = None) xs)"
  by (induction xs arbitrary: out) (auto simp: scan_upd_def split_def)

lemma watch_upd_foldl: "foldl (watch_upd R) ws xs = ws @ map (\<lambda>(r, n). render_path True (R @ r)) (filter (\<lambda>(r, n). is_fdir n) xs)"
  by (induction xs arbitrary: ws) (auto simp: watch_upd_def split_def)


interpretation watch_cb: walk_callback fs R "watch_walk g (\<lambda>_. True) (render_path True R) excludes f"
  "hidden g excludes f" "watch_upd R" for fs R g excludes f
proof
  fix r n s assume n: "\<forall>c \<in> set (R @ r). is_name c"
  then have i: "render_path True (R @ r) = render_path True R \<longleftrightarrow> r = []"
    using render_abs_inject [of "R @ r" R] by simp
  show "watch_walk g (\<lambda>_. True) (render_path True R) excludes f (render_path True (R @ r)) n None s
     = (if hidden g excludes f r then (s, if is_fdir n then WSkipDir else WContinue) else (watch_upd R s (r, n), WContinue))"
    using fp_rel_below [OF n] i
    by (cases "r = []") (auto simp: watch_walk_def shouldSkipWatchedDir_def hidden_def watch_upd_def Let_def)
qed (simp add: watch_walk_def)

definition readable :: "osfs \<Rightarrow> string list \<Rightarrow> string list \<Rightarrow> bool" where
  "readable fs R r = (\<forall>k < length r. fs_fault fs ''open'' (render_path True (R @ take k r)) = None)"

definition shown :: "glob \<Rightarrow> string list \<Rightarrow> sensitive_filter option \<Rightarrow> string list \<Rightarrow> bool" where
  "shown g excludes f r = (\<forall>k \<le> length r. \<not> hidden g excludes f (take k r))"

lemma seen_shown: "seen (hidden g excludes f) (scan_cb.closed fs R) [] r \<longleftrightarrow> shown g excludes f r \<and> readable fs R r"
  by (simp add: seen_def shown_def readable_def scan_cb.closed_def)

section \<open>Properties\<close>

lemma sorted_wrt_filter_keep: "sorted_wrt P xs \<Longrightarrow> sorted_wrt P (filter Q xs)"
  by (induction xs) auto

lemma parents_first_distinct: "sorted_wrt (\<lambda>x y. \<not> prefix (fst y) (fst x)) xs \<Longrightarrow> distinct (map fst xs)"
  by (induction xs) force+

lemma fget_names: "fget n r = Some m \<Longrightarrow> fwf n \<Longrightarrow> \<forall>c \<in> set r. is_name c"
  by (induction n r rule: fget.induct) (auto simp: list_all_iff split: option.splits dest!: map_of_SomeD)

text \<open>What the scan returns, by the walk over the visible nodes.\<close>

lemma Scan_visible:
  assumes "\<forall>c \<in> set R. is_name c" "so_root opts = render_path True R"
    and "os_stat_node ''stat'' True fs (so_root opts) = Inr d" "os_stat_node ''lstat'' False fs (so_root opts) = Inr d"
    and "is_fdir d" "fwf d"
  shows "\<exists>vs. Scan g fs opts = Inr (map (\<lambda>(r, n). dirEntryToFileInfo (ToSlash (rel_path r)) (node_info fs n)) vs)
    \<and> set vs = {(r, n). r \<noteq> [] \<and> fget d r = Some n \<and> shown g (so_excludes opts) (so_filter opts) r \<and> readable fs R r
         \<and> fs_fault fs ''lstat'' (render_path True (R @ r)) = None}
    \<and> sorted_wrt (\<lambda>x y. \<not> prefix (fst y) (fst x)) vs"
proof -
  let ?hid = "hidden g (so_excludes opts) (so_filter opts)" and ?cl = "scan_cb.closed fs R"
  let ?vis = "vis_node ?hid ?cl [] d"
  let ?vs = "filter (\<lambda>(r, n). r \<noteq> [] \<and> fs_fault fs ''lstat'' (render_path True (R @ r)) = None) ?vis"
  have o: "opts\<lparr>so_root := render_path True R\<rparr> = opts" using assms(2) by simp
  have w: "walk_node fs (scanWalkFn g fs opts) (so_root opts) d [] = (foldl (scan_upd fs R) [] ?vis, WContinue)"
    using scan_cb.walk_vis(1) [where ?r = "[]" and opts = opts and R = R, OF assms(6) _ refl refl] assms(1,2) o by simp
  have d: "oi_isdir (node_info fs d)" using assms(5) by (cases d) simp_all
  have a: "is_abs (so_root opts)" unfolding assms(2) is_abs_def by (simp add: render_path_def)
  have "Scan g fs opts = Inr (map (\<lambda>(r, n). dirEntryToFileInfo (ToSlash (rel_path r)) (node_info fs n)) ?vs)"
    using assms(3,4) w d a by (simp add: Scan_def validateScanRoot_def os_Stat_def fp_WalkDir_def scan_upd_foldl)
  moreover have "set ?vs = {(r, n). r \<noteq> [] \<and> fget d r = Some n \<and> shown g (so_excludes opts) (so_filter opts) r \<and> readable fs R r
         \<and> fs_fault fs ''lstat'' (render_path True (R @ r)) = None}"
    using vis_exact(1) [OF assms(6), of ?hid ?cl "[]"] by (auto simp: seen_shown)
  moreover have "sorted_wrt (\<lambda>x y. \<not> prefix (fst y) (fst x)) ?vs"
    by (intro sorted_wrt_filter_keep vis_order(1) assms(6))
  ultimately show ?thesis by blast
qed

text \<open>C16: the initial scan is exact. It reports, once each and parents before children, every entry below the root
  that no pattern hides, neither itself nor by one of its directories, with the metadata of the node; only entries
  that cannot be examined or stand in a directory that cannot be opened are missing.\<close>

theorem Scan_exact:
  assumes "\<forall>c \<in> set R. is_name c" "so_root opts = render_path True R"
    and "os_stat_node ''stat'' True fs (so_root opts) = Inr d" "os_stat_node ''lstat'' False fs (so_root opts) = Inr d"
    and "is_fdir d" "fwf d"
  shows "\<exists>vs. Scan g fs opts = Inr (map (\<lambda>(r, n). dirEntryToFileInfo (ToSlash (rel_path r)) (node_info fs n)) vs)
    \<and> set vs = {(r, n). r \<noteq> [] \<and> fget d r = Some n \<and> shown g (so_excludes opts) (so_filter opts) r \<and> readable fs R r
         \<and> fs_fault fs ''lstat'' (render_path True (R @ r)) = None}
    \<and> sorted_wrt (\<lambda>x y. \<not> prefix (fst y) (fst x)) vs"
  using Scan_visible [OF assms] .

text \<open>The watcher watches exactly the directories the scan shows and the root, each once.\<close>

theorem watch_exact:
  assumes "\<forall>c \<in> set R. is_name c" "os_stat_node ''lstat'' False fs (render_path True R) = Inr d" "fwf d"
  shows "\<exists>ws. addTreeRecursively g fs (\<lambda>_. True) (render_path True R) excludes f = (ws, None) \<and> distinct ws
    \<and> set ws = {render_path True (R @ r) |r n. fget d r = Some n \<and> is_fdir n \<and> shown g excludes f r \<and> readable fs R r}"
proof -
  let ?hid = "hidden g excludes f" and ?cl = "scan_cb.closed fs R"
  let ?vis = "filter (\<lambda>(r, n). is_fdir n) (vis_node ?hid ?cl [] d)"
  have w: "addTreeRecursively g fs (\<lambda>_. True) (render_path True R) excludes f = (map (\<lambda>(r, n). render_path True (R @ r)) ?vis, None)"
    using watch_cb.walk_vis(1) [where ?r = "[]" and R = R and fs = fs, OF assms(3) _ refl refl] assms(1,2)
    by (simp add: addTreeRecursively_def fp_WalkDir_def watch_upd_foldl watch_cb.closed_def scan_cb.closed_def)
  have st: "set ?vis = {(r, n). fget d r = Some n \<and> is_fdir n \<and> shown g excludes f r \<and> readable fs R r}"
    using vis_exact(1) [OF assms(3), of ?hid ?cl "[]"] by (auto simp: seen_shown)
  have "sorted_wrt (\<lambda>x y. \<not> prefix (fst y) (fst x)) ?vis" by (intro sorted_wrt_filter_keep vis_order(1) assms(3))
  then have "distinct (map fst ?vis)" by (rule parents_first_distinct)
  moreover have "inj_on (\<lambda>r. render_path True (R @ r)) (fst ` set ?vis)"
    unfolding st using assms(1,3) fget_names by (intro inj_onI) (auto simp: render_abs_inject Ball_def)
  ultimately have "distinct (map ((\<lambda>r. render_path True (R @ r)) \<circ> fst) ?vis)" by (simp add: distinct_map comp_inj_on)
  moreover have "map ((\<lambda>r. render_path True (R @ r)) \<circ> fst) ?vis = map (\<lambda>(r, n). render_path True (R @ r)) ?vis" by auto
  moreover have "set (map (\<lambda>(r, n). render_path True (R @ r)) ?vis)
      = {render_path True (R @ r) |r n. fget d r = Some n \<and> is_fdir n \<and> shown g excludes f r \<and> readable fs R r}"
    unfolding set_map st by auto
  ultimately show ?thesis using w by auto
qed


definition scan_disk :: osfs where
  "scan_disk = \<lparr>fs_root = FDir [(''l'', FLink ''w'' 511 1), (''w'', FDir [(''.env'', FFile ''key'' 420 1), (''a'', FDir [(''b'', FFile ''x'' 420 1)] 493 1)] 493 1)] 493 1,
     fs_now = 9, fs_umask = 18, fs_maxsize = 2 ^ 62, fs_dirsize = 4096, fs_fault = (\<lambda>_ _. None)\<rparr>"

definition scan_opts :: scan_options where
  "scan_opts = \<lparr>so_root = ''/w'', so_excludes = [], so_filter = Some \<lparr>patterns = defaultSensitivePatterns\<rparr>\<rparr>"

lemma scan_demo:
  "\<forall>c \<in> set [''w'']. is_name c" "so_root scan_opts = render_path True [''w'']"
  "os_stat_node ''stat'' True scan_disk (so_root scan_opts) = Inr (the (fget (fs_root scan_disk) [''w'']))"
  "os_stat_node ''lstat'' False scan_disk (so_root scan_opts) = Inr (the (fget (fs_root scan_disk) [''w'']))"
  "is_fdir (the (fget (fs_root scan_disk) [''w'']))" "fwf (the (fget (fs_root scan_disk) [''w'']))"
  by code_simp+

theorem Scan_exact_witness:
  "\<exists>vs. Scan star_glob scan_disk scan_opts
      = Inr (map (\<lambda>(r, n). dirEntryToFileInfo (ToSlash (rel_path r)) (node_info scan_disk n)) vs)
    \<and> sorted_wrt (\<lambda>x y. \<not> prefix (fst y) (fst x)) vs"
  using Scan_exact [OF scan_demo] by blast

theorem watch_exact_witness:
  "\<exists>ws. addTreeRecursively star_glob scan_disk (\<lambda>_. True) (render_path True [''w'']) [] None = (ws, None) \<and> distinct ws"
  using watch_exact [OF scan_demo(1) scan_demo(4) [unfolded scan_demo(2)] scan_demo(6)] by blast

text \<open>A workspace root that is a symbolic link to a directory passes the validation but is scanned as empty and
  gets no watches, since the walk does not follow a link at its root.\<close>

theorem linked_root_scans_empty:
  assumes "validateScanRoot fs (so_root opts) = None" "os_stat_node ''lstat'' False fs (so_root opts) = Inr (FLink target m t)"
  shows "Scan g fs opts = Inr [] \<and> addTreeRecursively g fs addable (so_root opts) excludes f = ([], None)"
  using assms by (simp add: Scan_def fp_WalkDir_def scanWalkFn_def scanEntry_def addTreeRecursively_def watch_walk_def)

theorem linked_root_scans_empty_witness:
  "validateScanRoot scan_disk ''/l'' = None \<and> Scan star_glob scan_disk (scan_opts\<lparr>so_root := ''/l''\<rparr>) = Inr []"
proof -
  have a: "validateScanRoot scan_disk (so_root (scan_opts\<lparr>so_root := ''/l''\<rparr>)) = None" by code_simp
  have b: "os_stat_node ''lstat'' False scan_disk (so_root (scan_opts\<lparr>so_root := ''/l''\<rparr>)) = Inr (FLink ''w'' 511 1)" by code_simp
  show ?thesis using linked_root_scans_empty [OF a b] a by simp
qed

end
