(* ===== verification/Config.thy ===== *)
theory Config
  imports Go_Path
begin

text \<open>
  The configuration of the daemon and the server, \<open>src/pkg/config/config.go\<close>. Reading the YAML file and the environment
  is the work of the viper library: \<open>load\<close> is a parameter that fills a configuration from a path or fails. Durations are
  nanoseconds. The validators change their receiver, so each returns the changed configuration beside the error.
\<close>

section \<open>Definitions\<close>

datatype cfg_error =
  ErrEmptyServerAddress | ErrEmptyListen | ErrEmptyTokens | ErrMountpointNotAbs
| ErrAuditDriverInvalid | ErrAuditDSNRequired | ErrAuditTableInvalid | ErrLoadConfig

definition go_second :: int where "go_second = 1000000000"

definition DefaultRequestTimeout :: int where "DefaultRequestTimeout = 10 * go_second"
definition DefaultSelfWriteTTL :: int where "DefaultSelfWriteTTL = 2 * go_second"
definition DefaultOfflineReadOnlyTTL :: int where "DefaultOfflineReadOnlyTTL = 5 * 60 * go_second"
definition DefaultPrefetchMaxFileBytes :: int where "DefaultPrefetchMaxFileBytes = 100 * 1024"
definition DefaultPrefetchMaxFilesPerDir :: int where "DefaultPrefetchMaxFilesPerDir = 16"
definition DefaultAuditTable :: string where "DefaultAuditTable = ''file_audit_log''"
definition DefaultAuditQueueSize :: int where "DefaultAuditQueueSize = 256"
definition DefaultPTYWorkspaceRoot :: string where "DefaultPTYWorkspaceRoot = ''/workspace''"
definition DefaultPTYFrameMaxBytes :: int where "DefaultPTYFrameMaxBytes = 64 * 1024"
definition DefaultPTYGracefulShutdown :: int where "DefaultPTYGracefulShutdown = 5 * go_second"
definition DefaultPTYEnvPassthrough :: "string list" where
  "DefaultPTYEnvPassthrough = [''TERM'', ''LANG'', ''LC_ALL'', ''LC_CTYPE'', ''PATH'', ''HOME'', ''SHELL'', ''CLAUDE_CONFIG_DIR'']"
definition DefaultStartupMaxRetries :: int where "DefaultStartupMaxRetries = 3"

record tls_config =
  tls_enabled :: bool
  tls_server_name :: string
  tls_ca_file :: string
  tls_insecure :: bool

record server_endpoint =
  se_address :: string
  se_token :: string
  se_tls :: tls_config

record workspace_config =
  wc_exclude :: "string list"
  wc_sensitive :: "string list"

record audit_config =
  au_enabled :: bool
  au_driver :: string
  au_dsn :: string
  au_table :: string
  au_queue_size :: int

record daemon_config =
  dc_server :: server_endpoint
  dc_workspace :: workspace_config
  dc_audit :: audit_config
  dc_self_write_ttl :: int

record prefetch_config =
  pf_enabled :: bool
  pf_max_file_bytes :: int
  pf_max_files_per_dir :: int

record server_config =
  sc_listen :: string
  sc_tokens :: "(string \<times> string) list"
  sc_mountpoint :: string
  sc_cache_max_bytes :: int
  sc_prefetch :: prefetch_config
  sc_request_timeout :: int
  sc_offline_ttl :: int

definition defaultDaemonConfig :: daemon_config where
  "defaultDaemonConfig =
     \<lparr>dc_server = \<lparr>se_address = [], se_token = [],
        se_tls = \<lparr>tls_enabled = False, tls_server_name = [], tls_ca_file = [], tls_insecure = False\<rparr>\<rparr>,
      dc_workspace = \<lparr>wc_exclude = [], wc_sensitive = []\<rparr>,
      dc_audit = \<lparr>au_enabled = False, au_driver = [], au_dsn = [], au_table = DefaultAuditTable,
        au_queue_size = DefaultAuditQueueSize\<rparr>,
      dc_self_write_ttl = DefaultSelfWriteTTL\<rparr>"

definition defaultServerConfig :: server_config where
  "defaultServerConfig =
     \<lparr>sc_listen = [], sc_tokens = [], sc_mountpoint = [], sc_cache_max_bytes = 0,
      sc_prefetch = \<lparr>pf_enabled = True, pf_max_file_bytes = DefaultPrefetchMaxFileBytes,
        pf_max_files_per_dir = DefaultPrefetchMaxFilesPerDir\<rparr>,
      sc_request_timeout = DefaultRequestTimeout, sc_offline_ttl = DefaultOfflineReadOnlyTTL\<rparr>"

definition IsSupportedAuditDriver :: "string \<Rightarrow> bool" where
  "IsSupportedAuditDriver driver =
     (to_lower (trim_space driver) \<in> {''sqlite'', ''sqlite3'', ''mysql'', ''postgres'', ''postgresql'', ''pgsql''})"

text \<open>The expression \<open>^[A-Za-z0-9_]+$\<close>.\<close>

definition table_char :: "char \<Rightarrow> bool" where
  "table_char c = (let n = of_char c :: nat in 65 \<le> n \<and> n \<le> 90 \<or> 97 \<le> n \<and> n \<le> 122 \<or> 48 \<le> n \<and> n \<le> 57 \<or> n = 95)"

definition auditTablePattern :: "string \<Rightarrow> bool" where
  "auditTablePattern s = (s \<noteq> [] \<and> list_all table_char s)"

definition validateAudit :: "daemon_config \<Rightarrow> daemon_config \<times> cfg_error option" where
  "validateAudit c =
     (let a0 = dc_audit c;
          a1 = (if au_table a0 = [] then a0\<lparr>au_table := DefaultAuditTable\<rparr> else a0);
          a = (if au_queue_size a1 \<le> 0 then a1\<lparr>au_queue_size := DefaultAuditQueueSize\<rparr> else a1);
          c' = c\<lparr>dc_audit := a\<rparr> in
      if \<not> au_enabled a then (c', None)
      else if \<not> IsSupportedAuditDriver (au_driver a) then (c', Some ErrAuditDriverInvalid)
      else if trim_space (au_dsn a) = [] then (c', Some ErrAuditDSNRequired)
      else if \<not> auditTablePattern (au_table a) then (c', Some ErrAuditTableInvalid)
      else (c', None))"

definition daemon_Validate :: "daemon_config \<Rightarrow> daemon_config \<times> cfg_error option" where
  "daemon_Validate c =
     (if trim_space (se_address (dc_server c)) = [] then (c, Some ErrEmptyServerAddress)
      else
        validateAudit
          (if dc_self_write_ttl c \<le> 0 then c\<lparr>dc_self_write_ttl := DefaultSelfWriteTTL\<rparr> else c))"

definition server_Validate :: "server_config \<Rightarrow> server_config \<times> cfg_error option" where
  "server_Validate c =
     (if trim_space (sc_listen c) = [] then (c, Some ErrEmptyListen)
      else if sc_tokens c = [] then (c, Some ErrEmptyTokens)
      else if \<not> is_abs (sc_mountpoint c) then (c, Some ErrMountpointNotAbs)
      else (if sc_request_timeout c \<le> 0 then c\<lparr>sc_request_timeout := DefaultRequestTimeout\<rparr> else c, None))"

definition LoadDaemon :: "(string \<Rightarrow> daemon_config \<Rightarrow> daemon_config option) \<Rightarrow> string \<Rightarrow> cfg_error + daemon_config" where
  "LoadDaemon load p =
     (case load p defaultDaemonConfig of
        None \<Rightarrow> Inl ErrLoadConfig
      | Some cfg \<Rightarrow> (case daemon_Validate cfg of (_, Some e) \<Rightarrow> Inl e | (cfg', None) \<Rightarrow> Inr cfg'))"

definition LoadServer :: "(string \<Rightarrow> server_config \<Rightarrow> server_config option) \<Rightarrow> string \<Rightarrow> cfg_error + server_config" where
  "LoadServer load p =
     (case load p defaultServerConfig of
        None \<Rightarrow> Inl ErrLoadConfig
      | Some cfg \<Rightarrow> (case server_Validate cfg of (_, Some e) \<Rightarrow> Inl e | (cfg', None) \<Rightarrow> Inr cfg'))"

section \<open>Well-formed configurations\<close>

definition daemon_config_ok :: "daemon_config \<Rightarrow> bool" where
  "daemon_config_ok c =
     (trim_space (se_address (dc_server c)) \<noteq> [] \<and> 0 < dc_self_write_ttl c
      \<and> au_table (dc_audit c) \<noteq> [] \<and> 0 < au_queue_size (dc_audit c)
      \<and> (au_enabled (dc_audit c) \<longrightarrow>
           IsSupportedAuditDriver (au_driver (dc_audit c)) \<and> trim_space (au_dsn (dc_audit c)) \<noteq> []
           \<and> auditTablePattern (au_table (dc_audit c))))"

lemma validateAudit_cases:
  "validateAudit c = (c', e) \<Longrightarrow>
     dc_server c' = dc_server c \<and> dc_self_write_ttl c' = dc_self_write_ttl c \<and> dc_workspace c' = dc_workspace c
     \<and> au_enabled (dc_audit c') = au_enabled (dc_audit c) \<and> au_table (dc_audit c') \<noteq> [] \<and> 0 < au_queue_size (dc_audit c')
     \<and> (e = None \<longrightarrow> au_enabled (dc_audit c') \<longrightarrow>
          IsSupportedAuditDriver (au_driver (dc_audit c')) \<and> trim_space (au_dsn (dc_audit c')) \<noteq> []
          \<and> auditTablePattern (au_table (dc_audit c')))"
  by (auto simp: validateAudit_def Let_def DefaultAuditTable_def DefaultAuditQueueSize_def split: if_splits)

lemma daemon_Validate_ok: "daemon_Validate c = (c', None) \<Longrightarrow> daemon_config_ok c'"
  unfolding daemon_Validate_def daemon_config_ok_def
  by (auto simp: DefaultSelfWriteTTL_def go_second_def split: if_splits dest!: validateAudit_cases)

lemma validateAudit_fixed:
  "daemon_config_ok c \<Longrightarrow> validateAudit c = (c, None)"
  by (auto simp: daemon_config_ok_def validateAudit_def Let_def)

lemma daemon_Validate_fixed: "daemon_config_ok c \<Longrightarrow> daemon_Validate c = (c, None)"
  using validateAudit_fixed [of c] by (simp add: daemon_Validate_def) (simp add: daemon_config_ok_def)

section \<open>Properties\<close>

text \<open>C37: a daemon configuration that loads is usable: it names a server, its self-write window and its audit queue are
  positive, and an enabled audit has a supported driver, a data source and a table name of letters, digits and
  underscores only. Validation is idempotent, and a file that is well-formed already is taken over unchanged.\<close>

theorem LoadDaemon_valid:
  assumes "LoadDaemon load p = Inr c"
  shows "daemon_config_ok c \<and> daemon_Validate c = (c, None)
    \<and> (\<forall>c0. load p defaultDaemonConfig = Some c0 \<and> daemon_config_ok c0 \<longrightarrow> c = c0)"
proof -
  obtain c0 where c0: "load p defaultDaemonConfig = Some c0" "daemon_Validate c0 = (c, None)"
    using assms by (auto simp: LoadDaemon_def split: option.splits prod.splits)
  then have ok: "daemon_config_ok c" using daemon_Validate_ok by blast
  show ?thesis using ok daemon_Validate_fixed [OF ok] daemon_Validate_fixed [of c0] c0 by auto
qed

definition demo_daemon_config :: daemon_config where
  "demo_daemon_config = defaultDaemonConfig\<lparr>dc_server := (dc_server defaultDaemonConfig)\<lparr>se_address := ''h:1''\<rparr>,
     dc_self_write_ttl := 0\<rparr>"

theorem LoadDaemon_valid_witness:
  "LoadDaemon (\<lambda>_ _. Some demo_daemon_config) ''c'' = Inr (demo_daemon_config\<lparr>dc_self_write_ttl := DefaultSelfWriteTTL\<rparr>)
   \<and> daemon_config_ok (demo_daemon_config\<lparr>dc_self_write_ttl := DefaultSelfWriteTTL\<rparr>)"
proof -
  have l: "LoadDaemon (\<lambda>_ _. Some demo_daemon_config) ''c'' = Inr (demo_daemon_config\<lparr>dc_self_write_ttl := DefaultSelfWriteTTL\<rparr>)"
    by code_simp
  show ?thesis using l LoadDaemon_valid [OF l] by blast
qed

lemma LoadServer_valid:
  assumes "LoadServer load p = Inr c"
  shows "trim_space (sc_listen c) \<noteq> [] \<and> sc_tokens c \<noteq> [] \<and> is_abs (sc_mountpoint c) \<and> 0 < sc_request_timeout c"
  using assms
  by (auto simp: LoadServer_def server_Validate_def DefaultRequestTimeout_def go_second_def split: option.splits prod.splits if_splits)

end
