(* ===== verification/Sync_Daemon.thy ===== *)
theory Sync_Daemon
  imports Sync_Write Sync_Scan Config
begin

text \<open>
  The daemon's life, \<open>src/pkg/syncer/daemon.go\<close>: preparation, the reconnect loop, one session, and the five goroutines
  that serve its stream. The goroutines are a step relation over their interleavings: the two queues with their
  capacities, the goroutine that waits to push a message, the cancelled context and the error the group keeps. What the
  libraries decide (dialling, opening the stream, sending, the retry delays, the timer) is an argument.
\<close>

section \<open>Definitions\<close>

datatype run_error =
  ErrNilConfig | RunConfig cfg_error | RunWorkspace ws_error | RunFilter string | RunAudit
| RunDial | RunOpenStream | RunScan scan_error | RunSendTree
| RunStreamSend | RunStreamRecv | RunWatch | RunCanceled | RunExhausted run_error

definition daemonOutgoingBufferSize :: nat where "daemonOutgoingBufferSize = 64"
definition daemonWatchEventBufferSize :: nat where "daemonWatchEventBufferSize = 64"

record run_options =
  ro_config :: "daemon_config option"
  ro_root :: string
  ro_fail_fast :: bool

text \<open>\<open>rd_ready\<close> counts the calls of \<open>OnReady\<close>.\<close>

record runtime_deps =
  rd_filter :: sensitive_filter
  rd_auditor :: bool
  rd_root :: string
  rd_name :: string
  everEstablished :: bool
  rd_ready :: nat

subsection \<open>Preparation\<close>

text \<open>\<open>open_store\<close> says whether \<open>audit.OpenSQL\<close> succeeds. The result carries the validated configuration, which
  \<open>Validate\<close> completes in place.\<close>

definition newAuditor :: "(audit_config \<Rightarrow> bool) \<Rightarrow> audit_config \<Rightarrow> run_error + bool" where
  "newAuditor open_store cfg =
     (if \<not> au_enabled cfg then Inr False
      else if \<not> open_store cfg then Inl RunAudit
      else Inr True)"

definition prepareRun ::
  "glob \<Rightarrow> osfs \<Rightarrow> (audit_config \<Rightarrow> bool) \<Rightarrow> run_options \<Rightarrow> run_error + daemon_config \<times> runtime_deps" where
  "prepareRun g fs open_store opts =
     (case ro_config opts of
        None \<Rightarrow> Inl ErrNilConfig
      | Some cfg0 \<Rightarrow>
          (case daemon_Validate cfg0 of
             (_, Some e) \<Rightarrow> Inl (RunConfig e)
           | (cfg, None) \<Rightarrow>
               (case ValidateWorkspaceRoot fs (ro_root opts) of
                  Inl e \<Rightarrow> Inl (RunWorkspace e)
                | Inr name \<Rightarrow>
                    (case NewSensitiveFilter g (wc_sensitive (dc_workspace cfg)) of
                       Inl raw \<Rightarrow> Inl (RunFilter raw)
                     | Inr f \<Rightarrow>
                         (case newAuditor open_store (dc_audit cfg) of
                            Inl e \<Rightarrow> Inl e
                          | Inr auditor \<Rightarrow>
                              Inr (cfg, \<lparr>rd_filter = f, rd_auditor = auditor, rd_root = ro_root opts, rd_name = name,
                                         everEstablished = False, rd_ready = 0\<rparr>))))))"

subsection \<open>The goroutines of a session\<close>

datatype gor = GSend | GRecv | GWatch | GForward | GHeartbeat

text \<open>A goroutine is in its loop, waits to push a message into the send queue (or a change into the event channel),
  or has returned.\<close>

datatype gpc = GRun | GPush daemon_msg | GEvent file_change | GDone "run_error option"

datatype in_msg = InRequest "file_request option" | InHeartbeat | InOther

record daemon =
  d_host :: hstate
  d_watched :: "string list"
  d_inbox :: "in_msg list"
  d_events :: "file_change list"
  d_queue :: "daemon_msg list"
  d_out :: "daemon_msg list"
  d_ctx :: bool
  d_err :: "run_error option"
  d_pc :: "gor \<Rightarrow> gpc"
  d_got :: "file_request option list"
  d_seen :: "file_change list"

definition set_pc :: "gor \<Rightarrow> gpc \<Rightarrow> daemon \<Rightarrow> daemon" where
  "set_pc l pc s = s\<lparr>d_pc := (d_pc s)(l := pc)\<rparr>"

text \<open>A goroutine returns: the wrapper \<open>start\<close> cancels the session context when there is an error, and the group keeps
  the first error.\<close>

definition returns :: "gor \<Rightarrow> run_error option \<Rightarrow> daemon \<Rightarrow> daemon" where
  "returns l r s =
     (set_pc l (GDone r) s)
       \<lparr>d_ctx := (d_ctx s \<or> r \<noteq> None), d_err := (if d_err s = None then r else d_err s)\<rparr>"

definition watch_options_of :: "daemon_config \<Rightarrow> runtime_deps \<Rightarrow> watch_options" where
  "watch_options_of cfg deps = \<lparr>wo_root = rd_root deps, wo_excludes = wc_exclude (dc_workspace cfg), wo_filter = Some (rd_filter deps)\<rparr>"

definition handle_options_of :: "runtime_deps \<Rightarrow> handle_options" where
  "handle_options_of deps = \<lparr>ho_root = rd_root deps, ho_max_read = 0, ho_filter = Some (rd_filter deps), ho_audit = rd_auditor deps\<rparr>"

text \<open>An event of the watcher: the self-write filter is the one the handlers write to.\<close>

definition watch_step :: "glob \<Rightarrow> int \<Rightarrow> watch_options \<Rightarrow> (string \<Rightarrow> bool) \<Rightarrow> fs_event \<Rightarrow> daemon \<Rightarrow> daemon" where
  "watch_step g now wopts addable ev s =
     (let st = handleWatchEvent g (h_fs (d_host s)) now wopts addable ev
                 \<lparr>w_watched = d_watched s, w_self = h_self (d_host s), w_sent = []\<rparr>;
          s1 = s\<lparr>d_watched := w_watched st, d_host := (d_host s)\<lparr>h_self := w_self st\<rparr>, d_seen := d_seen s @ w_sent st\<rparr>
      in (case w_sent st of [] \<Rightarrow> s1 | c # _ \<Rightarrow> set_pc GWatch (GEvent c) s1))"

inductive dstep :: "glob \<Rightarrow> handle_options \<Rightarrow> watch_options \<Rightarrow> daemon \<Rightarrow> daemon \<Rightarrow> bool" for g hopts wopts where
  cancel: "dstep g hopts wopts s (s\<lparr>d_ctx := True\<rparr>)"
| deliver: "dstep g hopts wopts s (s\<lparr>d_inbox := d_inbox s @ [m]\<rparr>)"
| others: "dstep g hopts wopts s (s\<lparr>d_host := (d_host s)\<lparr>h_fs := fs, h_clock := now\<rparr>\<rparr>)"
| send: "d_pc s GSend = GRun \<Longrightarrow> d_queue s = m # q \<Longrightarrow> dstep g hopts wopts s (s\<lparr>d_queue := q, d_out := d_out s @ [m]\<rparr>)"
| send_fail: "d_pc s GSend = GRun \<Longrightarrow> d_queue s = m # q \<Longrightarrow>
     dstep g hopts wopts s (returns GSend (Some RunStreamSend) (s\<lparr>d_queue := q\<rparr>))"
| recv_fail: "d_pc s GRecv = GRun \<Longrightarrow> e = RunStreamRecv \<or> e = RunCanceled \<Longrightarrow> dstep g hopts wopts s (returns GRecv (Some e) s)"
| recv_request: "d_pc s GRecv = GRun \<Longrightarrow> d_inbox s = InRequest r # ms \<Longrightarrow> Handle g hopts (d_host s) r = (h, resp) \<Longrightarrow>
     dstep g hopts wopts s
       (set_pc GRecv (GPush (MsgResponse (Some resp))) (s\<lparr>d_inbox := ms, d_host := h, d_got := d_got s @ [r]\<rparr>))"
| recv_other: "d_pc s GRecv = GRun \<Longrightarrow> d_inbox s = m # ms \<Longrightarrow> m = InHeartbeat \<or> m = InOther \<Longrightarrow>
     dstep g hopts wopts s (s\<lparr>d_inbox := ms\<rparr>)"
| watch_fail: "d_pc s GWatch = GRun \<Longrightarrow> dstep g hopts wopts s (returns GWatch (Some RunWatch) s)"
| watch_closed: "d_pc s GWatch = GRun \<Longrightarrow> dstep g hopts wopts s (returns GWatch None s)"
| watch: "d_pc s GWatch = GRun \<Longrightarrow> dstep g hopts wopts s (watch_step g now wopts addable ev s)"
| watch_push: "d_pc s GWatch = GEvent c \<Longrightarrow> length (d_events s) < daemonWatchEventBufferSize \<Longrightarrow>
     dstep g hopts wopts s (set_pc GWatch GRun (s\<lparr>d_events := d_events s @ [c]\<rparr>))"
| watch_drop: "d_pc s GWatch = GEvent c \<Longrightarrow> d_ctx s \<Longrightarrow> dstep g hopts wopts s (set_pc GWatch GRun s)"
| forward: "d_pc s GForward = GRun \<Longrightarrow> d_events s = c # cs \<Longrightarrow>
     dstep g hopts wopts s (set_pc GForward (GPush (MsgChange (Some c))) (s\<lparr>d_events := cs\<rparr>))"
| heartbeat: "d_pc s GHeartbeat = GRun \<Longrightarrow> dstep g hopts wopts s (set_pc GHeartbeat (GPush MsgHeartbeat) s)"
| push: "d_pc s l = GPush m \<Longrightarrow> length (d_queue s) < daemonOutgoingBufferSize \<Longrightarrow>
     dstep g hopts wopts s (set_pc l GRun (s\<lparr>d_queue := d_queue s @ [m]\<rparr>))"
| push_done: "d_pc s l = GPush m \<Longrightarrow> d_ctx s \<Longrightarrow> dstep g hopts wopts s (returns l None s)"
| ctx_done: "d_pc s l = GRun \<Longrightarrow> l \<noteq> GRecv \<Longrightarrow> d_ctx s \<Longrightarrow> dstep g hopts wopts s (returns l None s)"

definition daemon_init :: "hstate \<Rightarrow> string list \<Rightarrow> bool \<Rightarrow> daemon" where
  "daemon_init h watched ctx =
     \<lparr>d_host = h, d_watched = watched, d_inbox = [], d_events = [], d_queue = [], d_out = [], d_ctx = ctx, d_err = None,
      d_pc = (\<lambda>_. GRun), d_got = [], d_seen = []\<rparr>"

inductive dreach :: "glob \<Rightarrow> handle_options \<Rightarrow> watch_options \<Rightarrow> daemon \<Rightarrow> bool" for g hopts wopts where
  init: "dreach g hopts wopts (daemon_init h watched ctx)"
| step: "dreach g hopts wopts s \<Longrightarrow> dstep g hopts wopts s s' \<Longrightarrow> dreach g hopts wopts s'"

definition finished :: "daemon \<Rightarrow> bool" where
  "finished s = (\<forall>l. \<exists>r. d_pc s l = GDone r)"

text \<open>The end of \<open>serveStream\<close>, after \<open>group.Wait\<close>. The context it tests is the one that \<open>start\<close> cancels.\<close>

definition serveStream :: "daemon \<Rightarrow> run_error option" where
  "serveStream s = (let err = d_err s in if d_ctx s \<or> err = Some RunCanceled then None else err)"

subsection \<open>One session and the reconnect loop\<close>

text \<open>What a session meets: whether dialling, opening the stream and sending the tree succeed, the disk at the time of
  the scan, and the end state of its goroutines.\<close>

record session_env =
  sv_dial :: bool
  sv_open :: bool
  sv_fs :: osfs
  sv_send :: bool
  sv_end :: daemon

definition markEstablished :: "runtime_deps \<Rightarrow> runtime_deps" where
  "markEstablished deps =
     (if everEstablished deps then deps else deps\<lparr>everEstablished := True, rd_ready := Suc (rd_ready deps)\<rparr>)"

definition scan_options_of :: "daemon_config \<Rightarrow> runtime_deps \<Rightarrow> scan_options" where
  "scan_options_of cfg deps =
     \<lparr>so_root = rd_root deps, so_excludes = wc_exclude (dc_workspace cfg), so_filter = Some (rd_filter deps)\<rparr>"

text \<open>The first message of a session.\<close>

definition initial_tree :: "glob \<Rightarrow> osfs \<Rightarrow> daemon_config \<Rightarrow> runtime_deps \<Rightarrow> scan_error + daemon_msg" where
  "initial_tree g fs cfg deps =
     map_sum id (\<lambda>tree. MsgFileTree (Some \<lparr>ft_files = map Some tree, ft_workspace_name = rd_name deps\<rparr>))
       (Scan g fs (scan_options_of cfg deps))"

definition runSession ::
  "glob \<Rightarrow> daemon_config \<Rightarrow> session_env \<Rightarrow> runtime_deps \<Rightarrow> runtime_deps \<times> bool \<times> run_error option" where
  "runSession g cfg env deps =
     (if \<not> sv_dial env then (deps, False, Some RunDial)
      else if \<not> sv_open env then (deps, False, Some RunOpenStream)
      else
        (case initial_tree g (sv_fs env) cfg deps of
           Inl e \<Rightarrow> (deps, False, Some (RunScan e))
         | Inr _ \<Rightarrow>
             if \<not> sv_send env then (deps, False, Some RunSendTree)
             else (markEstablished deps, True, serveStream (sv_end env))))"

text \<open>The retry policy is a library object: \<open>reset\<close> and \<open>next\<close>, where \<^const>\<open>None\<close> is \<open>backoff.Stop\<close>.\<close>

record 'b backoff =
  bo_reset :: "'b \<Rightarrow> 'b"
  bo_next :: "'b \<Rightarrow> 'b \<times> int option"

definition nextRetryDelay :: "'b backoff \<Rightarrow> 'b \<Rightarrow> bool \<Rightarrow> run_error \<Rightarrow> 'b \<times> (run_error + int)" where
  "nextRetryDelay bo retry established err =
     (let retry = (if established then bo_reset bo retry else retry) in
      case bo_next bo retry of
        (retry, None) \<Rightarrow> (retry, Inl (RunExhausted err))
      | (retry, Some delay) \<Rightarrow> (retry, Inr delay))"

text \<open>\<open>before\<close> and \<open>after\<close> say whether the caller's context was done when it was looked at; \<open>fires\<close> whether the timer
  fired before the context was done.\<close>

record iter_env =
  ie_before :: bool
  ie_session :: session_env
  ie_after :: bool
  ie_fires :: bool

definition runDaemonIteration ::
  "glob \<Rightarrow> daemon_config \<Rightarrow> bool \<Rightarrow> 'b backoff \<Rightarrow> iter_env \<Rightarrow> 'b \<times> runtime_deps \<Rightarrow> ('b \<times> runtime_deps) \<times> bool \<times> run_error option" where
  "runDaemonIteration g cfg failFast bo env st =
     (case st of (retry, deps) \<Rightarrow>
       if ie_before env then ((retry, deps), True, None)
       else
         (case runSession g cfg (ie_session env) deps of
            (deps, established, None) \<Rightarrow> ((retry, deps), True, None)
          | (deps, established, Some err) \<Rightarrow>
              if ie_after env then ((retry, deps), True, None)
              else if failFast \<and> \<not> everEstablished deps then ((retry, deps), True, Some err)
              else
                (case nextRetryDelay bo retry established err of
                   (retry, Inl e) \<Rightarrow> ((retry, deps), True, Some e)
                 | (retry, Inr delay) \<Rightarrow> ((retry, deps), \<not> ie_fires env, None))))"

text \<open>The loop over what its rounds meet; \<open>Inr\<close> is a loop that is still running after them.\<close>

fun runDaemonLoop ::
  "glob \<Rightarrow> daemon_config \<Rightarrow> bool \<Rightarrow> 'b backoff \<Rightarrow> iter_env list \<Rightarrow> 'b \<times> runtime_deps \<Rightarrow> runtime_deps \<times> (run_error option + unit)" where
  "runDaemonLoop g cfg failFast bo [] st = (snd st, Inr ())"
| "runDaemonLoop g cfg failFast bo (env # envs) st =
     (case runDaemonIteration g cfg failFast bo env st of
        (st, True, err) \<Rightarrow> (snd st, Inl err)
      | (st, False, _) \<Rightarrow> runDaemonLoop g cfg failFast bo envs st)"

definition Run ::
  "glob \<Rightarrow> osfs \<Rightarrow> (audit_config \<Rightarrow> bool) \<Rightarrow> 'b backoff \<Rightarrow> 'b \<Rightarrow> iter_env list \<Rightarrow> run_options \<Rightarrow> run_error option + unit" where
  "Run g fs open_store bo retry envs opts =
     (case prepareRun g fs open_store opts of
        Inl e \<Rightarrow> Inl (Some e)
      | Inr (cfg, deps) \<Rightarrow> snd (runDaemonLoop g cfg (ro_fail_fast opts) bo envs (retry, deps)))"


section \<open>Invariants of the goroutines\<close>

text \<open>What each goroutine may wait with.\<close>

fun may_wait :: "gor \<Rightarrow> gpc \<Rightarrow> bool" where
  "may_wait GRecv (GPush (MsgResponse (Some r))) = True"
| "may_wait GForward (GPush (MsgChange (Some c))) = True"
| "may_wait GHeartbeat (GPush MsgHeartbeat) = True"
| "may_wait GWatch (GEvent c) = True"
| "may_wait l (GPush m) = False"
| "may_wait l (GEvent c) = False"
| "may_wait l GRun = True"
| "may_wait l (GDone r) = True"

definition err_cancels :: "daemon \<Rightarrow> bool" where
  "err_cancels s = (d_err s \<noteq> None \<longrightarrow> d_ctx s)"

definition within_capacity :: "daemon \<Rightarrow> bool" where
  "within_capacity s = (length (d_queue s) \<le> daemonOutgoingBufferSize \<and> length (d_events s) \<le> daemonWatchEventBufferSize)"

lemmas daemon_simps = set_pc_def returns_def

lemma watch_step_fields [simp]:
  "d_err (watch_step g now wopts addable ev s) = d_err s" "d_ctx (watch_step g now wopts addable ev s) = d_ctx s"
  "d_queue (watch_step g now wopts addable ev s) = d_queue s" "d_events (watch_step g now wopts addable ev s) = d_events s"
  "d_out (watch_step g now wopts addable ev s) = d_out s" "d_got (watch_step g now wopts addable ev s) = d_got s"
  "l \<noteq> GWatch \<Longrightarrow> d_pc (watch_step g now wopts addable ev s) l = d_pc s l"
  by (simp_all add: watch_step_def Let_def set_pc_def split: list.splits)

text \<open>A watcher event reports at most one change, which the watcher then waits to push.\<close>

lemma watch_step_seen:
  "d_seen (watch_step g now wopts addable ev s) = d_seen s \<and> d_pc (watch_step g now wopts addable ev s) = d_pc s
   \<or> (\<exists>c. d_seen (watch_step g now wopts addable ev s) = d_seen s @ [c]
        \<and> d_pc (watch_step g now wopts addable ev s) = (d_pc s)(GWatch := GEvent c))"
  by (auto simp: watch_step_def handleWatchEvent_def Let_def set_pc_def split: prod.splits option.splits)

lemma dstep_kinds: "dstep g hopts wopts s s' \<Longrightarrow> \<forall>l. may_wait l (d_pc s l) \<Longrightarrow> \<forall>l. may_wait l (d_pc s' l)"
proof (induction rule: dstep.cases)
  case (watch s now addable ev)
  then show ?case using watch_step_seen [of g now wopts addable ev s] by (auto simp: fun_upd_def)
qed (auto simp: daemon_simps)

lemma dstep_err: "dstep g hopts wopts s s' \<Longrightarrow> err_cancels s \<Longrightarrow> err_cancels s'"
  by (induction rule: dstep.cases) (auto simp: err_cancels_def daemon_simps)

lemma dstep_capacity: "dstep g hopts wopts s s' \<Longrightarrow> within_capacity s \<Longrightarrow> within_capacity s'"
  by (induction rule: dstep.cases) (auto simp: within_capacity_def daemon_simps)

subsection \<open>Responses\<close>

fun resp_of :: "daemon_msg \<Rightarrow> string list" where
  "resp_of (MsgResponse (Some r)) = [rp_id r]"
| "resp_of _ = []"

fun chg_of :: "daemon_msg \<Rightarrow> file_change list" where
  "chg_of (MsgChange (Some c)) = [c]"
| "chg_of _ = []"

fun pc_msgs :: "gpc \<Rightarrow> daemon_msg list" where
  "pc_msgs (GPush m) = [m]"
| "pc_msgs (GEvent c) = [MsgChange (Some c)]"
| "pc_msgs _ = []"

abbreviation "resp_ids ms \<equiv> concat (map resp_of ms)"
abbreviation "msg_changes ms \<equiv> concat (map chg_of ms)"

definition req_id :: "file_request option \<Rightarrow> string" where
  "req_id r = (case r of None \<Rightarrow> [] | Some q \<Rightarrow> rq_id q)"

lemma Handle_id: "Handle g opts st r = (h, resp) \<Longrightarrow> rp_id resp = req_id r"
  using readlike_id mutating_id
  by (auto simp: Handle_def req_id_def errResponse_def Let_def split: option.splits prod.splits) (metis snd_conv)

definition answers_flow :: "daemon \<Rightarrow> bool" where
  "answers_flow s = (\<exists>lost late. map req_id (d_got s) = resp_ids (d_out s) @ lost @ resp_ids (d_queue s) @ resp_ids (pc_msgs (d_pc s GRecv)) @ late
     \<and> (d_pc s GSend = GRun \<longrightarrow> lost = []) \<and> (d_pc s GRecv = GRun \<or> (\<exists>m. d_pc s GRecv = GPush m) \<longrightarrow> late = []))"

lemma answers_flowI:
  "map req_id (d_got s) = resp_ids (d_out s) @ lost @ resp_ids (d_queue s) @ resp_ids (pc_msgs (d_pc s GRecv)) @ late \<Longrightarrow>
   (d_pc s GSend = GRun \<Longrightarrow> lost = []) \<Longrightarrow> (d_pc s GRecv = GRun \<or> (\<exists>m. d_pc s GRecv = GPush m) \<Longrightarrow> late = []) \<Longrightarrow> answers_flow s"
  unfolding answers_flow_def by blast

lemma dstep_answers:
  assumes "dstep g hopts wopts s s'" "\<forall>l. may_wait l (d_pc s l)" "answers_flow s"
  shows "answers_flow s'"
proof -
  obtain lost late where f: "map req_id (d_got s) = resp_ids (d_out s) @ lost @ resp_ids (d_queue s) @ resp_ids (pc_msgs (d_pc s GRecv)) @ late"
    "d_pc s GSend = GRun \<Longrightarrow> lost = []" "d_pc s GRecv = GRun \<or> (\<exists>m. d_pc s GRecv = GPush m) \<Longrightarrow> late = []"
    using assms(3) unfolding answers_flow_def by blast
  show ?thesis
    using assms(1)
  proof cases
    case (send m q)
    then show ?thesis using f by (intro answers_flowI [of _ "[]" late]) auto
  next
    case (send_fail m q)
    then show ?thesis using f by (intro answers_flowI [of _ "resp_of m" late]) (auto simp: daemon_simps)
  next
    case (recv_fail e)
    then show ?thesis using f by (intro answers_flowI [of _ lost late]) (auto simp: daemon_simps)
  next
    case (recv_request r ms h resp)
    then show ?thesis using f Handle_id [OF recv_request(4)] by (intro answers_flowI [of _ lost "[]"]) (auto simp: daemon_simps)
  next
    case (push l m)
    then have "may_wait l (GPush m)" using assms(2) by metis
    then show ?thesis using f push by (cases l; cases m) (auto simp: daemon_simps intro!: answers_flowI [of _ lost late] split: option.splits)
  next
    case (push_done l m)
    show ?thesis
    proof (cases "l = GRecv")
      case True
      then show ?thesis using f push_done by (intro answers_flowI [of _ lost "resp_of m"]) (auto simp: daemon_simps)
    next
      case False
      then show ?thesis using f push_done by (intro answers_flowI [of _ lost late]) (auto simp: daemon_simps split: if_splits)
    qed
  next
    case (ctx_done l)
    then show ?thesis using f by (cases l) (auto simp: daemon_simps intro!: answers_flowI [of _ lost late])
  qed (use f in \<open>auto simp: daemon_simps intro!: answers_flowI [of _ lost late]\<close>)
qed


subsection \<open>Changes\<close>

definition changes_flow :: "daemon \<Rightarrow> bool" where
  "changes_flow s = subseq (msg_changes (d_out s) @ msg_changes (d_queue s) @ msg_changes (pc_msgs (d_pc s GForward)) @ d_events s
     @ msg_changes (pc_msgs (d_pc s GWatch))) (d_seen s)"

lemma subseq_drop_middle: "subseq (xs @ ys @ zs) ws \<Longrightarrow> subseq (xs @ zs) ws"
  by (rule subseq_order.trans [rotated]) (auto intro: list_emb_append_mono)

lemma dstep_changes:
  assumes "dstep g hopts wopts s s'" "\<forall>l. may_wait l (d_pc s l)" "changes_flow s"
  shows "changes_flow s'"
  using assms(1)
proof cases
  case (send_fail m q)
  then show ?thesis
    using assms(3) subseq_drop_middle [of "msg_changes (d_out s)" "chg_of m"] by (auto simp: changes_flow_def daemon_simps)
next
  case (watch now addable ev)
  have q: "pc_msgs (d_pc s GWatch) = []" using watch by simp
  show ?thesis
    using watch_step_seen [of g now wopts addable ev s] assms(3) watch(1)
    by (auto simp: changes_flow_def q) (metis append.assoc list_emb_append_mono subseq_order.order_refl)
next
  case (watch_fail)
  then show ?thesis using assms(3) by (simp add: changes_flow_def daemon_simps)
next
  case (watch_drop c)
  then show ?thesis
    using assms(3) subseq_drop_middle [of "msg_changes (d_out s) @ msg_changes (d_queue s) @ msg_changes (pc_msgs (d_pc s GForward)) @ d_events s" "[c]" "[]"]
    by (simp add: changes_flow_def daemon_simps)
next
  case (push l m)
  then have "may_wait l (GPush m)" using assms(2) by metis
  then show ?thesis using assms(3) push by (cases l; cases m) (auto simp: changes_flow_def daemon_simps split: option.splits)
next
  case (push_done l m)
  then have "may_wait l (GPush m)" using assms(2) by metis
  moreover have "changes_flow s'" if "l = GForward"
    using assms(3) push_done that subseq_drop_middle [of "msg_changes (d_out s) @ msg_changes (d_queue s)" "chg_of m" "d_events s @ msg_changes (pc_msgs (d_pc s GWatch))"]
    by (simp add: changes_flow_def daemon_simps)
  moreover have "changes_flow s'" if "l \<noteq> GForward" "l \<noteq> GWatch"
    using assms(3) push_done that by (auto simp: changes_flow_def daemon_simps split: if_splits)
  ultimately show ?thesis by (cases "l = GWatch") auto
next
  case (ctx_done l)
  then show ?thesis using assms(3) by (cases l) (auto simp: changes_flow_def daemon_simps)
qed (use assms(3) in \<open>auto simp: changes_flow_def daemon_simps split: if_splits\<close>)

lemma dreach_inv:
  "dreach g hopts wopts s \<Longrightarrow> (\<forall>l. may_wait l (d_pc s l)) \<and> err_cancels s \<and> within_capacity s \<and> answers_flow s \<and> changes_flow s"
proof (induction rule: dreach.induct)
  case (init h watched ctx)
  have "answers_flow (daemon_init h watched ctx)" by (intro answers_flowI [of _ "[]" "[]"]) (simp_all add: daemon_init_def)
  then show ?case by (simp add: daemon_init_def err_cancels_def within_capacity_def changes_flow_def)
next
  case (step s s')
  note ih = step(3) [THEN conjunct1] step(3) [THEN conjunct2]
  show ?case
    using ih dstep_kinds [OF step(2) ih(1)] dstep_err [OF step(2)] dstep_capacity [OF step(2)] dstep_answers [OF step(2) ih(1)]
      dstep_changes [OF step(2) ih(1)] by blast
qed

text \<open>Before the first session, a failure is final when the caller asked to fail fast and is retried otherwise.\<close>

lemma failure_before_first_session:
  assumes "runSession g cfg (ie_session env) deps = (deps', False, Some e)" "\<not> everEstablished deps" "\<not> ie_before env" "\<not> ie_after env"
  shows "deps' = deps \<and> runDaemonLoop g cfg True bo (env # envs) (retry, deps) = (deps, Inl (Some e))
    \<and> (\<forall>d. snd (bo_next bo retry) = Some d \<and> ie_fires env \<longrightarrow>
         runDaemonLoop g cfg False bo (env # envs) (retry, deps) = runDaemonLoop g cfg False bo envs (fst (bo_next bo retry), deps))"
proof -
  have d: "deps' = deps" using assms(1) by (auto simp: runSession_def split: if_splits sum.splits)
  then show ?thesis
    using assms by (auto simp: runDaemonIteration_def nextRetryDelay_def Let_def split: prod.splits option.splits)
qed

lemma ready_once: "rd_ready deps = (if everEstablished deps then 1 else 0) \<Longrightarrow> runDaemonLoop g cfg ff bo envs (retry, deps) = (deps', r) \<Longrightarrow>
    rd_ready deps' = (if everEstablished deps' then 1 else 0)"
proof (induction envs arbitrary: retry deps)
  case (Cons env envs)
  obtain retry1 deps1 stop e where it: "runDaemonIteration g cfg ff bo env (retry, deps) = ((retry1, deps1), stop, e)"
    by (metis prod.collapse)
  have s: "rd_ready d = (if everEstablished d then 1 else 0)" if "runSession g cfg (ie_session env) deps = (d, est, err)" for d est err
    using that Cons.prems(1) by (auto simp: runSession_def markEstablished_def split: if_splits sum.splits)
  have "rd_ready deps1 = (if everEstablished deps1 then 1 else 0)"
    using it Cons.prems(1) s unfolding runDaemonIteration_def
    by (auto split: if_splits prod.splits option.splits sum.splits)
  then show ?case using Cons.IH [of deps1 retry1] Cons.prems(2) it by (cases stop) auto
qed simp

section \<open>Properties\<close>

text \<open>C25: in every interleaving of the daemon's goroutines with the server, other programs and a cancellation, the
  responses on the stream answer the requests that were read in their order, one each, under their identifiers; the
  changes on the stream are changes the watcher reported, in their order; and the queues keep to their capacities.\<close>

theorem stream_in_order:
  assumes "dreach g hopts wopts s"
  shows "prefix (resp_ids (d_out s)) (map req_id (d_got s)) \<and> subseq (msg_changes (d_out s)) (d_seen s)
    \<and> length (d_queue s) \<le> 64 \<and> length (d_events s) \<le> 64"
proof -
  note inv = dreach_inv [OF assms]
  have "subseq (msg_changes (d_out s)) (d_seen s)"
    using inv unfolding changes_flow_def by (blast dest: list_emb_appendD intro: subseq_order.trans list_emb_append2)
  then show ?thesis
    using inv by (auto simp: answers_flow_def within_capacity_def daemonOutgoingBufferSize_def daemonWatchEventBufferSize_def)
qed


definition demo_deps :: runtime_deps where
  "demo_deps = \<lparr>rd_filter = \<lparr>patterns = defaultSensitivePatterns\<rparr>, rd_auditor = False, rd_root = ''/w'', rd_name = ''w'',
     everEstablished = False, rd_ready = 0\<rparr>"

definition demo_daemon :: daemon where
  "demo_daemon = daemon_init demo_host [''/w''] False"

definition demo_served :: daemon where
  "demo_served = (let s1 = demo_daemon\<lparr>d_inbox := [InRequest (Some \<lparr>rq_id = ''7'', rq_op = Some (OpStat (Some ''a''))\<rparr>)]\<rparr>;
       r = hd (d_inbox s1); q = (case r of InRequest q \<Rightarrow> q | _ \<Rightarrow> None); (h, resp) = Handle star_glob (handle_options_of demo_deps) demo_host q;
       s2 = set_pc GRecv (GPush (MsgResponse (Some resp))) (s1\<lparr>d_inbox := [], d_host := h, d_got := [q]\<rparr>);
       s3 = set_pc GRecv GRun (s2\<lparr>d_queue := [MsgResponse (Some resp)]\<rparr>)
     in s3\<lparr>d_queue := [], d_out := [MsgResponse (Some resp)]\<rparr>)"

lemma demo_served_reach: "dreach star_glob (handle_options_of demo_deps) wopts demo_served"
proof -
  let ?q = "Some \<lparr>rq_id = ''7'', rq_op = Some (OpStat (Some ''a''))\<rparr>" and ?o = "handle_options_of demo_deps"
  obtain h resp where H: "Handle star_glob ?o demo_host ?q = (h, resp)" by fastforce
  let ?s1 = "demo_daemon\<lparr>d_inbox := [InRequest ?q]\<rparr>"
  let ?s2 = "set_pc GRecv (GPush (MsgResponse (Some resp))) (?s1\<lparr>d_inbox := [], d_host := h, d_got := [?q]\<rparr>)"
  let ?s3 = "set_pc GRecv GRun (?s2\<lparr>d_queue := [MsgResponse (Some resp)]\<rparr>)"
  have "dreach star_glob ?o wopts ?s1"
    using dreach.step [OF dreach.init dstep.deliver, of star_glob ?o wopts demo_host "[''/w'']" False "InRequest ?q"]
    by (simp add: demo_daemon_def daemon_init_def)
  then have "dreach star_glob ?o wopts ?s2"
    by (rule dreach.step) (use dstep.recv_request [of ?s1 ?q "[]" star_glob ?o h resp wopts] H in \<open>simp add: demo_daemon_def daemon_init_def\<close>)
  then have "dreach star_glob ?o wopts ?s3"
    by (rule dreach.step) (use dstep.push [of ?s2 GRecv "MsgResponse (Some resp)" star_glob ?o wopts] in
        \<open>simp add: demo_daemon_def daemon_init_def set_pc_def daemonOutgoingBufferSize_def\<close>)
  then have "dreach star_glob ?o wopts (?s3\<lparr>d_queue := [], d_out := [MsgResponse (Some resp)]\<rparr>)"
    by (rule dreach.step) (use dstep.send [of ?s3 "MsgResponse (Some resp)" "[]" star_glob ?o wopts] in
        \<open>simp add: demo_daemon_def daemon_init_def set_pc_def\<close>)
  moreover have "demo_served = ?s3\<lparr>d_queue := [], d_out := [MsgResponse (Some resp)]\<rparr>"
    using H by (simp add: demo_served_def demo_daemon_def daemon_init_def)
  ultimately show ?thesis by simp
qed

theorem stream_in_order_witness:
  "resp_ids (d_out demo_served) = [''7''] \<and> prefix (resp_ids (d_out demo_served)) (map req_id (d_got demo_served))"
proof -
  have "resp_ids (d_out demo_served) = [''7'']" by code_simp
  then show ?thesis using stream_in_order [OF demo_served_reach [of "watch_options_of demo_daemon_config demo_deps"]] by simp
qed

text \<open>C40: once a session has sent its tree, \<open>Run\<close> returns nil when that session ends, whatever ended it: a broken
  stream too. The loop never serves a second session; all it retries are sessions that never got that far. Every error
  of a goroutine cancels the context that \<open>serveStream\<close> tests afterwards, so it always returns nil.\<close>

theorem no_second_session:
  assumes "dreach g hopts wopts (sv_end (ie_session env))" "runSession g cfg (ie_session env) deps = (deps', True, err)"
    and "\<not> ie_before env"
  shows "err = None \<and> runDaemonLoop g cfg failFast bo (env # envs) (retry, deps) = (deps', Inl None)"
proof -
  have "serveStream (sv_end (ie_session env)) = None"
    using dreach_inv [OF assms(1)] by (auto simp: serveStream_def err_cancels_def Let_def)
  then have e: "err = None" using assms(2) by (auto simp: runSession_def split: if_splits sum.splits)
  then show ?thesis using assms(2,3) by (simp add: runDaemonIteration_def)
qed

text \<open>The end of a session whose stream broke.\<close>

definition demo_broken :: daemon where
  "demo_broken = (let fail = returns GRecv (Some RunStreamRecv) demo_daemon
     in foldl (\<lambda>s l. returns l None s) fail [GSend, GWatch, GForward, GHeartbeat])"

lemma demo_broken_reach: "dreach g hopts wopts demo_broken"
proof -
  have s: "dreach g hopts wopts s \<Longrightarrow> d_pc s l = GRun \<Longrightarrow> l \<noteq> GRecv \<Longrightarrow> d_ctx s \<Longrightarrow> dreach g hopts wopts (returns l None s)" for s l
    by (rule dreach.step [OF _ dstep.ctx_done])
  have "dreach g hopts wopts (returns GRecv (Some RunStreamRecv) demo_daemon)"
    unfolding demo_daemon_def by (rule dreach.step [OF dreach.init dstep.recv_fail]) (simp_all add: daemon_init_def)
  then show ?thesis unfolding demo_broken_def Let_def foldl.simps
    by (intro s) (simp_all add: daemon_simps demo_daemon_def daemon_init_def)
qed

definition demo_iter :: iter_env where
  "demo_iter = \<lparr>ie_before = False,
     ie_session = \<lparr>sv_dial = True, sv_open = True, sv_fs = demo_disk, sv_send = True, sv_end = demo_broken\<rparr>,
     ie_after = False, ie_fires = True\<rparr>"

definition demo_backoff :: "nat backoff" where
  "demo_backoff = \<lparr>bo_reset = (\<lambda>_. 0), bo_next = (\<lambda>n. (Suc n, Some 1000000000))\<rparr>"

theorem no_second_session_witness:
  "d_err demo_broken = Some RunStreamRecv \<and> finished demo_broken
   \<and> runDaemonLoop star_glob demo_daemon_config False demo_backoff [demo_iter, demo_iter] (0, demo_deps)
       = (markEstablished demo_deps, Inl None)"
proof -
  have r: "snd (runSession star_glob demo_daemon_config (ie_session demo_iter) demo_deps) = (True, None)"
    and d: "fst (runSession star_glob demo_daemon_config (ie_session demo_iter) demo_deps) = markEstablished demo_deps"
    by code_simp+
  then have rs: "runSession star_glob demo_daemon_config (ie_session demo_iter) demo_deps = (markEstablished demo_deps, True, None)"
    by (metis prod.collapse)
  have b: "\<not> ie_before demo_iter" by (simp add: demo_iter_def)
  have e: "dreach star_glob hopts wopts (sv_end (ie_session demo_iter))" for hopts wopts
    using demo_broken_reach by (simp add: demo_iter_def)
  have f: "finished demo_broken"
    unfolding finished_def demo_broken_def by (intro allI, case_tac l) (simp_all add: daemon_simps Let_def)
  have x: "d_err demo_broken = Some RunStreamRecv" by (simp add: demo_broken_def daemon_simps demo_daemon_def daemon_init_def Let_def)
  show ?thesis using no_second_session [OF e rs b, of False demo_backoff "[demo_iter]" 0] f x by simp
qed

end
