(* ===== verification/Remote_Files.thy ===== *)
theory Remote_Files
  imports Fuse Sync_Daemon
begin

text \<open>
  The two halves put together: a file operation on the mounted workspace (\<open>Fuse\<close>, \<open>View\<close>) becomes a request of the
  session, is queued, sent, answered by the daemon's handler (\<open>Sync_Handle\<close>) on the daemon's disk (\<open>Osfs\<close>), and the
  response goes back through the table of pending requests. The exchange runs every step of \<open>Request\<close> of
  \<open>src/pkg/session/session.go\<close>, of the two loops of the session and of \<open>handleRequest\<close> of \<open>src/pkg/syncer/daemon.go\<close>
  in the order they take when nothing else is in flight; the other interleavings are the subject of \<open>Session_Conc\<close> and
  \<open>Sync_Daemon\<close>. The theorems follow the bytes from a write on the mount to the daemon's disk and back.
\<close>

section \<open>Definitions\<close>

text \<open>The daemon's receive loop on what it was sent: the messages it answers with.\<close>

fun answer :: "glob \<Rightarrow> handle_options \<Rightarrow> server_msg list \<Rightarrow> hstate \<Rightarrow> hstate \<times> daemon_msg list" where
  "answer g opts [] h = (h, [])"
| "answer g opts (SrvHeartbeat # ms) h = answer g opts ms h"
| "answer g opts (SrvRequest r # ms) h =
     (let (h1, resp) = Handle g opts h (Some r); (h2, out) = answer g opts ms h1 in (h2, MsgResponse (Some resp) # out))"

text \<open>One request from its start to the deferred \<open>dropPending\<close>; \<^const>\<open>None\<close> is a request that blocks, or a panic.\<close>

definition exchange ::
  "int \<Rightarrow> glob \<Rightarrow> handle_options \<Rightarrow> file_request \<Rightarrow> session \<Rightarrow> hstate \<Rightarrow> (session \<times> hstate \<times> (sess_error + file_response)) option" where
  "exchange clock g opts rq s h =
     (if IsOfflineReadonly clock None s then Some (s, h, Inl ErrSessionOffline)
      else
        (case prepareRequest (Some rq) s of
           (s1, Inl e) \<Rightarrow> Some (s1, h, Inl e)
         | (s1, Inr r) \<Rightarrow>
             (case registerPending (rq_id r) s1 of
                (s2, Inl e) \<Rightarrow> Some (s2, h, Inl e)
              | (s2, Inr ch) \<Rightarrow>
                  Option.bind (enqueueRequest SelComm False r s2) (\<lambda>(s3, _).
                    (let (s4, sent, _) = runSendLoop [SendOk] s3; (h', msgs) = answer g opts sent h in
                     Option.bind (runRecvLoop clock (map (\<lambda>m. RecvMsg (Some m)) msgs) s4) (\<lambda>(s5, _).
                       Option.bind (awaitResponse SelComm False ch s5) (\<lambda>(s6, res).
                         map_option (\<lambda>s7. (s7, h', res)) (dropPending (rq_id r) s6))))))))"

text \<open>The server's state together with the daemon it is connected to.\<close>

record joint = world +
  w_host :: hstate

text \<open>What the file view's request leads to; a request that blocks ends with its deadline.\<close>

definition daemon_env :: "int \<Rightarrow> glob \<Rightarrow> handle_options \<Rightarrow> joint \<Rightarrow> nat \<Rightarrow> file_request \<Rightarrow> joint \<times> (req_err + file_response option)" where
  "daemon_env clock g opts w p rq =
     (case exchange clock g opts rq (session_at w p) (w_host w) of
        None \<Rightarrow> (w, Inl ReqDeadline)
      | Some (s, h, r) \<Rightarrow> ((upd_session p s w)\<lparr>w_host := h\<rparr>, map_sum ReqSess Some r))"

section \<open>The exchange\<close>

text \<open>A connected session with nothing in flight.\<close>

definition idle :: "session \<Rightarrow> bool" where
  "idle s \<longleftrightarrow> \<not> closed s \<and> sendCh s = [] \<and> pending s = [] \<and> offlineUntil s = None"

text \<open>The two states show the same files and the same cache.\<close>

definition same_data :: "session \<Rightarrow> session \<Rightarrow> bool" where
  "same_data s' s \<longleftrightarrow> tree s' = tree s \<and> scache s' = scache s"

lemma exchange_idle:
  assumes "idle s" and "rq_id rq = []"
  shows "\<exists>s' r. exchange clock g opts rq s h = Some (s', fst (Handle g opts h (Some r)), Inr (snd (Handle g opts h (Some r)))) \<and>
    rq_op r = rq_op rq \<and> idle s' \<and> same_data s' s"
proof -
  let ?rid = "userID s @ ''-'' @ decimal (unat (reqSeq s + 1))"
  let ?r = "\<lparr>rq_id = ?rid, rq_op = rq_op rq\<rparr>"
  let ?resp = "snd (Handle g opts h (Some ?r))"
  have id: "rp_id ?resp = ?rid" using Handle_id [of g opts h "Some ?r"] by (cases "Handle g opts h (Some ?r)") (simp add: req_id_def)
  have "\<exists>s'. exchange clock g opts rq s h = Some (s', fst (Handle g opts h (Some ?r)), Inr ?resp) \<and> idle s' \<and> same_data s' s"
    using assms id
    by (simp add: exchange_def idle_def same_data_def IsOfflineReadonly_def prepareRequest_def nextRequestID_def
        registerPending_def registerLocked_def chan_make_def enqueueRequest_def sessionSendBufferSize_def handleDaemonMessage_def
        resolvePending_def takePending_def chan_send_def chan_close_def awaitResponse_def dropPending_def touchHeartbeat_def Let_def
        case_prod_unfold)
  then obtain s' where "exchange clock g opts rq s h = Some (s', fst (Handle g opts h (Some ?r)), Inr ?resp)" "idle s'" "same_data s' s"
    by blast
  then show ?thesis by (intro exI [of _ s'] exI [of _ ?r]) simp
qed

lemma daemon_env_idle:
  assumes "idle (session_at w p)"
  shows "\<exists>s' r. daemon_env clock g opts w p \<lparr>rq_id = [], rq_op = op\<rparr> =
      ((upd_session p s' w)\<lparr>w_host := fst (Handle g opts (w_host w) (Some r))\<rparr>, Inr (Some (snd (Handle g opts (w_host w) (Some r))))) \<and>
    rq_op r = op \<and> idle s' \<and> same_data s' (session_at w p)"
proof -
  obtain s' r where "exchange clock g opts \<lparr>rq_id = [], rq_op = op\<rparr> (session_at w p) (w_host w) =
      Some (s', fst (Handle g opts (w_host w) (Some r)), Inr (snd (Handle g opts (w_host w) (Some r))))"
    "rq_op r = op" "idle s'" "same_data s' (session_at w p)"
    using exchange_idle [OF assms, of "\<lparr>rq_id = [], rq_op = op\<rparr>" clock g opts "w_host w"] by auto
  then show ?thesis by (intro exI [of _ s'] exI [of _ r]) (simp add: daemon_env_def)
qed

lemma joint_fields [simp]:
  "w_mgr (w\<lparr>w_host := h\<rparr>) = w_mgr w" "w_heap (w\<lparr>w_host := h\<rparr>) = w_heap w"
  "session_at (w\<lparr>w_host := h\<rparr>) p = session_at w p" "w_host (upd_session p s w) = w_host w"
  by (simp_all add: session_at_def upd_session_def)

lemma requireSession_keeps:
  assumes "requireSession clock uid w = (w, Inr p)" "w_mgr w' = w_mgr w" "\<exists>s. w_heap w' p = Some s \<and> offlineUntil s = None"
  shows "requireSession clock' uid w' = (w', Inr p)"
  using assms by (auto simp: requireSession_def manager_Get_def expired_at_def IsExpired_def split: option.splits if_splits prod.splits)

lemma idle_online [simp]: "idle s \<Longrightarrow> \<not> IsOfflineReadonly clock n s"
  by (simp add: idle_def IsOfflineReadonly_def)

section \<open>Reading\<close>

lemma auditRequest_host [simp]: "h_fs (auditRequest b rq resp st) = h_fs st"
  by (simp add: auditRequest_def Let_def)

lemma Handle_read:
  "rq_op r = Some (OpRead (Some rr)) \<Longrightarrow>
   h_fs (fst (Handle g opts h (Some r))) = h_fs h \<and> snd (Handle g opts h (Some r)) = handleRead g opts (h_fs h) (rq_id r) (Some rr)"
  by (simp add: Handle_def handleReadLike_def)

lemma sliceContent_eq:
  assumes "int (length data) < 2 ^ 63" "is_int64 len"
  shows "sliceContent data off len = read_slice data off len"
proof -
  have "sliceReadContent data off len = Some (sliceContent data off len) \<or> sliceReadContent data off len = None"
    by (auto simp: sliceReadContent_def sliceContent_def go_slice_def Let_def nat_diff_distrib')
  then show ?thesis using sliceReadContent_eq [OF assms, of off] by auto
qed

text \<open>The path check of the handler on the disk as it is.\<close>

abbreviation read_allowed :: "glob \<Rightarrow> handle_options \<Rightarrow> osfs \<Rightarrow> string \<Rightarrow> bool" where
  "read_allowed g opts fs rel \<equiv>
     tolerate_missing (blocksSensitivePath g fs \<lparr>allowMissingLeaf = False, followFinalSymlink = True\<rparr> (ho_root opts) rel (ho_filter opts))
       = Inr False"

lemma handleRead_content:
  assumes "resolveWorkspacePath (ho_root opts) rel = Inr absp" "os_ReadFile fs absp = Inr data" "ho_max_read opts \<le> 0"
    and "int (length data) < 2 ^ 63" "is_int64 len" "resp = handleRead g opts fs rid (Some \<lparr>rd_path = rel, rd_offset = off, rd_length = len\<rparr>)"
  shows "if read_allowed g opts fs rel then rp_success resp \<and> resp_content resp = read_slice data off len
    else \<not> rp_success resp \<and> rp_error resp \<noteq> []"
  using assms(1-3) sliceContent_eq [OF assms(4,5), of off]
  by (auto simp: assms(6) handleRead_def success_with_def resp_content_def errResponse_def formatErr_def formatErrText_def Let_def
      split: sum.split bool.split)

text \<open>A read request of the view reaches the daemon's file.\<close>

lemma requestRead_daemon:
  assumes "idle (session_at w p)" "resolveWorkspacePath (ho_root opts) rel = Inr absp" "os_ReadFile (h_fs (w_host w)) absp = Inr data"
    and "ho_max_read opts \<le> 0" "int (length data) < 2 ^ 63" "is_int64 len"
  shows "\<exists>w1 e. requestRead clock (daemon_env clock' g opts) p rel off len w =
      (w1, if read_allowed g opts (h_fs (w_host w)) rel then Inr (read_slice data off len) else Inl e)"
proof -
  let ?rr = "\<lparr>rd_path = rel, rd_offset = off, rd_length = len\<rparr>"
  obtain s' r where env: "daemon_env clock' g opts w p (read_request rel off len) =
      ((upd_session p s' w)\<lparr>w_host := fst (Handle g opts (w_host w) (Some r))\<rparr>, Inr (Some (snd (Handle g opts (w_host w) (Some r)))))"
    and r: "rq_op r = Some (OpRead (Some ?rr))"
    using daemon_env_idle [OF assms(1), of clock' g opts "Some (OpRead (Some ?rr))"] by (auto simp: read_request_def)
  note h = handleRead_content [OF assms(2-6) refl, of g "rq_id r" off]
  show ?thesis
    using h assms(1) by (auto simp: requestRead_def env Handle_read [OF r] classifyRequestErr_def split: if_splits)
qed

text \<open>A read of the view, when nothing is cached for the path.\<close>

lemma readChunk_daemon:
  assumes "requireSession clock uid w = (w, Inr p)" "\<not> is_root_path rel"
    and "session_Lookup (session_at w p) rel = Some i" "\<not> fi_is_dir i"
    and "snd (GetCachedContent rel (Some i) (session_at w p)) = None" "idle (session_at w p)"
    and "resolveWorkspacePath (ho_root opts) rel = Inr absp" "os_ReadFile (h_fs (w_host w)) absp = Inr data"
    and "ho_max_read opts \<le> 0" "int (length data) < 2 ^ 63" "is_int64 len"
  shows "\<exists>w1 e. readChunk clock (daemon_env clock' g opts) uid rel off len w =
      Some (w1, if read_allowed g opts (h_fs (w_host w)) rel then Inr (read_slice data off (max 0 len)) else Inl e)"
proof -
  let ?w3 = "upd_session p (fst (GetCachedContent rel (Some i) (session_at w p))) w"
  have q: "idle (session_at ?w3 p)" using assms(6) by (simp add: idle_def GetCachedContent_def case_prod_unfold Let_def)
  have i64: "is_int64 (max 0 len)" "is_int64 0" using assms(11) by (auto simp: is_int64_def max_def)
  note rd = requestRead_daemon [where clock = clock, OF q assms(7) _ assms(9,10)]
  have whole: "read_slice data 0 0 = data" by (simp add: read_slice_def)
  obtain w4 e4 where w4: "requestRead clock (daemon_env clock' g opts) p rel 0 0 ?w3 =
      (w4, if read_allowed g opts (h_fs (w_host w)) rel then Inr data else Inl e4)"
    using rd [OF _ i64(2), where clock' = clock' and g = g and off = 0] assms(8) unfolding whole by auto
  obtain w5 e5 where w5: "requestRead clock (daemon_env clock' g opts) p rel off (max 0 len) ?w3 =
      (w5, if read_allowed g opts (h_fs (w_host w)) rel then Inr (read_slice data off (max 0 len)) else Inl e5)"
    using rd [OF _ i64(1), where clock' = clock' and g = g and off = off] assms(8) by auto
  show ?thesis
    using assms(5,6) sliceReadContent_eq [OF assms(10) i64(1), of off]
    by (auto simp: readChunk_file [OF assms(1-4)] Let_def w4 w5 split: if_splits)
qed

section \<open>Writing\<close>

lemma Handle_write:
  "rq_op r = Some (OpWrite (Some wr)) \<Longrightarrow>
   h_fs (fst (Handle g opts h (Some r))) = h_fs (fst (handleWrite g opts h (rq_id r) (Some wr))) \<and>
   snd (Handle g opts h (Some r)) = snd (handleWrite g opts h (rq_id r) (Some wr))"
  by (simp add: Handle_def handleReadLike_def handleMutating_def case_prod_unfold Let_def)

text \<open>A directory found without following a final link is what following it finds, too.\<close>

lemma resolves_dir:
  "resolves root False links cur cs q' \<Longrightarrow> kind_at root q' = Some KDir \<Longrightarrow> resolve links root cur cs True = Inr q'"
proof (induction rule: resolves.induct)
  case (link cur c target cs l q)
  then show ?case by (simp add: resolve_Cons)
next
  case (down cur c k links cs q)
  then show ?case by (auto simp: resolve_Cons)
qed (auto simp: resolve_Cons)

lemma lstat_of_file:
  assumes "os_ReadFile fs p = Inr b" "os_Lstat fs p = Inr info" shows "\<not> oi_isdir info"
proof
  assume d: "oi_isdir info"
  obtain q m t where q: "os_resolve fs p True = Inr q" "fget (fs_root fs) q = Some (FFile b m t)"
    using assms(1) by (auto simp: os_ReadFile_iff)
  obtain q' n where q': "os_resolve fs p False = Inr q'" "fget (fs_root fs) q' = Some n" "info = node_info fs n"
    using assms(2) by (auto simp: os_Lstat_def os_stat_node_def os_lookup_def split: option.splits sum.splits)
  have "kind_at (fs_root fs) q' = Some KDir" using d q' by (cases n) (auto simp: kind_at_def)
  then have "q' = q"
    using q(1) q'(1) resolves_dir [of "fs_root fs" kernel_links "[]" "split_on slash p" q'] resolve_resolves
    by (auto simp: os_resolve_def split: if_splits)
  then show False using q(2) q'(2,3) d by auto
qed

lemma idle_ApplyWriteResult [simp]: "idle (ApplyWriteResult (Some i) s) = idle s"
  by (simp add: idle_def ApplyWriteResult_Some invalidateForInfo_def invalidatePath_def InvalidateContent_def InvalidateContentPrefix_def)

lemma same_data_ok: "same_data s' s \<Longrightarrow> session_ok s' = session_ok s"
  by (simp add: same_data_def session_ok_def)

text \<open>A successful write of the view: the daemon's handler has succeeded, and the view has taken over what it reported.\<close>

lemma writeChunk_daemon:
  assumes "requireSession clock uid w = (w, Inr p)" "idle (session_at w p)"
    and "writeChunk clock (daemon_env clock' g opts) uid rel off data w = (w', None)"
  defines "wr \<equiv> \<lparr>wr_path = rel, wr_content = data, wr_append = False, wr_mode = 0, wr_offset = off\<rparr>"
  obtains rid h resp i s where "handleWrite g opts (w_host w) rid (Some wr) = (h, resp)" "rp_success resp" "resp_info resp = Some i"
    "idle s" "same_data s (session_at w p)" "h_fs (w_host w') = h_fs h" "w_mgr w' = w_mgr w"
    "w_heap w' p = Some (ApplyWriteResult (Some i) s)"
proof -
  obtain resp q i w1 where r: "requestFileOp clock (daemon_env clock' g opts) uid (OpWrite (Some wr)) w = (w1, Inr (Some (resp, q)))"
    and i: "resp_info resp = Some i" and w': "w' = upd_session q (ApplyWriteResult (Some i) (session_at w1 q)) w1"
    using assms(3) unfolding writeChunk_def wr_def by (rule apply_info_op_cases)
  have q: "q = p" and e: "daemon_env clock' g opts w p \<lparr>rq_id = [], rq_op = Some (OpWrite (Some wr))\<rparr> = (w1, Inr (Some resp))"
    and ok: "rp_success resp"
    using requestFileOp_session [OF r] assms(1) by auto
  obtain s rr where s: "daemon_env clock' g opts w p \<lparr>rq_id = [], rq_op = Some (OpWrite (Some wr))\<rparr> =
      ((upd_session p s w)\<lparr>w_host := fst (Handle g opts (w_host w) (Some rr))\<rparr>, Inr (Some (snd (Handle g opts (w_host w) (Some rr)))))"
    "rq_op rr = Some (OpWrite (Some wr))" "idle s" "same_data s (session_at w p)"
    using daemon_env_idle [OF assms(2)] by blast
  have w1: "w1 = (upd_session p s w)\<lparr>w_host := fst (Handle g opts (w_host w) (Some rr))\<rparr>"
    and resp: "resp = snd (Handle g opts (w_host w) (Some rr))" using e s(1) by auto
  show ?thesis
    by (rule that [of "rq_id rr" "fst (handleWrite g opts (w_host w) (rq_id rr) (Some wr))" resp i s])
      (use ok i w' w1 resp q Handle_write [OF s(2), of g opts "w_host w"] s(3,4) in \<open>simp_all add: upd_session_def session_at_def\<close>)
qed

section \<open>Deleting\<close>

lemma Handle_delete:
  "rq_op r = Some (OpDelete (Some p)) \<Longrightarrow>
   h_fs (fst (Handle g opts h (Some r))) = h_fs (fst (handleDelete g opts h (rq_id r) (Some p))) \<and>
   snd (Handle g opts h (Some r)) = snd (handleDelete g opts h (rq_id r) (Some p))"
  by (simp add: Handle_def handleReadLike_def handleMutating_def case_prod_unfold Let_def)

lemma error_texts: "unsafe_path e \<noteq> []" "formatErr op p ge \<noteq> []" "formatErrText op p msg \<noteq> []"
  by (simp_all add: unsafe_path_def formatErr_def formatErrText_def)

lemma os_Remove_effect:
  assumes "os_Remove fs absp = (fs', None)" "disk_ok fs"
  obtains q x where "os_lookup fs absp False = Inr (q, x)" "fget (fs_root fs') q = None"
    "\<And>p' y. fget (fs_root fs) p' = Some y \<Longrightarrow> \<not> is_fdir y \<Longrightarrow> \<not> prefix q p' \<Longrightarrow> fget (fs_root fs') p' = Some y"
proof -
  obtain q x where q: "os_lookup fs absp False = Inr (q, x)" "q \<noteq> []" "fs' = fs\<lparr>fs_root := fput q None (Some (fs_now fs)) (fs_root fs)\<rparr>"
    using assms(1) by (auto simp: os_Remove_def split: option.splits sum.splits prod.splits if_splits)
  have r: "os_resolve fs absp False = Inr q" using q(1) by (auto simp: os_lookup_def split: sum.splits option.splits)
  note d = os_resolve_parent [OF r assms(2)]
  show ?thesis
    by (rule that [OF q(1)]) (use q(2,3) d fget_fput_same [OF q(2) d] fget_fput_file [OF _ _ _ q(2) d] in auto)
qed

text \<open>A deletion that succeeded removed the entry; one that failed says why.\<close>

lemma handleDelete_result:
  assumes "handleDelete g opts st rid (Some p) = (st', resp)"
  shows "rp_success resp \<and> (\<exists>absp. resolveWorkspacePath (ho_root opts) p = Inr absp \<and> os_Remove (h_fs st) absp = (h_fs st', None)) \<or>
    \<not> rp_success resp \<and> rp_error resp \<noteq> []"
  using assms
  by (auto simp: handleDelete_def resolveMutatingPath_def errResponse_def successNoResult_def success_with_def error_texts Let_def
      split: sum.splits bool.splits prod.splits option.splits)

lemma idle_ApplyDelete [simp]: "idle (ApplyDelete p s) = idle s"
  by (simp add: idle_def ApplyDelete_def invalidatePath_def InvalidateContent_def InvalidateContentPrefix_def Let_def)

text \<open>A deletion through the view that reports no error: the daemon has removed the entry, and the view has forgotten it.\<close>

lemma removePath_daemon:
  assumes "requireSession clock uid w = (w, Inr p)" "idle (session_at w p)"
    and "removePath clock (daemon_env clock' g opts) uid rel w = (w', None)"
  obtains absp s where "resolveWorkspacePath (ho_root opts) rel = Inr absp" "os_Remove (h_fs (w_host w)) absp = (h_fs (w_host w'), None)"
    "idle s" "same_data s (session_at w p)" "w_mgr w' = w_mgr w" "w_heap w' p = Some (ApplyDelete rel s)"
proof -
  obtain s rr where s: "daemon_env clock' g opts w p \<lparr>rq_id = [], rq_op = Some (OpDelete (Some rel))\<rparr> =
      ((upd_session p s w)\<lparr>w_host := fst (Handle g opts (w_host w) (Some rr))\<rparr>, Inr (Some (snd (Handle g opts (w_host w) (Some rr)))))"
    "rq_op rr = Some (OpDelete (Some rel))" "idle s" "same_data s (session_at w p)"
    using daemon_env_idle [OF assms(2)] by blast
  let ?res = "handleDelete g opts (w_host w) (rq_id rr) (Some rel)"
  note h = Handle_delete [OF s(2), of g opts "w_host w"] and res = handleDelete_result [of g opts "w_host w" "rq_id rr" rel, OF prod.collapse [symmetric]]
  have ok: "rp_success (snd ?res)"
    using assms res by (auto simp: removePath_def requestFileOp_def s(1) h classifyRequestErr_def split: if_splits)
  have w': "w' = upd_session p (ApplyDelete rel s) ((upd_session p s w)\<lparr>w_host := fst (Handle g opts (w_host w) (Some rr))\<rparr>)"
    using assms ok by (simp add: removePath_def requestFileOp_def s(1) h)
  obtain absp where "resolveWorkspacePath (ho_root opts) rel = Inr absp" "os_Remove (h_fs (w_host w)) absp = (h_fs (fst ?res), None)"
    using res ok by blast
  then show ?thesis using that [of absp s] s(3,4) h by (simp add: w' upd_session_def)
qed

text \<open>What a successful write of the view leaves behind, on the daemon's disk and in the session.\<close>

lemma writeChunk_effect:
  assumes "requireSession clock uid w = (w, Inr p)" "idle (session_at w p)" "session_ok (session_at w p)" "disk_ok (h_fs (w_host w))"
    and "ToSlash rel = rel" "fstree_normalize rel \<noteq> []"
    and "writeChunk clock (daemon_env clock g opts) uid rel off data w = (w', None)"
  obtains absp old info where "resolveWorkspacePath (ho_root opts) rel = Inr absp"
    "os_ReadFile (h_fs (w_host w)) absp = Inr old \<or> os_ReadFile (h_fs (w_host w)) absp = Inl (PathError ''open'' absp OS_ENOENT) \<and> old = []"
    "os_ReadFile (h_fs (w_host w')) absp = Inr (overlay old (nat off) data)" "os_Lstat (h_fs (w_host w')) absp = Inr info"
    "\<forall>c. requireSession c uid w' = (w', Inr p)" "idle (session_at w' p)"
    "session_Lookup (session_at w' p) rel = Some ((fileInfoFromFS rel info)\<lparr>fi_path := fstree_normalize rel\<rparr>)"
    "\<not> fi_is_dir (fileInfoFromFS rel info)" "\<forall>j. snd (GetCachedContent rel j (session_at w' p)) = None"
proof -
  obtain rid h resp i s where h: "handleWrite g opts (w_host w) rid
        (Some \<lparr>wr_path = rel, wr_content = data, wr_append = False, wr_mode = 0, wr_offset = off\<rparr>) = (h, resp)"
      "rp_success resp" "resp_info resp = Some i"
    and s: "idle s" "same_data s (session_at w p)" and w'h: "h_fs (w_host w') = h_fs h" and w'm: "w_mgr w' = w_mgr w"
    and w'p: "w_heap w' p = Some (ApplyWriteResult (Some i) s)"
    using writeChunk_daemon [OF assms(1,2,7)] by blast
  obtain absp old info where a: "resolveWorkspacePath (ho_root opts) rel = Inr absp"
    and old: "os_ReadFile (h_fs (w_host w)) absp = Inr old
       \<or> os_ReadFile (h_fs (w_host w)) absp = Inl (PathError ''open'' absp OS_ENOENT) \<and> old = []"
    and new: "os_ReadFile (h_fs h) absp = Inr (overlay old (nat off) data)"
    and info: "os_Lstat (h_fs h) absp = Inr info" "resp_info resp = Some (fileInfoFromFS rel info)"
    using handleWrite_effect [OF assms(4) h(1,2)] by (elim exE conjE) (simp add: new_content_def)
  have i: "i = fileInfoFromFS rel info" "fi_path i = rel" using h(3) info(2) assms(5) by (auto simp: fileInfoFromFS_def)
  have sok: "session_ok s" using same_data_ok [OF s(2)] assms(3) by simp
  have at: "session_at w' p = ApplyWriteResult (Some i) s" using w'p by (simp add: session_at_def)
  have idle: "idle (session_at w' p)" using s(1) by (simp add: at)
  show ?thesis
  proof (rule that [OF a old])
    show "\<forall>c. requireSession c uid w' = (w', Inr p)"
      using requireSession_keeps [OF assms(1) w'm] w'p idle by (simp add: at idle_def)
    show "session_Lookup (session_at w' p) rel = Some ((fileInfoFromFS rel info)\<lparr>fi_path := fstree_normalize rel\<rparr>)"
      using write_fresh(1) [OF sok, of i] assms(6) by (simp add: at i(2) flip: i(1))
    show "\<forall>j. snd (GetCachedContent rel j (session_at w' p)) = None" using write_fresh(2) [OF sok, of i] by (simp add: at i(2))
    show "\<not> fi_is_dir (fileInfoFromFS rel info)" using lstat_of_file [OF new info(1)] by (simp add: fileInfoFromFS_def)
  qed (use new info(1) idle w'h in simp_all)
qed

section \<open>Properties\<close>

text \<open>C6: What is written to the mounted workspace is what the daemon's disk holds and what is read back. When a write on a file
  of the mount reports success on a connected, idle session, the file behind the path on the daemon's disk holds the old content
  (empty for a new file) with the bytes at their offset; the attributes the mount shows are those of that file; and the next read
  of any part of the file through the mount returns exactly that part of the new content, or an error if the daemon's check of
  the sensitive paths refuses the path, but never other bytes.
\<close>

theorem mounted_write_round_trip:
  fixes st :: "unit joint_ext fstate"
  assumes "requireSession clock (wn_user n) (f_world st) = (f_world st, Inr p)"
    and "idle (session_at (f_world st) p)" "session_ok (session_at (f_world st) p)" "disk_ok (h_fs (w_host (f_world st)))"
    and "ho_max_read opts \<le> 0" "ToSlash (wn_rel n) = wn_rel n" "\<not> is_root_path (wn_rel n)" "fstree_normalize (wn_rel n) \<noteq> []"
    and "ws_Write clock (daemon_env clock g opts) n data off st = (st', Inr k)"
  shows "\<exists>absp old new info. resolveWorkspacePath (ho_root opts) (wn_rel n) = Inr absp
    \<and> (os_ReadFile (h_fs (w_host (f_world st))) absp = Inr old
       \<or> os_ReadFile (h_fs (w_host (f_world st))) absp = Inl (PathError ''open'' absp OS_ENOENT) \<and> old = [])
    \<and> new = overlay old (nat off) data \<and> os_ReadFile (h_fs (w_host (f_world st'))) absp = Inr new
    \<and> os_Lstat (h_fs (w_host (f_world st'))) absp = Inr info
    \<and> ws_Getattr clock' n st' = (st', Inr (fillAttr clock' (fileInfoFromFS (wn_rel n) info)))
    \<and> (int (length new) < 2 ^ 63 \<and> is_int64 len \<longrightarrow>
        (\<exists>st'' e. ws_Read clock' (daemon_env clock' g opts) n len off' st' =
           Some (st'', if read_allowed g opts (h_fs (w_host (f_world st'))) (wn_rel n) then Inr (read_slice new off' (max 0 len)) else Inl e)))"
proof -
  let ?rel = "wn_rel n"
  obtain w' where w': "writeChunk clock (daemon_env clock g opts) (wn_user n) ?rel off data (f_world st) = (w', None)"
    and st': "st' = st\<lparr>f_world := w'\<rparr>"
    using assms(9) by (auto simp: ws_Write_def split: prod.splits option.splits)
  obtain absp old info where a: "resolveWorkspacePath (ho_root opts) ?rel = Inr absp"
    and old: "os_ReadFile (h_fs (w_host (f_world st))) absp = Inr old
       \<or> os_ReadFile (h_fs (w_host (f_world st))) absp = Inl (PathError ''open'' absp OS_ENOENT) \<and> old = []"
    and disk: "os_ReadFile (h_fs (w_host w')) absp = Inr (overlay old (nat off) data)" "os_Lstat (h_fs (w_host w')) absp = Inr info"
    and ses: "\<forall>c. requireSession c (wn_user n) w' = (w', Inr p)" "idle (session_at w' p)"
    and look: "session_Lookup (session_at w' p) ?rel = Some ((fileInfoFromFS ?rel info)\<lparr>fi_path := fstree_normalize ?rel\<rparr>)"
    and nd: "\<not> fi_is_dir (fileInfoFromFS ?rel info)" and miss: "\<forall>j. snd (GetCachedContent ?rel j (session_at w' p)) = None"
    by (rule writeChunk_effect [OF assms(1-4,6,8) w'])
  have attr: "ws_Getattr clock' n st' = (st', Inr (fillAttr clock' (fileInfoFromFS ?rel info)))"
    using ses(1) look assms(7) by (simp add: ws_Getattr_def lookupInfo_def st' fillAttr_def visibleMode_def stableMode_def)
  have rd: "\<exists>st'' e. ws_Read clock' (daemon_env clock' g opts) n len off' st' = Some (st'',
      if read_allowed g opts (h_fs (w_host w')) ?rel then Inr (read_slice (overlay old (nat off) data) off' (max 0 len)) else Inl e)"
    if l: "int (length (overlay old (nat off) data)) < 2 ^ 63" "is_int64 len"
    using readChunk_daemon [OF spec [OF ses(1), of clock'] assms(7) look _ spec [OF miss] ses(2) a disk(1) assms(5) l, of clock' g off'] nd
    by (auto simp: ws_Read_def st')
  show ?thesis
    using a old disk attr rd
    by (intro exI [of _ absp] exI [of _ old] exI [of _ "overlay old (nat off) data"] exI [of _ info]) (simp add: st')
qed

definition demo_joint :: joint where
  "demo_joint = world.extend demo_world (joint.fields demo_host)"

definition demo_mount :: "unit joint_ext fstate" where
  "demo_mount = \<lparr>f_world = demo_joint, f_inodes = newInodeAllocator\<rparr>"

definition demo_node :: workspace_node where
  "demo_node = \<lparr>wn_user = ''u'', wn_workspace = ''w'', wn_rel = ''a''\<rparr>"

abbreviation "demo_written \<equiv> ws_Write 5 (daemon_env 5 star_glob demo_opts) demo_node ''XY'' 1 demo_mount"

lemma demo_mount_facts:
  "requireSession 5 ''u'' demo_joint = (demo_joint, Inr 1)" "idle (session_at demo_joint 1)" "session_ok (session_at demo_joint 1)"
  "w_host demo_joint = demo_host" "disk_ok (h_fs (w_host demo_joint))"
proof -
  have f: "w_mgr demo_joint = w_mgr demo_world" "w_heap demo_joint = w_heap demo_world" and h: "w_host demo_joint = demo_host"
    by (simp_all add: demo_joint_def world.extend_def joint.fields_def)
  have at: "session_at demo_joint 1 = demo_session" using demo_world_facts(2) f by (simp add: session_at_def)
  have s: "demo_session = ApplyWriteResult (Some (demo_file ''a/b'' 5)) (NewSession ''u'' 100)" by (simp add: demo_session_def)
  show q: "idle (session_at demo_joint 1)" unfolding at s by (simp, simp add: idle_def NewSession_def)
  show "session_ok (session_at demo_joint 1)" unfolding at s by (intro ok_apply ok_NewSession) simp
  show "requireSession 5 ''u'' demo_joint = (demo_joint, Inr 1)"
    using q by (simp add: requireSession_def manager_Get_def f demo_world_def demo_mgr_def expired_at_def IsExpired_def at idle_def
        session_at_def)
  show "w_host demo_joint = demo_host" by (rule h)
  show "disk_ok (h_fs (w_host demo_joint))" by (simp add: h demo_host_def demo_disk_def kind_at_def)
qed

theorem mounted_write_round_trip_witness:
  "\<exists>st''. ws_Read 5 (daemon_env 5 star_glob demo_opts) demo_node 3 1 (fst demo_written) = Some (st'', Inr ''XYl'')"
proof -
  have e: "case demo_written of (st, res) \<Rightarrow> res = Inr 2 \<and> read_allowed star_glob demo_opts (h_fs (w_host (f_world st))) (wn_rel demo_node)"
    by code_simp
  then have w: "snd demo_written = Inr 2"
    and r: "read_allowed star_glob demo_opts (h_fs (w_host (f_world (fst demo_written)))) (wn_rel demo_node)"
    by (simp_all only: case_prod_unfold)
  from w have w': "demo_written = (fst demo_written, Inr 2)" by (metis prod.collapse)
  have absp: "resolveWorkspacePath (ho_root demo_opts) (wn_rel demo_node) = Inr ''/w/a''" by code_simp
  have old: "os_ReadFile (h_fs demo_host) ''/w/a'' = Inr ''hello''" by code_simp
  have v: "overlay ''hello'' (nat 1) ''XY'' = ''hXYlo''" "read_slice ''hXYlo'' 1 (max 0 3) = ''XYl''" by code_simp+
  have p: "ho_max_read demo_opts \<le> 0" "ToSlash (wn_rel demo_node) = wn_rel demo_node" "\<not> is_root_path (wn_rel demo_node)"
    "fstree_normalize (wn_rel demo_node) \<noteq> []" by code_simp+
  have n: "wn_user demo_node = ''u''" "f_world demo_mount = demo_joint" by (simp_all add: demo_node_def demo_mount_def)
  show ?thesis
    using mounted_write_round_trip [of 5 demo_node demo_mount 1, unfolded n, OF demo_mount_facts(1-3,5) p w', of 5 3 1] old r v
    by (simp add: absp demo_mount_facts(4) is_int64_def) blast
qed

text \<open>C9: What is deleted through the mount is deleted on the daemon's disk and gone from the mount. When unlinking a name of a
  directory of the mount reports success on a connected, idle session, the entry the path named on the daemon's disk no longer
  exists, every file and link outside it is untouched, and the next lookup of the name fails with \<open>ENOENT\<close>; in particular an
  error of the daemon is never taken for success.
\<close>

theorem mounted_unlink_removes:
  fixes st :: "unit joint_ext fstate"
  assumes "requireSession clock (wn_user n) (f_world st) = (f_world st, Inr p)"
    and "idle (session_at (f_world st) p)" "session_ok (session_at (f_world st) p)" "disk_ok (h_fs (w_host (f_world st)))"
    and "\<not> is_root_path (childPath (wn_rel n) name)" "fstree_normalize (childPath (wn_rel n) name) \<noteq> []"
    and "ws_Unlink clock (daemon_env clock g opts) n name st = (st', None)"
  shows "\<exists>absp q x. resolveWorkspacePath (ho_root opts) (childPath (wn_rel n) name) = Inr absp
    \<and> os_lookup (h_fs (w_host (f_world st))) absp False = Inr (q, x) \<and> fget (fs_root (h_fs (w_host (f_world st')))) q = None
    \<and> (\<forall>p' y. fget (fs_root (h_fs (w_host (f_world st)))) p' = Some y \<and> \<not> is_fdir y \<and> \<not> prefix q p' \<longrightarrow>
         fget (fs_root (h_fs (w_host (f_world st')))) p' = Some y)
    \<and> ws_Lookup clock' n name st' = (st', Inl ENOENT)"
proof -
  let ?w = "f_world st" and ?rel = "childPath (wn_rel n) name"
  obtain w' a where w': "removePath clock (daemon_env clock g opts) (wn_user n) ?rel ?w = (w', None)"
    and st': "st' = st\<lparr>f_world := w', f_inodes := a\<rparr>"
    using assms(7) by (auto simp: ws_Unlink_def Let_def split: prod.splits option.splits)
  obtain absp s where a: "resolveWorkspacePath (ho_root opts) ?rel = Inr absp"
    and rm: "os_Remove (h_fs (w_host ?w)) absp = (h_fs (w_host w'), None)"
    and s: "idle s" "same_data s (session_at ?w p)" and w'm: "w_mgr w' = w_mgr ?w" and w'p: "w_heap w' p = Some (ApplyDelete ?rel s)"
    by (rule removePath_daemon [OF assms(1,2) w'])
  have sok: "session_ok s" using same_data_ok [OF s(2)] assms(3) by simp
  have at: "session_at w' p = ApplyDelete ?rel s" using w'p by (simp add: session_at_def)
  have q: "idle (session_at w' p)" using s(1) by (simp add: at)
  have "session_Lookup (session_at w' p) ?rel = None"
    using delete_fresh(1) [OF sok, of ?rel ?rel] assms(6) by (simp add: at subpath_def)
  moreover have "requireSession clock' (wn_user n) w' = (w', Inr p)"
    using requireSession_keeps [OF assms(1) w'm] w'p q by (simp add: at idle_def)
  ultimately have "ws_Lookup clock' n name st' = (st', Inl ENOENT)"
    using assms(5) by (simp add: ws_Lookup_def lookupInfo_def Let_def st' err_no_def errnoFromError_def errnoRules_def isAnyError_def)
  then show ?thesis
    using os_Remove_effect [OF rm assms(4)] a by (metis (no_types, lifting) fstate.select_convs(1) fstate.surjective fstate.update_convs(1,2) st')
qed

abbreviation "demo_dir \<equiv> demo_node\<lparr>wn_rel := []\<rparr>"

abbreviation "demo_unlinked \<equiv> ws_Unlink 5 (daemon_env 5 star_glob demo_opts) demo_dir ''a'' demo_mount"

theorem mounted_unlink_removes_witness:
  "ws_Lookup 6 demo_dir ''a'' (fst demo_unlinked) = (fst demo_unlinked, Inl ENOENT)
   \<and> os_lookup (h_fs demo_host) ''/w/a'' False = Inr ([''w'', ''a''], FFile ''hello'' 420 1)"
proof -
  have "snd demo_unlinked = None" by code_simp
  then have u: "demo_unlinked = (fst demo_unlinked, None)" by (metis prod.collapse)
  have p: "\<not> is_root_path (childPath (wn_rel demo_dir) ''a'')" "fstree_normalize (childPath (wn_rel demo_dir) ''a'') \<noteq> []" by code_simp+
  have n: "wn_user demo_dir = ''u''" "f_world demo_mount = demo_joint" by (simp_all add: demo_node_def demo_mount_def)
  have "ws_Lookup 6 demo_dir ''a'' (fst demo_unlinked) = (fst demo_unlinked, Inl ENOENT)"
    using mounted_unlink_removes [of 5 demo_dir demo_mount 1 "''a''", unfolded n, OF demo_mount_facts(1-3,5) p u, of 6] by blast
  moreover have "os_lookup (h_fs demo_host) ''/w/a'' False = Inr ([''w'', ''a''], FFile ''hello'' 420 1)" by code_simp
  ultimately show ?thesis by blast
qed

end
