(* ===== verification/Remote_Tree.thy ===== *)
theory Remote_Tree
  imports Session Sync_Daemon
begin

text \<open>
  The start of a session, both sides: the daemon scans its workspace and sends the tree as its first message
  (\<open>initial_tree\<close> of \<open>Sync_Daemon\<close>), the server's session is bootstrapped from that message (\<open>Bootstrap\<close> of
  \<open>Session\<close>), and from then on the mount answers lookups from the session's tree. The theorem says that the tree shows
  the daemon's disk: every entry that no pattern hides, with its metadata, and nothing else.
\<close>

section \<open>Relative paths\<close>

lemma rel_path_plain:
  assumes "\<forall>c \<in> set r. is_name c" "\<forall>c \<in> set r. backslash \<notin> set c"
  shows "ToSlash (rel_path r) = rel_path r" "fstree_normalize (rel_path r) = rel_path r"
proof -
  have "backslash \<notin> set (rel_path r)" using assms(2) by (auto simp: rel_path_def dest!: set_join_with)
  then show s: "ToSlash (rel_path r) = rel_path r" by (simp add: ToSlash_def replace_backslash_id)
  show "fstree_normalize (rel_path r) = rel_path r" using clean_elems_rel_path [OF assms(1)] by (simp add: fstree_normalize_alt s)
qed

lemma rel_path_names_inject:
  "\<forall>c \<in> set r. is_name c \<Longrightarrow> \<forall>c \<in> set r'. is_name c \<Longrightarrow> rel_path r = rel_path r' \<longleftrightarrow> r = r'"
  using clean_elems_rel_path by metis

text \<open>An ancestor of a path, as a text, is the path of its first elements.\<close>

lemma proper_anc_take:
  assumes "proper_anc q (rel_path r)" "\<forall>c \<in> set r. is_name c"
  obtains k where "k < length r" "k \<noteq> 0" "q = rel_path (take k r)"
proof -
  obtain t where t: "rel_path r = q @ slash # t" and q: "q \<noteq> []" using assms(1) by (auto simp: proper_anc_def subpath_def prefix_def)
  have ne: "r \<noteq> []" using t by (auto simp: rel_path_def)
  have "\<forall>w \<in> set r. slash \<notin> set w" using assms(2) is_nameD(4) by blast
  then have r: "r = split_on slash q @ split_on slash t"
    using arg_cong [OF t, of "split_on slash"] ne by (simp add: rel_path_def split_on_append)
  have "q = rel_path (take (length (split_on slash q)) r)" using r by (simp add: rel_path_def)
  moreover have "length (split_on slash q) < length r" "length (split_on slash q) \<noteq> 0" using r by simp_all
  ultimately show ?thesis using that by blast
qed

section \<open>Visible entries\<close>

text \<open>The entries below the root that the scan reports.\<close>

definition visible :: "glob \<Rightarrow> osfs \<Rightarrow> scan_options \<Rightarrow> string list \<Rightarrow> fnode \<Rightarrow> string list \<Rightarrow> fnode \<Rightarrow> bool" where
  "visible g fs opts R d r n \<longleftrightarrow>
     r \<noteq> [] \<and> fget d r = Some n \<and> shown g (so_excludes opts) (so_filter opts) r \<and> readable fs R r"

lemma visible_take:
  assumes "visible g fs opts R d r n" "k \<le> length r" "k \<noteq> 0"
  shows "\<exists>n'. visible g fs opts R d (take k r) n' \<and> (k < length r \<longrightarrow> is_fdir n')"
proof -
  obtain n' where n': "fget d (take k r) = Some n'" "fget n' (drop k r) = Some n"
    using assms(1) fget_append [of d "take k r" "drop k r"] by (auto simp: visible_def split: option.splits)
  have "is_fdir n'" if "k < length r" using n'(2) that by (cases n'; cases "drop k r") auto
  then show ?thesis using assms n'(1) by (auto simp: visible_def shown_def readable_def min_def)
qed

lemma coherent_scan:
  assumes "fwf d" "\<forall>r n. fget d r = Some n \<longrightarrow> (\<forall>c \<in> set r. backslash \<notin> set c)"
    and vs: "set vs = {(r, n). visible g fs opts R d r n}"
  shows "coherent fstree_normalize (map (\<lambda>(r, n). dirEntryToFileInfo (ToSlash (rel_path r)) (node_info fs n)) vs)"
proof -
  have names: "\<forall>c \<in> set r. is_name c" "fstree_normalize (ToSlash (rel_path r)) = rel_path r" "rel_path r \<noteq> []" if "(r, n) \<in> set vs" for r n
    using that vs fget_names [of d r] assms(1,2) rel_path_plain [of r] rel_path_Nil_iff [of r] by (auto simp: visible_def)
  have dir: "oi_isdir (node_info fs n1)"
    if v: "(r1, n1) \<in> set vs" "(r2, n2) \<in> set vs" and anc: "proper_anc (rel_path r1) (rel_path r2)" for r1 n1 r2 n2
  proof -
    obtain k where k: "k < length r2" "k \<noteq> 0" "rel_path r1 = rel_path (take k r2)" using proper_anc_take [OF anc names(1) [OF v(2)]] .
    have "r1 = take k r2" using k(3) names(1) [OF v(1)] names(1) [OF v(2)] rel_path_names_inject [of r1 "take k r2"] by (auto dest: in_set_takeD)
    moreover obtain n' where "visible g fs opts R d (take k r2) n'" "is_fdir n'"
      using visible_take [of g fs opts R d r2 n2 k] v(2) vs k by auto
    ultimately show ?thesis using v(1) vs by (cases n') (auto simp: visible_def)
  qed
  show ?thesis
    using names dir rel_path_names_inject vs by (force simp: coherent_def dirEntryToFileInfo_def visible_def)
qed

text \<open>What a lookup finds in the session bootstrapped from the scan: every visible entry, and nothing below the root but them and the
  directories above them.\<close>

abbreviation scan_entry :: "osfs \<Rightarrow> string list \<times> fnode \<Rightarrow> file_info" where
  "scan_entry fs \<equiv> \<lambda>(r, n). dirEntryToFileInfo (ToSlash (rel_path r)) (node_info fs n)"

lemma visible_plain:
  assumes "fwf d" "\<forall>r n. fget d r = Some n \<longrightarrow> (\<forall>c \<in> set r. backslash \<notin> set c)" "visible g fs opts R d r n"
  shows "\<forall>c \<in> set r. is_name c" "ToSlash (rel_path r) = rel_path r" "fstree_normalize (rel_path r) = rel_path r"
  using assms fget_names [of d r] rel_path_plain [of r] by (auto simp: visible_def)

lemma bootstrap_scan:
  assumes "Bootstrap clock (Some (MsgFileTree (Some \<lparr>ft_files = map Some (map (scan_entry fs) vs), ft_workspace_name = name\<rparr>))) s = (s', None)"
    and "cache_inv (scache s)" and vs: "set vs = {(r, n). visible g fs opts R d r n}"
    and d: "fwf d" "\<forall>r n. fget d r = Some n \<longrightarrow> (\<forall>c \<in> set r. backslash \<notin> set c)"
  shows "visible g fs opts R d r n \<Longrightarrow> fstree_normalize q = rel_path r \<Longrightarrow>
      session_Lookup s' q = Some (dirEntryToFileInfo (rel_path r) (node_info fs n))"
    and "session_Lookup s' q \<noteq> None \<Longrightarrow> fstree_normalize q \<noteq> [] \<Longrightarrow> \<exists>r n. visible g fs opts R d r n \<and> fstree_normalize q = rel_path r"
proof -
  note loads = Bootstrap_loads [OF assms(1,2) _ coherent_scan [OF d vs], simplified file_tree.select_convs]
  show "session_Lookup s' q = Some (dirEntryToFileInfo (rel_path r) (node_info fs n))"
    if v: "visible g fs opts R d r n" and q: "fstree_normalize q = rel_path r"
  proof -
    note plain = visible_plain [OF d v]
    have "session_Lookup s' (rel_path r) = Some (dirEntryToFileInfo (rel_path r) (node_info fs n))"
      using loads vs v plain by (force simp: dirEntryToFileInfo_def)
    then show ?thesis using q plain(3) by (simp add: session_Lookup_def fstree_Lookup_tinfo)
  qed
  assume "session_Lookup s' q \<noteq> None" "fstree_normalize q \<noteq> []"
  then obtain j where j: "j \<in> set (map (scan_entry fs) vs)"
    "fstree_normalize q = fstree_normalize (fi_path j) \<or> proper_anc (fstree_normalize q) (fstree_normalize (fi_path j))"
    using loads by blast
  obtain r n where v: "visible g fs opts R d r n" and jr: "j = scan_entry fs (r, n)" using j(1) vs by auto
  note plain = visible_plain [OF d v]
  have "fstree_normalize q = rel_path r \<or> proper_anc (fstree_normalize q) (rel_path r)"
    using j(2) plain by (simp add: jr dirEntryToFileInfo_def)
  then show "\<exists>r n. visible g fs opts R d r n \<and> fstree_normalize q = rel_path r"
  proof
    assume "proper_anc (fstree_normalize q) (rel_path r)"
    then obtain k where "k < length r" "k \<noteq> 0" "fstree_normalize q = rel_path (take k r)" using proper_anc_take plain(1) by blast
    then show ?thesis using visible_take [OF v, of k] by auto
  qed (use v in blast)
qed

section \<open>Properties\<close>

text \<open>C7: After connecting, the server shows exactly the daemon's workspace. When the daemon's scan has been sent and the session
  bootstrapped from it, a lookup of a path below the workspace finds an entry if and only if the daemon's disk has it, readable,
  and no exclude or sensitive pattern hides it or one of its directories; and what it finds is the metadata of that entry. (No
  name contains a backslash, which the wire format takes for a separator, and every entry can be examined.)
\<close>

theorem connected_tree_exact:
  assumes "\<forall>c \<in> set R. is_name c" "rd_root deps = render_path True R"
    and "os_stat_node ''stat'' True fs (rd_root deps) = Inr d" "os_stat_node ''lstat'' False fs (rd_root deps) = Inr d"
    and "is_fdir d" "fwf d" "\<forall>r n. fget d r = Some n \<longrightarrow> (\<forall>c \<in> set r. backslash \<notin> set c)" "\<forall>p. fs_fault fs ''lstat'' p = None"
    and "initial_tree g fs cfg deps = Inr msg" "Bootstrap clock (Some msg) s = (s', None)" "cache_inv (scache s)"
    and "fstree_normalize q \<noteq> []"
  shows "session_Lookup s' q = Some i \<longleftrightarrow>
    (\<exists>r n. visible g fs (scan_options_of cfg deps) R d r n \<and> fstree_normalize q = rel_path r
       \<and> i = dirEntryToFileInfo (rel_path r) (node_info fs n))"
proof -
  let ?opts = "scan_options_of cfg deps"
  have root: "so_root ?opts = rd_root deps" by (simp add: scan_options_of_def)
  obtain vs where scan: "Scan g fs ?opts = Inr (map (scan_entry fs) vs)" and vs: "set vs = {(r, n). visible g fs ?opts R d r n}"
    using Scan_visible [of R ?opts fs d g] assms(1-6,8) root by (auto simp: visible_def)
  have msg: "msg = MsgFileTree (Some \<lparr>ft_files = map Some (map (scan_entry fs) vs), ft_workspace_name = rd_name deps\<rparr>)"
    using assms(9) scan by (simp add: initial_tree_def)
  note boot = bootstrap_scan [OF assms(10) [unfolded msg] assms(11) vs assms(6,7)]
  show ?thesis using boot(1) boot(2) [of q] assms(12) by fastforce
qed

definition demo_scan_deps :: runtime_deps where
  "demo_scan_deps = \<lparr>rd_filter = \<lparr>patterns = defaultSensitivePatterns\<rparr>, rd_auditor = False, rd_root = ''/w'', rd_name = ''w'',
     everEstablished = False, rd_ready = 0\<rparr>"

definition demo_connect :: "session \<times> sess_error option" where
  "demo_connect =
     (case initial_tree star_glob scan_disk defaultDaemonConfig demo_scan_deps of
        Inr msg \<Rightarrow> Bootstrap 1 (Some msg) (NewSession ''u'' 100)
      | Inl e \<Rightarrow> (NewSession ''u'' 100, Some ErrSessionClosed))"

lemma fget_FDir: "fget (FDir es m t) r = Some n \<longleftrightarrow> r = [] \<and> n = FDir es m t \<or> (\<exists>c cs x. r = c # cs \<and> map_of es c = Some x \<and> fget x cs = Some n)"
  by (cases r) (auto split: option.splits)

lemma fget_FFile: "fget (FFile b m t) r = Some n \<longleftrightarrow> r = [] \<and> n = FFile b m t"
  by (cases r) auto

theorem connected_tree_exact_witness:
  "\<exists>r n. visible star_glob scan_disk (scan_options_of defaultDaemonConfig demo_scan_deps) [''w''] (the (fget (fs_root scan_disk) [''w''])) r n
     \<and> ''a/b'' = rel_path r \<and> the (session_Lookup (fst demo_connect) ''a/b'') = dirEntryToFileInfo (rel_path r) (node_info scan_disk n)"
proof -
  let ?d = "the (fget (fs_root scan_disk) [''w''])"
  have root: "rd_root demo_scan_deps = so_root scan_opts" by (simp add: demo_scan_deps_def scan_opts_def)
  have d: "?d = FDir [(''.env'', FFile ''key'' 420 1), (''a'', FDir [(''b'', FFile ''x'' 420 1)] 493 1)] 493 1" by (simp add: scan_disk_def)
  have bs: "\<forall>r n. fget ?d r = Some n \<longrightarrow> (\<forall>c \<in> set r. backslash \<notin> set c)"
    unfolding d by (auto simp: fget_FDir fget_FFile split: if_splits)
  have nf: "\<forall>p. fs_fault scan_disk ''lstat'' p = None" by (simp add: scan_disk_def)
  have "case initial_tree star_glob scan_disk defaultDaemonConfig demo_scan_deps of Inr _ \<Rightarrow> True | Inl _ \<Rightarrow> False" by code_simp
  then obtain msg where msg: "initial_tree star_glob scan_disk defaultDaemonConfig demo_scan_deps = Inr msg" by (auto split: sum.splits)
  have "snd demo_connect = None" by code_simp
  then have boot: "Bootstrap 1 (Some msg) (NewSession ''u'' 100) = (fst demo_connect, None)"
    unfolding demo_connect_def msg by (simp add: prod_eq_iff)
  have found: "session_Lookup (fst demo_connect) ''a/b'' = Some (the (session_Lookup (fst demo_connect) ''a/b''))" by code_simp
  have n: "fstree_normalize ''a/b'' = ''a/b''" by code_simp
  have c: "cache_inv (scache (NewSession ''u'' 100))" by (simp add: NewSession_def cache_New_inv)
  show ?thesis
    using connected_tree_exact [of "[''w'']" demo_scan_deps scan_disk ?d, unfolded root, OF scan_demo bs nf msg boot c, of "''a/b''"] found
    unfolding n by auto
qed


end
