(* ===== verification/Sync_Confine.thy ===== *)
theory Sync_Confine
  imports Sync_Write
begin

text \<open>
  Confinement of the daemon: every change a handler makes to the disk is an edit below the workspace directory when
  no symbolic link is involved. The edits form an inductive relation, each call of \<open>os\<close> is shown to be one, and
  the theorem about \<open>Handle\<close> follows. A closed example shows what happens when a link is involved.
\<close>

section \<open>Edits below a directory\<close>

definition link_free :: "fnode option \<Rightarrow> bool" where
  "link_free v = (\<forall>x p t. v = Some x \<longrightarrow> kind_at x p \<noteq> Some (KLink t))"

inductive edits :: "string list \<Rightarrow> fnode \<Rightarrow> fnode \<Rightarrow> bool" for R where
  none: "edits R n n"
| edit: "edits R n n1 \<Longrightarrow> kind_at n1 (butlast q) = Some KDir \<Longrightarrow> prefix R q \<Longrightarrow> q \<noteq> [] \<Longrightarrow> link_free v \<Longrightarrow>
    edits R n (fput q v touch n1)"

lemma edits_trans: "edits R b c \<Longrightarrow> edits R a b \<Longrightarrow> edits R a c"
  by (induction rule: edits.induct) (auto intro: edits.intros)

lemmas edit1 = edits.edit [OF edits.none]

text \<open>A workspace directory at \<open>R\<close>, reached without links and holding none.\<close>

definition plain_ws :: "string list \<Rightarrow> fnode \<Rightarrow> bool" where
  "plain_ws R n =
     ((\<forall>c \<in> set R. is_name c) \<and> (\<forall>k. kind_at n (take k R) = Some KDir)
      \<and> (\<forall>p t. prefix R p \<longrightarrow> kind_at n p \<noteq> Some (KLink t)))"

lemma edits_outside: "edits R n n' \<Longrightarrow> \<not> prefix R p \<Longrightarrow> \<not> prefix p R \<Longrightarrow> fget n' p = fget n p"
proof (induction rule: edits.induct)
  case (edit n n1 q v touch)
  have "\<not> prefix q p" "\<not> prefix p q" using edit.hyps(3) edit.prems prefix_same_cases prefix_order.trans by blast+
  then show ?case using fget_fput_other edit.IH edit.prems by simp
qed simp

lemma edits_plain:
  "edits R n n' \<Longrightarrow> plain_ws R n \<Longrightarrow> kind_at n' R = Some KDir \<Longrightarrow> plain_ws R n'"
proof -
  assume e: "edits R n n'" and p: "plain_ws R n" and r: "kind_at n' R = Some KDir"
  have links: "prefix R p \<Longrightarrow> kind_at n' p \<noteq> Some (KLink t)" for p t
    using e p
  proof (induction arbitrary: p t rule: edits.induct)
    case (none n)
    then show ?case by (auto simp: plain_ws_def)
  next
    case (edit n n1 q v touch)
    then show ?case using kind_at_fput [OF edit.hyps(4,2)] by (auto simp: link_free_def split: option.split)
  qed
  have above: "k < length R \<Longrightarrow> kind_at n' (take k R) = Some KDir" for k
    using e p
  proof (induction rule: edits.induct)
    case (none n)
    then show ?case by (auto simp: plain_ws_def)
  next
    case (edit n n1 q v touch)
    have "\<not> prefix q (take k R)" using edit.hyps(3) edit.prems(1) by (auto dest!: prefix_length_le)
    then show ?case using kind_at_fput [OF edit.hyps(4,2)] edit by auto
  qed
  have "kind_at n' (take k R) = Some KDir" for k using above [of k] r by (cases "k < length R") auto
  then show ?thesis using links p by (auto simp: plain_ws_def)
qed

section \<open>Where the paths of a plain workspace lead\<close>

lemma plain_resolve:
  assumes "plain_ws R n" "\<forall>c \<in> set ns. is_name c" "resolve links n [] (R @ ns) follow = Inr q"
  shows "q = R @ ns"
proof -
  have "kind_at n (take k (R @ ns)) \<noteq> Some (KLink t)" for k t
  proof (cases "k \<le> length R")
    case True
    then show ?thesis using assms(1) by (auto simp: plain_ws_def)
  next
    case False
    then have "prefix R (take k (R @ ns))" by (simp add: prefix_def)
    then show ?thesis using assms(1) unfolding plain_ws_def by blast
  qed
  then show ?thesis using resolve_no_links [OF assms(3)] assms(1,2) by (auto simp: plain_ws_def)
qed

lemma plain_disk_ok: "plain_ws R (fs_root fs) \<Longrightarrow> disk_ok fs"
  unfolding plain_ws_def by (metis take0)

lemma plain_os_resolve:
  assumes "plain_ws R (fs_root fs)" "\<forall>c \<in> set ns. is_name c" "os_resolve fs (render_path True (R @ ns)) follow = Inr q"
  shows "q = R @ ns" "kind_at (fs_root fs) (butlast q) = Some KDir"
proof -
  have "\<forall>c \<in> set (R @ ns). is_name c" using assms(1,2) by (auto simp: plain_ws_def)
  then show "q = R @ ns"
    using plain_resolve [OF assms(1,2)] assms(3) os_resolve_render [OF _ plain_disk_ok [OF assms(1)]] by metis
  show "kind_at (fs_root fs) (butlast q) = Some KDir" using os_resolve_parent [OF assms(3) plain_disk_ok [OF assms(1)]] .
qed

lemma resolveWorkspacePath_elems:
  assumes "resolveWorkspacePath root rel = Inr absp" "is_abs root" "path_clean root = root"
  obtains ns where "absp = render_path True (clean_elems root @ ns)" "\<forall>c \<in> set ns. is_name c"
proof (cases "rel = [] \<or> rel = ''.'' \<or> rel = [slash]")
  case True
  then have "absp = root" using assms(1) by (auto simp: resolveWorkspacePath_def)
  then have "absp = render_path True (clean_elems root @ [])" using assms(2,3) by (simp add: path_clean_def is_abs_def)
  then show ?thesis using that [of "[]"] by simp
next
  case False
  then have "Join root rel = Inr absp" using assms(1) by (auto simp: resolveWorkspacePath_def)
  then obtain ns where "absp = render_path True (clean_elems root @ ns)" "\<forall>c \<in> set ns. is_name c" by (rule Join_InrE)
  then show ?thesis by (rule that)
qed

section \<open>The calls, in a plain workspace\<close>

lemma link_free_file: "link_free (Some (FFile b m t))" "link_free None" "link_free (Some (FDir [] m t))"
proof -
  have "kind_at (FFile b m t) p \<noteq> Some (KLink x)" "kind_at (FDir [] m t) p \<noteq> Some (KLink x)" for p x
    by (cases p; simp add: kind_at_def)+
  then show "link_free (Some (FFile b m t))" "link_free None" "link_free (Some (FDir [] m t))" by (auto simp: link_free_def)
qed

lemma edits_file_put:
  assumes "fget (fs_root fs) q = Some (FFile b m t)" "prefix R q" "q \<noteq> []"
  shows "edits R (fs_root fs) (fs_root (file_put fs q f))"
proof -
  have "fget (fs_root fs) (butlast q @ [last q]) \<noteq> None" using assms by simp
  then have "kind_at (fs_root fs) (butlast q) = Some KDir" by (rule kind_at_prefix) simp
  then show ?thesis using assms edit1 link_free_file(1) by (simp add: file_put_def)
qed

lemma edits_open:
  assumes ws: "plain_ws R (fs_root fs)" "\<forall>c \<in> set ns. is_name c" "p = render_path True (R @ ns)"
    and o: "os_OpenFile_create fs p mode = (fs2, r)"
  shows "edits R (fs_root fs) (fs_root fs2)"
proof (cases "os_resolve fs p True")
  case (Inr q)
  note Q = plain_os_resolve [OF ws(1,2) Inr [unfolded ws(3)]]
  have "edits R (fs_root fs) (fput q (Some (FFile [] (new_perm fs mode) (fs_now fs))) (Some (fs_now fs)) (fs_root fs))"
    if "fget (fs_root fs) q = None"
    using that Q by (intro edit1) (auto simp: link_free_file)
  then show ?thesis
    using o Inr by (auto simp: os_OpenFile_create_def split: option.splits fnode.splits intro: edits.none)
qed (use o in \<open>auto simp: os_OpenFile_create_def split: option.splits intro: edits.none\<close>)

lemma edits_mkdir:
  assumes ws: "plain_ws R (fs_root fs)" "\<forall>c \<in> set ns. is_name c" "p = render_path True (R @ ns)"
    and o: "os_Mkdir fs p mode = (fs2, r)"
  shows "edits R (fs_root fs) (fs_root fs2)"
proof (cases "os_resolve fs p False")
  case (Inr q)
  note Q = plain_os_resolve [OF ws(1,2) Inr [unfolded ws(3)]]
  have "edits R (fs_root fs) (fput q (Some (FDir [] (new_perm fs mode) (fs_now fs))) (Some (fs_now fs)) (fs_root fs))"
    if "fget (fs_root fs) q = None"
    using that Q by (intro edit1) (auto simp: link_free_file)
  then show ?thesis
    using o Inr by (auto simp: os_Mkdir_def split: option.splits if_splits intro: edits.none)
qed (use o in \<open>auto simp: os_Mkdir_def split: option.splits intro: edits.none\<close>)

lemma edits_remove:
  assumes ws: "plain_ws R (fs_root fs)" "\<forall>c \<in> set ns. is_name c" "p = render_path True (R @ ns)"
    and o: "os_Remove fs p = (fs2, r)"
  shows "edits R (fs_root fs) (fs_root fs2)"
proof (cases "os_resolve fs p False")
  case (Inr q)
  note Q = plain_os_resolve [OF ws(1,2) Inr [unfolded ws(3)]]
  have "edits R (fs_root fs) (fput q None (Some (fs_now fs)) (fs_root fs))" if "q \<noteq> []"
    using that Q by (intro edit1) (auto simp: link_free_file)
  then show ?thesis
    using o Inr by (auto simp: os_Remove_def os_lookup_def split: option.splits if_splits intro: edits.none)
qed (use o in \<open>auto simp: os_Remove_def os_lookup_def split: option.splits intro: edits.none\<close>)

lemma edits_truncate:
  assumes ws: "plain_ws R (fs_root fs)" "\<forall>c \<in> set ns. is_name c" "p = render_path True (R @ ns)"
    and o: "os_Truncate fs p sz = (fs2, r)"
  shows "edits R (fs_root fs) (fs_root fs2)"
proof (cases "fs2 = fs")
  case False
  then obtain q b m t f where q: "os_resolve fs p True = Inr q" "fget (fs_root fs) q = Some (FFile b m t)" "fs2 = file_put fs q f"
    using o by (auto simp: os_Truncate_def os_lookup_def split: option.splits sum.splits fnode.splits if_splits)
  note Q = plain_os_resolve [OF ws(1,2) q(1) [unfolded ws(3)]]
  have "q \<noteq> []" using q(2) plain_disk_ok [OF ws(1)] by (auto simp: kind_at_def)
  then show ?thesis using edits_file_put [OF q(2)] Q q(3) by simp
qed (simp add: edits.none)

lemma edits_rename:
  assumes ws: "plain_ws R (fs_root fs)" "\<forall>c \<in> set ns. is_name c" "\<forall>c \<in> set ns'. is_name c"
    and ps: "p = render_path True (R @ ns)" "p' = render_path True (R @ ns')"
    and o: "os_Rename fs p p' = (fs2, r)"
  shows "edits R (fs_root fs) (fs_root fs2)"
proof (cases "fs2 = fs")
  case False
  let ?n = "fs_root fs" and ?t = "Some (fs_now fs)"
  obtain q x q' where q: "os_resolve fs p False = Inr q" "fget ?n q = Some x" "os_resolve fs p' False = Inr q'"
    and ne: "q \<noteq> []" "q' \<noteq> []" "\<not> (is_fdir x \<and> prefix q q')"
    and fs2: "fs2 = fs\<lparr>fs_root := fput q' (Some x) ?t (fput q None ?t ?n)\<rparr>"
    using o False by (auto simp: os_Rename_def os_lookup_def Let_def split: option.splits sum.splits prod.splits if_splits)
  note Q = plain_os_resolve [OF ws(1,2) q(1) [unfolded ps]] and Q' = plain_os_resolve [OF ws(1,3) q(3) [unfolded ps]]
  have "\<not> prefix q (butlast q')"
  proof
    assume a: "prefix q (butlast q')"
    then have pr: "prefix q q'" using prefixeq_butlast [of q'] by (rule prefix_order.trans) 
    obtain r where r: "butlast q' = q @ r" using a by (auto simp: prefix_def)
    have "kind_at ?n q = Some KDir"
      using kind_at_prefix [of ?n q r] Q'(2) r by (cases "r = []") (auto simp: kind_at_def)
    then have "is_fdir x" using q(2) by (simp add: kind_at_def node_kind_KDir)
    then show False using ne(3) pr by blast
  qed
  then have d': "kind_at (fput q None ?t ?n) (butlast q') = Some KDir" using kind_at_fput [OF ne(1) Q(2)] Q'(2) by simp
  have lf: "link_free (Some x)"
    unfolding link_free_def
  proof (intro allI impI)
    fix y pp t assume "Some x = Some y"
    then have "kind_at y pp = kind_at ?n (q @ pp)" using q(2) by (simp add: kind_at_def fget_append)
    then show "kind_at y pp \<noteq> Some (KLink t)" using ws(1) Q(1) unfolding plain_ws_def by (metis append.assoc prefixI)
  qed
  have e1: "edits R ?n (fput q None ?t ?n)" using Q ne(1) by (intro edit1) (auto simp: link_free_file)
  show ?thesis unfolding fs2 using edits.edit [OF e1 d' _ ne(2) lf] Q'(1) by simp
qed (simp add: edits.none)

text \<open>\<open>MkdirAll\<close> makes directories only below the workspace: those above exist.\<close>

lemma mkdir_above:
  assumes ws: "plain_ws R (fs_root fs)" and es: "prefix es R" and o: "os_Mkdir fs (render_path True es) mode = (fs2, r)"
  shows "fs2 = fs"
proof (cases "os_resolve fs (render_path True es) False")
  case (Inr q)
  obtain k where k: "es = take k R" using es by (auto simp: prefix_def intro: that [of "length es"])
  have n: "\<forall>c \<in> set es. is_name c" using ws k by (auto simp: plain_ws_def dest: in_set_takeD)
  have d: "kind_at (fs_root fs) (take j R) = Some KDir" for j using ws by (simp add: plain_ws_def)
  have "resolve kernel_links (fs_root fs) [] es False = Inr q"
    using Inr os_resolve_render [OF n plain_disk_ok [OF ws]] by simp
  then have "q = es"
    using resolve_no_links [of kernel_links "fs_root fs" "[]" es False q] n d by (auto simp: k min_def)
  then have "fget (fs_root fs) q \<noteq> None" using d [of k] k by (auto simp: kind_at_def)
  then show ?thesis using o Inr by (auto simp: os_Mkdir_def split: option.splits)
qed (use o in \<open>auto simp: os_Mkdir_def split: option.splits\<close>)

lemma mkdir_keeps_ws:
  assumes ws: "plain_ws R (fs_root fs)" "\<forall>c \<in> set ns. is_name c"
    and o: "os_Mkdir fs (render_path True (R @ ns)) mode = (fs2, r)"
  shows "plain_ws R (fs_root fs2)"
proof (cases "fs2 = fs")
  case False
  let ?x = "FDir [] (new_perm fs mode) (fs_now fs)"
  obtain q where q: "os_resolve fs (render_path True (R @ ns)) False = Inr q" "fget (fs_root fs) q = None"
    and fs2: "fs2 = fs\<lparr>fs_root := fput q (Some ?x) (Some (fs_now fs)) (fs_root fs)\<rparr>"
    using o False by (auto simp: os_Mkdir_def split: option.splits sum.splits if_splits)
  note Q = plain_os_resolve [OF ws q(1)]
  have ne: "q \<noteq> []" using q(2) by auto
  have r: "kind_at (fs_root fs) R = Some KDir" using ws(1) unfolding plain_ws_def by (metis order_refl take_all)
  have "\<not> prefix q R" using Q(1) q(2) r by (auto simp: kind_at_def dest: prefix_order.antisym)
  then have "kind_at (fs_root fs2) R = Some KDir" using kind_at_fput [OF ne Q(2)] r by (simp add: fs2)
  then show ?thesis using edits_plain [OF edits_mkdir [OF ws refl o] ws(1)] by simp
qed (use ws in simp)

lemma edits_mkdir_all:
  assumes "plain_ws R (fs_root fs)" "\<forall>c \<in> set relems. is_name c" "prefix (rev relems) R \<or> prefix R (rev relems)"
    and "mkdir_all fs relems mode = (fs', err)"
  shows "edits R (fs_root fs) (fs_root fs') \<and> plain_ws R (fs_root fs')"
  using assms
proof (induction relems arbitrary: fs fs' err)
  have mk: "edits R (fs_root fs1) (fs_root fs2) \<and> plain_ws R (fs_root fs2)"
    if h: "plain_ws R (fs_root fs1)" "\<forall>c \<in> set es. is_name c" "prefix es R \<or> prefix R es" "os_Mkdir fs1 (render_path True es) mode = (fs2, r)"
    for fs1 fs2 es r
  proof (cases "prefix es R")
    case True
    then show ?thesis using mkdir_above [OF h(1) True h(4)] h(1) by (simp add: edits.none)
  next
    case False
    then obtain ns where "es = R @ ns" using h(3) by (auto simp: prefix_def)
    then show ?thesis using edits_mkdir [OF h(1) _ refl, of ns mode fs2 r] mkdir_keeps_ws [OF h(1), of ns mode fs2 r] h(2,4) by auto
  qed
  {
    case Nil
    then show ?case using mk [of fs "[]"]
      by (auto simp: Let_def edits.none split: sum.splits prod.splits option.splits if_splits)
  next
    case (Cons c cs)
    let ?p = "render_path True (rev (c # cs))"
    have pre: "prefix (rev cs) R \<or> prefix R (rev cs) \<or> R = rev (c # cs)"
      using Cons.prems(3) by (auto simp: prefix_append prefix_Cons dest: append_prefixD)
    show ?case
    proof (cases "fs' = fs")
      case True
      then show ?thesis using Cons.prems(1) by (simp add: edits.none)
    next
      case False
      obtain fs1 e1 where r: "mkdir_all fs cs mode = (fs1, e1)" by fastforce
      have c: "fs' = fs1 \<or> (\<exists>r. os_Mkdir fs1 ?p mode = (fs', r))"
        using Cons.prems(4) r False
        by (auto simp: Let_def simp del: render_path_def split: sum.splits prod.splits option.splits if_splits)
      have "prefix (rev cs) R \<or> prefix R (rev cs)" using pre by (auto simp: prefix_def)
      then have I: "edits R (fs_root fs) (fs_root fs1)" "plain_ws R (fs_root fs1)"
        using Cons.IH [OF Cons.prems(1) _ _ r] Cons.prems(2) by auto
      show ?thesis
        using c
      proof
        assume "\<exists>r. os_Mkdir fs1 ?p mode = (fs', r)"
        then obtain r where "os_Mkdir fs1 ?p mode = (fs', r)" by blast
        then show ?thesis using mk [OF I(2), of "rev (c # cs)" fs' r] Cons.prems(2,3) edits_trans [OF _ I(1)] by auto
      qed (use I in simp)
    qed
  }
qed

section \<open>The handlers\<close>

lemma with_info_fs [simp]: "h_fs (fst (with_info st reqID absp rel fmt)) = h_fs st"
  by (simp add: with_info_def split: sum.split)

lemma resolveMutating_elems:
  assumes "resolveMutatingPath g opts fs reqID op p ro = Inr absp" "is_abs (ho_root opts)" "path_clean (ho_root opts) = ho_root opts"
  obtains ns where "absp = render_path True (clean_elems (ho_root opts) @ ns)" "\<forall>c \<in> set ns. is_name c"
proof -
  have "resolveWorkspacePath (ho_root opts) p = Inr absp"
    using assms(1) by (auto simp: resolveMutatingPath_def split: sum.splits bool.splits)
  then show ?thesis using resolveWorkspacePath_elems [OF _ assms(2,3)] that by blast
qed

lemma edits_handleMutating:
  assumes ws: "plain_ws R (fs_root (h_fs st))" and root: "is_abs (ho_root opts)" "path_clean (ho_root opts) = ho_root opts"
    and R: "R = clean_elems (ho_root opts)"
  shows "edits R (fs_root (h_fs st)) (fs_root (h_fs (fst (handleMutating g opts st reqID op))))"
proof -
  let ?E = "\<lambda>x. edits R (fs_root (h_fs st)) (fs_root (h_fs (fst x)))"
  have same: "?E (st, r)" for r by (simp add: edits.none)
  have wr: "?E (handleWrite g opts st reqID w)" for w
  proof (cases w)
    case (Some r)
    show ?thesis
    proof (cases "resolveMutatingPath g opts (h_fs st) reqID ''write'' (wr_path r) \<lparr>allowMissingLeaf = True, followFinalSymlink = True\<rparr>")
      case (Inr absp)
      obtain ns where ns: "absp = render_path True (R @ ns)" "\<forall>c \<in> set ns. is_name c"
        using resolveMutating_elems [OF Inr root] R by metis
      obtain fs2 res where o: "os_OpenFile_create (h_fs st) absp (defaultWriteMode (wr_mode r)) = (fs2, res)" by fastforce
      note e = edits_open [OF ws ns(2,1) o]
      show ?thesis
      proof (cases res)
        case q: (Inr q)
        note O = open_create_facts [OF o [unfolded q] plain_disk_ok [OF ws]]
        have Q: "q = R @ ns" using plain_os_resolve [OF ws ns(2)] O(2) ns(1) by simp
        obtain fs3 e3 where w3: "writeContent fs2 absp q (wr_content r) (wr_offset r) (wr_append r) = (fs3, e3)" by fastforce
        have "fs3 = fs2 \<or> (\<exists>f. fs3 = file_put fs2 q f)"
          using w3 by (auto simp: writeContent_def file_Write_append_def file_WriteAt_def split: if_splits option.splits)
        then have "edits R (fs_root fs2) (fs_root fs3)"
          using O(7,3) edits_file_put [of fs2 q _ _ _ R] Q by (auto intro: edits.none)
        then have "edits R (fs_root (h_fs st)) (fs_root fs3)" using edits_trans e by blast
        then show ?thesis using Some Inr o q w3 edits.none
          by (auto simp: handleWrite_def openWriteTarget_def Let_def split: option.split)
      qed (use Some Inr o e edits.none in \<open>auto simp: handleWrite_def openWriteTarget_def Let_def\<close>)
    qed (use Some edits.none in \<open>auto simp: handleWrite_def\<close>)
  qed (simp add: handleWrite_def edits.none)
  have mkd: "?E (handleMkdir g opts st reqID w)" for w
  proof (cases w)
    case (Some r)
    show ?thesis
    proof (cases "resolveMutatingPath g opts (h_fs st) reqID ''mkdir'' (mk_path r) \<lparr>allowMissingLeaf = True, followFinalSymlink = False\<rparr>")
      case (Inr absp)
      obtain ns where ns: "absp = render_path True (R @ ns)" "\<forall>c \<in> set ns. is_name c"
        using resolveMutating_elems [OF Inr root] R by metis
      have n: "\<forall>c \<in> set (R @ ns). is_name c" using ws ns(2) by (auto simp: plain_ws_def)
      have ce: "clean_elems absp = R @ ns" using render_abs_elems [OF n] ns(1) by simp
      obtain fs2 e2 where m: "(if mk_recursive r then os_MkdirAll (h_fs st) absp 493 else os_Mkdir (h_fs st) absp 493) = (fs2, e2)" by fastforce
      have "edits R (fs_root (h_fs st)) (fs_root fs2)"
      proof (cases "mk_recursive r")
        case True
        then have "mkdir_all (h_fs st) (rev (R @ ns)) 493 = (fs2, e2)" using m ce by (simp add: os_MkdirAll_def)
        from edits_mkdir_all [OF ws _ _ this] show ?thesis using n by (auto simp del: mkdir_all.simps)
      next
        case False
        then show ?thesis using edits_mkdir [OF ws ns(2,1)] m by simp
      qed
      then show ?thesis using Some Inr m by (auto simp: handleMkdir_def Let_def split: option.split prod.split)
    qed (use Some edits.none in \<open>auto simp: handleMkdir_def\<close>)
  qed (simp add: handleMkdir_def edits.none)
  have del: "?E (handleDelete g opts st reqID w)" for w
  proof (cases w)
    case (Some r)
    show ?thesis
    proof (cases "resolveMutatingPath g opts (h_fs st) reqID ''delete'' r \<lparr>allowMissingLeaf = False, followFinalSymlink = False\<rparr>")
      case (Inr absp)
      obtain ns where ns: "absp = render_path True (R @ ns)" "\<forall>c \<in> set ns. is_name c"
        using resolveMutating_elems [OF Inr root] R by metis
      obtain fs2 e2 where m: "os_Remove (h_fs st) absp = (fs2, e2)" by fastforce
      show ?thesis using edits_remove [OF ws ns(2,1) m] Some Inr m by (auto simp: handleDelete_def Let_def split: option.split)
    qed (use Some edits.none in \<open>auto simp: handleDelete_def\<close>)
  qed (simp add: handleDelete_def edits.none)
  have trn: "?E (handleTruncate g opts st reqID w)" for w
  proof (cases w)
    case (Some r)
    show ?thesis
    proof (cases "resolveMutatingPath g opts (h_fs st) reqID ''truncate'' (tr_path r) \<lparr>allowMissingLeaf = False, followFinalSymlink = True\<rparr>")
      case (Inr absp)
      obtain ns where ns: "absp = render_path True (R @ ns)" "\<forall>c \<in> set ns. is_name c"
        using resolveMutating_elems [OF Inr root] R by metis
      obtain fs2 e2 where m: "os_Truncate (h_fs st) absp (tr_size r) = (fs2, e2)" by fastforce
      show ?thesis using edits_truncate [OF ws ns(2,1) m] Some Inr m edits.none
        by (auto simp: handleTruncate_def Let_def split: option.split)
    qed (use Some edits.none in \<open>auto simp: handleTruncate_def\<close>)
  qed (simp add: handleTruncate_def edits.none)
  have ren: "?E (handleRename g opts st reqID w)" for w
  proof (cases w)
    case (Some r)
    show ?thesis
    proof (cases "resolveRenamePaths g opts (h_fs st) reqID r")
      case (Inr ap)
      obtain a b where ab: "ap = (a, b)" by fastforce
      have "\<exists>ro. resolveMutatingPath g opts (h_fs st) reqID ''rename'' (rn_old_path r) ro = Inr a"
        "\<exists>ro. resolveMutatingPath g opts (h_fs st) reqID ''rename'' (rn_new_path r) ro = Inr b"
        using Inr ab by (auto simp: resolveRenamePaths_def split: sum.splits bool.splits if_splits)
      then obtain ns ns' where ns: "a = render_path True (R @ ns)" "\<forall>c \<in> set ns. is_name c"
        and ns': "b = render_path True (R @ ns')" "\<forall>c \<in> set ns'. is_name c"
        using resolveMutating_elems [OF _ root] R by metis
      obtain fs2 e2 where m: "os_Rename (h_fs st) a b = (fs2, e2)" by fastforce
      show ?thesis using edits_rename [OF ws ns(2) ns'(2) ns(1) ns'(1) m] Some Inr ab m
        by (auto simp: handleRename_def Let_def split: option.split)
    qed (use Some edits.none in \<open>auto simp: handleRename_def\<close>)
  qed (simp add: handleRename_def edits.none)
  show ?thesis
    using same wr mkd del trn ren by (auto simp: handleMutating_def split: option.split operation.split)
qed

section \<open>Properties\<close>

lemma auditRequest_fs [simp]: "h_fs (auditRequest a rq resp st) = h_fs st"
  by (simp add: auditRequest_def Let_def)

text \<open>C10: in a workspace that is reached without links and holds none, no request changes anything outside it,
  whatever paths the server sends; and as long as the workspace directory itself is there it stays free of links,
  so this holds for every sequence of requests.\<close>

theorem handle_confined:
  assumes "is_abs (ho_root opts)" "path_clean (ho_root opts) = ho_root opts"
    and "plain_ws (clean_elems (ho_root opts)) (fs_root (h_fs st))" "Handle g opts st rq = (st', resp)"
  shows "(\<forall>p. \<not> prefix (clean_elems (ho_root opts)) p \<and> \<not> prefix p (clean_elems (ho_root opts)) \<longrightarrow>
        fget (fs_root (h_fs st')) p = fget (fs_root (h_fs st)) p)
    \<and> (kind_at (fs_root (h_fs st')) (clean_elems (ho_root opts)) = Some KDir \<longrightarrow>
        plain_ws (clean_elems (ho_root opts)) (fs_root (h_fs st')))"
proof -
  let ?R = "clean_elems (ho_root opts)"
  have "edits ?R (fs_root (h_fs st)) (fs_root (h_fs st'))"
    using assms(4) edits_handleMutating [OF assms(3,1,2) refl] edits.none
    by (auto simp: Handle_def Let_def split: option.splits prod.splits) (metis fst_conv)
  then show ?thesis using edits_outside edits_plain [OF _ assms(3)] by blast
qed

lemma demo_plain: "plain_ws [''w''] (fs_root (h_fs demo_host))"
proof -
  have k: "kind_at (fs_root (h_fs demo_host)) p \<noteq> Some (KLink t)" for p t
    by (cases p rule: remdups_adj.cases; cases "tl p"; cases "tl (tl p)")
      (auto simp: demo_host_def demo_disk_def kind_at_def split: option.splits if_splits)
  have "kind_at (fs_root (h_fs demo_host)) (take k [''w'']) = Some KDir" for k
    by (cases k) (simp_all add: demo_host_def demo_disk_def kind_at_def)
  then show ?thesis using k by (simp add: plain_ws_def is_name_def)
qed

theorem handle_confined_witness:
  "fget (fs_root (h_fs (fst (Handle star_glob demo_opts demo_host (Some \<lparr>rq_id = ''1'', rq_op = Some (OpDelete (Some ''../x''))\<rparr>))))) [''x'']
     = fget (fs_root (h_fs demo_host)) [''x'']"
proof -
  have r: "clean_elems (ho_root demo_opts) = [''w'']" "is_abs (ho_root demo_opts)" "path_clean (ho_root demo_opts) = ho_root demo_opts"
    unfolding demo_opts_def by code_simp+
  have x: "\<not> prefix [''w''] [''x''] \<and> \<not> prefix [''x''] [''w'']" by simp
  show ?thesis using handle_confined [OF r(2,3) _ prod.collapse [symmetric]] demo_plain x unfolding r(1) by blast
qed

definition linked_disk :: osfs where
  "linked_disk = demo_disk\<lparr>fs_root := FDir [(''etc'', FDir [(''passwd'', FFile ''root'' 420 1)] 493 1),
      (''w'', FDir [(''l'', FLink ''/etc'' 511 1)] 493 1)] 493 1\<rparr>"

text \<open>Links are followed out of the workspace: with a link in the workspace to a directory outside it, a read
  below the link returns the content of the outside file.\<close>

theorem links_leave_workspace:
  "handleRead star_glob demo_opts linked_disk ''1'' (Some \<lparr>rd_path = ''l/passwd'', rd_offset = 0, rd_length = 0\<rparr>)
     = \<lparr>rp_id = ''1'', rp_success = True, rp_error = [], rp_result = ResContent ''root''\<rparr>"
  by code_simp

end
