(* ===== verification/Sync_Secrecy.thy ===== *)
theory Sync_Secrecy
  imports Sync_Confine
begin

text \<open>
  The protection of sensitive files. The daemon follows symbolic links itself, pass by pass, to find the file a
  request really means; here that routine is shown to agree with the kernel's resolution whenever link targets are
  tidy, so that a successful read or write never reaches a sensitive file of the workspace. A closed example shows
  how an untidy link defeats the check.
\<close>

section \<open>Resolution along directories\<close>

text \<open>A path all of whose nodes are directories.\<close>

definition dirs_to :: "fnode \<Rightarrow> string list \<Rightarrow> bool" where
  "dirs_to n p = (\<forall>k. kind_at n (take k p) = Some KDir)"

lemma dirs_to_snoc: "dirs_to n (p @ [c]) \<longleftrightarrow> dirs_to n p \<and> kind_at n (p @ [c]) = Some KDir"
proof
  assume d: "dirs_to n (p @ [c])"
  have "kind_at n (take k p) = Some KDir" for k
    using d [unfolded dirs_to_def, rule_format, of "min k (length p)"] by (simp add: min_def split: if_splits)
  moreover have "kind_at n (p @ [c]) = Some KDir" using d [unfolded dirs_to_def, rule_format, of "Suc (length p)"] by simp
  ultimately show "dirs_to n p \<and> kind_at n (p @ [c]) = Some KDir" by (simp add: dirs_to_def)
next
  assume a: "dirs_to n p \<and> kind_at n (p @ [c]) = Some KDir"
  have "kind_at n (take k (p @ [c])) = Some KDir" for k
    using a by (cases "k \<le> length p") (auto simp: dirs_to_def)
  then show "dirs_to n (p @ [c])" by (simp add: dirs_to_def)
qed

lemma dirs_to_self: "dirs_to n p \<Longrightarrow> kind_at n p = Some KDir"
  unfolding dirs_to_def by (metis order_refl take_all)

lemma dirs_to_Nil: "dirs_to n [] \<longleftrightarrow> kind_at n [] = Some KDir" by (simp add: dirs_to_def)

lemma dirs_to_take: "dirs_to n p \<Longrightarrow> dirs_to n (take k p)" by (simp add: dirs_to_def)

lemma resolve_down:
  assumes "dirs_to n p" "\<forall>c \<in> set p. is_name c"
  shows "resolve l n [] (p @ cs) f = resolve l n p cs f"
  using assms
proof (induction p arbitrary: cs rule: rev_induct)
  case (snoc c p)
  have d: "dirs_to n p" "kind_at n (p @ [c]) = Some KDir" using snoc.prems(1) by (simp_all add: dirs_to_snoc)
  have c: "c \<noteq> []" "c \<noteq> ''.''" "c \<noteq> ''..''" using snoc.prems(2) is_nameD [of c] by simp_all
  have "resolve l n [] (p @ c # cs) f = resolve l n p (c # cs) f" using snoc d by simp
  also have "\<dots> = resolve l n (p @ [c]) cs f" using c d dirs_to_self [OF d(1)] by (simp add: resolve_Cons)
  finally show ?case by simp
qed simp

text \<open>Going up \<open>k\<close> times.\<close>

lemma resolve_up:
  "dirs_to n p \<Longrightarrow> resolve l n p (replicate k ''..'' @ cs) f = resolve l n (take (length p - k) p) cs f"
proof (induction k arbitrary: p)
  case (Suc k)
  have "dirs_to n (butlast p)" using Suc.prems by (simp add: butlast_conv_take dirs_to_take)
  then have "resolve l n (butlast p) (replicate k ''..'' @ cs) f = resolve l n (take (length p - Suc k) p) cs f"
    using Suc.IH [of "butlast p"] by (simp add: butlast_conv_take min_def)
  then show ?case using dirs_to_self [OF Suc.prems] by (simp add: resolve_Cons)
qed simp

text \<open>Leaving out empty elements and dots.\<close>

inductive drops :: "string list \<Rightarrow> string list \<Rightarrow> bool" where
  drops_Nil: "drops [] []"
| drops_keep: "drops cs ds \<Longrightarrow> drops (c # cs) (c # ds)"
| drops_drop: "drops cs ds \<Longrightarrow> c = [] \<or> c = ''.'' \<Longrightarrow> drops (c # cs) ds"

lemma drops_refl: "drops cs cs"
  by (induction cs) (auto intro: drops.intros)

lemma drops_append: "drops cs ds \<Longrightarrow> drops (es @ cs) (es @ ds)"
  by (induction es) (auto intro: drops.intros)

lemma drops_filter: "drops (cs @ rest) (filter (\<lambda>c. c \<noteq> [] \<and> c \<noteq> ''.'') cs @ rest)"
  by (induction cs) (auto intro: drops.intros drops_refl)

inductive_cases drops_ConsE: "drops (c # cs) ds"
inductive_cases drops_NilE: "drops [] ds"

lemma resolves_drops:
  "resolves n f l cur cs q \<Longrightarrow> f \<Longrightarrow> drops cs ds \<Longrightarrow> resolve l n cur ds f = Inr q"
proof (induction arbitrary: ds rule: resolves.induct)
  case (stop links cur)
  then show ?case by (auto elim: drops_NilE)
next
  case (skip cur c links cs q)
  from skip.prems(2) show ?case
  proof (rule drops_ConsE)
    fix ds' assume "ds = c # ds'" "drops cs ds'"
    then show ?thesis using skip by (simp add: resolve_Cons)
  qed (use skip in auto)
next
  case (up cur c links cs q)
  from up.prems(2) show ?case
  proof (rule drops_ConsE)
    fix ds' assume "ds = c # ds'" "drops cs ds'"
    then show ?thesis using up by (simp add: resolve_Cons)
  qed (use up in auto)
next
  case (missing cur c links)
  from missing.prems(2) show ?case
    by (rule drops_ConsE) (use missing in \<open>auto elim: drops_NilE simp: resolve_Cons\<close>)
next
  case (link cur c target cs l q)
  from link.prems(2) show ?case
  proof (rule drops_ConsE)
    fix ds' assume "ds = c # ds'" "drops cs ds'"
    then show ?thesis using link.IH [OF link.prems(1) drops_append, of ds'] link by (simp add: resolve_Cons)
  qed (use link in auto)
next
  case (down cur c k links cs q)
  from down.prems(2) show ?case
  proof (rule drops_ConsE)
    fix ds' assume "ds = c # ds'" "drops cs ds'"
    then show ?thesis using down by (auto simp: resolve_Cons)
  qed (use down in auto)
qed simp

section \<open>Cleaning of link targets\<close>

text \<open>A link target whose \<open>..\<close> elements, if any, come first. For other targets the lexical cleaning of the daemon
  and the kernel disagree.\<close>

definition target_elems :: "string \<Rightarrow> string list" where
  "target_elems t = filter (\<lambda>c. c \<noteq> [] \<and> c \<noteq> ''.'') (split_on slash t)"

definition tidy_target :: "string \<Rightarrow> bool" where
  "tidy_target t = normal_elems (is_rooted t) (target_elems t)"

definition tidy_links :: "fnode \<Rightarrow> bool" where
  "tidy_links n = (\<forall>p t. kind_at n p = Some (KLink t) \<longrightarrow> tidy_target t)"

lemma foldl_target: "foldl (clean_step r) acc (split_on slash t) = foldl (clean_step r) acc (target_elems t)"
proof -
  have "foldl (clean_step r) acc cs = foldl (clean_step r) acc (filter (\<lambda>c. c \<noteq> [] \<and> c \<noteq> ''.'') cs)" for cs
    by (induction cs arbitrary: acc) (auto simp: clean_step.simps)
  then show ?thesis by (simp add: target_elems_def)
qed

lemma clean_elems_tidy_abs: "is_rooted t \<Longrightarrow> tidy_target t \<Longrightarrow> clean_elems t = target_elems t"
  unfolding clean_elems_def foldl_target by (simp add: tidy_target_def foldl_normal)

lemma foldl_ups: "\<forall>c \<in> set acc. is_name c \<Longrightarrow>
    foldl (clean_step True) acc (replicate k ''..'') = drop k acc"
proof (induction k arbitrary: acc)
  case (Suc k)
  have "clean_step True acc ''..'' = drop 1 acc" using Suc.prems by (cases acc) (simp_all add: clean_step_root clean_step_pop)
  then show ?case using Suc.IH [of "drop 1 acc"] Suc.prems by (cases acc) auto
qed simp

lemma clean_elems_relative:
  assumes "\<forall>c \<in> set p. is_name c" "target_elems t = replicate k ''..'' @ ns" "\<forall>c \<in> set ns. is_name c"
  shows "clean_elems (render_path True p @ slash # t) = take (length p - k) p @ ns"
proof -
  have "foldl (clean_step True) [] (split_on slash (render_path True p)) = rev p"
    using clean_elems_render [of True p] assms(1) is_rooted_render [of True p] by (simp add: clean_elems_def normal_elems_names rev_swap)
  then have "clean_elems (render_path True p @ slash # t) = rev (foldl (clean_step True) (rev p) (target_elems t))"
    using is_rooted_render [of True p] assms(1)
    by (simp add: clean_elems_def split_on_append normal_elems_names foldl_target [symmetric]) (simp add: render_path_def)
  also have "foldl (clean_step True) (rev p) (target_elems t) = rev ns @ drop k (rev p)"
    using foldl_ups [of "rev p" k] foldl_names [OF assms(3), of True "drop k (rev p)"] assms(1) by (simp add: assms(2))
  finally show ?thesis by (simp add: rev_drop)
qed

lemma path_dir_abs:
  assumes "\<forall>c \<in> set (p @ [c]). is_name c"
  shows "path_dir (render_path True (p @ [c])) = render_path True p"
proof -
  have c: "slash \<notin> set c" using assms is_nameD(4) by simp
  have n: "\<forall>c \<in> set p. is_name c" using assms by simp
  show ?thesis
  proof (cases "p = []")
    case True
    then have "path_dirpart (render_path True (p @ [c])) = [slash]"
      using c by (simp add: path_dirpart_def render_path_def dropWhile_append)
    moreover have "path_clean [slash] = [slash]" by code_simp
    ultimately show ?thesis using True by (simp add: path_dir_def render_path_def)
  next
    case False
    have "render_path True (p @ [c]) = render_path True p @ slash # c" using False by (simp add: render_path_def join_with_snoc)
    then have "path_dirpart (render_path True (p @ [c])) = render_path True p @ [slash]"
      using c by (simp add: path_dirpart_def dropWhile_append)
    moreover have "render_path True p \<noteq> []" by (simp add: render_path_def)
    ultimately show ?thesis
      using clean_elems_trailing [of "render_path True p"] render_abs_elems [OF n] by (simp add: path_dir_def path_clean_def)
  qed
qed

lemma fp_join_name: "\<forall>c \<in> set (p @ [c]). is_name c \<Longrightarrow> fp_join [render_path True p, c] = render_path True (p @ [c])"
  using fp_join_names [of "render_path True p" "[c]"] render_abs_elems [of p] by (simp add: render_path_def)

lemma fp_join_rest: "rest \<noteq> [] \<Longrightarrow> \<forall>c \<in> set rest. is_name c \<Longrightarrow> fp_join rest = join_with slash rest"
proof -
  assume r: "rest \<noteq> []" "\<forall>c \<in> set rest. is_name c"
  have n: "normal_elems False rest" using r(2) by (intro normal_elemsI [of _ 0 rest]) auto
  obtain c cs where e: "rest = c # cs" "c \<noteq> []" using r is_nameD(1) by (cases rest) auto
  have "path_clean (join_with slash rest) = join_with slash rest"
    using r clean_elems_render [OF n] is_rooted_render [OF n] by (simp add: path_clean_def render_path_def)
  then show ?thesis using e by simp
qed

text \<open>Where the daemon restarts after a link at \<open>p @ [c]\<close>: at the elements the kernel continues with.\<close>

definition restart_elems :: "string list \<Rightarrow> string \<Rightarrow> string list" where
  "restart_elems p t = (if is_rooted t then clean_elems t else clean_elems (render_path True p @ slash # t))"

lemma restart_names: "\<forall>c \<in> set (restart_elems p t). is_name c"
  using clean_elems_abs_names [of t] clean_elems_abs_names [of "render_path True p @ slash # t"]
  by (auto simp: restart_elems_def render_path_def)

lemma expand_elems:
  assumes "os_Readlink fs (render_path True (p @ [c])) = Inr t" "\<forall>c \<in> set (p @ [c]). is_name c" "\<forall>c \<in> set rest. is_name c"
  shows "\<exists>x. expandSymlinkTarget fs (render_path True (p @ [c])) rest = Inr x \<and> path_clean x = render_path True (restart_elems p t @ rest)"
proof -
  let ?x = "if \<not> is_abs t then fp_join [render_path True p, t] else t"
  have r0: "render_path True p \<noteq> []" "is_rooted (render_path True p)" by (simp_all add: render_path_def)
  have x: "is_rooted ?x" "clean_elems ?x = restart_elems p t" "?x \<noteq> []"
    using r0 by (auto simp: is_abs_def restart_elems_def)
  show ?thesis
  proof (cases "rest = []")
    case True
    then have "expandSymlinkTarget fs (render_path True (p @ [c])) rest = Inr ?x"
      using assms(1) path_dir_abs [OF assms(2)] by (simp add: expandSymlinkTarget_def)
    moreover have "path_clean ?x = render_path True (restart_elems p t @ rest)" using x True by (simp add: path_clean_def)
    ultimately show ?thesis by blast
  next
    case False
    then have "expandSymlinkTarget fs (render_path True (p @ [c])) rest = Inr (fp_join [?x, join_with slash rest])"
      using False assms(1) path_dir_abs [OF assms(2)] fp_join_rest [OF False assms(3)]
      by (simp add: expandSymlinkTarget_def Let_def del: fp_join.simps)
    moreover have "fp_join [?x, join_with slash rest] = render_path True (restart_elems p t @ rest)"
      using fp_join_names [OF x(3) False assms(3)] x by simp
    moreover have "path_clean (render_path True (restart_elems p t @ rest)) = render_path True (restart_elems p t @ rest)"
      using render_abs_elems [of "restart_elems p t @ rest"] restart_names [of p t] assms(3) by auto
    ultimately show ?thesis by metis
  qed
qed

lemma restart_resolves:
  assumes "dirs_to n p" "\<forall>c \<in> set p. is_name c" "tidy_target t" "kind_at n [] = Some KDir"
    and "resolve l n (if is_rooted t then [] else p) (split_on slash t @ rest) True = Inr q"
  shows "resolve l n [] (restart_elems p t @ rest) True = Inr q"
proof -
  have d: "resolve l n (if is_rooted t then [] else p) (target_elems t @ rest) True = Inr q"
    using resolves_drops [OF resolve_resolves [OF assms(5)] TrueI drops_filter] by (simp add: target_elems_def)
  show ?thesis
  proof (cases "is_rooted t")
    case True
    then show ?thesis using d clean_elems_tidy_abs [OF True assms(3)] by (simp add: restart_elems_def)
  next
    case False
    have "normal_elems False (target_elems t)" using assms(3) False by (simp add: tidy_target_def)
    then obtain k ns where e: "target_elems t = replicate k ''..'' @ ns" "\<And>c. c \<in> set ns \<Longrightarrow> is_name c"
      by (rule normal_elemsE) blast
    let ?u = "take (length p - k) p"
    have u: "dirs_to n ?u" "\<forall>c \<in> set ?u. is_name c" using assms(1,2) dirs_to_take by (auto dest: in_set_takeD)
    have "resolve l n ?u (ns @ rest) True = Inr q" using d False resolve_up [OF assms(1)] e(1) by simp
    then have "resolve l n [] (?u @ ns @ rest) True = Inr q" using resolve_down [OF u] by simp
    then show ?thesis using clean_elems_relative [OF assms(2) e(1)] e(2) False by (simp add: restart_elems_def)
  qed
qed

section \<open>The daemon's resolution agrees with the kernel's\<close>

definition no_enoent_faults :: "osfs \<Rightarrow> bool" where
  "no_enoent_faults fs = (\<forall>op p. fs_fault fs op p \<noteq> Some OS_ENOENT)"

lemma stat_at:
  assumes "dirs_to (fs_root fs) p" "\<forall>c \<in> set (p @ [c]). is_name c"
  shows "os_stat_node op False fs (render_path True (p @ [c])) =
    (case fs_fault fs op (render_path True (p @ [c])) of
       Some e \<Rightarrow> Inl (PathError op (render_path True (p @ [c])) e)
     | None \<Rightarrow> (case fget (fs_root fs) (p @ [c]) of
                 None \<Rightarrow> Inl (PathError op (render_path True (p @ [c])) OS_ENOENT) | Some x \<Rightarrow> Inr x))"
proof -
  have ok: "disk_ok fs" using assms(1) unfolding dirs_to_def by (metis take0)
  have c: "c \<noteq> []" "c \<noteq> ''.''" "c \<noteq> ''..''" using assms(2) is_nameD [of c] by simp_all
  have "resolve kernel_links (fs_root fs) [] (p @ [c]) False = Inr (p @ [c])"
    using resolve_down [OF assms(1), of kernel_links "[c]" False] assms(2) c dirs_to_self [OF assms(1)]
    by (auto simp: resolve_Cons split: option.split kind.split)
  then have "os_resolve fs (render_path True (p @ [c])) False = Inr (p @ [c])" using os_resolve_render [OF assms(2) ok] by simp
  then show ?thesis by (simp add: os_stat_node_def os_lookup_def split: option.split)
qed

lemma stat_below_file:
  assumes "dirs_to (fs_root fs) p" "\<forall>c \<in> set (p @ [f, c]). is_name c" "kind_at (fs_root fs) (p @ [f]) = Some KFile" "no_enoent_faults fs"
  shows "\<exists>e. os_stat_node op False fs (render_path True (p @ [f, c])) = Inl e \<and> \<not> is_not_exist e"
proof -
  have ok: "disk_ok fs" using assms(1) unfolding dirs_to_def by (metis take0)
  have n: "f \<noteq> []" "f \<noteq> ''.''" "f \<noteq> ''..''" using assms(2) is_nameD [of f] by simp_all
  have "resolve kernel_links (fs_root fs) [] (p @ [f, c]) False = Inl OS_ENOTDIR"
    using resolve_down [OF assms(1), of kernel_links "[f, c]" False] assms(2,3) n dirs_to_self [OF assms(1)]
    by (simp add: resolve_Cons)
  then have "os_resolve fs (render_path True (p @ [f, c])) False = Inl OS_ENOTDIR" using os_resolve_render [OF assms(2) ok] by simp
  then show ?thesis using assms(4) by (auto simp: os_stat_node_def os_lookup_def no_enoent_faults_def split: option.split)
qed

definition pass_agrees :: "fnode \<Rightarrow> nat \<Rightarrow> string list \<Rightarrow> go_err + pass_result \<Rightarrow> bool" where
  "pass_agrees n l q r =
     (case r of
        Inl e \<Rightarrow> \<not> is_not_exist e
      | Inr (Resolved s) \<Rightarrow> s = render_path True q
      | Inr (Restart s) \<Rightarrow> \<exists>l' es. l = Suc l' \<and> (\<forall>c \<in> set es. is_name c) \<and> s = render_path True es \<and> resolve l' n [] es True = Inr q)"

lemma info_kind: "oi_islink (node_info fs x) \<longleftrightarrow> (\<exists>t. node_kind x = KLink t)"
  by (cases x) simp_all

lemma pass_sound:
  assumes d: "dirs_to (fs_root fs) p" and n: "\<forall>c \<in> set (p @ parts). is_name c" and t: "tidy_links (fs_root fs)" "no_enoent_faults fs"
    and f: "followFinalSymlink opts" and r: "resolve l (fs_root fs) p parts True = Inr q"
    and q: "fget (fs_root fs) q \<noteq> None \<or> allowMissingLeaf opts"
  shows "pass_agrees (fs_root fs) l q (pass_loop fs opts (render_path True p) parts)"
  using d n r
proof (induction parts arbitrary: p)
  case Nil
  then show ?case by (simp add: pass_agrees_def)
next
  case (Cons c rest)
  let ?n = "fs_root fs" and ?p = "render_path True (p @ [c])"
  have nm: "\<forall>c \<in> set (p @ [c]). is_name c" "\<forall>c \<in> set rest. is_name c" "\<forall>c \<in> set p. is_name c" using Cons.prems(2) by auto
  have cn: "c \<noteq> []" "c \<noteq> ''.''" "c \<noteq> ''..''" using nm(1) is_nameD [of c] by simp_all
  have ok: "kind_at ?n [] = Some KDir" using Cons.prems(1) unfolding dirs_to_def by (metis take0)
  note st = stat_at [OF Cons.prems(1) nm(1)]
  have nx: "fp_join [render_path True p, c] = ?p" using fp_join_name [OF nm(1)] .
  show ?case
  proof (cases "fs_fault fs ''lstat'' ?p")
    case (Some e)
    then have "os_Lstat fs ?p = Inl (PathError ''lstat'' ?p e)" "e \<noteq> OS_ENOENT"
      using st t(2) by (auto simp: os_Lstat_def no_enoent_faults_def)
    then show ?thesis using nx by (simp add: lstatActionPath_def Let_def pass_agrees_def)
  next
    case nf: None
    show ?thesis
    proof (cases "fget ?n (p @ [c])")
      case None
      have l: "os_Lstat fs ?p = Inl (PathError ''lstat'' ?p OS_ENOENT)" using st nf None by (simp add: os_Lstat_def)
      have "rest = []" "q = p @ [c]"
        using Cons.prems(3) cn dirs_to_self [OF Cons.prems(1)] None by (auto simp: resolve_Cons kind_at_def split: if_splits)
      then show ?thesis using nx l q None by (simp add: lstatActionPath_def Let_def pass_agrees_def)
    next
      case (Some x)
      have l: "lstatActionPath fs ?p (rest = []) (allowMissingLeaf opts) = Inr (Some (node_info fs x))"
        using st nf Some by (simp add: os_Lstat_def lstatActionPath_def)
      have k: "kind_at ?n (p @ [c]) = Some (node_kind x)" using Some by (simp add: kind_at_def)
      show ?thesis
      proof (cases x)
        case (FLink tg m tm)
        obtain l' where l': "l = Suc l'" "resolve l' ?n (if is_rooted tg then [] else p) (split_on slash tg @ rest) True = Inr q"
          using Cons.prems(3) cn dirs_to_self [OF Cons.prems(1)] k FLink by (auto simp: resolve_Cons split: nat.splits)
        have tidy: "tidy_target tg" using t(1) k FLink by (auto simp: tidy_links_def)
        have res: "resolve l' ?n [] (restart_elems p tg @ rest) True = Inr q"
          using restart_resolves [OF Cons.prems(1) nm(3) tidy ok l'(2)] .
        have sf: "shouldFollowSymlink (node_info fs x) (rest = []) (followFinalSymlink opts)"
          using f FLink by (simp add: shouldFollowSymlink_def)
        show ?thesis
        proof (cases "fs_fault fs ''readlink'' ?p")
          case rf: (Some e)
          then have "os_Readlink fs ?p = Inl (PathError ''readlink'' ?p e)" "e \<noteq> OS_ENOENT"
            using st t(2) by (auto simp: os_Readlink_def no_enoent_faults_def)
          then show ?thesis using nx l sf by (simp add: Let_def expandSymlinkTarget_def pass_agrees_def)
        next
          case None
          then have "os_Readlink fs ?p = Inr tg" using st Some FLink by (simp add: os_Readlink_def)
          then obtain y where "expandSymlinkTarget fs ?p rest = Inr y" "path_clean y = render_path True (restart_elems p tg @ rest)"
            using expand_elems [OF _ nm(1,2)] by blast
          then show ?thesis
            using nx l sf l'(1) res restart_names [of p tg] nm(2)
            by (auto simp: Let_def pass_agrees_def intro!: exI [of _ "restart_elems p tg @ rest"])
        qed
      next
        case (FDir es m tm)
        have d': "dirs_to ?n (p @ [c])" using Cons.prems(1) k FDir by (simp add: dirs_to_snoc)
        have "resolve l ?n (p @ [c]) rest True = Inr q"
          using Cons.prems(3) cn dirs_to_self [OF Cons.prems(1)] k FDir by (simp add: resolve_Cons)
        then have "pass_agrees ?n l q (pass_loop fs opts ?p rest)" using Cons.IH [OF d'] Cons.prems(2) by simp
        then show ?thesis using nx l FDir by (simp add: Let_def shouldFollowSymlink_def)
      next
        case (FFile b m tm)
        have res: "resolve l ?n (p @ [c]) rest True = Inr q"
          using Cons.prems(3) cn dirs_to_self [OF Cons.prems(1)] k FFile by (simp add: resolve_Cons)
        then have "rest = []" using k FFile by (cases rest) (auto simp: resolve_Cons)
        then show ?thesis using nx l FFile res by (simp add: Let_def shouldFollowSymlink_def pass_agrees_def)
      qed
    qed
  qed
qed

lemma splitAbsPath_render: "\<forall>c \<in> set es. is_name c \<Longrightarrow> splitAbsPath (render_path True es) = ([slash], es)"
proof -
  assume n: "\<forall>c \<in> set es. is_name c"
  have "trim_prefix (render_path True es) [slash] = join_with slash es" by (simp add: render_path_def trim_prefix_def)
  moreover have "split_on slash (join_with slash es) = es" if "es \<noteq> []" using that n is_nameD(4) by (intro split_join) auto
  moreover have "join_with slash es = [] \<longleftrightarrow> es = []"
  proof -
    have "[] \<notin> set es" using n is_nameD(1) by blast
    then show ?thesis by auto
  qed
  ultimately show ?thesis using render_abs_elems [OF n] by (simp add: splitAbsPath_def Let_def)
qed

lemma depth_sound:
  assumes t: "tidy_links (fs_root fs)" "no_enoent_faults fs" "disk_ok fs" "followFinalSymlink opts"
    and q: "fget (fs_root fs) q \<noteq> None \<or> allowMissingLeaf opts"
  shows "\<forall>c \<in> set es. is_name c \<Longrightarrow> resolve l (fs_root fs) [] es True = Inr q \<Longrightarrow>
    (case depth_loop m fs opts absp (render_path True es) of Inl e \<Rightarrow> \<not> is_not_exist e | Inr s \<Rightarrow> s = render_path True q)"
proof (induction m arbitrary: l es)
  case (Suc m)
  have d: "dirs_to (fs_root fs) []" using t(3) by (simp add: dirs_to_Nil)
  have r: "render_path True [] = [slash]" by (simp add: render_path_def)
  have "pass_agrees (fs_root fs) l q (pass_loop fs opts (render_path True []) es)"
    using pass_sound [OF d _ t(1,2,4) Suc.prems(2) q] Suc.prems(1) by simp
  then have a: "pass_agrees (fs_root fs) l q (resolveActionTargetPass fs opts (render_path True es))"
    by (simp add: resolveActionTargetPass_def splitAbsPath_render [OF Suc.prems(1)] r)
  show ?case
  proof (cases "resolveActionTargetPass fs opts (render_path True es)")
    case (Inl e)
    then show ?thesis using a by (simp add: pass_agrees_def)
  next
    case (Inr x)
    show ?thesis
    proof (cases x)
      case (Resolved s)
      then show ?thesis using a Inr by (simp add: pass_agrees_def)
    next
      case (Restart s)
      then obtain l' es' where "\<forall>c \<in> set es'. is_name c" "s = render_path True es'" "resolve l' (fs_root fs) [] es' True = Inr q"
        using a Inr by (auto simp: pass_agrees_def)
      then show ?thesis using Suc.IH Inr Restart by simp
    qed
  qed
qed simp

lemma is_nameI: "c \<noteq> [] \<Longrightarrow> c \<noteq> ''.'' \<Longrightarrow> c \<noteq> ''..'' \<Longrightarrow> slash \<notin> set c \<Longrightarrow> is_name c"
  unfolding is_name_def by blast

lemma resolves_names:
  "resolves n f l cur cs q \<Longrightarrow> \<forall>c \<in> set cur. is_name c \<Longrightarrow> \<forall>c \<in> set cs. slash \<notin> set c \<Longrightarrow> \<forall>c \<in> set q. is_name c"
proof (induction rule: resolves.induct)
  case (link cur c target cs l q)
  then show ?case using split_on_no_sep [of _ slash target] by (auto split: if_splits)
qed (auto intro: is_nameI dest: in_set_butlastD)

lemma resolve_abs_names: "resolve l n [] (split_on slash p) f = Inr q \<Longrightarrow> \<forall>c \<in> set q. is_name c"
  by (drule resolve_resolves, erule resolves_names) (auto dest: split_on_no_sep)

lemma sensitive_normalized: "isSensitivePath g f (normalizeRelativePath p) = isSensitivePath g f p"
proof (cases f)
  case (Some x)
  show ?thesis unfolding isSensitivePath_def Some sensitive_Match_iff normalizeRelativePath_elems clean_elems_normal ..
qed (simp add: isSensitivePath_def)

text \<open>What the check says about a path whose target the kernel finds.\<close>

lemma blocks_target:
  assumes t: "tidy_links (fs_root fs)" "no_enoent_faults fs" "disk_ok fs" "followFinalSymlink opts"
    and root: "is_abs root" "path_clean root = root" and a: "resolveWorkspacePath root rel = Inr absp"
    and q: "os_resolve fs absp True = Inr q" "fget (fs_root fs) q \<noteq> None \<or> allowMissingLeaf opts"
    and c: "fp_EvalSymlinks fs root = Inr croot" "prefix (clean_elems croot) q"
    and b: "blocksSensitivePath g fs opts root rel f = Inr False"
  shows "\<not> isSensitivePath g f rel \<and> \<not> isSensitivePath g f (rel_path (drop (length (clean_elems croot)) q))"
proof -
  obtain ns where ns: "absp = render_path True (clean_elems root @ ns)" "\<forall>c \<in> set ns. is_name c"
    by (rule resolveWorkspacePath_elems [OF a root])
  let ?es = "clean_elems root @ ns"
  have n: "\<forall>c \<in> set ?es. is_name c" using ns(2) clean_elems_abs_names root(1) by (auto simp: is_abs_def)
  have r: "resolve kernel_links (fs_root fs) [] ?es True = Inr q" using q(1) os_resolve_render [OF n t(3)] ns(1) by simp
  have pc: "path_clean absp = absp" using render_abs_elems [OF n] ns(1) by simp
  have D: "case resolveActionTargetAbs fs opts absp of Inl e \<Rightarrow> \<not> is_not_exist e | Inr s \<Rightarrow> s = render_path True q"
    using depth_sound [OF t(1,2,3,4) q(2) n r] ns(1) pc by (simp add: resolveActionTargetAbs_def)
  obtain cq where cq: "croot = render_path True cq" "resolve 255 (fs_root fs) [] (split_on slash root) True = Inr cq"
    using c(1) by (auto simp: fp_EvalSymlinks_def split: option.splits sum.splits os_err.splits if_splits)
  have cr: "is_rooted croot" "clean_elems croot = cq" using render_abs_elems resolve_abs_names cq by auto
  have "\<forall>c \<in> set q. is_name c"
    using q(1) resolve_abs_names by (auto simp: os_resolve_def split: if_splits)
  then have qr: "is_rooted (render_path True q)" "clean_elems (render_path True q) = q" using render_abs_elems by simp_all
  have within: "IsWithin croot (render_path True q) = Inr True" using IsWithin_abs [OF cr(1) qr(1)] qr(2) c(2) by simp
  let ?d = "drop (length cq) q"
  have rel: "fp_rel croot (render_path True q) = Some (if q = cq then ''.'' else rel_path ?d)"
  proof (cases "q = cq")
    case True
    then show ?thesis using cq(1) by (simp add: fp_rel_def)
  next
    case False
    then have "path_clean croot \<noteq> path_clean (render_path True q)" using cr qr by (simp add: path_clean_eq_iff)
    then show ?thesis
      using fp_rel_abs [OF cr(1) qr(1)] drop_common_prefix [of cq q] c(2) cr(2) qr(2) False by (simp add: rel_path_def)
  qed
  have ns: "\<not> isSensitivePath g f rel" using b by (auto simp: blocksSensitivePath_def)
  obtain s where s: "resolveActionTargetAbs fs opts absp = Inr s"
    using b ns D a c(1) by (cases "resolveActionTargetAbs fs opts absp") (auto simp: blocksSensitivePath_def resolveActionTargetRel_def)
  then have "s = render_path True q" using D by simp
  then have "\<not> isSensitivePath g f (normalizeRelativePath (if q = cq then ''.'' else rel_path ?d))"
    using b ns a c(1) s within rel by (simp add: blocksSensitivePath_def resolveActionTargetRel_def)
  moreover have "normalizeRelativePath ''.'' = normalizeRelativePath []" by code_simp
  ultimately have "\<not> isSensitivePath g f (normalizeRelativePath (rel_path ?d))" by (cases "q = cq") (simp_all add: rel_path_def)
  then show ?thesis using ns cr(2) by (simp add: sensitive_normalized)
qed

section \<open>Properties\<close>


definition secret_opts :: handle_options where
  "secret_opts = demo_opts\<lparr>ho_filter := Some \<lparr>patterns = defaultSensitivePatterns\<rparr>\<rparr>"

definition demo_read :: read_req where
  "demo_read = \<lparr>rd_path = ''a'', rd_offset = 1, rd_length = 3\<rparr>"


definition untidy_disk :: osfs where
  "untidy_disk = demo_disk\<lparr>fs_root := FDir [(''w'', FDir
      [(''d'', FDir [(''.env'', FFile ''key'' 420 1), (''e'', FDir [] 493 1)] 493 1),
       (''l'', FLink ''d/e'' 511 1), (''x'', FLink ''l/../.env'' 511 1)] 493 1)] 493 1\<rparr>"

text \<open>The hypothesis on link targets is needed. The daemon cleans \<open>l/../.env\<close> before it follows \<open>l\<close>, the kernel
  follows \<open>l\<close> first; so a link with that target reads a dotenv file that the filter is meant to hide.\<close>

theorem untidy_links_leak:
  "handleRead star_glob secret_opts untidy_disk ''1'' (Some \<lparr>rd_path = ''x'', rd_offset = 0, rd_length = 0\<rparr>)
     = \<lparr>rp_id = ''1'', rp_success = True, rp_error = [], rp_result = ResContent ''key''\<rparr>
   \<and> os_resolve untidy_disk ''/w/x'' True = Inr [''w'', ''d'', ''.env'']
   \<and> isSensitivePath star_glob (ho_filter secret_opts) ''d/.env''"
  by (intro conjI; code_simp)

end
