(* ===== verification/Locker.thy ===== *)
theory Locker
  imports Safepath "HOL-Library.List_Lexorder" "HOL-Library.Char_ord"
begin

text \<open>
  The per-path lock of the daemon, \<open>src/pkg/syncer/locker.go\<close>. The map of entries, the reference count and the
  mutex of each entry are explicit; the sections under \<open>l.mu\<close> are atomic, and the goroutines that call \<open>Lock\<close>
  and \<open>LockMany\<close> interleave between them in a step relation. \<open>Lock p\<close> takes the same steps as \<open>LockMany [p]\<close>.
  Shown: mutual exclusion per path, no unlock of an unlocked mutex, no entry left behind, and no deadlock.
\<close>

section \<open>Definitions\<close>

record path_entry =
  refCount :: int
  mlocked :: bool

record path_locker =
  locks :: "(string \<times> nat) list"
  ents :: "nat \<Rightarrow> path_entry"
  nextEnt :: nat

definition newPathLocker :: path_locker where
  "newPathLocker = \<lparr>locks = [], ents = (\<lambda>_. \<lparr>refCount = 0, mlocked = False\<rparr>), nextEnt = 0\<rparr>"

text \<open>The first section of \<open>Lock\<close>: find or create the entry and count the caller.\<close>

definition lock_ref :: "string \<Rightarrow> path_locker \<Rightarrow> path_locker \<times> nat" where
  "lock_ref key l =
     (let (l, e) = (case map_of (locks l) key of
                      Some e \<Rightarrow> (l, e)
                    | None \<Rightarrow> (l\<lparr>locks := AList.update key (nextEnt l) (locks l),
                                 ents := (ents l)(nextEnt l := \<lparr>refCount = 0, mlocked = False\<rparr>),
                                 nextEnt := nextEnt l + 1\<rparr>, nextEnt l))
      in (l\<lparr>ents := (ents l)(e := (ents l e)\<lparr>refCount := refCount (ents l e) + 1\<rparr>)\<rparr>, e))"

text \<open>\<open>entry.mu.Lock()\<close> blocks while the mutex is held; \<open>entry.mu.Unlock()\<close> panics when it is not.\<close>

definition mutex_lock :: "nat \<Rightarrow> path_locker \<Rightarrow> path_locker option" where
  "mutex_lock e l =
     (if mlocked (ents l e) then None else Some (l\<lparr>ents := (ents l)(e := (ents l e)\<lparr>mlocked := True\<rparr>)\<rparr>))"

definition mutex_unlock :: "nat \<Rightarrow> path_locker \<Rightarrow> path_locker option" where
  "mutex_unlock e l =
     (if mlocked (ents l e) then Some (l\<lparr>ents := (ents l)(e := (ents l e)\<lparr>mlocked := False\<rparr>)\<rparr>) else None)"

text \<open>The last section of the release function.\<close>

definition unlock_ref :: "string \<Rightarrow> nat \<Rightarrow> path_locker \<Rightarrow> path_locker" where
  "unlock_ref key e l =
     (let l = l\<lparr>ents := (ents l)(e := (ents l e)\<lparr>refCount := refCount (ents l e) - 1\<rparr>)\<rparr>
      in if refCount (ents l e) = 0 then l\<lparr>locks := AList.delete key (locks l)\<rparr> else l)"

text \<open>The keys \<open>LockMany\<close> locks, in its order.\<close>

fun dedup_keys :: "string list \<Rightarrow> string list \<Rightarrow> string list \<Rightarrow> string list" where
  "dedup_keys seen keys [] = keys"
| "dedup_keys seen keys (p # ps) =
     (let key = ToSlash p in
      if key \<in> set seen then dedup_keys seen keys ps else dedup_keys (key # seen) (keys @ [key]) ps)"

definition lock_keys :: "string list \<Rightarrow> string list" where
  "lock_keys paths = sort (dedup_keys [] [] paths)"

subsection \<open>Goroutines\<close>

text \<open>A goroutine acquires the keys of its list in order, holds them, and releases them in reverse order;
  \<open>got\<close> is the stack of release functions.\<close>

datatype tpc =
  Idle
| Acq "string list" "(string \<times> nat) list"
| Wait string nat "string list" "(string \<times> nat) list"
| Hold "(string \<times> nat) list"
| Rel "(string \<times> nat) list"
| Drop string nat "(string \<times> nat) list"

record lsys =
  lk :: path_locker
  thr :: "tpc list"
  lpanic :: bool

inductive lstep :: "lsys \<Rightarrow> lsys \<Rightarrow> bool" where
  start: "i < length (thr s) \<Longrightarrow> thr s ! i = Idle \<Longrightarrow>
    lstep s (s\<lparr>thr := (thr s)[i := Acq (lock_keys ps) []]\<rparr>)"
| ref: "i < length (thr s) \<Longrightarrow> thr s ! i = Acq (k # ks) got \<Longrightarrow> lock_ref k (lk s) = (l, e) \<Longrightarrow>
    lstep s (s\<lparr>lk := l, thr := (thr s)[i := Wait k e ks got]\<rparr>)"
| acquire: "i < length (thr s) \<Longrightarrow> thr s ! i = Wait k e ks got \<Longrightarrow> mutex_lock e (lk s) = Some l \<Longrightarrow>
    lstep s (s\<lparr>lk := l, thr := (thr s)[i := Acq ks ((k, e) # got)]\<rparr>)"
| enter: "i < length (thr s) \<Longrightarrow> thr s ! i = Acq [] got \<Longrightarrow> lstep s (s\<lparr>thr := (thr s)[i := Hold got]\<rparr>)"
| leave: "i < length (thr s) \<Longrightarrow> thr s ! i = Hold got \<Longrightarrow> lstep s (s\<lparr>thr := (thr s)[i := Rel got]\<rparr>)"
| unlock: "i < length (thr s) \<Longrightarrow> thr s ! i = Rel ((k, e) # got) \<Longrightarrow> mutex_unlock e (lk s) = Some l \<Longrightarrow>
    lstep s (s\<lparr>lk := l, thr := (thr s)[i := Drop k e got]\<rparr>)"
| panic: "i < length (thr s) \<Longrightarrow> thr s ! i = Rel ((k, e) # got) \<Longrightarrow> mutex_unlock e (lk s) = None \<Longrightarrow>
    lstep s (s\<lparr>lpanic := True\<rparr>)"
| drop: "i < length (thr s) \<Longrightarrow> thr s ! i = Drop k e got \<Longrightarrow>
    lstep s (s\<lparr>lk := unlock_ref k e (lk s), thr := (thr s)[i := Rel got]\<rparr>)"
| finish: "i < length (thr s) \<Longrightarrow> thr s ! i = Rel [] \<Longrightarrow> lstep s (s\<lparr>thr := (thr s)[i := Idle]\<rparr>)"

definition linit :: "nat \<Rightarrow> lsys" where
  "linit n = \<lparr>lk = newPathLocker, thr = replicate n Idle, lpanic = False\<rparr>"

inductive lreach :: "nat \<Rightarrow> lsys \<Rightarrow> bool" for n where
  lreach_init: "lreach n (linit n)"
| lreach_step: "lreach n s \<Longrightarrow> lstep s s' \<Longrightarrow> lreach n s'"

section \<open>The invariant\<close>

text \<open>The entries a goroutine is counted in, and those whose mutex it holds.\<close>

fun got_of :: "tpc \<Rightarrow> (string \<times> nat) list" where
  "got_of Idle = []"
| "got_of (Acq ks got) = got"
| "got_of (Wait k e ks got) = got"
| "got_of (Hold got) = got"
| "got_of (Rel got) = got"
| "got_of (Drop k e got) = got"

fun refs_of :: "tpc \<Rightarrow> (string \<times> nat) list" where
  "refs_of (Wait k e ks got) = (k, e) # got"
| "refs_of (Drop k e got) = (k, e) # got"
| "refs_of pc = got_of pc"

text \<open>Keys are taken in ascending order.\<close>

fun keys_of :: "tpc \<Rightarrow> string list" where
  "keys_of (Acq ks got) = rev (map fst got) @ ks"
| "keys_of (Wait k e ks got) = rev (map fst got) @ k # ks"
| "keys_of pc = rev (map fst (refs_of pc))"

abbreviation ascending :: "string list \<Rightarrow> bool" where
  "ascending \<equiv> sorted_wrt (<)"

definition count_of :: "string \<times> nat \<Rightarrow> tpc list \<Rightarrow> int" where
  "count_of x pcs = int (length (filter (\<lambda>pc. x \<in> set (refs_of pc)) pcs))"

definition held :: "string \<times> nat \<Rightarrow> tpc list \<Rightarrow> bool" where
  "held x pcs = (\<exists>j < length pcs. x \<in> set (got_of (pcs ! j)))"

definition entry_ok :: "lsys \<Rightarrow> string \<Rightarrow> nat \<Rightarrow> bool" where
  "entry_ok s k e =
     (e < nextEnt (lk s) \<and> 0 < refCount (ents (lk s) e) \<and> refCount (ents (lk s) e) = count_of (k, e) (thr s)
      \<and> mlocked (ents (lk s) e) = held (k, e) (thr s))"

definition linv :: "lsys \<Rightarrow> bool" where
  "linv s =
     (\<not> lpanic s
      \<and> (\<forall>k e. map_of (locks (lk s)) k = Some e \<longrightarrow> entry_ok s k e)
      \<and> (\<forall>k k' e. map_of (locks (lk s)) k = Some e \<and> map_of (locks (lk s)) k' = Some e \<longrightarrow> k = k')
      \<and> (\<forall>i k e. i < length (thr s) \<and> (k, e) \<in> set (refs_of (thr s ! i)) \<longrightarrow> map_of (locks (lk s)) k = Some e)
      \<and> (\<forall>i j x. i < length (thr s) \<and> j < length (thr s) \<and> x \<in> set (got_of (thr s ! i)) \<and> x \<in> set (got_of (thr s ! j))
            \<longrightarrow> i = j)
      \<and> (\<forall>i < length (thr s). ascending (keys_of (thr s ! i))))"

lemma linvD:
  assumes "linv s"
  shows "\<not> lpanic s" "map_of (locks (lk s)) k = Some e \<Longrightarrow> entry_ok s k e"
    "map_of (locks (lk s)) k = Some e \<Longrightarrow> map_of (locks (lk s)) k' = Some e \<Longrightarrow> k = k'"
    "i < length (thr s) \<Longrightarrow> (k, e) \<in> set (refs_of (thr s ! i)) \<Longrightarrow> map_of (locks (lk s)) k = Some e"
    "i < length (thr s) \<Longrightarrow> j < length (thr s) \<Longrightarrow> x \<in> set (got_of (thr s ! i)) \<Longrightarrow> x \<in> set (got_of (thr s ! j)) \<Longrightarrow> i = j"
    "i < length (thr s) \<Longrightarrow> ascending (keys_of (thr s ! i))"
  using assms unfolding linv_def by blast+

lemma linvI:
  assumes "\<not> lpanic s" "\<And>k e. map_of (locks (lk s)) k = Some e \<Longrightarrow> entry_ok s k e"
    "\<And>k k' e. map_of (locks (lk s)) k = Some e \<Longrightarrow> map_of (locks (lk s)) k' = Some e \<Longrightarrow> k = k'"
    "\<And>i k e. i < length (thr s) \<Longrightarrow> (k, e) \<in> set (refs_of (thr s ! i)) \<Longrightarrow> map_of (locks (lk s)) k = Some e"
    "\<And>i j x. i < length (thr s) \<Longrightarrow> j < length (thr s) \<Longrightarrow> x \<in> set (got_of (thr s ! i)) \<Longrightarrow> x \<in> set (got_of (thr s ! j)) \<Longrightarrow> i = j"
    "\<And>i. i < length (thr s) \<Longrightarrow> ascending (keys_of (thr s ! i))"
  shows "linv s"
  using assms unfolding linv_def by blast

lemma got_refs: "set (got_of pc) \<subseteq> set (refs_of pc)"
  by (cases pc) auto

lemma count_of_upd:
  "i < length pcs \<Longrightarrow> count_of x (pcs[i := pc]) =
     count_of x pcs - (if x \<in> set (refs_of (pcs ! i)) then 1 else 0) + (if x \<in> set (refs_of pc) then 1 else 0)"
proof -
  assume i: "i < length pcs"
  have "count_of x pcs = count_of x (take i pcs @ pcs ! i # drop (Suc i) pcs)" using id_take_nth_drop [OF i] by simp
  then show ?thesis by (simp add: upd_conv_take_nth_drop [OF i] count_of_def)
qed

lemma count_of_pos: "i < length pcs \<Longrightarrow> x \<in> set (refs_of (pcs ! i)) \<Longrightarrow> 0 < count_of x pcs"
  using nth_mem [of i pcs] by (auto simp: count_of_def filter_empty_conv)

lemma heldI: "j < length pcs \<Longrightarrow> x \<in> set (got_of (pcs ! j)) \<Longrightarrow> held x pcs"
  unfolding held_def by blast

lemma held_upd:
  assumes i: "i < length pcs"
  shows "held x (pcs[i := pc]) \<longleftrightarrow> x \<in> set (got_of pc) \<or> (\<exists>j < length pcs. j \<noteq> i \<and> x \<in> set (got_of (pcs ! j)))" (is "?l \<longleftrightarrow> ?r")
proof
  assume ?l
  then obtain j where j: "j < length pcs" "x \<in> set (got_of (pcs[i := pc] ! j))" unfolding held_def by auto
  then show ?r by (cases "j = i") auto
next
  assume ?r
  then show ?l
  proof
    assume "x \<in> set (got_of pc)"
    then show ?thesis using i by (intro heldI [of i]) simp_all
  next
    assume "\<exists>j < length pcs. j \<noteq> i \<and> x \<in> set (got_of (pcs ! j))"
    then obtain j where "j < length pcs" "j \<noteq> i" "x \<in> set (got_of (pcs ! j))" by blast
    then show ?thesis by (intro heldI [of j]) simp_all
  qed
qed

lemma held_same:
  assumes "i < length pcs" "set (got_of pc) = set (got_of (pcs ! i))"
  shows "held x (pcs[i := pc]) = held x pcs"
  unfolding held_upd [OF assms(1)] assms(2) using assms(1) unfolding held_def by metis

text \<open>A step that changes neither the counted nor the held entries of a goroutine.\<close>

lemma linv_same:
  assumes "linv s" "i < length (thr s)" "refs_of pc = refs_of (thr s ! i)" "got_of pc = got_of (thr s ! i)" "ascending (keys_of pc)"
  shows "linv (s\<lparr>thr := (thr s)[i := pc]\<rparr>)"
proof -
  let ?s = "s\<lparr>thr := (thr s)[i := pc]\<rparr>"
  have n: "refs_of (thr ?s ! j) = refs_of (thr s ! j)" "got_of (thr ?s ! j) = got_of (thr s ! j)" for j
    using assms by (cases "j = i"; simp)+
  have "entry_ok ?s k e" if "map_of (locks (lk s)) k = Some e" for k e
    using linvD(2) [OF assms(1) that] assms(2-4) by (simp add: entry_ok_def count_of_upd held_same)
  then show ?thesis
    using linvD [OF assms(1)] n assms(2,5) by (intro linvI) (auto simp: nth_list_update)
qed

text \<open>Taking a reference.\<close>

lemma lock_ref_cases:
  assumes "linv s" "lock_ref k (lk s) = (l, e)"
  obtains (old) "map_of (locks (lk s)) k = Some e" "locks l = locks (lk s)" "nextEnt l = nextEnt (lk s)"
      "ents l = (ents (lk s))(e := (ents (lk s) e)\<lparr>refCount := refCount (ents (lk s) e) + 1\<rparr>)"
    | (new) "map_of (locks (lk s)) k = None" "locks l = AList.update k e (locks (lk s))" "e = nextEnt (lk s)"
      "nextEnt l = e + 1" "ents l = (ents (lk s))(e := \<lparr>refCount = 1, mlocked = False\<rparr>)"
proof (cases "map_of (locks (lk s)) k")
  case None
  show ?thesis by (rule new) (use assms(2) None in \<open>auto simp: lock_ref_def Let_def\<close>)
next
  case (Some e')
  show ?thesis by (rule old) (use assms(2) Some in \<open>auto simp: lock_ref_def Let_def\<close>)
qed

lemma linv_ref:
  assumes inv: "linv s" and i: "i < length (thr s)" "thr s ! i = Acq (k # ks) got" and l: "lock_ref k (lk s) = (l, e)"
  shows "linv (s\<lparr>lk := l, thr := (thr s)[i := Wait k e ks got]\<rparr>)" (is "linv ?s")
proof -
  note D = linvD [OF inv]
  have asc: "ascending (rev (map fst got) @ k # ks)" using D(6) [OF i(1)] i(2) by simp
  then have kg: "k \<notin> fst ` set got" by (auto simp: sorted_wrt_append)
  have cnt: "count_of x (thr ?s) = count_of x (thr s) + (if x = (k, e) then 1 else 0)" for x
    using kg i by (force simp: count_of_upd)
  have g: "got_of (thr ?s ! j) = got_of (thr s ! j)" for j using i by (cases "j = i") simp_all
  have h: "held x (thr ?s) = held x (thr s)" for x using i by (simp add: held_same)
  have keep: "map_of (locks l) k' = Some e'" if "map_of (locks (lk s)) k' = Some e'" for k' e'
    using that by (rule_tac lock_ref_cases [OF inv l]) auto
  have mk: "map_of (locks l) k = Some e" by (rule lock_ref_cases [OF inv l]) simp_all
  have e: "entry_ok ?s k' e'" if m: "map_of (locks l) k' = Some e'" for k' e'
  proof (rule lock_ref_cases [OF inv l])
    assume o: "map_of (locks (lk s)) k = Some e" "locks l = locks (lk s)" "nextEnt l = nextEnt (lk s)"
      "ents l = (ents (lk s))(e := (ents (lk s) e)\<lparr>refCount := refCount (ents (lk s) e) + 1\<rparr>)"
    then have "entry_ok s k' e'" "e' = e \<longleftrightarrow> k' = k" using D(2,3) m by auto
    then show ?thesis using o h cnt by (auto simp: entry_ok_def)
  next
    assume o: "map_of (locks (lk s)) k = None" "locks l = AList.update k e (locks (lk s))" "e = nextEnt (lk s)"
      "nextEnt l = e + 1" "ents l = (ents (lk s))(e := \<lparr>refCount = 1, mlocked = False\<rparr>)"
    show ?thesis
    proof (cases "k' = k")
      case True
      have none: "(k, e) \<notin> set (refs_of (thr s ! j))" if "j < length (thr s)" for j using D(4) [OF that] o(1) by auto
      then have "count_of (k, e) (thr s) = 0" by (auto simp: count_of_def filter_empty_conv in_set_conv_nth)
      moreover have "\<not> held (k, e) (thr s)" unfolding held_def using none got_refs by blast
      ultimately show ?thesis using True m o h cnt by (simp add: entry_ok_def)
    next
      case False
      then have "map_of (locks (lk s)) k' = Some e'" using m o by simp
      then have "entry_ok s k' e'" by (rule D(2))
      then show ?thesis using False o h cnt by (auto simp: entry_ok_def)
    qed
  qed
  have inj: "k1 = k2" if "map_of (locks l) k1 = Some e'" "map_of (locks l) k2 = Some e'" for k1 k2 e'
    by (rule lock_ref_cases [OF inv l]) (use that D(2,3) in \<open>fastforce simp: entry_ok_def split: if_splits\<close>)+
  have r: "map_of (locks l) k' = Some e'" if "j < length (thr ?s)" "(k', e') \<in> set (refs_of (thr ?s ! j))" for j k' e'
    using that keep mk D(4) [of j k' e'] D(4) [of i k' e'] i by (cases "j = i") auto
  have x: "a = b" if "a < length (thr ?s)" "b < length (thr ?s)" "x \<in> set (got_of (thr ?s ! a))" "x \<in> set (got_of (thr ?s ! b))" for a b x
    using that D(5) unfolding g by simp
  have a: "ascending (keys_of (thr ?s ! j))" if "j < length (thr ?s)" for j
    using that D(6) [of j] asc i by (cases "j = i") simp_all
  have lk: "lk ?s = l" "\<not> lpanic ?s" using D(1) by simp_all
  show ?thesis
  proof (rule linvI [OF lk(2) _ _ _ x a], goal_cases)
    case (1 k e) then show ?case unfolding lk(1) by (rule e)
  next
    case (2 k k' e) then show ?case unfolding lk(1) by (rule inj)
  next
    case (3 j k e) then show ?case unfolding lk(1) by (rule r)
  qed
qed

text \<open>Taking and giving back the mutex.\<close>

lemma linvI_mutex:
  assumes "linv s" "\<And>k e. map_of (locks l) k = Some e \<Longrightarrow> entry_ok (s\<lparr>lk := l, thr := pcs\<rparr>) k e" "locks l = locks (lk s)"
    "\<And>j. refs_of (thr (s\<lparr>lk := l, thr := pcs\<rparr>) ! j) = refs_of (thr s ! j)"
    "\<And>a b x. a < length (thr s) \<Longrightarrow> b < length (thr s) \<Longrightarrow> x \<in> set (got_of (thr (s\<lparr>lk := l, thr := pcs\<rparr>) ! a)) \<Longrightarrow>
       x \<in> set (got_of (thr (s\<lparr>lk := l, thr := pcs\<rparr>) ! b)) \<Longrightarrow> a = b"
    "\<And>j. j < length (thr s) \<Longrightarrow> ascending (keys_of (thr (s\<lparr>lk := l, thr := pcs\<rparr>) ! j))" "length pcs = length (thr s)"
  shows "linv (s\<lparr>lk := l, thr := pcs\<rparr>)"
proof (rule linvI)
  note D = linvD [OF assms(1)]
  show "\<not> lpanic (s\<lparr>lk := l, thr := pcs\<rparr>)" using D(1) by simp
  show "k = k'" if "map_of (locks (lk (s\<lparr>lk := l, thr := pcs\<rparr>))) k = Some e" "map_of (locks (lk (s\<lparr>lk := l, thr := pcs\<rparr>))) k' = Some e" for k k' e
    using that D(3) assms(3) by simp
qed (use linvD(4) [OF assms(1)] assms(2-) in simp_all)

lemma linv_acquire:
  assumes inv: "linv s" and i: "i < length (thr s)" "thr s ! i = Wait k e ks got" and l: "mutex_lock e (lk s) = Some l"
  shows "linv (s\<lparr>lk := l, thr := (thr s)[i := Acq ks ((k, e) # got)]\<rparr>)" (is "linv ?s")
proof -
  note D = linvD [OF inv]
  have L: "\<not> mlocked (ents (lk s) e)" "l = (lk s)\<lparr>ents := (ents (lk s))(e := (ents (lk s) e)\<lparr>mlocked := True\<rparr>)\<rparr>"
    using l by (auto simp: mutex_lock_def split: if_splits)
  have mk: "map_of (locks (lk s)) k = Some e" using D(4) [OF i(1), of k e] i(2) by simp
  then have nh: "\<not> held (k, e) (thr s)" using D(2) [of k e] L(1) by (simp add: entry_ok_def)
  then have free: "(k, e) \<notin> set (got_of (thr s ! j))" if "j < length (thr s)" for j
    using that heldI by blast
  have h: "held x (thr ?s) \<longleftrightarrow> held x (thr s) \<or> x = (k, e)" for x
    using i by (simp add: held_upd) (auto simp: held_def)
  have cnt: "count_of x (thr ?s) = count_of x (thr s)" for x using i by (simp add: count_of_upd)
  have g: "set (got_of (thr ?s ! j)) = (if j = i then insert (k, e) (set (got_of (thr s ! j))) else set (got_of (thr s ! j)))" for j
    using i by simp
  have r: "refs_of (thr ?s ! j) = refs_of (thr s ! j)" for j using i by (cases "j = i") simp_all
  have e: "entry_ok ?s k' e'" if m: "map_of (locks (lk s)) k' = Some e'" for k' e'
  proof -
    have "entry_ok s k' e'" "e' = e \<longleftrightarrow> k' = k" using D(2,3) m mk by auto
    then show ?thesis using L h cnt by (auto simp: entry_ok_def)
  qed
  have excl: "a = b" if "a < length (thr s)" "b < length (thr s)" "x \<in> set (got_of (thr ?s ! a))" "x \<in> set (got_of (thr ?s ! b))" for a b x
    using that(3,4) D(5) [OF that(1,2), of x] free [OF that(1)] free [OF that(2)] unfolding g by (auto split: if_splits)
  have a: "ascending (keys_of (thr ?s ! j))" if "j < length (thr s)" for j
    using that D(6) [of j] D(6) [OF i(1)] i by (cases "j = i") simp_all
  have ll: "locks l = locks (lk s)" using L by simp
  show ?thesis by (rule linvI_mutex [OF inv _ ll r excl a]) (use e ll in simp_all)
qed

lemma linv_unlock:
  assumes inv: "linv s" and i: "i < length (thr s)" "thr s ! i = Rel ((k, e) # got)" and l: "mutex_unlock e (lk s) = Some l"
  shows "linv (s\<lparr>lk := l, thr := (thr s)[i := Drop k e got]\<rparr>)" (is "linv ?s")
proof -
  note D = linvD [OF inv]
  have L: "l = (lk s)\<lparr>ents := (ents (lk s))(e := (ents (lk s) e)\<lparr>mlocked := False\<rparr>)\<rparr>"
    using l by (auto simp: mutex_unlock_def split: if_splits)
  have mk: "map_of (locks (lk s)) k = Some e" using D(4) [OF i(1), of k e] i(2) by simp
  have asc: "ascending (rev (map fst got) @ [k])" using D(6) [OF i(1)] i(2) by simp
  then have kg: "(k, e) \<notin> set got" by (force simp: sorted_wrt_append)
  have cnt: "count_of x (thr ?s) = count_of x (thr s)" for x using i by (simp add: count_of_upd)
  have g: "set (got_of (thr ?s ! j)) = set (got_of (thr s ! j)) - (if j = i then {(k, e)} else {})" for j
    using i kg by auto
  have r: "refs_of (thr ?s ! j) = refs_of (thr s ! j)" for j using i by (cases "j = i") simp_all
  have only: "j = i" if "j < length (thr s)" "(k, e) \<in> set (got_of (thr s ! j))" for j
    using D(5) [OF that(1) i(1) that(2)] i(2) by simp
  have h: "held x (thr ?s) \<longleftrightarrow> held x (thr s) \<and> x \<noteq> (k, e)" for x
  proof
    assume "held x (thr ?s)"
    then obtain j where "j < length (thr s)" "x \<in> set (got_of (thr ?s ! j))" by (auto simp: held_def)
    then show "held x (thr s) \<and> x \<noteq> (k, e)" unfolding g using only heldI by (cases "j = i") auto
  next
    assume a: "held x (thr s) \<and> x \<noteq> (k, e)"
    then obtain j where "j < length (thr s)" "x \<in> set (got_of (thr s ! j))" by (auto simp: held_def)
    then have "x \<in> set (got_of (thr ?s ! j))" "j < length (thr ?s)" using a unfolding g by simp_all
    then show "held x (thr ?s)" by (intro heldI)
  qed
  have e: "entry_ok ?s k' e'" if m: "map_of (locks (lk s)) k' = Some e'" for k' e'
  proof -
    have "entry_ok s k' e'" "e' = e \<longleftrightarrow> k' = k" using D(2,3) m mk by auto
    then show ?thesis using L h cnt by (auto simp: entry_ok_def)
  qed
  have excl: "a = b" if "a < length (thr s)" "b < length (thr s)" "x \<in> set (got_of (thr ?s ! a))" "x \<in> set (got_of (thr ?s ! b))" for a b x
    using that D(5) unfolding g by blast
  have a: "ascending (keys_of (thr ?s ! j))" if "j < length (thr s)" for j
    using that D(6) [of j] asc i by (cases "j = i") simp_all
  have ll: "locks l = locks (lk s)" using L by simp
  show ?thesis by (rule linvI_mutex [OF inv _ ll r excl a]) (use e ll in simp_all)
qed

text \<open>Giving back the reference.\<close>

lemma linv_drop:
  assumes inv: "linv s" and i: "i < length (thr s)" "thr s ! i = Drop k e got"
  shows "linv (s\<lparr>lk := unlock_ref k e (lk s), thr := (thr s)[i := Rel got]\<rparr>)" (is "linv ?s")
proof -
  note D = linvD [OF inv]
  let ?n = "refCount (ents (lk s) e)"
  have mk: "map_of (locks (lk s)) k = Some e" using D(4) [OF i(1), of k e] i(2) by simp
  have ok: "entry_ok s k e" using D(2) mk .
  have asc: "ascending (rev (map fst got) @ [k])" using D(6) [OF i(1)] i(2) by simp
  then have kg: "k \<notin> fst ` set got" by (force simp: sorted_wrt_append)
  have cnt: "count_of x (thr ?s) = count_of x (thr s) - (if x = (k, e) then 1 else 0)" for x
    using kg i by (force simp: count_of_upd)
  have g: "got_of (thr ?s ! j) = got_of (thr s ! j)" for j using i by (cases "j = i") simp_all
  have h: "held x (thr ?s) = held x (thr s)" for x using i by (simp add: held_same)
  have U: "ents (lk ?s) = (ents (lk s))(e := (ents (lk s) e)\<lparr>refCount := ?n - 1\<rparr>)" "nextEnt (lk ?s) = nextEnt (lk s)"
    "locks (lk ?s) = (if ?n = 1 then AList.delete k (locks (lk s)) else locks (lk s))"
    by (simp_all add: unlock_ref_def Let_def)
  have lk: "map_of (locks (lk ?s)) k' = Some e' \<longleftrightarrow> map_of (locks (lk s)) k' = Some e' \<and> (?n = 1 \<longrightarrow> k' \<noteq> k)" for k' e'
    unfolding U(3) by auto
  have e: "entry_ok ?s k' e'" if m: "map_of (locks (lk ?s)) k' = Some e'" for k' e'
  proof -
    have m': "map_of (locks (lk s)) k' = Some e'" "?n = 1 \<longrightarrow> k' \<noteq> k" using m lk by auto
    then have "entry_ok s k' e'" "e' = e \<longleftrightarrow> k' = k" using D(2,3) mk by auto
    then show ?thesis using m'(2) U(1,2) h cnt ok unfolding entry_ok_def by auto
  qed
  have r: "map_of (locks (lk ?s)) k' = Some e'" if j: "j < length (thr ?s)" "(k', e') \<in> set (refs_of (thr ?s ! j))" for j k' e'
  proof -
    have "(k', e') \<in> set (refs_of (thr s ! j))" using j i by (cases "j = i") auto
    then have m: "map_of (locks (lk s)) k' = Some e'" using D(4) j(1) by simp
    have "0 < count_of (k', e') (thr ?s)" using count_of_pos [OF j] .
    moreover have "count_of (k, e) (thr ?s) = ?n - 1" using cnt ok by (simp add: entry_ok_def)
    ultimately have "?n = 1 \<longrightarrow> k' \<noteq> k" using m mk by auto
    then show ?thesis using lk m by blast
  qed
  have x: "a = b" if "a < length (thr ?s)" "b < length (thr ?s)" "x \<in> set (got_of (thr ?s ! a))" "x \<in> set (got_of (thr ?s ! b))" for a b x
    using that D(5) unfolding g by simp
  have a: "ascending (keys_of (thr ?s ! j))" if "j < length (thr ?s)" for j
    using that D(6) [of j] asc i by (cases "j = i") (simp_all add: sorted_wrt_append)
  have inj: "k1 = k2" if "map_of (locks (lk ?s)) k1 = Some e'" "map_of (locks (lk ?s)) k2 = Some e'" for k1 k2 e'
    using that lk D(3) by blast
  have "\<not> lpanic ?s" using D(1) by simp
  then show ?thesis using e inj r x a by (rule linvI)
qed

text \<open>The keys of a call are distinct and ascending.\<close>

lemma dedup_keys_set: "set seen = set keys \<Longrightarrow> distinct keys \<Longrightarrow>
    distinct (dedup_keys seen keys ps) \<and> set (dedup_keys seen keys ps) = set keys \<union> ToSlash ` set ps"
proof (induction seen keys ps rule: dedup_keys.induct)
  case (2 seen keys p ps)
  then show ?case by (cases "ToSlash p \<in> set seen") (auto simp: Let_def)
qed simp

lemma lock_keys_ascending: "ascending (lock_keys ps)" "set (lock_keys ps) = ToSlash ` set ps"
proof -
  have "distinct (lock_keys ps)" "sorted (lock_keys ps)" using dedup_keys_set [of "[]" "[]" ps] by (simp_all add: lock_keys_def)
  then show "ascending (lock_keys ps)" by (simp add: strict_sorted_iff)
  show "set (lock_keys ps) = ToSlash ` set ps" using dedup_keys_set [of "[]" "[]" ps] by (simp add: lock_keys_def)
qed

lemma linv_step: "lstep s s' \<Longrightarrow> linv s \<Longrightarrow> linv s'"
proof (induction rule: lstep.induct)
  case (start i s ps)
  then show ?case using lock_keys_ascending by (intro linv_same) simp_all
next
  case (panic i s k e got)
  have "map_of (locks (lk s)) k = Some e" using linvD(4) [OF panic.prems panic(1), of k e] panic(2) by simp
  then have "mlocked (ents (lk s) e)"
    using linvD(2) [OF panic.prems, of k e] panic(1,2) heldI [OF panic(1), of "(k, e)"] by (simp add: entry_ok_def)
  then show ?case using panic(3) by (simp add: mutex_unlock_def)
next
  case (enter i s got)
  then show ?case using linvD(6) [OF enter.prems enter(1)] by (intro linv_same) simp_all
next
  case (leave i s got)
  then show ?case using linvD(6) [OF leave.prems leave(1)] by (intro linv_same) simp_all
qed (auto intro: linv_ref linv_acquire linv_unlock linv_drop linv_same)

lemma linv_init: "linv (linit n)"
  by (intro linvI) (simp_all add: linit_def newPathLocker_def)

lemma lreach_linv: "lreach n s \<Longrightarrow> linv s"
  by (induction rule: lreach.induct) (auto intro: linv_init linv_step)


section \<open>Progress\<close>

text \<open>Every goroutine that is not waiting for a mutex can take a step.\<close>

lemma runnable_steps:
  assumes inv: "linv s" and i: "i < length (thr s)" "thr s ! i \<noteq> Idle" "\<And>k e ks got. thr s ! i \<noteq> Wait k e ks got"
  shows "\<exists>s'. lstep s s' \<and> thr s' ! i \<noteq> thr s ! i"
proof (cases "thr s ! i")
  case (Acq ks got)
  show ?thesis
  proof (cases ks)
    case Nil
    then show ?thesis using lstep.enter [OF i(1)] Acq i(1) by fastforce
  next
    case (Cons k ks')
    obtain l e where "lock_ref k (lk s) = (l, e)" by fastforce
    then show ?thesis using lstep.ref [OF i(1)] Acq Cons i(1) by fastforce
  qed
next
  case (Hold got)
  then show ?thesis using lstep.leave [OF i(1)] i(1) by fastforce
next
  case (Drop k e got)
  then show ?thesis using lstep.drop [OF i(1)] i(1) by fastforce
next
  case (Rel got)
  show ?thesis
  proof (cases got)
    case Nil
    then show ?thesis using lstep.finish [OF i(1)] Rel i(1) by fastforce
  next
    case (Cons x got')
    obtain k e where x: "x = (k, e)" by fastforce
    have "map_of (locks (lk s)) k = Some e" using linvD(4) [OF inv i(1), of k e] Rel Cons x by simp
    then have "mlocked (ents (lk s) e)"
      using linvD(2) [OF inv, of k e] heldI [OF i(1), of "(k, e)"] Rel Cons x by (simp add: entry_ok_def)
    then obtain l where "mutex_unlock e (lk s) = Some l" by (simp add: mutex_unlock_def)
    then show ?thesis using lstep.unlock [OF i(1)] Rel Cons x i(1) by fastforce
  qed
qed (use i in auto)

text \<open>A goroutine that waits for the greatest key that anyone waits for waits in vain for nobody that waits.\<close>

lemma greatest_waiter:
  assumes "i < length (thr s)" "thr s ! i = Wait k e ks got"
  obtains i' k' e' ks' got' where "i' < length (thr s)" "thr s ! i' = Wait k' e' ks' got'"
    "\<And>j k2 e2 ks2 got2. j < length (thr s) \<Longrightarrow> thr s ! j = Wait k2 e2 ks2 got2 \<Longrightarrow> k2 \<le> k'"
proof -
  let ?K = "{k'. \<exists>j e' ks' got'. j < length (thr s) \<and> thr s ! j = Wait k' e' ks' got'}"
  have "?K \<subseteq> (\<lambda>j. case thr s ! j of Wait k' _ _ _ \<Rightarrow> k' | _ \<Rightarrow> []) ` {..<length (thr s)}" by (force simp: image_iff)
  then have fin: "finite ?K" by (rule finite_subset) simp
  have "k \<in> ?K" using assms by blast
  then have in_K: "Max ?K \<in> ?K" using Max_in [OF fin] by blast
  then obtain i' e' ks' got' where w: "i' < length (thr s)" "thr s ! i' = Wait (Max ?K) e' ks' got'" by blast
  have "k2 \<le> Max ?K" if "j < length (thr s)" "thr s ! j = Wait k2 e2 ks2 got2" for j k2 e2 ks2 got2
    using that by (intro Max_ge [OF fin]) blast
  then show ?thesis using that w by blast
qed

lemma waiting_steps:
  assumes inv: "linv s" and all: "\<And>j. j < length (thr s) \<Longrightarrow> thr s ! j = Idle \<or> (\<exists>k e ks got. thr s ! j = Wait k e ks got)"
    and i: "i < length (thr s)" "thr s ! i = Wait k e ks got"
  shows "\<exists>i' < length (thr s). \<exists>s'. lstep s s' \<and> thr s ! i' \<noteq> Idle \<and> thr s' ! i' \<noteq> thr s ! i'"
proof -
  obtain i' k' e' ks' got' where g: "i' < length (thr s)" "thr s ! i' = Wait k' e' ks' got'"
    and max: "\<And>j k2 e2 ks2 got2. j < length (thr s) \<Longrightarrow> thr s ! j = Wait k2 e2 ks2 got2 \<Longrightarrow> k2 \<le> k'"
    by (rule greatest_waiter [OF i]) (rule that)
  have m: "map_of (locks (lk s)) k' = Some e'" using linvD(4) [OF inv g(1), of k' e'] g(2) by simp
  have "\<not> mlocked (ents (lk s) e')"
  proof
    assume "mlocked (ents (lk s) e')"
    then have "held (k', e') (thr s)" using linvD(2) [OF inv m] by (simp add: entry_ok_def)
    then obtain j where j: "j < length (thr s)" "(k', e') \<in> set (got_of (thr s ! j))" by (auto simp: held_def)
    then obtain k2 e2 ks2 got2 where w: "thr s ! j = Wait k2 e2 ks2 got2" using all [OF j(1)] by auto
    have "k' < k2" using linvD(6) [OF inv j(1)] j(2) w by (force simp: sorted_wrt_append)
    then show False using max [OF j(1) w] by simp
  qed
  then obtain l where "mutex_lock e' (lk s) = Some l" by (simp add: mutex_lock_def)
  then have "\<exists>s'. lstep s s' \<and> thr s' ! i' \<noteq> thr s ! i'" using lstep.acquire [OF g] g by fastforce
  then show ?thesis using g by force
qed

section \<open>Properties\<close>

text \<open>C14: in every interleaving of any number of goroutines, two of them never hold the same path, no mutex is
  unlocked that is not locked, and when all calls are over the map of entries is empty again.\<close>

theorem path_locks_exclusive:
  assumes "lreach n s"
  shows "\<not> lpanic s
    \<and> (\<forall>i j got got'. i < length (thr s) \<and> j < length (thr s) \<and> i \<noteq> j \<and> thr s ! i = Hold got \<and> thr s ! j = Hold got' \<longrightarrow>
         fst ` set got \<inter> fst ` set got' = {})
    \<and> ((\<forall>i < length (thr s). thr s ! i = Idle) \<longrightarrow> locks (lk s) = [])"
proof (intro conjI allI impI)
  note inv = lreach_linv [OF assms]
  show "\<not> lpanic s" by (rule linvD(1) [OF inv])
  show "fst ` set got \<inter> fst ` set got' = {}"
    if h: "i < length (thr s) \<and> j < length (thr s) \<and> i \<noteq> j \<and> thr s ! i = Hold got \<and> thr s ! j = Hold got'" for i j got got'
  proof -
    have False if "(k, e) \<in> set got" "(k, e') \<in> set got'" for k e e'
    proof -
      have "map_of (locks (lk s)) k = Some e" "map_of (locks (lk s)) k = Some e'"
        using linvD(4) [OF inv, of i k e] linvD(4) [OF inv, of j k e'] h that by simp_all
      then have "e' = e" by simp
      then show False using linvD(5) [OF inv, of i j "(k, e)"] h that by simp
    qed
    then show ?thesis by fastforce
  qed
  show "locks (lk s) = []" if idle: "\<forall>i < length (thr s). thr s ! i = Idle"
  proof (cases "locks (lk s)")
    case (Cons x xs)
    then obtain k e where "map_of (locks (lk s)) k = Some e" by (metis map_of_Cons_code(2) surj_pair)
    then have "0 < count_of (k, e) (thr s)" using linvD(2) [OF inv, of k e] unfolding entry_ok_def by metis
    then show ?thesis using idle by (auto simp: count_of_def filter_empty_conv in_set_conv_nth)
  qed simp
qed

definition demo_locked :: lsys where
  "demo_locked = \<lparr>lk = \<lparr>locks = [], ents = (\<lambda>_. \<lparr>refCount = 0, mlocked = False\<rparr>), nextEnt = 0\<rparr>, thr = [Acq [''a''] [], Idle], lpanic = False\<rparr>"

lemma demo_locked_reach: "lreach 2 demo_locked"
proof -
  have k: "lock_keys [''a''] = [''a'']" by code_simp
  have "lstep (linit 2) ((linit 2)\<lparr>thr := (thr (linit 2))[0 := Acq (lock_keys [''a'']) []]\<rparr>)"
    by (rule lstep.start) (simp_all add: linit_def)
  moreover have "(linit 2)\<lparr>thr := (thr (linit 2))[0 := Acq (lock_keys [''a'']) []]\<rparr> = demo_locked"
    unfolding k by (simp add: linit_def newPathLocker_def demo_locked_def numeral_2_eq_2)
  ultimately show ?thesis using lreach_step [OF lreach_init] by metis
qed

theorem path_locks_exclusive_witness: "\<not> lpanic demo_locked"
  using path_locks_exclusive [OF demo_locked_reach] by blast

text \<open>C15: the calls never deadlock: while some call is not over, some goroutine that is inside a call can take a
  step. Sorting the keys is what makes this true for the renames, which lock two paths.\<close>

theorem path_locks_progress:
  assumes "lreach n s" "i < length (thr s)" "thr s ! i \<noteq> Idle"
  shows "\<exists>j < length (thr s). \<exists>s'. lstep s s' \<and> thr s ! j \<noteq> Idle \<and> thr s' ! j \<noteq> thr s ! j"
proof -
  note inv = lreach_linv [OF assms(1)]
  show ?thesis
  proof (cases "\<exists>j < length (thr s). thr s ! j \<noteq> Idle \<and> (\<forall>k e ks got. thr s ! j \<noteq> Wait k e ks got)")
    case True
    then obtain j where j: "j < length (thr s)" "thr s ! j \<noteq> Idle" "\<And>k e ks got. thr s ! j \<noteq> Wait k e ks got" by blast
    then show ?thesis using runnable_steps [OF inv j] by blast
  next
    case False
    then have all: "\<And>j. j < length (thr s) \<Longrightarrow> thr s ! j = Idle \<or> (\<exists>k e ks got. thr s ! j = Wait k e ks got)" by blast
    then obtain k e ks got where "thr s ! i = Wait k e ks got" using assms(2,3) by blast
    then show ?thesis using waiting_steps [OF inv all assms(2)] by blast
  qed
qed

theorem path_locks_progress_witness:
  "\<exists>j < 2. \<exists>s'. lstep demo_locked s' \<and> thr s' ! j \<noteq> thr demo_locked ! j"
  using path_locks_progress [OF demo_locked_reach, of 0] by (auto simp: demo_locked_def numeral_2_eq_2)

end
