(* ===== verification/Auth.thy ===== *)
theory Auth
  imports Manager
begin

text \<open>
  Token authentication, \<open>src/pkg/auth/auth.go\<close>: what the interceptors take from the metadata of a call and what they put
  into its context. A context is the part of it the program uses: the incoming metadata, if any, and the user that
  \<open>WithUserID\<close> stored. The last section follows a daemon stream through the interceptor into the registry.
\<close>

section \<open>Definitions\<close>

datatype auth_error = ErrMissingMetadata | ErrMissingToken | ErrInvalidToken

definition MetadataKey :: string where "MetadataKey = ''x-rclaude-token''"

type_synonym verifier = "string \<Rightarrow> string option"

text \<open>gRPC metadata: lower-case keys with their values in order.\<close>

type_synonym metadata = "(string \<times> string list) list"

record auth_ctx =
  cx_incoming :: "metadata option"
  cx_user :: "string option"

definition md_Get :: "metadata \<Rightarrow> string \<Rightarrow> string list" where
  "md_Get md k = (case map_of md k of None \<Rightarrow> [] | Some vs \<Rightarrow> vs)"

definition NewStaticVerifier :: "(string \<times> string) list \<Rightarrow> verifier" where
  "NewStaticVerifier m token = map_of m token"

definition WithUserID :: "auth_ctx \<Rightarrow> string \<Rightarrow> auth_ctx" where
  "WithUserID ctx uid = ctx\<lparr>cx_user := Some uid\<rparr>"

definition UserIDFromContext :: "auth_ctx option \<Rightarrow> string option" where
  "UserIDFromContext ctx =
     (case ctx of
        None \<Rightarrow> None
      | Some c \<Rightarrow> (case cx_user c of None \<Rightarrow> None | Some v \<Rightarrow> if v = [] then None else Some v))"

definition FromIncomingContext :: "auth_ctx \<Rightarrow> verifier \<Rightarrow> auth_error + string" where
  "FromIncomingContext ctx v =
     (case cx_incoming ctx of
        None \<Rightarrow> Inl ErrMissingMetadata
      | Some md \<Rightarrow>
          (case md_Get md MetadataKey of
             [] \<Rightarrow> Inl ErrMissingToken
           | t # _ \<Rightarrow>
               if t = [] then Inl ErrMissingToken
               else (case v t of None \<Rightarrow> Inl ErrInvalidToken | Some uid \<Rightarrow> Inr uid)))"

text \<open>The outgoing metadata a client sends.\<close>

definition NewOutgoingContext :: "string \<Rightarrow> metadata" where
  "NewOutgoingContext token = [(MetadataKey, [token])]"

text \<open>The error of an interceptor carries the code \<open>Unauthenticated\<close>.\<close>

datatype 'e call_error = Unauthenticated auth_error | HandlerError 'e

definition UnaryServerInterceptor ::
  "verifier \<Rightarrow> auth_ctx \<Rightarrow> 'req \<Rightarrow> (auth_ctx \<Rightarrow> 'req \<Rightarrow> 'e + 'r) \<Rightarrow> 'e call_error + 'r" where
  "UnaryServerInterceptor v ctx req handler =
     (case FromIncomingContext ctx v of
        Inl e \<Rightarrow> Inl (Unauthenticated e)
      | Inr uid \<Rightarrow> map_sum HandlerError id (handler (WithUserID ctx uid) req))"

text \<open>A stream handler works on the server's state; the wrapped stream shows it the new context.\<close>

definition StreamServerInterceptor ::
  "verifier \<Rightarrow> auth_ctx \<Rightarrow> (auth_ctx \<Rightarrow> 's \<Rightarrow> 'r) \<Rightarrow> 's \<Rightarrow> auth_error + 'r" where
  "StreamServerInterceptor v ctx handler s =
     (case FromIncomingContext ctx v of
        Inl e \<Rightarrow> Inl e
      | Inr uid \<Rightarrow> Inr (handler (WithUserID ctx uid) s))"

section \<open>Facts about the context\<close>

lemma FromIncomingContext_Inr:
  "FromIncomingContext ctx v = Inr uid \<longleftrightarrow>
     (\<exists>md t ts. cx_incoming ctx = Some md \<and> md_Get md MetadataKey = t # ts \<and> t \<noteq> [] \<and> v t = Some uid)"
  by (auto simp: FromIncomingContext_def split: option.splits list.splits)

lemma UserID_WithUserID: "UserIDFromContext (Some (WithUserID ctx uid)) = (if uid = [] then None else Some uid)"
  by (simp add: UserIDFromContext_def WithUserID_def)

text \<open>A token that a client sends reaches the verifier.\<close>

lemma outgoing_incoming:
  "token \<noteq> [] \<Longrightarrow> FromIncomingContext \<lparr>cx_incoming = Some (NewOutgoingContext token), cx_user = u\<rparr> v
     = (case v token of None \<Rightarrow> Inl ErrInvalidToken | Some uid \<Rightarrow> Inr uid)"
  by (simp add: FromIncomingContext_def NewOutgoingContext_def md_Get_def)

lemma Connect_open_registers:
  assumes "mgr_ok m h" "h p = None" "Connect_open now (Some uid) initial p (m, h) = Some ((m', h'), res)"
  shows "(\<forall>u. u \<noteq> uid \<longrightarrow> map_of (sessions m') u = map_of (sessions m) u
            \<or> (\<exists>q. map_of (sessions m) u = Some q \<and> expired_at now h q \<and> map_of (sessions m') u = None))
    \<and> (\<forall>q. res = Inr q \<longrightarrow> q = p \<and> map_of (sessions m') uid = Some p \<and> (\<exists>s. h' p = Some s \<and> userID s = uid))"
proof (cases "\<exists>msg s. initial = Inr msg \<and> Bootstrap now msg (manager_NewSession m uid) = (s, None)")
  case False
  then show ?thesis using assms(3) by (auto simp: Connect_open_def split: sum.splits prod.splits option.splits)
next
  case True
  then obtain msg s where i: "initial = Inr msg" and b: "Bootstrap now msg (manager_NewSession m uid) = (s, None)" by blast
  let ?h = "h(p \<mapsto> s)" and ?m = "pruneExpiredLocked now (h(p \<mapsto> s)) m"
  have u: "userID s = uid" using Bootstrap_user [OF b] by (simp add: manager_NewSession_def NewSession_def)
  have np: "q \<noteq> p" if "map_of (sessions m) v = Some q" for v q using mgr_okD(3) [OF assms(1) that] assms(2) by auto
  have pr: "map_of (sessions ?m) v = (case map_of (sessions m) v of Some q \<Rightarrow> if expired_at now h q then None else Some q | None \<Rightarrow> None)" for v
    unfolding map_of_prune [OF mgr_okD(1) [OF assms(1)]] using np [of v] by (auto simp: expired_at_def split: option.splits)
  show ?thesis
  proof (cases "uid = []")
    case True
    then show ?thesis using assms(3) i b u by (auto simp: Connect_open_def manager_Register_def user_at_def Let_def)
  next
    case False
    then have m': "m' = ?m\<lparr>sessions := AList.update uid p (sessions ?m)\<rparr>" "res = Inr p" "h' p = Some s"
      using assms(2,3) i b u pr np
      by (auto simp: Connect_open_def manager_Register_def user_at_def Let_def split: option.splits if_splits)
    then show ?thesis using pr u by (auto split: option.splits)
  qed
qed

section \<open>Properties\<close>

text \<open>C26: a daemon stream can register a session only under the user its token stands for. Without a token the verifier
  accepts the registry is not touched; with one, whatever user the context claimed before, the new session belongs to
  the token's user and no other user's entry changes except by expiry; and a token that stands for no user name
  registers nothing.\<close>

theorem token_decides_user:
  assumes "mgr_ok m h" "h p = None"
    and "StreamServerInterceptor v ctx (\<lambda>c. Connect_open now (UserIDFromContext (Some c)) initial p) (m, h) = Inr (Some ((m', h'), res))"
  shows "\<exists>md t ts uid. cx_incoming ctx = Some md \<and> md_Get md MetadataKey = t # ts \<and> t \<noteq> [] \<and> v t = Some uid
    \<and> (\<forall>u. u \<noteq> uid \<longrightarrow> map_of (sessions m') u = map_of (sessions m) u
         \<or> (\<exists>q. map_of (sessions m) u = Some q \<and> expired_at now h q \<and> map_of (sessions m') u = None))
    \<and> (\<forall>q. res = Inr q \<longrightarrow> q = p \<and> uid \<noteq> [] \<and> map_of (sessions m') uid = Some p \<and> (\<exists>s. h' p = Some s \<and> userID s = uid))"
proof -
  obtain uid where f: "FromIncomingContext ctx v = Inr uid"
    and c: "Connect_open now (UserIDFromContext (Some (WithUserID ctx uid))) initial p (m, h) = Some ((m', h'), res)"
    using assms(3) by (auto simp: StreamServerInterceptor_def split: sum.splits)
  have "(\<forall>u. u \<noteq> uid \<longrightarrow> map_of (sessions m') u = map_of (sessions m) u
         \<or> (\<exists>q. map_of (sessions m) u = Some q \<and> expired_at now h q \<and> map_of (sessions m') u = None))
    \<and> (\<forall>q. res = Inr q \<longrightarrow> q = p \<and> uid \<noteq> [] \<and> map_of (sessions m') uid = Some p \<and> (\<exists>s. h' p = Some s \<and> userID s = uid))"
  proof (cases "uid = []")
    case True
    then show ?thesis using c by (auto simp: UserID_WithUserID Connect_open_def)
  next
    case False
    then show ?thesis using Connect_open_registers [OF assms(1,2)] c by (simp add: UserID_WithUserID)
  qed
  then show ?thesis using f unfolding FromIncomingContext_Inr by blast
qed

definition demo_ctx :: auth_ctx where
  "demo_ctx = \<lparr>cx_incoming = Some (NewOutgoingContext ''tok''), cx_user = Some ''mallory''\<rparr>"

theorem token_decides_user_witness:
  "\<exists>m' h'. StreamServerInterceptor (NewStaticVerifier [(''tok'', ''v'')]) demo_ctx
      (\<lambda>c. Connect_open 5 (UserIDFromContext (Some c)) (Inr (Some (MsgFileTree (Some demo_boot)))) 9) (demo_mgr, demo_heap)
      = Inr (Some ((m', h'), Inr 9)) \<and> map_of (sessions m') ''v'' = Some 9 \<and> map_of (sessions m') ''u'' = Some 1"
proof -
  let ?call = "StreamServerInterceptor (NewStaticVerifier [(''tok'', ''v'')]) demo_ctx
      (\<lambda>c. Connect_open 5 (UserIDFromContext (Some c)) (Inr (Some (MsgFileTree (Some demo_boot)))) 9) (demo_mgr, demo_heap)"
  have u: "FromIncomingContext demo_ctx (NewStaticVerifier [(''tok'', ''v'')]) = Inr ''v''" by code_simp
  have "snd (Bootstrap 5 (Some (MsgFileTree (Some demo_boot))) (manager_NewSession demo_mgr ''v'')) = None" by code_simp
  then obtain s where b: "Bootstrap 5 (Some (MsgFileTree (Some demo_boot))) (manager_NewSession demo_mgr ''v'') = (s, None)"
    by (metis prod.collapse)
  have us: "userID s = ''v''" using Bootstrap_user [OF b] by (simp add: manager_NewSession_def NewSession_def)
  have "\<exists>m' h'. ?call = Inr (Some ((m', h'), Inr 9))"
    using b us by (auto simp: StreamServerInterceptor_def u UserID_WithUserID Connect_open_def manager_Register_def user_at_def Let_def
        demo_mgr_def pruneExpiredLocked_def)
  then obtain m' h' where c: "?call = Inr (Some ((m', h'), Inr 9))" by blast
  have e: "demo_heap 9 = None" "map_of (sessions demo_mgr) ''u'' = Some 1" "\<not> expired_at 5 demo_heap 1"
    by (simp_all add: demo_heap_def demo_mgr_def expired_at_def NewSession_def IsExpired_def)
  have v: "NewStaticVerifier [(''tok'', ''v'')] t = Some uid \<Longrightarrow> uid = ''v''" for t uid
    by (simp add: NewStaticVerifier_def split: if_splits)
  have "map_of (sessions m') ''v'' = Some 9"
    and o: "\<forall>u. u \<noteq> ''v'' \<longrightarrow> map_of (sessions m') u = map_of (sessions demo_mgr) u
      \<or> (\<exists>q. map_of (sessions demo_mgr) u = Some q \<and> expired_at 5 demo_heap q \<and> map_of (sessions m') u = None)"
    using token_decides_user [OF demo_mgr_ok e(1) c] by (auto dest!: v)
  moreover have "map_of (sessions m') ''u'' = Some 1" using o [rule_format, of "''u''"] e(2,3) by simp
  ultimately show ?thesis using c by blast
qed

end
