(* ===== verification/Startup.thy ===== *)
theory Startup
  imports RC_Prelude "HOL-Library.AList" "HOL-Library.Sublist"
begin

text \<open>
  The startup protocol of the unified entry, \<open>src/pkg/startup/coordinator.go\<close>, \<open>runner.go\<close> and \<open>events.go\<close>: the check of
  the component graph, and the coordinator and runner goroutines as a step relation over their interleavings. Each
  critical section, channel operation and bus publication is one step; the bus calls its subscribers while it holds its
  lock, so a publication and the forwarding into a channel are one step. What a component's \<open>Run\<close> does (signal
  readiness, return) is free. The event channel is read by the supervisor until it is closed, so a send on it never
  blocks for ever and is modelled as appending to the list of events.
\<close>

section \<open>Definitions\<close>

type_synonym comp = string

record failure =
  f_comp :: comp
  f_attempt :: nat
  f_err :: string

datatype phase = PhasePending | PhaseStarted | PhaseWaitingRetry | PhaseGaveUp

record component_state =
  cs_phase :: phase
  cs_last :: failure

record spec =
  sp_name :: comp
  sp_deps :: "comp list"

datatype start_error =
  ErrNilBus | ErrNoSpecs | ErrDuplicateComponent comp | ErrUnknownDependency comp comp | ErrSelfDependency comp
| ErrDependencyCycle comp comp

datatype event_kind = KindStarted | KindGaveUp | KindAborted | KindExited

record cevent =
  e_comp :: comp
  e_kind :: event_kind
  e_attempt :: nat

definition failBufferSize :: nat where "failBufferSize = 16"
definition retryBufferSize :: nat where "retryBufferSize = 8"

definition zero_failure :: failure where
  "zero_failure = \<lparr>f_comp = [], f_attempt = 0, f_err = []\<rparr>"

subsection \<open>The graph of dependencies\<close>

text \<open>A set of dependencies is a list without repetitions; the order in which Go iterates it is arbitrary.\<close>

fun dep_set :: "comp \<Rightarrow> comp list \<Rightarrow> comp list \<Rightarrow> comp list \<Rightarrow> start_error + comp list" where
  "dep_set self known [] acc = Inr acc"
| "dep_set self known (d # ds) acc =
     (if d = self then Inl (ErrSelfDependency self)
      else if d \<notin> set known then Inl (ErrUnknownDependency self d)
      else dep_set self known ds (if d \<in> set acc then acc else acc @ [d]))"

datatype color = White | Gray | Black

text \<open>The depth-first search; the fuel is the number of components, and \<open>visit_enough\<close> shows that it never runs out.\<close>

type_synonym coloring = "comp \<Rightarrow> color"

fun visitForCycle :: "nat \<Rightarrow> comp \<Rightarrow> (comp \<times> comp list) list \<Rightarrow> coloring \<Rightarrow> (start_error + coloring) option"
and visit_deps :: "nat \<Rightarrow> comp \<Rightarrow> comp list \<Rightarrow> (comp \<times> comp list) list \<Rightarrow> coloring \<Rightarrow> (start_error + coloring) option" where
  "visitForCycle 0 node deps color = None"
| "visitForCycle (Suc fuel) node deps color =
     (case visit_deps fuel node (case map_of deps node of None \<Rightarrow> [] | Some ds \<Rightarrow> ds) deps (color(node := Gray)) of
        None \<Rightarrow> None
      | Some (Inl e) \<Rightarrow> Some (Inl e)
      | Some (Inr color) \<Rightarrow> Some (Inr (color(node := Black))))"
| "visit_deps fuel node [] deps color = Some (Inr color)"
| "visit_deps fuel node (d # ds) deps color =
     (case color d of
        Gray \<Rightarrow> Some (Inl (ErrDependencyCycle node d))
      | White \<Rightarrow>
          (case visitForCycle fuel d deps color of
             None \<Rightarrow> None
           | Some (Inl e) \<Rightarrow> Some (Inl e)
           | Some (Inr color) \<Rightarrow> visit_deps fuel node ds deps color)
      | Black \<Rightarrow> visit_deps fuel node ds deps color)"

fun acyclic_loop :: "nat \<Rightarrow> comp list \<Rightarrow> (comp \<times> comp list) list \<Rightarrow> coloring \<Rightarrow> start_error option option" where
  "acyclic_loop fuel [] deps color = Some None"
| "acyclic_loop fuel (c # cs) deps color =
     (if color c \<noteq> White then acyclic_loop fuel cs deps color
      else
        (case visitForCycle fuel c deps color of
           None \<Rightarrow> None
         | Some (Inl e) \<Rightarrow> Some (Some e)
         | Some (Inr color) \<Rightarrow> acyclic_loop fuel cs deps color))"

definition ensureAcyclic :: "spec list \<Rightarrow> (comp \<times> comp list) list \<Rightarrow> start_error option option" where
  "ensureAcyclic specs deps = acyclic_loop (length specs) (map sp_name specs) deps (\<lambda>_. White)"

fun dep_sets :: "comp list \<Rightarrow> spec list \<Rightarrow> (comp \<times> comp list) list \<Rightarrow> start_error + (comp \<times> comp list) list" where
  "dep_sets known [] acc = Inr acc"
| "dep_sets known (sp # sps) acc =
     (case dep_set (sp_name sp) known (sp_deps sp) [] of
        Inl e \<Rightarrow> Inl e
      | Inr ds \<Rightarrow> dep_sets known sps (acc @ [(sp_name sp, ds)]))"

definition buildDependencies :: "spec list \<Rightarrow> comp list \<Rightarrow> (start_error + (comp \<times> comp list) list) option" where
  "buildDependencies specs known =
     (case dep_sets known specs [] of
        Inl e \<Rightarrow> Some (Inl e)
      | Inr deps \<Rightarrow>
          (case ensureAcyclic specs deps of
             None \<Rightarrow> None
           | Some (Some e) \<Rightarrow> Some (Inl e)
           | Some None \<Rightarrow> Some (Inr deps)))"

fun first_dup :: "comp list \<Rightarrow> comp list \<Rightarrow> comp option" where
  "first_dup seen [] = None"
| "first_dup seen (c # cs) = (if c \<in> set seen then Some c else first_dup (c # seen) cs)"

subsection \<open>The coordinator and its goroutines\<close>

text \<open>Where the goroutine of a component stands.\<close>

datatype runner =
  RnDeps "comp list"
| RnAttempt nat
| RnMark nat
| RnClose nat bool "failure list"
| RnAnnounce nat "failure list"
| RnPublish nat "failure list"
| RnRunning nat
| RnFailed nat string
| RnGiveUp nat string
| RnGaveUp nat string
| RnAbort
| RnAwait nat
| RnDelay nat
| RnDone

datatype kpc = KSelect | KPublish comp nat | KAbort comp | KDone

record coordinator =
  k_max :: nat
  k_states :: "(comp \<times> component_state) list"
  k_deps :: "(comp \<times> comp list) list"
  k_started :: "comp list"
  k_fail :: "failure list"
  k_retry :: "comp \<Rightarrow> nat list"
  k_over :: "comp option"
  k_events :: "cevent list"
  k_ctx :: bool
  k_aborted :: bool
  k_main :: kpc
  k_run :: "comp \<Rightarrow> runner"
  k_evclosed :: bool
  k_panic :: bool

text \<open>\<open>New\<close>: the checks in the order of the code. The result is the state before \<open>Run\<close>.\<close>

definition coord_New :: "bool \<Rightarrow> int \<Rightarrow> spec list \<Rightarrow> (start_error + coordinator) option" where
  "coord_New bus maxRetries specs =
     (if \<not> bus then Some (Inl ErrNilBus)
      else if length specs < 2 then Some (Inl ErrNoSpecs)
      else
        (case first_dup [] (map sp_name specs) of
           Some c \<Rightarrow> Some (Inl (ErrDuplicateComponent c))
         | None \<Rightarrow>
             (case buildDependencies specs (map sp_name specs) of
                None \<Rightarrow> None
              | Some (Inl e) \<Rightarrow> Some (Inl e)
              | Some (Inr deps) \<Rightarrow>
                  Some (Inr \<lparr>k_max = nat (if maxRetries < 0 then 0 else maxRetries) + 1,
                     k_states = map (\<lambda>sp. (sp_name sp, \<lparr>cs_phase = PhasePending, cs_last = zero_failure\<rparr>)) specs,
                     k_deps = deps, k_started = [], k_fail = [], k_retry = (\<lambda>_. []), k_over = None, k_events = [],
                     k_ctx = False, k_aborted = False, k_main = KSelect,
                     k_run = (\<lambda>c. RnDeps (case map_of (map (\<lambda>sp. (sp_name sp, sp_deps sp)) specs) c of None \<Rightarrow> [] | Some ds \<Rightarrow> ds)),
                     k_evclosed = False, k_panic = False\<rparr>))))"

definition comps :: "coordinator \<Rightarrow> comp list" where
  "comps s = map fst (k_states s)"

definition phase_of :: "coordinator \<Rightarrow> comp \<Rightarrow> phase option" where
  "phase_of s c = map_option cs_phase (map_of (k_states s) c)"

definition upd_state :: "comp \<Rightarrow> (component_state \<Rightarrow> component_state) \<Rightarrow> coordinator \<Rightarrow> coordinator" where
  "upd_state c f s = s\<lparr>k_states := map (\<lambda>(c', st). (c', if c' = c then f st else st)) (k_states s)\<rparr>"

definition set_run :: "comp \<Rightarrow> runner \<Rightarrow> coordinator \<Rightarrow> coordinator" where
  "set_run c pc s = s\<lparr>k_run := (k_run s)(c := pc)\<rparr>"

definition emit :: "comp \<Rightarrow> event_kind \<Rightarrow> nat \<Rightarrow> coordinator \<Rightarrow> coordinator" where
  "emit c k n s =
     (if k_evclosed s then s\<lparr>k_panic := True\<rparr>
      else s\<lparr>k_events := k_events s @ [\<lparr>e_comp = c, e_kind = k, e_attempt = n\<rparr>]\<rparr>)"

definition signalOverflow :: "comp \<Rightarrow> coordinator \<Rightarrow> coordinator" where
  "signalOverflow c s = (case k_over s of None \<Rightarrow> s\<lparr>k_over := Some c\<rparr> | Some _ \<Rightarrow> s)"

text \<open>The two bus subscribers.\<close>

definition onFailed :: "failure \<Rightarrow> coordinator \<Rightarrow> coordinator" where
  "onFailed f s =
     (if length (k_fail s) < failBufferSize then s\<lparr>k_fail := k_fail s @ [f]\<rparr> else signalOverflow (f_comp f) s)"

definition onRetry :: "comp \<Rightarrow> nat \<Rightarrow> coordinator \<Rightarrow> coordinator" where
  "onRetry c n s =
     (if c \<notin> set (comps s) then s
      else if length (k_retry s c) < retryBufferSize then s\<lparr>k_retry := (k_retry s)(c := k_retry s c @ [n])\<rparr>
      else signalOverflow c s)"

definition publishRetry :: "comp \<Rightarrow> nat \<Rightarrow> coordinator \<Rightarrow> coordinator" where
  "publishRetry c n s = onRetry c n s"

definition abort :: "comp \<Rightarrow> coordinator \<Rightarrow> coordinator" where
  "abort trigger s =
     (if k_aborted s then s
      else (emit trigger KindAborted 0 s)\<lparr>k_aborted := True, k_ctx := True\<rparr>)"

definition dependsOn :: "coordinator \<Rightarrow> comp \<Rightarrow> comp \<Rightarrow> bool" where
  "dependsOn s component dependency =
     (case map_of (k_deps s) component of None \<Rightarrow> False | Some ds \<Rightarrow> dependency \<in> set ds)"

definition hasPendingDependentLocked :: "coordinator \<Rightarrow> comp \<Rightarrow> bool" where
  "hasPendingDependentLocked s self =
     list_ex (\<lambda>(name, st). name \<noteq> self \<and> cs_phase st = PhasePending \<and> dependsOn s name self) (k_states s)"

text \<open>A started peer, if any, and whether all others are down.\<close>

fun peer_scan :: "comp \<Rightarrow> (comp \<times> component_state) list \<Rightarrow> bool \<Rightarrow> comp option \<times> bool" where
  "peer_scan self [] allDown = (None, allDown)"
| "peer_scan self ((name, st) # sts) allDown =
     (if name = self then peer_scan self sts allDown
      else
        (case cs_phase st of
           PhaseStarted \<Rightarrow> (Some name, False)
         | PhasePending \<Rightarrow> peer_scan self sts False
         | _ \<Rightarrow> peer_scan self sts allDown))"

definition peerSummaryLocked :: "coordinator \<Rightarrow> comp \<Rightarrow> comp option \<times> bool" where
  "peerSummaryLocked s self = peer_scan self (k_states s) True"

text \<open>\<open>onFailure\<close>: the critical section, and what the coordinator does after it.\<close>

definition onFailure :: "failure \<Rightarrow> coordinator \<Rightarrow> coordinator \<times> kpc" where
  "onFailure f s =
     (let s1 = upd_state (f_comp f)
                 (\<lambda>st. if cs_phase st \<noteq> PhaseGaveUp then st\<lparr>cs_phase := PhaseWaitingRetry, cs_last := f\<rparr> else st) s;
          (peerStarted, allDown) = peerSummaryLocked s1 (f_comp f);
          hasDependent = hasPendingDependentLocked s1 (f_comp f);
          retry = (if f_attempt f < k_max s then KPublish (f_comp f) (f_attempt f + 1) else KSelect)
      in (s1, if peerStarted \<noteq> None then retry
              else if hasDependent then retry
              else if allDown then KAbort (f_comp f) else KSelect))"

definition pendingPeerFailuresLocked :: "coordinator \<Rightarrow> comp \<Rightarrow> failure list" where
  "pendingPeerFailuresLocked s self =
     map (\<lambda>(name, st). cs_last st) (filter (\<lambda>(name, st). name \<noteq> self \<and> cs_phase st = PhaseWaitingRetry) (k_states s))"

text \<open>The critical sections of \<open>markStarted\<close> and \<open>markGaveUp\<close>, and the closing of the started channel.\<close>

definition markStarted_locked :: "comp \<Rightarrow> coordinator \<Rightarrow> coordinator \<times> bool \<times> failure list" where
  "markStarted_locked c s =
     (let already = (phase_of s c = Some PhaseStarted); s1 = upd_state c (\<lambda>st. st\<lparr>cs_phase := PhaseStarted\<rparr>) s
      in (s1, already, pendingPeerFailuresLocked s1 c))"

definition close_started :: "comp \<Rightarrow> bool \<Rightarrow> coordinator \<Rightarrow> coordinator" where
  "close_started c already s =
     (if already then s
      else if c \<in> set (k_started s) then s\<lparr>k_panic := True\<rparr>
      else s\<lparr>k_started := c # k_started s\<rparr>)"

definition markGaveUp_locked :: "comp \<Rightarrow> coordinator \<Rightarrow> coordinator" where
  "markGaveUp_locked c s = upd_state c (\<lambda>st. st\<lparr>cs_phase := PhaseGaveUp\<rparr>) s"

inductive cstep :: "coordinator \<Rightarrow> coordinator \<Rightarrow> bool" where
  cancel: "cstep s (s\<lparr>k_ctx := True\<rparr>)"
| deps_done: "c \<in> set (comps s) \<Longrightarrow> k_run s c = RnDeps [] \<Longrightarrow> cstep s (set_run c (RnAttempt 1) s)"
| dep_ready: "c \<in> set (comps s) \<Longrightarrow> k_run s c = RnDeps (d # ds) \<Longrightarrow> d \<in> set (k_started s) \<Longrightarrow> cstep s (set_run c (RnDeps ds) s)"
| dep_cancel: "c \<in> set (comps s) \<Longrightarrow> k_run s c = RnDeps (d # ds) \<Longrightarrow> k_ctx s \<Longrightarrow> cstep s (set_run c RnDone s)"
| ready: "c \<in> set (comps s) \<Longrightarrow> k_run s c = RnAttempt n \<Longrightarrow> cstep s (set_run c (RnMark n) s)"
| fail: "c \<in> set (comps s) \<Longrightarrow> k_run s c = RnAttempt n \<Longrightarrow> cstep s (set_run c (RnFailed n e) s)"
| mark: "c \<in> set (comps s) \<Longrightarrow> k_run s c = RnMark n \<Longrightarrow> markStarted_locked c s = (s1, already, pend) \<Longrightarrow>
     cstep s (set_run c (RnClose n already pend) s1)"
| close_ch: "c \<in> set (comps s) \<Longrightarrow> k_run s c = RnClose n already pend \<Longrightarrow>
     cstep s (set_run c (RnAnnounce n pend) (close_started c already s))"
| announce: "c \<in> set (comps s) \<Longrightarrow> k_run s c = RnAnnounce n pend \<Longrightarrow>
     cstep s (set_run c (RnPublish n pend) (emit c KindStarted n s))"
| publish: "c \<in> set (comps s) \<Longrightarrow> k_run s c = RnPublish n (f # fs) \<Longrightarrow>
     cstep s (set_run c (RnPublish n fs) (if f_attempt f < k_max s then publishRetry (f_comp f) (f_attempt f + 1) s else s))"
| published: "c \<in> set (comps s) \<Longrightarrow> k_run s c = RnPublish n [] \<Longrightarrow> cstep s (set_run c (RnRunning n) s)"
| exited: "c \<in> set (comps s) \<Longrightarrow> k_run s c = RnRunning n \<Longrightarrow> cstep s (set_run c RnDone (emit c KindExited n s))"
| fail_cancel: "c \<in> set (comps s) \<Longrightarrow> k_run s c = RnFailed n e \<Longrightarrow> k_ctx s \<Longrightarrow> cstep s (set_run c RnDone s)"
| fail_report: "c \<in> set (comps s) \<Longrightarrow> k_run s c = RnFailed n e \<Longrightarrow> \<not> k_ctx s \<Longrightarrow>
     cstep s (set_run c (if n = k_max s then RnGiveUp n e else RnAwait n) (onFailed \<lparr>f_comp = c, f_attempt = n, f_err = e\<rparr> s))"
| give_up: "c \<in> set (comps s) \<Longrightarrow> k_run s c = RnGiveUp n e \<Longrightarrow> cstep s (set_run c (RnGaveUp n e) (markGaveUp_locked c s))"
| gave_up: "c \<in> set (comps s) \<Longrightarrow> k_run s c = RnGaveUp n e \<Longrightarrow> cstep s (set_run c RnAbort (emit c KindGaveUp n s))"
| give_up_abort: "c \<in> set (comps s) \<Longrightarrow> k_run s c = RnAbort \<Longrightarrow> cstep s (set_run c RnDone (abort c s))"
| await_cancel: "c \<in> set (comps s) \<Longrightarrow> k_run s c = RnAwait n \<or> k_run s c = RnDelay n \<Longrightarrow> k_ctx s \<Longrightarrow> cstep s (set_run c RnDone s)"
| await_retry: "c \<in> set (comps s) \<Longrightarrow> k_run s c = RnAwait n \<Longrightarrow> k_retry s c = m # ms \<Longrightarrow>
     cstep s (set_run c (RnDelay n) (s\<lparr>k_retry := (k_retry s)(c := ms)\<rparr>))"
| delay: "c \<in> set (comps s) \<Longrightarrow> k_run s c = RnDelay n \<Longrightarrow> cstep s (set_run c (RnAttempt (n + 1)) s)"
| coord_cancel: "k_main s = KSelect \<Longrightarrow> k_ctx s \<Longrightarrow> cstep s (s\<lparr>k_main := KDone\<rparr>)"
| coord_failure: "k_main s = KSelect \<Longrightarrow> k_fail s = f # fs \<Longrightarrow> onFailure f (s\<lparr>k_fail := fs\<rparr>) = (s1, pc) \<Longrightarrow>
     cstep s (s1\<lparr>k_main := pc\<rparr>)"
| coord_overflow: "k_main s = KSelect \<Longrightarrow> k_over s = Some c \<Longrightarrow> cstep s (s\<lparr>k_over := None, k_main := KAbort c\<rparr>)"
| coord_publish: "k_main s = KPublish c n \<Longrightarrow> cstep s ((publishRetry c n s)\<lparr>k_main := KSelect\<rparr>)"
| coord_abort: "k_main s = KAbort c \<Longrightarrow> cstep s ((abort c s)\<lparr>k_main := KSelect\<rparr>)"
| all_done: "\<forall>c \<in> set (comps s). k_run s c = RnDone \<Longrightarrow> cstep s (s\<lparr>k_ctx := True\<rparr>)"
| close_events: "\<forall>c \<in> set (comps s). k_run s c = RnDone \<Longrightarrow> k_main s = KDone \<Longrightarrow> cstep s (s\<lparr>k_evclosed := True\<rparr>)"

inductive creach :: "spec list \<Rightarrow> int \<Rightarrow> coordinator \<Rightarrow> bool" for specs maxRetries where
  init: "coord_New True maxRetries specs = Some (Inr s) \<Longrightarrow> creach specs maxRetries s"
| step: "creach specs maxRetries s \<Longrightarrow> cstep s s' \<Longrightarrow> creach specs maxRetries s'"

end
