(* ===== verification/Startup_Graph.thy ===== *)
theory Startup_Graph
  imports Startup
begin

text \<open>
  The check of the component graph in \<open>New\<close>: the coloured depth-first search of \<open>ensureAcyclic\<close> always ends within its
  fuel, reports an error exactly when the declared dependencies have a cycle, and \<open>New\<close> accepts exactly the well-formed
  acyclic specifications.
\<close>

section \<open>The search for cycles\<close>

definition edges :: "(comp \<times> comp list) list \<Rightarrow> (comp \<times> comp) set" where
  "edges deps = {(a, b). \<exists>ds. map_of deps a = Some ds \<and> b \<in> set ds}"

abbreviation succs :: "(comp \<times> comp list) list \<Rightarrow> comp \<Rightarrow> comp list" where
  "succs deps a \<equiv> (case map_of deps a of None \<Rightarrow> [] | Some ds \<Rightarrow> ds)"

lemma edges_succs: "(a, b) \<in> edges deps \<longleftrightarrow> b \<in> set (succs deps a)"
  by (cases "map_of deps a") (auto simp: edges_def)

text \<open>Black nodes are closed under the edges, and the graph on them has no cycle.\<close>

definition blacks_ok :: "(comp \<times> comp list) list \<Rightarrow> coloring \<Rightarrow> bool" where
  "blacks_ok deps color = ((\<forall>a b. color a = Black \<and> (a, b) \<in> edges deps \<longrightarrow> color b = Black)
     \<and> acyclic {(a, b) \<in> edges deps. color a = Black})"

definition extends :: "coloring \<Rightarrow> coloring \<Rightarrow> bool" where
  "extends color color' = (\<forall>x. (color x \<noteq> White \<longrightarrow> color' x = color x) \<and> (color' x = Gray \<longrightarrow> color x = Gray))"

lemma extends_trans: "extends c1 c2 \<Longrightarrow> extends c2 c3 \<Longrightarrow> extends c1 c3"
  unfolding extends_def by metis

lemma blacken:
  assumes "blacks_ok deps color" "color node \<noteq> Black" "\<forall>b. (node, b) \<in> edges deps \<longrightarrow> color b = Black"
  shows "blacks_ok deps (color(node := Black))"
proof -
  let ?old = "{(a, b) \<in> edges deps. color a = Black}" and ?new = "{(a, b) \<in> edges deps. (color(node := Black)) a = Black}"
  have new: "?new = ?old \<union> {node} \<times> {b. (node, b) \<in> edges deps}" using assms(2) by (auto split: if_splits)
  have closed: "(b, x) \<in> ?old\<^sup>* \<Longrightarrow> color b = Black \<Longrightarrow> color x = Black" for b x
    by (induction rule: rtrancl_induct) (use assms(1) in \<open>auto simp: blacks_ok_def\<close>)
  have ac: "acyclic (?old \<union> {node} \<times> B)" if "B \<subseteq> {b. (node, b) \<in> edges deps}" "finite B" for B
    using that(2,1)
  proof (induction B)
    case empty
    then show ?case using assms(1) by (simp add: blacks_ok_def)
  next
    case (insert b B)
    have "(b, node) \<notin> (?old \<union> {node} \<times> B)\<^sup>*"
    proof
      assume p: "(b, node) \<in> (?old \<union> {node} \<times> B)\<^sup>*"
      have "color x = Black" if "(b, x) \<in> (?old \<union> {node} \<times> B)\<^sup>*" for x
        using that
      proof (induction rule: rtrancl_induct)
        case base
        then show ?case using insert.prems assms(3) by auto
      next
        case (step y z)
        then show ?case using assms(1,2) by (auto simp: blacks_ok_def)
      qed
      then show False using p assms(2) by blast
    qed
    moreover have "?old \<union> {node} \<times> insert b B = insert (node, b) (?old \<union> {node} \<times> B)" by auto
    ultimately show ?case using insert by simp
  qed
  have "{b. (node, b) \<in> edges deps} = set (succs deps node)" by (simp only: edges_succs Collect_mem_eq)
  then have "finite {b. (node, b) \<in> edges deps}" by (metis finite_set)
  then have "acyclic ?new" unfolding new by (rule ac [OF subset_refl])
  then show ?thesis using assms(1,3) unfolding blacks_ok_def by (auto split: if_splits)
qed

lemma visit_sound:
  "visitForCycle fuel node deps color = Some (Inr color') \<Longrightarrow> color node = White \<Longrightarrow> blacks_ok deps color \<Longrightarrow>
     extends color color' \<and> color' node = Black \<and> blacks_ok deps color'"
  "visit_deps fuel node ds deps color = Some (Inr color') \<Longrightarrow> blacks_ok deps color \<Longrightarrow>
     extends color color' \<and> (\<forall>d \<in> set ds. color' d = Black) \<and> blacks_ok deps color'"
proof (induction fuel node deps color and fuel node ds deps color arbitrary: color' and color' rule: visitForCycle_visit_deps.induct)
  case (1 node deps color)
  then show ?case by simp
next
  case (2 fuel node deps color)
  then obtain c1 where c1: "visit_deps fuel node (succs deps node) deps (color(node := Gray)) = Some (Inr c1)"
    and c': "color' = c1(node := Black)" by (auto split: option.splits sum.splits)
  have b: "blacks_ok deps (color(node := Gray))"
  proof -
    have "{(a, b) \<in> edges deps. (color(node := Gray)) a = Black} = {(a, b) \<in> edges deps. color a = Black}" using 2(3) by (auto split: if_splits)
    then show ?thesis using 2(3,4) unfolding blacks_ok_def by auto
  qed
  note ih = 2(1) [OF c1 b]
  then have g: "c1 node = Gray" by (auto simp: extends_def)
  have "blacks_ok deps (c1(node := Black))" using ih g by (intro blacken) (auto simp: edges_succs)
  moreover have "extends color (c1(node := Black))" using ih 2(3) by (auto simp: extends_def split: if_splits)
  ultimately show ?case unfolding c' by (simp only: fun_upd_same simp_thms)
next
  case (3 fuel node deps color)
  then show ?case by (simp add: extends_def)
next
  case (4 fuel node d ds deps color)
  show ?case
  proof (cases "color d")
    case White
    then obtain c1 where c1: "visitForCycle fuel d deps color = Some (Inr c1)" "visit_deps fuel node ds deps c1 = Some (Inr color')"
      using 4(4) by (auto split: option.splits sum.splits)
    note a = 4(1) [OF White c1(1) White 4(5)]
    have b: "extends c1 color' \<and> (\<forall>d \<in> set ds. color' d = Black) \<and> blacks_ok deps color'"
      using 4(2) [OF White c1(1) refl c1(2)] a by simp
    have "color' d = Black" using conjunct1 [OF b] a unfolding extends_def by (metis color.distinct(3))
    then show ?thesis using a b extends_trans [of color c1 color'] by simp
  next
    case Gray
    then show ?thesis using 4(4) by simp
  next
    case Black
    then have v: "visit_deps fuel node ds deps color = Some (Inr color')" using 4(4) by simp
    note k = 4(3) [OF Black v 4(5)]
    have "color' d = Black" using conjunct1 [OF k] Black unfolding extends_def by (metis color.distinct(3))
    then show ?thesis using k by simp
  qed
qed


text \<open>An error of the search shows a cycle: a gray node is on the path to the current one.\<close>

lemma visit_error:
  "visitForCycle fuel node deps color = Some (Inl e) \<Longrightarrow> \<forall>x. color x = Gray \<longrightarrow> (x, node) \<in> (edges deps)\<^sup>+ \<Longrightarrow>
     color node = White \<Longrightarrow> blacks_ok deps color \<Longrightarrow> \<not> acyclic (edges deps)"
  "visit_deps fuel node ds deps color = Some (Inl e) \<Longrightarrow> \<forall>x. color x = Gray \<longrightarrow> (x, node) \<in> (edges deps)\<^sup>* \<Longrightarrow>
     set ds \<subseteq> set (succs deps node) \<Longrightarrow> blacks_ok deps color \<Longrightarrow> \<not> acyclic (edges deps)"
proof (induction fuel node deps color and fuel node ds deps color rule: visitForCycle_visit_deps.induct)
  case (1 node deps color)
  then show ?case by simp
next
  case (2 fuel node deps color)
  then have v: "visit_deps fuel node (succs deps node) deps (color(node := Gray)) = Some (Inl e)"
    by (auto split: option.splits sum.splits)
  have "{(a, b) \<in> edges deps. (color(node := Gray)) a = Black} = {(a, b) \<in> edges deps. color a = Black}"
    using 2(4) by (auto split: if_splits)
  then have b: "blacks_ok deps (color(node := Gray))" using 2(4,5) unfolding blacks_ok_def by auto
  show ?case using 2(1) [OF v _ subset_refl b] 2(3) by (auto simp: trancl_into_rtrancl)
next
  case (3 fuel node deps color)
  then show ?case by simp
next
  case (4 fuel node d ds deps color)
  have e: "(node, d) \<in> edges deps" using 4(6) edges_succs by auto
  show ?case
  proof (cases "color d")
    case White
    show ?thesis
    proof (cases "visitForCycle fuel d deps color")
      case None
      then show ?thesis using 4(4) White by simp
    next
      case (Some r)
      have up: "\<forall>x. color x = Gray \<longrightarrow> (x, d) \<in> (edges deps)\<^sup>+" using 4(5) e by (auto intro: rtrancl_into_trancl1)
      show ?thesis
      proof (cases r)
        case (Inl e')
        then show ?thesis using 4(1) [OF White] Some 4(4) White up 4(7) by simp
      next
        case (Inr c1)
        note k = visit_sound(1) [OF Some [unfolded Inr] White 4(7)]
        have v: "visit_deps fuel node ds deps c1 = Some (Inl e)" using 4(4) Some Inr White by simp
        show ?thesis using 4(2) [OF White Some Inr v] 4(5,6) k by (auto simp: extends_def)
      qed
    qed
  next
    case Gray
    then have "(d, d) \<in> (edges deps)\<^sup>+" using 4(5) e by (auto intro: rtrancl_into_trancl1)
    then show ?thesis by (auto simp: acyclic_def)
  next
    case Black
    then have v: "visit_deps fuel node ds deps color = Some (Inl e)" using 4(4) by simp
    show ?thesis using 4(3) [OF Black v 4(5) _ 4(7)] 4(6) by simp
  qed
qed

text \<open>The number of components is fuel enough.\<close>

definition whites :: "comp list \<Rightarrow> coloring \<Rightarrow> comp set" where
  "whites names color = {c \<in> set names. color c = White}"

lemma finite_whites [simp]: "finite (whites names color)"
  by (simp add: whites_def)

lemma visit_enough:
  "\<forall>a b. (a, b) \<in> edges deps \<longrightarrow> b \<in> set names \<Longrightarrow> node \<in> set names \<Longrightarrow> color node = White \<Longrightarrow> blacks_ok deps color \<Longrightarrow>
     card (whites names color) \<le> fuel \<Longrightarrow> visitForCycle fuel node deps color \<noteq> None"
  "\<forall>a b. (a, b) \<in> edges deps \<longrightarrow> b \<in> set names \<Longrightarrow> set ds \<subseteq> set names \<Longrightarrow> blacks_ok deps color \<Longrightarrow>
     card (whites names color) \<le> fuel \<Longrightarrow> visit_deps fuel node ds deps color \<noteq> None"
proof (induction fuel node deps color and fuel node ds deps color rule: visitForCycle_visit_deps.induct)
  case (1 node deps color)
  then have "node \<in> whites names color" by (simp add: whites_def)
  then show ?case using 1(5) by (auto simp: card_eq_0_iff)
next
  case (2 fuel node deps color)
  have "whites names (color(node := Gray)) = whites names color - {node}" by (auto simp: whites_def)
  moreover have "node \<in> whites names color" using 2(3,4) by (simp add: whites_def)
  ultimately have w: "card (whites names (color(node := Gray))) \<le> fuel"
    using 2(6) by (simp add: card_Diff_singleton)
  have s: "set (succs deps node) \<subseteq> set names" using 2(2) edges_succs by blast
  have "{(a, b) \<in> edges deps. (color(node := Gray)) a = Black} = {(a, b) \<in> edges deps. color a = Black}"
    using 2(4) by (auto split: if_splits)
  then have b: "blacks_ok deps (color(node := Gray))" using 2(4,5) unfolding blacks_ok_def by auto
  obtain y where "visit_deps fuel node (succs deps node) deps (color(node := Gray)) = Some y" using 2(1) [OF 2(2) s b w] by blast
  then show ?case by (cases y) simp_all
next
  case (3 fuel node deps color)
  then show ?case by simp
next
  case (4 fuel node d ds deps color)
  show ?case
  proof (cases "color d")
    case White
    have n: "visitForCycle fuel d deps color \<noteq> None" using 4(1) [OF White 4(4) _ White 4(6,7)] 4(5) by simp
    then obtain r where r: "visitForCycle fuel d deps color = Some r" by auto
    show ?thesis
    proof (cases r)
      case (Inl e)
      then show ?thesis using r White by simp
    next
      case (Inr c1)
      note k = visit_sound(1) [OF r [unfolded Inr] White 4(6)]
      have "whites names c1 \<subseteq> whites names color" using k by (auto simp: whites_def extends_def)
      then have w: "card (whites names c1) \<le> fuel" using 4(7) card_mono [of "whites names color" "whites names c1"] by simp
      have "visit_deps fuel node ds deps c1 \<noteq> None" using 4(2) [OF White r Inr 4(4) _ _ w] 4(5) k by simp
      then show ?thesis using r Inr White by simp
    qed
  next
    case Black
    then show ?thesis using 4(3) [OF Black 4(4) _ 4(6,7)] 4(5) by simp
  qed simp
qed


lemma acyclic_loop_correct:
  assumes "\<forall>a b. (a, b) \<in> edges deps \<longrightarrow> b \<in> set names" "set cs \<subseteq> set names" "length names \<le> fuel"
    and "blacks_ok deps color" "\<forall>x. color x \<noteq> Gray"
  shows "\<exists>r. acyclic_loop fuel cs deps color = Some r \<and> (r \<noteq> None \<longrightarrow> \<not> acyclic (edges deps))
    \<and> (r = None \<longrightarrow> (\<exists>color'. extends color color' \<and> (\<forall>c \<in> set cs. color' c = Black) \<and> blacks_ok deps color'))"
  using assms(2,4,5)
proof (induction cs arbitrary: color)
  case Nil
  then show ?case by (auto simp: extends_def)
next
  case (Cons c cs)
  show ?case
  proof (cases "color c = White")
    case False
    then have b: "color c = Black" using Cons.prems(3) by (metis color.exhaust)
    obtain r where r: "acyclic_loop fuel cs deps color = Some r" "r \<noteq> None \<longrightarrow> \<not> acyclic (edges deps)"
      "r = None \<longrightarrow> (\<exists>color'. extends color color' \<and> (\<forall>c \<in> set cs. color' c = Black) \<and> blacks_ok deps color')"
      using Cons.IH [OF _ Cons.prems(2,3)] Cons.prems(1) by auto
    have "color' c = Black" if "extends color color'" for color' using that b unfolding extends_def by (metis color.distinct(3))
    then show ?thesis using r False by auto
  next
    case White: True
    have "card (whites names color) \<le> fuel"
      using card_mono [of "set names" "whites names color"] card_length [of names] assms(3) by (simp add: whites_def subset_iff)
    then obtain y where y: "visitForCycle fuel c deps color = Some y"
      using visit_enough(1) [OF assms(1) _ White Cons.prems(2)] Cons.prems(1) by fastforce
    show ?thesis
    proof (cases y)
      case (Inl e)
      then show ?thesis using y White visit_error(1) [OF y [unfolded Inl] _ White Cons.prems(2)] Cons.prems(3) by simp
    next
      case (Inr c1)
      note k = visit_sound(1) [OF y [unfolded Inr] White Cons.prems(2)]
      have g: "\<forall>x. c1 x \<noteq> Gray" using k Cons.prems(3) unfolding extends_def by blast
      obtain r where r: "acyclic_loop fuel cs deps c1 = Some r" "r \<noteq> None \<longrightarrow> \<not> acyclic (edges deps)"
        "r = None \<longrightarrow> (\<exists>color'. extends c1 color' \<and> (\<forall>c \<in> set cs. color' c = Black) \<and> blacks_ok deps color')"
        using Cons.IH [OF _ _ g] Cons.prems(1) k by auto
      have "extends color color' \<and> color' c = Black" if "extends c1 color'" for color'
        using that k extends_trans [of color c1 color'] unfolding extends_def by (metis color.distinct(3))
      then show ?thesis using r y Inr White by auto
    qed
  qed
qed

lemma ensureAcyclic_iff:
  assumes "\<forall>a b. (a, b) \<in> edges deps \<longrightarrow> a \<in> sp_name ` set specs \<and> b \<in> sp_name ` set specs"
  shows "ensureAcyclic specs deps = Some None \<longleftrightarrow> acyclic (edges deps)" "ensureAcyclic specs deps \<noteq> None"
proof -
  have b: "blacks_ok deps (\<lambda>_. White)" by (simp add: blacks_ok_def acyclic_def)
  obtain r where r: "ensureAcyclic specs deps = Some r" "r \<noteq> None \<longrightarrow> \<not> acyclic (edges deps)"
    "r = None \<longrightarrow> (\<exists>color'. (\<forall>c \<in> sp_name ` set specs. color' c = Black) \<and> blacks_ok deps color')"
    using acyclic_loop_correct [of deps "map sp_name specs" "map sp_name specs" "length specs" "\<lambda>_. White"] assms b
    unfolding ensureAcyclic_def by auto
  have "acyclic (edges deps)" if c: "\<forall>c \<in> sp_name ` set specs. color' c = Black" "blacks_ok deps color'" for color'
  proof -
    have "{(a, b) \<in> edges deps. color' a = Black} = edges deps" using assms c(1) by auto
    then show ?thesis using c(2) by (simp add: blacks_ok_def)
  qed
  then show "ensureAcyclic specs deps = Some None \<longleftrightarrow> acyclic (edges deps)" "ensureAcyclic specs deps \<noteq> None" using r by auto
qed

lemma dep_set_Inr:
  "dep_set self known ds acc = Inr out \<Longrightarrow> set out = set acc \<union> set ds \<and> self \<notin> set ds \<and> set ds \<subseteq> set known"
  by (induction self known ds acc arbitrary: out rule: dep_set.induct) (auto split: if_splits)

lemma dep_set_ok: "self \<notin> set ds \<Longrightarrow> set ds \<subseteq> set known \<Longrightarrow> \<exists>out. dep_set self known ds acc = Inr out"
  by (induction self known ds acc rule: dep_set.induct) auto

definition spec_edges :: "spec list \<Rightarrow> (comp \<times> comp) set" where
  "spec_edges specs = {(sp_name sp, d) |sp d. sp \<in> set specs \<and> d \<in> set (sp_deps sp)}"

lemma dep_sets_Inr:
  "dep_sets known specs acc = Inr deps \<Longrightarrow> distinct (map sp_name specs) \<Longrightarrow> distinct (map fst acc) \<Longrightarrow> set (map fst acc) \<inter> sp_name ` set specs = {} \<Longrightarrow>
     edges deps = edges acc \<union> spec_edges specs \<and> (\<forall>sp \<in> set specs. sp_name sp \<notin> set (sp_deps sp) \<and> set (sp_deps sp) \<subseteq> set known)"
proof (induction known specs acc arbitrary: deps rule: dep_sets.induct)
  case (2 known sp sps acc)
  then obtain ds where ds: "dep_set (sp_name sp) known (sp_deps sp) [] = Inr ds" "dep_sets known sps (acc @ [(sp_name sp, ds)]) = Inr deps"
    by (auto split: sum.splits)
  note k = dep_set_Inr [OF ds(1)]
  have ih: "edges deps = edges (acc @ [(sp_name sp, ds)]) \<union> spec_edges sps
      \<and> (\<forall>sp \<in> set sps. sp_name sp \<notin> set (sp_deps sp) \<and> set (sp_deps sp) \<subseteq> set known)"
    using 2(1) [OF ds] 2(3-5) by (auto simp: image_iff)
  have "map_of acc (sp_name sp) = None" using 2(5) by (auto simp: map_of_eq_None_iff)
  then have "edges (acc @ [(sp_name sp, ds)]) = edges acc \<union> {sp_name sp} \<times> set ds"
    by (auto simp: edges_def map_add_def split: option.splits if_splits)
  then show ?case using ih k by (auto simp: spec_edges_def)
qed (simp add: spec_edges_def)

lemma dep_sets_ok:
  "\<forall>sp \<in> set specs. sp_name sp \<notin> set (sp_deps sp) \<and> set (sp_deps sp) \<subseteq> set known \<Longrightarrow> \<exists>deps. dep_sets known specs acc = Inr deps"
proof (induction known specs acc rule: dep_sets.induct)
  case (2 known sp sps acc)
  obtain ds where "dep_set (sp_name sp) known (sp_deps sp) [] = Inr ds"
    using dep_set_ok [of "sp_name sp" "sp_deps sp" known "[]"] 2(2) by auto
  then show ?case using 2 by simp
qed simp

lemma first_dup_None: "first_dup seen cs = None \<longleftrightarrow> distinct cs \<and> set cs \<inter> set seen = {}"
  by (induction seen cs rule: first_dup.induct) auto

section \<open>Properties\<close>

text \<open>What building the dependencies does, for distinct names.\<close>

lemma dep_sets_edges:
  assumes "dep_sets (map sp_name specs) specs [] = Inr deps" "distinct (map sp_name specs)"
  shows "edges deps = spec_edges specs" "\<forall>sp \<in> set specs. sp_name sp \<notin> set (sp_deps sp) \<and> set (sp_deps sp) \<subseteq> set (map sp_name specs)"
    and "\<forall>a b. (a, b) \<in> edges deps \<longrightarrow> a \<in> sp_name ` set specs \<and> b \<in> sp_name ` set specs"
proof -
  show e: "edges deps = spec_edges specs" "\<forall>sp \<in> set specs. sp_name sp \<notin> set (sp_deps sp) \<and> set (sp_deps sp) \<subseteq> set (map sp_name specs)"
    using dep_sets_Inr [OF assms] by (simp_all add: edges_def)
  show "\<forall>a b. (a, b) \<in> edges deps \<longrightarrow> a \<in> sp_name ` set specs \<and> b \<in> sp_name ` set specs"
    using e by (auto simp: spec_edges_def)
qed

lemma dep_sets_refuses:
  assumes "dep_sets (map sp_name specs) specs [] = Inl e"
  shows "\<not> (snd ` spec_edges specs \<subseteq> sp_name ` set specs \<and> acyclic (spec_edges specs))"
proof
  assume a: "snd ` spec_edges specs \<subseteq> sp_name ` set specs \<and> acyclic (spec_edges specs)"
  then have "\<forall>sp \<in> set specs. set (sp_deps sp) \<subseteq> set (map sp_name specs)" by (force simp: spec_edges_def)
  moreover have "\<forall>sp \<in> set specs. sp_name sp \<notin> set (sp_deps sp)" using a unfolding acyclic_def spec_edges_def by blast
  ultimately show False using dep_sets_ok [of specs "map sp_name specs" "[]"] assms by auto
qed

lemma buildDependencies_iff:
  assumes di: "distinct (map sp_name specs)"
  shows "(\<exists>d. buildDependencies specs (map sp_name specs) = Some (Inr d)) \<longleftrightarrow>
      snd ` spec_edges specs \<subseteq> sp_name ` set specs \<and> acyclic (spec_edges specs)" (is ?iff)
    and "buildDependencies specs (map sp_name specs) \<noteq> None" (is ?ends)
proof -
  have "ensureAcyclic specs deps \<noteq> None" if "dep_sets (map sp_name specs) specs [] = Inr deps" for deps
    by (rule ensureAcyclic_iff(2) [OF dep_sets_edges(3) [OF that di]])
  then show ?ends by (auto simp: buildDependencies_def split: sum.splits option.splits)
  show ?iff
  proof (cases "dep_sets (map sp_name specs) specs []")
    case (Inl e)
    then show ?thesis using dep_sets_refuses by (simp add: buildDependencies_def)
  next
    case (Inr deps)
    note e = dep_sets_edges [OF Inr di] and a = ensureAcyclic_iff [OF dep_sets_edges(3) [OF Inr di]]
    have "snd ` spec_edges specs \<subseteq> sp_name ` set specs" using e(2) by (force simp: spec_edges_def)
    then show ?thesis using Inr a e(1) by (auto simp: buildDependencies_def split: option.splits)
  qed
qed

text \<open>C36: \<open>New\<close> always returns, and accepts a specification exactly when it has at least two components with distinct
  names whose dependencies are declared components and have no cycle (no self-dependency in particular).\<close>

theorem New_accepts_iff:
  "((\<exists>s. coord_New True maxRetries specs = Some (Inr s))
     \<longleftrightarrow> 2 \<le> length specs \<and> distinct (map sp_name specs) \<and> snd ` spec_edges specs \<subseteq> sp_name ` set specs \<and> acyclic (spec_edges specs)) \<and> coord_New bus maxRetries specs \<noteq> None"
proof (intro conjI)
  let ?known = "map sp_name specs"
  show "(\<exists>s. coord_New True maxRetries specs = Some (Inr s))
     \<longleftrightarrow> 2 \<le> length specs \<and> distinct (map sp_name specs) \<and> snd ` spec_edges specs \<subseteq> sp_name ` set specs \<and> acyclic (spec_edges specs)"
  proof (cases "2 \<le> length specs \<and> distinct ?known")
    case True
    then have "first_dup [] ?known = None" by (simp add: first_dup_None)
    then show ?thesis using True buildDependencies_iff(1) [of specs] by (auto simp: coord_New_def split: option.splits sum.splits)
  next
    case False
    then show ?thesis using first_dup_None [of "[]" ?known] by (auto simp: coord_New_def split: option.splits)
  qed
  show "coord_New bus maxRetries specs \<noteq> None"
    using buildDependencies_iff(2) [of specs] first_dup_None [of "[]" ?known] by (auto simp: coord_New_def split: option.splits sum.splits)
qed

end
