(* ===== verification/Startup_Run.thy ===== *)
theory Startup_Run
  imports Startup_Graph
begin

text \<open>
  Invariants of the startup protocol over all interleavings of the coordinator and the components: attempts and events
  are bounded, dependencies are respected and no channel is misused; and no component is left waiting for ever.
\<close>

section \<open>Effects of the operations on the fields\<close>

lemma upd_state_fields [simp]:
  "comps (upd_state c f s) = comps s" "k_run (upd_state c f s) = k_run s" "k_started (upd_state c f s) = k_started s"
  "k_events (upd_state c f s) = k_events s" "k_max (upd_state c f s) = k_max s" "k_evclosed (upd_state c f s) = k_evclosed s"
  "k_panic (upd_state c f s) = k_panic s" "k_ctx (upd_state c f s) = k_ctx s" "k_main (upd_state c f s) = k_main s"
  "k_aborted (upd_state c f s) = k_aborted s" "k_deps (upd_state c f s) = k_deps s"
  by (simp_all add: upd_state_def comps_def case_prod_unfold)

lemma comps_upd [simp]:
  "comps (s\<lparr>k_run := x1\<rparr>) = comps s" "comps (s\<lparr>k_started := x2\<rparr>) = comps s" "comps (s\<lparr>k_fail := x3\<rparr>) = comps s"
  "comps (s\<lparr>k_retry := x4\<rparr>) = comps s" "comps (s\<lparr>k_over := x5\<rparr>) = comps s" "comps (s\<lparr>k_events := x6\<rparr>) = comps s"
  "comps (s\<lparr>k_ctx := x7\<rparr>) = comps s" "comps (s\<lparr>k_aborted := x8\<rparr>) = comps s" "comps (s\<lparr>k_main := x9\<rparr>) = comps s"
  "comps (s\<lparr>k_evclosed := x10\<rparr>) = comps s" "comps (s\<lparr>k_panic := x11\<rparr>) = comps s"
  by (simp_all add: comps_def)

lemma queue_fields [simp]:
  "comps (signalOverflow c s) = comps s" "k_run (signalOverflow c s) = k_run s" "k_started (signalOverflow c s) = k_started s"
  "k_events (signalOverflow c s) = k_events s" "k_max (signalOverflow c s) = k_max s" "k_evclosed (signalOverflow c s) = k_evclosed s"
  "k_panic (signalOverflow c s) = k_panic s" "k_main (signalOverflow c s) = k_main s" "k_aborted (signalOverflow c s) = k_aborted s"
  "comps (onFailed f s) = comps s" "k_run (onFailed f s) = k_run s" "k_started (onFailed f s) = k_started s"
  "k_events (onFailed f s) = k_events s" "k_max (onFailed f s) = k_max s" "k_evclosed (onFailed f s) = k_evclosed s"
  "k_panic (onFailed f s) = k_panic s" "k_main (onFailed f s) = k_main s" "k_aborted (onFailed f s) = k_aborted s"
  "comps (publishRetry c n s) = comps s" "k_run (publishRetry c n s) = k_run s" "k_started (publishRetry c n s) = k_started s"
  "k_events (publishRetry c n s) = k_events s" "k_max (publishRetry c n s) = k_max s" "k_evclosed (publishRetry c n s) = k_evclosed s"
  "k_panic (publishRetry c n s) = k_panic s" "k_main (publishRetry c n s) = k_main s" "k_aborted (publishRetry c n s) = k_aborted s"
  by (simp_all add: signalOverflow_def onFailed_def publishRetry_def onRetry_def split: option.split)

lemma emit_fields [simp]:
  "comps (emit c k n s) = comps s" "k_run (emit c k n s) = k_run s" "k_started (emit c k n s) = k_started s"
  "k_max (emit c k n s) = k_max s" "k_evclosed (emit c k n s) = k_evclosed s" "k_main (emit c k n s) = k_main s"
  "k_aborted (emit c k n s) = k_aborted s"
  "\<not> k_evclosed s \<Longrightarrow> k_events (emit c k n s) = k_events s @ [\<lparr>e_comp = c, e_kind = k, e_attempt = n\<rparr>]"
  "\<not> k_evclosed s \<Longrightarrow> k_panic (emit c k n s) = k_panic s"
  by (simp_all add: emit_def)

lemma abort_fields [simp]:
  "comps (abort c s) = comps s" "k_run (abort c s) = k_run s" "k_started (abort c s) = k_started s" "k_max (abort c s) = k_max s"
  "k_evclosed (abort c s) = k_evclosed s" "k_main (abort c s) = k_main s" "k_aborted (abort c s)"
  by (simp_all add: abort_def)

lemma onFailure_fields:
  "onFailure f s = (s1, pc) \<Longrightarrow> comps s1 = comps s \<and> k_run s1 = k_run s \<and> k_started s1 = k_started s \<and> k_events s1 = k_events s
     \<and> k_max s1 = k_max s \<and> k_evclosed s1 = k_evclosed s \<and> k_panic s1 = k_panic s \<and> k_aborted s1 = k_aborted s \<and> pc \<noteq> KDone"
  by (auto simp: onFailure_def Let_def split: prod.splits if_splits)

lemma mark_fields:
  "markStarted_locked c s = (s1, already, pend) \<Longrightarrow> comps s1 = comps s \<and> k_run s1 = k_run s \<and> k_started s1 = k_started s
     \<and> k_events s1 = k_events s \<and> k_max s1 = k_max s \<and> k_evclosed s1 = k_evclosed s \<and> k_panic s1 = k_panic s
     \<and> k_aborted s1 = k_aborted s \<and> k_main s1 = k_main s"
  by (auto simp: markStarted_locked_def Let_def)

lemma close_fields [simp]:
  "comps (close_started c b s) = comps s" "k_run (close_started c b s) = k_run s" "k_events (close_started c b s) = k_events s"
  "k_max (close_started c b s) = k_max s" "k_evclosed (close_started c b s) = k_evclosed s" "k_main (close_started c b s) = k_main s"
  "k_aborted (close_started c b s) = k_aborted s"
  by (simp_all add: close_started_def)

section \<open>The invariant\<close>

fun past_close :: "runner \<Rightarrow> bool" where
  "past_close (RnAnnounce n p) = True"
| "past_close (RnPublish n p) = True"
| "past_close (RnRunning n) = True"
| "past_close RnDone = True"
| "past_close _ = False"

text \<open>The attempt a component is in.\<close>

fun attempt_ok :: "nat \<Rightarrow> runner \<Rightarrow> bool" where
  "attempt_ok m (RnAttempt n) = (1 \<le> n \<and> n \<le> m)"
| "attempt_ok m (RnMark n) = (1 \<le> n \<and> n \<le> m)"
| "attempt_ok m (RnClose n b p) = (1 \<le> n \<and> n \<le> m)"
| "attempt_ok m (RnAnnounce n p) = (1 \<le> n \<and> n \<le> m)"
| "attempt_ok m (RnPublish n p) = (1 \<le> n \<and> n \<le> m)"
| "attempt_ok m (RnRunning n) = (1 \<le> n \<and> n \<le> m)"
| "attempt_ok m (RnFailed n e) = (1 \<le> n \<and> n \<le> m)"
| "attempt_ok m (RnGiveUp n e) = (n = m)"
| "attempt_ok m (RnGaveUp n e) = (n = m)"
| "attempt_ok m (RnAwait n) = (1 \<le> n \<and> n < m)"
| "attempt_ok m (RnDelay n) = (1 \<le> n \<and> n < m)"
| "attempt_ok m _ = True"

text \<open>The dependencies a component has seen start.\<close>

fun deps_ok :: "comp list \<Rightarrow> comp list \<Rightarrow> runner \<Rightarrow> bool" where
  "deps_ok started ds (RnDeps rest) = (\<exists>seen. ds = seen @ rest \<and> set seen \<subseteq> set started)"
| "deps_ok started ds RnDone = True"
| "deps_ok started ds _ = (set ds \<subseteq> set started)"

definition kinds :: "cevent list \<Rightarrow> comp \<Rightarrow> event_kind list" where
  "kinds evs c = map e_kind (filter (\<lambda>e. e_comp e = c \<and> e_kind e \<noteq> KindAborted) evs)"

text \<open>The events a component has caused.\<close>

fun events_ok :: "event_kind list \<Rightarrow> runner \<Rightarrow> bool" where
  "events_ok ks (RnPublish n p) = (ks = [KindStarted])"
| "events_ok ks (RnRunning n) = (ks = [KindStarted])"
| "events_ok ks RnAbort = (ks = [KindGaveUp])"
| "events_ok ks RnDone = (ks = [] \<or> ks = [KindGaveUp] \<or> ks = [KindStarted, KindExited])"
| "events_ok ks _ = (ks = [])"

definition aborts :: "cevent list \<Rightarrow> nat" where
  "aborts evs = length (filter (\<lambda>e. e_kind e = KindAborted) evs)"

definition deps_of :: "spec list \<Rightarrow> comp \<Rightarrow> comp list" where
  "deps_of specs c = (case map_of (map (\<lambda>sp. (sp_name sp, sp_deps sp)) specs) c of None \<Rightarrow> [] | Some ds \<Rightarrow> ds)"

definition cinv :: "spec list \<Rightarrow> coordinator \<Rightarrow> bool" where
  "cinv specs s =
     (\<not> k_panic s \<and> 1 \<le> k_max s
      \<and> (\<forall>c \<in> set (k_started s). past_close (k_run s c))
      \<and> (\<forall>c. attempt_ok (k_max s) (k_run s c) \<and> deps_ok (k_started s) (deps_of specs c) (k_run s c)
             \<and> events_ok (kinds (k_events s) c) (k_run s c))
      \<and> aborts (k_events s) = (if k_aborted s then 1 else 0)
      \<and> (k_evclosed s \<longrightarrow> (\<forall>c \<in> set (comps s). k_run s c = RnDone) \<and> k_main s = KDone))"

lemma kinds_snoc: "kinds (evs @ [\<lparr>e_comp = c, e_kind = k, e_attempt = n\<rparr>]) c' = kinds evs c' @ (if c' = c \<and> k \<noteq> KindAborted then [k] else [])"
  by (simp add: kinds_def)

lemma aborts_snoc: "aborts (evs @ [\<lparr>e_comp = c, e_kind = k, e_attempt = n\<rparr>]) = aborts evs + (if k = KindAborted then 1 else 0)"
  by (simp add: aborts_def)

lemma deps_ok_mono: "deps_ok st ds pc \<Longrightarrow> set st \<subseteq> set st' \<Longrightarrow> deps_ok st' ds pc"
  by (cases "(st, ds, pc)" rule: deps_ok.cases) auto

text \<open>A step of one component that closes nothing and emits nothing.\<close>

lemma cinv_move:
  assumes "cinv specs s" "c \<in> set (comps s)" "k_run s c \<noteq> RnDone"
    and "comps s' = comps s" "k_run s' = (k_run s)(c := pc)" "k_started s' = k_started s" "k_events s' = k_events s"
      "k_max s' = k_max s" "k_panic s' = k_panic s" "k_aborted s' = k_aborted s" "k_evclosed s' = k_evclosed s" "k_main s' = k_main s"
    and "past_close (k_run s c) \<Longrightarrow> past_close pc" "attempt_ok (k_max s) pc" "deps_ok (k_started s) (deps_of specs c) pc"
      "events_ok (kinds (k_events s) c) pc"
  shows "cinv specs s'"
  using assms unfolding cinv_def by auto

lemma cinv_emit:
  assumes "cinv specs s" "c \<in> set (comps s)" "k_run s c \<noteq> RnDone" "k \<noteq> KindAborted"
    and "past_close (k_run s c) \<Longrightarrow> past_close pc" "attempt_ok (k_max s) pc" "deps_ok (k_started s) (deps_of specs c) pc"
      "events_ok (kinds (k_events s) c @ [k]) pc"
  shows "cinv specs (set_run c pc (emit c k n s))"
proof -
  have "\<not> k_evclosed s" using assms(1-3) by (auto simp: cinv_def)
  then show ?thesis using assms unfolding cinv_def by (auto simp: set_run_def kinds_snoc aborts_snoc)
qed

lemma cinv_abort:
  assumes "cinv specs s" "\<not> k_evclosed s" shows "cinv specs (abort c s)" "k_panic (abort c s) = k_panic s" "k_events (abort c s) = (if k_aborted s then k_events s else k_events s @ [\<lparr>e_comp = c, e_kind = KindAborted, e_attempt = 0\<rparr>])"
  using assms by (auto simp: cinv_def abort_def kinds_snoc aborts_snoc)

lemma cinvD:
  assumes "cinv specs s"
  shows "c \<in> set (k_started s) \<Longrightarrow> past_close (k_run s c)" "attempt_ok (k_max s) (k_run s c)"
    "deps_ok (k_started s) (deps_of specs c) (k_run s c)" "events_ok (kinds (k_events s) c) (k_run s c)"
    "c \<in> set (comps s) \<Longrightarrow> k_run s c \<noteq> RnDone \<Longrightarrow> \<not> k_evclosed s" "k_main s \<noteq> KDone \<Longrightarrow> \<not> k_evclosed s" "1 \<le> k_max s" "\<not> k_panic s"
  using assms unfolding cinv_def by auto


lemma cinv_close:
  assumes "cinv specs s" "c \<in> set (comps s)" "k_run s c = RnClose n already pend"
  shows "cinv specs (set_run c (RnAnnounce n pend) (close_started c already s))"
proof -
  have nc: "c \<notin> set (k_started s)" using cinvD(1) [OF assms(1), of c] assms(3) by auto
  have d: "deps_ok st (deps_of specs c') (k_run s c')" if "set (k_started s) \<subseteq> set st" for st c'
    using deps_ok_mono [OF cinvD(3) [OF assms(1), of c'] that] .
  have sub: "set (deps_of specs c) \<subseteq> set (k_started s)" using cinvD(3) [OF assms(1), of c] assms(3) by simp
  have k: "attempt_ok (k_max s) (RnAnnounce n pend)" "events_ok (kinds (k_events s) c) (RnAnnounce n pend)"
    using cinvD(2,4) [OF assms(1), of c] assms(3) by simp_all
  show ?thesis
  proof (cases already)
    case True
    then show ?thesis using k sub assms by (intro cinv_move [OF assms(1,2), of _ "RnAnnounce n pend"]) (auto simp: close_started_def set_run_def)
  next
    case False
    let ?s = "s\<lparr>k_started := c # k_started s, k_run := (k_run s)(c := RnAnnounce n pend)\<rparr>"
    have "attempt_ok (k_max ?s) (k_run ?s c') \<and> deps_ok (k_started ?s) (deps_of specs c') (k_run ?s c')
        \<and> events_ok (kinds (k_events ?s) c') (k_run ?s c')" for c'
      using k sub d [of "c # k_started s" c'] cinvD(2,4) [OF assms(1), of c'] by auto
    moreover have "\<forall>c' \<in> set (k_started ?s). past_close (k_run ?s c')" using cinvD(1) [OF assms(1)] by simp
    moreover have "\<not> k_evclosed s" using cinvD(5) [OF assms(1,2)] assms(3) by simp
    ultimately have "cinv specs ?s" using assms unfolding cinv_def by simp
    then show ?thesis using False nc by (simp add: close_started_def set_run_def)
  qed
qed

lemma cinv_main:
  assumes "cinv specs s" "\<not> k_evclosed s"
    and "comps s' = comps s" "k_run s' = k_run s" "k_started s' = k_started s" "k_events s' = k_events s"
      "k_max s' = k_max s" "k_panic s' = k_panic s" "k_aborted s' = k_aborted s" "k_evclosed s' = k_evclosed s"
  shows "cinv specs s'"
  using assms unfolding cinv_def by auto

lemma cinv_step:
  assumes "cstep s s'" "cinv specs s" shows "cinv specs s'"
  using assms(1)
proof cases
  case cancel
  then show ?thesis using assms(2) by (auto simp: cinv_def)
next
  case (deps_done c)
  then show ?thesis using assms(2) cinvD(3,4) [OF assms(2), of c] cinvD(7) [OF assms(2)]
    by (intro cinv_move [OF assms(2), of c _ "RnAttempt 1"]) (auto simp: set_run_def)
next
  case (dep_ready c d ds)
  then show ?thesis using cinvD(3,4) [OF assms(2), of c]
    by (intro cinv_move [OF assms(2), of c _ "RnDeps ds"]) (auto simp: set_run_def intro: exI [of _ "_ @ [d]"])
next
  case (dep_cancel c d ds)
  then show ?thesis using cinvD(3,4) [OF assms(2), of c]
    by (intro cinv_move [OF assms(2), of c _ RnDone]) (auto simp: set_run_def)
next
  case (ready c n)
  then show ?thesis using cinvD(2-4) [OF assms(2), of c]
    by (intro cinv_move [OF assms(2), of c _ "RnMark n"]) (auto simp: set_run_def)
next
  case (fail c n e)
  then show ?thesis using cinvD(2-4) [OF assms(2), of c]
    by (intro cinv_move [OF assms(2), of c _ "RnFailed n e"]) (auto simp: set_run_def)
next
  case (mark c n s1 already pend)
  then show ?thesis using cinvD(2-4) [OF assms(2), of c] mark_fields [OF mark(4)]
    by (intro cinv_move [OF assms(2), of c _ "RnClose n already pend"]) (auto simp: set_run_def)
next
  case (close_ch c n already pend)
  then show ?thesis using cinv_close [OF assms(2)] by simp
next
  case (announce c n pend)
  then show ?thesis using cinvD(2-4) [OF assms(2), of c] by (auto intro!: cinv_emit [OF assms(2)])
next
  case (publish c n f fs)
  then show ?thesis using cinvD(2-4) [OF assms(2), of c]
    by (intro cinv_move [OF assms(2), of c _ "RnPublish n fs"]) (auto simp: set_run_def)
next
  case (published c n)
  then show ?thesis using cinvD(2-4) [OF assms(2), of c]
    by (intro cinv_move [OF assms(2), of c _ "RnRunning n"]) (auto simp: set_run_def)
next
  case (exited c n)
  then show ?thesis using cinvD(2-4) [OF assms(2), of c] by (auto intro!: cinv_emit [OF assms(2)])
next
  case (fail_cancel c n e)
  then show ?thesis using cinvD(2-4) [OF assms(2), of c]
    by (intro cinv_move [OF assms(2), of c _ RnDone]) (auto simp: set_run_def)
next
  case (fail_report c n e)
  then show ?thesis using cinvD(2-4) [OF assms(2), of c]
    by (intro cinv_move [OF assms(2), of c _ "if n = k_max s then RnGiveUp n e else RnAwait n"]) (auto simp: set_run_def)
next
  case (give_up c n e)
  then show ?thesis using cinvD(2-4) [OF assms(2), of c]
    by (intro cinv_move [OF assms(2), of c _ "RnGaveUp n e"]) (auto simp: set_run_def markGaveUp_locked_def)
next
  case (gave_up c n e)
  then show ?thesis using cinvD(2-4) [OF assms(2), of c] by (auto intro!: cinv_emit [OF assms(2)])
next
  case (give_up_abort c)
  have o: "\<not> k_evclosed s" using cinvD(5) [OF assms(2), of c] give_up_abort by simp
  note A = cinv_abort [OF assms(2) o, of c]
  show ?thesis unfolding give_up_abort(1) using give_up_abort cinvD(4) [OF assms(2), of c]
    by (intro cinv_move [OF A(1), of c _ RnDone]) (auto simp: set_run_def A(2,3) kinds_snoc)
next
  case (await_cancel c n)
  then show ?thesis using cinvD(2-4) [OF assms(2), of c]
    by (intro cinv_move [OF assms(2), of c _ RnDone]) (auto simp: set_run_def)
next
  case (await_retry c n m ms)
  then show ?thesis using cinvD(2-4) [OF assms(2), of c]
    by (intro cinv_move [OF assms(2), of c _ "RnDelay n"]) (auto simp: set_run_def)
next
  case (delay c n)
  then show ?thesis using cinvD(2-4) [OF assms(2), of c]
    by (intro cinv_move [OF assms(2), of c _ "RnAttempt (n + 1)"]) (auto simp: set_run_def)
next
  case coord_cancel
  then show ?thesis using assms(2) by (auto simp: cinv_def)
next
  case (coord_failure f fs s1 pc)
  then show ?thesis using onFailure_fields [OF coord_failure(4)] cinvD(6) [OF assms(2)]
    by (intro cinv_main [OF assms(2)]) auto
next
  case (coord_overflow c)
  then show ?thesis using cinvD(6) [OF assms(2)] by (intro cinv_main [OF assms(2)]) auto
next
  case (coord_publish c n)
  then show ?thesis using cinvD(6) [OF assms(2)] by (intro cinv_main [OF assms(2)]) auto
next
  case (coord_abort c)
  then have o: "\<not> k_evclosed s" using cinvD(6) [OF assms(2)] by simp
  show ?thesis unfolding coord_abort(1) using o by (intro cinv_main [OF cinv_abort(1) [OF assms(2) o]]) auto
next
  case all_done
  then show ?thesis using assms(2) by (auto simp: cinv_def)
next
  case close_events
  then show ?thesis using assms(2) by (auto simp: cinv_def)
qed

lemma creach_inv: "creach specs maxRetries s \<Longrightarrow> cinv specs s"
proof (induction rule: creach.induct)
  case (init s)
  then have s: "k_panic s = False" "1 \<le> k_max s" "k_started s = []" "k_run s = (\<lambda>c. RnDeps (deps_of specs c))" "k_events s = []"
    "k_aborted s = False" "k_evclosed s = False"
    by (auto simp: coord_New_def deps_of_def split: if_splits option.splits sum.splits)
  then show ?case by (simp add: cinv_def kinds_def aborts_def)
qed (rule cinv_step)


section \<open>Nobody is left waiting\<close>

fun started_pc :: "runner \<Rightarrow> bool" where
  "started_pc (RnClose n b p) = True"
| "started_pc (RnAnnounce n p) = True"
| "started_pc (RnPublish n p) = True"
| "started_pc (RnRunning n) = True"
| "started_pc RnDone = True"
| "started_pc _ = False"

text \<open>The failures a started component still has to answer with a retry.\<close>

fun owed :: "runner \<Rightarrow> failure list" where
  "owed (RnClose n b p) = p"
| "owed (RnAnnounce n p) = p"
| "owed (RnPublish n p) = p"
| "owed _ = []"

fun giving_up :: "runner \<Rightarrow> bool" where
  "giving_up (RnGiveUp n e) = True"
| "giving_up (RnGaveUp n e) = True"
| "giving_up RnAbort = True"
| "giving_up _ = False"

fun attempt_of :: "runner \<Rightarrow> nat option" where
  "attempt_of (RnDeps ds) = Some 0"
| "attempt_of (RnAttempt n) = Some n"
| "attempt_of (RnMark n) = Some n"
| "attempt_of (RnFailed n e) = Some n"
| "attempt_of (RnAwait n) = Some n"
| "attempt_of (RnDelay n) = Some n"
| "attempt_of _ = None"

text \<open>Something will still reach a component that waits for a retry.\<close>

definition in_flight :: "coordinator \<Rightarrow> comp \<Rightarrow> bool" where
  "in_flight s c =
     (k_ctx s \<or> c \<in> f_comp ` set (k_fail s) \<or> k_retry s c \<noteq> [] \<or> k_over s \<noteq> None
      \<or> (\<exists>n. k_main s = KPublish c n) \<or> (\<exists>d. k_main s = KAbort d)
      \<or> (\<exists>p \<in> set (comps s). giving_up (k_run s p) \<or> (\<exists>f \<in> set (owed (k_run s p)). f_comp f = c \<and> f_attempt f < k_max s)))"

definition stuck_ok :: "coordinator \<Rightarrow> comp \<Rightarrow> bool" where
  "stuck_ok s c =
     ((\<exists>st. map_of (k_states s) c = Some st \<and> cs_phase st = PhaseWaitingRetry \<and> f_comp (cs_last st) = c \<and> f_attempt (cs_last st) < k_max s)
      \<and> (\<forall>p \<in> set (comps s). p \<noteq> c \<longrightarrow> phase_of s p \<noteq> Some PhaseStarted)
      \<and> (\<exists>p \<in> set (comps s). p \<noteq> c \<and> phase_of s p = Some PhasePending)
      \<and> (\<forall>p \<in> set (comps s). p \<noteq> c \<and> phase_of s p = Some PhasePending \<longrightarrow> \<not> dependsOn s p c))"

text \<open>Phase, place, cancelled context and started channel of one component fit together.\<close>

definition local_ok :: "phase option \<Rightarrow> runner \<Rightarrow> bool \<Rightarrow> bool \<Rightarrow> bool" where
  "local_ok ph pc ctx st =
     ((ph = Some PhaseStarted \<longrightarrow> started_pc pc)
      \<and> (ph = Some PhaseGaveUp \<longrightarrow> giving_up pc \<or> pc = RnDone)
      \<and> (started_pc pc \<and> (pc = RnDone \<longrightarrow> \<not> ctx) \<longrightarrow> ph \<noteq> Some PhasePending)
      \<and> (past_close pc \<and> (pc = RnDone \<longrightarrow> \<not> ctx) \<longrightarrow> st)
      \<and> (\<forall>n b p. pc = RnClose n b p \<longrightarrow> \<not> b))"

definition local_inv :: "coordinator \<Rightarrow> bool" where
  "local_inv s =
     ((k_aborted s \<longrightarrow> k_ctx s) \<and> (k_main s = KDone \<longrightarrow> k_ctx s)
      \<and> (\<forall>c \<in> set (comps s). local_ok (phase_of s c) (k_run s c) (k_ctx s) (c \<in> set (k_started s))))"

lemma phase_fields [simp]:
  "phase_of (s\<lparr>k_run := x1\<rparr>) = phase_of s" "phase_of (s\<lparr>k_started := x2\<rparr>) = phase_of s" "phase_of (s\<lparr>k_fail := x3\<rparr>) = phase_of s"
  "phase_of (s\<lparr>k_retry := x4\<rparr>) = phase_of s" "phase_of (s\<lparr>k_over := x5\<rparr>) = phase_of s" "phase_of (s\<lparr>k_events := x6\<rparr>) = phase_of s"
  "phase_of (s\<lparr>k_ctx := x7\<rparr>) = phase_of s" "phase_of (s\<lparr>k_aborted := x8\<rparr>) = phase_of s" "phase_of (s\<lparr>k_main := x9\<rparr>) = phase_of s"
  "phase_of (s\<lparr>k_evclosed := x10\<rparr>) = phase_of s" "phase_of (s\<lparr>k_panic := x11\<rparr>) = phase_of s"
  by (simp_all add: phase_of_def fun_eq_iff)

lemma states_fields [simp]:
  "k_states (signalOverflow c s) = k_states s" "k_states (onFailed f s) = k_states s" "k_states (publishRetry c n s) = k_states s"
  "k_states (emit c k n s) = k_states s" "k_states (abort c s) = k_states s" "k_states (close_started c b s) = k_states s"
  "k_ctx (signalOverflow c s) = k_ctx s" "k_ctx (onFailed f s) = k_ctx s" "k_ctx (publishRetry c n s) = k_ctx s"
  "k_ctx (emit c k n s) = k_ctx s" "k_ctx (close_started c b s) = k_ctx s"
  "k_ctx (abort c s) = (k_ctx s \<or> \<not> k_aborted s)"
  by (simp_all add: signalOverflow_def onFailed_def publishRetry_def onRetry_def emit_def abort_def close_started_def split: option.split)

lemma map_of_upd_state:
  "map_of (k_states (upd_state c f s)) d = (if d = c then map_option f (map_of (k_states s) d) else map_of (k_states s) d)"
proof -
  have "map_of (map (\<lambda>(c', st). (c', if c' = c then f st else st)) xs) d = (if d = c then map_option f (map_of xs d) else map_of xs d)" for xs
    by (induction xs) auto
  then show ?thesis by (simp add: upd_state_def)
qed

lemma phase_upd_state:
  "phase_of (upd_state c f s) d = (if d = c then map_option (cs_phase \<circ> f) (map_of (k_states s) d) else phase_of s d)"
  by (simp add: phase_of_def map_of_upd_state option.map_comp)

lemma local_ok_ctx: "local_ok ph pc ctx st \<Longrightarrow> (ctx \<Longrightarrow> ctx') \<Longrightarrow> local_ok ph pc ctx' st"
  by (auto simp: local_ok_def)

lemma local_ok_retry: "local_ok ph pc ctx st \<Longrightarrow> local_ok (Some PhaseWaitingRetry) pc ctx st"
  unfolding local_ok_def by blast

lemma local_inv_move:
  assumes "local_inv s" "c \<in> set (comps s)" "comps s' = comps s" "k_run s' = (k_run s)(c := pc)"
    and "\<And>d. d \<noteq> c \<Longrightarrow> phase_of s' d = phase_of s d" "\<And>d. d \<noteq> c \<Longrightarrow> d \<in> set (k_started s') \<longleftrightarrow> d \<in> set (k_started s)"
    and "k_ctx s \<Longrightarrow> k_ctx s'" "k_aborted s' \<longrightarrow> k_aborted s \<or> k_ctx s'" "k_main s' = k_main s"
    and "local_ok (phase_of s' c) pc (k_ctx s') (c \<in> set (k_started s'))"
  shows "local_inv s'"
  using assms local_ok_ctx unfolding local_inv_def by (auto split: if_splits)

lemma local_inv_main:
  assumes "local_inv s" "comps s' = comps s" "k_run s' = k_run s" "k_started s' = k_started s"
    and "k_ctx s \<Longrightarrow> k_ctx s'" "k_aborted s' \<longrightarrow> k_aborted s \<or> k_ctx s'" "k_main s' = KDone \<Longrightarrow> k_ctx s'"
    and "\<And>d. d \<in> set (comps s) \<Longrightarrow> phase_of s' d = phase_of s d \<or> phase_of s' d = Some PhaseWaitingRetry"
  shows "local_inv s'"
  unfolding local_inv_def
proof (intro conjI ballI)
  show "k_aborted s' \<longrightarrow> k_ctx s'" "k_main s' = KDone \<longrightarrow> k_ctx s'" using assms(1,5,6,7) by (auto simp: local_inv_def)
  fix d assume "d \<in> set (comps s')"
  then have d: "d \<in> set (comps s)" using assms(2) by simp
  then have "local_ok (phase_of s d) (k_run s d) (k_ctx s') (d \<in> set (k_started s))"
    using assms(1,5) local_ok_ctx by (auto simp: local_inv_def)
  then show "local_ok (phase_of s' d) (k_run s' d) (k_ctx s') (d \<in> set (k_started s'))"
    using assms(8) [OF d] local_ok_retry unfolding assms(3,4) by metis
qed

end
