(* ===== verification/Startup_Live.thy ===== *)
theory Startup_Live
  imports Startup_Run
begin

text \<open>
  The startup protocol never gets stuck. Every component that waits for a retry either has something on its way (its
  failure in the coordinator's queue, a retry, an abort, a debt of a component that just started), or some other
  component has not been decided yet; with the acyclic dependencies this leaves a step in every state.
\<close>

lemma phase_ops [simp]:
  "phase_of (signalOverflow c s) = phase_of s" "phase_of (onFailed f s) = phase_of s" "phase_of (publishRetry c n s) = phase_of s"
  "phase_of (emit c k n s) = phase_of s" "phase_of (abort c s) = phase_of s" "phase_of (close_started c b s) = phase_of s"
  by (simp_all add: phase_of_def fun_eq_iff)

lemma local_ok_simps:
  "local_ok ph (RnDeps ds) ctx st \<longleftrightarrow> ph \<noteq> Some PhaseStarted \<and> ph \<noteq> Some PhaseGaveUp"
  "local_ok ph (RnAttempt n) ctx st \<longleftrightarrow> ph \<noteq> Some PhaseStarted \<and> ph \<noteq> Some PhaseGaveUp"
  "local_ok ph (RnMark n) ctx st \<longleftrightarrow> ph \<noteq> Some PhaseStarted \<and> ph \<noteq> Some PhaseGaveUp"
  "local_ok ph (RnFailed n e) ctx st \<longleftrightarrow> ph \<noteq> Some PhaseStarted \<and> ph \<noteq> Some PhaseGaveUp"
  "local_ok ph (RnAwait n) ctx st \<longleftrightarrow> ph \<noteq> Some PhaseStarted \<and> ph \<noteq> Some PhaseGaveUp"
  "local_ok ph (RnDelay n) ctx st \<longleftrightarrow> ph \<noteq> Some PhaseStarted \<and> ph \<noteq> Some PhaseGaveUp"
  "local_ok ph (RnGiveUp n e) ctx st \<longleftrightarrow> ph \<noteq> Some PhaseStarted"
  "local_ok ph (RnGaveUp n e) ctx st \<longleftrightarrow> ph \<noteq> Some PhaseStarted"
  "local_ok ph RnAbort ctx st \<longleftrightarrow> ph \<noteq> Some PhaseStarted"
  "local_ok ph (RnClose n b p) ctx st \<longleftrightarrow> ph \<noteq> Some PhaseGaveUp \<and> ph \<noteq> Some PhasePending \<and> \<not> b"
  "local_ok ph (RnAnnounce n p) ctx st \<longleftrightarrow> ph \<noteq> Some PhaseGaveUp \<and> ph \<noteq> Some PhasePending \<and> st"
  "local_ok ph (RnPublish n p) ctx st \<longleftrightarrow> ph \<noteq> Some PhaseGaveUp \<and> ph \<noteq> Some PhasePending \<and> st"
  "local_ok ph (RnRunning n) ctx st \<longleftrightarrow> ph \<noteq> Some PhaseGaveUp \<and> ph \<noteq> Some PhasePending \<and> st"
  "local_ok ph RnDone ctx st \<longleftrightarrow> ctx \<or> ph \<noteq> Some PhasePending \<and> st"
  by (auto simp: local_ok_def)

lemma local_invD:
  "local_inv s \<Longrightarrow> c \<in> set (comps s) \<Longrightarrow> local_ok (phase_of s c) (k_run s c) (k_ctx s) (c \<in> set (k_started s))"
  "local_inv s \<Longrightarrow> k_aborted s \<Longrightarrow> k_ctx s" "local_inv s \<Longrightarrow> k_main s = KDone \<Longrightarrow> k_ctx s"
  by (auto simp: local_inv_def)

definition note_failure :: "failure \<Rightarrow> component_state \<Rightarrow> component_state" where
  "note_failure f st = (if cs_phase st \<noteq> PhaseGaveUp then st\<lparr>cs_phase := PhaseWaitingRetry, cs_last := f\<rparr> else st)"

lemma onFailure_state: "onFailure f s = (s1, pc) \<Longrightarrow> s1 = upd_state (f_comp f) (note_failure f) s"
  by (auto simp: onFailure_def Let_def note_failure_def [abs_def] split: prod.splits)

lemma phase_note:
  "phase_of (upd_state c (note_failure f) s) d =
     (if d = c \<and> phase_of s d \<noteq> None \<and> phase_of s d \<noteq> Some PhaseGaveUp then Some PhaseWaitingRetry else phase_of s d)"
  unfolding phase_of_def map_of_upd_state by (cases "map_of (k_states s) d") (auto simp: note_failure_def)

lemma onFailure_phase:
  "onFailure f s = (s1, pc) \<Longrightarrow> phase_of s1 d = phase_of s d \<or> phase_of s1 d = Some PhaseWaitingRetry"
  by (drule onFailure_state) (simp add: phase_note)

lemma onFailure_ctx: "onFailure f s = (s1, pc) \<Longrightarrow> k_ctx s1 = k_ctx s"
  by (drule onFailure_state) simp

lemma local_step:
  assumes "cstep s s'" "local_inv s" shows "local_inv s'"
  using assms(1)
proof cases
  case cancel
  then show ?thesis by (intro local_inv_main [OF assms(2)]) auto
next
  case (deps_done c)
  then show ?thesis using local_invD(1) [OF assms(2), of c]
    by (intro local_inv_move [OF assms(2), of c _ "RnAttempt 1"]) (auto simp: set_run_def local_ok_simps)
next
  case (dep_ready c d ds)
  then show ?thesis using local_invD(1) [OF assms(2), of c]
    by (intro local_inv_move [OF assms(2), of c _ "RnDeps ds"]) (auto simp: set_run_def local_ok_simps)
next
  case (dep_cancel c d ds)
  then show ?thesis using local_invD(1) [OF assms(2), of c]
    by (intro local_inv_move [OF assms(2), of c _ RnDone]) (auto simp: set_run_def local_ok_simps)
next
  case (ready c n)
  then show ?thesis using local_invD(1) [OF assms(2), of c]
    by (intro local_inv_move [OF assms(2), of c _ "RnMark n"]) (auto simp: set_run_def local_ok_simps)
next
  case (fail c n e)
  then show ?thesis using local_invD(1) [OF assms(2), of c]
    by (intro local_inv_move [OF assms(2), of c _ "RnFailed n e"]) (auto simp: set_run_def local_ok_simps)
next
  case (mark c n s1 already pend)
  have s1: "s1 = upd_state c (\<lambda>st. st\<lparr>cs_phase := PhaseStarted\<rparr>) s" "already = (phase_of s c = Some PhaseStarted)"
    using mark(4) by (auto simp: markStarted_locked_def Let_def)
  have na: "\<not> already" using local_invD(1) [OF assms(2) mark(2)] mark(3) s1(2) by (simp add: local_ok_simps)
  show ?thesis unfolding mark(1) s1(1) using mark(2,3) na
    by (intro local_inv_move [OF assms(2), of c _ "RnClose n already pend"]) (auto simp: set_run_def local_ok_simps phase_upd_state)
next
  case (close_ch c n already pend)
  then show ?thesis using local_invD(1) [OF assms(2), of c]
    by (intro local_inv_move [OF assms(2), of c _ "RnAnnounce n pend"])
      (auto simp: set_run_def local_ok_simps close_started_def)
next
  case (announce c n pend)
  then show ?thesis using local_invD(1) [OF assms(2), of c]
    by (intro local_inv_move [OF assms(2), of c _ "RnPublish n pend"]) (auto simp: set_run_def local_ok_simps)
next
  case (publish c n f fs)
  then show ?thesis using local_invD(1) [OF assms(2), of c]
    by (intro local_inv_move [OF assms(2), of c _ "RnPublish n fs"]) (auto simp: set_run_def local_ok_simps)
next
  case (published c n)
  then show ?thesis using local_invD(1) [OF assms(2), of c]
    by (intro local_inv_move [OF assms(2), of c _ "RnRunning n"]) (auto simp: set_run_def local_ok_simps)
next
  case (exited c n)
  then show ?thesis using local_invD(1) [OF assms(2), of c]
    by (intro local_inv_move [OF assms(2), of c _ RnDone]) (auto simp: set_run_def local_ok_simps)
next
  case (fail_cancel c n e)
  then show ?thesis using local_invD(1) [OF assms(2), of c]
    by (intro local_inv_move [OF assms(2), of c _ RnDone]) (auto simp: set_run_def local_ok_simps)
next
  case (fail_report c n e)
  then show ?thesis using local_invD(1) [OF assms(2), of c]
    by (intro local_inv_move [OF assms(2), of c _ "if n = k_max s then RnGiveUp n e else RnAwait n"])
      (auto simp: set_run_def local_ok_simps)
next
  case (give_up c n e)
  then show ?thesis using local_invD(1) [OF assms(2), of c]
    by (intro local_inv_move [OF assms(2), of c _ "RnGaveUp n e"]) (auto simp: set_run_def local_ok_simps markGaveUp_locked_def phase_upd_state)
next
  case (gave_up c n e)
  then show ?thesis using local_invD(1) [OF assms(2), of c]
    by (intro local_inv_move [OF assms(2), of c _ RnAbort]) (auto simp: set_run_def local_ok_simps)
next
  case (give_up_abort c)
  have "k_ctx (abort c s)" using local_invD(2) [OF assms(2)] by auto
  then show ?thesis using give_up_abort local_invD(1) [OF assms(2), of c]
    by (intro local_inv_move [OF assms(2), of c _ RnDone]) (auto simp: set_run_def local_ok_simps)
next
  case (await_cancel c n)
  then show ?thesis using local_invD(1) [OF assms(2), of c]
    by (intro local_inv_move [OF assms(2), of c _ RnDone]) (auto simp: set_run_def local_ok_simps)
next
  case (await_retry c n m ms)
  then show ?thesis using local_invD(1) [OF assms(2), of c]
    by (intro local_inv_move [OF assms(2), of c _ "RnDelay n"]) (auto simp: set_run_def local_ok_simps)
next
  case (delay c n)
  then show ?thesis using local_invD(1) [OF assms(2), of c]
    by (intro local_inv_move [OF assms(2), of c _ "RnAttempt (n + 1)"]) (auto simp: set_run_def local_ok_simps)
next
  case coord_cancel
  then show ?thesis by (intro local_inv_main [OF assms(2)]) auto
next
  case (coord_failure f fs s1 pc)
  then show ?thesis using onFailure_fields [OF coord_failure(4)] onFailure_phase [OF coord_failure(4)] onFailure_ctx [OF coord_failure(4)]
      local_invD(2) [OF assms(2)]
    by (intro local_inv_main [OF assms(2)]) auto
next
  case (coord_overflow c)
  then show ?thesis by (intro local_inv_main [OF assms(2)]) auto
next
  case (coord_publish c n)
  then show ?thesis using local_invD(2) [OF assms(2)] by (intro local_inv_main [OF assms(2)]) auto
next
  case (coord_abort c)
  then show ?thesis using local_invD(2) [OF assms(2)] by (intro local_inv_main [OF assms(2)]) auto
next
  case all_done
  then show ?thesis by (intro local_inv_main [OF assms(2)]) auto
next
  case close_events
  then show ?thesis using local_invD(3) [OF assms(2)] by (intro local_inv_main [OF assms(2)]) auto
qed

text \<open>The failures that wait for the coordinator are not younger than the attempt of their component.\<close>

definition fail_inv :: "coordinator \<Rightarrow> bool" where
  "fail_inv s = (\<forall>f \<in> set (k_fail s). \<forall>n. attempt_of (k_run s (f_comp f)) = Some n \<longrightarrow> f_attempt f \<le> n)"

lemma fail_fields [simp]:
  "k_fail (signalOverflow c s) = k_fail s" "k_fail (publishRetry c n s) = k_fail s" "k_fail (emit c k n s) = k_fail s"
  "k_fail (abort c s) = k_fail s" "k_fail (close_started c b s) = k_fail s" "k_fail (upd_state c g s) = k_fail s"
  by (simp_all add: signalOverflow_def publishRetry_def onRetry_def emit_def abort_def close_started_def upd_state_def split: option.split)

lemma onFailed_fail: "set (k_fail (onFailed f s)) \<subseteq> insert f (set (k_fail s))"
  by (auto simp: onFailed_def)

lemma fail_inv_move:
  assumes "fail_inv s" "set (k_fail s') \<subseteq> set (k_fail s)" "k_run s' = (k_run s)(c := pc)"
    and "\<And>n. attempt_of pc = Some n \<Longrightarrow> \<exists>m \<le> n. attempt_of (k_run s c) = Some m"
  shows "fail_inv s'"
  unfolding fail_inv_def
proof (intro ballI allI impI)
  fix f n assume f: "f \<in> set (k_fail s')" "attempt_of (k_run s' (f_comp f)) = Some n"
  then show "f_attempt f \<le> n"
    using assms(1,2,3) assms(4) [of n] unfolding fail_inv_def by (cases "f_comp f = c") (auto dest: order_trans)
qed

lemma fail_step:
  assumes "cstep s s'" "fail_inv s" shows "fail_inv s'"
  using assms(1)
proof cases
  case (mark c n s1 already pend)
  then show ?thesis using mark_fields [OF mark(4)]
    by (intro fail_inv_move [OF assms(2), of _ c "RnClose n already pend"]) (auto simp: set_run_def markStarted_locked_def Let_def)
next
  case (fail_report c n e)
  show ?thesis
    unfolding fail_inv_def
  proof (intro ballI allI impI)
    fix f m assume f: "f \<in> set (k_fail s')" "attempt_of (k_run s' (f_comp f)) = Some m"
    then have "f = \<lparr>f_comp = c, f_attempt = n, f_err = e\<rparr> \<or> f \<in> set (k_fail s)"
      using onFailed_fail fail_report(1) by (fastforce simp: set_run_def)
    then show "f_attempt f \<le> m"
    proof
      assume "f = \<lparr>f_comp = c, f_attempt = n, f_err = e\<rparr>"
      then have "f_attempt f = n" "f_comp f = c" by simp_all
      then show ?thesis using f(2) fail_report(1) by (auto simp: set_run_def split: if_splits)
    next
      assume "f \<in> set (k_fail s)"
      then show ?thesis using f(2) fail_report assms(2) unfolding fail_inv_def
        by (cases "f_comp f = c") (auto simp: set_run_def split: if_splits)
    qed
  qed
next
  case (coord_failure f fs s1 pc)
  then show ?thesis using onFailure_fields [OF coord_failure(4)] assms(2)
    by (auto simp: fail_inv_def onFailure_def Let_def split: prod.splits)
next
  case (coord_publish c n)
  then show ?thesis using assms(2) by (simp add: fail_inv_def)
next
  case (coord_abort c)
  then show ?thesis using assms(2) by (simp add: fail_inv_def)
next
  case (close_ch c n already pend)
  then show ?thesis by (intro fail_inv_move [OF assms(2), of _ c "RnAnnounce n pend"]) (auto simp: set_run_def)
next
  case (announce c n pend)
  then show ?thesis by (intro fail_inv_move [OF assms(2), of _ c "RnPublish n pend"]) (auto simp: set_run_def)
next
  case (publish c n f fs)
  then show ?thesis by (intro fail_inv_move [OF assms(2), of _ c "RnPublish n fs"]) (auto simp: set_run_def)
next
  case (exited c n)
  then show ?thesis by (intro fail_inv_move [OF assms(2), of _ c RnDone]) (auto simp: set_run_def)
next
  case (give_up c n e)
  then show ?thesis by (intro fail_inv_move [OF assms(2), of _ c "RnGaveUp n e"]) (auto simp: set_run_def markGaveUp_locked_def)
next
  case (gave_up c n e)
  then show ?thesis by (intro fail_inv_move [OF assms(2), of _ c RnAbort]) (auto simp: set_run_def)
next
  case (give_up_abort c)
  then show ?thesis by (intro fail_inv_move [OF assms(2), of _ c RnDone]) (auto simp: set_run_def)
next
  case (delay c n)
  then show ?thesis by (intro fail_inv_move [OF assms(2), of _ c "RnAttempt (n + 1)"]) (auto simp: set_run_def)
qed (use assms(2) in \<open>auto simp: fail_inv_def set_run_def split: if_splits\<close>)


subsection \<open>Waiting components\<close>

definition wait_inv :: "coordinator \<Rightarrow> bool" where
  "wait_inv s = (\<forall>c \<in> set (comps s). \<forall>n. k_run s c = RnAwait n \<longrightarrow> in_flight s c \<or> stuck_ok s c)"

lemma stuck_ok_same:
  "k_states s' = k_states s \<Longrightarrow> k_deps s' = k_deps s \<Longrightarrow> k_max s' = k_max s \<Longrightarrow> stuck_ok s' c = stuck_ok s c"
  by (simp add: stuck_ok_def phase_of_def comps_def dependsOn_def)

lemma deps_fields [simp]:
  "k_deps (signalOverflow c s) = k_deps s" "k_deps (onFailed f s) = k_deps s" "k_deps (publishRetry c n s) = k_deps s"
  "k_deps (emit c k n s) = k_deps s" "k_deps (abort c s) = k_deps s" "k_deps (close_started c b s) = k_deps s"
  by (simp_all add: signalOverflow_def onFailed_def publishRetry_def onRetry_def emit_def abort_def close_started_def split: option.split)

lemma retry_fields [simp]:
  "k_retry (signalOverflow c s) = k_retry s" "k_retry (onFailed f s) = k_retry s" "k_retry (emit c k n s) = k_retry s"
  "k_retry (abort c s) = k_retry s" "k_retry (close_started c b s) = k_retry s" "k_retry (upd_state c g s) = k_retry s"
  "k_over (emit c k n s) = k_over s" "k_over (abort c s) = k_over s" "k_over (close_started c b s) = k_over s" "k_over (upd_state c g s) = k_over s"
  by (simp_all add: signalOverflow_def onFailed_def emit_def abort_def close_started_def upd_state_def split: option.split)

lemma over_grows: "k_over s \<noteq> None \<Longrightarrow> k_over (onFailed f s) \<noteq> None" "k_over s \<noteq> None \<Longrightarrow> k_over (publishRetry c n s) \<noteq> None"
  by (auto simp: onFailed_def publishRetry_def onRetry_def signalOverflow_def split: option.split)

lemma retry_grows: "k_retry s c \<noteq> [] \<Longrightarrow> k_retry (publishRetry d n s) c \<noteq> []"
  by (auto simp: publishRetry_def onRetry_def)

text \<open>What a publication leaves behind.\<close>

lemma publish_flies: "c \<in> set (comps s) \<Longrightarrow> k_retry (publishRetry c n s) c \<noteq> [] \<or> k_over (publishRetry c n s) \<noteq> None"
  by (auto simp: publishRetry_def onRetry_def signalOverflow_def split: option.split)

lemma report_flies: "f_comp f \<in> f_comp ` set (k_fail (onFailed f s)) \<or> k_over (onFailed f s) \<noteq> None"
  by (auto simp: onFailed_def signalOverflow_def split: option.split)

lemma report_keeps: "set (k_fail s) \<subseteq> set (k_fail (onFailed f s))"
  by (auto simp: onFailed_def)

lemma in_flight_step:
  assumes "in_flight s c" "comps s' = comps s" "k_max s' = k_max s" "k_ctx s \<Longrightarrow> k_ctx s'"
    and "c \<in> f_comp ` set (k_fail s) \<Longrightarrow> in_flight s' c" "k_retry s c \<noteq> [] \<Longrightarrow> in_flight s' c" "k_over s \<noteq> None \<Longrightarrow> k_over s' \<noteq> None"
    and "\<And>n. k_main s = KPublish c n \<Longrightarrow> in_flight s' c" "\<And>d. k_main s = KAbort d \<Longrightarrow> in_flight s' c"
    and "\<And>p. p \<in> set (comps s) \<Longrightarrow> giving_up (k_run s p) \<Longrightarrow> giving_up (k_run s' p) \<or> k_ctx s'"
    and "\<And>p f. p \<in> set (comps s) \<Longrightarrow> f \<in> set (owed (k_run s p)) \<Longrightarrow> f_comp f = c \<Longrightarrow> f_attempt f < k_max s \<Longrightarrow>
           f \<in> set (owed (k_run s' p)) \<or> in_flight s' c"
  shows "in_flight s' c"
proof (rule ccontr)
  assume n: "\<not> in_flight s' c"
  have "\<not> in_flight s c" unfolding in_flight_def
  proof (intro notI, elim disjE exE bexE conjE)
    fix p f assume "p \<in> set (comps s)" "f \<in> set (owed (k_run s p))" "f_comp f = c" "f_attempt f < k_max s"
    then have "f \<in> set (owed (k_run s' p))" "p \<in> set (comps s')" "f_attempt f < k_max s'" "f_comp f = c"
      using assms(11) n assms(2,3) by auto
    then show False using n unfolding in_flight_def by blast
  next
    fix p assume "p \<in> set (comps s)" "giving_up (k_run s p)"
    then show False using assms(10) n assms(2) unfolding in_flight_def by metis
  qed (use assms n in \<open>auto simp: in_flight_def\<close>)
  then show False using assms(1) by blast
qed

lemma wait_move:
  assumes "wait_inv s" "p \<in> set (comps s)" "k_run s' = (k_run s)(p := pc)" "\<And>n. pc \<noteq> RnAwait n"
    and "k_states s' = k_states s" "k_deps s' = k_deps s" "k_max s' = k_max s" "k_ctx s \<Longrightarrow> k_ctx s'"
    and "k_fail s' = k_fail s" "\<And>c. c \<noteq> p \<Longrightarrow> k_retry s c \<noteq> [] \<Longrightarrow> k_retry s' c \<noteq> []" "k_over s \<noteq> None \<Longrightarrow> k_over s' \<noteq> None"
    and "k_main s' = k_main s" "giving_up (k_run s p) \<Longrightarrow> giving_up pc \<or> k_ctx s'"
    and "\<And>c f. c \<in> set (comps s) \<Longrightarrow> f \<in> set (owed (k_run s p)) \<Longrightarrow> f_comp f = c \<Longrightarrow> f_attempt f < k_max s \<Longrightarrow> f \<in> set (owed pc) \<or> in_flight s' c"
  shows "wait_inv s'"
  unfolding wait_inv_def
proof (intro ballI allI impI)
  have cs: "comps s' = comps s" using assms(5) by (simp add: comps_def)
  fix c n assume c: "c \<in> set (comps s')" "k_run s' c = RnAwait n"
  then have cp: "c \<noteq> p" "k_run s c = RnAwait n" "c \<in> set (comps s)" using assms(3,4) cs by (auto split: if_splits)
  then consider "in_flight s c" | "stuck_ok s c" using assms(1) by (auto simp: wait_inv_def)
  then show "in_flight s' c \<or> stuck_ok s' c"
  proof cases
    case 1
    have "in_flight s' c"
      using 1 cs assms(7,8)
    proof (rule in_flight_step)
      show "giving_up (k_run s' q) \<or> k_ctx s'" if "giving_up (k_run s q)" for q using that assms(3,13) by auto
      show "f \<in> set (owed (k_run s' q)) \<or> in_flight s' c"
        if "f \<in> set (owed (k_run s q))" "f_comp f = c" "f_attempt f < k_max s" for q f
        using that assms(3) assms(14) [OF cp(3)] by (cases "q = p") auto
    qed (use assms cp in \<open>auto simp: in_flight_def\<close>)
    then show ?thesis by simp
  next
    case 2
    then show ?thesis using stuck_ok_same [OF assms(5,6,7)] by simp
  qed
qed


lemma comps_iff_state: "c \<in> set (comps s) \<longleftrightarrow> (\<exists>st. map_of (k_states s) c = Some st)"
  by (metis comps_def domD domI dom_map_of_conv_image_fst image_set)

lemma peer_scan_fst:
  "fst (peer_scan self sts b) \<noteq> None \<longleftrightarrow> (\<exists>p st. (p, st) \<in> set sts \<and> p \<noteq> self \<and> cs_phase st = PhaseStarted)"
  by (induction self sts b rule: peer_scan.induct) (auto split: phase.splits)

lemma peer_scan_snd:
  "fst (peer_scan self sts b) = None \<Longrightarrow>
     snd (peer_scan self sts b) \<longleftrightarrow> b \<and> (\<forall>p st. (p, st) \<in> set sts \<and> p \<noteq> self \<longrightarrow> cs_phase st \<noteq> PhasePending)"
  by (induction self sts b rule: peer_scan.induct) (auto split: phase.splits if_splits)

lemma states_phase: "distinct (comps s) \<Longrightarrow> (p, st) \<in> set (k_states s) \<Longrightarrow> phase_of s p = Some (cs_phase st)"
  by (simp add: phase_of_def comps_def)

lemma phase_states: "phase_of s p = Some ph \<Longrightarrow> \<exists>st. (p, st) \<in> set (k_states s) \<and> cs_phase st = ph \<and> p \<in> set (comps s)"
  by (auto simp: phase_of_def comps_def dest: map_of_SomeD) (metis fst_conv image_eqI map_of_SomeD)

text \<open>The decision after a failure, read on the phases.\<close>

definition some_peer :: "coordinator \<Rightarrow> comp \<Rightarrow> phase \<Rightarrow> bool" where
  "some_peer s c ph = (\<exists>p. p \<noteq> c \<and> phase_of s p = Some ph)"

lemma onFailure_decision:
  assumes "distinct (comps s)" "onFailure f s = (s1, pc)"
  shows "pc = (if some_peer s1 (f_comp f) PhaseStarted \<or> (\<exists>p. p \<noteq> f_comp f \<and> phase_of s1 p = Some PhasePending \<and> dependsOn s1 p (f_comp f))
      then if f_attempt f < k_max s then KPublish (f_comp f) (f_attempt f + 1) else KSelect
      else if \<not> some_peer s1 (f_comp f) PhasePending then KAbort (f_comp f) else KSelect)"
proof -
  note s1 = onFailure_state [OF assms(2)]
  have d: "distinct (comps s1)" using assms(1) s1 by simp
  let ?c = "f_comp f"
  obtain ps ad where pk: "peerSummaryLocked s1 ?c = (ps, ad)" by fastforce
  have ps: "ps \<noteq> None \<longleftrightarrow> some_peer s1 ?c PhaseStarted"
    using peer_scan_fst [of ?c "k_states s1" True] pk states_phase [OF d] phase_states unfolding some_peer_def peerSummaryLocked_def
    by (metis fst_conv option.inject)
  have ad: "ps = None \<Longrightarrow> ad \<longleftrightarrow> \<not> some_peer s1 ?c PhasePending"
    using peer_scan_snd [of ?c "k_states s1" True] pk states_phase [OF d] phase_states unfolding some_peer_def peerSummaryLocked_def
    by (metis fst_conv snd_conv option.inject)
  have hd: "hasPendingDependentLocked s1 ?c \<longleftrightarrow> (\<exists>p. p \<noteq> ?c \<and> phase_of s1 p = Some PhasePending \<and> dependsOn s1 p ?c)"
    unfolding hasPendingDependentLocked_def list_ex_iff using states_phase [OF d] phase_states by (fastforce simp: case_prod_unfold)
  have "pc = (if ps \<noteq> None then if f_attempt f < k_max s then KPublish ?c (f_attempt f + 1) else KSelect
      else if hasPendingDependentLocked s1 ?c then if f_attempt f < k_max s then KPublish ?c (f_attempt f + 1) else KSelect
      else if ad then KAbort ?c else KSelect)"
    using assms(2) pk s1 unfolding onFailure_def Let_def note_failure_def [abs_def] by (auto split: if_splits)
  then show ?thesis using ps ad hd by auto
qed


lemma wait_all: "(\<And>c. c \<in> set (comps s') \<Longrightarrow> in_flight s' c) \<Longrightarrow> wait_inv s'"
  by (simp add: wait_inv_def)

text \<open>A component that starts owes a retry to every component that waits unanswered.\<close>

lemma wait_mark:
  assumes "wait_inv s" "p \<in> set (comps s)" "k_run s p = RnMark n" "markStarted_locked p s = (s1, already, pend)" "distinct (comps s)"
  shows "wait_inv (set_run p (RnClose n already pend) s1)"
  unfolding wait_inv_def
proof (intro ballI allI impI)
  let ?s' = "set_run p (RnClose n already pend) s1"
  have s1: "s1 = upd_state p (\<lambda>st. st\<lparr>cs_phase := PhaseStarted\<rparr>) s" and pend: "pend = pendingPeerFailuresLocked s1 p"
    using assms(4) by (auto simp: markStarted_locked_def Let_def)
  fix c m assume c: "c \<in> set (comps ?s')" "k_run ?s' c = RnAwait m"
  then have cp: "c \<noteq> p" "k_run s c = RnAwait m" "c \<in> set (comps s)" by (auto simp: s1 set_run_def split: if_splits)
  then consider "in_flight s c" | "stuck_ok s c" using assms(1) by (auto simp: wait_inv_def)
  then show "in_flight ?s' c \<or> stuck_ok ?s' c"
  proof cases
    case 1
    have "in_flight ?s' c"
      by (rule in_flight_step [OF 1]) (use assms(3) in \<open>auto simp: s1 set_run_def in_flight_def\<close>)
    then show ?thesis by simp
  next
    case 2
    then obtain st where st: "map_of (k_states s) c = Some st" "cs_phase st = PhaseWaitingRetry" "f_comp (cs_last st) = c" "f_attempt (cs_last st) < k_max s"
      unfolding stuck_ok_def by blast
    then have "map_of (k_states s1) c = Some st" using cp(1) by (simp add: s1 map_of_upd_state)
    then have "(c, st) \<in> set (k_states s1)" by (rule map_of_SomeD)
    then have "cs_last st \<in> set pend" using cp(1) st(2) unfolding pend pendingPeerFailuresLocked_def by force
    then have "in_flight ?s' c" using st(3,4) assms(2) unfolding in_flight_def by (intro disjI2 bexI [of _ p]) (auto simp: set_run_def s1)
    then show ?thesis by simp
  qed
qed

lemma dependsOn_upd [simp]: "dependsOn (upd_state c f s) = dependsOn s"
  by (simp add: dependsOn_def fun_eq_iff)

text \<open>The coordinator's answer to a failure.\<close>

lemma wait_failure:
  assumes "wait_inv s" "k_main s = KSelect" "k_fail s = f # fs" "onFailure f (s\<lparr>k_fail := fs\<rparr>) = (s1, pc)" "distinct (comps s)"
    and "local_inv s" "fail_inv s" "cinv specs s"
  shows "wait_inv (s1\<lparr>k_main := pc\<rparr>)"
  unfolding wait_inv_def
proof (intro ballI allI impI)
  let ?s' = "s1\<lparr>k_main := pc\<rparr>"
  note s1 = onFailure_state [OF assms(4)]
  have d0: "distinct (comps (s\<lparr>k_fail := fs\<rparr>))" using assms(5) by simp
  note dec = onFailure_decision [OF d0 assms(4)]
  have fields: "comps ?s' = comps s" "k_run ?s' = k_run s" "k_ctx ?s' = k_ctx s" "k_retry ?s' = k_retry s" "k_over ?s' = k_over s"
    "k_fail ?s' = fs" "k_max ?s' = k_max s" "k_deps ?s' = k_deps s" "k_max s1 = k_max s"
    by (simp_all add: s1)
  have ph: "phase_of ?s' x = (if x = f_comp f \<and> phase_of s x \<noteq> None \<and> phase_of s x \<noteq> Some PhaseGaveUp then Some PhaseWaitingRetry else phase_of s x)" for x
    by (simp add: s1 phase_note)
  have ph1: "phase_of s1 = phase_of ?s'" "dependsOn s1 = dependsOn s" "dependsOn ?s' = dependsOn s"
    by (simp_all add: s1 dependsOn_def fun_eq_iff)
  have fl: "in_flight ?s' c" if "in_flight s c" "c \<noteq> f_comp f" for c
    by (rule in_flight_step [OF that(1)]) (use assms(2,3) that(2) fields in \<open>auto simp: in_flight_def\<close>)
  fix c n assume c: "c \<in> set (comps ?s')" "k_run ?s' c = RnAwait n"
  then have cs: "c \<in> set (comps s)" "k_run s c = RnAwait n" using fields by simp_all
  have lt: "n < k_max s" using cinvD(2) [OF assms(8), of c] cs(2) by simp
  show "in_flight ?s' c \<or> stuck_ok ?s' c"
  proof (cases "c = f_comp f")
    case True
    have att: "f_attempt f < k_max s" using assms(3,7) cs(2) True lt unfolding fail_inv_def by fastforce
    obtain st where st: "map_of (k_states s) c = Some st" using cs(1) comps_iff_state by blast
    have ng: "cs_phase st \<noteq> PhaseGaveUp"
      using local_invD(1) [OF assms(6) cs(1)] cs(2) st by (auto simp: local_ok_simps phase_of_def)
    show ?thesis
    proof (cases "pc = KSelect")
      case False
      then have "in_flight ?s' c" using dec True by (auto simp: in_flight_def split: if_splits)
      then show ?thesis by simp
    next
      case KS: True
      then have q: "\<not> some_peer s1 c PhaseStarted" "\<not> (\<exists>p. p \<noteq> c \<and> phase_of s1 p = Some PhasePending \<and> dependsOn s1 p c)" "some_peer s1 c PhasePending"
        using dec att True fields(9) by (auto split: if_splits)
      have "map_of (k_states ?s') c = Some (note_failure f st)" using st True by (simp add: s1 map_of_upd_state)
      moreover obtain p where p: "p \<noteq> c" "phase_of s1 p = Some PhasePending" using q(3) unfolding some_peer_def by blast
      moreover have "p \<in> set (comps s1)" using phase_states [OF p(2)] by blast
      ultimately have "stuck_ok ?s' c"
        using q(1,2) ng True att fields(7) unfolding stuck_ok_def some_peer_def ph1
        by (auto simp: note_failure_def)
      then show ?thesis by simp
    qed
  next
    case False
    consider "in_flight s c" | "stuck_ok s c" using assms(1) cs by (auto simp: wait_inv_def)
    then show ?thesis
    proof cases
      case 1
      then show ?thesis using fl False by simp
    next
      case 2
      have same: "map_of (k_states ?s') c = map_of (k_states s) c" using False by (simp add: s1 map_of_upd_state)
      have ns: "phase_of ?s' p \<noteq> Some PhaseStarted" if "p \<noteq> c" for p
        using 2 that ph [of p] phase_states [of s p PhaseStarted] unfolding stuck_ok_def by (auto split: if_splits)
      have dep: "\<not> dependsOn ?s' p c" if "p \<noteq> c" "phase_of ?s' p = Some PhasePending" for p
        using 2 that ph [of p] phase_states [of s p PhasePending] unfolding stuck_ok_def ph1 by (auto split: if_splits)
      show ?thesis
      proof (cases "\<exists>p. p \<noteq> c \<and> phase_of ?s' p = Some PhasePending")
        case True
        then have "stuck_ok ?s' c"
          using 2 same ns dep fields(1,7) unfolding stuck_ok_def by (metis phase_states)
        then show ?thesis by simp
      next
        case none: False
        have cw: "phase_of ?s' c \<noteq> Some PhaseStarted" "phase_of ?s' c \<noteq> Some PhasePending"
          using 2 same by (auto simp: stuck_ok_def phase_of_def)
        have "\<not> some_peer s1 (f_comp f) PhaseStarted" "\<not> some_peer s1 (f_comp f) PhasePending"
          using ns none cw unfolding some_peer_def ph1 by metis+
        then have "pc = KAbort (f_comp f)" using dec unfolding some_peer_def by (auto split: if_splits)
        then have "in_flight ?s' c" by (simp add: in_flight_def)
        then show ?thesis by simp
      qed
    qed
  qed
qed


lemma wait_step:
  assumes "cstep s s'" "wait_inv s" "distinct (comps s)" "local_inv s" "fail_inv s" "cinv specs s"
  shows "wait_inv s'"
  using assms(1)
proof cases
  case cancel
  then show ?thesis by (intro wait_all) (simp add: in_flight_def)
next
  case (deps_done c)
  then show ?thesis by (intro wait_move [OF assms(2), of c _ "RnAttempt 1"]) (auto simp: set_run_def)
next
  case (dep_ready c d ds)
  then show ?thesis by (intro wait_move [OF assms(2), of c _ "RnDeps ds"]) (auto simp: set_run_def)
next
  case (dep_cancel c d ds)
  then show ?thesis by (intro wait_move [OF assms(2), of c _ RnDone]) (auto simp: set_run_def)
next
  case (ready c n)
  then show ?thesis by (intro wait_move [OF assms(2), of c _ "RnMark n"]) (auto simp: set_run_def)
next
  case (fail c n e)
  then show ?thesis by (intro wait_move [OF assms(2), of c _ "RnFailed n e"]) (auto simp: set_run_def)
next
  case (mark c n s1 already pend)
  then show ?thesis using wait_mark [OF assms(2) mark(2,3,4) assms(3)] by simp
next
  case (close_ch c n already pend)
  then show ?thesis by (intro wait_move [OF assms(2), of c _ "RnAnnounce n pend"]) (auto simp: set_run_def)
next
  case (announce c n pend)
  then show ?thesis by (intro wait_move [OF assms(2), of c _ "RnPublish n pend"]) (auto simp: set_run_def)
next
  case (publish c n f fs)
  let ?t = "if f_attempt f < k_max s then publishRetry (f_comp f) (f_attempt f + 1) s else s"
  have o: "f_comp f = d \<Longrightarrow> f_attempt f < k_max s \<Longrightarrow> d \<in> set (comps s) \<Longrightarrow> in_flight s' d" for d
    using publish_flies [of d s "f_attempt f + 1"] publish(1) by (auto simp: in_flight_def set_run_def)
  show ?thesis
    by (rule wait_move [OF assms(2), of c _ "RnPublish n fs"])
      (use publish o retry_grows over_grows(2) in \<open>auto simp: set_run_def\<close>)
next
  case (published c n)
  then show ?thesis by (intro wait_move [OF assms(2), of c _ "RnRunning n"]) (auto simp: set_run_def)
next
  case (exited c n)
  then show ?thesis by (intro wait_move [OF assms(2), of c _ RnDone]) (auto simp: set_run_def)
next
  case (fail_cancel c n e)
  then show ?thesis by (intro wait_move [OF assms(2), of c _ RnDone]) (auto simp: set_run_def)
next
  case (fail_report c n e)
  let ?f = "\<lparr>f_comp = c, f_attempt = n, f_err = e\<rparr>"
  let ?pc = "if n = k_max s then RnGiveUp n e else RnAwait n"
  show ?thesis unfolding wait_inv_def
  proof (intro ballI allI impI)
    fix d m assume d: "d \<in> set (comps s')" "k_run s' d = RnAwait m"
    show "in_flight s' d \<or> stuck_ok s' d"
    proof (cases "d = c")
      case True
      then show ?thesis using report_flies [of ?f s] fail_report(1) by (auto simp: in_flight_def set_run_def)
    next
      case False
      then have ds: "d \<in> set (comps s)" "k_run s d = RnAwait m" using d fail_report(1) by (auto simp: set_run_def)
      then consider "in_flight s d" | "stuck_ok s d" using assms(2) by (auto simp: wait_inv_def)
      then show ?thesis
      proof cases
        case 1
        have "in_flight s' d"
          by (rule in_flight_step [OF 1])
            (use fail_report report_keeps [of s ?f] over_grows(1) in \<open>auto simp: set_run_def in_flight_def\<close>)
        then show ?thesis by simp
      next
        case 2
        then show ?thesis using stuck_ok_same [of s' s d] fail_report(1) by (simp add: set_run_def)
      qed
    qed
  qed
next
  case (give_up c n e)
  then show ?thesis by (intro wait_all) (auto simp: in_flight_def set_run_def markGaveUp_locked_def)
next
  case (gave_up c n e)
  then show ?thesis by (intro wait_all) (auto simp: in_flight_def set_run_def)
next
  case (give_up_abort c)
  then show ?thesis using local_invD(2) [OF assms(4)] by (intro wait_all) (auto simp: in_flight_def set_run_def)
next
  case (await_cancel c n)
  then show ?thesis by (intro wait_move [OF assms(2), of c _ RnDone]) (auto simp: set_run_def)
next
  case (await_retry c n m ms)
  then show ?thesis by (intro wait_move [OF assms(2), of c _ "RnDelay n"]) (auto simp: set_run_def)
next
  case (delay c n)
  then show ?thesis by (intro wait_move [OF assms(2), of c _ "RnAttempt (n + 1)"]) (auto simp: set_run_def)
next
  case coord_cancel
  then show ?thesis by (intro wait_all) (simp add: in_flight_def)
next
  case (coord_failure f fs s1 pc)
  then show ?thesis using wait_failure [OF assms(2) coord_failure(2,3,4) assms(3-6)] by simp
next
  case (coord_overflow c)
  then show ?thesis by (intro wait_all) (simp add: in_flight_def)
next
  case (coord_publish c n)
  show ?thesis unfolding wait_inv_def
  proof (intro ballI allI impI)
    fix d m assume d: "d \<in> set (comps s')" "k_run s' d = RnAwait m"
    then have ds: "d \<in> set (comps s)" "k_run s d = RnAwait m" using coord_publish(1) by simp_all
    then consider "in_flight s d" | "stuck_ok s d" using assms(2) by (auto simp: wait_inv_def)
    then show "in_flight s' d \<or> stuck_ok s' d"
    proof cases
      case 1
      have "in_flight s' d"
        by (rule in_flight_step [OF 1])
          (use coord_publish publish_flies [OF ds(1)] retry_grows over_grows(2) in \<open>auto simp: in_flight_def\<close>)
      then show ?thesis by simp
    next
      case 2
      then show ?thesis using stuck_ok_same [of s' s d] coord_publish(1) by simp
    qed
  qed
next
  case (coord_abort c)
  then show ?thesis using local_invD(2) [OF assms(4)] by (intro wait_all) (auto simp: in_flight_def)
next
  case all_done
  then show ?thesis by (intro wait_all) (simp add: in_flight_def)
next
  case close_events
  then show ?thesis using assms(2) by (auto simp: wait_inv_def in_flight_def stuck_ok_def dependsOn_def)
qed


lemma coord_New_facts:
  assumes "coord_New True maxRetries specs = Some (Inr s)"
  shows "distinct (map sp_name specs)" "comps s = map sp_name specs" "edges (k_deps s) = spec_edges specs" "acyclic (spec_edges specs)"
    "snd ` spec_edges specs \<subseteq> sp_name ` set specs" "k_max s = nat (max 0 maxRetries) + 1"
    "k_run s = (\<lambda>c. RnDeps (deps_of specs c))" "k_fail s = []" "k_aborted s = False" "k_main s = KSelect"
    "\<And>c. phase_of s c \<noteq> Some PhaseStarted \<and> phase_of s c \<noteq> Some PhaseGaveUp"
proof -
  obtain deps where b: "buildDependencies specs (map sp_name specs) = Some (Inr deps)" "k_deps s = deps"
    and d: "distinct (map sp_name specs)"
    using assms by (auto simp: coord_New_def first_dup_None split: if_splits option.splits sum.splits)
  show "distinct (map sp_name specs)" by (rule d)
  have e: "dep_sets (map sp_name specs) specs [] = Inr deps" "ensureAcyclic specs deps = Some None"
    using b by (auto simp: buildDependencies_def split: sum.splits option.splits)
  have ed: "edges deps = spec_edges specs \<and> (\<forall>sp \<in> set specs. sp_name sp \<notin> set (sp_deps sp) \<and> set (sp_deps sp) \<subseteq> set (map sp_name specs))"
    using dep_sets_Inr [OF e(1) d] by (simp add: edges_def)
  then show "edges (k_deps s) = spec_edges specs" using b by simp
  show "snd ` spec_edges specs \<subseteq> sp_name ` set specs" using ed by (force simp: spec_edges_def)
  have "\<forall>a b. (a, b) \<in> edges deps \<longrightarrow> a \<in> sp_name ` set specs \<and> b \<in> sp_name ` set specs" using ed by (auto simp: spec_edges_def)
  then show "acyclic (spec_edges specs)" using ensureAcyclic_iff(1) e(2) ed by metis
  have s: "k_states s = map (\<lambda>sp. (sp_name sp, \<lparr>cs_phase = PhasePending, cs_last = zero_failure\<rparr>)) specs"
    "k_max s = nat (if maxRetries < 0 then 0 else maxRetries) + 1"
    "k_run s = (\<lambda>c. RnDeps (deps_of specs c))" "k_fail s = []" "k_aborted s = False" "k_main s = KSelect"
    using assms by (auto simp: coord_New_def deps_of_def split: if_splits option.splits sum.splits)
  then show "k_run s = (\<lambda>c. RnDeps (deps_of specs c))" "k_fail s = []" "k_aborted s = False" "k_main s = KSelect" by simp_all
  show "comps s = map sp_name specs" by (simp add: comps_def s(1) comp_def)
  show "k_max s = nat (max 0 maxRetries) + 1" using s(2) by (simp add: max_def)
  have "cs_phase st = PhasePending" if "(c, st) \<in> set (k_states s)" for c st using that by (auto simp: s(1))
  then show "phase_of s c \<noteq> Some PhaseStarted \<and> phase_of s c \<noteq> Some PhaseGaveUp" for c
    using phase_states [of s c] by fastforce
qed

lemma cstep_static: "cstep s s' \<Longrightarrow> comps s' = comps s \<and> k_deps s' = k_deps s \<and> k_max s' = k_max s"
proof (induction rule: cstep.cases)
  case (mark c s n s1 already pend)
  then show ?case by (auto simp: markStarted_locked_def Let_def set_run_def)
next
  case (coord_failure s f fs s1 pc)
  then show ?case using onFailure_state [OF coord_failure(5)] by auto
qed (auto simp: set_run_def markGaveUp_locked_def)

lemma creach_live:
  assumes "creach specs maxRetries s"
  shows "comps s = map sp_name specs \<and> distinct (map sp_name specs) \<and> edges (k_deps s) = spec_edges specs \<and> acyclic (spec_edges specs)
    \<and> snd ` spec_edges specs \<subseteq> sp_name ` set specs \<and> k_max s = nat (max 0 maxRetries) + 1 \<and> local_inv s \<and> fail_inv s \<and> wait_inv s"
  using assms
proof (induction rule: creach.induct)
  case (init s)
  note n = coord_New_facts [OF init]
  have "local_inv s" using n by (simp add: local_inv_def local_ok_simps)
  moreover have "fail_inv s" "wait_inv s" using n by (simp_all add: fail_inv_def wait_inv_def)
  ultimately show ?case using n by simp
next
  case (step s s')
  then have d: "distinct (comps s)" by simp
  have "wait_inv s'" using wait_step [OF step(2) _ d _ _ creach_inv [OF step(1)]] step(3) by blast
  then show ?case using step(3) cstep_static [OF step(2)] local_step [OF step(2)] fail_step [OF step(2)] by simp
qed

text \<open>A component that still waits for its dependencies has not failed.\<close>

definition pend_inv :: "coordinator \<Rightarrow> bool" where
  "pend_inv s = ((\<forall>f \<in> set (k_fail s). 1 \<le> f_attempt f) \<and> (\<forall>p ds. k_run s p = RnDeps ds \<longrightarrow> phase_of s p \<noteq> Some PhaseWaitingRetry))"

lemma pend_step:
  assumes "cstep s s'" "pend_inv s" "fail_inv s" "cinv specs s" shows "pend_inv s'"
  using assms(1)
proof cases
  case (mark c n s1 already pend)
  then show ?thesis using assms(2)
    by (auto simp: pend_inv_def markStarted_locked_def Let_def set_run_def phase_upd_state split: if_splits)
next
  case (fail_report c n e)
  have "1 \<le> n" using cinvD(2) [OF assms(4), of c] fail_report(3) by simp
  then show ?thesis using assms(2) fail_report onFailed_fail [of "\<lparr>f_comp = c, f_attempt = n, f_err = e\<rparr>" s]
    by (auto simp: pend_inv_def set_run_def split: if_splits)
next
  case (give_up c n e)
  then show ?thesis using assms(2) by (auto simp: pend_inv_def markGaveUp_locked_def set_run_def phase_upd_state split: if_splits)
next
  case (coord_failure f fs s1 pc)
  note s1 = onFailure_state [OF coord_failure(4)]
  have "\<not> (\<exists>ds. k_run s (f_comp f) = RnDeps ds)"
    using assms(2,3) coord_failure(3) unfolding pend_inv_def fail_inv_def by fastforce
  then show ?thesis using assms(2) coord_failure(1,3) by (auto simp: pend_inv_def s1 phase_note split: if_splits)
qed (use assms(2) in \<open>auto simp: pend_inv_def set_run_def split: if_splits\<close>)

lemma creach_pending: "creach specs maxRetries s \<Longrightarrow> pend_inv s"
proof (induction rule: creach.induct)
  case (init s)
  have "cs_phase st = PhasePending" if "(c, st) \<in> set (k_states s)" for c st
    using init that by (auto simp: coord_New_def split: if_splits option.splits sum.splits)
  then have "phase_of s p \<noteq> Some PhaseWaitingRetry" for p using phase_states [of s p] by fastforce
  then show ?case using coord_New_facts(8) [OF init] by (simp add: pend_inv_def)
next
  case (step s s')
  then show ?case using pend_step [OF step(2,3) _ creach_inv [OF step(1)]] creach_live [OF step(1)] by blast
qed

lemma deps_of_edge: "d \<in> set (deps_of specs p) \<Longrightarrow> (p, d) \<in> spec_edges specs"
  by (cases "map_of (map (\<lambda>sp. (sp_name sp, sp_deps sp)) specs) p") (auto simp: deps_of_def spec_edges_def dest!: map_of_SomeD)

text \<open>A component on its way that cannot move itself: it waits for a retry, or for a dependency that has not started.\<close>

fun held :: "coordinator \<Rightarrow> comp \<Rightarrow> runner \<Rightarrow> bool" where
  "held s c (RnAwait n) = (k_retry s c = [])"
| "held s c (RnDeps ds) = (\<exists>d ds'. ds = d # ds' \<and> d \<notin> set (k_started s))"
| "held s c _ = False"

definition progress :: "coordinator \<Rightarrow> bool" where
  "progress s = (\<exists>s'. cstep s s' \<and> (k_run s' \<noteq> k_run s \<or> k_fail s' \<noteq> k_fail s \<or> k_over s' \<noteq> k_over s \<or> k_main s' \<noteq> k_main s))"

lemma progressI:
  "cstep s s' \<Longrightarrow> k_run s' \<noteq> k_run s \<or> k_fail s' \<noteq> k_fail s \<or> k_over s' \<noteq> k_over s \<or> k_main s' \<noteq> k_main s \<Longrightarrow> progress s"
  unfolding progress_def by blast

lemma progress_run: "cstep s s' \<Longrightarrow> k_run s' = (k_run s)(c := pc) \<Longrightarrow> k_run s c \<noteq> pc \<Longrightarrow> progress s"
  unfolding progress_def by (metis fun_upd_same)

lemma coordinator_moves:
  assumes "k_main s \<noteq> KSelect \<and> k_main s \<noteq> KDone \<or> k_main s = KSelect \<and> (k_fail s \<noteq> [] \<or> k_over s \<noteq> None)"
  shows "progress s"
proof (cases "k_main s")
  case (KPublish c n)
  then show ?thesis by (intro progressI [OF cstep.coord_publish]) auto
next
  case (KAbort c)
  then show ?thesis by (intro progressI [OF cstep.coord_abort]) auto
next
  case KSelect
  show ?thesis
  proof (cases "k_fail s")
    case (Cons f fs)
    obtain s1 pc where o: "onFailure f (s\<lparr>k_fail := fs\<rparr>) = (s1, pc)" by fastforce
    have "k_fail s1 = fs" using onFailure_state [OF o] by simp
    then show ?thesis using Cons by (intro progressI [OF cstep.coord_failure [OF KSelect Cons o]]) auto
  next
    case Nil
    then obtain c where "k_over s = Some c" using assms KSelect by auto
    then show ?thesis using KSelect by (intro progressI [OF cstep.coord_overflow]) auto
  qed
next
  case KDone
  then show ?thesis using assms by simp
qed

lemma runner_moves:
  assumes "c \<in> set (comps s)" "\<not> held s c (k_run s c)" "k_run s c \<noteq> RnDone" "\<And>n. k_run s c \<noteq> RnRunning n" "\<not> k_ctx s"
  shows "progress s"
proof (cases "k_run s c")
  case (RnDeps ds)
  show ?thesis
  proof (cases ds)
    case Nil
    then show ?thesis using assms(1) RnDeps by (intro progress_run [OF cstep.deps_done [OF assms(1)]]) (auto simp: set_run_def)
  next
    case (Cons d ds')
    then have "d \<in> set (k_started s)" using assms(2) RnDeps by simp
    then show ?thesis using assms(1) RnDeps Cons
      by (intro progress_run [OF cstep.dep_ready [OF assms(1)]]) (auto simp: set_run_def)
  qed
next
  case (RnAttempt n)
  then show ?thesis by (intro progress_run [OF cstep.ready [OF assms(1)]]) (auto simp: set_run_def)
next
  case (RnMark n)
  obtain s1 a p where m: "markStarted_locked c s = (s1, a, p)" by (metis prod.collapse)
  show ?thesis using mark_fields [OF m] RnMark
    by (intro progress_run [OF cstep.mark [OF assms(1) RnMark m]]) (auto simp: set_run_def)
next
  case (RnClose n b p)
  then show ?thesis by (intro progress_run [OF cstep.close_ch [OF assms(1)]]) (auto simp: set_run_def)
next
  case (RnAnnounce n p)
  then show ?thesis by (intro progress_run [OF cstep.announce [OF assms(1)]]) (auto simp: set_run_def)
next
  case (RnPublish n p)
  show ?thesis
  proof (cases p)
    case Nil
    then show ?thesis using RnPublish by (intro progress_run [OF cstep.published [OF assms(1)]]) (auto simp: set_run_def)
  next
    case (Cons f fs)
    then show ?thesis using RnPublish by (intro progress_run [OF cstep.publish [OF assms(1)]]) (auto simp: set_run_def)
  qed
next
  case (RnFailed n e)
  then show ?thesis using assms(5)
    by (intro progress_run [OF cstep.fail_report [OF assms(1)], where c = c]) (auto simp: set_run_def split: if_splits)
next
  case (RnGiveUp n e)
  then show ?thesis
    by (intro progress_run [OF cstep.give_up [OF assms(1)]]) (auto simp: set_run_def markGaveUp_locked_def)
next
  case (RnGaveUp n e)
  then show ?thesis by (intro progress_run [OF cstep.gave_up [OF assms(1)]]) (auto simp: set_run_def)
next
  case RnAbort
  then show ?thesis by (intro progress_run [OF cstep.give_up_abort [OF assms(1)]]) (auto simp: set_run_def)
next
  case (RnAwait n)
  then obtain m ms where "k_retry s c = m # ms" using assms(2) by (cases "k_retry s c") auto
  then show ?thesis using RnAwait by (intro progress_run [OF cstep.await_retry [OF assms(1)]]) (auto simp: set_run_def)
next
  case (RnDelay n)
  then show ?thesis by (intro progress_run [OF cstep.delay [OF assms(1)]]) (auto simp: set_run_def)
qed (use assms in auto)


section \<open>Properties\<close>

text \<open>C24: in every interleaving of the startup goroutines no channel is closed twice or used after it is closed; a
  component is attempted only after all its dependencies have started, and at most once more than the number of
  retries; it causes at most the events Started and then Exited, or GaveUp; and startup is aborted at most once.\<close>

theorem startup_protocol_safe:
  assumes "creach specs maxRetries s"
  shows "\<not> k_panic s
    \<and> (\<forall>c n. k_run s c = RnAttempt n \<longrightarrow> 1 \<le> n \<and> n \<le> nat (max 0 maxRetries) + 1 \<and> set (deps_of specs c) \<subseteq> set (k_started s))
    \<and> (\<forall>c. kinds (k_events s) c \<in> {[], [KindStarted], [KindGaveUp], [KindStarted, KindExited]})
    \<and> aborts (k_events s) \<le> 1"
proof -
  note inv = creach_inv [OF assms]
  have m: "k_max s = nat (max 0 maxRetries) + 1" using creach_live [OF assms] by simp
  have "kinds (k_events s) c \<in> {[], [KindStarted], [KindGaveUp], [KindStarted, KindExited]}" for c
    using cinvD(4) [OF inv, of c] by (cases "k_run s c") auto
  moreover have "k_run s c = RnAttempt n \<Longrightarrow> 1 \<le> n \<and> n \<le> nat (max 0 maxRetries) + 1 \<and> set (deps_of specs c) \<subseteq> set (k_started s)" for c n
    using cinvD(2,3) [OF inv, of c] m by simp
  ultimately show ?thesis using inv by (auto simp: cinv_def)
qed

definition demo_specs :: "spec list" where
  "demo_specs = [\<lparr>sp_name = ''daemon'', sp_deps = []\<rparr>, \<lparr>sp_name = ''pty'', sp_deps = [''daemon'']\<rparr>]"

lemma demo_specs_accepted: "\<exists>s. coord_New True 3 demo_specs = Some (Inr s)"
proof -
  have "(case coord_New True 3 demo_specs of Some (Inr s) \<Rightarrow> True | _ \<Rightarrow> False)" by code_simp
  then show ?thesis by (auto split: option.splits sum.splits)
qed

theorem startup_protocol_safe_witness:
  "\<exists>s. creach demo_specs 3 s \<and> k_run s ''daemon'' = RnAttempt 1 \<and> \<not> k_panic s \<and> aborts (k_events s) \<le> 1"
proof -
  obtain s where s: "coord_New True 3 demo_specs = Some (Inr s)" using demo_specs_accepted by blast
  note n = coord_New_facts [OF s]
  have c: "''daemon'' \<in> set (comps s)" "k_run s ''daemon'' = RnDeps []" by (simp_all add: n(2,7) demo_specs_def deps_of_def)
  have r: "creach demo_specs 3 (set_run ''daemon'' (RnAttempt 1) s)"
    by (rule creach.step [OF creach.init [OF s] cstep.deps_done [OF c]])
  show ?thesis using startup_protocol_safe [OF r] r by (intro exI [of _ "set_run ''daemon'' (RnAttempt 1) s"]) (simp add: set_run_def)
qed

text \<open>
  A state from which no goroutine can move before the context is done: every component that is not finished or running waits, and
  what it waits for is not on its way.
\<close>

lemma stalled_held:
  assumes "\<not> progress s" "\<not> k_ctx s" "p \<in> set (comps s)" "k_run s p \<noteq> RnDone" "\<And>n. k_run s p \<noteq> RnRunning n"
  shows "held s p (k_run s p)"
  using assms runner_moves by blast

lemma stalled_await:
  assumes "creach specs maxRetries s" "\<not> progress s" "\<not> k_ctx s" "p \<in> set (comps s)" "k_run s p = RnAwait n"
  shows "stuck_ok s p"
proof -
  have li: "local_inv s" and wi: "wait_inv s" using creach_live [OF assms(1)] by simp_all
  have main: "k_main s = KSelect" "k_fail s = []" "k_over s = None"
    using assms(2,3) coordinator_moves local_invD(3) [OF li] by blast+
  have r: "k_retry s p = []" using stalled_held [OF assms(2-4)] assms(5) by simp
  have "\<not> giving_up (k_run s q)" "owed (k_run s q) = []" if "q \<in> set (comps s)" for q
    using stalled_held [OF assms(2,3) that] by (cases "k_run s q"; auto)+
  then have "\<not> in_flight s p" using main assms(3) r unfolding in_flight_def by auto
  then show ?thesis using wi assms(4,5) by (auto simp: wait_inv_def)
qed

text \<open>The components that wait for a dependency that has not started.\<close>

definition blocked :: "coordinator \<Rightarrow> comp set" where
  "blocked s = {p \<in> set (comps s). \<exists>d ds. k_run s p = RnDeps (d # ds) \<and> d \<notin> set (k_started s)}"

lemma blocked_not_awaited:
  assumes "creach specs maxRetries s" "p \<in> set (comps s)" "k_run s p = RnDeps (d # ds)" "(p, d) \<in> spec_edges specs"
  shows "\<not> stuck_ok s d"
proof
  assume q: "stuck_ok s d"
  note L = creach_live [OF assms(1)]
  then have li: "local_inv s" and ed: "edges (k_deps s) = spec_edges specs" by simp_all
  have pd: "p \<noteq> d" using assms(4) L by (auto simp: acyclic_def)
  have "phase_of s p \<noteq> Some PhaseStarted \<and> phase_of s p \<noteq> Some PhaseGaveUp"
    using local_invD(1) [OF li assms(2)] assms(3) by (simp add: local_ok_simps)
  moreover have "phase_of s p \<noteq> Some PhasePending"
  proof
    assume "phase_of s p = Some PhasePending"
    then have "\<not> dependsOn s p d" using q pd assms(2) by (auto simp: stuck_ok_def)
    moreover have "(p, d) \<in> edges (k_deps s)" using assms(4) ed by simp
    ultimately show False by (auto simp: dependsOn_def edges_def)
  qed
  moreover have "phase_of s p \<noteq> Some PhaseWaitingRetry" using creach_pending [OF assms(1)] assms(3) by (auto simp: pend_inv_def)
  moreover have "phase_of s p \<noteq> None" using assms(2) comps_iff_state by (auto simp: phase_of_def)
  ultimately show False by (cases "phase_of s p" rule: option.exhaust; cases "the (phase_of s p)"; simp)
qed

lemma blocked_step:
  assumes "creach specs maxRetries s" "\<not> progress s" "\<not> k_ctx s" "p \<in> blocked s"
  shows "\<exists>d \<in> blocked s. (p, d) \<in> spec_edges specs"
proof -
  note L = creach_live [OF assms(1)]
  obtain d ds where d: "p \<in> set (comps s)" "k_run s p = RnDeps (d # ds)" "d \<notin> set (k_started s)" using assms(4) by (auto simp: blocked_def)
  have "d \<in> set (deps_of specs p)" using cinvD(3) [OF creach_inv [OF assms(1)], of p] d(2) by auto
  then have e: "(p, d) \<in> spec_edges specs" by (rule deps_of_edge)
  have "d \<in> snd ` spec_edges specs" using e by force
  then have dc: "d \<in> set (comps s)" using L by auto
  have "local_ok (phase_of s d) (k_run s d) (k_ctx s) (d \<in> set (k_started s))" using L local_invD(1) dc by blast
  then have "k_run s d \<noteq> RnDone" "\<And>n. k_run s d \<noteq> RnRunning n" using d(3) assms(3) by (auto simp: local_ok_simps)
  then have h: "held s d (k_run s d)" by (rule stalled_held [OF assms(2,3) dc])
  have "\<not> (\<exists>n. k_run s d = RnAwait n)" using blocked_not_awaited [OF assms(1) d(1,2) e] stalled_await [OF assms(1-3) dc] by blast
  then have "d \<in> blocked s" using h dc unfolding blocked_def by (cases "k_run s d") auto
  then show ?thesis using e by blast
qed

lemma none_blocked:
  assumes "creach specs maxRetries s" "\<not> progress s" "\<not> k_ctx s"
  shows "blocked s = {}"
proof (rule ccontr)
  let ?E = "spec_edges specs \<inter> blocked s \<times> blocked s"
  assume "blocked s \<noteq> {}"
  have "finite ?E" by (rule finite_subset [of _ "blocked s \<times> blocked s"]) (auto simp: blocked_def)
  moreover have "acyclic ?E" using creach_live [OF assms(1)] by (meson acyclic_subset inf_le1)
  ultimately have "wf (?E\<inverse>)" by (rule finite_acyclic_wf_converse)
  then obtain z where "z \<in> blocked s" "\<And>y. (y, z) \<in> ?E\<inverse> \<Longrightarrow> y \<notin> blocked s" using \<open>blocked s \<noteq> {}\<close> by (meson ex_in_conv wfE_min)
  then show False using blocked_step [OF assms] by blast
qed




end
