(* ===== verification/Supervise.thy ===== *)
theory Supervise
  imports Startup_Run
begin

text \<open>
  The supervisor of the unified entry, \<open>src/app/rclaude/supervise.go\<close>: it turns the events of the startup coordinator into
  the status lines on the terminal and the exit of the process. Log lines are left out. An error of a component is an
  \<open>ExitError\<close> of the attached session, with its exit code and whether it is quiet, or any other error.
\<close>

section \<open>Definitions\<close>

datatype comp_err = ExitError int bool | OtherError string

datatype exit_err = StartupFailed | RunFailed | Exit int bool

record sup_event =
  v_comp :: comp
  v_kind :: event_kind
  v_err :: "comp_err option"

definition ComponentDaemon :: comp where "ComponentDaemon = ''daemon''"
definition ComponentPTY :: comp where "ComponentPTY = ''pty''"

record supervisor =
  u_started :: "comp list"
  u_failed :: "comp list"
  ptyExit :: "comp_err option"
  ptyDone :: bool
  daemonFatal :: bool
  u_cancelled :: bool
  u_lines :: "(comp \<times> bool) list"

definition new_supervisor :: supervisor where
  "new_supervisor =
     \<lparr>u_started = [], u_failed = [], ptyExit = None, ptyDone = False, daemonFatal = False, u_cancelled = False, u_lines = []\<rparr>"

definition printStatus :: "comp \<Rightarrow> bool \<Rightarrow> supervisor \<Rightarrow> supervisor" where
  "printStatus c ok s = s\<lparr>u_lines := u_lines s @ [(c, ok)]\<rparr>"

definition markFailed :: "comp \<Rightarrow> supervisor \<Rightarrow> supervisor" where
  "markFailed c s =
     (if c \<in> set (u_failed s) \<or> c \<in> set (u_started s) then s
      else printStatus c False (s\<lparr>u_failed := c # u_failed s\<rparr>))"

definition onExited :: "sup_event \<Rightarrow> supervisor \<Rightarrow> supervisor" where
  "onExited ev s =
     (if v_comp ev = ComponentPTY then s\<lparr>ptyDone := True, ptyExit := v_err ev, u_cancelled := True\<rparr>
      else if v_err ev \<noteq> None then s\<lparr>daemonFatal := True, u_cancelled := True\<rparr>
      else s)"

definition sup_handle :: "sup_event \<Rightarrow> supervisor \<Rightarrow> supervisor" where
  "sup_handle ev s =
     (case v_kind ev of
        KindStarted \<Rightarrow> printStatus (v_comp ev) True (s\<lparr>u_started := v_comp ev # u_started s\<rparr>)
      | KindGaveUp \<Rightarrow> markFailed (v_comp ev) s
      | KindAborted \<Rightarrow> s\<lparr>u_cancelled := True\<rparr>
      | KindExited \<Rightarrow> onExited ev s)"

definition ptyExitError :: "supervisor \<Rightarrow> exit_err option" where
  "ptyExitError s =
     (case ptyExit s of
        None \<Rightarrow> None
      | Some (ExitError code quiet) \<Rightarrow> Some (Exit code quiet)
      | Some (OtherError _) \<Rightarrow> Some RunFailed)"

definition sup_finish :: "supervisor \<Rightarrow> supervisor \<times> exit_err option" where
  "sup_finish s0 =
     (let s = foldl (\<lambda>s c. if c \<notin> set (u_started s) then markFailed c s else s) s0 [ComponentDaemon, ComponentPTY] in
      (s, if u_failed s \<noteq> [] then Some StartupFailed
          else if daemonFatal s then Some RunFailed
          else if ptyDone s then ptyExitError s
          else None))"

definition supervise :: "sup_event list \<Rightarrow> supervisor \<times> exit_err option" where
  "supervise evs = sup_finish (foldl (\<lambda>s ev. sup_handle ev s) new_supervisor evs)"

section \<open>What the supervisor keeps\<close>

text \<open>The events of one component, without the aborts.\<close>

definition comp_kinds :: "sup_event list \<Rightarrow> comp \<Rightarrow> event_kind list" where
  "comp_kinds evs c = map v_kind (filter (\<lambda>e. v_comp e = c \<and> v_kind e \<noteq> KindAborted) evs)"

text \<open>The event sequences a component can cause under the startup protocol.\<close>

definition protocol_kinds :: "event_kind list set" where
  "protocol_kinds = {[], [KindStarted], [KindGaveUp], [KindStarted, KindExited]}"

definition exit_of :: "sup_event list \<Rightarrow> comp \<Rightarrow> comp_err option list" where
  "exit_of evs c = map v_err (filter (\<lambda>e. v_comp e = c \<and> v_kind e = KindExited) evs)"

definition lines_of :: "supervisor \<Rightarrow> comp \<Rightarrow> bool list" where
  "lines_of s c = map snd (filter (\<lambda>l. fst l = c) (u_lines s))"

text \<open>Relation of the supervisor's state to the events it has handled.\<close>

definition sup_inv :: "sup_event list \<Rightarrow> supervisor \<Rightarrow> bool" where
  "sup_inv evs s =
     ((\<forall>c. c \<in> set (u_started s) \<longleftrightarrow> KindStarted \<in> set (comp_kinds evs c))
      \<and> (\<forall>c. c \<in> set (u_failed s) \<longleftrightarrow> KindGaveUp \<in> set (comp_kinds evs c))
      \<and> (\<forall>c. lines_of s c = (if KindStarted \<in> set (comp_kinds evs c) then [True]
                             else if KindGaveUp \<in> set (comp_kinds evs c) then [False] else []))
      \<and> (daemonFatal s \<longleftrightarrow> (\<exists>e \<in> set evs. v_kind e = KindExited \<and> v_comp e \<noteq> ComponentPTY \<and> v_err e \<noteq> None))
      \<and> (ptyDone s \<longleftrightarrow> exit_of evs ComponentPTY \<noteq> [])
      \<and> (exit_of evs ComponentPTY \<noteq> [] \<longrightarrow> ptyExit s = last (exit_of evs ComponentPTY)))"

lemma comp_kinds_snoc: "comp_kinds (evs @ [e]) c = comp_kinds evs c @ (if v_comp e = c \<and> v_kind e \<noteq> KindAborted then [v_kind e] else [])"
  by (simp add: comp_kinds_def)

lemma exit_of_snoc: "exit_of (evs @ [e]) c = exit_of evs c @ (if v_comp e = c \<and> v_kind e = KindExited then [v_err e] else [])"
  by (simp add: exit_of_def)

lemma protocol_butlast: "ks @ [k] \<in> protocol_kinds \<Longrightarrow> ks \<in> protocol_kinds \<and> (k = KindStarted \<longrightarrow> ks = []) \<and> (k = KindGaveUp \<longrightarrow> ks = [])"
  by (cases ks) (auto simp: protocol_kinds_def)

lemma protocol_prefix: "\<forall>c. comp_kinds (evs @ [e]) c \<in> protocol_kinds \<Longrightarrow> \<forall>c. comp_kinds evs c \<in> protocol_kinds"
proof
  fix c assume a: "\<forall>c. comp_kinds (evs @ [e]) c \<in> protocol_kinds"
  show "comp_kinds evs c \<in> protocol_kinds"
    using a [rule_format, of c] protocol_butlast [of "comp_kinds evs c" "v_kind e"] by (simp add: comp_kinds_snoc split: if_splits)
qed

lemma lines_print [simp]: "lines_of (printStatus c ok s) d = lines_of s d @ (if d = c then [ok] else [])"
  by (simp add: lines_of_def printStatus_def)

lemma lines_upd [simp]: "lines_of (s\<lparr>u_started := x\<rparr>) = lines_of s" "lines_of (s\<lparr>u_failed := y\<rparr>) = lines_of s"
  "lines_of (s\<lparr>u_cancelled := b\<rparr>) = lines_of s" "lines_of (s\<lparr>ptyDone := d\<rparr>) = lines_of s" "lines_of (s\<lparr>ptyExit := z\<rparr>) = lines_of s"
  "lines_of (s\<lparr>daemonFatal := f\<rparr>) = lines_of s"
  by (simp_all add: lines_of_def fun_eq_iff)

lemma print_fields [simp]:
  "u_started (printStatus c ok s) = u_started s" "u_failed (printStatus c ok s) = u_failed s" "daemonFatal (printStatus c ok s) = daemonFatal s"
  "ptyDone (printStatus c ok s) = ptyDone s" "ptyExit (printStatus c ok s) = ptyExit s"
  by (simp_all add: printStatus_def)

lemma sup_inv_step:
  assumes "sup_inv evs s" "\<forall>c. comp_kinds (evs @ [e]) c \<in> protocol_kinds"
  shows "sup_inv (evs @ [e]) (sup_handle e s)"
proof -
  have first: "v_kind e = KindStarted \<or> v_kind e = KindGaveUp \<Longrightarrow> comp_kinds evs (v_comp e) = []"
    using assms(2) [rule_format, of "v_comp e"] protocol_butlast [of "comp_kinds evs (v_comp e)" "v_kind e"]
    by (auto simp: comp_kinds_snoc)
  show ?thesis
  proof (cases "v_kind e")
    case KindStarted
    then show ?thesis using assms(1) first by (auto simp: sup_inv_def sup_handle_def comp_kinds_snoc exit_of_snoc)
  next
    case KindGaveUp
    then have nf: "v_comp e \<notin> set (u_failed s)" "v_comp e \<notin> set (u_started s)" using assms(1) first by (auto simp: sup_inv_def)
    then have h: "sup_handle e s = printStatus (v_comp e) False (s\<lparr>u_failed := v_comp e # u_failed s\<rparr>)"
      using KindGaveUp by (simp add: sup_handle_def markFailed_def)
    show ?thesis unfolding h using assms(1) first KindGaveUp by (auto simp: sup_inv_def comp_kinds_snoc exit_of_snoc)
  next
    case KindAborted
    then show ?thesis using assms(1) by (auto simp: sup_inv_def sup_handle_def comp_kinds_snoc exit_of_snoc)
  next
    case KindExited
    then show ?thesis using assms(1) by (auto simp: sup_inv_def sup_handle_def onExited_def comp_kinds_snoc exit_of_snoc)
  qed
qed

lemma sup_inv_run: "\<forall>c. comp_kinds evs c \<in> protocol_kinds \<Longrightarrow> sup_inv evs (foldl (\<lambda>s ev. sup_handle ev s) new_supervisor evs)"
proof (induction evs rule: rev_induct)
  case Nil
  show ?case by (simp add: sup_inv_def new_supervisor_def comp_kinds_def exit_of_def lines_of_def)
next
  case (snoc e evs)
  then show ?case using sup_inv_step [OF snoc.IH [OF protocol_prefix [OF snoc.prems]] snoc.prems] by simp
qed

section \<open>What it ends with\<close>

lemma components_differ: "ComponentDaemon \<noteq> ComponentPTY"
  by (simp add: ComponentDaemon_def ComponentPTY_def)

lemma exit_of_single:
  assumes "\<forall>c. comp_kinds evs c \<in> protocol_kinds"
  shows "exit_of evs c = [] \<or> (\<exists>x. exit_of evs c = [x])"
proof -
  have "filter (\<lambda>e. v_comp e = c \<and> v_kind e = KindExited) evs
      = filter (\<lambda>e. v_kind e = KindExited) (filter (\<lambda>e. v_comp e = c \<and> v_kind e \<noteq> KindAborted) evs)"
    by (auto intro!: filter_cong)
  then have "length (exit_of evs c) = length (filter (\<lambda>k. k = KindExited) (comp_kinds evs c))"
    by (simp add: exit_of_def comp_kinds_def filter_map comp_def)
  then have "length (exit_of evs c) \<le> 1" using assms [rule_format, of c] by (auto simp: protocol_kinds_def)
  then show ?thesis by (cases "exit_of evs c") auto
qed

text \<open>The last look at a component that has not started.\<close>

definition settle :: "comp \<Rightarrow> supervisor \<Rightarrow> supervisor" where
  "settle c s = (if c \<notin> set (u_started s) then markFailed c s else s)"

lemma settle_fields:
  "u_started (settle c t) = u_started t" "daemonFatal (settle c t) = daemonFatal t" "ptyDone (settle c t) = ptyDone t"
  "ptyExit (settle c t) = ptyExit t" "u_failed (settle c t) = [] \<longleftrightarrow> u_failed t = [] \<and> c \<in> set (u_started t)"
  "d \<noteq> c \<Longrightarrow> d \<in> set (u_failed (settle c t)) \<longleftrightarrow> d \<in> set (u_failed t)"
  "lines_of (settle c t) d = lines_of t d @ (if d = c \<and> c \<notin> set (u_started t) \<and> c \<notin> set (u_failed t) then [False] else [])"
  by (auto simp: settle_def markFailed_def)

lemma sup_finish_settle:
  "sup_finish s0 = (let s = settle ComponentPTY (settle ComponentDaemon s0) in
     (s, if u_failed s \<noteq> [] then Some StartupFailed else if daemonFatal s then Some RunFailed else if ptyDone s then ptyExitError s else None))"
  by (simp add: sup_finish_def settle_def)

lemma supervise_lines:
  assumes "\<forall>c. comp_kinds evs c \<in> protocol_kinds" "c \<in> {ComponentDaemon, ComponentPTY}"
  shows "lines_of (fst (supervise evs)) c = [KindStarted \<in> set (comp_kinds evs c)]"
  using sup_inv_run [OF assms(1)] assms(2) components_differ
  by (auto simp: supervise_def sup_finish_settle Let_def settle_fields sup_inv_def)

lemma supervise_outcome:
  assumes "\<forall>c. comp_kinds evs c \<in> protocol_kinds" "\<forall>e \<in> set evs. v_kind e \<noteq> KindAborted \<longrightarrow> v_comp e \<in> {ComponentDaemon, ComponentPTY}"
  shows "snd (supervise evs) =
    (if KindStarted \<notin> set (comp_kinds evs ComponentDaemon) \<or> KindStarted \<notin> set (comp_kinds evs ComponentPTY) then Some StartupFailed
     else if (\<exists>x. Some x \<in> set (exit_of evs ComponentDaemon)) then Some RunFailed
     else case exit_of evs ComponentPTY of
            [Some (ExitError code quiet)] \<Rightarrow> Some (Exit code quiet)
          | [Some (OtherError _)] \<Rightarrow> Some RunFailed
          | _ \<Rightarrow> None)"
proof -
  let ?s0 = "foldl (\<lambda>s ev. sup_handle ev s) new_supervisor evs"
  note inv = sup_inv_run [OF assms(1), unfolded sup_inv_def]
  have ex: "KindStarted \<notin> set (comp_kinds evs c) \<or> KindGaveUp \<notin> set (comp_kinds evs c)" for c
    using assms(1) [rule_format, of c] by (auto simp: protocol_kinds_def)
  have fatal: "daemonFatal ?s0 \<longleftrightarrow> (\<exists>x. Some x \<in> set (exit_of evs ComponentDaemon))"
    using inv assms(2) components_differ unfolding exit_of_def by (fastforce simp: image_iff)
  have gu: "KindGaveUp \<notin> set (comp_kinds evs c)" if "c \<noteq> ComponentDaemon" "c \<noteq> ComponentPTY" for c
    using assms(2) that by (auto simp: comp_kinds_def)
  have f: "u_failed ?s0 = [] \<longleftrightarrow> KindGaveUp \<notin> set (comp_kinds evs ComponentDaemon) \<and> KindGaveUp \<notin> set (comp_kinds evs ComponentPTY)"
    using inv gu by (metis list.set_intros(1) list.exhaust empty_iff list.set(1))
  have pty: "(if ptyDone ?s0 then ptyExitError ?s0 else None) = (case exit_of evs ComponentPTY of
      [Some (ExitError code quiet)] \<Rightarrow> Some (Exit code quiet) | [Some (OtherError _)] \<Rightarrow> Some RunFailed | _ \<Rightarrow> None)"
    using inv exit_of_single [OF assms(1), of ComponentPTY] by (auto simp: ptyExitError_def split: option.splits comp_err.splits)
  have pe: "ptyExitError (settle c t) = ptyExitError t" for c t by (simp add: ptyExitError_def settle_fields)
  have fl: "u_failed (settle ComponentPTY (settle ComponentDaemon ?s0)) \<noteq> [] \<longleftrightarrow>
      KindStarted \<notin> set (comp_kinds evs ComponentDaemon) \<or> KindStarted \<notin> set (comp_kinds evs ComponentPTY)"
    unfolding settle_fields f using inv ex by blast
  show ?thesis
    unfolding supervise_def sup_finish_settle Let_def snd_conv fl settle_fields(2,3) pe fatal pty ..
qed

section \<open>Properties\<close>

text \<open>Over any events the startup protocol can cause, the terminal shows exactly one status line per component,
  \<open>started\<close> when the component started and \<open>start failed\<close> otherwise, and the process exits with the startup error
  exactly when one of them did not start; otherwise with the run error when the daemon ended with an error, otherwise
  with the exit of the terminal session when that is over, and with success when it is not.\<close>

theorem one_line_per_component:
  assumes "\<forall>c. comp_kinds evs c \<in> protocol_kinds" "\<forall>e \<in> set evs. v_kind e \<noteq> KindAborted \<longrightarrow> v_comp e \<in> {ComponentDaemon, ComponentPTY}"
    and "supervise evs = (s, res)"
  shows "lines_of s ComponentDaemon = [KindStarted \<in> set (comp_kinds evs ComponentDaemon)]
    \<and> lines_of s ComponentPTY = [KindStarted \<in> set (comp_kinds evs ComponentPTY)]
    \<and> res = (if KindStarted \<notin> set (comp_kinds evs ComponentDaemon) \<or> KindStarted \<notin> set (comp_kinds evs ComponentPTY) then Some StartupFailed
        else if (\<exists>x. Some x \<in> set (exit_of evs ComponentDaemon)) then Some RunFailed
        else case exit_of evs ComponentPTY of
               [Some (ExitError code quiet)] \<Rightarrow> Some (Exit code quiet)
             | [Some (OtherError _)] \<Rightarrow> Some RunFailed
             | _ \<Rightarrow> None)"
  using supervise_lines [OF assms(1)] supervise_outcome [OF assms(1,2)] unfolding assms(3) by simp

definition demo_events :: "sup_event list" where
  "demo_events = [\<lparr>v_comp = ''daemon'', v_kind = KindStarted, v_err = None\<rparr>, \<lparr>v_comp = ''pty'', v_kind = KindStarted, v_err = None\<rparr>,
     \<lparr>v_comp = ''pty'', v_kind = KindExited, v_err = Some (ExitError 3 False)\<rparr>, \<lparr>v_comp = ''daemon'', v_kind = KindExited, v_err = None\<rparr>]"

theorem one_line_per_component_witness:
  "\<exists>s. supervise demo_events = (s, Some (Exit 3 False)) \<and> lines_of s ''daemon'' = [True]"
proof -
  have k: "\<forall>c. comp_kinds demo_events c \<in> protocol_kinds"
    by (auto simp: comp_kinds_def demo_events_def protocol_kinds_def)
  have c: "\<forall>e \<in> set demo_events. v_kind e \<noteq> KindAborted \<longrightarrow> v_comp e \<in> {ComponentDaemon, ComponentPTY}"
    by (simp add: demo_events_def ComponentDaemon_def ComponentPTY_def)
  obtain s r where sr: "supervise demo_events = (s, r)" by fastforce
  show ?thesis using one_line_per_component [OF k c sr] sr
    by (simp add: comp_kinds_def exit_of_def demo_events_def ComponentDaemon_def ComponentPTY_def)
qed

end
