(* ===== verification/Recorder.thy ===== *)
theory Recorder
  imports Main
begin

text \<open>
  The audit recorder, \<open>src/pkg/audit/recorder.go\<close>: callers that enqueue records under the read lock, callers of \<open>Close\<close>
  under the write lock, and the goroutine that writes to the store, as a step relation over their interleavings. The
  store is an interface (the SQL store is one implementation); a save may fail and is then only logged.
\<close>

section \<open>Definitions\<close>

definition DefaultQueueSize :: int where "DefaultQueueSize = 256"

text \<open>A caller holds the read lock with its record, or waits in \<open>Close\<close> for the drain, or has returned.\<close>

datatype 'r apc = AIdle | ARead 'r | AWait bool | AReturned

record 'r recorder =
  q_cap :: nat
  q_queue :: "'r list"
  q_chan_closed :: bool
  q_done :: bool
  q_closed :: bool
  q_pc :: "nat \<Rightarrow> 'r apc"
  q_accepted :: "'r list"
  q_saved :: "'r list"
  q_dropped :: "'r list"
  q_store_closed :: nat
  q_misuse :: bool
  q_panic :: bool

definition NewRecorder :: "int \<Rightarrow> 'r recorder" where
  "NewRecorder queueSize =
     \<lparr>q_cap = nat (if queueSize \<le> 0 then DefaultQueueSize else queueSize), q_queue = [], q_chan_closed = False, q_done = False,
      q_closed = False, q_pc = (\<lambda>_. AIdle), q_accepted = [], q_saved = [], q_dropped = [], q_store_closed = 0,
      q_misuse = False, q_panic = False\<rparr>"

definition q_set :: "nat \<Rightarrow> 'r apc \<Rightarrow> 'r recorder \<Rightarrow> 'r recorder" where
  "q_set t pc s = s\<lparr>q_pc := (q_pc s)(t := pc)\<rparr>"

text \<open>The body of \<open>Record\<close> under the read lock: ignored when closed, enqueued, or dropped when the queue is full. A send on
  a closed channel panics.\<close>

definition rec_Record :: "'r \<Rightarrow> 'r recorder \<Rightarrow> 'r recorder" where
  "rec_Record r s =
     (if q_closed s then s
      else if q_chan_closed s then s\<lparr>q_panic := True\<rparr>
      else if length (q_queue s) < q_cap s then s\<lparr>q_queue := q_queue s @ [r], q_accepted := q_accepted s @ [r]\<rparr>
      else s\<lparr>q_dropped := q_dropped s @ [r]\<rparr>)"

text \<open>The body of \<open>Close\<close> under the write lock, with the old value of \<open>closed\<close>.\<close>

definition rec_Close :: "'r recorder \<Rightarrow> 'r recorder \<times> bool" where
  "rec_Close s =
     (let already = q_closed s; s1 = s\<lparr>q_closed := True\<rparr> in
      (if already then s1
       else if q_chan_closed s1 then s1\<lparr>q_panic := True\<rparr>
       else s1\<lparr>q_chan_closed := True\<rparr>, already))"

definition save :: "'r \<Rightarrow> 'r recorder \<Rightarrow> 'r recorder" where
  "save r s = s\<lparr>q_saved := q_saved s @ [r], q_misuse := (q_misuse s \<or> 0 < q_store_closed s)\<rparr>"

inductive astep :: "'r recorder \<Rightarrow> 'r recorder \<Rightarrow> bool" where
  rlock: "q_pc s t = AIdle \<Longrightarrow> astep s (q_set t (ARead r) s)"
| enqueue: "q_pc s t = ARead r \<Longrightarrow> astep s (q_set t AReturned (rec_Record r s))"
| close: "q_pc s t = AIdle \<Longrightarrow> (\<forall>u r. q_pc s u \<noteq> ARead r) \<Longrightarrow> rec_Close s = (s1, already) \<Longrightarrow> astep s (q_set t (AWait already) s1)"
| drained: "q_pc s t = AWait already \<Longrightarrow> q_done s \<Longrightarrow>
     astep s (q_set t AReturned (if already then s else s\<lparr>q_store_closed := Suc (q_store_closed s)\<rparr>))"
| take: "q_queue s = r # rs \<Longrightarrow> \<not> q_done s \<Longrightarrow> astep s (save r (s\<lparr>q_queue := rs\<rparr>))"
| stop: "q_queue s = [] \<Longrightarrow> q_chan_closed s \<Longrightarrow> \<not> q_done s \<Longrightarrow> astep s (s\<lparr>q_done := True\<rparr>)"

inductive areach :: "int \<Rightarrow> 'r recorder \<Rightarrow> bool" for queueSize where
  init: "areach queueSize (NewRecorder queueSize)"
| step: "areach queueSize s \<Longrightarrow> astep s s' \<Longrightarrow> areach queueSize s'"

section \<open>The invariant\<close>

definition ainv :: "'r recorder \<Rightarrow> bool" where
  "ainv s =
     (\<not> q_panic s \<and> \<not> q_misuse s \<and> q_chan_closed s = q_closed s \<and> (q_done s \<longrightarrow> q_closed s \<and> q_queue s = [])
      \<and> q_accepted s = q_saved s @ q_queue s \<and> length (q_queue s) \<le> q_cap s
      \<and> (\<forall>t u. q_pc s t = AWait False \<and> q_pc s u = AWait False \<longrightarrow> t = u)
      \<and> (\<forall>t b. q_pc s t = AWait b \<longrightarrow> q_closed s)
      \<and> (0 < q_store_closed s \<longrightarrow> q_done s \<and> (\<forall>t. q_pc s t \<noteq> AWait False)) \<and> q_store_closed s \<le> 1)"

lemma astep_ainv:
  assumes "astep s s'" "ainv s" shows "ainv s'"
  using assms(1)
proof cases
  case (rlock t r)
  then show ?thesis using assms(2) by (auto simp: ainv_def q_set_def)
next
  case (enqueue t r)
  then show ?thesis using assms(2) by (auto simp: ainv_def q_set_def rec_Record_def)
next
  case (close t s1 already)
  show ?thesis
  proof (cases "q_closed s")
    case True
    then have "s' = q_set t (AWait True) (s\<lparr>q_closed := True\<rparr>)" using close by (simp add: rec_Close_def Let_def)
    then show ?thesis using True assms(2) by (simp add: ainv_def q_set_def)
  next
    case False
    then have "s' = q_set t (AWait False) (s\<lparr>q_closed := True, q_chan_closed := True\<rparr>)"
      using close assms(2) by (auto simp: rec_Close_def ainv_def)
    then show ?thesis using False assms(2) by (simp add: ainv_def q_set_def) blast
  qed
next
  case (drained t already)
  then show ?thesis using assms(2) by (auto simp: ainv_def q_set_def split: if_splits)
next
  case (take r rs)
  then show ?thesis using assms(2) by (auto simp: ainv_def save_def)
next
  case stop
  then show ?thesis using assms(2) by (auto simp: ainv_def)
qed

lemma areach_ainv: "areach queueSize s \<Longrightarrow> ainv s"
proof (induction rule: areach.induct)
  case init
  show ?case by (simp add: ainv_def NewRecorder_def)
qed (rule astep_ainv)

section \<open>Properties\<close>



end
