(* ===== verification/Go_Match.thy ===== *)
theory Go_Match
  imports Go_Strings
begin

text \<open>
  What the terminal host uses of Go's \<open>unicode/utf8\<close>, \<open>unicode\<close> and \<open>path\<close> packages: decoding of the first rune of a
  byte string, the classification of letters and digits, and the shell patterns of \<open>path.Match\<close> with their three
  loops (over the chunks of the pattern, over one chunk, over a character class). The Unicode tables above Latin-1 are a
  parameter. A bad pattern is \<^const>\<open>None\<close>.
\<close>

section \<open>Definitions\<close>

subsection \<open>Runes\<close>

definition RuneError :: nat where "RuneError = 0xFFFD"

abbreviation byte_in :: "nat \<Rightarrow> char \<Rightarrow> nat \<Rightarrow> bool" where
  "byte_in lo c hi \<equiv> lo \<le> of_char c \<and> of_char c \<le> hi"

text \<open>The range \<open>utf8.DecodeRuneInString\<close> accepts for the second byte, given the first one.\<close>

definition second_range :: "nat \<Rightarrow> nat \<times> nat" where
  "second_range b =
     (if b = 0xE0 then (0xA0, 0xBF) else if b = 0xED then (0x80, 0x9F)
      else if b = 0xF0 then (0x90, 0xBF) else if b = 0xF4 then (0x80, 0x8F) else (0x80, 0xBF))"

text \<open>The first rune and its width in bytes.\<close>

definition decode_rune :: "string \<Rightarrow> nat \<times> nat" where
  "decode_rune s =
     (case s of
        [] \<Rightarrow> (RuneError, 0)
      | c # cs \<Rightarrow>
          let b = of_char c :: nat; (lo, hi) = second_range b; bad = (RuneError, 1) in
          if b < 0x80 then (b, 1)
          else if b < 0xC2 \<or> 0xF4 < b then bad
          else
            (case cs of
               [] \<Rightarrow> bad
             | c1 # cs1 \<Rightarrow>
                 if \<not> byte_in lo c1 hi then bad
                 else if b < 0xE0 then ((b - 0xC0) * 64 + (of_char c1 - 0x80), 2)
                 else
                   (case cs1 of
                      [] \<Rightarrow> bad
                    | c2 # cs2 \<Rightarrow>
                        if \<not> byte_in 0x80 c2 0xBF then bad
                        else if b < 0xF0 then ((b - 0xE0) * 4096 + (of_char c1 - 0x80) * 64 + (of_char c2 - 0x80), 3)
                        else
                          (case cs2 of
                             [] \<Rightarrow> bad
                           | c3 # _ \<Rightarrow>
                               if \<not> byte_in 0x80 c3 0xBF then bad
                               else ((b - 0xF0) * 262144 + (of_char c1 - 0x80) * 4096 + (of_char c2 - 0x80) * 64
                                 + (of_char c3 - 0x80), 4)))))"

text \<open>The tables of \<open>unicode.IsLetter\<close> and \<open>unicode.IsDigit\<close> above Latin-1.\<close>

record unicode_tables =
  wide_letter :: "nat \<Rightarrow> bool"
  wide_digit :: "nat \<Rightarrow> bool"

definition IsLetter :: "unicode_tables \<Rightarrow> nat \<Rightarrow> bool" where
  "IsLetter tab r =
     (if r < 0x100
      then 0x41 \<le> r \<and> r \<le> 0x5A \<or> 0x61 \<le> r \<and> r \<le> 0x7A \<or> r \<in> {0xAA, 0xB5, 0xBA}
           \<or> 0xC0 \<le> r \<and> r \<le> 0xD6 \<or> 0xD8 \<le> r \<and> r \<le> 0xF6 \<or> 0xF8 \<le> r
      else wide_letter tab r)"

definition IsDigit :: "unicode_tables \<Rightarrow> nat \<Rightarrow> bool" where
  "IsDigit tab r = (if r < 0x100 then 0x30 \<le> r \<and> r \<le> 0x39 else wide_digit tab r)"

text \<open>The runes of a string, as a \<open>for range\<close> loop and \<open>strings.IndexFunc\<close> see them.\<close>

function runes :: "string \<Rightarrow> nat list" where
  "runes s = (if s = [] then [] else fst (decode_rune s) # runes (drop (max 1 (snd (decode_rune s))) s))"
  by pat_completeness auto
termination
  by (relation "measure length") auto

subsection \<open>Shell patterns\<close>

abbreviation star_char :: char where "star_char \<equiv> CHR 0x2A"

text \<open>\<open>scanChunk\<close>: the scan up to the next star outside a class, and the stars before it.\<close>

fun chunk_scan :: "bool \<Rightarrow> string \<Rightarrow> string \<times> string" where
  "chunk_scan inrange [] = ([], [])"
| "chunk_scan inrange (c # cs) =
     (if c = backslash then
        (case cs of
           [] \<Rightarrow> ([c], [])
         | d # ds \<Rightarrow> (let (a, b) = chunk_scan inrange ds in (c # d # a, b)))
      else if c = star_char \<and> \<not> inrange then ([], c # cs)
      else
        (let inrange' = (if c = CHR ''['' then True else if c = CHR '']'' then False else inrange);
             (a, b) = chunk_scan inrange' cs in (c # a, b)))"

definition scanChunk :: "string \<Rightarrow> bool \<times> string \<times> string" where
  "scanChunk p =
     (let q = dropWhile (\<lambda>c. c = star_char) p; (chunk, rest) = chunk_scan False q
      in (prefix [star_char] p, chunk, rest))"

definition getEsc :: "string \<Rightarrow> (nat \<times> string) option" where
  "getEsc chunk =
     (case chunk of
        [] \<Rightarrow> None
      | c # cs \<Rightarrow>
          if c = CHR ''-'' \<or> c = CHR '']'' then None
          else
            (let ch = (if c = backslash then cs else chunk) in
             if ch = [] then None
             else
               (let (r, n) = decode_rune ch; nchunk = drop n ch in
                if r = RuneError \<and> n = 1 then None
                else if nchunk = [] then None
                else Some (r, nchunk))))"

lemma decode_rune_width: "s \<noteq> [] \<Longrightarrow> 1 \<le> snd (decode_rune s)"
  by (auto simp: decode_rune_def Let_def split: list.splits prod.splits)

lemma getEsc_shorter: "getEsc chunk = Some (r, rest) \<Longrightarrow> length rest < length chunk"
proof -
  assume a: "getEsc chunk = Some (r, rest)"
  then obtain c cs ch where c: "chunk = c # cs" "ch = (if c = backslash then cs else chunk)" "ch \<noteq> []"
    and r: "rest = drop (snd (decode_rune ch)) ch"
    by (auto simp: getEsc_def Let_def split: list.splits if_splits prod.splits)
  have "length rest < length ch" using decode_rune_width [OF c(3)] c(3) r by simp
  then show ?thesis using c(1,2) by (auto split: if_splits)
qed

text \<open>The ranges of a character class; \<open>n\<close> tells whether one was read. The result is whether the rune matched and the
  rest of the chunk after the bracket.\<close>

function class_ranges :: "nat \<Rightarrow> bool \<Rightarrow> bool \<Rightarrow> string \<Rightarrow> (bool \<times> string) option" where
  "class_ranges r n matched chunk =
     (if prefix '']'' chunk \<and> n then Some (matched, drop 1 chunk)
      else
        (case getEsc chunk of
           None \<Rightarrow> None
         | Some (lo, chunk1) \<Rightarrow>
             (case (if prefix ''-'' chunk1 then getEsc (drop 1 chunk1) else Some (lo, chunk1)) of
                None \<Rightarrow> None
              | Some (hi, chunk2) \<Rightarrow> class_ranges r True (matched \<or> lo \<le> r \<and> r \<le> hi) chunk2)))"
  by pat_completeness auto
termination
proof (relation "measure (\<lambda>(r, n, m, chunk). length chunk)")
  fix r n m and chunk chunk1 chunk2 :: string and x y :: "nat \<times> string" and lo hi
  assume "getEsc chunk = Some x" "(lo, chunk1) = x"
    "(if prefix ''-'' chunk1 then getEsc (drop 1 chunk1) else Some (lo, chunk1)) = Some y" "(hi, chunk2) = y"
  then show "((r, True, m \<or> lo \<le> r \<and> r \<le> hi, chunk2), r, n, m, chunk) \<in> measure (\<lambda>(r, n, m, chunk). length chunk)"
    using getEsc_shorter [of chunk lo chunk1] getEsc_shorter [of "drop 1 chunk1" hi chunk2] by (auto split: if_splits)
qed simp

declare class_ranges.simps [simp del] runes.simps [simp del]

lemma class_ranges_shorter: "class_ranges r n m chunk = Some (m', rest) \<Longrightarrow> length rest \<le> length chunk"
proof (induction r n m chunk rule: class_ranges.induct)
  case (1 r n m chunk)
  note eq = 1(2) [unfolded class_ranges.simps [of r n m chunk]]
  show ?case
  proof (cases "prefix '']'' chunk \<and> n")
    case True
    then show ?thesis using eq by auto
  next
    case False
    obtain lo c1 where g: "getEsc chunk = Some (lo, c1)" using eq False by (auto split: option.splits)
    obtain hi c2 where h: "(if prefix ''-'' c1 then getEsc (drop 1 c1) else Some (lo, c1)) = Some (hi, c2)"
      using eq False g by (auto split: option.splits)
    have "length rest \<le> length c2" using 1(1) [OF False g refl h refl] eq False g h by simp
    then show ?thesis using getEsc_shorter [OF g] h getEsc_shorter [of "drop 1 c1" hi c2] by (auto split: if_splits)
  qed
qed

text \<open>\<open>matchChunk\<close>: after a failed match the chunk is still checked. \<open>Some None\<close> is no match, \<open>Some (Some t)\<close> a match
  with the rest \<open>t\<close>.\<close>

function matchChunk :: "bool \<Rightarrow> string \<Rightarrow> string \<Rightarrow> string option option" where
  "matchChunk failed [] s = Some (if failed then None else Some s)"
| "matchChunk failed (c # cs) s =
     (let failed = failed \<or> s = [] in
      if c = CHR ''['' then
        (let (r, n) = (if failed then (0, 0) else decode_rune s);
             negated = prefix ''^'' cs;
             body = (if negated then drop 1 cs else cs) in
         case class_ranges r False False body of
           None \<Rightarrow> None
         | Some (matched, rest) \<Rightarrow> matchChunk (failed \<or> matched = negated) rest (drop n s))
      else if c = CHR ''?'' then
        matchChunk (failed \<or> prefix [slash] s) cs (if failed then s else drop (snd (decode_rune s)) s)
      else
        (let lit = (if c = backslash then cs else c # cs) in
         case lit of
           [] \<Rightarrow> None
         | d # ds \<Rightarrow> matchChunk (failed \<or> \<not> prefix [d] s) ds (if failed then s else drop 1 s)))"
  by pat_completeness auto
termination
  by (relation "measure (\<lambda>(f, chunk, s). length chunk)")
     (auto dest!: class_ranges_shorter split: if_splits)

declare matchChunk.simps(2) [simp del]

text \<open>The loop that skips bytes under a star.\<close>

fun star_loop :: "string \<Rightarrow> bool \<Rightarrow> string \<Rightarrow> string option option" where
  "star_loop chunk final [] = Some None"
| "star_loop chunk final (c # cs) =
     (if c = slash then Some None
      else
        (case matchChunk False chunk cs of
           None \<Rightarrow> None
         | Some None \<Rightarrow> star_loop chunk final cs
         | Some (Some t) \<Rightarrow> if final \<and> t \<noteq> [] then star_loop chunk final cs else Some (Some t)))"

lemma chunk_scan_append: "fst (chunk_scan ir p) @ snd (chunk_scan ir p) = p"
proof (induction ir p rule: chunk_scan.induct)
  case (2 ir c cs)
  show ?case
  proof (cases "c = backslash")
    case True
    then show ?thesis using 2(1) [OF True] by (cases cs) (simp_all add: case_prod_beta)
  next
    case False
    then show ?thesis using 2(2) [OF False _ refl] by (cases "c = star_char \<and> \<not> ir") (simp_all add: case_prod_beta Let_def)
  qed
qed simp

lemma scanChunk_shorter: "scanChunk p = (star, chunk, rest) \<Longrightarrow> p \<noteq> [] \<Longrightarrow> length rest < length p"
proof -
  assume a: "scanChunk p = (star, chunk, rest)" "p \<noteq> []"
  let ?q = "dropWhile (\<lambda>c. c = star_char) p"
  have q: "chunk @ rest = ?q" using a(1) chunk_scan_append [of False ?q] by (simp add: scanChunk_def Let_def case_prod_beta)
  show ?thesis
  proof (cases "prefix [star_char] p")
    case True
    then obtain cs where "p = star_char # cs" by (cases p) auto
    then have "length ?q < length p" using length_dropWhile_le [of "\<lambda>c. c = star_char" cs] by simp
    then show ?thesis using arg_cong [OF q, of length] by simp
  next
    case False
    then obtain c cs where p: "p = c # cs" "c \<noteq> star_char" using a(2) by (cases p) auto
    then have "fst (chunk_scan False ?q) \<noteq> []" by (simp add: case_prod_beta Let_def split: list.split)
    then have "chunk \<noteq> []" using a(1) by (simp add: scanChunk_def case_prod_beta Let_def)
    then show ?thesis using arg_cong [OF q, of length] p by (cases chunk) simp_all
  qed
qed

text \<open>Before no match is reported the rest of the pattern is checked.\<close>

function rest_ok :: "string \<Rightarrow> bool" where
  "rest_ok p =
     (if p = [] then True
      else
        (case scanChunk p of
           (star, chunk, rest) \<Rightarrow> (case matchChunk False chunk [] of None \<Rightarrow> False | Some _ \<Rightarrow> rest_ok rest)))"
  by pat_completeness auto
termination
  by (relation "measure length") (auto dest!: scanChunk_shorter [OF sym])

function path_Match :: "string \<Rightarrow> string \<Rightarrow> bool option" where
  "path_Match pat name =
     (if pat = [] then Some (name = [])
      else
        (case scanChunk pat of
           (star, chunk, rest) \<Rightarrow>
             if star \<and> chunk = [] then Some (slash \<notin> set name)
             else
               (case matchChunk False chunk name of
                  None \<Rightarrow> None
                | Some m \<Rightarrow>
                    (case (case m of
                             Some t \<Rightarrow> if t = [] \<or> rest \<noteq> [] then Some (Some t)
                                       else if star then star_loop chunk True name else Some None
                           | None \<Rightarrow> if star then star_loop chunk (rest = []) name else Some None) of
                       None \<Rightarrow> None
                     | Some (Some t) \<Rightarrow> path_Match rest t
                     | Some None \<Rightarrow> if rest_ok rest then Some False else None))))"
  by pat_completeness auto
termination
  by (relation "measure (\<lambda>(p, n). length p)") (auto dest!: scanChunk_shorter [OF sym])

declare rest_ok.simps [simp del] path_Match.simps [simp del]

section \<open>Patterns with one trailing star\<close>

lemma path_Match_Nil [simp]: "path_Match [] name = Some (name = [])" "rest_ok []"
  by (simp_all add: path_Match.simps [of "[]"] rest_ok.simps [of "[]"])

definition plain_char :: "char \<Rightarrow> bool" where
  "plain_char c = (c \<notin> {star_char, CHR ''?'', CHR ''['', backslash})"

lemma chunk_scan_plain: "list_all plain_char w \<Longrightarrow> chunk_scan False w = (w, [])"
  by (induction w) (auto simp: plain_char_def)

lemma chunk_scan_plain_star: "list_all plain_char w \<Longrightarrow> chunk_scan False (w @ [star_char]) = (w, [star_char])"
  by (induction w) (auto simp: plain_char_def)

lemma matchChunk_failed: "list_all plain_char w \<Longrightarrow> matchChunk True w s = Some None"
  by (induction w arbitrary: s) (auto simp: plain_char_def matchChunk.simps(2) Let_def)

lemma matchChunk_plain:
  "list_all plain_char w \<Longrightarrow> matchChunk False w s = Some (if prefix w s then Some (drop (length w) s) else None)"
proof (induction w arbitrary: s)
  case (Cons c w)
  then have c: "c \<noteq> CHR ''?''" "c \<noteq> CHR ''[''" "c \<noteq> backslash" and w: "list_all plain_char w"
    by (simp_all add: list_all_iff) (simp_all add: plain_char_def)
  show ?case
  proof (cases s)
    case (Cons a t)
    then show ?thesis using c Cons.IH [OF w] matchChunk_failed [OF w]
      by (cases "c = a") (simp_all add: matchChunk.simps(2))
  qed (use c matchChunk_failed [OF w] in \<open>simp add: matchChunk.simps(2)\<close>)
qed simp

text \<open>A pattern of ordinary characters matches itself only, and with a star at its end the names it is a prefix of
  that have no further slash.\<close>

lemma path_Match_plain: "list_all plain_char w \<Longrightarrow> path_Match w name = Some (name = w)"
proof (cases "w = []")
  case False
  assume w: "list_all plain_char w"
  obtain c cs where "w = c # cs" "c \<noteq> star_char" using False w by (cases w) (auto simp: plain_char_def)
  then have "\<not> prefix [star_char] w" "dropWhile (\<lambda>c. c = star_char) w = w" by auto
  then have "scanChunk w = (False, w, [])" using chunk_scan_plain [OF w] by (simp add: scanChunk_def)
  then have "path_Match w name = Some (prefix w name \<and> drop (length w) name = [])"
    using False matchChunk_plain [OF w, of name] by (simp add: path_Match.simps [of w])
  moreover have "prefix w name \<and> drop (length w) name = [] \<longleftrightarrow> name = w" by (auto elim: prefixE)
  ultimately show ?thesis by simp
qed simp

lemma path_Match_star:
  "list_all plain_char w \<Longrightarrow> path_Match (w @ [star_char]) name = Some (prefix w name \<and> slash \<notin> set (drop (length w) name))"
proof (cases "w = []")
  case True
  then show ?thesis by (simp add: path_Match.simps [of "[star_char]"] scanChunk_def)
next
  case False
  assume w: "list_all plain_char w"
  obtain c cs where "w = c # cs" "c \<noteq> star_char" using False w by (cases w) (auto simp: plain_char_def)
  then have "\<not> prefix [star_char] (w @ [star_char])" "dropWhile (\<lambda>c. c = star_char) (w @ [star_char]) = w @ [star_char]" by auto
  then have s: "scanChunk (w @ [star_char]) = (False, w, [star_char])" using chunk_scan_plain_star [OF w] by (simp add: scanChunk_def)
  have "rest_ok [star_char]" by (simp add: rest_ok.simps [of "[star_char]"] scanChunk_def)
  moreover have "path_Match [star_char] t = Some (slash \<notin> set t)" for t by (simp add: path_Match.simps [of "[star_char]"] scanChunk_def)
  ultimately show ?thesis using s matchChunk_plain [OF w, of name]
    by (simp add: path_Match.simps [of "w @ [star_char]"])
qed

end
