(* ===== verification/Pty_Policy.thy ===== *)
theory Pty_Policy
  imports Go_Match Safepath "HOL-Library.List_Lexorder" "HOL-Library.Char_ord"
begin

text \<open>
  What a terminal session may run and where, \<open>src/pkg/ptyhost/policy.go\<close>: the working directory below the workspace
  root, the environment left by the allow list, and the program. \<open>exec.LookPath\<close> is modelled over the value of \<open>PATH\<close>
  and the set of executable files, which the operating system decides.
\<close>

section \<open>Definitions\<close>

datatype host_error =
  ErrUnsafeUserID | ErrUnsafeWorkspace | ErrWorkspaceRootNotAbs
| ErrBinaryEmpty | ErrBinaryNotFound | ErrBinaryUnsafe
| ErrLookPathFailed | ErrStatCwd | ErrCwdNotDir | ErrStartFailed

definition ResolveCwd :: "string \<Rightarrow> string \<Rightarrow> string \<Rightarrow> host_error + string" where
  "ResolveCwd workspaceRoot uid workspace =
     (if workspaceRoot = [] then Inl ErrWorkspaceRootNotAbs
      else
        (case CleanSegment uid of
           Inl _ \<Rightarrow> Inl ErrUnsafeUserID
         | Inr cleanedUserID \<Rightarrow>
             (case CleanSegment workspace of
                Inl _ \<Rightarrow> Inl ErrUnsafeWorkspace
              | Inr cleanedWorkspace \<Rightarrow>
                  (case Join workspaceRoot (cleanedUserID @ slash # cleanedWorkspace) of
                     Inr cwd \<Rightarrow> Inr cwd
                   | Inl e \<Rightarrow>
                       if e = ErrBaseNotAbs \<or> e = ErrEmptyPath then Inl ErrWorkspaceRootNotAbs
                       else Inl ErrUnsafeUserID))))"

subsection \<open>The environment\<close>

text \<open>The exact names and the patterns of the allow list.\<close>

fun compileEnvAllowlist :: "string list \<Rightarrow> string list \<times> string list" where
  "compileEnvAllowlist [] = ([], [])"
| "compileEnvAllowlist (entry # whitelist) =
     (let key = trim_space entry; (exact, patterns) = compileEnvAllowlist whitelist in
      if key = [] then (exact, patterns)
      else if list_ex (\<lambda>c. c \<in> {star_char, CHR ''?'', CHR ''[''}) key then (exact, key # patterns)
      else (key # exact, patterns))"

definition envKeyAllowed :: "string \<Rightarrow> string list \<Rightarrow> string list \<Rightarrow> bool" where
  "envKeyAllowed key exact patterns = (key \<in> set exact \<or> list_ex (\<lambda>pattern. path_Match pattern key = Some True) patterns)"

definition isSafeTerm :: "unicode_tables \<Rightarrow> string \<Rightarrow> bool" where
  "isSafeTerm tab term =
     (term \<noteq> [] \<and> list_all (\<lambda>r. IsLetter tab r \<or> IsDigit tab r \<or> r \<in> {0x2D, 0x5F, 0x2E}) (runes term))"

text \<open>The map \<open>source\<close> is read in some order; the result is sorted.\<close>

definition BuildEnv :: "unicode_tables \<Rightarrow> (string \<times> string) list \<Rightarrow> string list \<Rightarrow> string \<Rightarrow> string list" where
  "BuildEnv tab source whitelist clientTerm =
     (let (exact, patterns) = compileEnvAllowlist whitelist;
          out = map (\<lambda>(key, v). key @ ''='' @ v) (filter (\<lambda>(key, v). envKeyAllowed key exact patterns) source);
          out1 = (if envKeyAllowed ''TERM'' exact patterns \<and> isSafeTerm tab clientTerm
                  then filter (\<lambda>kv. \<not> prefix ''TERM='' kv) out @ [''TERM='' @ clientTerm] else out)
      in sort out1)"

subsection \<open>The program\<close>

definition hasWindowsDrivePrefix :: "unicode_tables \<Rightarrow> string \<Rightarrow> bool" where
  "hasWindowsDrivePrefix tab binary =
     (3 \<le> length binary \<and> IsLetter tab (of_char (binary ! 0)) \<and> binary ! 1 = CHR 0x3A
      \<and> (binary ! 2 = slash \<or> binary ! 2 = backslash))"

definition isAbsoluteBinaryPath :: "unicode_tables \<Rightarrow> string \<Rightarrow> bool" where
  "isAbsoluteBinaryPath tab binary = (is_abs binary \<or> prefix [backslash] binary \<or> hasWindowsDrivePrefix tab binary)"

text \<open>\<open>exec.LookPath\<close>: a name with a slash stands for itself, a bare name is looked up in the directories of \<open>PATH\<close>; a
  hit below a relative directory is refused.\<close>

fun path_search :: "(string \<Rightarrow> bool) \<Rightarrow> string \<Rightarrow> string list \<Rightarrow> string option" where
  "path_search is_exec file [] = None"
| "path_search is_exec file (dir # dirs) =
     (let p = fp_join [if dir = [] then ''.'' else dir, file] in
      if is_exec p then (if is_abs p then Some p else None) else path_search is_exec file dirs)"

definition LookPath :: "(string \<Rightarrow> bool) \<Rightarrow> string \<Rightarrow> string \<Rightarrow> string option" where
  "LookPath is_exec pathenv file =
     (if file \<in> {[], ''.'', ''..''} then None
      else if slash \<in> set file then (if is_exec file then Some file else None)
      else path_search is_exec file (if pathenv = [] then [] else split_on CHR 0x3A pathenv))"

definition ResolveBinary :: "unicode_tables \<Rightarrow> (string \<Rightarrow> string option) \<Rightarrow> string \<Rightarrow> host_error + string" where
  "ResolveBinary tab lookPath name =
     (let trimmed = trim_space name in
      if trimmed = [] then Inl ErrBinaryEmpty
      else if isAbsoluteBinaryPath tab trimmed then Inr trimmed
      else if list_ex (\<lambda>c. c = slash \<or> c = backslash) trimmed then Inl ErrBinaryUnsafe
      else (case lookPath trimmed of None \<Rightarrow> Inl ErrBinaryNotFound | Some p \<Rightarrow> Inr p))"

section \<open>The working directory\<close>

text \<open>Two clean segments joined below an absolute root.\<close>

lemma clean_two_segments:
  assumes "is_name u" "is_name w" "backslash \<notin> set u" "backslash \<notin> set w"
  shows "Clean (u @ slash # w) = Inr (u @ slash # w)" "clean_elems (ToSlash (u @ slash # w)) = [u, w]"
proof -
  have ts: "ToSlash (u @ slash # w) = u @ slash # w" using assms(3,4) by (simp add: ToSlash_def replace_backslash_id)
  have rp: "u @ slash # w = rel_path [u, w]" by (simp add: rel_path_def)
  show ce: "clean_elems (ToSlash (u @ slash # w)) = [u, w]" 
    using clean_elems_rel_path [of "[u, w]"] assms(1,2) ts by (simp add: rp [symmetric])
  show "Clean (u @ slash # w) = Inr (u @ slash # w)" using assms(1,2) by (simp add: Clean_cases ce) (simp add: rp)
qed

lemma ResolveCwd_iff:
  "ResolveCwd root uid ws = Inr cwd \<longleftrightarrow>
     is_rooted root \<and> (\<exists>u w. CleanSegment uid = Inr u \<and> CleanSegment ws = Inr w \<and> \<not> isAbsLike (u @ slash # w)
       \<and> cwd = render_path True (clean_elems root @ [u, w]))"
proof (cases "\<exists>u w. CleanSegment uid = Inr u \<and> CleanSegment ws = Inr w")
  case True
  then obtain u w where s: "CleanSegment uid = Inr u" "CleanSegment ws = Inr w" by blast
  note c = clean_two_segments [OF CleanSegment_InrD(1) [OF s(1)] CleanSegment_InrD(1) [OF s(2)] CleanSegment_InrD(2) [OF s(1)] CleanSegment_InrD(2) [OF s(2)]]
  have r: "root = [] \<Longrightarrow> \<not> is_rooted root" by (simp add: is_rooted_def)
  show ?thesis using s c r by (auto simp: ResolveCwd_def Join_cases split: if_splits)
qed (auto simp: ResolveCwd_def split: sum.splits if_splits)

text \<open>Different users never share a directory, and none is below the other.\<close>

lemma ResolveCwd_elems:
  assumes "ResolveCwd root uid ws = Inr cwd"
  shows "clean_elems cwd = clean_elems root @ [trim_space uid, trim_space ws]" "is_name (trim_space uid)" "is_name (trim_space ws)"
proof -
  obtain u w where s: "CleanSegment uid = Inr u" "CleanSegment ws = Inr w" and r: "is_rooted root"
    and c: "cwd = render_path True (clean_elems root @ [u, w])"
    using assms unfolding ResolveCwd_iff by blast
  have t: "u = trim_space uid" "w = trim_space ws"
    using s by (auto simp: CleanSegment_def Let_def split: if_splits sum.splits)
  note n = CleanSegment_InrD(1) [OF s(1)] CleanSegment_InrD(1) [OF s(2)]
  have "normal_elems True (clean_elems root @ [u, w])"
    using n clean_elems_abs_names [OF r] by (intro normal_elemsI [of _ 0 "clean_elems root @ [u, w]"]) auto
  then show "clean_elems cwd = clean_elems root @ [trim_space uid, trim_space ws]" unfolding c t [symmetric] by (rule clean_elems_render)
  show "is_name (trim_space uid)" "is_name (trim_space ws)" using n t by simp_all
qed

section \<open>The environment\<close>

lemma key_of_entry:
  assumes "CHR ''='' \<notin> set k" "CHR ''='' \<notin> set a"
  shows "prefix (a @ ''='') (k @ ''='' @ v) \<longleftrightarrow> k = a"
  using append_sep_inject [of k "CHR ''=''" v a] assms by (auto simp: prefix_def)

abbreviation env_allowed :: "string list \<Rightarrow> string \<Rightarrow> bool" where
  "env_allowed whitelist key \<equiv> envKeyAllowed key (fst (compileEnvAllowlist whitelist)) (snd (compileEnvAllowlist whitelist))"

lemma set_filter_entries:
  assumes "\<And>k v. (k, v) \<in> set src \<Longrightarrow> P (f k v) \<longleftrightarrow> k = t"
  shows "set (filter (\<lambda>kv. \<not> P kv) (map (\<lambda>(k, v). f k v) (filter (\<lambda>(k, v). A k) src)))
    = {f k v |k v. (k, v) \<in> set src \<and> A k \<and> k \<noteq> t}"
  using assms by (force simp: image_iff)

lemma BuildEnv_alt:
  "BuildEnv tab src wl term =
     (let out = map (\<lambda>(k, v). k @ ''='' @ v) (filter (\<lambda>(k, v). env_allowed wl k) src)
      in sort (if env_allowed wl ''TERM'' \<and> isSafeTerm tab term then filter (\<lambda>kv. \<not> prefix ''TERM='' kv) out @ [''TERM='' @ term] else out))"
  by (simp add: BuildEnv_def case_prod_beta)

lemma set_BuildEnv:
  assumes "\<forall>(k, v) \<in> set src. CHR ''='' \<notin> set k"
  shows "set (BuildEnv tab src wl term) =
    {k @ ''='' @ v |k v. (k, v) \<in> set src \<and> env_allowed wl k \<and> \<not> (k = ''TERM'' \<and> isSafeTerm tab term)}
    \<union> (if env_allowed wl ''TERM'' \<and> isSafeTerm tab term then {''TERM='' @ term} else {})"
proof -
  have p: "prefix ''TERM='' (k @ ''='' @ v) \<longleftrightarrow> k = ''TERM''" if "(k, v) \<in> set src" for k v
    using key_of_entry [of k "''TERM''" v] assms that by auto
  have all: "set (map (\<lambda>(k, v). k @ ''='' @ v) (filter (\<lambda>(k, v). env_allowed wl k) src))
      = {k @ ''='' @ v |k v. (k, v) \<in> set src \<and> env_allowed wl k}" by force
  have dropped: "{k @ ''='' @ v |k v. (k, v) \<in> set src \<and> env_allowed wl k} = {k @ ''='' @ v |k v. (k, v) \<in> set src \<and> env_allowed wl k \<and> k \<noteq> ''TERM''}"
    if "\<not> env_allowed wl ''TERM''" using that by blast
  note kept = set_filter_entries [where f = "\<lambda>k v. k @ ''='' @ v" and P = "prefix ''TERM=''" and t = "''TERM''" and src = src, OF p]
  show ?thesis
  proof (cases "isSafeTerm tab term")
    case True
    show ?thesis
      using True dropped unfolding BuildEnv_alt Let_def
      by (cases "env_allowed wl ''TERM''") (simp_all only: set_sort set_append kept all if_True if_False simp_thms fst_conv snd_conv list.set Un_empty_right)
  next
    case False
    then show ?thesis unfolding BuildEnv_alt Let_def
      by (simp only: set_sort all if_False simp_thms Un_empty_right)
  qed
qed

lemma sorted_BuildEnv: "sorted (BuildEnv tab src wl term)"
  by (simp add: BuildEnv_def case_prod_beta Let_def)

section \<open>The program\<close>

lemma path_search_abs: "path_search is_exec file dirs = Some p \<Longrightarrow> is_abs p \<and> is_exec p"
  by (induction dirs) (auto simp: Let_def split: if_splits)

lemma LookPath_bare: "LookPath is_exec pathenv file = Some p \<Longrightarrow> slash \<notin> set file \<Longrightarrow> is_abs p \<and> is_exec p"
  by (auto simp: LookPath_def path_search_abs split: if_splits)

lemma ResolveBinary_Inr:
  assumes "ResolveBinary tab (LookPath is_exec pathenv) name = Inr b"
  shows "isAbsoluteBinaryPath tab b \<or> is_abs b \<and> is_exec b"
  using assms LookPath_bare [of is_exec pathenv "trim_space name" b]
  by (auto simp: ResolveBinary_def Let_def list_ex_iff split: if_splits option.splits)

end
