(* ===== verification/Pty_Host.thy ===== *)
theory Pty_Host
  imports Pty_Policy
begin

text \<open>
  The process behind a terminal, \<open>src/pkg/ptyhost/host_unix.go\<close>: the command that is started, the signals of a shutdown,
  the exit status, and the goroutines that drain the terminal, reap the process and kill it after the grace period, as
  a step relation together with the process itself and the reader of its output. The process may write, hang up and exit
  as it likes; the terminal delivers what was written before it reports the hang-up.
\<close>

section \<open>Definitions\<close>

subsection \<open>Starting the process\<close>

record window_size =
  ws_cols :: "32 word"
  ws_rows :: "32 word"
  ws_xpixel :: "32 word"
  ws_ypixel :: "32 word"

record pty_winsize =
  pw_cols :: "16 word"
  pw_rows :: "16 word"
  pw_x :: "16 word"
  pw_y :: "16 word"

record spawn_req =
  sq_binary :: string
  sq_args :: "string list"
  sq_cwd :: string
  sq_env :: "string list"
  sq_size :: window_size
  sq_graceful :: int

definition defaultGracefulTimeout :: int where "defaultGracefulTimeout = 5 * 1000000000"

text \<open>A command: the program, its arguments, the directory it is started in (\<^const>\<open>None\<close>: that of the server) and its
  environment (\<^const>\<open>None\<close>: that of the server).\<close>

record command =
  cm_path :: string
  cm_args :: "string list"
  cm_dir :: "string option"
  cm_env :: "string list option"

definition to_winsize :: "window_size \<Rightarrow> pty_winsize" where
  "to_winsize w = \<lparr>pw_cols = ucast (ws_cols w), pw_rows = ucast (ws_rows w), pw_x = ucast (ws_xpixel w), pw_y = ucast (ws_ypixel w)\<rparr>"

text \<open>\<open>os.Stat\<close> of the directory: \<^const>\<open>None\<close> is an error, otherwise whether it is a directory.\<close>

definition validateCwd :: "(string \<Rightarrow> bool option) \<Rightarrow> string \<Rightarrow> host_error option" where
  "validateCwd stat cwd =
     (case stat cwd of None \<Rightarrow> Some ErrStatCwd | Some isdir \<Rightarrow> if isdir then None else Some ErrCwdNotDir)"

definition cd_script :: string where
  "cd_script = ''cd -- '' @ [CHR 0x22] @ ''$1'' @ [CHR 0x22] @ '' && shift && exec '' @ [CHR 0x22] @ ''$@'' @ [CHR 0x22]"

definition commandForSpawn :: "(string \<Rightarrow> string option) \<Rightarrow> (string \<Rightarrow> bool option) \<Rightarrow> spawn_req \<Rightarrow> host_error + command" where
  "commandForSpawn lookPath stat req =
     (case lookPath (trim_space (sq_binary req)) of
        None \<Rightarrow> Inl ErrLookPathFailed
      | Some binary \<Rightarrow>
          if trim_space (sq_cwd req) = [] then
            Inr \<lparr>cm_path = binary, cm_args = sq_args req, cm_dir = None, cm_env = None\<rparr>
          else
            (case validateCwd stat (sq_cwd req) of
               Some e \<Rightarrow> Inl e
             | None \<Rightarrow>
                 Inr \<lparr>cm_path = ''/bin/sh'', cm_args = [''-c'', cd_script, ''rclaude-pty'', sq_cwd req, binary] @ sq_args req,
                   cm_dir = Some [slash], cm_env = None\<rparr>))"

text \<open>\<open>Spawn\<close> up to the start of the goroutines: the command, the initial window size and the grace period. Whether the
  terminal could be opened and the process started is the parameter \<open>start\<close>.\<close>

definition Spawn ::
  "(string \<Rightarrow> string option) \<Rightarrow> (string \<Rightarrow> bool option) \<Rightarrow> (command \<Rightarrow> bool) \<Rightarrow> spawn_req
    \<Rightarrow> host_error + command \<times> pty_winsize option \<times> int" where
  "Spawn lookPath stat start req =
     (if trim_space (sq_binary req) = [] then Inl ErrBinaryEmpty
      else
        (case commandForSpawn lookPath stat req of
           Inl e \<Rightarrow> Inl e
         | Inr cmd \<Rightarrow>
             let cmd = (if 0 < length (sq_env req) then cmd\<lparr>cm_env := Some (sq_env req)\<rparr> else cmd); w = sq_size req;
                 size = (if 0 < ws_cols w \<or> 0 < ws_rows w \<or> 0 < ws_xpixel w \<or> 0 < ws_ypixel w then Some (to_winsize w) else None);
                 graceful = (if sq_graceful req \<le> 0 then defaultGracefulTimeout else sq_graceful req)
             in if start cmd then Inr (cmd, size, graceful) else Inl ErrStartFailed))"

subsection \<open>The end of the process\<close>

datatype wait_status = WExited nat | WSignaled nat

datatype wait_err = WaitOK | WaitExitError | WaitOther string

record exit_info =
  xi_code :: int
  xi_signal :: nat

definition zero_exit :: exit_info where "zero_exit = \<lparr>xi_code = 0, xi_signal = 0\<rparr>"

text \<open>\<open>state.ExitCode()\<close> of a signalled process is -1.\<close>

definition classifyExit :: "wait_err \<Rightarrow> wait_status option \<Rightarrow> exit_info \<times> string option" where
  "classifyExit err state =
     (let info = (case state of
                    None \<Rightarrow> zero_exit
                  | Some (WSignaled n) \<Rightarrow> \<lparr>xi_code = -1, xi_signal = n\<rparr>
                  | Some (WExited n) \<Rightarrow> \<lparr>xi_code = int n, xi_signal = 0\<rparr>)
      in case err of WaitOther e \<Rightarrow> (info, Some e) | _ \<Rightarrow> (info, None))"

subsection \<open>The goroutines\<close>

datatype sig = SIGHUP | SIGKILL

datatype drain_pc = DrRead | DrWrite bytes | DrClose "string option" | DrDone "string option"
datatype reap_pc = RpWait | RpClassify wait_err "wait_status option" | RpDone
datatype kill_pc = KillNone | KillWaiting | KillOver

record host =
  hs_child :: "wait_status option"
  hs_slave :: bool
  hs_tty :: bytes
  hs_ptmx :: bool
  hs_drain :: drain_pc
  hs_reap :: reap_pc
  waitDone :: bool
  hs_info :: exit_info
  waitErr :: "string option"
  gracefulKill :: kill_pc
  hs_signals :: "sig list"
  hs_sigfail :: bool
  hs_written :: bytes
  hs_read :: bytes

text \<open>The state after \<open>Spawn\<close>.\<close>

definition host_start :: host where
  "host_start = \<lparr>hs_child = None, hs_slave = True, hs_tty = [], hs_ptmx = True, hs_drain = DrRead, hs_reap = RpWait,
     waitDone = False, hs_info = zero_exit, waitErr = None, gracefulKill = KillNone, hs_signals = [], hs_sigfail = False,
     hs_written = [], hs_read = []\<rparr>"

text \<open>\<open>signal\<close>: a process that was waited for is done; \<open>ok\<close> is whether the system call succeeds otherwise. A kill closes
  the terminal.\<close>

definition host_signal :: "sig \<Rightarrow> bool \<Rightarrow> host \<Rightarrow> host \<times> bool" where
  "host_signal sg ok s =
     (if hs_reap s \<noteq> RpWait then (s, True)
      else if \<not> ok then (s\<lparr>hs_sigfail := True\<rparr>, False)
      else (s\<lparr>hs_signals := hs_signals s @ [sg], hs_ptmx := (hs_ptmx s \<and> sg \<noteq> SIGKILL)\<rparr>, True))"

definition host_Shutdown :: "bool \<Rightarrow> bool \<Rightarrow> host \<Rightarrow> host \<times> bool" where
  "host_Shutdown graceful ok s =
     (if \<not> graceful then host_signal SIGKILL ok s
      else
        (case host_signal SIGHUP ok s of
           (s1, False) \<Rightarrow> (s1, False)
         | (s1, True) \<Rightarrow> (s1\<lparr>gracefulKill := (if gracefulKill s1 = KillNone then KillWaiting else gracefulKill s1)\<rparr>, True)))"

text \<open>\<open>Wait\<close> returns when the process has been reaped.\<close>

definition host_Wait :: "host \<Rightarrow> (exit_info \<times> string option) option" where
  "host_Wait s = (if waitDone s then Some (hs_info s, waitErr s) else None)"

inductive hstep :: "host \<Rightarrow> host \<Rightarrow> bool" where
  child_write: "hs_slave s \<Longrightarrow> b \<noteq> [] \<Longrightarrow> hstep s (s\<lparr>hs_tty := hs_tty s @ b, hs_written := hs_written s @ b\<rparr>)"
| hangup: "hstep s (s\<lparr>hs_slave := False\<rparr>)"
| child_exit: "hs_child s = None \<Longrightarrow> hstep s (s\<lparr>hs_child := Some st\<rparr>)"
| drain_read: "hs_drain s = DrRead \<Longrightarrow> hs_ptmx s \<Longrightarrow> hs_tty s = a @ b \<Longrightarrow> a \<noteq> [] \<Longrightarrow> hstep s (s\<lparr>hs_tty := b, hs_drain := DrWrite a\<rparr>)"
| drain_eio: "hs_drain s = DrRead \<Longrightarrow> hs_ptmx s \<Longrightarrow> hs_tty s = [] \<Longrightarrow> \<not> hs_slave s \<Longrightarrow> hstep s (s\<lparr>hs_drain := DrClose None\<rparr>)"
| drain_closed: "hs_drain s = DrRead \<Longrightarrow> \<not> hs_ptmx s \<Longrightarrow> hstep s (s\<lparr>hs_drain := DrClose None\<rparr>)"
| drain_fail: "hs_drain s = DrRead \<Longrightarrow> hs_ptmx s \<Longrightarrow> hstep s (s\<lparr>hs_drain := DrClose (Some e)\<rparr>)"
| pipe_read: "hs_drain s = DrWrite (a @ b) \<Longrightarrow> a \<noteq> [] \<Longrightarrow>
     hstep s (s\<lparr>hs_read := hs_read s @ a, hs_drain := (if b = [] then DrRead else DrWrite b)\<rparr>)"
| drain_close: "hs_drain s = DrClose err \<Longrightarrow> closeErr = None \<or> hs_ptmx s \<Longrightarrow>
     hstep s (s\<lparr>hs_ptmx := False, hs_drain := DrDone (if err = None then closeErr else err)\<rparr>)"
| reap_wait: "hs_reap s = RpWait \<Longrightarrow> hs_child s = Some st \<Longrightarrow>
     hstep s (s\<lparr>hs_reap := RpClassify (if st = WExited 0 then WaitOK else WaitExitError) (Some st)\<rparr>)"
| reap_fail: "hs_reap s = RpWait \<Longrightarrow> hs_child s = Some st \<Longrightarrow> hstep s (s\<lparr>hs_reap := RpClassify (WaitOther e) None\<rparr>)"
| reap_done: "hs_reap s = RpClassify err state \<Longrightarrow> classifyExit err state = (info, we) \<Longrightarrow>
     hstep s (s\<lparr>hs_info := info, waitErr := we, waitDone := True, hs_reap := RpDone\<rparr>)"
| shutdown: "host_Shutdown graceful ok s = (s', res) \<Longrightarrow> hstep s s'"
| kill_over: "gracefulKill s = KillWaiting \<Longrightarrow> waitDone s \<Longrightarrow> hstep s (s\<lparr>gracefulKill := KillOver\<rparr>)"
| kill_timeout: "gracefulKill s = KillWaiting \<Longrightarrow> host_signal SIGKILL ok s = (s', res) \<Longrightarrow> hstep s (s'\<lparr>gracefulKill := KillOver\<rparr>)"

inductive hreach :: "host \<Rightarrow> bool" where
  init: "hreach host_start"
| step: "hreach s \<Longrightarrow> hstep s s' \<Longrightarrow> hreach s'"

section \<open>Invariant\<close>

fun in_pipe :: "drain_pc \<Rightarrow> bytes" where
  "in_pipe (DrWrite b) = b"
| "in_pipe _ = []"

fun drained :: "drain_pc \<Rightarrow> bool" where
  "drained (DrClose None) = True"
| "drained (DrDone None) = True"
| "drained _ = False"

text \<open>Nothing is lost or reordered on the way to the reader while the terminal is read; the end of the output is
  reported when everything was read, or after a kill.\<close>

definition output_inv :: "host \<Rightarrow> bool" where
  "output_inv s = (hs_written s = hs_read s @ in_pipe (hs_drain s) @ hs_tty s
    \<and> (drained (hs_drain s) \<longrightarrow> SIGKILL \<in> set (hs_signals s) \<or> hs_tty s = [] \<and> \<not> hs_slave s)
    \<and> (\<not> hs_ptmx s \<longrightarrow> SIGKILL \<in> set (hs_signals s) \<or> (\<exists>e. hs_drain s = DrDone e))
    \<and> (\<forall>b. hs_drain s = DrWrite b \<longrightarrow> b \<noteq> []))"

definition reap_inv :: "host \<Rightarrow> bool" where
  "reap_inv s = ((waitDone s \<longleftrightarrow> hs_reap s = RpDone)
    \<and> (hs_reap s \<noteq> RpWait \<longrightarrow> hs_child s \<noteq> None)
    \<and> (\<forall>err st. hs_reap s = RpClassify err (Some st) \<longrightarrow> hs_child s = Some st \<and> (\<forall>e. err \<noteq> WaitOther e))
    \<and> (\<forall>err. hs_reap s = RpClassify err None \<longrightarrow> (\<exists>e. err = WaitOther e))
    \<and> (waitDone s \<longrightarrow> waitErr s = None \<longrightarrow> (hs_info s, None) = classifyExit WaitOK (hs_child s)))"

definition kill_inv :: "host \<Rightarrow> bool" where
  "kill_inv s = ((SIGHUP \<in> set (hs_signals s) \<longrightarrow> gracefulKill s \<noteq> KillNone)
    \<and> (gracefulKill s = KillOver \<longrightarrow> hs_reap s \<noteq> RpWait \<or> SIGKILL \<in> set (hs_signals s) \<or> hs_sigfail s))"

lemmas shutdown_defs = host_Shutdown_def host_signal_def

lemma host_Shutdown_fields:
  assumes "host_Shutdown graceful ok s = (s', res)"
  shows "hs_written s' = hs_written s" "hs_read s' = hs_read s" "hs_drain s' = hs_drain s" "hs_tty s' = hs_tty s" "hs_slave s' = hs_slave s"
    "\<not> hs_ptmx s' \<Longrightarrow> \<not> hs_ptmx s \<or> SIGKILL \<in> set (hs_signals s')" "SIGKILL \<in> set (hs_signals s) \<Longrightarrow> SIGKILL \<in> set (hs_signals s')"
  using assms by (auto simp: shutdown_defs split: if_splits bool.splits)

lemma output_step: "hstep s s' \<Longrightarrow> output_inv s \<Longrightarrow> output_inv s'"
proof (induction rule: hstep.induct)
  case (pipe_read s a b)
  then show ?case by (auto simp: output_inv_def)
next
  case (shutdown graceful ok s s' res)
  then show ?case using host_Shutdown_fields [of graceful ok s s' res] unfolding output_inv_def by simp blast
next
  case (kill_timeout s ok s' res)
  moreover from kill_timeout have "host_Shutdown False ok s = (s', res)" by (simp add: host_Shutdown_def)
  ultimately show ?case using host_Shutdown_fields [of False ok s s' res] unfolding output_inv_def by simp blast
qed (auto simp: output_inv_def)

lemma reap_step: "hstep s s' \<Longrightarrow> reap_inv s \<Longrightarrow> reap_inv s'"
proof (induction rule: hstep.induct)
  case (reap_done s err state info we)
  then show ?case by (cases state; cases err) (auto simp: reap_inv_def classifyExit_def Let_def)
next
  case (shutdown graceful ok s s' res)
  then show ?case by (auto simp: reap_inv_def shutdown_defs split: if_splits bool.splits)
next
  case (kill_timeout s ok s' res)
  then show ?case by (auto simp: reap_inv_def shutdown_defs split: if_splits)
qed (auto simp: reap_inv_def)

lemma kill_step: "hstep s s' \<Longrightarrow> kill_inv s \<Longrightarrow> reap_inv s \<Longrightarrow> kill_inv s'"
proof (induction rule: hstep.induct)
  case (shutdown graceful ok s s' res)
  then show ?case by (auto simp: kill_inv_def shutdown_defs split: if_splits bool.splits)
next
  case (kill_timeout s ok s' res)
  then show ?case by (auto simp: kill_inv_def shutdown_defs split: if_splits)
qed (auto simp: kill_inv_def reap_inv_def)

lemma hreach_inv: "hreach s \<Longrightarrow> output_inv s \<and> reap_inv s \<and> kill_inv s"
proof (induction rule: hreach.induct)
  case init
  show ?case by (simp add: output_inv_def reap_inv_def kill_inv_def host_start_def)
qed (use output_step reap_step kill_step in blast)

section \<open>Properties\<close>

text \<open>C30: the output of a terminal process reaches its reader in order and without gaps; when the reader is told that
  the output ended and the process was not killed, it has read everything that was written. The exit status reported by
  \<open>Wait\<close> is that of the process. A graceful shutdown leaves the kill pending until the process has been waited for, or
  sends it.\<close>

theorem host_output_complete:
  assumes "hreach s"
  shows "prefix (hs_read s) (hs_written s)
    \<and> (hs_drain s = DrDone None \<and> SIGKILL \<notin> set (hs_signals s) \<longrightarrow> hs_read s = hs_written s \<and> \<not> hs_slave s)
    \<and> (\<forall>info. host_Wait s = Some (info, None) \<longrightarrow> (\<exists>st. hs_child s = Some st
         \<and> info = (case st of WExited n \<Rightarrow> \<lparr>xi_code = int n, xi_signal = 0\<rparr> | WSignaled n \<Rightarrow> \<lparr>xi_code = -1, xi_signal = n\<rparr>)))
    \<and> (SIGHUP \<in> set (hs_signals s) \<longrightarrow> gracefulKill s = KillWaiting \<or> hs_reap s \<noteq> RpWait \<or> SIGKILL \<in> set (hs_signals s) \<or> hs_sigfail s)"
proof -
  note inv = hreach_inv [OF assms]
  have "\<exists>st. hs_child s = Some st
      \<and> info = (case st of WExited n \<Rightarrow> \<lparr>xi_code = int n, xi_signal = 0\<rparr> | WSignaled n \<Rightarrow> \<lparr>xi_code = -1, xi_signal = n\<rparr>)"
    if "host_Wait s = Some (info, None)" for info
    using inv that by (cases "hs_child s") (auto simp: host_Wait_def reap_inv_def classifyExit_def Let_def split: if_splits wait_status.splits)
  moreover have "SIGHUP \<in> set (hs_signals s) \<Longrightarrow> gracefulKill s = KillWaiting \<or> hs_reap s \<noteq> RpWait \<or> SIGKILL \<in> set (hs_signals s) \<or> hs_sigfail s"
    using inv by (cases "gracefulKill s") (auto simp: kill_inv_def)
  ultimately show ?thesis using inv by (auto simp: output_inv_def)
qed

definition demo_host_end :: host where
  "demo_host_end = host_start\<lparr>hs_child := Some (WExited 3), hs_slave := False, hs_ptmx := False, hs_drain := DrDone None,
     hs_reap := RpDone, waitDone := True, hs_info := \<lparr>xi_code = 3, xi_signal = 0\<rparr>, hs_written := ''hi'', hs_read := ''hi''\<rparr>"

lemma demo_host_reach: "hreach demo_host_end"
proof -
  let ?s1 = "host_start\<lparr>hs_tty := ''hi'', hs_written := ''hi''\<rparr>"
  let ?s2 = "?s1\<lparr>hs_tty := [], hs_drain := DrWrite ''hi''\<rparr>"
  let ?s3 = "?s2\<lparr>hs_read := ''hi'', hs_drain := DrRead\<rparr>"
  let ?s4 = "?s3\<lparr>hs_child := Some (WExited 3)\<rparr>"
  let ?s5 = "?s4\<lparr>hs_slave := False\<rparr>"
  let ?s6 = "?s5\<lparr>hs_drain := DrClose None\<rparr>"
  let ?s7 = "?s6\<lparr>hs_ptmx := False, hs_drain := DrDone None\<rparr>"
  let ?s8 = "?s7\<lparr>hs_reap := RpClassify WaitExitError (Some (WExited 3))\<rparr>"
  note d = host_start_def
  have "hreach ?s1" using hreach.step [OF hreach.init hstep.child_write [of host_start "''hi''"]] by (simp add: d)
  from hreach.step [OF this hstep.drain_read [of ?s1 "''hi''" "[]"]] have "hreach ?s2" by (simp add: d)
  from hreach.step [OF this hstep.pipe_read [of ?s2 "''hi''" "[]"]] have "hreach ?s3" by (simp add: d)
  from hreach.step [OF this hstep.child_exit [of ?s3 "WExited 3"]] have "hreach ?s4" by (simp add: d)
  from hreach.step [OF this hstep.hangup] have "hreach ?s5" by (simp add: d)
  from hreach.step [OF this hstep.drain_eio] have "hreach ?s6" by (simp add: d)
  from hreach.step [OF this hstep.drain_close [of ?s6 None None]] have "hreach ?s7" by (simp add: d)
  from hreach.step [OF this hstep.reap_wait [of ?s7 "WExited 3"]] have "hreach ?s8" by (simp add: d)
  from hreach.step [OF this hstep.reap_done [of ?s8 WaitExitError "Some (WExited 3)" "\<lparr>xi_code = 3, xi_signal = 0\<rparr>" None]]
  show ?thesis by (simp add: d demo_host_end_def classifyExit_def)
qed

theorem host_output_complete_witness:
  "hs_read demo_host_end = ''hi'' \<and> hs_written demo_host_end = ''hi'' \<and> host_Wait demo_host_end = Some (\<lparr>xi_code = 3, xi_signal = 0\<rparr>, None)
   \<and> prefix (hs_read demo_host_end) (hs_written demo_host_end)"
  using host_output_complete [OF demo_host_reach] by (simp add: demo_host_end_def host_start_def host_Wait_def)

end
