(* ===== verification/Pty_Proto.thy ===== *)
theory Pty_Proto
  imports Pty_Host
begin

text \<open>
  The messages of \<open>src/api/proto/remotefs/v1/pty.proto\<close>. A frame is its payload; \<^const>\<open>None\<close> and \<open>SfUnset\<close> are a frame
  with no payload. Byte slices that Go code compares with nil are options. The message of an error is a type parameter:
  a structured error on the server, which sends it, and a text on the client, which prints it.
\<close>

section \<open>Definitions\<close>

record attach_req =
  at_session_id :: string
  at_size :: "window_size option"
  at_term :: string
  at_agent :: string

datatype client_payload =
  CfAttach "attach_req option"
| CfStdin "bytes option"
| CfResize "window_size option"
| CfDetach bool

type_synonym client_frame = "client_payload option"

datatype error_kind =
  KIND_UNSPECIFIED | KIND_UNAUTHENTICATED | KIND_DAEMON_NOT_CONNECTED | KIND_SESSION_BUSY | KIND_SPAWN_FAILED
| KIND_PROTOCOL | KIND_RATE_LIMITED | KIND_INTERNAL | KIND_OTHER int

datatype 'm server_frame =
  SfAttached string
| SfStdout bytes
| SfExited exit_info
| SfError error_kind 'm
| SfUnset

definition GetAttach :: "client_frame \<Rightarrow> attach_req option" where
  "GetAttach f = (case f of Some (CfAttach a) \<Rightarrow> a | _ \<Rightarrow> None)"

definition GetStdin :: "client_frame \<Rightarrow> bytes option" where
  "GetStdin f = (case f of Some (CfStdin b) \<Rightarrow> b | _ \<Rightarrow> None)"

definition GetResize :: "client_frame \<Rightarrow> window_size option" where
  "GetResize f = (case f of Some (CfResize r) \<Rightarrow> r | _ \<Rightarrow> None)"

definition GetDetach :: "client_frame \<Rightarrow> bool" where
  "GetDetach f = (case f of Some (CfDetach d) \<Rightarrow> d | _ \<Rightarrow> False)"

definition zero_size :: window_size where
  "zero_size = \<lparr>ws_cols = 0, ws_rows = 0, ws_xpixel = 0, ws_ypixel = 0\<rparr>"

definition fromProtoSize :: "window_size option \<Rightarrow> window_size" where
  "fromProtoSize sz = (case sz of None \<Rightarrow> zero_size | Some w \<Rightarrow> w)"

end
