(* ===== verification/Pty_Service.thy ===== *)
theory Pty_Service
  imports Pty_Proto Config Auth
begin

text \<open>
  The attach handshake of the terminal service, \<open>src/pkg/ptyservice/service.go\<close>, over the registry adapter of
  \<open>src/app/server/pty_runtime.go\<close>: the first frame, the reservation of the terminal slot, the rate limit, the plan of the
  process and its start. Receiving and sending on the stream, the limiter and the spawner are parameters; an error of
  theirs is its text. At most one frame is sent in the handshake, so one outcome of \<open>Send\<close> is enough.
\<close>

section \<open>Definitions\<close>

datatype pty_err =
  ErrNilRegistry | ErrNilSpawner | ErrAgentRequired | ErrNilHost | ErrFrameTooLarge | ErrFirstFrameAttach
| ErrDaemonNotConnected | ErrSessionBusy
| PolicyErr host_error | AgentErr string host_error | RegistryErr mgr_error | OtherErr string

text \<open>The message of an error frame: the text of an error, or the name of the kind when that is empty.\<close>

datatype pty_msg = MsgErr pty_err | MsgKind error_kind

datatype svc_error = StatusUnauthenticated | RecvErr string | SendErr string | errApplicationSent

type_synonym sframe = "pty_msg server_frame"

record svc_config =
  pc_attach_limit :: bool
  pc_input_limit :: bool
  pc_workspace :: string
  pc_env :: "string list"
  pc_frame_max :: int
  pc_graceful :: int

definition svc_New :: "bool \<Rightarrow> bool \<Rightarrow> svc_config \<Rightarrow> pty_err + svc_config" where
  "svc_New registry spawner cfg =
     (if \<not> registry then Inl ErrNilRegistry
      else if \<not> spawner then Inl ErrNilSpawner
      else
        (let c1 = (if pc_workspace cfg = [] then cfg\<lparr>pc_workspace := DefaultPTYWorkspaceRoot\<rparr> else cfg);
             c2 = (if pc_env c1 = [] then c1\<lparr>pc_env := DefaultPTYEnvPassthrough\<rparr> else c1);
             c3 = (if pc_frame_max c2 \<le> 0 then c2\<lparr>pc_frame_max := DefaultPTYFrameMaxBytes\<rparr> else c2)
         in Inr (if pc_graceful c3 \<le> 0 then c3\<lparr>pc_graceful := DefaultPTYGracefulShutdown\<rparr> else c3)))"

text \<open>\<open>newPTYService\<close> of the server: everything is fixed but the mount point.\<close>

definition newPTYService :: "server_config \<Rightarrow> pty_err + svc_config" where
  "newPTYService cfg =
     svc_New True True \<lparr>pc_attach_limit = True, pc_input_limit = True, pc_workspace = sc_mountpoint cfg,
       pc_env = DefaultPTYEnvPassthrough, pc_frame_max = DefaultPTYFrameMaxBytes, pc_graceful = DefaultPTYGracefulShutdown\<rparr>"

subsection \<open>The registry adapter\<close>

definition reg_LookupDaemon :: "int \<Rightarrow> sheap \<Rightarrow> string \<Rightarrow> manager \<Rightarrow> manager \<times> string option" where
  "reg_LookupDaemon now h uid m =
     (case LookupDaemon now h uid m of
        (m1, None) \<Rightarrow> (m1, None)
      | (m1, Some p) \<Rightarrow> (m1, map_option workspaceName (h p)))"

text \<open>\<^const>\<open>None\<close> is a busy slot.\<close>

definition reg_RegisterPTY :: "string \<Rightarrow> manager \<Rightarrow> manager \<times> (mgr_error + string option)" where
  "reg_RegisterPTY uid m =
     (case RegisterPTY uid m of
        (m1, Inr sid) \<Rightarrow> (m1, Inr (Some sid))
      | (m1, Inl e) \<Rightarrow> if e = ErrPTYBusy then (m1, Inr None) else (m1, Inl e))"

definition reg_UnregisterPTY :: "string \<Rightarrow> string \<Rightarrow> manager \<Rightarrow> manager" where
  "reg_UnregisterPTY uid sid m = fst (UnregisterPTY uid sid m)"

subsection \<open>Error frames\<close>

text \<open>Sending an error frame: the frames that went out, and whether sending failed.\<close>

definition sendApplicationError :: "string option \<Rightarrow> error_kind \<Rightarrow> pty_err \<Rightarrow> sframe list \<times> string option" where
  "sendApplicationError sendErr kind e =
     (let message = (if e = OtherErr [] then MsgKind kind else MsgErr e) in
      case sendErr of Some x \<Rightarrow> ([], Some x) | None \<Rightarrow> ([SfError kind message], None))"

definition applicationError :: "string option \<Rightarrow> error_kind \<Rightarrow> pty_err \<Rightarrow> sframe list \<times> svc_error" where
  "applicationError sendErr kind e =
     (case sendApplicationError sendErr kind e of
        (fs, Some x) \<Rightarrow> (fs, SendErr x)
      | (fs, None) \<Rightarrow> (fs, errApplicationSent))"

definition normalizeApplicationStop :: "svc_error \<Rightarrow> svc_error option" where
  "normalizeApplicationStop e = (if e = errApplicationSent then None else Some e)"

subsection \<open>The steps of the handshake\<close>

definition receiveAttachRequest ::
  "auth_ctx option \<Rightarrow> string + client_frame \<Rightarrow> string option \<Rightarrow> sframe list \<times> (svc_error + string \<times> attach_req)" where
  "receiveAttachRequest ctx first sendErr =
     (case UserIDFromContext ctx of
        None \<Rightarrow> ([], Inl StatusUnauthenticated)
      | Some uid \<Rightarrow>
          (case first of
             Inl e \<Rightarrow> ([], Inl (RecvErr e))
           | Inr frame \<Rightarrow>
               (case GetAttach frame of
                  None \<Rightarrow> map_prod id Inl (applicationError sendErr KIND_PROTOCOL ErrFirstFrameAttach)
                | Some attach \<Rightarrow> ([], Inr (uid, attach)))))"

definition reserveSession ::
  "int \<Rightarrow> sheap \<Rightarrow> string \<Rightarrow> string option \<Rightarrow> manager \<Rightarrow> manager \<times> sframe list \<times> (svc_error + string \<times> string)" where
  "reserveSession now h uid sendErr m =
     (case reg_LookupDaemon now h uid m of
        (m1, None) \<Rightarrow> (m1, map_prod id Inl (applicationError sendErr KIND_DAEMON_NOT_CONNECTED ErrDaemonNotConnected))
      | (m1, Some workspace) \<Rightarrow>
          (case reg_RegisterPTY uid m1 of
             (m2, Inl e) \<Rightarrow> (m2, map_prod id Inl (applicationError sendErr KIND_INTERNAL (RegistryErr e)))
           | (m2, Inr None) \<Rightarrow> (m2, map_prod id Inl (applicationError sendErr KIND_SESSION_BUSY ErrSessionBusy))
           | (m2, Inr (Some sid)) \<Rightarrow> (m2, [], Inr (sid, workspace))))"

definition enforceAttachLimit :: "svc_config \<Rightarrow> string option \<Rightarrow> string option \<Rightarrow> sframe list \<times> svc_error option" where
  "enforceAttachLimit cfg limitErr sendErr =
     (if \<not> pc_attach_limit cfg then ([], None)
      else
        (case limitErr of
           None \<Rightarrow> ([], None)
         | Some e \<Rightarrow> map_prod id Some (applicationError sendErr KIND_RATE_LIMITED (OtherErr e))))"

record spawn_plan =
  pl_binary :: string
  pl_cwd :: string
  pl_env :: "string list"

definition resolveAgent :: "unicode_tables \<Rightarrow> (string \<Rightarrow> string option) \<Rightarrow> string \<Rightarrow> pty_err + string" where
  "resolveAgent tab lookPath agent =
     (if trim_space agent = [] then Inl ErrAgentRequired
      else (case ResolveBinary tab lookPath agent of Inl e \<Rightarrow> Inl (AgentErr agent e) | Inr binary \<Rightarrow> Inr binary))"

text \<open>\<open>strings.Cut(pair, "=")\<close> of every entry; a later entry of a key replaces an earlier one.\<close>

definition cut_pair :: "string \<Rightarrow> (string \<times> string) option" where
  "cut_pair pair =
     (let key = takeWhile (\<lambda>c. c \<noteq> CHR ''='') pair in
      if CHR ''='' \<notin> set pair \<or> key = [] then None else Some (key, drop (length key + 1) pair))"

definition envMap :: "string list \<Rightarrow> (string \<times> string) list" where
  "envMap pairs = foldl (\<lambda>out pair. case cut_pair pair of None \<Rightarrow> out | Some (key, v) \<Rightarrow> AList.update key v out) [] pairs"

text \<open>What the operating system contributes: the lookup of programs and the environment of the server.\<close>

record server_os =
  so_look :: "string \<Rightarrow> string option"
  so_environ :: "string list"
  so_unicode :: unicode_tables

definition prepareSpawn :: "svc_config \<Rightarrow> server_os \<Rightarrow> string \<Rightarrow> string \<Rightarrow> attach_req \<Rightarrow> pty_err + spawn_plan" where
  "prepareSpawn cfg os uid workspace attach =
     (case resolveAgent (so_unicode os) (so_look os) (at_agent attach) of
        Inl e \<Rightarrow> Inl e
      | Inr binary \<Rightarrow>
          (case ResolveCwd (pc_workspace cfg) uid workspace of
             Inl e \<Rightarrow> Inl (PolicyErr e)
           | Inr cwd \<Rightarrow>
               Inr \<lparr>pl_binary = binary, pl_cwd = cwd,
                 pl_env = BuildEnv (so_unicode os) (envMap (so_environ os)) (pc_env cfg) (at_term attach)\<rparr>))"

definition spawn_request :: "svc_config \<Rightarrow> spawn_plan \<Rightarrow> attach_req \<Rightarrow> spawn_req" where
  "spawn_request cfg plan attach =
     \<lparr>sq_binary = pl_binary plan, sq_args = [], sq_cwd = pl_cwd plan, sq_env = pl_env plan,
      sq_size = fromProtoSize (at_size attach), sq_graceful = pc_graceful cfg\<rparr>"

text \<open>The spawner returns the text of an error, or a host that may be nil.\<close>

definition startHost ::
  "svc_config \<Rightarrow> server_os \<Rightarrow> (spawn_req \<Rightarrow> string + 'h option) \<Rightarrow> string \<Rightarrow> string \<Rightarrow> attach_req \<Rightarrow> string option
    \<Rightarrow> sframe list \<times> (svc_error + 'h \<times> string)" where
  "startHost cfg os spawn uid workspace attach sendErr =
     (let fail = (\<lambda>e. map_prod id Inl (applicationError sendErr KIND_SPAWN_FAILED e)) in
      case prepareSpawn cfg os uid workspace attach of
        Inl e \<Rightarrow> fail e
      | Inr plan \<Rightarrow>
          (case spawn (spawn_request cfg plan attach) of
             Inl e \<Rightarrow> fail (OtherErr e)
           | Inr None \<Rightarrow> fail ErrNilHost
           | Inr (Some host) \<Rightarrow> ([], Inr (host, pl_cwd plan))))"

definition sendAttachedFrame :: "string option \<Rightarrow> string \<Rightarrow> sframe list \<times> svc_error option" where
  "sendAttachedFrame sendErr sid =
     (case sendErr of Some e \<Rightarrow> ([], Some (SendErr e)) | None \<Rightarrow> ([SfAttached sid], None))"

subsection \<open>The handshake\<close>

text \<open>What the stream, the limiter and the clock do in one handshake.\<close>

record 'h attach_env =
  ae_ctx :: "auth_ctx option"
  ae_first :: "string + client_frame"
  ae_send :: "string option"
  ae_limit :: "string option"
  ae_now :: int
  ae_heap :: sheap
  ae_spawn :: "spawn_req \<Rightarrow> string + 'h option"

text \<open>How the handshake ends: the call returns, with a host to clean up when the \<open>Attached\<close> frame could not be sent, or
  the session runs.\<close>

datatype 'h attach_result = Returned "svc_error option" "'h option" | Attached_run string string 'h

definition attach ::
  "svc_config \<Rightarrow> server_os \<Rightarrow> 'h attach_env \<Rightarrow> manager \<Rightarrow> manager \<times> sframe list \<times> 'h attach_result" where
  "attach cfg os env m =
     (case receiveAttachRequest (ae_ctx env) (ae_first env) (ae_send env) of
        (fs, Inl e) \<Rightarrow> (m, fs, Returned (normalizeApplicationStop e) None)
      | (_, Inr (uid, req)) \<Rightarrow>
          (case reserveSession (ae_now env) (ae_heap env) uid (ae_send env) m of
             (m1, fs, Inl e) \<Rightarrow> (m1, fs, Returned (normalizeApplicationStop e) None)
           | (m1, _, Inr (sid, workspace)) \<Rightarrow>
               let unregister = reg_UnregisterPTY uid sid m1 in
               (case enforceAttachLimit cfg (ae_limit env) (ae_send env) of
                  (fs, Some e) \<Rightarrow> (unregister, fs, Returned (normalizeApplicationStop e) None)
                | (_, None) \<Rightarrow>
                    (case startHost cfg os (ae_spawn env) uid workspace req (ae_send env) of
                       (fs, Inl e) \<Rightarrow> (unregister, fs, Returned (normalizeApplicationStop e) None)
                     | (_, Inr (host, cwd)) \<Rightarrow>
                         (case sendAttachedFrame (ae_send env) sid of
                            (fs, Some e) \<Rightarrow> (unregister, fs, Returned (Some e) (Some host))
                          | (fs, None) \<Rightarrow> (m1, fs, Attached_run uid sid host))))))"

section \<open>The registry\<close>

text \<open>What the service relies on: registering takes a free slot, only its identifier releases it, and nothing else
  touches the slots.\<close>

locale pty_registry =
  fixes slots :: "'m \<Rightarrow> string \<Rightarrow> string option"
    and lookup :: "string \<Rightarrow> 'm \<Rightarrow> 'm \<times> string option"
    and register :: "string \<Rightarrow> 'm \<Rightarrow> 'm \<times> ('e + string option)"
    and unregister :: "string \<Rightarrow> string \<Rightarrow> 'm \<Rightarrow> 'm"
  assumes lookup_slots: "slots (fst (lookup u m)) = slots m"
    and register_ok: "register u m = (m', Inr (Some sid)) \<Longrightarrow> u \<noteq> [] \<and> sid \<noteq> [] \<and> slots m u = None \<and> slots m' = (slots m)(u \<mapsto> sid)"
    and register_busy: "register u m = (m', Inr None) \<Longrightarrow> slots m u \<noteq> None \<and> slots m' = slots m"
    and register_err: "register u m = (m', Inl e) \<Longrightarrow> slots m' = slots m"
    and unregister_own: "slots m u = Some sid \<Longrightarrow> u \<noteq> [] \<Longrightarrow> sid \<noteq> [] \<Longrightarrow> slots (unregister u sid m) = (slots m)(u := None)"
    and unregister_other: "slots m u \<noteq> Some sid \<Longrightarrow> slots (unregister u sid m) = slots m"
begin

text \<open>The slots that streams hold: a stream is at most one user's, and a user has at most one stream.\<close>

definition held_by :: "'m \<Rightarrow> ('i \<Rightarrow> (string \<times> string) option) \<Rightarrow> bool" where
  "held_by m holder =
     ((\<forall>i u sid. holder i = Some (u, sid) \<longrightarrow> slots m u = Some sid \<and> u \<noteq> [] \<and> sid \<noteq> [])
      \<and> (\<forall>u sid. slots m u = Some sid \<longrightarrow> (\<exists>i. holder i = Some (u, sid)))
      \<and> (\<forall>i j u a b. holder i = Some (u, a) \<and> holder j = Some (u, b) \<longrightarrow> i = j))"

lemma heldD:
  assumes "held_by m holder"
  shows "holder i = Some (u, sid) \<Longrightarrow> slots m u = Some sid \<and> u \<noteq> [] \<and> sid \<noteq> []"
    "slots m u = Some sid \<Longrightarrow> \<exists>i. holder i = Some (u, sid)"
    "holder i = Some (u, a) \<Longrightarrow> holder j = Some (u, b) \<Longrightarrow> i = j"
  using assms unfolding held_by_def by blast+

lemma slot_heldI:
  assumes "\<And>i u sid. holder i = Some (u, sid) \<Longrightarrow> slots m u = Some sid \<and> u \<noteq> [] \<and> sid \<noteq> []"
    "\<And>u sid. slots m u = Some sid \<Longrightarrow> \<exists>i. holder i = Some (u, sid)"
    "\<And>i j u a b. holder i = Some (u, a) \<Longrightarrow> holder j = Some (u, b) \<Longrightarrow> i = j"
  shows "held_by m holder"
  using assms unfolding held_by_def by blast

lemma slot_held_same: "held_by m holder \<Longrightarrow> slots m' = slots m \<Longrightarrow> held_by m' holder"
  by (simp add: held_by_def)

lemma held_register:
  assumes "held_by m holder" "holder i = None" "register u m = (m', Inr (Some sid))"
  shows "held_by m' (holder(i \<mapsto> (u, sid)))"
proof (rule slot_heldI)
  note r = register_ok [OF assms(3)] and D = heldD [OF assms(1)]
  have free: "holder j \<noteq> Some (u, a)" for j a using D(1) [of j u a] r by auto
  show "slots m' v = Some a \<and> v \<noteq> [] \<and> a \<noteq> []" if "(holder(i \<mapsto> (u, sid))) j = Some (v, a)" for j v a
    using that r D(1) [of j v a] free [of j a] by (cases "j = i") auto
  show "\<exists>j. (holder(i \<mapsto> (u, sid))) j = Some (v, a)" if sv: "slots m' v = Some a" for v a
  proof (cases "v = u")
    case True
    then show ?thesis using sv r by (intro exI [of _ i]) simp
  next
    case False
    then obtain j where "holder j = Some (v, a)" using sv r D(2) [of v a] by auto
    then show ?thesis using assms(2) by (intro exI [of _ j]) auto
  qed
  show "j = k" if "(holder(i \<mapsto> (u, sid))) j = Some (v, a)" "(holder(i \<mapsto> (u, sid))) k = Some (v, b)" for j k v a b
    using that D(3) [of j v a k b] free [of j a] free [of k b] by (cases "j = i"; cases "k = i") auto
qed

lemma held_unregister:
  assumes "held_by m holder" "holder i = Some (u, sid)"
  shows "held_by (unregister u sid m) (holder(i := None))"
proof (rule slot_heldI)
  note D = heldD [OF assms(1)]
  have s: "slots (unregister u sid m) = (slots m)(u := None)" using D(1) [OF assms(2)] unregister_own by blast
  have own: "j = i" if "holder j = Some (u, a)" for j a using D(3) [OF that assms(2)] .
  show "slots (unregister u sid m) v = Some a \<and> v \<noteq> [] \<and> a \<noteq> []" if "(holder(i := None)) j = Some (v, a)" for j v a
    using that s D(1) [of j v a] own [of j a] by (cases "j = i") auto
  show "\<exists>j. (holder(i := None)) j = Some (v, a)" if sv: "slots (unregister u sid m) v = Some a" for v a
  proof -
    have v: "v \<noteq> u" using sv s by (auto split: if_splits)
    then obtain j where "holder j = Some (v, a)" using sv s D(2) [of v a] by auto
    then show ?thesis using assms(2) v by (intro exI [of _ j]) auto
  qed
  show "j = k" if "(holder(i := None)) j = Some (v, a)" "(holder(i := None)) k = Some (v, b)" for j k v a b
    using that D(3) [of j v a k b] by (auto split: if_splits)
qed

text \<open>Taking a slot and giving it back leaves the slots as they were.\<close>

lemma reserve_release:
  assumes "register u m = (m', Inr (Some sid))"
  shows "slots (unregister u sid m') = slots m"
  using register_ok [OF assms] unregister_own [of m' u sid] by auto

end

definition pty_slots :: "manager \<Rightarrow> string \<Rightarrow> string option" where
  "pty_slots m = map_of (activePTY m)"

lemma prune_slots [simp]: "activePTY (pruneExpiredLocked now h m) = activePTY m"
  by (simp add: pruneExpiredLocked_def)

lemma RegisterPTY_cases:
  assumes "RegisterPTY u m = (m', r)"
  shows "(\<exists>sid. r = Inr sid \<and> u \<noteq> [] \<and> sid \<noteq> [] \<and> map_of (activePTY m) u = None \<and> map_of (activePTY m') = (map_of (activePTY m))(u \<mapsto> sid))
    \<or> (\<exists>e. r = Inl e \<and> m' = m \<and> (e = ErrPTYBusy \<longrightarrow> map_of (activePTY m) u \<noteq> None))"
  using assms by (auto simp: RegisterPTY_def nextPTYSessionIDLocked_def Let_def split: if_splits)

interpretation reg: pty_registry pty_slots "reg_LookupDaemon now h" reg_RegisterPTY reg_UnregisterPTY
proof unfold_locales
  show "pty_slots (fst (reg_LookupDaemon now h u m)) = pty_slots m" for u m
    by (auto simp: pty_slots_def reg_LookupDaemon_def LookupDaemon_def Let_def split: option.splits prod.splits if_splits)
  show "u \<noteq> [] \<and> sid \<noteq> [] \<and> pty_slots m u = None \<and> pty_slots m' = (pty_slots m)(u \<mapsto> sid)"
    if "reg_RegisterPTY u m = (m', Inr (Some sid))" for u m m' sid
    using that RegisterPTY_cases [of u m] by (fastforce simp: reg_RegisterPTY_def pty_slots_def split: prod.splits sum.splits if_splits)
  show "pty_slots m u \<noteq> None \<and> pty_slots m' = pty_slots m" if "reg_RegisterPTY u m = (m', Inr None)" for u m m'
    using that RegisterPTY_cases [of u m] by (fastforce simp: reg_RegisterPTY_def pty_slots_def split: prod.splits sum.splits if_splits)
  show "pty_slots m' = pty_slots m" if "reg_RegisterPTY u m = (m', Inl e)" for u m m' e
    using that RegisterPTY_cases [of u m] by (fastforce simp: reg_RegisterPTY_def pty_slots_def split: prod.splits sum.splits if_splits)
  show "pty_slots (reg_UnregisterPTY u sid m) = (pty_slots m)(u := None)" if "pty_slots m u = Some sid" "u \<noteq> []" "sid \<noteq> []" for m u sid
    using that by (simp add: pty_slots_def reg_UnregisterPTY_def UnregisterPTY_def)
  show "pty_slots (reg_UnregisterPTY u sid m) = pty_slots m" if "pty_slots m u \<noteq> Some sid" for m u sid
    using that by (auto simp: pty_slots_def reg_UnregisterPTY_def UnregisterPTY_def split: option.splits)
qed

section \<open>The handshake\<close>

lemma reserveSession_Inr:
  assumes "reserveSession now h uid sendErr m = (m', fs, Inr (sid, ws))"
  shows "fs = []" "\<exists>m1. reg_LookupDaemon now h uid m = (m1, Some ws) \<and> reg_RegisterPTY uid m1 = (m', Inr (Some sid))"
  using assms by (auto simp: reserveSession_def map_prod_def split: prod.splits option.splits sum.splits)

lemma reserveSession_slots:
  assumes "reserveSession now h uid sendErr m = (m', fs, r)"
  shows "case r of Inl e \<Rightarrow> pty_slots m' = pty_slots m
    | Inr (sid, ws) \<Rightarrow> pty_slots m uid = None \<and> pty_slots m' = (pty_slots m)(uid \<mapsto> sid) \<and> pty_slots (reg_UnregisterPTY uid sid m') = pty_slots m"
proof -
  obtain m1 w where l: "reg_LookupDaemon now h uid m = (m1, w)" by fastforce
  have s: "pty_slots m1 = pty_slots m" using reg.lookup_slots [of now h uid m] l by simp
  show ?thesis
    using assms l s reg.register_ok [of uid m1] reg.register_busy [of uid m1] reg.register_err [of uid m1] reg.reserve_release [of uid m1]
    by (fastforce simp: reserveSession_def map_prod_def split: option.splits prod.splits sum.splits)
qed

lemma LookupDaemon_Some:
  assumes "reg_LookupDaemon now h uid m = (m', Some ws)" "distinct (map fst (sessions m))"
  shows "\<exists>p s. map_of (sessions m) uid = Some p \<and> h p = Some s \<and> \<not> closed s \<and> ws = workspaceName s"
  using assms map_of_prune [OF assms(2), of now h]
  by (auto simp: reg_LookupDaemon_def LookupDaemon_def sessionClosed_def Let_def split: option.splits prod.splits if_splits)

lemma cut_pair_Some: "cut_pair p = Some (k, v) \<Longrightarrow> CHR ''='' \<notin> set k \<and> p = k @ ''='' @ v"
proof -
  assume a: "cut_pair p = Some (k, v)"
  then have k: "k = takeWhile (\<lambda>c. c \<noteq> CHR ''='') p" "CHR ''='' \<in> set p" and v: "v = drop (length k + 1) p"
    by (auto simp: cut_pair_def Let_def split: if_splits)
  obtain q where q: "dropWhile (\<lambda>c. c \<noteq> CHR ''='') p = CHR ''='' # q"
    using k(2) by (cases "dropWhile (\<lambda>c. c \<noteq> CHR ''='') p") (auto simp: dropWhile_eq_Nil_conv dropWhile_eq_Cons_conv)
  have p: "p = k @ CHR ''='' # q" using takeWhile_dropWhile_id [of "\<lambda>c. c \<noteq> CHR ''=''" p] q k(1) by simp
  then have "v = q" using v by simp
  moreover have "CHR ''='' \<notin> set k" unfolding k(1) by (blast dest: set_takeWhileD)
  ultimately show ?thesis using p by simp
qed

lemma set_alist_update: "set (AList.update k v xs) \<subseteq> insert (k, v) (set xs)"
  by (induction xs) auto

lemma envMap_entries: "(k, v) \<in> set (envMap pairs) \<Longrightarrow> CHR ''='' \<notin> set k \<and> k @ ''='' @ v \<in> set pairs"
proof (induction pairs rule: rev_induct)
  case (snoc p ps)
  have e: "envMap (ps @ [p]) = (case cut_pair p of None \<Rightarrow> envMap ps | Some (key, v) \<Rightarrow> AList.update key v (envMap ps))"
    unfolding envMap_def by simp
  show ?case
  proof (cases "(k, v) \<in> set (envMap ps)")
    case False
    then have "cut_pair p = Some (k, v)"
      using snoc.prems set_alist_update [of _ _ "envMap ps"] unfolding e by (fastforce split: option.splits)
    then show ?thesis using cut_pair_Some [of p k v] by simp
  qed (use snoc.IH in simp)
qed (simp add: envMap_def)

lemma attach_running:
  assumes "attach cfg os env m = (m', fs, Attached_run uid sid host)"
  obtains req frame ws plan where "UserIDFromContext (ae_ctx env) = Some uid" "ae_first env = Inr frame" "GetAttach frame = Some req"
    "reserveSession (ae_now env) (ae_heap env) uid (ae_send env) m = (m', [], Inr (sid, ws))"
    "prepareSpawn cfg os uid ws req = Inr plan" "ae_spawn env (spawn_request cfg plan req) = Inr (Some host)" "fs = [SfAttached sid]"
proof -
  obtain r1 where r1: "receiveAttachRequest (ae_ctx env) (ae_first env) (ae_send env) = r1" by blast
  then obtain fs1 uid1 req where r2: "r1 = (fs1, Inr (uid1, req))"
    using assms by (cases r1) (auto simp: attach_def split: sum.splits)
  obtain m1 fs2 x where s1: "reserveSession (ae_now env) (ae_heap env) uid1 (ae_send env) m = (m1, fs2, x)" by (metis prod_cases3)
  then obtain sid1 ws where s2: "x = Inr (sid1, ws)"
    using assms r1 r2 by (cases x) (auto simp: attach_def Let_def)
  have fs2: "fs2 = []" using reserveSession_Inr(1) s1 s2 by blast
  obtain host1 cwd fs3 where h: "startHost cfg os (ae_spawn env) uid1 ws req (ae_send env) = (fs3, Inr (host1, cwd))"
    and e: "uid1 = uid" "sid1 = sid" "host1 = host" "m1 = m'" "fs = [SfAttached sid]"
    using assms r1 r2 s1 s2
    by (auto simp: attach_def Let_def sendAttachedFrame_def split: prod.splits option.splits sum.splits)
  obtain plan where p: "prepareSpawn cfg os uid1 ws req = Inr plan" "ae_spawn env (spawn_request cfg plan req) = Inr (Some host1)"
    using h by (auto simp: startHost_def Let_def map_prod_def split: sum.splits prod.splits option.splits)
  obtain frame where f: "UserIDFromContext (ae_ctx env) = Some uid1" "ae_first env = Inr frame" "GetAttach frame = Some req"
    using r1 r2 by (auto simp: receiveAttachRequest_def map_prod_def split: option.splits sum.splits prod.splits)
  show ?thesis using that f s1 s2 fs2 p e by blast
qed

lemma application_frames:
  "applicationError sendErr kind e = (fs, x) \<Longrightarrow>
     (x = errApplicationSent \<and> (\<exists>msg. fs = [SfError kind msg])) \<or> (\<exists>y. x = SendErr y \<and> fs = [])"
  by (auto simp: applicationError_def sendApplicationError_def Let_def split: option.splits)

text \<open>An answer of the handshake that is not a session: an error frame and success, or no frame and an error.\<close>

definition refused :: "sframe list \<Rightarrow> svc_error option \<Rightarrow> bool" where
  "refused fs err = ((\<exists>kind msg. fs = [SfError kind msg] \<and> err = None) \<or> (\<exists>e. fs = [] \<and> err = Some e))"

lemma refused_application:
  "applicationError sendErr kind e = (fs, x) \<Longrightarrow> refused fs (normalizeApplicationStop x)"
  using application_frames [of sendErr kind e fs x] by (auto simp: refused_def normalizeApplicationStop_def)

lemma refused_silent [simp]: "refused [] (Some e)"
  by (simp add: refused_def)

lemmas refused_cases = receiveAttachRequest_def reserveSession_def enforceAttachLimit_def startHost_def

lemma refused_steps:
  "receiveAttachRequest ctx first sendErr = (fs, Inl e) \<Longrightarrow> refused fs (normalizeApplicationStop e)"
  "reserveSession now h uid sendErr m = (m', fs, Inl e) \<Longrightarrow> refused fs (normalizeApplicationStop e)"
  "enforceAttachLimit cfg waitE sendErr = (fs, Some e) \<Longrightarrow> refused fs (normalizeApplicationStop e)"
  "startHost cfg os spawn uid ws req sendErr = (fs, Inl e) \<Longrightarrow> refused fs (normalizeApplicationStop e)"
  by (auto simp: refused_cases map_prod_def Let_def refused_application split: option.splits sum.splits prod.splits if_splits)
     (auto simp: refused_def normalizeApplicationStop_def)

lemma attach_returned:
  assumes "attach cfg os env m = (m', fs, Returned err host)"
  shows "pty_slots m' = pty_slots m" "refused fs err"
proof -
  obtain fs1 r1 where r1: "receiveAttachRequest (ae_ctx env) (ae_first env) (ae_send env) = (fs1, r1)" by fastforce
  show "pty_slots m' = pty_slots m" "refused fs err"
  proof (atomize (full), cases r1)
    case (Inl e)
    then show "pty_slots m' = pty_slots m \<and> refused fs err" using assms r1 refused_steps(1) by (auto simp: attach_def)
  next
    case (Inr a)
    then obtain uid req where a: "r1 = Inr (uid, req)" by (cases a) auto
    obtain m1 fs2 x where s1: "reserveSession (ae_now env) (ae_heap env) uid (ae_send env) m = (m1, fs2, x)" by (metis prod_cases3)
    note sl = reserveSession_slots [OF s1]
    show "pty_slots m' = pty_slots m \<and> refused fs err"
    proof (cases x)
      case (Inl e)
      then show ?thesis using assms r1 a s1 sl refused_steps(2) by (auto simp: attach_def)
    next
      case (Inr b)
      then obtain sid ws where b: "x = Inr (sid, ws)" by (cases b) auto
      then have u: "pty_slots (reg_UnregisterPTY uid sid m1) = pty_slots m" using sl by simp
      have "m' = reg_UnregisterPTY uid sid m1 \<and> refused fs err"
        using assms r1 a s1 b refused_steps(3,4)
        by (auto simp: attach_def Let_def sendAttachedFrame_def split: option.splits sum.splits prod.splits)
      then show ?thesis using u by simp
    qed
  qed
qed

section \<open>Properties\<close>




definition demo_pty_heap :: sheap where
  "demo_pty_heap = (\<lambda>p. if p = 1 then Some ((NewSession ''u'' 0)\<lparr>workspaceName := ''w''\<rparr>) else None)"

definition demo_pty_env :: "string \<Rightarrow> nat attach_env" where
  "demo_pty_env agent = \<lparr>ae_ctx = Some \<lparr>cx_incoming = None, cx_user = Some ''u''\<rparr>,
     ae_first = Inr (Some (CfAttach (Some \<lparr>at_session_id = [], at_size = None, at_term = ''xterm'', at_agent = agent\<rparr>))),
     ae_send = None, ae_limit = None, ae_now = 5, ae_heap = demo_pty_heap, ae_spawn = (\<lambda>_. Inr (Some 7))\<rparr>"

definition demo_os :: server_os where
  "demo_os = \<lparr>so_look = (\<lambda>n. if n = ''c'' then Some ''/b/c'' else None), so_environ = [''A=h'', ''S=x''],
     so_unicode = \<lparr>wide_letter = (\<lambda>_. False), wide_digit = (\<lambda>_. False)\<rparr>\<rparr>"

definition demo_svc :: svc_config where
  "demo_svc = \<lparr>pc_attach_limit = True, pc_input_limit = True, pc_workspace = ''/w'', pc_env = [''A''],
     pc_frame_max = DefaultPTYFrameMaxBytes, pc_graceful = DefaultPTYGracefulShutdown\<rparr>"

lemma demo_pty_mgr_ok: "mgr_ok demo_mgr (ae_heap (demo_pty_env a))"
  by (auto simp: mgr_ok_def demo_mgr_def demo_pty_env_def demo_pty_heap_def NewManager_def user_at_def NewSession_def split: if_splits)

lemma demo_attach: "snd (attach demo_svc demo_os (demo_pty_env ''c'') demo_mgr) = ([SfAttached ''u-pty-1''], Attached_run ''u'' ''u-pty-1'' 7)"
  by code_simp



end
