(* ===== verification/Pty_Slots.thy ===== *)
theory Pty_Slots
  imports Pty_Service
begin

text \<open>
  Many attach streams at once on one registry: each call of \<open>Service.attach\<close> looks up the daemon, takes the slot of its
  user and gives it back when the call ends, by whatever path (\<open>src/pkg/ptyservice/service.go\<close>, \<open>reserveSession\<close> and the
  deferred \<open>UnregisterPTY\<close>). The three registry calls are atomic; between them any other stream and any other operation
  of the registry may run.
\<close>

section \<open>Definitions\<close>

datatype stream_pc = StNew | StLooked string | StHolds string string | StOver

record slot_sys =
  sy_mgr :: manager
  sy_pc :: "nat \<Rightarrow> stream_pc"

definition sy_set :: "nat \<Rightarrow> stream_pc \<Rightarrow> manager \<Rightarrow> slot_sys \<Rightarrow> slot_sys" where
  "sy_set i pc m s = s\<lparr>sy_mgr := m, sy_pc := (sy_pc s)(i := pc)\<rparr>"

inductive slstep :: "slot_sys \<Rightarrow> slot_sys \<Rightarrow> bool" where
  look: "sy_pc s i = StNew \<Longrightarrow> uid \<noteq> [] \<Longrightarrow> reg_LookupDaemon now h uid (sy_mgr s) = (m, r) \<Longrightarrow>
     slstep s (sy_set i (if r = None then StOver else StLooked uid) m s)"
| take: "sy_pc s i = StLooked uid \<Longrightarrow> reg_RegisterPTY uid (sy_mgr s) = (m, r) \<Longrightarrow>
     slstep s (sy_set i (case r of Inr (Some sid) \<Rightarrow> StHolds uid sid | _ \<Rightarrow> StOver) m s)"
| give: "sy_pc s i = StHolds uid sid \<Longrightarrow> slstep s (sy_set i StOver (reg_UnregisterPTY uid sid (sy_mgr s)) s)"
| other: "activePTY m = activePTY (sy_mgr s) \<Longrightarrow> slstep s (s\<lparr>sy_mgr := m\<rparr>)"

inductive slreach :: "slot_sys \<Rightarrow> bool" where
  init: "activePTY m = [] \<Longrightarrow> slreach \<lparr>sy_mgr = m, sy_pc = (\<lambda>_. StNew)\<rparr>"
| step: "slreach s \<Longrightarrow> slstep s s' \<Longrightarrow> slreach s'"

section \<open>Who holds which slot\<close>

fun holding :: "stream_pc \<Rightarrow> (string \<times> string) option" where
  "holding (StHolds u sid) = Some (u, sid)"
| "holding _ = None"

lemma holding_Some [simp]: "holding pc = Some (u, sid) \<longleftrightarrow> pc = StHolds u sid"
  by (cases pc) auto

definition holders :: "slot_sys \<Rightarrow> nat \<Rightarrow> (string \<times> string) option" where
  "holders s i = holding (sy_pc s i)"

definition slots_ok :: "slot_sys \<Rightarrow> bool" where
  "slots_ok s = (reg.held_by (sy_mgr s) (holders s) \<and> (\<forall>i u. sy_pc s i = StLooked u \<longrightarrow> u \<noteq> []))"

lemma holders_set: "holders (sy_set i pc m s) = (holders s)(i := holding pc)"
  by (rule ext) (simp add: holders_def sy_set_def)

lemma slots_ok_set:
  assumes "slots_ok s" "reg.held_by m ((holders s)(i := holding pc))" "pc \<noteq> StLooked []"
  shows "slots_ok (sy_set i pc m s)"
  using assms unfolding slots_ok_def holders_set by (auto simp: sy_set_def)

lemma slots_ok_quiet:
  assumes "slots_ok s" "holding (sy_pc s i) = None" "pty_slots m = pty_slots (sy_mgr s)" "holding pc = None" "pc \<noteq> StLooked []"
  shows "slots_ok (sy_set i pc m s)"
proof -
  have "(holders s)(i := holding pc) = holders s" using assms(2,4) by (simp add: fun_upd_idem holders_def)
  then show ?thesis
    using assms reg.slot_held_same [of "sy_mgr s" "holders s" m] by (intro slots_ok_set) (simp_all add: slots_ok_def)
qed

lemma slots_step: "slstep s s' \<Longrightarrow> slots_ok s \<Longrightarrow> slots_ok s'"
proof (induction rule: slstep.induct)
  case (look s i uid now h m r)
  then show ?case using reg.lookup_slots [of now h uid "sy_mgr s"] by (intro slots_ok_quiet) (auto split: if_splits)
next
  case (take s i uid m r)
  have h: "holding (sy_pc s i) = None" using take by simp
  show ?case
  proof (cases "\<exists>sid. r = Inr (Some sid)")
    case True
    then obtain sid where r: "r = Inr (Some sid)" by blast
    have "reg.held_by m ((holders s)(i \<mapsto> (uid, sid)))"
      using reg.held_register [of "sy_mgr s" "holders s" i uid m sid] take h r by (simp add: slots_ok_def holders_def)
    then show ?thesis using take.prems r by (intro slots_ok_set) auto
  next
    case False
    then have "r = Inr None \<or> (\<exists>e. r = Inl e)" by (cases r) (auto intro: option.exhaust)
    then show ?thesis using take h reg.register_busy [of uid "sy_mgr s" m] reg.register_err [of uid "sy_mgr s" m]
      by (intro slots_ok_quiet) (auto split: sum.splits option.splits)
  qed
next
  case (give s i uid sid)
  have "reg.held_by (reg_UnregisterPTY uid sid (sy_mgr s)) ((holders s)(i := None))"
    using give by (intro reg.held_unregister) (auto simp: slots_ok_def holders_def)
  then show ?case using give.prems by (intro slots_ok_set) auto
next
  case (other m s)
  then show ?case using reg.slot_held_same [of "sy_mgr s" "holders s" m] by (simp add: slots_ok_def pty_slots_def holders_def [abs_def])
qed

lemma slreach_ok: "slreach s \<Longrightarrow> slots_ok s"
proof (induction rule: slreach.induct)
  case (init m)
  then show ?case by (auto simp: slots_ok_def pty_slots_def holders_def intro!: reg.slot_heldI)
qed (rule slots_step)

section \<open>Properties\<close>

text \<open>C20: with any number of attach streams and any interleaving, a user has at most one terminal; the registry's slot
  of a user is taken exactly while a stream holds it, under that stream's identifier; and a stream that finds the
  daemon of a user with no terminal gets the slot.\<close>

theorem one_terminal_per_user:
  assumes "slreach s"
  shows "(\<forall>i j u a b. sy_pc s i = StHolds u a \<and> sy_pc s j = StHolds u b \<longrightarrow> i = j)
    \<and> (\<forall>u sid. pty_slots (sy_mgr s) u = Some sid \<longleftrightarrow> (\<exists>i. sy_pc s i = StHolds u sid))
    \<and> (\<forall>i u. sy_pc s i = StLooked u \<and> (\<nexists>j sid. sy_pc s j = StHolds u sid)
         \<longrightarrow> (\<exists>m sid. reg_RegisterPTY u (sy_mgr s) = (m, Inr (Some sid))))"
proof -
  note ok = slreach_ok [OF assms, unfolded slots_ok_def]
  note D = reg.heldD [OF conjunct1 [OF ok], unfolded holders_def holding_Some]
  have slot: "pty_slots (sy_mgr s) u = Some sid \<longleftrightarrow> (\<exists>i. sy_pc s i = StHolds u sid)" for u sid using D(1,2) by blast
  have "\<exists>m sid. reg_RegisterPTY u (sy_mgr s) = (m, Inr (Some sid))" if "sy_pc s i = StLooked u" "\<nexists>j sid. sy_pc s j = StHolds u sid" for i u
  proof -
    have "u \<noteq> []" "map_of (activePTY (sy_mgr s)) u = None" using ok that slot by (auto simp: pty_slots_def) (metis option.exhaust)
    then show ?thesis by (auto simp: reg_RegisterPTY_def RegisterPTY_def Let_def split: prod.splits)
  qed
  then show ?thesis using slot D(3) by blast
qed

definition demo_slots :: slot_sys where
  "demo_slots = (let m1 = fst (reg_LookupDaemon 5 demo_pty_heap ''u'' demo_mgr); m2 = fst (reg_RegisterPTY ''u'' m1)
     in \<lparr>sy_mgr = m2, sy_pc = (\<lambda>_. StNew)(0 := StHolds ''u'' ''u-pty-1'')\<rparr>)"

lemma demo_slots_reach: "slreach demo_slots"
proof -
  let ?s0 = "\<lparr>sy_mgr = demo_mgr, sy_pc = (\<lambda>_. StNew)\<rparr>" and ?m1 = "fst (reg_LookupDaemon 5 demo_pty_heap ''u'' demo_mgr)"
  let ?m2 = "fst (reg_RegisterPTY ''u'' ?m1)"
  have l: "reg_LookupDaemon 5 demo_pty_heap ''u'' demo_mgr = (?m1, Some ''w'')" by (rule prod_eqI, simp) (simp, code_simp)
  have t: "reg_RegisterPTY ''u'' ?m1 = (?m2, Inr (Some ''u-pty-1''))" by (rule prod_eqI, simp) (simp, code_simp)
  have "slreach ?s0" by (rule slreach.init) (simp add: demo_mgr_def NewManager_def)
  from slreach.step [OF this slstep.look [of _ 0 "''u''" 5 demo_pty_heap ?m1 "Some ''w''"]]
  have "slreach (sy_set 0 (StLooked ''u'') ?m1 ?s0)" using l by simp
  from slreach.step [OF this slstep.take [of _ 0 "''u''" ?m2 "Inr (Some ''u-pty-1'')"]]
  show ?thesis using t by (simp add: sy_set_def demo_slots_def Let_def)
qed

theorem one_terminal_per_user_witness:
  "sy_pc demo_slots 0 = StHolds ''u'' ''u-pty-1'' \<and> pty_slots (sy_mgr demo_slots) ''u'' = Some ''u-pty-1''"
proof -
  have "sy_pc demo_slots 0 = StHolds ''u'' ''u-pty-1''" by (simp add: demo_slots_def Let_def)
  then show ?thesis using one_terminal_per_user [OF demo_slots_reach] by blast
qed

end
