(* ===== verification/Pty_Serve.thy ===== *)
theory Pty_Serve
  imports Pty_Service
begin

text \<open>
  An attached terminal, \<open>runAttached\<close> of \<open>src/pkg/ptyservice/service.go\<close>: the two pumps, the goroutine that waits for the
  host, and the loop that serves their channels, as a step relation. The handlers are functions; \<open>io\<close> holds the outcomes of
  the calls a handler makes on the stream, the limiter and the host. The host decides when it exits and what it writes,
  the client what it sends. \<open>sv_out\<close> and \<open>sv_in\<close> record what was read from the host and received from the client.
\<close>

section \<open>Definitions\<close>

datatype io_err = IoEOF | IoOther string
datatype stdout_event = EvData bytes | EvErr io_err
datatype client_event = EvFrame client_frame | EvRecvErr

record attach_runtime =
  streamOpen :: bool
  stdoutClosed :: bool
  hostExited :: bool
  exitInfo :: exit_info
  shutdownOnce :: bool

text \<open>Where the goroutines stand: the pump of the output with the events it still has to send, the pump of the client's
  frames, and the loop, which may wait for the host before it reports an error.\<close>

datatype spump_pc = SpRead | SpSend "stdout_event list" | SpClose | SpDone
datatype cpump_pc = CpRecv | CpSend client_event | CpClose | CpDone
datatype serve_pc = MLoop | MWaitHost error_kind pty_err | MReturned "svc_error option"

record serving =
  rt :: attach_runtime
  stdoutCh :: "stdout_event list"
  stdoutChClosed :: bool
  stdoutNil :: bool
  clientCh :: "client_event list"
  clientChClosed :: bool
  clientNil :: bool
  exitCh :: "(exit_info \<times> string option) list"
  spump :: spump_pc
  cpump :: cpump_pc
  waiter_done :: bool
  sv_host :: "(exit_info \<times> string option) option"
  sv_main :: serve_pc
  sv_frames :: "sframe list"
  sv_stdin :: "bytes list"
  sv_sizes :: "window_size list"
  sv_shutdowns :: nat
  sv_out :: bytes
  sv_in :: "client_frame list"

record io_outcome =
  io_send :: "string option"
  io_limit :: "string option"
  io_write :: "string option"
  io_resize :: "string option"

definition newAttachRuntime :: attach_runtime where
  "newAttachRuntime = \<lparr>streamOpen = True, stdoutClosed = False, hostExited = False, exitInfo = zero_exit, shutdownOnce = False\<rparr>"

definition serve_start :: serving where
  "serve_start = \<lparr>rt = newAttachRuntime, stdoutCh = [], stdoutChClosed = False, stdoutNil = False, clientCh = [], clientChClosed = False,
     clientNil = False, exitCh = [], spump = SpRead, cpump = CpRecv, waiter_done = False, sv_host = None, sv_main = MLoop,
     sv_frames = [], sv_stdin = [], sv_sizes = [], sv_shutdowns = 0, sv_out = [], sv_in = []\<rparr>"

subsection \<open>The runtime of an attachment\<close>

definition readyToExit :: "attach_runtime \<Rightarrow> bool" where
  "readyToExit r = (hostExited r \<and> stdoutClosed r)"

definition rt_shutdown :: "serving \<Rightarrow> serving" where
  "rt_shutdown s =
     (if shutdownOnce (rt s) then s
      else s\<lparr>rt := (rt s)\<lparr>shutdownOnce := True\<rparr>, sv_shutdowns := sv_shutdowns s + 1\<rparr>)"

definition closeStream :: "serving \<Rightarrow> serving" where
  "closeStream s = rt_shutdown (s\<lparr>rt := (rt s)\<lparr>streamOpen := False\<rparr>\<rparr>)"

text \<open>The error of the call, if the stream is still open.\<close>

definition rt_sendApplicationError :: "string option \<Rightarrow> error_kind \<Rightarrow> pty_err \<Rightarrow> serving \<Rightarrow> serving \<times> svc_error option" where
  "rt_sendApplicationError sendErr kind e s =
     (if \<not> streamOpen (rt s) then (s, None)
      else (case applicationError sendErr kind e of (fs, x) \<Rightarrow> (s\<lparr>sv_frames := sv_frames s @ fs\<rparr>, Some x)))"

text \<open>An error of a handler ends the call.\<close>

definition loop_result :: "serving \<times> svc_error option \<Rightarrow> serving" where
  "loop_result r = (case r of (s, None) \<Rightarrow> s\<lparr>sv_main := MLoop\<rparr> | (s, Some e) \<Rightarrow> s\<lparr>sv_main := MReturned (normalizeApplicationStop e)\<rparr>)"

definition rt_finish :: "string option \<Rightarrow> serving \<Rightarrow> serving" where
  "rt_finish sendErr s =
     (if \<not> streamOpen (rt s) then s\<lparr>sv_main := MReturned None\<rparr>
      else (case sendErr of
              Some e \<Rightarrow> s\<lparr>sv_main := MReturned (Some (SendErr e))\<rparr>
            | None \<Rightarrow> s\<lparr>sv_frames := sv_frames s @ [SfExited (exitInfo (rt s))], sv_main := MReturned None\<rparr>))"

subsection \<open>Handlers\<close>

definition handleStdoutError :: "io_err \<Rightarrow> serving \<Rightarrow> serving" where
  "handleStdoutError e s =
     (case e of
        IoEOF \<Rightarrow> s\<lparr>rt := (rt s)\<lparr>stdoutClosed := True\<rparr>, stdoutNil := True\<rparr>
      | IoOther t \<Rightarrow> (rt_shutdown s)\<lparr>sv_main := MWaitHost KIND_INTERNAL (OtherErr t)\<rparr>)"

definition handleStdoutEvent :: "io_outcome \<Rightarrow> stdout_event option \<Rightarrow> serving \<Rightarrow> serving" where
  "handleStdoutEvent io ev s =
     (case ev of
        None \<Rightarrow> s\<lparr>rt := (rt s)\<lparr>stdoutClosed := True\<rparr>, stdoutNil := True\<rparr>
      | Some (EvErr e) \<Rightarrow> handleStdoutError e s
      | Some (EvData d) \<Rightarrow>
          if d = [] \<or> \<not> streamOpen (rt s) then s
          else (case io_send io of None \<Rightarrow> s\<lparr>sv_frames := sv_frames s @ [SfStdout d]\<rparr> | Some _ \<Rightarrow> closeStream s))"

text \<open>A frame is refused with a kind and an error, or accepted; a detach ends the input.\<close>

definition handleClientStdin :: "svc_config \<Rightarrow> io_outcome \<Rightarrow> bytes \<Rightarrow> serving \<Rightarrow> serving \<times> (error_kind \<times> pty_err + bool)" where
  "handleClientStdin cfg io payload s =
     (if pc_frame_max cfg < int (length payload) then (s, Inl (KIND_PROTOCOL, ErrFrameTooLarge))
      else if pc_input_limit cfg \<and> io_limit io \<noteq> None
      then (s, Inl (KIND_RATE_LIMITED, OtherErr (''stdin limited: '' @ (case io_limit io of None \<Rightarrow> [] | Some e \<Rightarrow> e))))
      else (case io_write io of
              Some e \<Rightarrow> (s, Inl (KIND_INTERNAL, OtherErr e))
            | None \<Rightarrow> (s\<lparr>sv_stdin := sv_stdin s @ [payload]\<rparr>, Inr False)))"

definition handleClientResize :: "io_outcome \<Rightarrow> window_size \<Rightarrow> serving \<Rightarrow> serving \<times> (error_kind \<times> pty_err + bool)" where
  "handleClientResize io w s =
     (case io_resize io of
        Some e \<Rightarrow> (s, Inl (KIND_INTERNAL, OtherErr e))
      | None \<Rightarrow> (s\<lparr>sv_sizes := sv_sizes s @ [fromProtoSize (Some w)]\<rparr>, Inr False))"

definition handleClientFrame :: "svc_config \<Rightarrow> io_outcome \<Rightarrow> client_frame \<Rightarrow> serving \<Rightarrow> serving \<times> (error_kind \<times> pty_err + bool)" where
  "handleClientFrame cfg io frame s =
     (case GetStdin frame of
        Some payload \<Rightarrow> handleClientStdin cfg io payload s
      | None \<Rightarrow>
          (case GetResize frame of
             Some w \<Rightarrow> handleClientResize io w s
           | None \<Rightarrow> if GetDetach frame then (s, Inr True) else (s, Inl (KIND_PROTOCOL, ErrFirstFrameAttach))))"

definition handleClientEvent :: "svc_config \<Rightarrow> io_outcome \<Rightarrow> client_event option \<Rightarrow> serving \<Rightarrow> serving" where
  "handleClientEvent cfg io ev s =
     (case ev of
        None \<Rightarrow> s\<lparr>clientNil := True\<rparr>
      | Some EvRecvErr \<Rightarrow> (closeStream s)\<lparr>clientNil := True\<rparr>
      | Some (EvFrame frame) \<Rightarrow>
          (case handleClientFrame cfg io frame s of
             (s1, Inl (kind, e)) \<Rightarrow> (rt_shutdown s1)\<lparr>sv_main := MWaitHost kind e\<rparr>
           | (s1, Inr done1) \<Rightarrow> if done1 then (rt_shutdown s1)\<lparr>clientNil := True\<rparr> else s1))"

definition handleExitEvent :: "io_outcome \<Rightarrow> exit_info \<times> string option \<Rightarrow> serving \<Rightarrow> serving" where
  "handleExitEvent io x s =
     (let s1 = s\<lparr>rt := (rt s)\<lparr>hostExited := True, exitInfo := fst x\<rparr>\<rparr> in
      case snd x of
        None \<Rightarrow> s1
      | Some e \<Rightarrow> loop_result (rt_sendApplicationError (io_send io) KIND_INTERNAL (OtherErr e) s1))"

subsection \<open>The goroutines\<close>

definition chan_cap :: nat where "chan_cap = 8"

definition pump_max :: "svc_config \<Rightarrow> int" where
  "pump_max cfg = (if pc_frame_max cfg \<le> 0 then DefaultPTYFrameMaxBytes else pc_frame_max cfg)"

definition read_events :: "bytes \<Rightarrow> io_err option \<Rightarrow> stdout_event list" where
  "read_events d err = (if d = [] then [] else [EvData d]) @ (case err of None \<Rightarrow> [] | Some e \<Rightarrow> [EvErr e])"

inductive svstep :: "svc_config \<Rightarrow> serving \<Rightarrow> serving \<Rightarrow> bool" for cfg :: svc_config where
  host_exit: "sv_host s = None \<Longrightarrow> svstep cfg s (s\<lparr>sv_host := Some x\<rparr>)"
| wait_host: "\<not> waiter_done s \<Longrightarrow> sv_host s = Some x \<Longrightarrow> svstep cfg s (s\<lparr>exitCh := exitCh s @ [x], waiter_done := True\<rparr>)"
| out_read: "spump s = SpRead \<Longrightarrow> int (length d) \<le> pump_max cfg \<Longrightarrow> read_events d err = evs \<Longrightarrow>
     svstep cfg s (s\<lparr>spump := (if evs = [] then SpRead else SpSend evs), sv_out := sv_out s @ d\<rparr>)"
| out_send: "spump s = SpSend (ev # evs) \<Longrightarrow> length (stdoutCh s) < chan_cap \<Longrightarrow>
     svstep cfg s (s\<lparr>stdoutCh := stdoutCh s @ [ev],
       spump := (case ev of EvErr _ \<Rightarrow> SpClose | EvData _ \<Rightarrow> if evs = [] then SpRead else SpSend evs)\<rparr>)"
| out_close: "spump s = SpClose \<Longrightarrow> svstep cfg s (s\<lparr>stdoutChClosed := True, spump := SpDone\<rparr>)"
| in_recv: "cpump s = CpRecv \<Longrightarrow> svstep cfg s (s\<lparr>cpump := CpSend (EvFrame f), sv_in := sv_in s @ [f]\<rparr>)"
| in_fail: "cpump s = CpRecv \<Longrightarrow> svstep cfg s (s\<lparr>cpump := CpSend EvRecvErr\<rparr>)"
| in_send: "cpump s = CpSend ev \<Longrightarrow> length (clientCh s) < chan_cap \<Longrightarrow>
     svstep cfg s (s\<lparr>clientCh := clientCh s @ [ev], cpump := (if ev = EvRecvErr then CpClose else CpRecv)\<rparr>)"
| in_close: "cpump s = CpClose \<Longrightarrow> svstep cfg s (s\<lparr>clientChClosed := True, cpump := CpDone\<rparr>)"
| main_stdout: "sv_main s = MLoop \<Longrightarrow> \<not> readyToExit (rt s) \<Longrightarrow> \<not> stdoutNil s \<Longrightarrow> stdoutCh s = ev # evs \<Longrightarrow>
     svstep cfg s (handleStdoutEvent io (Some ev) (s\<lparr>stdoutCh := evs\<rparr>))"
| main_stdout_closed: "sv_main s = MLoop \<Longrightarrow> \<not> readyToExit (rt s) \<Longrightarrow> \<not> stdoutNil s \<Longrightarrow> stdoutCh s = [] \<Longrightarrow> stdoutChClosed s \<Longrightarrow>
     svstep cfg s (handleStdoutEvent io None s)"
| main_client: "sv_main s = MLoop \<Longrightarrow> \<not> readyToExit (rt s) \<Longrightarrow> \<not> clientNil s \<Longrightarrow> clientCh s = cev # cevs \<Longrightarrow>
     svstep cfg s (handleClientEvent cfg io (Some cev) (s\<lparr>clientCh := cevs\<rparr>))"
| main_client_closed: "sv_main s = MLoop \<Longrightarrow> \<not> readyToExit (rt s) \<Longrightarrow> \<not> clientNil s \<Longrightarrow> clientCh s = [] \<Longrightarrow> clientChClosed s \<Longrightarrow>
     svstep cfg s (handleClientEvent cfg io None s)"
| main_exit: "sv_main s = MLoop \<Longrightarrow> \<not> readyToExit (rt s) \<Longrightarrow> exitCh s = x # xs \<Longrightarrow>
     svstep cfg s (handleExitEvent io x (s\<lparr>exitCh := xs\<rparr>))"
| main_ready: "sv_main s = MLoop \<Longrightarrow> readyToExit (rt s) \<Longrightarrow> svstep cfg s (rt_finish sendErr s)"
| main_waited: "sv_main s = MWaitHost kind e \<Longrightarrow> sv_host s \<noteq> None \<Longrightarrow>
     svstep cfg s (loop_result (rt_sendApplicationError sendErr kind e s))"

inductive svreach :: "svc_config \<Rightarrow> serving \<Rightarrow> bool" for cfg :: svc_config where
  init: "svreach cfg serve_start"
| step: "svreach cfg s \<Longrightarrow> svstep cfg s s' \<Longrightarrow> svreach cfg s'"

section \<open>Invariants\<close>

fun stdout_of :: "sframe \<Rightarrow> bytes list" where
  "stdout_of (SfStdout d) = [d]"
| "stdout_of _ = []"

fun ev_data :: "stdout_event \<Rightarrow> bytes" where
  "ev_data (EvData d) = d"
| "ev_data (EvErr _) = []"

fun pending_evs :: "spump_pc \<Rightarrow> stdout_event list" where
  "pending_evs (SpSend evs) = evs"
| "pending_evs _ = []"

abbreviation "sent_bytes s \<equiv> concat (concat (map stdout_of (sv_frames s)))"
abbreviation "left_bytes s \<equiv> concat (map ev_data (stdoutCh s @ pending_evs (spump s)))"

text \<open>While the stream is open, what was read from the host is what was sent and what is on its way.\<close>

definition flow_inv :: "serving \<Rightarrow> bool" where
  "flow_inv s = (if streamOpen (rt s) then sv_out s = sent_bytes s @ left_bytes s else prefix (sent_bytes s) (sv_out s))"

text \<open>Events are non-empty chunks of bounded size, with at most one error, at the end.\<close>

fun ok_evs :: "int \<Rightarrow> stdout_event list \<Rightarrow> bool" where
  "ok_evs mx [] = True"
| "ok_evs mx (EvData d # evs) = (d \<noteq> [] \<and> int (length d) \<le> mx \<and> ok_evs mx evs)"
| "ok_evs mx (EvErr e # evs) = (evs = [])"

definition evs_inv :: "svc_config \<Rightarrow> serving \<Rightarrow> bool" where
  "evs_inv cfg s = (ok_evs (pump_max cfg) (stdoutCh s @ pending_evs (spump s))
    \<and> (spump s = SpRead \<longrightarrow> (\<forall>e. EvErr e \<notin> set (stdoutCh s))) \<and> spump s \<noteq> SpSend []
    \<and> (stdoutChClosed s \<longrightarrow> spump s = SpDone)
    \<and> (stdoutClosed (rt s) \<longrightarrow> stdoutCh s = [] \<and> spump s \<in> {SpClose, SpDone})
    \<and> (stdoutNil s \<longrightarrow> stdoutClosed (rt s)))"

text \<open>The frames sent: chunks of output, and at the end of the call at most one frame that says how it ended.\<close>

definition frame_end :: "serving \<Rightarrow> sframe list \<Rightarrow> bool" where
  "frame_end s tail =
     (case sv_main s of
        MReturned r \<Rightarrow> tail = [] \<or> r = None \<and> ((\<exists>k m. tail = [SfError k m])
          \<or> tail = [SfExited (exitInfo (rt s))] \<and> readyToExit (rt s) \<and> streamOpen (rt s) \<and> sv_host s = Some (exitInfo (rt s), None))
      | _ \<Rightarrow> tail = [])"

definition frame_inv :: "svc_config \<Rightarrow> serving \<Rightarrow> bool" where
  "frame_inv cfg s = (\<exists>ds tail. sv_frames s = map SfStdout ds @ tail \<and> (\<forall>d \<in> set ds. d \<noteq> [] \<and> int (length d) \<le> pump_max cfg)
    \<and> frame_end s tail)"

definition exit_inv :: "serving \<Rightarrow> bool" where
  "exit_inv s = ((\<forall>x \<in> set (exitCh s). sv_host s = Some x)
    \<and> (hostExited (rt s) \<longrightarrow> (\<exists>err. sv_host s = Some (exitInfo (rt s), err) \<and> (err \<noteq> None \<longrightarrow> \<not> streamOpen (rt s) \<or> (\<exists>r. sv_main s = MReturned r)))))"

definition once_inv :: "serving \<Rightarrow> bool" where
  "once_inv s = (sv_shutdowns s = (if shutdownOnce (rt s) then 1 else 0))"

fun frames_of :: "client_event \<Rightarrow> client_frame list" where
  "frames_of (EvFrame f) = [f]"
| "frames_of EvRecvErr = []"

fun pending_client :: "cpump_pc \<Rightarrow> client_event list" where
  "pending_client (CpSend ev) = [ev]"
| "pending_client _ = []"

abbreviation "stdin_of f \<equiv> (case GetStdin f of None \<Rightarrow> [] | Some p \<Rightarrow> [p])"
abbreviation "left_frames s \<equiv> concat (map frames_of (clientCh s @ pending_client (cpump s)))"

text \<open>What the process was given is, in order, the client's input frames, none longer than allowed.\<close>

definition client_inv :: "svc_config \<Rightarrow> serving \<Rightarrow> bool" where
  "client_inv cfg s = (\<exists>h. sv_in s = h @ left_frames s \<and> subseq (sv_stdin s) (concat (map stdin_of h))
    \<and> (\<forall>p \<in> set (sv_stdin s). int (length p) \<le> pc_frame_max cfg))"

lemma shutdown_fields [simp]:
  "stdoutCh (rt_shutdown s) = stdoutCh s" "stdoutChClosed (rt_shutdown s) = stdoutChClosed s" "stdoutNil (rt_shutdown s) = stdoutNil s"
  "clientCh (rt_shutdown s) = clientCh s" "clientChClosed (rt_shutdown s) = clientChClosed s" "clientNil (rt_shutdown s) = clientNil s"
  "exitCh (rt_shutdown s) = exitCh s" "spump (rt_shutdown s) = spump s" "cpump (rt_shutdown s) = cpump s"
  "waiter_done (rt_shutdown s) = waiter_done s" "sv_host (rt_shutdown s) = sv_host s" "sv_main (rt_shutdown s) = sv_main s"
  "sv_frames (rt_shutdown s) = sv_frames s" "sv_stdin (rt_shutdown s) = sv_stdin s" "sv_sizes (rt_shutdown s) = sv_sizes s"
  "sv_out (rt_shutdown s) = sv_out s" "sv_in (rt_shutdown s) = sv_in s"
  "streamOpen (rt (rt_shutdown s)) = streamOpen (rt s)" "stdoutClosed (rt (rt_shutdown s)) = stdoutClosed (rt s)"
  "hostExited (rt (rt_shutdown s)) = hostExited (rt s)" "exitInfo (rt (rt_shutdown s)) = exitInfo (rt s)"
  by (simp_all add: rt_shutdown_def)

lemmas handler_defs = handleStdoutEvent_def handleStdoutError_def closeStream_def handleClientEvent_def handleClientFrame_def
  handleClientStdin_def handleClientResize_def handleExitEvent_def loop_result_def rt_sendApplicationError_def rt_finish_def Let_def

lemmas handler_splits = option.splits stdout_event.splits io_err.splits client_event.splits if_splits prod.splits sum.splits

lemma application_sent: "applicationError sendErr k e = (fs, x) \<Longrightarrow> concat (map stdout_of fs) = []"
  using application_frames [of sendErr k e fs x] by auto

lemma once_step: "svstep cfg s s' \<Longrightarrow> once_inv s \<Longrightarrow> once_inv s'"
  by (induction rule: svstep.induct) (auto simp: once_inv_def handler_defs rt_shutdown_def split: handler_splits)

lemma ok_evs_append: "ok_evs mx (xs @ ys) \<Longrightarrow> ys \<noteq> [] \<Longrightarrow> (\<forall>e. EvErr e \<notin> set xs)"
  by (induction mx xs rule: ok_evs.induct) auto

lemma ok_evs_read: "\<forall>e. EvErr e \<notin> set xs \<Longrightarrow> ok_evs mx xs \<Longrightarrow> int (length d) \<le> mx \<Longrightarrow> ok_evs mx (xs @ read_events d err)"
  by (induction mx xs rule: ok_evs.induct) (auto simp: read_events_def split: option.splits)

lemma err_last: "evs_inv cfg s \<Longrightarrow> spump s = SpSend (EvErr e # evs) \<Longrightarrow> evs = []"
  using ok_evs_append [of "pump_max cfg" "stdoutCh s @ [EvErr e]" evs] by (auto simp: evs_inv_def)

lemma flow_step: "svstep cfg s s' \<Longrightarrow> evs_inv cfg s \<Longrightarrow> flow_inv s \<Longrightarrow> flow_inv s'"
proof (induction rule: svstep.induct)
  case (out_read s d err evs)
  then show ?case by (auto simp: flow_inv_def read_events_def prefix_def split: option.splits if_splits)
next
  case (out_send s ev evs)
  then show ?case using err_last [of cfg s] by (cases ev) (auto simp: flow_inv_def)
next
  case (main_stdout s ev evs io)
  then show ?case by (auto simp: flow_inv_def handler_defs split: handler_splits)
next
  case (main_exit s x xs io)
  then show ?case by (auto simp: flow_inv_def handler_defs dest: application_sent split: handler_splits)
next
  case (main_waited s kind e sendErr)
  then show ?case by (auto simp: flow_inv_def handler_defs dest: application_sent split: handler_splits)
qed (auto simp: flow_inv_def handler_defs split: handler_splits)

lemma evs_step: "svstep cfg s s' \<Longrightarrow> evs_inv cfg s \<Longrightarrow> evs_inv cfg s'"
proof (induction rule: svstep.induct)
  case (out_read s d err evs)
  then show ?case using ok_evs_read [of "stdoutCh s" "pump_max cfg" d err] by (auto simp: evs_inv_def)
next
  case (out_send s ev evs)
  have n: "\<forall>e. EvErr e \<notin> set (stdoutCh s)" using ok_evs_append [of "pump_max cfg" "stdoutCh s" "ev # evs"] out_send by (auto simp: evs_inv_def)
  then show ?case using out_send n err_last [of cfg s _ evs] by (cases ev) (auto simp: evs_inv_def)
next
  case (main_stdout s ev evs io)
  then have "ok_evs (pump_max cfg) (ev # evs @ pending_evs (spump s))" by (simp add: evs_inv_def)
  then have e: "evs = [] \<and> spump s \<in> {SpClose, SpDone}" if "ev = EvErr e" for e
    using that main_stdout by (cases "spump s") (auto simp: evs_inv_def)
  have "ok_evs (pump_max cfg) (evs @ pending_evs (spump s))" using main_stdout e by (cases ev) (auto simp: evs_inv_def)
  then show ?case using main_stdout e by (auto simp: evs_inv_def handler_defs split: handler_splits)
qed (auto simp: evs_inv_def handler_defs split: handler_splits)

lemma exit_step: "svstep cfg s s' \<Longrightarrow> exit_inv s \<Longrightarrow> exit_inv s'"
  by (induction rule: svstep.induct) (auto simp: exit_inv_def handler_defs split: handler_splits)

lemma frame_endD: "frame_end s tail \<Longrightarrow> sv_main s = MLoop \<or> (\<exists>k e. sv_main s = MWaitHost k e) \<Longrightarrow> tail = []"
  by (auto simp: frame_end_def)

text \<open>Steps that send nothing.\<close>

lemma frame_quiet:
  assumes "frame_inv cfg s" "sv_frames s' = sv_frames s" "\<forall>r. sv_main s \<noteq> MReturned r"
  shows "frame_inv cfg s'"
proof -
  obtain ds tail where d: "sv_frames s = map SfStdout ds @ tail" "\<forall>d \<in> set ds. d \<noteq> [] \<and> int (length d) \<le> pump_max cfg" "frame_end s tail"
    using assms(1) unfolding frame_inv_def by blast
  have "tail = []" using d(3) assms(3) by (cases "sv_main s") (auto simp: frame_end_def)
  then show ?thesis unfolding frame_inv_def using d(1,2) assms(2)
    by (intro exI [of _ ds] exI [of _ "[]"]) (auto simp: frame_end_def split: serve_pc.split)
qed

lemma frame_env:
  assumes "frame_inv cfg s" "sv_frames s' = sv_frames s" "sv_main s' = sv_main s" "rt s' = rt s" "\<And>x. sv_host s = Some x \<Longrightarrow> sv_host s' = Some x"
  shows "frame_inv cfg s'"
proof -
  obtain ds tail where d: "sv_frames s = map SfStdout ds @ tail" "\<forall>d \<in> set ds. d \<noteq> [] \<and> int (length d) \<le> pump_max cfg" "frame_end s tail"
    using assms(1) unfolding frame_inv_def by blast
  have "frame_end s' tail" using d(3) assms(3-5) by (auto simp: frame_end_def split: serve_pc.splits)
  then show ?thesis unfolding frame_inv_def using d(1,2) assms(2) by metis
qed

lemma frame_add:
  assumes "frame_inv cfg s" "\<forall>r. sv_main s \<noteq> MReturned r" "sv_frames s' = sv_frames s @ map SfStdout new @ tail"
    "\<forall>d \<in> set new. d \<noteq> [] \<and> int (length d) \<le> pump_max cfg" "frame_end s' tail"
  shows "frame_inv cfg s'"
proof -
  obtain ds tl0 where d: "sv_frames s = map SfStdout ds @ tl0" "\<forall>d \<in> set ds. d \<noteq> [] \<and> int (length d) \<le> pump_max cfg" "frame_end s tl0"
    using assms(1) unfolding frame_inv_def by blast
  have "tl0 = []" using d(3) assms(2) by (cases "sv_main s") (auto simp: frame_end_def)
  then show ?thesis unfolding frame_inv_def using d(1,2) assms(3-5) by (intro exI [of _ "ds @ new"] exI [of _ tail]) auto
qed

lemma frame_error:
  assumes "frame_inv cfg s" "\<forall>r. sv_main s \<noteq> MReturned r"
  shows "frame_inv cfg (loop_result (rt_sendApplicationError sendErr k e s))"
proof (cases "streamOpen (rt s)")
  case False
  then show ?thesis using assms by (intro frame_quiet [OF assms(1)]) (auto simp: rt_sendApplicationError_def loop_result_def)
next
  case True
  obtain fs x where f: "applicationError sendErr k e = (fs, x)" by fastforce
  let ?s' = "s\<lparr>sv_frames := sv_frames s @ fs, sv_main := MReturned (normalizeApplicationStop x)\<rparr>"
  have "frame_end ?s' fs" using application_frames [OF f] by (auto simp: frame_end_def normalizeApplicationStop_def)
  then have "frame_inv cfg ?s'" by (intro frame_add [OF assms, of _ "[]" fs]) auto
  then show ?thesis using True f by (simp add: rt_sendApplicationError_def loop_result_def)
qed

lemma frame_step: "svstep cfg s s' \<Longrightarrow> evs_inv cfg s \<Longrightarrow> exit_inv s \<Longrightarrow> frame_inv cfg s \<Longrightarrow> frame_inv cfg s'"
proof (induction rule: svstep.induct)
  case (main_stdout s ev evs io)
  show ?case
  proof (cases "\<exists>d. ev = EvData d \<and> d \<noteq> [] \<and> streamOpen (rt s) \<and> io_send io = None")
    case True
    then obtain d where d: "ev = EvData d" "d \<noteq> []" "streamOpen (rt s)" "io_send io = None" by blast
    have "int (length d) \<le> pump_max cfg" using main_stdout d by (simp add: evs_inv_def)
    then show ?thesis using main_stdout d
      by (intro frame_add [OF main_stdout(7), of _ "[d]" "[]"]) (auto simp: handleStdoutEvent_def frame_end_def)
  next
    case False
    then show ?thesis using main_stdout
      by (intro frame_quiet [OF main_stdout(7)]) (auto simp: handleStdoutEvent_def handleStdoutError_def closeStream_def split: handler_splits)
  qed
next
  case (main_exit s x xs io)
  let ?s1 = "s\<lparr>exitCh := xs, rt := (rt s)\<lparr>hostExited := True, exitInfo := fst x\<rparr>\<rparr>"
  have "frame_inv cfg ?s1" using main_exit by (intro frame_quiet [OF main_exit(6)]) auto
  then show ?case using frame_error [of cfg ?s1] main_exit(1) by (auto simp: handleExitEvent_def Let_def split: option.split)
next
  case (main_ready s sendErr)
  show ?case
  proof (cases "streamOpen (rt s) \<and> sendErr = None")
    case True
    let ?s' = "s\<lparr>sv_frames := sv_frames s @ [SfExited (exitInfo (rt s))], sv_main := MReturned None\<rparr>"
    have "sv_host s = Some (exitInfo (rt s), None)" using main_ready True by (auto simp: exit_inv_def readyToExit_def)
    then have "frame_inv cfg ?s'" using main_ready True
      by (intro frame_add [OF main_ready(5), of _ "[]" "[SfExited (exitInfo (rt s))]"]) (auto simp: frame_end_def)
    then show ?thesis using True by (simp add: rt_finish_def)
  next
    case False
    then show ?thesis using main_ready by (intro frame_quiet [OF main_ready(5)]) (auto simp: rt_finish_def split: option.split)
  qed
next
  case (main_waited s kind e sendErr)
  then show ?case by (intro frame_error) auto
next
  case (main_client s cev cevs io)
  then show ?case by (intro frame_quiet [OF main_client(7)]) (auto simp: handler_defs split: handler_splits)
next
  case (main_client_closed s io)
  then show ?case by (intro frame_quiet [OF main_client_closed(8)]) (auto simp: handler_defs)
next
  case (main_stdout_closed s io)
  then show ?case by (intro frame_quiet [OF main_stdout_closed(8)]) (auto simp: handler_defs)
qed (erule frame_env; simp)+

lemma client_quiet:
  assumes "client_inv cfg s" "sv_in s' = sv_in s" "left_frames s' = left_frames s" "sv_stdin s' = sv_stdin s"
  shows "client_inv cfg s'"
  using assms by (simp add: client_inv_def)

lemma client_take:
  assumes "client_inv cfg s" "clientCh s = cev # cevs"
  shows "client_inv cfg (handleClientEvent cfg io (Some cev) (s\<lparr>clientCh := cevs\<rparr>))"
proof (cases cev)
  case (EvFrame f)
  obtain h where h: "sv_in s = h @ f # left_frames (s\<lparr>clientCh := cevs\<rparr>)" "subseq (sv_stdin s) (concat (map stdin_of h))"
    "\<forall>p \<in> set (sv_stdin s). int (length p) \<le> pc_frame_max cfg"
    using assms EvFrame by (auto simp: client_inv_def)
  then show ?thesis using EvFrame unfolding client_inv_def
    by (intro exI [of _ "h @ [f]"])
       (auto simp: handler_defs list_emb_append_mono intro: list_emb_append2 split: handler_splits)
next
  case EvRecvErr
  then show ?thesis using assms by (auto simp: client_inv_def handler_defs)
qed

lemma client_step: "svstep cfg s s' \<Longrightarrow> client_inv cfg s \<Longrightarrow> client_inv cfg s'"
proof (induction rule: svstep.induct)
  case (main_client s cev cevs io)
  then show ?case by (intro client_take)
next
  case (in_recv s f)
  then show ?case by (auto simp: client_inv_def)
next
  case (in_send s ev)
  then show ?case by (cases ev) (auto simp: client_inv_def)
qed (erule client_quiet; auto simp: handler_defs split: handler_splits)+

lemma svreach_inv: "svreach cfg s \<Longrightarrow> once_inv s \<and> evs_inv cfg s \<and> flow_inv s \<and> exit_inv s \<and> frame_inv cfg s \<and> client_inv cfg s"
proof (induction rule: svreach.induct)
  case init
  show ?case
    by (auto simp: serve_start_def once_inv_def evs_inv_def flow_inv_def exit_inv_def frame_inv_def client_inv_def frame_end_def newAttachRuntime_def)
qed (use once_step evs_step flow_step exit_step frame_step client_step in blast)

subsection \<open>The call can always end\<close>

definition end_inv :: "serving \<Rightarrow> bool" where
  "end_inv s = ((waiter_done s \<and> \<not> hostExited (rt s) \<longrightarrow> exitCh s \<noteq> []) \<and> (spump s = SpDone \<longrightarrow> stdoutChClosed s))"

lemma end_step: "svstep cfg s s' \<Longrightarrow> end_inv s \<Longrightarrow> end_inv s'"
  by (induction rule: svstep.induct) (auto simp: end_inv_def handler_defs split: handler_splits)

lemma svreach_end: "svreach cfg s \<Longrightarrow> end_inv s"
proof (induction rule: svreach.induct)
  case init
  show ?case by (simp add: end_inv_def serve_start_def)
qed (rule end_step)

definition todo :: "serving \<Rightarrow> nat" where
  "todo s = 4 * length (stdoutCh s) + 2 * of_bool (\<not> stdoutClosed (rt s)) + 2 * of_bool (\<not> hostExited (rt s)) + of_bool (\<not> waiter_done s)
    + of_bool (\<exists>k e. sv_main s = MWaitHost k e)"

abbreviation "returned s \<equiv> \<exists>r. sv_main s = MReturned r"
abbreviation "ended s \<equiv> sv_host s \<noteq> None \<and> spump s = SpDone"

lemma ended_moves:
  assumes "svreach cfg s" "ended s" "\<not> returned s"
  shows "\<exists>s'. svstep cfg s s' \<and> ended s' \<and> (returned s' \<or> todo s' < todo s)"
proof -
  note inv = svreach_inv [OF assms(1)] and fin = svreach_end [OF assms(1)]
  let ?io = "\<lparr>io_send = None, io_limit = None, io_write = None, io_resize = None\<rparr>"
  obtain x where x: "sv_host s = Some x" using assms(2) by blast
  consider (wait) k e where "sv_main s = MWaitHost k e" | (ready) "sv_main s = MLoop" "readyToExit (rt s)"
    | (exit) y ys where "sv_main s = MLoop" "\<not> hostExited (rt s)" "exitCh s = y # ys"
    | (waiter) "sv_main s = MLoop" "\<not> waiter_done s" "\<not> hostExited (rt s)" "exitCh s = []"
    | (ev) e es where "sv_main s = MLoop" "\<not> stdoutClosed (rt s)" "stdoutCh s = e # es"
    | (closed) "sv_main s = MLoop" "\<not> stdoutClosed (rt s)" "stdoutCh s = []"
    using assms(3) fin by (cases "sv_main s"; cases "stdoutCh s"; cases "exitCh s") (auto simp: end_inv_def readyToExit_def)
  then show ?thesis
  proof cases
    case wait
    then show ?thesis using assms(2)
      by (intro exI [of _ "loop_result (rt_sendApplicationError None k e s)"] conjI svstep.main_waited)
         (auto simp: handler_defs todo_def split: prod.splits)
  next
    case ready
    then show ?thesis using assms(2) by (intro exI [of _ "rt_finish None s"] conjI svstep.main_ready) (auto simp: rt_finish_def)
  next
    case exit
    then show ?thesis using assms(2)
      by (intro exI [of _ "handleExitEvent ?io y (s\<lparr>exitCh := ys\<rparr>)"] conjI svstep.main_exit)
         (auto simp: readyToExit_def handler_defs todo_def split: option.splits prod.splits)
  next
    case waiter
    then show ?thesis using assms(2) x
      by (intro exI [of _ "s\<lparr>exitCh := exitCh s @ [x], waiter_done := True\<rparr>"] conjI svstep.wait_host) (auto simp: todo_def)
  next
    case ev
    then show ?thesis using assms(2) inv
      by (intro exI [of _ "handleStdoutEvent ?io (Some e) (s\<lparr>stdoutCh := es\<rparr>)"] conjI svstep.main_stdout)
         (auto simp: readyToExit_def evs_inv_def handler_defs todo_def split: handler_splits)
  next
    case closed
    then show ?thesis using assms(2) inv fin
      by (intro exI [of _ "handleStdoutEvent ?io None s"] conjI svstep.main_stdout_closed)
         (auto simp: readyToExit_def evs_inv_def end_inv_def handler_defs todo_def)
  qed
qed

section \<open>Properties\<close>

lemma sent_split: "sv_frames s = map SfStdout ds @ tail \<Longrightarrow> concat (map stdout_of tail) = [] \<Longrightarrow> sent_bytes s = concat ds"
proof -
  have "concat (map stdout_of (map SfStdout ds)) = ds" by (induction ds) auto
  then show "sv_frames s = map SfStdout ds @ tail \<Longrightarrow> concat (map stdout_of tail) = [] \<Longrightarrow> sent_bytes s = concat ds" by simp
qed

text \<open>C18: in every interleaving of the goroutines of an attached terminal the client is sent the output of the process in
  order, in non-empty frames of bounded size, and after it at most one frame that ends the session: an error, or the exit
  status of the process, and then nothing of the output is missing. The process is asked to stop at most once, and what
  it is given are the client's input frames in order, none longer than allowed.\<close>

theorem terminal_stream_faithful:
  assumes "svreach cfg s"
  shows "(\<exists>ds tail. sv_frames s = map SfStdout ds @ tail \<and> (\<forall>d \<in> set ds. d \<noteq> [] \<and> int (length d) \<le> pump_max cfg)
      \<and> prefix (concat ds) (sv_out s)
      \<and> (tail = [] \<or> sv_main s = MReturned None \<and> ((\<exists>k m. tail = [SfError k m])
          \<or> (\<exists>info. tail = [SfExited info] \<and> sv_host s = Some (info, None) \<and> concat ds = sv_out s \<and> spump s \<in> {SpClose, SpDone}))))
    \<and> sv_shutdowns s \<le> 1 \<and> subseq (sv_stdin s) (concat (map stdin_of (sv_in s)))
      \<and> (\<forall>p \<in> set (sv_stdin s). int (length p) \<le> pc_frame_max cfg)"
proof -
  note inv = svreach_inv [OF assms]
  obtain ds tail where f: "sv_frames s = map SfStdout ds @ tail" "\<forall>d \<in> set ds. d \<noteq> [] \<and> int (length d) \<le> pump_max cfg" "frame_end s tail"
    using inv unfolding frame_inv_def by blast
  have t: "concat (map stdout_of tail) = []" using f(3) by (auto simp: frame_end_def split: serve_pc.splits)
  note sent = sent_split [OF f(1) t]
  have p: "prefix (concat ds) (sv_out s)" using inv sent by (auto simp: flow_inv_def split: if_splits)
  have full: "concat ds = sv_out s \<and> spump s \<in> {SpClose, SpDone}" if "stdoutClosed (rt s)" "streamOpen (rt s)"
    using inv that sent by (auto simp: flow_inv_def evs_inv_def)
  have "tail = [] \<or> sv_main s = MReturned None \<and> ((\<exists>k m. tail = [SfError k m])
      \<or> (\<exists>info. tail = [SfExited info] \<and> sv_host s = Some (info, None) \<and> concat ds = sv_out s \<and> spump s \<in> {SpClose, SpDone}))"
    using f(3) full by (auto simp: frame_end_def readyToExit_def split: serve_pc.splits)
  then have a: "\<exists>ds tail. sv_frames s = map SfStdout ds @ tail \<and> (\<forall>d \<in> set ds. d \<noteq> [] \<and> int (length d) \<le> pump_max cfg)
      \<and> prefix (concat ds) (sv_out s)
      \<and> (tail = [] \<or> sv_main s = MReturned None \<and> ((\<exists>k m. tail = [SfError k m])
          \<or> (\<exists>info. tail = [SfExited info] \<and> sv_host s = Some (info, None) \<and> concat ds = sv_out s \<and> spump s \<in> {SpClose, SpDone})))"
    using f(1,2) p by (intro exI [of _ ds] exI [of _ tail]) blast
  obtain h where "sv_in s = h @ left_frames s" "subseq (sv_stdin s) (concat (map stdin_of h))" using inv by (auto simp: client_inv_def)
  then have "subseq (sv_stdin s) (concat (map stdin_of (sv_in s)))" by (auto intro: list_emb_append2)
  moreover have "sv_shutdowns s \<le> 1" "\<forall>p \<in> set (sv_stdin s). int (length p) \<le> pc_frame_max cfg" using inv by (auto simp: once_inv_def client_inv_def)
  ultimately show ?thesis using a by blast
qed

text \<open>C19: an attached terminal does not hang: once the process has exited and its output was read to the end, the call can
  return from every state, whatever the client did before and without anything more from it.\<close>

theorem attached_call_returns:
  assumes "svreach cfg s" "sv_host s \<noteq> None" "spump s = SpDone"
  shows "\<exists>s' r. (svstep cfg)\<^sup>*\<^sup>* s s' \<and> sv_main s' = MReturned r"
  using assms
proof (induction "todo s" arbitrary: s rule: less_induct)
  case less
  show ?case
  proof (cases "returned s")
    case False
    obtain s' where s': "svstep cfg s s'" "ended s'" "returned s' \<or> todo s' < todo s"
      using ended_moves [OF less.prems(1) _ False] less.prems by blast
    have r: "svreach cfg s'" using less.prems(1) s'(1) by (rule svreach.step)
    show ?thesis
    proof (cases "returned s'")
      case True
      then show ?thesis using s'(1) by (blast intro: r_into_rtranclp)
    next
      case False
      then show ?thesis using less.hyps [of s'] s' r by (meson converse_rtranclp_into_rtranclp)
    qed
  qed blast
qed

text \<open>A call that returned does not empty the channel of the output any more.\<close>

definition pump_stuck :: "serving \<Rightarrow> bool" where
  "pump_stuck s = ((\<exists>r. sv_main s = MReturned r) \<and> length (stdoutCh s) = chan_cap \<and> spump s = SpSend [EvData ''x''])"

lemma pump_stuck_steps: "(svstep cfg)\<^sup>*\<^sup>* s s' \<Longrightarrow> pump_stuck s \<Longrightarrow> pump_stuck s'"
proof (induction rule: rtranclp_induct)
  case (step s1 s2)
  then show ?case by (auto simp: pump_stuck_def elim!: svstep.cases)
qed

definition chunk_state :: "nat \<Rightarrow> serving" where
  "chunk_state n = serve_start\<lparr>stdoutCh := replicate n (EvData ''x''), sv_out := replicate n CHR ''x''\<rparr>"

definition chunk_read :: "nat \<Rightarrow> serving" where
  "chunk_read n = (chunk_state n)\<lparr>spump := SpSend [EvData ''x''], sv_out := replicate (Suc n) CHR ''x''\<rparr>"

lemma chunk_read_reach: "svreach cfg (chunk_state n) \<Longrightarrow> svreach cfg (chunk_read n)"
proof -
  assume r: "svreach cfg (chunk_state n)"
  have m: "int (length ''x'') \<le> pump_max cfg" by (simp add: pump_max_def DefaultPTYFrameMaxBytes_def)
  have "spump (chunk_state n) = SpRead" by (simp add: chunk_state_def serve_start_def)
  from svreach.step [OF r svstep.out_read [OF this m refl, of None]] show ?thesis
    by (simp add: chunk_read_def chunk_state_def read_events_def replicate_append_same [symmetric])
qed

lemma chunk_state_reach: "n \<le> chan_cap \<Longrightarrow> svreach cfg (chunk_state n)"
proof (induction n)
  case 0
  have "chunk_state 0 = serve_start" by (simp add: chunk_state_def serve_start_def)
  then show ?case by (simp add: svreach.init)
next
  case (Suc n)
  then have r: "svreach cfg (chunk_read n)" by (intro chunk_read_reach) simp
  have "spump (chunk_read n) = SpSend [EvData ''x'']" "length (stdoutCh (chunk_read n)) < chan_cap"
    using Suc.prems by (simp_all add: chunk_read_def chunk_state_def)
  from svreach.step [OF r svstep.out_send [OF this]] show ?case
    by (simp add: chunk_read_def chunk_state_def serve_start_def replicate_append_same)
qed

text \<open>A client frame that is refused while the process is writing leaves a goroutine behind for ever: the call
  returns, the process has exited, but the pump of its output stays blocked on the full channel that nobody reads.\<close>

theorem refused_frame_leaks_pump:
  "\<exists>s. svreach cfg s \<and> sv_main s = MReturned None \<and> sv_host s \<noteq> None \<and> {s'. (svstep cfg)\<^sup>*\<^sup>* s s'} \<subseteq> {s'. spump s' = SpSend [EvData ''x'']}"
proof -
  let ?x = "(zero_exit, None)" and ?io = "\<lparr>io_send = None, io_limit = None, io_write = None, io_resize = None\<rparr>"
  let ?s0 = "chunk_read chan_cap"
  let ?s1 = "?s0\<lparr>cpump := CpSend (EvFrame None), sv_in := [None]\<rparr>"
  let ?s2 = "?s1\<lparr>clientCh := [EvFrame None], cpump := CpRecv\<rparr>"
  let ?s3 = "handleClientEvent cfg ?io (Some (EvFrame None)) (?s2\<lparr>clientCh := []\<rparr>)"
  let ?s4 = "?s3\<lparr>sv_host := Some ?x\<rparr>"
  let ?s5 = "loop_result (rt_sendApplicationError None KIND_PROTOCOL ErrFirstFrameAttach ?s4)"
  note d = chunk_read_def chunk_state_def serve_start_def newAttachRuntime_def readyToExit_def chan_cap_def
  have h: "?s3 = (rt_shutdown (?s2\<lparr>clientCh := []\<rparr>))\<lparr>sv_main := MWaitHost KIND_PROTOCOL ErrFirstFrameAttach\<rparr>"
    by (simp add: handleClientEvent_def handleClientFrame_def GetStdin_def GetResize_def GetDetach_def)
  have "svreach cfg ?s0" by (intro chunk_read_reach chunk_state_reach) simp
  from svreach.step [OF this svstep.in_recv [where s = ?s0 and f = None]] have "svreach cfg ?s1" by (simp add: d)
  from svreach.step [OF this svstep.in_send [where s = ?s1 and ev = "EvFrame None"]] have "svreach cfg ?s2" by (simp add: d)
  from svreach.step [OF this svstep.main_client [where s = ?s2 and cev = "EvFrame None" and cevs = "[]" and io = ?io]] have "svreach cfg ?s3" by (simp add: d)
  from svreach.step [OF this svstep.host_exit [where s = ?s3 and x = ?x]] have "svreach cfg ?s4" unfolding h by (simp add: d)
  from svreach.step [OF this svstep.main_waited [where s = ?s4 and kind = KIND_PROTOCOL and e = ErrFirstFrameAttach and sendErr = None]] have r: "svreach cfg ?s5"
    unfolding h by (simp add: d)
  have e: "sv_main ?s5 = MReturned None" "sv_host ?s5 \<noteq> None" "pump_stuck ?s5"
    unfolding h by (simp_all add: d pump_stuck_def loop_result_def rt_sendApplicationError_def applicationError_def sendApplicationError_def
      normalizeApplicationStop_def)
  then show ?thesis using r pump_stuck_steps [of cfg ?s5] by (intro exI [of _ ?s5]) (auto simp: pump_stuck_def)
qed

text \<open>A session that prints two characters and exits with status 3, when its output was read and when it is served.\<close>

definition demo_read :: serving where
  "demo_read = serve_start\<lparr>stdoutCh := [EvData ''hi'', EvErr IoEOF], stdoutChClosed := True, spump := SpDone, sv_out := ''hi'',
     sv_host := Some (\<lparr>xi_code = 3, xi_signal = 0\<rparr>, None)\<rparr>"

definition demo_end :: serving where
  "demo_end = demo_read\<lparr>stdoutCh := [], stdoutNil := True, waiter_done := True, sv_frames := [SfStdout ''hi'', SfExited \<lparr>xi_code = 3, xi_signal = 0\<rparr>],
     rt := newAttachRuntime\<lparr>stdoutClosed := True, hostExited := True, exitInfo := \<lparr>xi_code = 3, xi_signal = 0\<rparr>\<rparr>, sv_main := MReturned None\<rparr>"

lemmas demo_serve_defs = demo_read_def demo_end_def serve_start_def newAttachRuntime_def readyToExit_def chan_cap_def read_events_def

lemma demo_read_reach: "svreach demo_svc demo_read"
proof -
  let ?s1 = "serve_start\<lparr>spump := SpSend [EvData ''hi'', EvErr IoEOF], sv_out := ''hi''\<rparr>"
  let ?s2 = "?s1\<lparr>stdoutCh := [EvData ''hi''], spump := SpSend [EvErr IoEOF]\<rparr>"
  let ?s3 = "?s2\<lparr>stdoutCh := [EvData ''hi'', EvErr IoEOF], spump := SpClose\<rparr>"
  let ?s4 = "?s3\<lparr>stdoutChClosed := True, spump := SpDone\<rparr>"
  note d = demo_serve_defs
  have m: "int (length ''hi'') \<le> pump_max demo_svc" by (simp add: pump_max_def demo_svc_def DefaultPTYFrameMaxBytes_def)
  from svreach.step [OF svreach.init svstep.out_read [where d = "''hi''" and err = "Some IoEOF", OF _ _ refl]] m
  have "svreach demo_svc ?s1" by (simp add: d)
  from svreach.step [OF this svstep.out_send [where s = ?s1]] have "svreach demo_svc ?s2" by (simp add: d)
  from svreach.step [OF this svstep.out_send [where s = ?s2]] have "svreach demo_svc ?s3" by (simp add: d)
  from svreach.step [OF this svstep.out_close [where s = ?s3]] have "svreach demo_svc ?s4" by (simp add: d)
  from svreach.step [OF this svstep.host_exit [where s = ?s4 and x = "(\<lparr>xi_code = 3, xi_signal = 0\<rparr>, None)"]] show ?thesis by (simp add: d)
qed

lemma demo_end_reach: "svreach demo_svc demo_end"
proof -
  let ?x = "(\<lparr>xi_code = 3, xi_signal = 0\<rparr>, None) :: exit_info \<times> string option" and ?io = "\<lparr>io_send = None, io_limit = None, io_write = None, io_resize = None\<rparr>"
  let ?s1 = "demo_read\<lparr>exitCh := [?x], waiter_done := True\<rparr>"
  let ?s2 = "?s1\<lparr>stdoutCh := [EvErr IoEOF], sv_frames := [SfStdout ''hi'']\<rparr>"
  let ?s3 = "?s2\<lparr>stdoutCh := [], stdoutNil := True, rt := newAttachRuntime\<lparr>stdoutClosed := True\<rparr>\<rparr>"
  let ?s4 = "?s3\<lparr>exitCh := [], rt := newAttachRuntime\<lparr>stdoutClosed := True, hostExited := True, exitInfo := fst ?x\<rparr>\<rparr>"
  note d = demo_serve_defs handleStdoutEvent_def handleStdoutError_def handleExitEvent_def rt_finish_def
  from svreach.step [OF demo_read_reach svstep.wait_host [where s = demo_read and x = ?x]] have "svreach demo_svc ?s1" by (simp add: d)
  from svreach.step [OF this svstep.main_stdout [where s = ?s1 and ev = "EvData ''hi''" and evs = "[EvErr IoEOF]" and io = ?io]]
  have "svreach demo_svc ?s2" by (simp add: d)
  from svreach.step [OF this svstep.main_stdout [where s = ?s2 and ev = "EvErr IoEOF" and evs = "[]" and io = ?io]]
  have "svreach demo_svc ?s3" by (simp add: d)
  from svreach.step [OF this svstep.main_exit [where s = ?s3 and x = ?x and xs = "[]" and io = ?io]] have "svreach demo_svc ?s4" by (simp add: d)
  from svreach.step [OF this svstep.main_ready [where s = ?s4 and sendErr = None]] show ?thesis by (simp add: d)
qed

theorem terminal_stream_faithful_witness:
  "sv_frames demo_end = [SfStdout ''hi'', SfExited \<lparr>xi_code = 3, xi_signal = 0\<rparr>] \<and> sv_shutdowns demo_end \<le> 1"
  using terminal_stream_faithful [OF demo_end_reach] by (simp add: demo_end_def)

theorem attached_call_returns_witness: "\<exists>s' r. (svstep demo_svc)\<^sup>*\<^sup>* demo_read s' \<and> sv_main s' = MReturned r"
  by (rule attached_call_returns [OF demo_read_reach]) (simp_all add: demo_read_def)

end
