(* ===== verification/Pty_Client.thy ===== *)
theory Pty_Client
  imports Pty_Proto "HOL-Library.Sublist"
begin

text \<open>
  The terminal client, \<open>src/pkg/ptyclient/client.go\<close>: the send loop, the handshake, the pumps of the input and of the window
  sizes, and the receive loop, as a step relation with the server on the other side of the stream. The server's frames
  arrive in \<open>cl_inbox\<close> and are received in order; sending and reading fail as they like. \<open>cl_stdin\<close>, \<open>cl_got\<close> and
  \<open>cl_sent\<close> record what was read from the terminal, received and sent.
\<close>

section \<open>Definitions\<close>

text \<open>Errors of the stream and of the terminal: a gRPC status, the end of the stream, or another text.\<close>

datatype rpc_err = RpcStatus nat string | RpcEOF | RpcClosedPipe | RpcCanceled | RpcOther string

datatype cl_err =
  ErrNilStream | ErrFirstFrameNotAttached | ErrStreamClosedUnexpectedly | ErrUnexpectedFrame | ErrCanceled | ErrIO rpc_err

record exit_result =
  er_code :: int
  er_signal :: nat
  er_server :: "(error_kind \<times> string) option"
  er_err :: "cl_err option"

definition zero_result :: exit_result where
  "zero_result = \<lparr>er_code = 0, er_signal = 0, er_server = None, er_err = None\<rparr>"

definition defaultStdinChunk :: int where "defaultStdinChunk = 64 * 1024"

record attach_params =
  pa_session_id :: string
  pa_size :: window_size
  pa_term :: string
  pa_agent :: string

record client_config =
  ccf_stream :: bool
  ccf_resizes :: bool
  ccf_attach :: attach_params
  ccf_frame_max :: int

definition client_New :: "client_config \<Rightarrow> client_config" where
  "client_New cfg = (if ccf_frame_max cfg \<le> 0 then cfg\<lparr>ccf_frame_max := defaultStdinChunk\<rparr> else cfg)"

definition attachFrame :: "attach_params \<Rightarrow> client_payload" where
  "attachFrame p = CfAttach (Some \<lparr>at_session_id = pa_session_id p, at_size = Some (pa_size p), at_term = pa_term p, at_agent = pa_agent p\<rparr>)"

definition normalizeReadErr :: "rpc_err \<Rightarrow> cl_err option" where
  "normalizeReadErr e = (if e \<in> {RpcEOF, RpcClosedPipe, RpcCanceled} then None else Some (ErrIO e))"

text \<open>Where the goroutines stand. The main one is in the handshake, waits for the others with the error it will return,
  or has returned.\<close>

datatype cmain_pc = CmEnqueue | CmAck | CmRecv | CmAbort exit_result | CmWait | CmReturned exit_result
datatype csend_pc = CsLoop | CsDone
datatype cstdin_pc = CiOff | CiCheck | CiRead | CiPush bytes "rpc_err option" | CiDone
datatype cresize_pc = CzOff | CzSelect | CzPush window_size | CzDone
datatype crecv_pc = CrOff | CrRecv | CrCheck | CrDone

record client =
  cl_main :: cmain_pc
  cl_send :: csend_pc
  cl_in :: cstdin_pc
  cl_size :: cresize_pc
  cl_recv :: crecv_pc
  cl_ctx :: bool
  cl_group :: "cl_err option"
  outbound :: "(client_payload \<times> bool) list"
  cl_ack :: "rpc_err option option"
  cl_result :: exit_result
  cl_attached :: bool
  cl_inbox :: "string server_frame list"
  cl_sent :: "client_payload list"
  cl_stdin :: bytes
  cl_stdout :: bytes
  cl_got :: "string server_frame list"

definition client_start :: client where
  "client_start = \<lparr>cl_main = CmEnqueue, cl_send = CsLoop, cl_in = CiOff, cl_size = CzOff, cl_recv = CrOff, cl_ctx = False, cl_group = None,
     outbound = [], cl_ack = None, cl_result = zero_result, cl_attached = False, cl_inbox = [], cl_sent = [], cl_stdin = [],
     cl_stdout = [], cl_got = []\<rparr>"

definition outbound_cap :: nat where "outbound_cap = 16"

text \<open>A goroutine of the group returns: its first error is kept and cancels the context.\<close>

definition group_return :: "cl_err option \<Rightarrow> client \<Rightarrow> client" where
  "group_return e s =
     (case e of
        None \<Rightarrow> s
      | Some x \<Rightarrow> s\<lparr>cl_group := (if cl_group s = None then Some x else cl_group s), cl_ctx := True\<rparr>)"

definition buildExitResult :: "exit_result \<Rightarrow> cl_err option \<Rightarrow> exit_result" where
  "buildExitResult r err =
     (if er_server r = None \<and> er_code r = 0 \<and> er_signal r = 0 \<and> err \<noteq> None then r\<lparr>er_err := err\<rparr> else r)"

text \<open>What follows the first frame.\<close>

definition first_frame :: "string server_frame \<Rightarrow> client \<Rightarrow> client" where
  "first_frame f s =
     (case f of
        SfError k m \<Rightarrow> s\<lparr>cl_main := CmAbort (zero_result\<lparr>er_server := Some (k, m)\<rparr>), cl_ctx := True\<rparr>
      | SfAttached _ \<Rightarrow> s\<lparr>cl_main := CmWait, cl_in := CiCheck, cl_size := CzSelect, cl_recv := CrRecv, cl_attached := True\<rparr>
      | _ \<Rightarrow> s\<lparr>cl_main := CmAbort (zero_result\<lparr>er_err := Some ErrFirstFrameNotAttached\<rparr>), cl_ctx := True\<rparr>)"

text \<open>\<open>handleServerFrame\<close>: whether the loop is done, and an error; \<open>werr\<close> is the outcome of writing to the terminal.\<close>

definition handleServerFrame :: "rpc_err option \<Rightarrow> string server_frame \<Rightarrow> client \<Rightarrow> client \<times> bool \<times> cl_err option" where
  "handleServerFrame werr f s =
     (case f of
        SfStdout d \<Rightarrow> (case werr of None \<Rightarrow> (s\<lparr>cl_stdout := cl_stdout s @ d\<rparr>, False, None) | Some e \<Rightarrow> (s, False, Some (ErrIO e)))
      | SfExited info \<Rightarrow> (s\<lparr>cl_result := (cl_result s)\<lparr>er_code := xi_code info, er_signal := xi_signal info\<rparr>\<rparr>, True, None)
      | SfError k m \<Rightarrow> (s\<lparr>cl_result := (cl_result s)\<lparr>er_server := Some (k, m)\<rparr>\<rparr>, True, None)
      | _ \<Rightarrow> (s, False, Some ErrUnexpectedFrame))"

text \<open>The receive loop ends: it closes the input and cancels the context.\<close>

definition recv_return :: "cl_err option \<Rightarrow> client \<Rightarrow> client" where
  "recv_return e s = (group_return e s)\<lparr>cl_recv := CrDone, cl_ctx := True\<rparr>"

definition recv_frame :: "rpc_err option \<Rightarrow> string server_frame \<Rightarrow> client \<Rightarrow> client" where
  "recv_frame werr f s =
     (case handleServerFrame werr f s of
        (s1, finished, e) \<Rightarrow> if e \<noteq> None \<or> finished then recv_return e s1 else s1\<lparr>cl_recv := CrCheck\<rparr>)"

abbreviation "push f ack s \<equiv> s\<lparr>outbound := outbound s @ [(f, ack)]\<rparr>"
abbreviation "has_room s \<equiv> length (outbound s) < outbound_cap"

inductive clstep :: "client_config \<Rightarrow> client \<Rightarrow> client \<Rightarrow> bool" for cfg :: client_config where
  cancel: "clstep cfg s (s\<lparr>cl_ctx := True\<rparr>)"
| server_sends: "clstep cfg s (s\<lparr>cl_inbox := cl_inbox s @ [f]\<rparr>)"
| send_done: "cl_send s = CsLoop \<Longrightarrow> cl_ctx s \<Longrightarrow> clstep cfg s (s\<lparr>cl_send := CsDone\<rparr>)"
| send_ok: "cl_send s = CsLoop \<Longrightarrow> outbound s = (f, ack) # rest \<Longrightarrow>
     clstep cfg s (s\<lparr>outbound := rest, cl_sent := cl_sent s @ [f], cl_ack := (if ack then Some None else cl_ack s)\<rparr>)"
| send_fail: "cl_send s = CsLoop \<Longrightarrow> outbound s = (f, ack) # rest \<Longrightarrow>
     clstep cfg s ((group_return (Some (ErrIO e)) s)\<lparr>outbound := rest, cl_ack := (if ack then Some (Some e) else cl_ack s),
       cl_send := CsDone, cl_ctx := True\<rparr>)"
| attach_push: "cl_main s = CmEnqueue \<Longrightarrow> has_room s \<Longrightarrow> clstep cfg s ((push (attachFrame (ccf_attach cfg)) True s)\<lparr>cl_main := CmAck\<rparr>)"
| attach_acked: "cl_main s = CmAck \<Longrightarrow> cl_ack s = Some None \<Longrightarrow> clstep cfg s (s\<lparr>cl_main := CmRecv\<rparr>)"
| attach_failed: "cl_main s = CmAck \<Longrightarrow> cl_ack s = Some (Some e) \<Longrightarrow>
     clstep cfg s (s\<lparr>cl_main := CmAbort (zero_result\<lparr>er_err := Some (ErrIO e)\<rparr>), cl_ctx := True\<rparr>)"
| attach_canceled: "cl_main s \<in> {CmEnqueue, CmAck, CmRecv} \<Longrightarrow> cl_ctx s \<Longrightarrow>
     clstep cfg s (s\<lparr>cl_main := CmAbort (zero_result\<lparr>er_err := Some ErrCanceled\<rparr>)\<rparr>)"
| first_recv: "cl_main s = CmRecv \<Longrightarrow> cl_inbox s = f # rest \<Longrightarrow> clstep cfg s (first_frame f (s\<lparr>cl_inbox := rest\<rparr>))"
| first_fail: "cl_main s = CmRecv \<Longrightarrow> clstep cfg s (s\<lparr>cl_main := CmAbort (zero_result\<lparr>er_err := Some (ErrIO e)\<rparr>), cl_ctx := True\<rparr>)"
| abort: "cl_main s = CmAbort r \<Longrightarrow> cl_send s = CsDone \<Longrightarrow> clstep cfg s (s\<lparr>cl_main := CmReturned r\<rparr>)"
| in_stop: "cl_in s = CiCheck \<Longrightarrow> cl_ctx s \<Longrightarrow> clstep cfg s (s\<lparr>cl_in := CiDone\<rparr>)"
| in_go: "cl_in s = CiCheck \<Longrightarrow> \<not> cl_ctx s \<Longrightarrow> clstep cfg s (s\<lparr>cl_in := CiRead\<rparr>)"
| in_read: "cl_in s = CiRead \<Longrightarrow> int (length d) \<le> ccf_frame_max cfg \<Longrightarrow> clstep cfg s (s\<lparr>cl_in := CiPush d err, cl_stdin := cl_stdin s @ d\<rparr>)"
| in_push: "cl_in s = CiPush d err \<Longrightarrow> d = [] \<or> has_room s \<Longrightarrow> s1 = (if d = [] then s else push (CfStdin (Some d)) False s) \<Longrightarrow>
     clstep cfg s (case err of None \<Rightarrow> s1\<lparr>cl_in := CiCheck\<rparr> | Some e \<Rightarrow> (group_return (normalizeReadErr e) s1)\<lparr>cl_in := CiDone\<rparr>)"
| in_cancel: "cl_in s = CiPush d err \<Longrightarrow> d \<noteq> [] \<Longrightarrow> cl_ctx s \<Longrightarrow> clstep cfg s ((group_return (Some ErrCanceled) s)\<lparr>cl_in := CiDone\<rparr>)"
| size_stop: "cl_size s = CzSelect \<Longrightarrow> cl_ctx s \<or> ccf_resizes cfg \<Longrightarrow> clstep cfg s (s\<lparr>cl_size := CzDone\<rparr>)"
| size_event: "cl_size s = CzSelect \<Longrightarrow> ccf_resizes cfg \<Longrightarrow> clstep cfg s (s\<lparr>cl_size := CzPush w\<rparr>)"
| size_push: "cl_size s = CzPush w \<Longrightarrow> has_room s \<Longrightarrow> clstep cfg s ((push (CfResize (Some w)) False s)\<lparr>cl_size := CzSelect\<rparr>)"
| size_cancel: "cl_size s = CzPush w \<Longrightarrow> cl_ctx s \<Longrightarrow> clstep cfg s ((group_return (Some ErrCanceled) s)\<lparr>cl_size := CzDone\<rparr>)"
| recv_ok: "cl_recv s = CrRecv \<Longrightarrow> cl_inbox s = f # rest \<Longrightarrow> clstep cfg s (recv_frame werr f (s\<lparr>cl_inbox := rest, cl_got := cl_got s @ [f]\<rparr>))"
| recv_eof: "cl_recv s = CrRecv \<Longrightarrow> cl_inbox s = [] \<Longrightarrow> clstep cfg s (recv_return (Some ErrStreamClosedUnexpectedly) s)"
| recv_fail: "cl_recv s = CrRecv \<Longrightarrow> e \<noteq> RpcEOF \<Longrightarrow> clstep cfg s (recv_return (Some (ErrIO e)) s)"
| recv_stop: "cl_recv s = CrCheck \<Longrightarrow> cl_ctx s \<Longrightarrow> clstep cfg s (recv_return None s)"
| recv_go: "cl_recv s = CrCheck \<Longrightarrow> \<not> cl_ctx s \<Longrightarrow> clstep cfg s (s\<lparr>cl_recv := CrRecv\<rparr>)"
| finish: "cl_main s = CmWait \<Longrightarrow> cl_send s = CsDone \<Longrightarrow> cl_in s = CiDone \<Longrightarrow> cl_size s = CzDone \<Longrightarrow> cl_recv s = CrDone \<Longrightarrow>
     clstep cfg s (s\<lparr>cl_main := CmReturned (buildExitResult (cl_result s) (cl_group s))\<rparr>)"

text \<open>\<open>Run\<close> without a stream fails at once; otherwise it starts the send loop.\<close>

inductive clreach :: "client_config \<Rightarrow> client \<Rightarrow> bool" for cfg :: client_config where
  nil_stream: "\<not> ccf_stream cfg \<Longrightarrow> clreach cfg (client_start\<lparr>cl_main := CmReturned (zero_result\<lparr>er_err := Some ErrNilStream\<rparr>), cl_send := CsDone\<rparr>)"
| init: "ccf_stream cfg \<Longrightarrow> clreach cfg client_start"
| step: "clreach cfg s \<Longrightarrow> clstep cfg s s' \<Longrightarrow> clreach cfg s'"


section \<open>What the client sends\<close>

definition stdin_of :: "client_payload \<Rightarrow> bytes" where
  "stdin_of f = (case f of CfStdin (Some d) \<Rightarrow> d | _ \<Rightarrow> [])"

abbreviation "typed fs \<equiv> concat (map stdin_of fs)"

definition in_frame_ok :: "client_config \<Rightarrow> client_payload \<Rightarrow> bool" where
  "in_frame_ok cfg f =
     (case f of
        CfStdin (Some d) \<Rightarrow> d \<noteq> [] \<and> int (length d) \<le> ccf_frame_max cfg
      | CfResize (Some w) \<Rightarrow> ccf_resizes cfg
      | _ \<Rightarrow> False)"

text \<open>A well-formed conversation: the attach request first, then only input and window sizes, and nothing but the request
  before the server has attached.\<close>

definition conversation :: "client_config \<Rightarrow> bool \<Rightarrow> client_payload list \<Rightarrow> bool" where
  "conversation cfg attached fs =
     (case fs of [] \<Rightarrow> \<not> attached | f # rest \<Rightarrow> f = attachFrame (ccf_attach cfg) \<and> list_all (in_frame_ok cfg) rest \<and> (attached \<or> rest = []))"

definition pending_in :: "cstdin_pc \<Rightarrow> bytes" where
  "pending_in p = (case p of CiPush d _ \<Rightarrow> d | _ \<Rightarrow> [])"

abbreviation "queued s \<equiv> cl_sent s @ map fst (outbound s)"

definition pumps_inv :: "client_config \<Rightarrow> client \<Rightarrow> bool" where
  "pumps_inv cfg s =
     ((\<not> cl_attached s \<longrightarrow> cl_in s = CiOff \<and> cl_size s = CzOff \<and> cl_stdin s = []) \<and>
      (cl_main s = CmEnqueue \<longrightarrow> queued s = []) \<and>
      (cl_main s \<in> {CmEnqueue, CmAck, CmRecv} \<longrightarrow> \<not> cl_attached s) \<and>
      (cl_ack s = Some None \<or> cl_main s = CmRecv \<or> cl_attached s \<longrightarrow> cl_sent s \<noteq> []) \<and>
      (case cl_in s of CiPush d _ \<Rightarrow> int (length d) \<le> ccf_frame_max cfg | _ \<Rightarrow> True) \<and>
      (case cl_size s of CzPush w \<Rightarrow> ccf_resizes cfg | _ \<Rightarrow> True))"

definition send_inv :: "client_config \<Rightarrow> client \<Rightarrow> bool" where
  "send_inv cfg s =
     (conversation cfg (cl_attached s) (cl_sent s) \<and> prefix (typed (cl_sent s)) (cl_stdin s) \<and>
      (cl_send s = CsLoop \<longrightarrow>
         (queued s = [] \<or> conversation cfg (cl_attached s) (queued s)) \<and>
         prefix (typed (queued s) @ pending_in (cl_in s)) (cl_stdin s) \<and>
         (cl_in s \<noteq> CiDone \<longrightarrow> typed (queued s) @ pending_in (cl_in s) = cl_stdin s)))"

lemmas client_updates = group_return_def first_frame_def recv_frame_def recv_return_def handleServerFrame_def

lemma group_return_fields [simp]:
  "cl_main (group_return e s) = cl_main s" "cl_send (group_return e s) = cl_send s" "cl_in (group_return e s) = cl_in s"
  "cl_size (group_return e s) = cl_size s" "cl_recv (group_return e s) = cl_recv s" "outbound (group_return e s) = outbound s"
  "cl_ack (group_return e s) = cl_ack s" "cl_result (group_return e s) = cl_result s" "cl_attached (group_return e s) = cl_attached s"
  "cl_inbox (group_return e s) = cl_inbox s" "cl_sent (group_return e s) = cl_sent s" "cl_stdin (group_return e s) = cl_stdin s"
  "cl_stdout (group_return e s) = cl_stdout s" "cl_got (group_return e s) = cl_got s"
  by (simp_all add: group_return_def split: option.split)

lemma recv_frame_fields [simp]:
  "cl_main (recv_frame w f s) = cl_main s" "cl_send (recv_frame w f s) = cl_send s" "cl_in (recv_frame w f s) = cl_in s"
  "cl_size (recv_frame w f s) = cl_size s" "outbound (recv_frame w f s) = outbound s" "cl_ack (recv_frame w f s) = cl_ack s"
  "cl_attached (recv_frame w f s) = cl_attached s" "cl_inbox (recv_frame w f s) = cl_inbox s" "cl_sent (recv_frame w f s) = cl_sent s"
  "cl_stdin (recv_frame w f s) = cl_stdin s" "cl_got (recv_frame w f s) = cl_got s"
  by (simp_all add: recv_frame_def recv_return_def handleServerFrame_def split: server_frame.split option.split)

lemma recv_return_fields [simp]:
  "cl_main (recv_return e s) = cl_main s" "cl_send (recv_return e s) = cl_send s" "cl_in (recv_return e s) = cl_in s"
  "cl_size (recv_return e s) = cl_size s" "outbound (recv_return e s) = outbound s" "cl_ack (recv_return e s) = cl_ack s"
  "cl_attached (recv_return e s) = cl_attached s" "cl_inbox (recv_return e s) = cl_inbox s" "cl_sent (recv_return e s) = cl_sent s"
  "cl_stdin (recv_return e s) = cl_stdin s" "cl_got (recv_return e s) = cl_got s" "cl_stdout (recv_return e s) = cl_stdout s"
  "cl_result (recv_return e s) = cl_result s" "cl_recv (recv_return e s) = CrDone"
  by (simp_all add: recv_return_def)

lemma pumps_inv_step:
  assumes "clstep cfg s s'" "pumps_inv cfg s"
  shows "pumps_inv cfg s'"
  using assms
  by (cases rule: clstep.cases) (auto simp: pumps_inv_def first_frame_def split: option.split server_frame.split)

lemma pumps_inv_reach: "clreach cfg s \<Longrightarrow> pumps_inv cfg s"
  by (induction rule: clreach.induct) (auto simp: pumps_inv_step, auto simp: pumps_inv_def client_start_def)

lemma conversation_snoc:
  "fs \<noteq> [] \<Longrightarrow> conversation cfg True (fs @ [f]) = (conversation cfg True fs \<and> in_frame_ok cfg f)"
  by (cases fs) (auto simp: conversation_def)

lemma conversation_take:
  "conversation cfg a (fs @ gs) \<Longrightarrow> fs \<noteq> [] \<Longrightarrow> conversation cfg a fs"
  by (cases fs) (auto simp: conversation_def)

lemma send_inv_step:
  assumes "clstep cfg s s'" "pumps_inv cfg s" "send_inv cfg s"
  shows "send_inv cfg s'"
  using assms
proof (cases rule: clstep.cases)
  case (send_ok f ack rest)
  then show ?thesis
    using assms(3) conversation_take [of cfg "cl_attached s" "cl_sent s @ [f]" "map fst rest"]
      append_prefixD [of "typed (cl_sent s) @ stdin_of f" "concat (map (stdin_of \<circ> fst) rest) @ pending_in (cl_in s)" "cl_stdin s"]
    by (auto simp: send_inv_def)
next
  case attach_push
  then show ?thesis
    using assms(2,3) by (auto simp: send_inv_def pumps_inv_def conversation_def stdin_of_def attachFrame_def pending_in_def)
next
  case (first_recv f rest)
  then show ?thesis
    using assms(2,3) by (cases f; cases "cl_sent s") (auto simp: send_inv_def pumps_inv_def conversation_def first_frame_def pending_in_def)
next
  case (in_read d err)
  then show ?thesis
    using assms(2,3) by (auto simp: send_inv_def pending_in_def)
next
  case (in_push d err s1)
  have att: "cl_attached s" "cl_sent s \<noteq> []" and len: "int (length d) \<le> ccf_frame_max cfg"
    using assms(2) in_push(2) by (auto simp: pumps_inv_def)
  have "send_inv cfg (s1\<lparr>cl_in := CiCheck\<rparr>) \<and> send_inv cfg (s1\<lparr>cl_in := CiDone\<rparr>)"
  proof (cases "d = []")
    case True
    then show ?thesis
      using assms(3) in_push by (auto simp: send_inv_def pending_in_def)
  next
    case False
    then have "in_frame_ok cfg (CfStdin (Some d))" "stdin_of (CfStdin (Some d)) = d"
      using len by (simp_all add: in_frame_ok_def stdin_of_def)
    then show ?thesis
      using assms(3) in_push att False
        conversation_snoc [of "queued s" cfg "CfStdin (Some d)"] by (auto simp: send_inv_def pending_in_def)
  qed
  then show ?thesis
    unfolding in_push(1) by (auto simp: send_inv_def split: option.split)
next
  case (in_cancel d err)
  then show ?thesis
    using assms(3) append_prefixD [of "typed (queued s)" d "cl_stdin s"] by (auto simp: send_inv_def pending_in_def)
next
  case (size_push w)
  then show ?thesis
    using assms(2,3) by (auto simp: send_inv_def pumps_inv_def in_frame_ok_def stdin_of_def conversation_snoc append_assoc [symmetric] simp del: append_assoc)
qed (auto simp: send_inv_def pending_in_def)

lemma send_inv_reach: "clreach cfg s \<Longrightarrow> send_inv cfg s"
  by (induction rule: clreach.induct)
    (auto simp: send_inv_step pumps_inv_reach, auto simp: send_inv_def client_start_def conversation_def pending_in_def)

section \<open>What the client receives\<close>

definition out_of :: "string server_frame \<Rightarrow> bytes" where
  "out_of f = (case f of SfStdout d \<Rightarrow> d | _ \<Rightarrow> [])"

definition final_of :: "string server_frame \<Rightarrow> exit_result" where
  "final_of f =
     (case f of
        SfExited info \<Rightarrow> zero_result\<lparr>er_code := xi_code info, er_signal := xi_signal info\<rparr>
      | SfError k m \<Rightarrow> zero_result\<lparr>er_server := Some (k, m)\<rparr>
      | _ \<Rightarrow> zero_result)"

text \<open>The frames received are output, all of it written to the terminal, and at most one more at the end, which decides
  the result or is an error of the group.\<close>

definition recv_inv :: "client \<Rightarrow> bool" where
  "recv_inv s =
     (\<exists>ds tail. cl_got s = map SfStdout ds @ tail \<and> cl_stdout s = concat ds \<and>
        (cl_recv s = CrOff \<longrightarrow> ds = []) \<and> (cl_recv s \<noteq> CrDone \<longrightarrow> tail = []) \<and>
        (tail = [] \<and> cl_result s = zero_result \<or>
         (\<exists>f. tail = [f] \<and> cl_result s = final_of f \<and> (cl_group s \<noteq> None \<or> (\<exists>info. f = SfExited info) \<or> (\<exists>k m. f = SfError k m)))))"

definition main_inv :: "client \<Rightarrow> bool" where
  "main_inv s =
     ((cl_attached s \<longrightarrow> cl_main s = CmWait \<or> (\<exists>r. cl_main s = CmReturned r)) \<and>
      (\<not> cl_attached s \<longrightarrow> cl_recv s = CrOff \<and> cl_main s \<noteq> CmWait) \<and>
      (\<forall>r. cl_main s = CmReturned r \<longrightarrow> cl_send s = CsDone \<and>
         (cl_attached s \<longrightarrow> cl_recv s = CrDone \<and> cl_in s = CiDone \<and> cl_size s = CzDone \<and> r = buildExitResult (cl_result s) (cl_group s))))"

lemma recv_inv_update [simp]:
  "recv_inv (s\<lparr>cl_main := m\<rparr>) = recv_inv s" "recv_inv (s\<lparr>cl_send := p\<rparr>) = recv_inv s" "recv_inv (s\<lparr>cl_in := i\<rparr>) = recv_inv s"
  "recv_inv (s\<lparr>cl_size := z\<rparr>) = recv_inv s" "recv_inv (s\<lparr>cl_ctx := c\<rparr>) = recv_inv s" "recv_inv (s\<lparr>outbound := q\<rparr>) = recv_inv s"
  "recv_inv (s\<lparr>cl_ack := a\<rparr>) = recv_inv s" "recv_inv (s\<lparr>cl_inbox := ib\<rparr>) = recv_inv s" "recv_inv (s\<lparr>cl_sent := fs\<rparr>) = recv_inv s"
  "recv_inv (s\<lparr>cl_stdin := d\<rparr>) = recv_inv s"
  by (simp_all add: recv_inv_def)

lemma group_return_keeps: "cl_group s \<noteq> None \<Longrightarrow> cl_group (group_return e s) \<noteq> None"
  by (simp add: group_return_def split: option.split)

lemma recv_inv_group: "recv_inv s \<Longrightarrow> recv_inv (group_return e s)"
  unfolding recv_inv_def group_return_fields
  apply (elim exE)
  subgoal for ds tail
    by (intro exI [of _ ds] exI [of _ tail]) (use group_return_keeps [of s e] in blast)
  done

lemma recv_inv_done:
  assumes "recv_inv s" "cl_recv s \<noteq> CrDone"
  shows "recv_inv (recv_return e s)"
proof -
  obtain ds where "cl_got s = map SfStdout ds" "cl_stdout s = concat ds" "cl_result s = zero_result"
    using assms by (auto simp: recv_inv_def)
  then show ?thesis
    unfolding recv_inv_def by (intro exI [of _ ds] exI [of _ "[]"]) simp
qed

lemma recv_frame_inv:
  assumes "recv_inv s" "cl_recv s = CrRecv"
  shows "recv_inv (recv_frame w f (s\<lparr>cl_inbox := rest, cl_got := cl_got s @ [f]\<rparr>))"
proof -
  obtain ds where ds: "cl_got s = map SfStdout ds" "cl_stdout s = concat ds" "cl_result s = zero_result"
    using assms by (auto simp: recv_inv_def)
  show ?thesis
  proof (cases "\<exists>d. f = SfStdout d \<and> w = None")
    case True
    then obtain d where "f = SfStdout d" "w = None" by blast
    then show ?thesis
      unfolding recv_inv_def using ds
      by (intro exI [of _ "ds @ [d]"] exI [of _ "[]"]) (simp add: recv_frame_def handleServerFrame_def)
  next
    case False
    then show ?thesis
      unfolding recv_inv_def using ds
      by (intro exI [of _ ds] exI [of _ "[f]"])
        (auto simp: recv_frame_def recv_return_def handleServerFrame_def group_return_def final_of_def zero_result_def
          split: server_frame.split option.split)
  qed
qed

lemma recv_inv_step:
  assumes "clstep cfg s s'" "main_inv s" "recv_inv s"
  shows "recv_inv s'"
  using assms
proof (cases rule: clstep.cases)
  case (first_recv f rest)
  then show ?thesis
    using assms by (cases f) (auto simp: first_frame_def main_inv_def recv_inv_def)
next
  case (in_push d err s1)
  then show ?thesis
    using assms(3) by (cases err) (auto intro: recv_inv_group)
next
  case recv_go
  then show ?thesis
    using assms(3) by (simp add: recv_inv_def)
qed (auto intro: recv_inv_group recv_inv_done recv_frame_inv)

lemma main_inv_step:
  assumes "clstep cfg s s'" "pumps_inv cfg s" "main_inv s"
  shows "main_inv s'"
  using assms
proof (cases rule: clstep.cases)
  case (first_recv f rest)
  then show ?thesis
    using assms(2,3) by (cases f) (auto simp: main_inv_def pumps_inv_def first_frame_def)
next
  case (in_push d err s1)
  then show ?thesis
    using assms(2,3) by (cases err) (auto simp: main_inv_def pumps_inv_def)
qed (auto simp: main_inv_def pumps_inv_def)

lemma client_invs: "clreach cfg s \<Longrightarrow> main_inv s \<and> recv_inv s"
proof (induction rule: clreach.induct)
  case (step s s')
  then show ?case
    using main_inv_step recv_inv_step pumps_inv_reach by blast
qed (auto simp: main_inv_def recv_inv_def client_start_def)

section \<open>The properties of the terminal client\<close>

lemma recv_inv_shape:
  assumes "recv_inv s"
  shows "\<exists>ds tail. cl_got s = map SfStdout ds @ tail \<and> cl_stdout s = concat ds \<and> (cl_recv s \<noteq> CrDone \<longrightarrow> tail = []) \<and>
    (tail = [] \<or> (\<exists>f. tail = [f] \<and> cl_result s = final_of f))"
  using assms unfolding recv_inv_def by blast

text \<open>One whole run: a keystroke is sent, output and the exit of the program arrive, and the next keystroke finds the
  stream ended.\<close>

definition demo_client :: client_config where
  "demo_client = \<lparr>ccf_stream = True, ccf_resizes = True,
     ccf_attach = \<lparr>pa_session_id = [], pa_size = \<lparr>ws_cols = 80, ws_rows = 24, ws_xpixel = 0, ws_ypixel = 0\<rparr>, pa_term = ''t'', pa_agent = ''a''\<rparr>,
     ccf_frame_max = 4\<rparr>"

definition demo_cl_attached :: "client_config \<Rightarrow> client" where
  "demo_cl_attached cfg = client_start\<lparr>cl_main := CmWait, cl_in := CiCheck, cl_size := CzSelect, cl_recv := CrRecv, cl_ack := Some None,
     cl_attached := True, cl_sent := [attachFrame (ccf_attach cfg)]\<rparr>"

definition demo_cl_typed :: "client \<Rightarrow> bytes \<Rightarrow> client" where
  "demo_cl_typed s d = s\<lparr>cl_stdin := cl_stdin s @ d, outbound := outbound s @ [(CfStdin (Some d), False)], cl_in := CiCheck\<rparr>"

definition demo_cl_exited :: "client_config \<Rightarrow> int \<Rightarrow> client" where
  "demo_cl_exited cfg c = (demo_cl_attached cfg)\<lparr>cl_sent := cl_sent (demo_cl_attached cfg) @ [CfStdin (Some ''x'')], cl_stdin := ''xy'',
     outbound := [(CfStdin (Some ''y''), False)], cl_recv := CrDone, cl_ctx := True, cl_result := zero_result\<lparr>er_code := c\<rparr>,
     cl_stdout := ''o'', cl_got := [SfStdout ''o'', SfExited \<lparr>xi_code = c, xi_signal = 0\<rparr>]\<rparr>"

definition demo_cl_end :: "client_config \<Rightarrow> int \<Rightarrow> client" where
  "demo_cl_end cfg c = (demo_cl_exited cfg c)\<lparr>outbound := [], cl_send := CsDone, cl_in := CiDone, cl_size := CzDone, cl_group := Some (ErrIO RpcEOF),
     cl_main := CmReturned (buildExitResult (zero_result\<lparr>er_code := c\<rparr>) (Some (ErrIO RpcEOF)))\<rparr>"

lemma demo_cl_attached_reach:
  assumes "ccf_stream cfg"
  shows "clreach cfg (demo_cl_attached cfg)"
proof -
  let ?A = "attachFrame (ccf_attach cfg)"
  let ?s1 = "client_start\<lparr>outbound := [(?A, True)], cl_main := CmAck\<rparr>"
  let ?s2 = "?s1\<lparr>outbound := [], cl_sent := [?A], cl_ack := Some None\<rparr>"
  let ?s3 = "?s2\<lparr>cl_main := CmRecv\<rparr>"
  let ?s4 = "?s3\<lparr>cl_inbox := [SfAttached ''s'']\<rparr>"
  note d = client_start_def outbound_cap_def first_frame_def demo_cl_attached_def
  have "clreach cfg client_start"
    by (rule clreach.init) (rule assms)
  from clreach.step [OF this clstep.attach_push [where s = client_start]] have "clreach cfg ?s1" by (simp add: d)
  from clreach.step [OF this clstep.send_ok [where s = ?s1 and f = ?A and ack = True and rest = "[]"]]
  have "clreach cfg ?s2" by (simp add: d)
  from clreach.step [OF this clstep.attach_acked [where s = ?s2]] have "clreach cfg ?s3" by (simp add: d)
  from clreach.step [OF this clstep.server_sends [where s = ?s3 and f = "SfAttached ''s''"]]
  have "clreach cfg ?s4" by (simp add: d)
  from clreach.step [OF this clstep.first_recv [where s = ?s4 and f = "SfAttached ''s''" and rest = "[]"]]
  show ?thesis by (simp add: d)
qed

text \<open>A chunk read from the terminal goes through the pump into the queue.\<close>

lemma type_chunk:
  assumes "clreach cfg s" "cl_in s = CiCheck" "\<not> cl_ctx s" "d \<noteq> []" "int (length d) \<le> ccf_frame_max cfg" "has_room s"
  shows "clreach cfg (demo_cl_typed s d)"
proof -
  let ?s1 = "s\<lparr>cl_in := CiRead\<rparr>"
  let ?s2 = "?s1\<lparr>cl_in := CiPush d None, cl_stdin := cl_stdin s @ d\<rparr>"
  from clreach.step [OF assms(1) clstep.in_go [where s = s]] have "clreach cfg ?s1" using assms by simp
  from clreach.step [OF this clstep.in_read [where s = ?s1 and d = d and err = None]] have "clreach cfg ?s2" using assms by simp
  from clreach.step [OF this clstep.in_push [where s = ?s2 and d = d and err = None, OF _ _ refl]] show ?thesis
    using assms by (simp add: demo_cl_typed_def)
qed

lemma demo_cl_exited_reach:
  assumes "ccf_stream cfg" "1 \<le> ccf_frame_max cfg"
  shows "clreach cfg (demo_cl_exited cfg c)"
proof -
  let ?s1 = "demo_cl_typed (demo_cl_attached cfg) ''x''" and ?x = "SfExited \<lparr>xi_code = c, xi_signal = 0\<rparr> :: string server_frame"
  let ?s2 = "?s1\<lparr>outbound := [], cl_sent := cl_sent (demo_cl_attached cfg) @ [CfStdin (Some ''x'')]\<rparr>"
  let ?s3 = "(demo_cl_typed ?s2 ''y'')\<lparr>cl_inbox := [SfStdout ''o'']\<rparr>"
  let ?s4 = "?s3\<lparr>cl_inbox := [SfStdout ''o'', ?x]\<rparr>"
  let ?s5 = "?s4\<lparr>cl_inbox := [?x], cl_got := [SfStdout ''o''], cl_stdout := ''o'', cl_recv := CrCheck\<rparr>"
  note d = demo_cl_typed_def demo_cl_attached_def client_start_def outbound_cap_def recv_frame_def recv_return_def
    handleServerFrame_def group_return_def zero_result_def
  have "clreach cfg ?s1"
    by (rule type_chunk [OF demo_cl_attached_reach [OF assms(1)]]) (use assms(2) in \<open>simp_all add: d\<close>)
  from clreach.step [OF this clstep.send_ok [where s = ?s1 and f = "CfStdin (Some ''x'')" and ack = False and rest = "[]"]]
  have "clreach cfg ?s2" by (simp add: d)
  then have "clreach cfg (demo_cl_typed ?s2 ''y'')"
    by (rule type_chunk) (use assms(2) in \<open>simp_all add: d\<close>)
  from clreach.step [OF this clstep.server_sends [where f = "SfStdout ''o''"]] have "clreach cfg ?s3" by (simp add: d)
  from clreach.step [OF this clstep.server_sends [where f = "?x"]] have "clreach cfg ?s4" by (simp add: d)
  from clreach.step [OF this clstep.recv_ok [where s = ?s4 and f = "SfStdout ''o''" and werr = None and rest = "[?x]"]]
  have "clreach cfg ?s5" by (simp add: d)
  from clreach.step [OF this clstep.recv_go [where s = ?s5]] have "clreach cfg (?s5\<lparr>cl_recv := CrRecv\<rparr>)" by (simp add: d)
  from clreach.step [OF this clstep.recv_ok [where s = "?s5\<lparr>cl_recv := CrRecv\<rparr>" and f = ?x and werr = None and rest = "[]"]]
  show ?thesis by (simp add: d demo_cl_exited_def)
qed

lemma demo_cl_end_reach:
  assumes "ccf_stream cfg" "1 \<le> ccf_frame_max cfg"
  shows "clreach cfg (demo_cl_end cfg c)"
proof -
  let ?s0 = "demo_cl_exited cfg c"
  let ?s1 = "?s0\<lparr>cl_in := CiDone\<rparr>"
  let ?s2 = "?s1\<lparr>cl_size := CzDone\<rparr>"
  let ?s3 = "?s2\<lparr>cl_group := Some (ErrIO RpcEOF), outbound := [], cl_send := CsDone\<rparr>"
  note d = demo_cl_exited_def demo_cl_attached_def client_start_def group_return_def
  from clreach.step [OF demo_cl_exited_reach [OF assms] clstep.in_stop [where s = ?s0]] have "clreach cfg ?s1" by (simp add: d)
  from clreach.step [OF this clstep.size_stop [where s = ?s1]] have "clreach cfg ?s2" by (simp add: d)
  from clreach.step [OF this clstep.send_fail [where s = ?s2 and f = "CfStdin (Some ''y'')" and ack = False and rest = "[]" and e = RpcEOF]]
  have "clreach cfg ?s3" by (simp add: d)
  from clreach.step [OF this clstep.finish [where s = ?s3]] show ?thesis by (simp add: d demo_cl_end_def)
qed

lemma demo_client_end_reach: "clreach demo_client (demo_cl_end demo_client c)"
  by (rule demo_cl_end_reach) (simp_all add: demo_client_def)

text \<open>C21: The conversation of a terminal client is well formed in every state it can reach: the attach request is sent first and
  once, then only input and window sizes, and those only after the server has answered that the terminal is attached. The
  input sent is a prefix of what was read from the terminal: nothing is lost in the middle, doubled or reordered by the
  queue, no frame is empty or larger than the limit. What is printed is the output received, in order, up to one frame at the
  end.
\<close>

theorem client_protocol:
  assumes "clreach cfg s"
  shows "conversation cfg (cl_attached s) (cl_sent s) \<and> prefix (typed (cl_sent s)) (cl_stdin s) \<and>
    (\<exists>tail. length tail \<le> 1 \<and> cl_stdout s @ concat (map out_of tail) = concat (map out_of (cl_got s)))"
proof (intro conjI)
  show "conversation cfg (cl_attached s) (cl_sent s)" "prefix (typed (cl_sent s)) (cl_stdin s)"
    using send_inv_reach [OF assms] by (simp_all add: send_inv_def)
  obtain ds tail where ds: "cl_got s = map SfStdout ds @ tail" "cl_stdout s = concat ds" and "tail = [] \<or> (\<exists>f. tail = [f])"
    using recv_inv_shape client_invs [OF assms] by blast
  then have "length tail \<le> 1" by auto
  moreover have "concat (map out_of (map SfStdout ds)) = concat ds"
    by (simp add: out_of_def comp_def)
  ultimately show "\<exists>tail. length tail \<le> 1 \<and> cl_stdout s @ concat (map out_of tail) = concat (map out_of (cl_got s))"
    using ds by (intro exI [of _ tail]) simp
qed

theorem client_protocol_witness:
  "conversation demo_client True [attachFrame (ccf_attach demo_client), CfStdin (Some ''x'')] \<and>
   prefix (typed [attachFrame (ccf_attach demo_client), CfStdin (Some ''x'')]) ''xy''"
  using client_protocol [OF demo_client_end_reach [of 0]] by (simp add: demo_cl_end_def demo_cl_exited_def demo_cl_attached_def)

lemma exited_result:
  assumes "clreach cfg s" "cl_main s = CmReturned r" "SfExited info \<in> set (cl_got s)"
  shows "r = buildExitResult (final_of (SfExited info)) (cl_group s)" "cl_stdout s = concat (map out_of (cl_got s))"
proof -
  have m: "main_inv s" and v: "recv_inv s" using client_invs [OF assms(1)] by simp_all
  obtain ds tail where ds: "cl_got s = map SfStdout ds @ tail" "cl_stdout s = concat ds" "cl_recv s \<noteq> CrDone \<longrightarrow> tail = []"
    "tail = [] \<or> (\<exists>f. tail = [f] \<and> cl_result s = final_of f)"
    using recv_inv_shape [OF v] by blast
  have t: "tail = [SfExited info]" "cl_result s = final_of (SfExited info)" "cl_recv s = CrDone"
    using ds assms(3) by auto
  then show "r = buildExitResult (final_of (SfExited info)) (cl_group s)"
    using m assms(2) by (auto simp: main_inv_def)
  show "cl_stdout s = concat (map out_of (cl_got s))"
    using ds(1,2) t(1) by (simp add: out_of_def comp_def)
qed

text \<open>When the client returns and the server told it how the program ended, the code and the signal it returns are the
  server's, all output received before is on the terminal, and no error of the stream hides a failure status.
\<close>

theorem exit_reported:
  assumes "clreach cfg s" "cl_main s = CmReturned r" "SfExited info \<in> set (cl_got s)"
  shows "er_code r = xi_code info \<and> er_signal r = xi_signal info \<and> er_server r = None \<and>
    cl_stdout s = concat (map out_of (cl_got s)) \<and> (xi_code info = 0 \<and> xi_signal info = 0 \<or> er_err r = None)"
  using exited_result [OF assms] by (simp add: buildExitResult_def final_of_def zero_result_def)

theorem exit_reported_witness:
  "er_code (buildExitResult (zero_result\<lparr>er_code := 3\<rparr>) (Some (ErrIO RpcEOF))) = 3 \<and>
   (3 = (0::int) \<or> er_err (buildExitResult (zero_result\<lparr>er_code := 3\<rparr>) (Some (ErrIO RpcEOF))) = None)"
  using exit_reported [OF demo_client_end_reach [of 3], of _ "\<lparr>xi_code = 3, xi_signal = 0\<rparr>"]
  by (simp add: demo_cl_end_def demo_cl_exited_def)

text \<open>C39: A clean exit can be reported as a failure. The client can return with the server's \<open>Exited\<close> frame received, code and
  signal zero, and still carry an error: a keystroke that was queued when the program ended makes \<open>Send\<close> fail with the end of
  the stream, and \<open>buildExitResult\<close> prefers that error to the zero status.
\<close>

theorem clean_exit_reported_as_failure:
  "\<exists>cfg s r. clreach cfg s \<and> cl_main s = CmReturned r \<and> SfExited \<lparr>xi_code = 0, xi_signal = 0\<rparr> \<in> set (cl_got s) \<and>
     er_err r = Some (ErrIO RpcEOF)"
proof -
  have "buildExitResult zero_result (Some (ErrIO RpcEOF)) = zero_result\<lparr>er_err := Some (ErrIO RpcEOF)\<rparr>"
    by (simp add: buildExitResult_def zero_result_def)
  then have "cl_main (demo_cl_end demo_client 0) = CmReturned (zero_result\<lparr>er_err := Some (ErrIO RpcEOF)\<rparr>)"
    by (simp add: demo_cl_end_def zero_result_def)
  moreover have "SfExited \<lparr>xi_code = 0, xi_signal = 0\<rparr> \<in> set (cl_got (demo_cl_end demo_client 0))"
    by (simp add: demo_cl_end_def demo_cl_exited_def)
  ultimately show ?thesis
    using demo_client_end_reach [of 0] by (metis exit_result.select_convs(4) exit_result.update_convs(4) exit_result.surjective)
qed

end
