(* ===== verification/Transport.thy ===== *)
theory Transport
  imports Auth Config
begin

text \<open>
  The client side of the gRPC connection, \<open>src/pkg/transport/client.go\<close>, with the two \<open>dialTLS\<close> functions that feed it. Reading
  a file, parsing certificates, \<open>grpc.NewClient\<close> and opening a stream are arguments; credentials are the settings they
  are built from.
\<close>

section \<open>Definitions\<close>

datatype tr_error =
  ErrEmptyAddress | ErrNilConn | ErrCAFileEmpty string | ErrReadCAFile string string | ErrNewClient string string | ErrOpenStream string

record tls_options =
  to_server_name :: string
  to_ca_file :: string
  to_insecure :: bool

text \<open>Credentials: no TLS, or TLS 1.2 and later with the host name to check, the only trusted certificates
  (\<^const>\<open>None\<close>: those of the system), and whether checking is off.\<close>

datatype credentials = InsecureCreds | TLSCreds string "string option" bool

record dial_options =
  do_address :: string
  do_tls :: "tls_options option"

record conn =
  cn_address :: string
  cn_creds :: credentials
  cn_ping_time :: int
  cn_ping_timeout :: int
  cn_ping_idle :: bool

definition DefaultGRPCKeepaliveTime :: int where "DefaultGRPCKeepaliveTime = 30 * go_second"
definition DefaultGRPCKeepaliveTimeout :: int where "DefaultGRPCKeepaliveTimeout = 10 * go_second"
definition DefaultGRPCKeepaliveMinTime :: int where "DefaultGRPCKeepaliveMinTime = 10 * go_second"

definition dialTLS :: "tls_config \<Rightarrow> tls_options option" where
  "dialTLS cfg =
     (if \<not> tls_enabled cfg then None
      else Some \<lparr>to_server_name = tls_server_name cfg, to_ca_file = tls_ca_file cfg, to_insecure = tls_insecure cfg\<rparr>)"

text \<open>The pool holds the certificates of the file and no others.\<close>

definition loadCertPool :: "(string \<Rightarrow> string + string) \<Rightarrow> (string \<Rightarrow> bool) \<Rightarrow> string \<Rightarrow> tr_error + string" where
  "loadCertPool readFile hasCerts caFile =
     (case readFile caFile of
        Inl e \<Rightarrow> Inl (ErrReadCAFile caFile e)
      | Inr pem \<Rightarrow> if hasCerts pem then Inr pem else Inl (ErrCAFileEmpty caFile))"

definition transportCredentials ::
  "(string \<Rightarrow> string + string) \<Rightarrow> (string \<Rightarrow> bool) \<Rightarrow> tls_options option \<Rightarrow> tr_error + credentials" where
  "transportCredentials readFile hasCerts cfg =
     (case cfg of
        None \<Rightarrow> Inr InsecureCreds
      | Some t \<Rightarrow>
          if to_ca_file t \<noteq> [] then
            (case loadCertPool readFile hasCerts (to_ca_file t) of
               Inl e \<Rightarrow> Inl e
             | Inr pool \<Rightarrow> Inr (TLSCreds (to_server_name t) (Some pool) (to_insecure t)))
          else Inr (TLSCreds (to_server_name t) None (to_insecure t)))"

definition Dial ::
  "(string \<Rightarrow> string + string) \<Rightarrow> (string \<Rightarrow> bool) \<Rightarrow> (string \<Rightarrow> string option) \<Rightarrow> dial_options \<Rightarrow> tr_error + conn" where
  "Dial readFile hasCerts newClient opts =
     (if do_address opts = [] then Inl ErrEmptyAddress
      else case transportCredentials readFile hasCerts (do_tls opts) of
             Inl e \<Rightarrow> Inl e
           | Inr creds \<Rightarrow>
               (case newClient (do_address opts) of
                  Some e \<Rightarrow> Inl (ErrNewClient (do_address opts) e)
                | None \<Rightarrow> Inr \<lparr>cn_address = do_address opts, cn_creds = creds, cn_ping_time = DefaultGRPCKeepaliveTime,
                    cn_ping_timeout = DefaultGRPCKeepaliveTimeout, cn_ping_idle = True\<rparr>))"

text \<open>Opening a stream sends the token in the metadata; \<open>open\<close> is what the library makes of it.\<close>

definition OpenStream :: "(conn \<Rightarrow> metadata \<Rightarrow> string + 's) \<Rightarrow> conn option \<Rightarrow> string \<Rightarrow> tr_error + 's" where
  "OpenStream open conn token =
     (case conn of
        None \<Rightarrow> Inl ErrNilConn
      | Some c \<Rightarrow> (case open c (NewOutgoingContext token) of Inl e \<Rightarrow> Inl (ErrOpenStream e) | Inr s \<Rightarrow> Inr s))"

section \<open>What a connection is like\<close>

lemma Dial_Inr:
  assumes "Dial readFile hasCerts newClient opts = Inr c"
  shows "cn_address c = do_address opts" "do_address opts \<noteq> []" "transportCredentials readFile hasCerts (do_tls opts) = Inr (cn_creds c)"
    "cn_ping_time c = DefaultGRPCKeepaliveTime"
  using assms by (auto simp: Dial_def split: if_splits sum.splits option.splits)

lemma dialTLS_creds:
  "transportCredentials readFile hasCerts (dialTLS cfg) = Inr creds \<Longrightarrow>
     creds = (if \<not> tls_enabled cfg then InsecureCreds
              else TLSCreds (tls_server_name cfg)
                     (if tls_ca_file cfg = [] then None else case readFile (tls_ca_file cfg) of Inr pem \<Rightarrow> Some pem | Inl _ \<Rightarrow> None) (tls_insecure cfg))
     \<and> (tls_enabled cfg \<and> tls_ca_file cfg \<noteq> [] \<longrightarrow> (\<exists>pem. readFile (tls_ca_file cfg) = Inr pem \<and> hasCerts pem))"
  by (auto simp: transportCredentials_def dialTLS_def loadCertPool_def split: if_splits sum.splits)

text \<open>A connection made for a configuration is as protected as the configuration says: it is in clear text exactly when TLS is
  not enabled, the certificate is left unchecked exactly when the configuration says so, and when a certificate file is named
  the connection trusts the certificates of that file and no others: an unreadable or empty file is an error, never a
  fall-back to the system's.
\<close>

theorem connection_as_configured:
  assumes "Dial readFile hasCerts newClient \<lparr>do_address = addr, do_tls = dialTLS cfg\<rparr> = Inr c"
  shows "addr \<noteq> [] \<and> cn_address c = addr \<and> (cn_creds c = InsecureCreds \<longleftrightarrow> \<not> tls_enabled cfg) \<and>
    (\<forall>name pool skip. cn_creds c = TLSCreds name pool skip \<longrightarrow>
       name = tls_server_name cfg \<and> skip = tls_insecure cfg \<and>
       (if tls_ca_file cfg = [] then pool = None
        else \<exists>pem. readFile (tls_ca_file cfg) = Inr pem \<and> hasCerts pem \<and> pool = Some pem))"
  using Dial_Inr [OF assms] dialTLS_creds [of readFile hasCerts cfg "cn_creds c"] by (auto split: if_splits)

definition demo_tls :: tls_config where
  "demo_tls = \<lparr>tls_enabled = True, tls_server_name = ''h'', tls_ca_file = ''f'', tls_insecure = False\<rparr>"

definition demo_conn :: conn where
  "demo_conn = \<lparr>cn_address = ''a'', cn_creds = TLSCreds ''h'' (Some ''p'') False, cn_ping_time = DefaultGRPCKeepaliveTime,
     cn_ping_timeout = DefaultGRPCKeepaliveTimeout, cn_ping_idle = True\<rparr>"

theorem connection_as_configured_witness:
  "Dial (\<lambda>_. Inr ''p'') (\<lambda>_. True) (\<lambda>_. None) \<lparr>do_address = ''a'', do_tls = dialTLS demo_tls\<rparr> = Inr demo_conn \<and>
   (cn_creds demo_conn = InsecureCreds \<longleftrightarrow> \<not> tls_enabled demo_tls)"
proof -
  have d: "Dial (\<lambda>_. Inr ''p'') (\<lambda>_. True) (\<lambda>_. None) \<lparr>do_address = ''a'', do_tls = dialTLS demo_tls\<rparr> = Inr demo_conn"
    by (simp add: Dial_def dialTLS_def transportCredentials_def loadCertPool_def demo_tls_def demo_conn_def)
  show ?thesis using d connection_as_configured [OF d] by blast
qed

end
