(* ===== verification/Pty_Attach.thy ===== *)
theory Pty_Attach
  imports Pty_Client Transport
begin

text \<open>
  Attaching the local terminal, \<open>src/pkg/ptyattach/attach.go\<close> with the Unix terminal of \<open>terminal_unix.go\<close>: the settings
  of the terminal are saved and made raw, the stream is opened, the client runs, and everything is undone in order. The
  terminal is a record with its settings, what was written to it for the reset, and the actions in the order they are
  taken. The \<open>ioctl\<close> outcomes, the connection and the client's run are arguments; the bits of the terminal flags are an
  argument too, as they come from a package outside the repository.
\<close>

section \<open>Definitions\<close>

subsection \<open>The terminal\<close>

text \<open>The settings of a terminal: the four flag words and the control characters.\<close>

record termios =
  Iflag :: "32 word"
  Oflag :: "32 word"
  Cflag :: "32 word"
  Lflag :: "32 word"
  Cc :: "8 word list"

record tty_bits =
  bit_IGNBRK :: "32 word"
  bit_BRKINT :: "32 word"
  bit_PARMRK :: "32 word"
  bit_ISTRIP :: "32 word"
  bit_INLCR :: "32 word"
  bit_IGNCR :: "32 word"
  bit_ICRNL :: "32 word"
  bit_IXON :: "32 word"
  bit_OPOST :: "32 word"
  bit_ECHO :: "32 word"
  bit_ECHONL :: "32 word"
  bit_ICANON :: "32 word"
  bit_ISIG :: "32 word"
  bit_IEXTEN :: "32 word"
  bit_CSIZE :: "32 word"
  bit_PARENB :: "32 word"
  bit_CS8 :: "32 word"
  idx_VMIN :: nat
  idx_VTIME :: nat

datatype action = ActRaw | ActBridge | ActStopBridge | ActClose | ActReset | ActRestore

record terminal =
  tm_settings :: termios
  tm_written :: bytes
  tm_actions :: "action list"

text \<open>The outcomes of the calls on the terminal, each an error or none.\<close>

record tty_io =
  io_stdin_tty :: bool
  io_stdout_tty :: bool
  io_get :: "string option"
  io_set :: "string option"
  io_size :: "string + window_size"
  io_restore :: "string option"
  io_write :: "string option"

datatype att_err =
  ErrTTYRequired | ErrEmptyServerToken | AeConfig cfg_error | AeMakeRaw string | AeQuerySize string "string option"
| AeTransport tr_error | AeAttach string | AeDialRestore att_err string | AeClose string | AeRestore string
| AeClient cl_err | AeExit int string bool

unbundle bit_operations_syntax

definition raw_settings :: "tty_bits \<Rightarrow> termios \<Rightarrow> termios" where
  "raw_settings b t =
     t\<lparr>Iflag := Iflag t AND NOT (bit_IGNBRK b OR bit_BRKINT b OR bit_PARMRK b OR bit_ISTRIP b OR bit_INLCR b OR bit_IGNCR b OR bit_ICRNL b OR bit_IXON b),
       Oflag := Oflag t AND NOT (bit_OPOST b),
       Lflag := Lflag t AND NOT (bit_ECHO b OR bit_ECHONL b OR bit_ICANON b OR bit_ISIG b OR bit_IEXTEN b),
       Cflag := (Cflag t AND NOT (bit_CSIZE b OR bit_PARENB b)) OR bit_CS8 b,
       Cc := (Cc t)[idx_VMIN b := 1, idx_VTIME b := 0]\<rparr>"

text \<open>\<open>makeRaw\<close> returns the settings it found; a terminal whose settings cannot be set keeps them.\<close>

definition makeRaw :: "tty_bits \<Rightarrow> tty_io \<Rightarrow> terminal \<Rightarrow> terminal \<times> (string + termios)" where
  "makeRaw b io t =
     (case io_get io of
        Some e \<Rightarrow> (t, Inl e)
      | None \<Rightarrow>
          (case io_set io of
             Some e \<Rightarrow> (t, Inl e)
           | None \<Rightarrow> (t\<lparr>tm_settings := raw_settings b (tm_settings t), tm_actions := tm_actions t @ [ActRaw]\<rparr>, Inr (tm_settings t))))"

definition restore :: "tty_io \<Rightarrow> termios \<Rightarrow> terminal \<Rightarrow> terminal \<times> string option" where
  "restore io saved t =
     (let t' = t\<lparr>tm_actions := tm_actions t @ [ActRestore]\<rparr> in
      case io_restore io of Some e \<Rightarrow> (t', Some e) | None \<Rightarrow> (t'\<lparr>tm_settings := saved\<rparr>, None))"

record terminal_session =
  te_size :: window_size
  te_saved :: termios

definition Prepare :: "tty_bits \<Rightarrow> tty_io \<Rightarrow> terminal \<Rightarrow> terminal \<times> (att_err + terminal_session)" where
  "Prepare b io t =
     (case makeRaw b io t of
        (t1, Inl e) \<Rightarrow> (t1, Inl (AeMakeRaw e))
      | (t1, Inr saved) \<Rightarrow>
          (case io_size io of
             Inl e \<Rightarrow> (case restore io saved t1 of (t2, re) \<Rightarrow> (t2, Inl (AeQuerySize e re)))
           | Inr sz \<Rightarrow> (t1, Inr \<lparr>te_size = sz, te_saved = saved\<rparr>)))"

subsection \<open>The configuration and the connection\<close>

definition defaultTerm :: string where "defaultTerm = ''xterm-256color''"

definition esc :: "string \<Rightarrow> string" where "esc s = CHR 0x1B # s"

definition terminalResetSequence :: bytes where
  "terminalResetSequence = concat (map esc
     [''[<u'', ''[<u'', ''[<u'', ''[=0;1u'', ''[>4;0m'', ''[?1049l'', ''[?2004l'', ''[?1000l'', ''[?1002l'', ''[?1003l'', ''[?1006l'',
      ''[?1004l'', ''[?1l'', ''>'', ''[?7h'', ''[0m'', ''[0 q'', ''[?25h''])"

record loaded_config =
  lc_address :: string
  lc_token :: string
  lc_frame_max :: int
  lc_tls :: "tls_options option"

definition loadClientConfigFromDaemon ::
  "(string \<Rightarrow> daemon_config \<Rightarrow> daemon_config option) \<Rightarrow> string \<Rightarrow> att_err + loaded_config" where
  "loadClientConfigFromDaemon load p =
     (case LoadDaemon load p of
        Inl e \<Rightarrow> Inl (AeConfig e)
      | Inr cfg \<Rightarrow>
          (let token = trim_space (se_token (dc_server cfg)) in
           if token = [] then Inl ErrEmptyServerToken
           else Inr \<lparr>lc_address = trim_space (se_address (dc_server cfg)), lc_token = token,
                     lc_frame_max = DefaultPTYFrameMaxBytes, lc_tls = dialTLS (se_tls (dc_server cfg))\<rparr>))"

definition maxInt :: int where "maxInt = 2 ^ 63 - 1"

definition clientFrameMax :: "int \<Rightarrow> int" where
  "clientFrameMax n = (if n \<le> 0 then DefaultPTYFrameMaxBytes else if n > maxInt then maxInt else n)"

definition commandTermName :: "string \<Rightarrow> string" where
  "commandTermName name = (let t = trim_space name in if t = [] then defaultTerm else t)"

text \<open>What the network does: dialling, and opening the stream with the token in the metadata.\<close>

record net =
  nt_read_file :: "string \<Rightarrow> string + string"
  nt_has_certs :: "string \<Rightarrow> bool"
  nt_new_client :: "string \<Rightarrow> string option"
  nt_attach :: "conn \<Rightarrow> metadata \<Rightarrow> string option"
  nt_close :: "string option"

definition openRemotePTYStream :: "net \<Rightarrow> conn \<Rightarrow> string \<Rightarrow> att_err option" where
  "openRemotePTYStream nt c token = (case nt_attach nt c (NewOutgoingContext token) of Some e \<Rightarrow> Some (AeAttach e) | None \<Rightarrow> None)"

text \<open>The connection is closed again when the stream cannot be opened.\<close>

definition dialRemotePTY :: "net \<Rightarrow> loaded_config \<Rightarrow> att_err + conn" where
  "dialRemotePTY nt cfg =
     (case Dial (nt_read_file nt) (nt_has_certs nt) (nt_new_client nt) \<lparr>do_address = lc_address cfg, do_tls = lc_tls cfg\<rparr> of
        Inl e \<Rightarrow> Inl (AeTransport e)
      | Inr c \<Rightarrow> (case openRemotePTYStream nt c (lc_token cfg) of Some e \<Rightarrow> Inl e | None \<Rightarrow> Inr c))"

subsection \<open>How a session ended\<close>

definition serverErrorExitCode :: "error_kind \<Rightarrow> int" where
  "serverErrorExitCode k =
     (case k of
        KIND_DAEMON_NOT_CONNECTED \<Rightarrow> 2
      | KIND_SESSION_BUSY \<Rightarrow> 3
      | KIND_SPAWN_FAILED \<Rightarrow> 4
      | KIND_RATE_LIMITED \<Rightarrow> 5
      | KIND_PROTOCOL \<Rightarrow> 6
      | KIND_UNAUTHENTICATED \<Rightarrow> 1
      | _ \<Rightarrow> 1)"

definition spawnFailedMessage :: "string \<Rightarrow> string" where
  "spawnFailedMessage detail =
     ''failed to start remote agent process on Server'' @ (let d = trim_space detail in if d = [] then [] else '': '' @ d) @
     ''; check the -g/--agent name resolves on the Server (PATH or absolute path), /workspace/<user_id>, and Server-side agent login''"

definition serverErrorMessage :: "error_kind \<Rightarrow> string \<Rightarrow> string" where
  "serverErrorMessage k m =
     (if k = KIND_SPAWN_FAILED then spawnFailedMessage m
      else let msg = trim_space m in
           if msg \<noteq> [] then msg
           else (case k of
                   KIND_DAEMON_NOT_CONNECTED \<Rightarrow> ''daemon offline, run daemon first''
                 | KIND_SESSION_BUSY \<Rightarrow> ''another agent session is active''
                 | KIND_RATE_LIMITED \<Rightarrow> ''too many attach requests''
                 | KIND_PROTOCOL \<Rightarrow> ''protocol error''
                 | KIND_UNAUTHENTICATED \<Rightarrow> ''auth failed''
                 | _ \<Rightarrow> ''remote pty attach failed''))"

definition code_Unauthenticated :: nat where "code_Unauthenticated = 16"

definition grpcStatusExitCode :: "nat \<Rightarrow> int" where
  "grpcStatusExitCode c = 1"

definition grpcStatusMessage :: "nat \<Rightarrow> string \<Rightarrow> string" where
  "grpcStatusMessage c m =
     (if c = code_Unauthenticated then ''auth failed''
      else let msg = trim_space m in if msg \<noteq> [] then msg else ''remote pty attach failed'')"

text \<open>\<open>status.FromError\<close>: only an error that carries a gRPC status has one.\<close>

definition status_FromError :: "cl_err \<Rightarrow> (nat \<times> string) option" where
  "status_FromError e = (case e of ErrIO (RpcStatus c m) \<Rightarrow> Some (c, m) | _ \<Rightarrow> None)"

definition is_canceled :: "cl_err \<Rightarrow> bool" where
  "is_canceled e = (e = ErrCanceled \<or> e = ErrIO RpcCanceled)"

definition exitStatusFromResult :: "exit_result \<Rightarrow> att_err option" where
  "exitStatusFromResult r =
     (case er_server r of
        Some (k, m) \<Rightarrow> Some (AeExit (serverErrorExitCode k) (serverErrorMessage k m) False)
      | None \<Rightarrow>
          (case er_err r of
             Some e \<Rightarrow>
               (case status_FromError e of
                  Some (c, m) \<Rightarrow> Some (AeExit (grpcStatusExitCode c) (grpcStatusMessage c m) False)
                | None \<Rightarrow> if is_canceled e then Some (AeExit 130 [] True) else Some (AeClient e))
           | None \<Rightarrow>
               if er_signal r > 0 then Some (AeExit (128 + int (er_signal r)) [] True)
               else if er_code r \<noteq> 0 then Some (AeExit (er_code r) [] True)
               else None))"

subsection \<open>One attach\<close>

record command_runtime =
  rt_session :: terminal_session
  rt_frame_max :: int

definition validateCommandTTY :: "tty_io \<Rightarrow> att_err option" where
  "validateCommandTTY io = (if \<not> io_stdin_tty io \<or> \<not> io_stdout_tty io then Some ErrTTYRequired else None)"

abbreviation "act a t \<equiv> t\<lparr>tm_actions := tm_actions t @ [a]\<rparr>"

definition prepareCommandRuntime ::
  "tty_bits \<Rightarrow> tty_io \<Rightarrow> net \<Rightarrow> loaded_config \<Rightarrow> terminal \<Rightarrow> terminal \<times> (att_err + command_runtime)" where
  "prepareCommandRuntime b io nt cfg t =
     (case Prepare b io t of
        (t1, Inl e) \<Rightarrow> (t1, Inl e)
      | (t1, Inr ses) \<Rightarrow>
          (case dialRemotePTY nt cfg of
             Inl e \<Rightarrow> (case restore io (te_saved ses) t1 of
                        (t2, Some re) \<Rightarrow> (t2, Inl (AeDialRestore e re))
                      | (t2, None) \<Rightarrow> (t2, Inl e))
           | Inr c \<Rightarrow> (act ActBridge t1, Inr \<lparr>rt_session = ses, rt_frame_max = clientFrameMax (lc_frame_max cfg)\<rparr>)))"

definition writeTerminalReset :: "tty_io \<Rightarrow> terminal \<Rightarrow> terminal" where
  "writeTerminalReset io t =
     (case io_write io of Some _ \<Rightarrow> act ActReset t | None \<Rightarrow> (act ActReset t)\<lparr>tm_written := tm_written t @ terminalResetSequence\<rparr>)"

text \<open>Closing keeps the first error.\<close>

definition closeCommandRuntime :: "tty_io \<Rightarrow> net \<Rightarrow> command_runtime \<Rightarrow> terminal \<times> att_err option \<Rightarrow> terminal \<times> att_err option" where
  "closeCommandRuntime io nt rt = (\<lambda>(t, err).
     let t1 = act ActClose (act ActStopBridge t);
         err1 = (case nt_close nt of Some e \<Rightarrow> if err = None then Some (AeClose e) else err | None \<Rightarrow> err);
         t2 = writeTerminalReset io t1
     in case restore io (te_saved (rt_session rt)) t2 of
          (t3, Some re) \<Rightarrow> (t3, if err1 = None then Some (AeRestore re) else err1)
        | (t3, None) \<Rightarrow> (t3, err1))"

definition clientConfig :: "command_runtime \<Rightarrow> string \<Rightarrow> string \<Rightarrow> client_config" where
  "clientConfig rt term agent =
     \<lparr>ccf_stream = True, ccf_resizes = True,
      ccf_attach = \<lparr>pa_session_id = [], pa_size = te_size (rt_session rt), pa_term = commandTermName term, pa_agent = agent\<rparr>,
      ccf_frame_max = rt_frame_max rt\<rparr>"

definition runCommand ::
  "(string \<Rightarrow> daemon_config \<Rightarrow> daemon_config option) \<Rightarrow> tty_bits \<Rightarrow> tty_io \<Rightarrow> net \<Rightarrow> (client_config \<Rightarrow> exit_result) \<Rightarrow> string \<Rightarrow> string \<Rightarrow>
   string \<Rightarrow> terminal \<Rightarrow> terminal \<times> att_err option" where
  "runCommand load b io nt clientRun term agent path t =
     (case loadClientConfigFromDaemon load path of
        Inl e \<Rightarrow> (t, Some e)
      | Inr cfg \<Rightarrow>
          (case validateCommandTTY io of
             Some e \<Rightarrow> (t, Some e)
           | None \<Rightarrow>
               (case prepareCommandRuntime b io nt cfg t of
                  (t1, Inl e) \<Rightarrow> (t1, Some e)
                | (t1, Inr rt) \<Rightarrow>
                    closeCommandRuntime io nt rt (t1, exitStatusFromResult (clientRun (client_New (clientConfig rt term agent)))))))"

subsection \<open>The bridge of the input\<close>

text \<open>
  Every attach copies the terminal's input into a pipe of its own, in a goroutine that lives until a read or a write
  fails. Stopping closes the pipe but not the terminal, so the goroutine stays in its read; it notices the closed pipe only
  when it has the next chunk in hand. \<open>b_out\<close> is what the client of that attach can read.
\<close>

record bridge =
  b_open :: bool
  b_alive :: bool
  b_out :: bytes

record stdin_sys =
  si_bridges :: "bridge list"
  si_read :: bytes

definition newPTYStdinBridge :: "stdin_sys \<Rightarrow> stdin_sys" where
  "newPTYStdinBridge s = s\<lparr>si_bridges := si_bridges s @ [\<lparr>b_open = True, b_alive = True, b_out = []\<rparr>]\<rparr>"

definition stopBridge :: "nat \<Rightarrow> stdin_sys \<Rightarrow> stdin_sys" where
  "stopBridge i s = s\<lparr>si_bridges := (si_bridges s)[i := (si_bridges s ! i)\<lparr>b_open := False\<rparr>]\<rparr>"

definition copy_chunk :: "nat \<Rightarrow> bytes \<Rightarrow> stdin_sys \<Rightarrow> stdin_sys" where
  "copy_chunk i d s =
     (let b = si_bridges s ! i;
          b' = (if b_open b then b\<lparr>b_out := b_out b @ d\<rparr> else b\<lparr>b_alive := False\<rparr>)
      in s\<lparr>si_bridges := (si_bridges s)[i := b'], si_read := si_read s @ d\<rparr>)"

inductive bstep :: "stdin_sys \<Rightarrow> stdin_sys \<Rightarrow> bool" where
  attach: "bstep s (newPTYStdinBridge s)"
| stop: "i < length (si_bridges s) \<Longrightarrow> bstep s (stopBridge i s)"
| copy: "i < length (si_bridges s) \<Longrightarrow> b_alive (si_bridges s ! i) \<Longrightarrow> d \<noteq> [] \<Longrightarrow> bstep s (copy_chunk i d s)"
| eof: "i < length (si_bridges s) \<Longrightarrow> bstep s (s\<lparr>si_bridges := (si_bridges s)[i := (si_bridges s ! i)\<lparr>b_open := False, b_alive := False\<rparr>]\<rparr>)"

inductive breach :: "stdin_sys \<Rightarrow> bool" where
  init: "breach \<lparr>si_bridges = [], si_read = []\<rparr>"
| step: "breach s \<Longrightarrow> bstep s s' \<Longrightarrow> breach s'"

section \<open>The terminal is given back\<close>

definition attach_actions :: "action list list" where
  "attach_actions = [[], [ActRaw, ActRestore], [ActRaw, ActBridge, ActStopBridge, ActClose, ActReset, ActRestore]]"

lemma makeRaw_cases:
  "makeRaw b io t = (t', res) \<Longrightarrow>
     (\<exists>e. res = Inl e \<and> t' = t) \<or> (res = Inr (tm_settings t) \<and> t' = (act ActRaw t)\<lparr>tm_settings := raw_settings b (tm_settings t)\<rparr>)"
  by (auto simp: makeRaw_def split: option.splits)

lemma restore_result:
  "restore io saved t = ((act ActRestore t)\<lparr>tm_settings := (if io_restore io = None then saved else tm_settings t)\<rparr>, io_restore io)"
  by (simp add: restore_def Let_def split: option.split)

lemma Prepare_cases:
  assumes "Prepare b io t = (t', res)"
  shows "(\<exists>e. res = Inl e \<and> t' = t) \<or>
    (\<exists>e re. res = Inl (AeQuerySize e re) \<and> tm_actions t' = tm_actions t @ [ActRaw, ActRestore] \<and> re = io_restore io \<and> (re = None \<longrightarrow> tm_settings t' = tm_settings t)) \<or>
    (\<exists>ses. res = Inr ses \<and> te_saved ses = tm_settings t \<and> tm_actions t' = tm_actions t @ [ActRaw])"
proof -
  obtain t1 r1 where m: "makeRaw b io t = (t1, r1)" by fastforce
  show ?thesis
    using assms makeRaw_cases [OF m] by (auto simp: Prepare_def m restore_result split: sum.splits)
qed

lemma prepareCommandRuntime_cases:
  assumes "prepareCommandRuntime b io nt cfg t = (t', res)"
  shows "(\<exists>e. res = Inl e \<and> t' = t) \<or>
    (\<exists>e. res = Inl e \<and> tm_actions t' = tm_actions t @ [ActRaw, ActRestore] \<and> (io_restore io = None \<longrightarrow> tm_settings t' = tm_settings t)) \<or>
    (\<exists>rt. res = Inr rt \<and> te_saved (rt_session rt) = tm_settings t \<and> tm_actions t' = tm_actions t @ [ActRaw, ActBridge])"
proof -
  obtain t1 r1 where m: "Prepare b io t = (t1, r1)" by fastforce
  show ?thesis
    using assms Prepare_cases [OF m] by (auto simp: prepareCommandRuntime_def m restore_result split: sum.splits option.splits)
qed

lemma closeCommandRuntime_result:
  assumes "closeCommandRuntime io nt rt (t, err) = (t', err')"
  shows "tm_actions t' = tm_actions t @ [ActStopBridge, ActClose, ActReset, ActRestore]"
    and "io_restore io = None \<Longrightarrow> tm_settings t' = te_saved (rt_session rt)" and "io_restore io \<noteq> None \<Longrightarrow> err' \<noteq> None"
    and "err \<noteq> None \<Longrightarrow> err' = err" and "err = None \<Longrightarrow> nt_close nt = None \<Longrightarrow> io_restore io = None \<Longrightarrow> err' = None"
  using assms by (auto simp: closeCommandRuntime_def Let_def restore_result writeTerminalReset_def split: option.splits if_splits)

section \<open>Properties\<close>

text \<open>C22: However an attach ends, the terminal is given back. Either it was never touched, or the last action is the attempt to
  restore the settings found at the start, after the bridge was stopped, the connection closed and the reset written, in this
  order; when that attempt succeeds the settings are the old ones bit for bit, and when it fails the attach returns an error.
\<close>

theorem terminal_given_back:
  "case runCommand load b io nt clientRun name agent path t of (t', err) \<Rightarrow>
     (\<exists>acts \<in> set attach_actions. tm_actions t' = tm_actions t @ acts) \<and>
     (tm_settings t' = tm_settings t \<or> io_restore io \<noteq> None \<and> err \<noteq> None)"
proof (cases "loadClientConfigFromDaemon load path")
  case (Inl e)
  then show ?thesis by (simp add: runCommand_def attach_actions_def)
next
  case (Inr cfg)
  obtain t1 r1 where m: "prepareCommandRuntime b io nt cfg t = (t1, r1)" by fastforce
  note runs = runCommand_def attach_actions_def validateCommandTTY_def
  show ?thesis
  proof (cases r1)
    case (Inl e)
    then show ?thesis
      using Inr prepareCommandRuntime_cases [OF m] by (auto simp: runs m split: option.splits)
  next
    case (Inr rt)
    let ?e = "exitStatusFromResult (clientRun (client_New (clientConfig rt name agent)))"
    obtain t2 r2 where c: "closeCommandRuntime io nt rt (t1, ?e) = (t2, r2)" by fastforce
    show ?thesis
      using Inr \<open>loadClientConfigFromDaemon load path = Inr cfg\<close> prepareCommandRuntime_cases [OF m] closeCommandRuntime_result(1-3) [OF c]
      by (auto simp: runs m c)
  qed
qed

text \<open>The exit status of an attach is faithful: it is success exactly when the server reported no error, the client had
  none, and the program ended with code zero and no signal; every exit code it carries is non-zero; and a program that was
  killed or failed, without an error on the way, gives 128 plus the signal, or its code.
\<close>

theorem exit_status_faithful:
  "(exitStatusFromResult r = None \<longleftrightarrow> r = zero_result) \<and> (\<forall>code msg quiet. exitStatusFromResult r \<noteq> Some (AeExit code msg quiet) \<or> code \<noteq> 0) \<and>
   exitStatusFromResult \<lparr>er_code = c, er_signal = n, er_server = None, er_err = None\<rparr> =
     (if n = 0 \<and> c = 0 then None else Some (AeExit (if n = 0 then c else 128 + int n) [] True))"
proof (intro conjI)
  show "exitStatusFromResult r = None \<longleftrightarrow> r = zero_result"
    by (cases r) (auto simp: exitStatusFromResult_def zero_result_def split: option.splits)
  show "\<forall>code msg quiet. exitStatusFromResult r \<noteq> Some (AeExit code msg quiet) \<or> code \<noteq> 0"
    by (auto simp: exitStatusFromResult_def serverErrorExitCode_def grpcStatusExitCode_def split: option.splits if_splits error_kind.splits)
qed (simp add: exitStatusFromResult_def)

text \<open>An attach that is tried again loses input. After a first attach has ended, the goroutine that copied its input still
  reads the terminal; when the second attach runs, the chunk typed next can go to that goroutine, which finds its pipe closed
  and drops it, so the second session never sees it.
\<close>

theorem second_attach_loses_input:
  "\<exists>s. breach s \<and> si_read s = ''y'' \<and> map b_open (si_bridges s) = [False, True] \<and> concat (map b_out (si_bridges s)) = []"
proof -
  let ?n = "\<lparr>b_open = True, b_alive = True, b_out = []\<rparr>"
  let ?c = "\<lparr>b_open = False, b_alive = True, b_out = []\<rparr>"
  have 1: "breach \<lparr>si_bridges = [?n], si_read = []\<rparr>"
    using breach.step [OF breach.init bstep.attach] by (simp add: newPTYStdinBridge_def)
  have 2: "breach \<lparr>si_bridges = [?c], si_read = []\<rparr>"
    using breach.step [OF 1 bstep.stop [of 0]] by (simp add: stopBridge_def)
  have 3: "breach \<lparr>si_bridges = [?c, ?n], si_read = []\<rparr>"
    using breach.step [OF 2 bstep.attach] by (simp add: newPTYStdinBridge_def)
  have "breach \<lparr>si_bridges = [?c\<lparr>b_alive := False\<rparr>, ?n], si_read = ''y''\<rparr>"
    using breach.step [OF 3 bstep.copy [of 0 _ "''y''"]] by (simp add: copy_chunk_def)
  then show ?thesis by (rule exI [of _ "\<lparr>si_bridges = [?c\<lparr>b_alive := False\<rparr>, ?n], si_read = ''y''\<rparr>", OF conjI]) simp
qed

end
