(* ===== verification/Rclaude_Main.thy ===== *)
theory Rclaude_Main
  imports Pty_Attach Supervise Startup_Live
begin

text \<open>
  The local program, \<open>src/app/rclaude/main.go\<close>: the two components it gives to the startup coordinator, the handling of
  termination signals, and the exit code. Building the command line and the logger is left out.
\<close>

section \<open>Definitions\<close>

definition daemonSpec :: spec where
  "daemonSpec = \<lparr>sp_name = ComponentDaemon, sp_deps = []\<rparr>"

definition ptySpec :: spec where
  "ptySpec = \<lparr>sp_name = ComponentPTY, sp_deps = [ComponentDaemon]\<rparr>"

text \<open>\<open>errors.As\<close>: only the exit of the attached session is an \<open>ExitError\<close>.\<close>

definition as_comp_err :: "att_err \<Rightarrow> comp_err" where
  "as_comp_err e = (case e of AeExit code msg quiet \<Rightarrow> ExitError code quiet | _ \<Rightarrow> OtherError [])"

text \<open>The exit code of the process: \<^const>\<open>None\<close> is a return from \<open>main\<close>.\<close>

definition exitOnError :: "exit_err option \<Rightarrow> int" where
  "exitOnError e = (case e of None \<Rightarrow> 0 | Some (Exit code _) \<Rightarrow> code | Some StartupFailed \<Rightarrow> 1 | Some RunFailed \<Rightarrow> 1)"

text \<open>
  The goroutine that watches for signals: it waits for the first, then for the second or the grace period, until the run
  is over. \<open>sw_forced\<close> is an exit of the whole process with code 130.
\<close>

datatype sig_pc = SwWait | SwGrace | SwDone | SwForced

datatype sig_event = SigArrives | RunOver | GraceElapsed

record sig_watch =
  sw_pc :: sig_pc
  sw_cancelled :: bool

definition watch_start :: sig_watch where
  "watch_start = \<lparr>sw_pc = SwWait, sw_cancelled = False\<rparr>"

definition forceExitOnSecondSignal :: "sig_event \<Rightarrow> sig_watch \<Rightarrow> sig_watch" where
  "forceExitOnSecondSignal ev w = (case ev of RunOver \<Rightarrow> w\<lparr>sw_pc := SwDone\<rparr> | _ \<Rightarrow> w\<lparr>sw_pc := SwForced\<rparr>)"

text \<open>The timer runs only in the grace period.\<close>

definition watchShutdownSignals :: "sig_event \<Rightarrow> sig_watch \<Rightarrow> sig_watch" where
  "watchShutdownSignals ev w =
     (case sw_pc w of
        SwWait \<Rightarrow> (case ev of RunOver \<Rightarrow> w\<lparr>sw_pc := SwDone\<rparr> | SigArrives \<Rightarrow> \<lparr>sw_pc = SwGrace, sw_cancelled = True\<rparr> | GraceElapsed \<Rightarrow> w)
      | SwGrace \<Rightarrow> forceExitOnSecondSignal ev w
      | _ \<Rightarrow> w)"

section \<open>What the events of the coordinator say\<close>

text \<open>The supervisor sees the coordinator's events, each with the error of the component.\<close>

definition annotates :: "sup_event list \<Rightarrow> cevent list \<Rightarrow> bool" where
  "annotates evs ks = (map (\<lambda>e. (v_comp e, v_kind e)) evs = map (\<lambda>e. (e_comp e, e_kind e)) ks)"

lemma annotates_kinds: "annotates evs ks \<Longrightarrow> comp_kinds evs c = kinds ks c"
proof -
  let ?p = "\<lambda>x. fst x = c \<and> snd x \<noteq> KindAborted"
  assume "annotates evs ks"
  then have "map snd (filter ?p (map (\<lambda>e. (v_comp e, v_kind e)) evs)) = map snd (filter ?p (map (\<lambda>e. (e_comp e, e_kind e)) ks))"
    by (simp add: annotates_def)
  then show ?thesis by (simp add: comp_kinds_def kinds_def filter_map comp_def)
qed

definition start_inv :: "spec list \<Rightarrow> coordinator \<Rightarrow> bool" where
  "start_inv specs s =
     ((\<forall>c. c \<notin> set (comps s) \<longrightarrow> kinds (k_events s) c = [])
      \<and> (\<forall>c \<in> set (k_started s). k_run s c = RnDone \<longrightarrow> KindStarted \<in> set (kinds (k_events s) c))
      \<and> (\<forall>c. KindStarted \<in> set (kinds (k_events s) c) \<longrightarrow> set (deps_of specs c) \<subseteq> set (k_started s)))"

lemma start_inv_move:
  assumes "start_inv specs s" "comps s' = comps s" "k_events s' = k_events s" "set (k_started s) \<subseteq> set (k_started s')"
    and "\<And>c. c \<in> set (k_started s') \<Longrightarrow> k_run s' c = RnDone \<Longrightarrow> c \<in> set (k_started s) \<and> k_run s c = RnDone"
  shows "start_inv specs s'"
  using assms unfolding start_inv_def by (metis subset_trans)

lemma kinds_emit:
  "kinds (k_events (emit c k n s)) d = kinds (k_events s) d @ (if \<not> k_evclosed s \<and> d = c \<and> k \<noteq> KindAborted then [k] else [])"
  by (simp add: emit_def kinds_snoc)

lemma kinds_abort: "kinds (k_events (abort c s)) d = kinds (k_events s) d"
  by (simp add: abort_def kinds_emit)

lemma start_inv_step:
  assumes "cstep s s'" "cinv specs s" "start_inv specs s"
  shows "start_inv specs s'"
  using assms(1)
proof cases
  case (announce c n pend)
  then show ?thesis
    using assms(3) cinvD(3,5) [OF assms(2), of c] by (auto simp: start_inv_def set_run_def kinds_emit kinds_snoc)
next
  case (exited c n)
  then show ?thesis
    using assms(3) cinvD(4,5) [OF assms(2), of c] by (auto simp: start_inv_def set_run_def kinds_emit kinds_snoc)
next
  case (gave_up c n e)
  then show ?thesis
    using assms(3) by (auto simp: start_inv_def set_run_def kinds_emit kinds_snoc)
next
  case (give_up_abort c)
  then show ?thesis
    using assms(3) cinvD(1) [OF assms(2), of c] by (auto simp: start_inv_def set_run_def kinds_abort)
next
  case (coord_abort c)
  then show ?thesis
    using assms(3) by (auto simp: start_inv_def kinds_abort)
next
  case (mark c n s1 already pend)
  then show ?thesis
    using mark_fields [OF mark(4)] by (intro start_inv_move [OF assms(3)]) (auto simp: set_run_def split: if_splits)
next
  case (coord_failure f fs s1 pc)
  then show ?thesis
    using onFailure_fields [OF coord_failure(4)] by (intro start_inv_move [OF assms(3)]) auto
qed (rule start_inv_move [OF assms(3)];
    auto simp: set_run_def close_started_def markGaveUp_locked_def split: if_splits dest: cinvD(1) [OF assms(2)])+

lemma start_inv_reach: "creach specs maxRetries s \<Longrightarrow> start_inv specs s"
proof (induction rule: creach.induct)
  case (init s)
  then have "k_started s = []" "k_events s = []"
    by (auto simp: coord_New_def split: if_splits option.splits sum.splits)
  then show ?case by (simp add: start_inv_def kinds_def)
next
  case (step s s')
  then show ?case using start_inv_step creach_inv by blast
qed

text \<open>What the supervisor relies on: when the channel of events is closed, they are those of the two components, each by the
  protocol, and a session that has exited had both of them started.\<close>

lemma events_by_protocol:
  assumes "creach [daemonSpec, ptySpec] n s" "annotates evs (k_events s)"
  shows "\<forall>c. comp_kinds evs c \<in> protocol_kinds"
    and "\<forall>e \<in> set evs. v_kind e \<noteq> KindAborted \<longrightarrow> v_comp e \<in> {ComponentDaemon, ComponentPTY}"
proof -
  have c: "comps s = [ComponentDaemon, ComponentPTY]"
    using creach_live [OF assms(1)] by (simp add: daemonSpec_def ptySpec_def)
  show "\<forall>c. comp_kinds evs c \<in> protocol_kinds"
  proof
    fix c
    show "comp_kinds evs c \<in> protocol_kinds"
      using cinvD(4) [OF creach_inv [OF assms(1)], of c] annotates_kinds [OF assms(2), of c]
      by (cases "k_run s c") (auto simp: protocol_kinds_def)
  qed
  show "\<forall>e \<in> set evs. v_kind e \<noteq> KindAborted \<longrightarrow> v_comp e \<in> {ComponentDaemon, ComponentPTY}"
  proof (intro ballI impI)
    fix e assume "e \<in> set evs" "v_kind e \<noteq> KindAborted"
    then have "v_kind e \<in> set (comp_kinds evs (v_comp e))" by (auto simp: comp_kinds_def)
    then have "kinds (k_events s) (v_comp e) \<noteq> []" using annotates_kinds [OF assms(2)] by fastforce
    then show "v_comp e \<in> {ComponentDaemon, ComponentPTY}"
      using start_inv_reach [OF assms(1)] c by (auto simp: start_inv_def)
  qed
qed

lemma session_exit_means_started:
  assumes "creach [daemonSpec, ptySpec] n s" "k_evclosed s" "annotates evs (k_events s)" "exit_of evs ComponentPTY \<noteq> []"
  shows "KindStarted \<in> set (comp_kinds evs ComponentPTY)" "KindStarted \<in> set (comp_kinds evs ComponentDaemon)"
proof -
  have "KindExited \<in> set (comp_kinds evs ComponentPTY)"
    using assms(4) by (force simp: exit_of_def comp_kinds_def filter_empty_conv)
  then show p: "KindStarted \<in> set (comp_kinds evs ComponentPTY)"
    using events_by_protocol(1) [OF assms(1,3), rule_format, of ComponentPTY] by (auto simp: protocol_kinds_def)
  have c: "comps s = [ComponentDaemon, ComponentPTY]"
    using creach_live [OF assms(1)] by (simp add: daemonSpec_def ptySpec_def)
  have "k_run s ComponentDaemon = RnDone"
    using creach_inv [OF assms(1)] assms(2) c by (simp add: cinv_def)
  moreover have "ComponentDaemon \<in> set (k_started s)"
    using start_inv_reach [OF assms(1)] p annotates_kinds [OF assms(3)] components_differ
    by (auto simp: start_inv_def deps_of_def daemonSpec_def ptySpec_def)
  ultimately show "KindStarted \<in> set (comp_kinds evs ComponentDaemon)"
    using start_inv_reach [OF assms(1)] annotates_kinds [OF assms(3)] by (auto simp: start_inv_def)
qed

section \<open>Signals\<close>

abbreviation "watch_all w evs \<equiv> foldl (\<lambda>w e. watchShutdownSignals e w) w evs"

lemma watch_ended: "sw_pc w = SwDone \<or> sw_pc w = SwForced \<Longrightarrow> watch_all w evs = w"
  by (induction evs) (auto simp: watchShutdownSignals_def)

lemma watch_step:
  "sw_pc w = SwGrace \<Longrightarrow> watchShutdownSignals e w = w\<lparr>sw_pc := (if e = RunOver then SwDone else SwForced)\<rparr>"
  "watchShutdownSignals RunOver watch_start = watch_start\<lparr>sw_pc := SwDone\<rparr>"
  "watchShutdownSignals SigArrives watch_start = \<lparr>sw_pc = SwGrace, sw_cancelled = True\<rparr>"
  "watchShutdownSignals GraceElapsed watch_start = watch_start"
  by (cases e; simp add: watchShutdownSignals_def forceExitOnSecondSignal_def watch_start_def)+

lemma watch_grace:
  "sw_pc w = SwGrace \<Longrightarrow> watch_all w evs =
     (case evs of [] \<Rightarrow> w | e # _ \<Rightarrow> w\<lparr>sw_pc := (if e = RunOver then SwDone else SwForced)\<rparr>)"
  by (cases evs) (simp_all add: watch_step watch_ended)

lemma watch_started:
  "watch_all watch_start evs =
     (case dropWhile (\<lambda>e. e = GraceElapsed) evs of
        [] \<Rightarrow> watch_start
      | e # rest \<Rightarrow> if e = RunOver then watch_start\<lparr>sw_pc := SwDone\<rparr>
          else \<lparr>sw_pc = (case rest of [] \<Rightarrow> SwGrace | e' # _ \<Rightarrow> if e' = RunOver then SwDone else SwForced), sw_cancelled = True\<rparr>)"
proof (induction evs)
  case (Cons e evs)
  then show ?case
    by (cases e) (simp_all add: watch_step watch_ended watch_grace split: list.split)
qed simp

text \<open>The program stops in order and never hangs on its own shutdown. Over any sequence of signals, timer ticks and the end of
  the run: the run is cancelled exactly when a signal came before it was over; the process is killed only after a first
  signal has cancelled the run; and once that happened, the next signal, or the end of the grace period, or the end of the
  run is the last thing waited for.
\<close>

theorem shutdown_in_order:
  "sw_cancelled (watch_all watch_start evs) = (\<exists>rest. dropWhile (\<lambda>e. e = GraceElapsed) evs = SigArrives # rest) \<and>
   sw_pc (watch_all watch_start evs) =
     (case dropWhile (\<lambda>e. e = GraceElapsed) evs of
        [] \<Rightarrow> SwWait
      | e # rest \<Rightarrow> if e = RunOver then SwDone else (case rest of [] \<Rightarrow> SwGrace | e' # _ \<Rightarrow> if e' = RunOver then SwDone else SwForced))"
proof (cases "dropWhile (\<lambda>e. e = GraceElapsed) evs")
  case Nil
  show ?thesis unfolding watch_started Nil by (simp add: watch_start_def)
next
  case (Cons e rest)
  then have "e = RunOver \<or> e = SigArrives"
    using hd_dropWhile [of "\<lambda>e. e = GraceElapsed" evs] by (cases e) auto
  then show ?thesis unfolding watch_started Cons by (auto simp: watch_start_def)
qed

section \<open>One whole session\<close>

text \<open>A component that is ready is brought up by four steps of its goroutine.\<close>

lemma bring_up:
  assumes "creach specs m s" "c \<in> set (comps s)" "k_run s c = RnAttempt n" "c \<notin> set (k_started s)" "phase_of s c = Some PhasePending"
    and "list_all (\<lambda>x. cs_phase (snd x) \<noteq> PhaseWaitingRetry) (k_states s)" "\<not> k_evclosed s"
  shows "\<exists>s'. creach specs m s' \<and> k_run s' = (k_run s)(c := RnRunning n) \<and> k_started s' = c # k_started s \<and>
    k_events s' = k_events s @ [\<lparr>e_comp = c, e_kind = KindStarted, e_attempt = n\<rparr>] \<and> k_main s' = k_main s \<and> k_ctx s' = k_ctx s \<and>
    k_evclosed s' = k_evclosed s \<and> k_states s' = k_states (upd_state c (\<lambda>st. st\<lparr>cs_phase := PhaseStarted\<rparr>) s)"
proof -
  let ?u = "upd_state c (\<lambda>st. st\<lparr>cs_phase := PhaseStarted\<rparr>)"
  let ?s1 = "set_run c (RnMark n) s"
  let ?s2 = "set_run c (RnClose n False []) (?u ?s1)"
  let ?s3 = "set_run c (RnAnnounce n []) (?s2\<lparr>k_started := c # k_started s\<rparr>)"
  let ?s4 = "set_run c (RnPublish n []) (emit c KindStarted n ?s3)"
  have m: "markStarted_locked c ?s1 = (?u ?s1, False, [])"
    using assms(5,6) by (auto simp: list_all_iff markStarted_locked_def Let_def pendingPeerFailuresLocked_def filter_empty_conv upd_state_def set_run_def phase_of_def
        split: if_splits)
  have k: "k_started ?s2 = k_started s" "comps ?s1 = comps s" "comps ?s2 = comps s" "comps ?s3 = comps s" "comps ?s4 = comps s"
    by (simp_all add: set_run_def)
  have "creach specs m ?s1" using creach.step [OF assms(1) cstep.ready [OF assms(2,3)]] .
  then have "creach specs m ?s2"
    by (rule creach.step) (rule cstep.mark [OF _ _ m], simp_all add: k assms(2), simp add: set_run_def)
  from creach.step [OF this cstep.close_ch [where c = c and n = n and already = False and pend = "[]"]]
  have "creach specs m ?s3" using assms(2,4) k by (simp add: close_started_def set_run_def)
  from creach.step [OF this cstep.announce [where c = c and n = n and pend = "[]"]]
  have "creach specs m ?s4" using assms(2) k by (simp add: set_run_def)
  from creach.step [OF this cstep.published [where c = c and n = n]]
  have "creach specs m (set_run c (RnRunning n) ?s4)" using assms(2) k by (simp add: set_run_def)
  then show ?thesis
    by (rule exI [of _ "set_run c (RnRunning n) ?s4", OF conjI]) (use assms(7) in \<open>simp add: set_run_def emit_def upd_state_def\<close>)
qed


lemma specs_accepted: "\<exists>s. coord_New True DefaultStartupMaxRetries [daemonSpec, ptySpec] = Some (Inr s)"
proof -
  have "(case coord_New True DefaultStartupMaxRetries [daemonSpec, ptySpec] of Some (Inr s) \<Rightarrow> True | _ \<Rightarrow> False)" by code_simp
  then show ?thesis by (auto split: option.splits sum.splits)
qed

text \<open>The local program's components, both up.\<close>

lemma session_up:
  "\<exists>s. creach [daemonSpec, ptySpec] DefaultStartupMaxRetries s \<and> k_run s ComponentDaemon = RnRunning 1 \<and> k_run s ComponentPTY = RnRunning 1 \<and>
     map (\<lambda>e. (e_comp e, e_kind e)) (k_events s) = [(ComponentDaemon, KindStarted), (ComponentPTY, KindStarted)] \<and>
     k_main s = KSelect \<and> \<not> k_evclosed s"
proof -
  let ?D = ComponentDaemon and ?P = ComponentPTY and ?S = "[daemonSpec, ptySpec]" and ?n = DefaultStartupMaxRetries
  note [simp] = components_differ components_differ [symmetric]
  obtain s where s: "coord_New True ?n ?S = Some (Inr s)" using specs_accepted by blast
  have f: "k_started s = []" "k_events s = []" "\<not> k_evclosed s" "\<not> k_ctx s" "k_main s = KSelect"
    "k_states s = [(?D, \<lparr>cs_phase = PhasePending, cs_last = zero_failure\<rparr>), (?P, \<lparr>cs_phase = PhasePending, cs_last = zero_failure\<rparr>)]"
    using s by (auto simp: coord_New_def daemonSpec_def ptySpec_def split: if_splits option.splits sum.splits)
  have r: "k_run s ?D = RnDeps []" "k_run s ?P = RnDeps [?D]"
    using coord_New_facts(7) [OF s] by (simp_all add: deps_of_def daemonSpec_def ptySpec_def)
  have cs: "?D \<in> set (comps x)" "?P \<in> set (comps x)" if "creach ?S ?n x" for x
    using creach_live [OF that] by (simp_all add: daemonSpec_def ptySpec_def)
  note init = creach.init [OF s]
  let ?s1 = "set_run ?D (RnAttempt 1) s"
  have s1: "creach ?S ?n ?s1" by (rule creach.step [OF init cstep.deps_done [OF cs(1) [OF init] r(1)]])
  obtain s2 where s2: "creach ?S ?n s2" "k_run s2 = (k_run ?s1)(?D := RnRunning 1)" "k_started s2 = [?D]"
    "k_events s2 = [\<lparr>e_comp = ?D, e_kind = KindStarted, e_attempt = 1\<rparr>]" "k_main s2 = KSelect" "\<not> k_evclosed s2"
    "k_states s2 = k_states (upd_state ?D (\<lambda>st. st\<lparr>cs_phase := PhaseStarted\<rparr>) ?s1)"
    using bring_up [OF s1 cs(1) [OF s1], of 1] f by (auto simp: set_run_def phase_of_def)
  let ?s3 = "set_run ?P (RnDeps []) s2"
  have s3: "creach ?S ?n ?s3"
    using creach.step [OF s2(1) cstep.dep_ready [OF cs(2) [OF s2(1)], of ?D "[]"]] r s2(2,3) by (simp add: set_run_def)
  let ?s4 = "set_run ?P (RnAttempt 1) ?s3"
  have s4: "creach ?S ?n ?s4"
    using creach.step [OF s3 cstep.deps_done [OF cs(2) [OF s3]]] by (simp add: set_run_def)
  have "k_run ?s4 ?P = RnAttempt 1" "?P \<notin> set (k_started ?s4)" "phase_of ?s4 ?P = Some PhasePending"
    "list_all (\<lambda>x. cs_phase (snd x) \<noteq> PhaseWaitingRetry) (k_states ?s4)" "\<not> k_evclosed ?s4"
    using s2(3,6,7) f(6) by (simp_all add: set_run_def phase_of_def upd_state_def)
  note up = bring_up [OF s4 cs(2) [OF s4] this]
  have k: "k_main ?s4 = KSelect" "\<not> k_evclosed ?s4" "k_events ?s4 = k_events s2" "k_run ?s4 ?D = RnRunning 1"
    using s2(2,5,6) by (simp_all add: set_run_def)
  obtain s5 where s5: "creach ?S ?n s5" "k_run s5 = (k_run ?s4)(?P := RnRunning 1)" "k_main s5 = k_main ?s4" "k_evclosed s5 = k_evclosed ?s4"
    "k_events s5 = k_events ?s4 @ [\<lparr>e_comp = ?P, e_kind = KindStarted, e_attempt = 1\<rparr>]"
    using up by blast
  have "k_run s5 ?D = RnRunning 1" "k_run s5 ?P = RnRunning 1" "k_main s5 = KSelect" "\<not> k_evclosed s5"
    unfolding s5(2-4) using k by simp_all
  moreover have "map (\<lambda>e. (e_comp e, e_kind e)) (k_events s5) = [(?D, KindStarted), (?P, KindStarted)]"
    unfolding s5(5) k(3) s2(4) by simp
  ultimately show ?thesis using s5(1) by (intro exI [of _ s5] conjI)
qed

lemma session_run:
  "\<exists>s. creach [daemonSpec, ptySpec] DefaultStartupMaxRetries s \<and> k_evclosed s \<and>
     map (\<lambda>e. (e_comp e, e_kind e)) (k_events s) =
       [(ComponentDaemon, KindStarted), (ComponentPTY, KindStarted), (ComponentPTY, KindExited), (ComponentDaemon, KindExited)]"
proof -
  let ?D = ComponentDaemon and ?P = ComponentPTY and ?S = "[daemonSpec, ptySpec]" and ?n = DefaultStartupMaxRetries
  note [simp] = components_differ components_differ [symmetric]
  obtain s where s: "creach ?S ?n s" "k_run s ?D = RnRunning 1" "k_run s ?P = RnRunning 1" "k_main s = KSelect" "\<not> k_evclosed s"
    and ev: "map (\<lambda>e. (e_comp e, e_kind e)) (k_events s) = [(?D, KindStarted), (?P, KindStarted)]"
    using session_up by (elim exE conjE) (rule that)
  have cs: "set (comps x) = {?D, ?P}" if "creach ?S ?n x" for x
    using creach_live [OF that] by (simp add: daemonSpec_def ptySpec_def)
  let ?s1 = "set_run ?P RnDone (emit ?P KindExited 1 s)"
  have s1: "creach ?S ?n ?s1"
    using creach.step [OF s(1) cstep.exited [of ?P _ 1]] cs [OF s(1)] s(3) by simp
  let ?s2 = "set_run ?D RnDone (emit ?D KindExited 1 ?s1)"
  have s2: "creach ?S ?n ?s2"
    using creach.step [OF s1 cstep.exited [of ?D _ 1]] cs [OF s1] s(2) by (simp add: set_run_def)
  have fin: "k_run ?s2 c = RnDone" if "c \<in> set (comps ?s2)" for c
    using that cs [OF s2] by (auto simp: set_run_def)
  have s3: "creach ?S ?n (?s2\<lparr>k_ctx := True\<rparr>)" using creach.step [OF s2 cstep.all_done] fin by blast
  have s4: "creach ?S ?n (?s2\<lparr>k_ctx := True, k_main := KDone\<rparr>)"
    using creach.step [OF s3 cstep.coord_cancel] s(4) by (simp add: set_run_def)
  let ?s5 = "?s2\<lparr>k_ctx := True, k_main := KDone, k_evclosed := True\<rparr>"
  have "creach ?S ?n ?s5"
    using creach.step [OF s4 cstep.close_events] fin by (simp add: set_run_def)
  moreover have "map (\<lambda>e. (e_comp e, e_kind e)) (k_events ?s5) = [(?D, KindStarted), (?P, KindStarted), (?P, KindExited), (?D, KindExited)]"
    using s(5) ev by (simp add: set_run_def)
  ultimately show ?thesis by (intro exI [of _ ?s5] conjI) simp_all
qed

end
