(* ===== verification/Logx.thy ===== *)
theory Logx
  imports Go_Path
begin

text \<open>
  The logger, \<open>src/pkg/logx/logx.go\<close>. The zap library decides how a level name is read (an argument) and how an entry is
  encoded (not modelled): a core keeps an entry when its level is at least the core's. The rotating file of the lumberjack
  library is the list of entries written to it, with its settings. The context is reduced to the logger it carries.
\<close>

section \<open>Definitions\<close>

datatype log_level = DebugLevel | InfoLevel | WarnLevel | ErrorLevel

fun level_num :: "log_level \<Rightarrow> int" where
  "level_num DebugLevel = -1"
| "level_num InfoLevel = 0"
| "level_num WarnLevel = 1"
| "level_num ErrorLevel = 2"

datatype log_format = FormatJSON | FormatText

definition DefaultFilename :: string where "DefaultFilename = ''rclaude.log''"
definition DefaultMaxSizeMB :: int where "DefaultMaxSizeMB = 100"
definition DefaultMaxBackups :: int where "DefaultMaxBackups = 3"
definition DefaultMaxAgeDays :: int where "DefaultMaxAgeDays = 7"

text \<open>\<open>lo_output\<close>: a writer is injected (by tests).\<close>

record log_options =
  lo_level :: string
  lo_format :: string
  lo_dir :: string
  lo_filename :: string
  lo_max_size :: int
  lo_max_backups :: int
  lo_max_age :: int
  lo_output :: bool

datatype log_err = LogLevel string | LogDir string string | LogClose "string list"

record rotating_file =
  rf_filename :: string
  rf_max_size :: int
  rf_max_backups :: int
  rf_max_age :: int

text \<open>Where the entries go; only a rotating file has to be closed.\<close>

datatype log_sink = SinkWriter | SinkFile rotating_file

type_synonym log_kv = "(string \<times> string) list"

record log_core =
  lc_level :: log_level
  lc_format :: log_format
  lc_sink :: log_sink

record log_entry =
  le_level :: log_level
  le_msg :: string
  le_fields :: log_kv

datatype logger = NopLogger | ZapLogger log_core log_kv

definition parseLevel :: "(string \<Rightarrow> log_level option) \<Rightarrow> string \<Rightarrow> log_err + log_level" where
  "parseLevel zap_parse level =
     (if trim_space level = [] then Inr InfoLevel
      else (case zap_parse (to_lower (trim_space level)) of None \<Rightarrow> Inl (LogLevel level) | Some l \<Rightarrow> Inr l))"

text \<open>\<open>strings.EqualFold\<close> with an ASCII text.\<close>

definition normalizeFormat :: "string \<Rightarrow> log_format" where
  "normalizeFormat f = (if to_lower f = ''text'' then FormatText else FormatJSON)"

definition positiveOrDefault :: "int \<Rightarrow> int \<Rightarrow> int" where
  "positiveOrDefault v fallback = (if v > 0 then v else fallback)"

definition DefaultDir :: "string option \<Rightarrow> string \<Rightarrow> string" where
  "DefaultDir home tmp =
     (case home of
        None \<Rightarrow> fp_join [tmp, ''rclaude'', ''logs'']
      | Some h \<Rightarrow> if h = [] then fp_join [tmp, ''rclaude'', ''logs''] else fp_join [h, ''.rclaude'', ''logs''])"

definition openSink :: "(string \<Rightarrow> string option) \<Rightarrow> string option \<Rightarrow> string \<Rightarrow> log_options \<Rightarrow> log_err + log_sink" where
  "openSink mkdirAll home tmp opts =
     (if lo_output opts then Inr SinkWriter
      else
        (let dir = (if lo_dir opts = [] then DefaultDir home tmp else lo_dir opts) in
         case mkdirAll dir of
           Some e \<Rightarrow> Inl (LogDir dir e)
         | None \<Rightarrow>
             (let name = (if lo_filename opts = [] then DefaultFilename else lo_filename opts) in
              Inr (SinkFile \<lparr>rf_filename = fp_join [dir, name],
                     rf_max_size = positiveOrDefault (lo_max_size opts) DefaultMaxSizeMB,
                     rf_max_backups = positiveOrDefault (lo_max_backups opts) DefaultMaxBackups,
                     rf_max_age = positiveOrDefault (lo_max_age opts) DefaultMaxAgeDays\<rparr>))))"

definition New_logger ::
  "(string \<Rightarrow> log_level option) \<Rightarrow> (string \<Rightarrow> string option) \<Rightarrow> string option \<Rightarrow> string \<Rightarrow> log_options \<Rightarrow> log_err + logger" where
  "New_logger zap_parse mkdirAll home tmp opts =
     (case parseLevel zap_parse (lo_level opts) of
        Inl e \<Rightarrow> Inl e
      | Inr level \<Rightarrow>
          (case openSink mkdirAll home tmp opts of
             Inl e \<Rightarrow> Inl e
           | Inr sink \<Rightarrow> Inr (ZapLogger \<lparr>lc_level = level, lc_format = normalizeFormat (lo_format opts), lc_sink = sink\<rparr> [])))"

text \<open>\<open>Debug\<close>, \<open>Info\<close>, \<open>Warn\<close> and \<open>Error\<close>: what the call adds to the output.\<close>

definition log_at :: "log_level \<Rightarrow> string \<Rightarrow> log_kv \<Rightarrow> logger \<Rightarrow> log_entry list" where
  "log_at level msg kv l =
     (case l of
        NopLogger \<Rightarrow> []
      | ZapLogger core fds \<Rightarrow>
          if level_num (lc_level core) \<le> level_num level
          then [\<lparr>le_level = level, le_msg = msg, le_fields = fds @ kv\<rparr>] else [])"

definition With :: "log_kv \<Rightarrow> logger \<Rightarrow> logger" where
  "With kv l = (case l of NopLogger \<Rightarrow> NopLogger | ZapLogger core fds \<Rightarrow> ZapLogger core (fds @ kv))"

text \<open>\<open>Close\<close> syncs, then closes the file when there is one; both errors are joined.\<close>

definition logger_Close :: "string option \<Rightarrow> string option \<Rightarrow> log_core \<Rightarrow> log_err option" where
  "logger_Close syncErr closeErr core =
     (let errs = (case syncErr of Some e \<Rightarrow> [e] | None \<Rightarrow> []) @
                 (case lc_sink core of SinkWriter \<Rightarrow> [] | SinkFile _ \<Rightarrow> (case closeErr of Some e \<Rightarrow> [e] | None \<Rightarrow> []))
      in if errs = [] then None else Some (LogClose errs))"

record log_ctx =
  cx_logger :: "logger option"

definition WithContext :: "log_ctx \<Rightarrow> logger option \<Rightarrow> log_ctx" where
  "WithContext ctx l = (case l of None \<Rightarrow> ctx | Some l \<Rightarrow> ctx\<lparr>cx_logger := Some l\<rparr>)"

definition FromContext :: "log_ctx option \<Rightarrow> logger" where
  "FromContext ctx = (case ctx of None \<Rightarrow> NopLogger | Some c \<Rightarrow> (case cx_logger c of None \<Rightarrow> NopLogger | Some l \<Rightarrow> l))"

section \<open>Properties\<close>

text \<open>A logger put into a context is the one taken out; without one, nothing is ever written.\<close>

theorem context_logger:
  "FromContext (Some (WithContext ctx (Some l))) = l" "FromContext (Some (WithContext ctx None)) = FromContext (Some ctx)"
  "cx_logger ctx = None \<Longrightarrow> log_at level msg kv (With fds (FromContext (Some ctx))) = []" "log_at level msg kv (FromContext None) = []"
  by (simp_all add: FromContext_def WithContext_def With_def log_at_def)

text \<open>Derived loggers accumulate their fields in order and keep the level.\<close>

theorem derived_fields:
  "log_at level msg kv (With b (With a (ZapLogger core []))) =
     (if level_num (lc_level core) \<le> level_num level then [\<lparr>le_level = level, le_msg = msg, le_fields = a @ b @ kv\<rparr>] else [])"
  by (simp add: With_def log_at_def)

text \<open>The logger of both programs (level \<open>debug\<close>, default directory and rotation): when it can be made it writes every entry, to
  a file of the given name in the log directory, never to the terminal.\<close>

definition program_options :: "string \<Rightarrow> log_options" where
  "program_options filename =
     \<lparr>lo_level = ''debug'', lo_format = ''json'', lo_dir = [], lo_filename = filename, lo_max_size = 0, lo_max_backups = 0,
      lo_max_age = 0, lo_output = False\<rparr>"

theorem program_logger:
  assumes "zap_parse ''debug'' = Some DebugLevel" "New_logger zap_parse mkdirAll home tmp (program_options name) = Inr l" "name \<noteq> []"
  shows "(\<exists>core fds. l = ZapLogger core fds \<and> lc_format core = FormatJSON \<and>
       lc_sink core = SinkFile \<lparr>rf_filename = fp_join [DefaultDir home tmp, name], rf_max_size = 100, rf_max_backups = 3, rf_max_age = 7\<rparr>)
    \<and> length (log_at level msg kv l) = 1"
proof -
  have d: "to_lower (trim_space ''debug'') = ''debug''" "trim_space ''debug'' \<noteq> []" "normalizeFormat ''json'' = FormatJSON" by code_simp+
  have "level_num DebugLevel \<le> level_num level" by (cases level) simp_all
  then show ?thesis
    using assms d
    by (auto simp: New_logger_def parseLevel_def openSink_def program_options_def log_at_def positiveOrDefault_def DefaultMaxSizeMB_def
        DefaultMaxBackups_def DefaultMaxAgeDays_def Let_def split: option.splits if_splits)
qed

end
