(* ===== verification/Program.thy ===== *)
theory Program
  imports Rclaude_Main Logx Sync_Daemon
begin

text \<open>
  The local program from its command line to its exit code, \<open>newRootCommand\<close>, \<open>runUnified\<close> and \<open>runCoordinated\<close> of
  \<open>src/app/rclaude/main.go\<close>: the agent is checked, the configuration is loaded, the working directory is resolved as the
  workspace root, the logger is made, and only then the coordinator is built and the supervisor reads its events. Parsing the
  command line is the cobra library's; the events are those the coordinator of \<open>Startup\<close> sends.
\<close>

section \<open>Definitions\<close>

datatype unified_err =
  UeBlankAgent | UeConfig cfg_error | UeWorkspace ws_error | UeLogger log_err | UeCoordinator start_error | UePanic | UeExit exit_err

text \<open>What the program finds around it.\<close>

record host_env =
  he_load :: "string \<Rightarrow> daemon_config \<Rightarrow> daemon_config option"
  he_fs :: osfs
  he_home :: "string option"
  he_cwd :: "string option"
  he_tmp :: string
  he_level :: "string \<Rightarrow> log_level option"
  he_mkdir :: "string \<Rightarrow> string option"

definition runCoordinated :: "sup_event list \<Rightarrow> unified_err option" where
  "runCoordinated evs =
     (case coord_New True DefaultStartupMaxRetries [daemonSpec, ptySpec] of
        None \<Rightarrow> Some UePanic
      | Some (Inl e) \<Rightarrow> Some (UeCoordinator e)
      | Some (Inr _) \<Rightarrow> map_option UeExit (snd (supervise evs)))"

text \<open>The result, and whether the components were started.\<close>

definition runUnified :: "host_env \<Rightarrow> string \<Rightarrow> string \<Rightarrow> sup_event list \<Rightarrow> bool \<times> unified_err option" where
  "runUnified env configPath agent evs =
     (case LoadDaemon (he_load env) configPath of
        Inl e \<Rightarrow> (False, Some (UeConfig e))
      | Inr cfg \<Rightarrow>
          (case ResolveWorkspaceRoot (he_fs env) (he_home env) (he_cwd env) of
             Inl e \<Rightarrow> (False, Some (UeWorkspace e))
           | Inr root \<Rightarrow>
               (case New_logger (he_level env) (he_mkdir env) (he_home env) (he_tmp env) (program_options ''rclaude.log'') of
                  Inl e \<Rightarrow> (False, Some (UeLogger e))
                | Inr logger \<Rightarrow> (True, runCoordinated evs))))"

definition rootCommand_RunE :: "host_env \<Rightarrow> string \<Rightarrow> string \<Rightarrow> sup_event list \<Rightarrow> bool \<times> unified_err option" where
  "rootCommand_RunE env configPath agent evs =
     (if trim_space agent = [] then (False, Some UeBlankAgent) else runUnified env configPath agent evs)"

text \<open>\<open>main\<close> and \<open>exitOnError\<close>: the exit code, and whether the error is printed.\<close>

definition exit_of_command :: "unified_err option \<Rightarrow> int \<times> bool" where
  "exit_of_command e =
     (case e of
        None \<Rightarrow> (0, False)
      | Some (UeExit x) \<Rightarrow> (exitOnError (Some x), False)
      | Some _ \<Rightarrow> (1, True))"

section \<open>Properties\<close>

text \<open>The two components of the program always form a valid graph.\<close>

lemma runCoordinated_supervises: "runCoordinated evs = map_option UeExit (snd (supervise evs))"
  using specs_accepted by (auto simp: runCoordinated_def)

text \<open>Nothing is started before everything is checked. The components are started if and only if the agent is not blank, the
  configuration is valid, the working directory is an admissible workspace root and the log file can be opened. If not, the
  program prints the reason and exits with code 1; if so, its exit code is the one the supervisor decides on, without a message
  of its own.
\<close>

theorem program_starts_checked:
  "let (started, err) = rootCommand_RunE env configPath agent evs in
   (started \<longleftrightarrow> trim_space agent \<noteq> [] \<and> (\<exists>cfg. LoadDaemon (he_load env) configPath = Inr cfg) \<and>
      (\<exists>root. ResolveWorkspaceRoot (he_fs env) (he_home env) (he_cwd env) = Inr root) \<and>
      (\<exists>l. New_logger (he_level env) (he_mkdir env) (he_home env) (he_tmp env) (program_options ''rclaude.log'') = Inr l)) \<and>
   exit_of_command err = (if started then (exitOnError (snd (supervise evs)), False) else (1, True))"
  by (auto simp: rootCommand_RunE_def runUnified_def runCoordinated_supervises exit_of_command_def exitOnError_def
      split: sum.splits option.splits)

end
