(* ===== verification/Terminal_Sources.thy ===== *)
theory Terminal_Sources
  imports Pty_Attach
begin

text \<open>
  Where the window sizes come from, \<open>src/pkg/ptyclient/resize_unix.go\<close> and \<open>resize_windows.go\<close>, and the terminal on
  Windows and on systems without one, \<open>src/pkg/ptyattach/terminal_windows.go\<close> and \<open>terminal_other.go\<close>. A source is a
  goroutine that puts sizes into a channel of capacity four without waiting; its steps, the changes of the window and the
  client's reads interleave freely. The calls of the system are outcomes; console modes and coordinates are words of their
  width.
\<close>

section \<open>Definitions\<close>

subsection \<open>Window sizes\<close>

definition resizeBuffer :: nat where "resizeBuffer = 4"

text \<open>The channel with what the client took from it, the pending signal (the channel of signals holds one) and the window as the
  system reports it. \<open>z_lost\<close> counts the sizes for which there was no room.\<close>

record 'w size_source =
  z_started :: bool
  z_closed :: bool
  z_signal :: bool
  z_window :: "'w option"
  z_last :: window_size
  z_out :: "window_size list"
  z_taken :: "window_size list"
  z_lost :: nat

definition querySize :: "pty_winsize option \<Rightarrow> window_size" where
  "querySize ws =
     (case ws of
        None \<Rightarrow> zero_size
      | Some w \<Rightarrow> \<lparr>ws_cols = ucast (pw_cols w), ws_rows = ucast (pw_rows w), ws_xpixel = ucast (pw_x w), ws_ypixel = ucast (pw_y w)\<rparr>)"

definition emitResize :: "window_size \<Rightarrow> 'w size_source \<Rightarrow> 'w size_source" where
  "emitResize sz z =
     (if length (z_out z) < resizeBuffer then z\<lparr>z_out := z_out z @ [sz]\<rparr> else z\<lparr>z_lost := Suc (z_lost z)\<rparr>)"

datatype 'w size_event = ZWindow "'w option" | ZRun | ZStop | ZTake

text \<open>What the client and the user of the terminal do; a change of the window raises the signal.\<close>

definition size_surroundings :: "'w size_event \<Rightarrow> 'w size_source \<Rightarrow> 'w size_source option" where
  "size_surroundings ev z =
     (case ev of
        ZWindow w \<Rightarrow> Some (z\<lparr>z_window := w, z_signal := True\<rparr>)
      | ZTake \<Rightarrow> (case z_out z of [] \<Rightarrow> None | sz # rest \<Rightarrow> Some (z\<lparr>z_out := rest, z_taken := z_taken z @ [sz]\<rparr>))
      | _ \<Rightarrow> None)"

text \<open>The goroutine on Unix: the size at the start, then one for every signal, until the context is done.\<close>

definition NewSIGWINCHResize :: "pty_winsize size_event \<Rightarrow> pty_winsize size_source \<Rightarrow> pty_winsize size_source option" where
  "NewSIGWINCHResize ev z =
     (case ev of
        ZRun \<Rightarrow>
          if z_closed z then None
          else if \<not> z_started z then Some (emitResize (querySize (z_window z)) (z\<lparr>z_started := True\<rparr>))
          else if z_signal z then Some (emitResize (querySize (z_window z)) (z\<lparr>z_signal := False\<rparr>))
          else None
      | ZStop \<Rightarrow> if z_started z \<and> \<not> z_closed z then Some (z\<lparr>z_closed := True\<rparr>) else None
      | _ \<Rightarrow> size_surroundings ev z)"

text \<open>A console window, in characters, as 16-bit coordinates: the differences wrap.\<close>

record console_window =
  cw_left :: "16 word"
  cw_right :: "16 word"
  cw_top :: "16 word"
  cw_bottom :: "16 word"

definition querySize_windows :: "console_window option \<Rightarrow> window_size" where
  "querySize_windows info =
     (case info of
        None \<Rightarrow> zero_size
      | Some w \<Rightarrow>
          (let cols = cw_right w - cw_left w + 1; rows = cw_bottom w - cw_top w + 1 in
           if sint cols \<le> 0 \<or> sint rows \<le> 0 then zero_size
           else \<lparr>ws_cols = scast cols, ws_rows = scast rows, ws_xpixel = 0, ws_ypixel = 0\<rparr>))"

text \<open>The goroutine on Windows: the size at the start, then one for every tick at which it has changed. \<open>ZRun\<close> is a tick.\<close>

definition NewPollResize :: "console_window size_event \<Rightarrow> console_window size_source \<Rightarrow> console_window size_source option" where
  "NewPollResize ev z =
     (case ev of
        ZRun \<Rightarrow>
          (let current = querySize_windows (z_window z) in
           if z_closed z then None
           else if \<not> z_started z then Some (emitResize current (z\<lparr>z_started := True, z_last := current\<rparr>))
           else if current = z_last z then Some z
           else Some (emitResize current (z\<lparr>z_last := current\<rparr>)))
      | ZStop \<Rightarrow> if z_started z \<and> \<not> z_closed z then Some (z\<lparr>z_closed := True\<rparr>) else None
      | _ \<Rightarrow> size_surroundings ev z)"

fun size_run ::
  "('w size_event \<Rightarrow> 'w size_source \<Rightarrow> 'w size_source option) \<Rightarrow> 'w size_event list \<Rightarrow> 'w size_source \<Rightarrow> 'w size_source option" where
  "size_run src [] z = Some z"
| "size_run src (ev # evs) z = Option.bind (src ev z) (size_run src evs)"

definition size_init :: "'w option \<Rightarrow> 'w size_source" where
  "size_init w = \<lparr>z_started = False, z_closed = False, z_signal = False, z_window = w, z_last = zero_size, z_out = [], z_taken = [],
     z_lost = 0\<rparr>"

subsection \<open>The console of Windows\<close>

unbundle bit_operations_syntax

record console =
  co_input :: "32 word"
  co_output :: "32 word"

text \<open>The bits of the console modes, and the outcomes of the calls in the order they are made.\<close>

record console_bits =
  cb_ECHO_INPUT :: "32 word"
  cb_LINE_INPUT :: "32 word"
  cb_PROCESSED_INPUT :: "32 word"
  cb_VT_INPUT :: "32 word"
  cb_VT_PROCESSING :: "32 word"

record console_io =
  ci_get_in :: "string option"
  ci_set_in :: "string option"
  ci_get_out :: "string option"
  ci_set_out :: "string option"
  ci_window :: "string + console_window"
  ci_restore_in :: "string option"
  ci_restore_out :: "string option"

datatype console_err =
  CeQueryIn string | CeSetIn string | CeQueryOut string | CeEnableVT string | CeSize string | CeInvalidSize int int | CeRestore string

definition raw_input :: "console_bits \<Rightarrow> 32 word \<Rightarrow> 32 word" where
  "raw_input b mode = (mode AND NOT (cb_ECHO_INPUT b OR cb_LINE_INPUT b OR cb_PROCESSED_INPUT b)) OR cb_VT_INPUT b"

definition restore_input :: "console_io \<Rightarrow> 32 word \<Rightarrow> console_err \<Rightarrow> console \<Rightarrow> console \<times> console_err list" where
  "restore_input io mode err c =
     (case ci_restore_in io of Some e \<Rightarrow> (c, [err, CeRestore e]) | None \<Rightarrow> (c\<lparr>co_input := mode\<rparr>, [err]))"

definition enableConsoleModes :: "console_bits \<Rightarrow> console_io \<Rightarrow> console \<Rightarrow> console \<times> (console_err list + console)" where
  "enableConsoleModes b io c =
     (case ci_get_in io of
        Some e \<Rightarrow> (c, Inl [CeQueryIn e])
      | None \<Rightarrow>
          (case ci_set_in io of
             Some e \<Rightarrow> (c, Inl [CeSetIn e])
           | None \<Rightarrow>
               (let c1 = c\<lparr>co_input := raw_input b (co_input c)\<rparr> in
                case ci_get_out io of
                  Some e \<Rightarrow> map_prod id Inl (restore_input io (co_input c) (CeQueryOut e) c1)
                | None \<Rightarrow>
                    (case ci_set_out io of
                       Some e \<Rightarrow> map_prod id Inl (restore_input io (co_input c) (CeEnableVT e) c1)
                     | None \<Rightarrow> (c1\<lparr>co_output := co_output c OR cb_VT_PROCESSING b\<rparr>, Inr c)))))"

definition restoreConsole :: "console_io \<Rightarrow> console \<Rightarrow> console \<Rightarrow> console \<times> string option" where
  "restoreConsole io state c =
     (case ci_restore_in io of
        Some e \<Rightarrow> (c, Some e)
      | None \<Rightarrow>
          (let c1 = c\<lparr>co_input := co_input state\<rparr> in
           case ci_restore_out io of Some e \<Rightarrow> (c1, Some e) | None \<Rightarrow> (c1\<lparr>co_output := co_output state\<rparr>, None)))"

definition currentWindowSize_windows :: "console_io \<Rightarrow> console_err + window_size" where
  "currentWindowSize_windows io =
     (case ci_window io of
        Inl e \<Rightarrow> Inl (CeSize e)
      | Inr w \<Rightarrow>
          (let cols = cw_right w - cw_left w + 1; rows = cw_bottom w - cw_top w + 1 in
           if sint cols \<le> 0 \<or> sint rows \<le> 0 then Inl (CeInvalidSize (sint cols) (sint rows))
           else Inr \<lparr>ws_cols = scast cols, ws_rows = scast rows, ws_xpixel = 0, ws_ypixel = 0\<rparr>))"

definition Prepare_windows :: "console_bits \<Rightarrow> console_io \<Rightarrow> console \<Rightarrow> console \<times> (console_err list + window_size \<times> console)" where
  "Prepare_windows b io c =
     (case enableConsoleModes b io c of
        (c1, Inl errs) \<Rightarrow> (c1, Inl errs)
      | (c1, Inr state) \<Rightarrow>
          (case currentWindowSize_windows io of
             Inl e \<Rightarrow>
               (case restoreConsole io state c1 of
                  (c2, Some re) \<Rightarrow> (c2, Inl [e, CeRestore re])
                | (c2, None) \<Rightarrow> (c2, Inl [e]))
           | Inr sz \<Rightarrow> (c1, Inr (sz, state))))"

text \<open>Elsewhere there is no terminal.\<close>

definition IsTerminal_other :: "int \<Rightarrow> bool" where "IsTerminal_other fd = False"

definition Prepare_other :: "console \<Rightarrow> console \<times> (string + window_size \<times> console)" where
  "Prepare_other c = (c, Inl ''ptyattach: terminal control is not supported on this platform'')"

section \<open>Properties\<close>

definition sizes_sent :: "'w size_source \<Rightarrow> window_size list" where
  "sizes_sent z = z_taken z @ z_out z"

text \<open>The channel holds at most four sizes, and as long as none was lost the newest size sent is the window's size, except for a
  change whose signal is still pending.\<close>

definition source_inv :: "pty_winsize size_source \<Rightarrow> bool" where
  "source_inv z \<longleftrightarrow>
     length (z_out z) \<le> resizeBuffer \<and> (z_closed z \<longrightarrow> z_started z) \<and>
     (\<not> z_started z \<longrightarrow> sizes_sent z = []) \<and>
     (z_started z \<and> z_lost z = 0 \<longrightarrow> sizes_sent z \<noteq> [] \<and> (\<not> z_signal z \<longrightarrow> last (sizes_sent z) = querySize (z_window z)))"

lemma emitResize_fields [simp]:
  "z_started (emitResize sz z) = z_started z" "z_closed (emitResize sz z) = z_closed z" "z_signal (emitResize sz z) = z_signal z"
  "z_window (emitResize sz z) = z_window z"
  "sizes_sent (emitResize sz z) = sizes_sent z @ (if length (z_out z) < resizeBuffer then [sz] else [])"
  "z_lost (emitResize sz z) = z_lost z + (if length (z_out z) < resizeBuffer then 0 else 1)"
  "length (z_out (emitResize sz z)) \<le> resizeBuffer \<longleftrightarrow> length (z_out z) \<le> resizeBuffer"
  by (auto simp: emitResize_def sizes_sent_def)

lemma source_inv_step:
  assumes "NewSIGWINCHResize ev z = Some z'" "source_inv z" shows "source_inv z'"
proof (cases ev)
  case ZRun
  then show ?thesis using assms by (auto simp: NewSIGWINCHResize_def source_inv_def sizes_sent_def emitResize_def split: if_splits)
next
  case ZTake
  then show ?thesis
    using assms by (auto simp: NewSIGWINCHResize_def size_surroundings_def source_inv_def sizes_sent_def split: list.splits)
qed (use assms in \<open>auto simp: NewSIGWINCHResize_def size_surroundings_def source_inv_def sizes_sent_def split: if_splits\<close>)

lemma source_inv_run: "size_run NewSIGWINCHResize evs z = Some z' \<Longrightarrow> source_inv z \<Longrightarrow> source_inv z'"
  by (induction evs arbitrary: z) (auto simp: bind_eq_Some_conv dest: source_inv_step)

text \<open>The sizes arrive as long as the client keeps up: after any sequence of window changes, signals and reads, the channel holds at
  most four sizes, and if no size was lost and no signal is pending, the newest size sent is the size of the window.\<close>

theorem sizes_follow_window:
  assumes "size_run NewSIGWINCHResize evs (size_init w) = Some z"
  shows "length (z_out z) \<le> 4 \<and>
    (z_started z \<and> z_lost z = 0 \<and> \<not> z_signal z \<longrightarrow> sizes_sent z \<noteq> [] \<and> last (sizes_sent z) = querySize (z_window z))"
  using source_inv_run [OF assms] by (simp add: source_inv_def size_init_def sizes_sent_def resizeBuffer_def)

definition demo_win :: "16 word \<Rightarrow> pty_winsize option" where
  "demo_win n = Some \<lparr>pw_cols = n, pw_rows = 24, pw_x = 0, pw_y = 0\<rparr>"

definition demo_console :: "16 word \<Rightarrow> console_window option" where
  "demo_console n = Some \<lparr>cw_left = 0, cw_right = n - 1, cw_top = 0, cw_bottom = 23\<rparr>"

text \<open>The start and four changes of the window, each noticed, then the client reads.\<close>

definition burst :: "(16 word \<Rightarrow> 'w option) \<Rightarrow> 'w size_event list" where
  "burst win = [ZRun, ZWindow (win 81), ZRun, ZWindow (win 82), ZRun, ZWindow (win 83), ZRun, ZWindow (win 84), ZRun,
     ZTake, ZTake, ZTake, ZTake]"

theorem sizes_follow_window_witness:
  "\<exists>z. size_run NewSIGWINCHResize (take 4 (burst demo_win)) (size_init (demo_win 80)) = Some z \<and> length (z_out z) \<le> 4"
proof -
  have "size_run NewSIGWINCHResize (take 4 (burst demo_win)) (size_init (demo_win 80)) \<noteq> None" by code_simp
  then obtain z where "size_run NewSIGWINCHResize (take 4 (burst demo_win)) (size_init (demo_win 80)) = Some z" by blast
  then show ?thesis using sizes_follow_window by blast
qed

text \<open>The newest window size can be lost for good. The channel keeps the oldest sizes and drops the newest when it is full: after
  four quick changes the client has read everything there is, no signal is pending, and the size it was told last is not the size
  of the window, on Unix as on Windows, where the tick finds the size unchanged from then on.
\<close>

theorem last_size_lost:
  "(\<exists>z. size_run NewSIGWINCHResize (burst demo_win) (size_init (demo_win 80)) = Some z \<and> z_out z = [] \<and> \<not> z_signal z \<and> \<not> z_closed z
      \<and> last (z_taken z) \<noteq> querySize (z_window z) \<and> NewSIGWINCHResize ZRun z = None) \<and>
   (\<exists>z. size_run NewPollResize (burst demo_console) (size_init (demo_console 80)) = Some z \<and> z_out z = [] \<and> \<not> z_closed z
      \<and> last (z_taken z) \<noteq> querySize_windows (z_window z) \<and> NewPollResize ZRun z = Some z)"
proof -
  have "case size_run NewSIGWINCHResize (burst demo_win) (size_init (demo_win 80)) of
      Some z \<Rightarrow> z_out z = [] \<and> \<not> z_signal z \<and> \<not> z_closed z \<and> last (z_taken z) \<noteq> querySize (z_window z) \<and> NewSIGWINCHResize ZRun z = None
    | None \<Rightarrow> False" by code_simp
  moreover have "case size_run NewPollResize (burst demo_console) (size_init (demo_console 80)) of
      Some z \<Rightarrow> z_out z = [] \<and> \<not> z_closed z \<and> last (z_taken z) \<noteq> querySize_windows (z_window z) \<and> NewPollResize ZRun z = Some z
    | None \<Rightarrow> False" by code_simp
  ultimately show ?thesis by (auto split: option.splits)
qed

text \<open>The console of Windows is given back: when preparing it fails and the modes can be set back, they are as they were found, and
  after a successful preparation the echo, line and processing bits are off and restoring sets both modes back.\<close>

theorem console_given_back:
  assumes "Prepare_windows b io c = (c', res)" "ci_restore_in io = None" "ci_restore_out io = None"
  shows "(\<forall>errs. res = Inl errs \<longrightarrow> c' = c) \<and>
    (\<forall>sz state. res = Inr (sz, state) \<longrightarrow> state = c \<and> restoreConsole io state c' = (c, None) \<and> co_input c' = raw_input b (co_input c))"
  using assms
  by (auto simp: Prepare_windows_def enableConsoleModes_def restoreConsole_def restore_input_def Let_def split: option.splits sum.splits)

definition demo_console_io :: console_io where
  "demo_console_io = \<lparr>ci_get_in = None, ci_set_in = None, ci_get_out = None, ci_set_out = Some ''e'', ci_window = Inl ''e'',
     ci_restore_in = None, ci_restore_out = None\<rparr>"

theorem console_given_back_witness:
  "fst (Prepare_windows \<lparr>cb_ECHO_INPUT = 4, cb_LINE_INPUT = 2, cb_PROCESSED_INPUT = 1, cb_VT_INPUT = 512, cb_VT_PROCESSING = 4\<rparr> demo_console_io
     \<lparr>co_input = 7, co_output = 3\<rparr>) = \<lparr>co_input = 7, co_output = 3\<rparr>"
proof -
  let ?b = "\<lparr>cb_ECHO_INPUT = 4, cb_LINE_INPUT = 2, cb_PROCESSED_INPUT = 1, cb_VT_INPUT = 512, cb_VT_PROCESSING = 4\<rparr>"
  let ?p = "Prepare_windows ?b demo_console_io \<lparr>co_input = 7, co_output = 3\<rparr>"
  have "\<exists>errs. snd ?p = Inl errs" by (simp add: Prepare_windows_def enableConsoleModes_def restore_input_def demo_console_io_def Let_def)
  then show ?thesis
    using console_given_back [of ?b demo_console_io "\<lparr>co_input = 7, co_output = 3\<rparr>" "fst ?p" "snd ?p"] by (auto simp: demo_console_io_def)
qed

text \<open>A size that is reported is positive in both directions and fits into 15 bits, although the coordinates wrap.\<close>

theorem console_size_bounds:
  assumes "currentWindowSize_windows io = Inr sz"
  shows "0 < uint (ws_cols sz) \<and> uint (ws_cols sz) < 2 ^ 15 \<and> 0 < uint (ws_rows sz) \<and> uint (ws_rows sz) < 2 ^ 15"
proof -
  have b: "0 < uint (scast x :: 32 word) \<and> uint (scast x :: 32 word) < 2 ^ 15" if "0 < sint x" for x :: "16 word"
  proof -
    have "sint x < 2 ^ 15" using sint_lt [of x] by simp
    moreover have "uint (word_of_int (sint x) :: 32 word) = take_bit 32 (sint x)" by (rule trans [OF uint_word_of_int_eq]) simp
    ultimately have "uint (scast x :: 32 word) = sint x" using that by (simp add: take_bit_int_eq_self)
    then show ?thesis using that \<open>sint x < 2 ^ 15\<close> by simp
  qed
  show ?thesis using assms b by (auto simp: currentWindowSize_windows_def Let_def not_le split: sum.splits if_splits)
qed

end
