(* ===== verification/Fuse_Mount.thy ===== *)
theory Fuse_Mount
  imports View
begin

text \<open>
  The life of a mount, \<open>Mount\<close> and \<open>mountedFS.Close\<close> of \<open>src/pkg/fusefs/mount_linux.go\<close>. The FUSE library is a
  parameter: mounting, waiting for the mount and unmounting succeed or fail as an outcome says, and a failed unmount (the file
  system is busy, for example) leaves the mount in place. \<open>Close\<close> is guarded by a \<open>sync.Once\<close>: the first caller
  unmounts, a caller that arrives meanwhile blocks until it is done, a later one returns at once. Beside the caller of
  \<open>Mount\<close>, a goroutine calls \<open>Close\<close> as soon as the context of the mount is done.
\<close>

section \<open>Definitions\<close>

datatype once = OnceFree | OnceRunning | OnceDone

datatype closer = CloserWaiting | CloserClosing | CloserEnded

text \<open>The kernel's mount, the guard, the goroutine, and how often \<open>Unmount\<close> has been called.\<close>

record mountedFS =
  mf_kernel :: bool
  mf_once :: once
  mf_closer :: closer
  mf_attempts :: nat

datatype mount_err = MeOptions ferr | MeMount string | MeWait string "string option"

text \<open>What the library does: \<open>fs.Mount\<close> fails, \<open>WaitMount\<close> fails and the clean-up succeeds or fails, or the mount is there.\<close>

datatype mount_outcome = MountFails string | WaitFails string "string option" | Mounts

definition Mount :: "options \<Rightarrow> mount_outcome \<Rightarrow> mount_err + mountedFS" where
  "Mount opts out =
     (case validateOptions opts of
        Some e \<Rightarrow> Inl (MeOptions e)
      | None \<Rightarrow>
          (case out of
             MountFails e \<Rightarrow> Inl (MeMount e)
           | WaitFails e cleanup \<Rightarrow> Inl (MeWait e cleanup)
           | Mounts \<Rightarrow> Inr \<lparr>mf_kernel = True, mf_once = OnceFree, mf_closer = CloserWaiting, mf_attempts = 0\<rparr>))"

text \<open>
  A call of \<open>Close\<close>: \<^const>\<open>None\<close> while another caller is inside the guard; otherwise whether this caller is the one
  that unmounts. \<open>Close_unmounted\<close> is the end of its call of \<open>Unmount\<close>.
\<close>

definition Close :: "mountedFS \<Rightarrow> (mountedFS \<times> bool) option" where
  "Close m =
     (case mf_once m of
        OnceFree \<Rightarrow> Some (m\<lparr>mf_once := OnceRunning, mf_attempts := Suc (mf_attempts m)\<rparr>, True)
      | OnceRunning \<Rightarrow> None
      | OnceDone \<Rightarrow> Some (m, False))"

definition Close_unmounted :: "bool \<Rightarrow> mountedFS \<Rightarrow> mountedFS" where
  "Close_unmounted ok m = m\<lparr>mf_once := OnceDone, mf_kernel := (mf_kernel m \<and> \<not> ok)\<rparr>"

text \<open>The goroutine that \<open>Mount\<close> starts: it waits for the context, then closes; the error is dropped.\<close>

datatype closer_event = ClContextDone | ClUnmounted bool

definition closer_run :: "bool \<Rightarrow> closer_event \<Rightarrow> mountedFS \<Rightarrow> mountedFS option" where
  "closer_run ctxDone ev m =
     (case (ev, mf_closer m) of
        (ClContextDone, CloserWaiting) \<Rightarrow>
          (if ctxDone
           then map_option (\<lambda>(m', mine). m'\<lparr>mf_closer := (if mine then CloserClosing else CloserEnded)\<rparr>) (Close m)
           else None)
      | (ClUnmounted ok, CloserClosing) \<Rightarrow> Some ((Close_unmounted ok m)\<lparr>mf_closer := CloserEnded\<rparr>)
      | _ \<Rightarrow> None)"

section \<open>The guard\<close>

text \<open>
  The invariant of a mount, with \<open>mainIn\<close> for the caller of \<open>Mount\<close> being inside the guard: \<open>Unmount\<close> is called
  once at most, exactly the one caller inside the guard is running it, and the mount is there until it has ended.
\<close>

definition mount_inv :: "bool \<Rightarrow> bool \<Rightarrow> mountedFS \<Rightarrow> bool" where
  "mount_inv ctxDone mainIn m \<longleftrightarrow>
     mf_attempts m = (if mf_once m = OnceFree then 0 else 1) \<and>
     (mf_once m = OnceRunning \<longleftrightarrow> (mainIn \<or> mf_closer m = CloserClosing)) \<and>
     \<not> (mainIn \<and> mf_closer m = CloserClosing) \<and>
     (mf_once m \<noteq> OnceDone \<longrightarrow> mf_kernel m) \<and>
     (mf_closer m \<noteq> CloserWaiting \<longrightarrow> ctxDone) \<and>
     (mf_closer m = CloserEnded \<longrightarrow> mf_once m = OnceDone)"

lemma Mount_inv: "Mount opts out = Inr m \<Longrightarrow> mount_inv c False m"
  by (auto simp: Mount_def mount_inv_def split: option.splits mount_outcome.splits)

lemma Mount_once: "Mount opts out = Inr m \<Longrightarrow> mf_once m = OnceFree"
  by (auto simp: Mount_def split: option.splits mount_outcome.splits)

lemma mount_inv_context: "mount_inv c k m \<Longrightarrow> mount_inv True k m"
  by (auto simp: mount_inv_def)

lemma Close_inv: "mount_inv c False m \<Longrightarrow> Close m = Some (m', mine) \<Longrightarrow> mount_inv c mine m'"
  by (auto simp: mount_inv_def Close_def split: once.splits)

lemma Close_once: "Close m = Some (m', mine) \<Longrightarrow> mf_once m' = (if mine then OnceRunning else OnceDone)"
  by (auto simp: Close_def split: once.splits)

lemma Close_unmounted_once [simp]: "mf_once (Close_unmounted ok m) = OnceDone"
  by (simp add: Close_unmounted_def)

lemma Close_unmounted_inv: "mount_inv c True m \<Longrightarrow> mount_inv c False (Close_unmounted ok m)"
  by (auto simp: mount_inv_def Close_unmounted_def)

lemma closer_run_inv: "mount_inv c k m \<Longrightarrow> closer_run c ev m = Some m' \<Longrightarrow> mount_inv c k m'"
  by (auto simp: mount_inv_def closer_run_def Close_def Close_unmounted_def split: closer_event.splits closer.splits if_splits once.splits)

lemma closer_run_once:
  assumes "closer_run c ev m = Some m'"
  shows "mf_once m = OnceDone \<Longrightarrow> mf_once m' = OnceDone" and "mf_once m' \<noteq> mf_once m \<Longrightarrow> c \<or> mf_closer m = CloserClosing"
  using assms by (auto simp: closer_run_def Close_def Close_unmounted_def split: closer_event.splits closer.splits if_splits once.splits)

text \<open>The goroutine has at most two steps to go, and each takes it further.\<close>

definition closer_rank :: "mountedFS \<Rightarrow> nat" where
  "closer_rank m = (case mf_closer m of CloserWaiting \<Rightarrow> 2 | CloserClosing \<Rightarrow> 1 | CloserEnded \<Rightarrow> 0)"

lemma closer_rank_decreases: "closer_run c ev m = Some m' \<Longrightarrow> closer_rank m' < closer_rank m"
  by (auto simp: closer_rank_def closer_run_def Close_def Close_unmounted_def split: closer_event.splits closer.splits if_splits once.splits)

lemma closer_rank_Close [simp]: "Close m = Some (m', mine) \<Longrightarrow> closer_rank m' = closer_rank m"
  by (auto simp: closer_rank_def Close_def split: once.splits)

lemma closer_rank_unmounted [simp]: "closer_rank (Close_unmounted ok m) = closer_rank m"
  by (simp add: closer_rank_def Close_unmounted_def)

end
