(* ===== verification/Server_Main.thy ===== *)
theory Server_Main
  imports Pty_Service Fuse_Mount Auth
begin

text \<open>
  The server program, \<open>src/app/server/main.go\<close> and \<open>recovery.go\<close>: building the parts from the configuration, the run
  from mounting the workspace to unmounting it, and the interceptors around a stream. The run has four goroutines: the main one,
  the one in \<open>Serve\<close>, the one in \<open>GracefulStop\<close>, and the one of the mount that closes it when the context is done
  (\<open>Fuse_Mount\<close>). Every operation of one of them is a step on an event, and the events come in any order. Of the gRPC
  server the model takes what is documented: a graceful stop ends when no stream is open, a hard stop closes them all, and
  \<open>Serve\<close> returns after a stop. The errors of closing are only logged.
\<close>

section \<open>Definitions\<close>

datatype serve_err = ErrServerStopped | ServeOther string

datatype srv_error =
  SeConfig cfg_error | SeLogger string | SeMkdir string | SeMount mount_err | SePTY pty_err | SeListen string | SeServe serve_err

definition managerOptions :: "server_config \<Rightarrow> manager_options" where
  "managerOptions cfg =
     \<lparr>mo_RequestTimeout = sc_request_timeout cfg, mo_CacheMaxBytes = sc_cache_max_bytes cfg, mo_OfflineReadOnlyTTL = sc_offline_ttl cfg,
      mo_PrefetchEnabled = pf_enabled (sc_prefetch cfg), mo_PrefetchMaxFileBytes = pf_max_file_bytes (sc_prefetch cfg),
      mo_PrefetchMaxFilesPerDir = pf_max_files_per_dir (sc_prefetch cfg)\<rparr>"

definition prepareRuntime ::
  "(string \<Rightarrow> server_config \<Rightarrow> server_config option) \<Rightarrow> string option \<Rightarrow> string \<Rightarrow> srv_error + server_config \<times> manager \<times> verifier" where
  "prepareRuntime load logger path =
     (case LoadServer load path of
        Inl e \<Rightarrow> Inl (SeConfig e)
      | Inr cfg \<Rightarrow>
          (case logger of
             Some e \<Rightarrow> Inl (SeLogger e)
           | None \<Rightarrow> Inr (cfg, NewManager (managerOptions cfg), NewStaticVerifier (sc_tokens cfg))))"

definition serve_result :: "serve_err option \<Rightarrow> srv_error option" where
  "serve_result e = (if e = None \<or> e = Some ErrServerStopped then None else map_option SeServe e)"

subsection \<open>The run\<close>

text \<open>Where the main goroutine stands; the result is kept while the deferred calls run.\<close>

datatype srv_pc =
  SvMkdir | SvMount | SvPTY | SvListen | SvSelect | SvStopping | SvForced | SvServeWait
| SvCloseListener "srv_error option" | SvUnmount "srv_error option" | SvUnmounting "srv_error option" | SvReturned "srv_error option"

datatype serve_state = ServeOff | ServeRunning | ServeEnded "serve_err option"

datatype stop_state = StopOff | StopWaiting | StopDone

record srv_state =
  rs_pc :: srv_pc
  rs_ctx :: bool
  rs_mount :: "mountedFS option"
  rs_listener :: bool
  rs_serve :: serve_state
  rs_stop :: stop_state
  rs_streams :: nat

datatype srv_event =
  EvSignal | EvMkdir "string option" | EvMount mount_outcome | EvPTY | EvListen "string option" | EvSelectContext | EvSelectServe
| EvGraceOver | EvStopped | EvServeErr | EvCloseListener | EvClose | EvUnmounted bool | EvCloser closer_event
| EvStreamOpen | EvStreamClose | EvAcceptFails string | EvServeStops bool | EvGracefulEnds

definition mountWorkspace :: "server_config \<Rightarrow> manager \<Rightarrow> mount_outcome \<Rightarrow> mount_err + mountedFS" where
  "mountWorkspace cfg m out =
     Mount \<lparr>o_Mountpoint = sc_mountpoint cfg, o_Manager = Some m, o_EntryTimeout = 0, o_AttrTimeout = 0, o_NegativeTimeout = 0\<rparr> out"

text \<open>
  The main goroutine: every operation is one step, and \<^const>\<open>None\<close> says that the event is not possible now. The deferred
  closing of the listener and of the mount run after whatever ends the function.
\<close>

definition runPreparedServer :: "server_config \<Rightarrow> manager \<Rightarrow> srv_event \<Rightarrow> srv_state \<Rightarrow> srv_state option" where
  "runPreparedServer cfg m ev s =
     (case (rs_pc s, ev) of
        (SvMkdir, EvMkdir None) \<Rightarrow> Some (s\<lparr>rs_pc := SvMount\<rparr>)
      | (SvMkdir, EvMkdir (Some e)) \<Rightarrow> Some (s\<lparr>rs_pc := SvReturned (Some (SeMkdir e))\<rparr>)
      | (SvMount, EvMount out) \<Rightarrow>
          (case mountWorkspace cfg m out of
             Inl e \<Rightarrow> Some (s\<lparr>rs_pc := SvReturned (Some (SeMount e))\<rparr>)
           | Inr mt \<Rightarrow> Some (s\<lparr>rs_pc := SvPTY, rs_mount := Some mt\<rparr>))
      | (SvPTY, EvPTY) \<Rightarrow>
          (case newPTYService cfg of
             Inl e \<Rightarrow> Some (s\<lparr>rs_pc := SvUnmount (Some (SePTY e))\<rparr>)
           | Inr _ \<Rightarrow> Some (s\<lparr>rs_pc := SvListen\<rparr>))
      | (SvListen, EvListen (Some e)) \<Rightarrow> Some (s\<lparr>rs_pc := SvUnmount (Some (SeListen e))\<rparr>)
      | (SvListen, EvListen None) \<Rightarrow> Some (s\<lparr>rs_pc := SvSelect, rs_listener := True, rs_serve := ServeRunning\<rparr>)
      | (SvCloseListener r, EvCloseListener) \<Rightarrow> Some (s\<lparr>rs_pc := SvUnmount r, rs_listener := False\<rparr>)
      | (SvUnmount r, EvClose) \<Rightarrow>
          Option.bind (rs_mount s) (\<lambda>mt. map_option (\<lambda>(mt', mine).
            s\<lparr>rs_pc := (if mine then SvUnmounting r else SvReturned r), rs_mount := Some mt'\<rparr>) (Close mt))
      | (SvUnmounting r, EvUnmounted ok) \<Rightarrow>
          Some (s\<lparr>rs_pc := SvReturned r, rs_mount := map_option (Close_unmounted ok) (rs_mount s)\<rparr>)
      | _ \<Rightarrow> None)"

text \<open>
  Serving: the goroutine running \<open>Serve\<close> puts its result into a channel of capacity one, and the main goroutine selects
  between that channel and the context. Once the server is told to stop, \<open>Serve\<close> returns nil, or \<open>ErrServerStopped\<close> when
  it had not begun; without that it returns only when accepting fails.
\<close>

definition serveUntilDone :: "srv_event \<Rightarrow> srv_state \<Rightarrow> srv_state option" where
  "serveUntilDone ev s =
     (case ev of
        EvSelectContext \<Rightarrow>
          (if rs_pc s = SvSelect \<and> rs_ctx s then Some (s\<lparr>rs_pc := SvStopping, rs_stop := StopWaiting\<rparr>) else None)
      | EvSelectServe \<Rightarrow>
          (case rs_serve s of
             ServeEnded e \<Rightarrow> (if rs_pc s = SvSelect then Some (s\<lparr>rs_pc := SvCloseListener (serve_result e)\<rparr>) else None)
           | _ \<Rightarrow> None)
      | EvServeErr \<Rightarrow>
          (case rs_serve s of
             ServeEnded e \<Rightarrow> (if rs_pc s = SvServeWait then Some (s\<lparr>rs_pc := SvCloseListener (serve_result e)\<rparr>) else None)
           | _ \<Rightarrow> None)
      | EvAcceptFails e \<Rightarrow>
          (if rs_serve s = ServeRunning \<and> rs_stop s = StopOff then Some (s\<lparr>rs_serve := ServeEnded (Some (ServeOther e))\<rparr>) else None)
      | EvServeStops late \<Rightarrow>
          (if rs_serve s = ServeRunning \<and> rs_stop s \<noteq> StopOff
           then Some (s\<lparr>rs_serve := ServeEnded (if late then Some ErrServerStopped else None)\<rparr>) else None)
      | _ \<Rightarrow> None)"

text \<open>
  Stopping: a goroutine runs \<open>GracefulStop\<close>, which takes no new stream and ends when the open ones have. The main goroutine
  waits for it, and when the grace period is over first, it closes every connection with \<open>Stop\<close> and waits again.
\<close>

definition stopGRPCServer :: "srv_event \<Rightarrow> srv_state \<Rightarrow> srv_state option" where
  "stopGRPCServer ev s =
     (case ev of
        EvStopped \<Rightarrow>
          (if rs_pc s \<in> {SvStopping, SvForced} \<and> rs_stop s = StopDone then Some (s\<lparr>rs_pc := SvServeWait\<rparr>) else None)
      | EvGraceOver \<Rightarrow> (if rs_pc s = SvStopping then Some (s\<lparr>rs_pc := SvForced, rs_streams := 0\<rparr>) else None)
      | EvGracefulEnds \<Rightarrow>
          (if rs_stop s = StopWaiting \<and> rs_streams s = 0 then Some (s\<lparr>rs_stop := StopDone\<rparr>) else None)
      | _ \<Rightarrow> None)"

text \<open>The rest of the world: the signal, the goroutine of the mount, and clients opening and closing streams.\<close>

definition surroundings :: "srv_event \<Rightarrow> srv_state \<Rightarrow> srv_state option" where
  "surroundings ev s =
     (case ev of
        EvSignal \<Rightarrow> (if rs_ctx s then None else Some (s\<lparr>rs_ctx := True\<rparr>))
      | EvCloser cev \<Rightarrow>
          Option.bind (rs_mount s) (\<lambda>mt. map_option (\<lambda>mt'. s\<lparr>rs_mount := Some mt'\<rparr>) (closer_run (rs_ctx s) cev mt))
      | EvStreamOpen \<Rightarrow>
          (if rs_serve s = ServeRunning \<and> rs_stop s = StopOff then Some (s\<lparr>rs_streams := Suc (rs_streams s)\<rparr>) else None)
      | EvStreamClose \<Rightarrow> (if rs_streams s = 0 then None else Some (s\<lparr>rs_streams := rs_streams s - 1\<rparr>))
      | _ \<Rightarrow> None)"

fun first_some :: "'a option list \<Rightarrow> 'a option" where
  "first_some [] = None"
| "first_some (None # xs) = first_some xs"
| "first_some (Some x # xs) = Some x"

definition srv_exec :: "server_config \<Rightarrow> manager \<Rightarrow> srv_event \<Rightarrow> srv_state \<Rightarrow> srv_state option" where
  "srv_exec cfg m ev s = first_some [runPreparedServer cfg m ev s, serveUntilDone ev s, stopGRPCServer ev s, surroundings ev s]"

fun srv_run :: "server_config \<Rightarrow> manager \<Rightarrow> srv_event list \<Rightarrow> srv_state \<Rightarrow> srv_state option" where
  "srv_run cfg m [] s = Some s"
| "srv_run cfg m (ev # evs) s = Option.bind (srv_exec cfg m ev s) (srv_run cfg m evs)"

definition srv_init :: srv_state where
  "srv_init = \<lparr>rs_pc = SvMkdir, rs_ctx = False, rs_mount = None, rs_listener = False, rs_serve = ServeOff, rs_stop = StopOff,
     rs_streams = 0\<rparr>"

text \<open>The whole program on a sequence of events; the error of closing the logger is only printed.\<close>

definition runServer ::
  "(string \<Rightarrow> server_config \<Rightarrow> server_config option) \<Rightarrow> string option \<Rightarrow> string \<Rightarrow> srv_event list \<Rightarrow> srv_state option" where
  "runServer load logger path evs =
     (case prepareRuntime load logger path of
        Inl e \<Rightarrow> (if evs = [] then Some (srv_init\<lparr>rs_pc := SvReturned (Some e)\<rparr>) else None)
      | Inr (cfg, m, v) \<Rightarrow> srv_run cfg m evs srv_init)"

subsection \<open>The interceptors\<close>

text \<open>
  A handler returns a result, or panics (\<^const>\<open>None\<close>) after it has changed the state of the server. The recovery interceptor
  turns a panic into an internal error; it is the outermost one of the chain.
\<close>

datatype 'e stream_error = StreamUnauthenticated auth_error | StreamInternal | StreamError 'e

definition recoveryStreamInterceptor :: "('s \<Rightarrow> 's \<times> ('e stream_error + 'r) option) \<Rightarrow> 's \<Rightarrow> 's \<times> ('e stream_error + 'r)" where
  "recoveryStreamInterceptor handler s = (case handler s of (s', None) \<Rightarrow> (s', Inl StreamInternal) | (s', Some r) \<Rightarrow> (s', r))"

definition authStream ::
  "verifier \<Rightarrow> auth_ctx \<Rightarrow> (auth_ctx \<Rightarrow> 's \<Rightarrow> 's \<times> ('e stream_error + 'r) option) \<Rightarrow> 's \<Rightarrow> 's \<times> ('e stream_error + 'r) option" where
  "authStream v ctx handler s =
     (case StreamServerInterceptor v ctx handler s of Inl e \<Rightarrow> (s, Some (Inl (StreamUnauthenticated e))) | Inr r \<Rightarrow> r)"

definition chainStream ::
  "verifier \<Rightarrow> auth_ctx \<Rightarrow> (auth_ctx \<Rightarrow> 's \<Rightarrow> 's \<times> ('e stream_error + 'r) option) \<Rightarrow> 's \<Rightarrow> 's \<times> ('e stream_error + 'r)" where
  "chainStream v ctx handler = recoveryStreamInterceptor (authStream v ctx handler)"

section \<open>Properties\<close>

subsection \<open>Steps\<close>

fun pc_rank :: "srv_pc \<Rightarrow> nat" where
  "pc_rank SvMkdir = 11"
| "pc_rank SvMount = 10"
| "pc_rank SvPTY = 9"
| "pc_rank SvListen = 8"
| "pc_rank SvSelect = 7"
| "pc_rank SvStopping = 6"
| "pc_rank SvForced = 5"
| "pc_rank SvServeWait = 4"
| "pc_rank (SvCloseListener r) = 3"
| "pc_rank (SvUnmount r) = 2"
| "pc_rank (SvUnmounting r) = 1"
| "pc_rank (SvReturned r) = 0"

lemma first_some_in: "first_some xs = Some x \<Longrightarrow> Some x \<in> set xs"
  by (induction xs rule: first_some.induct) auto

lemma srv_exec_cases [consumes 1, case_names main serve stop around]:
  assumes "srv_exec cfg m ev s = Some s'"
  obtains "runPreparedServer cfg m ev s = Some s'" | "serveUntilDone ev s = Some s'" | "stopGRPCServer ev s = Some s'"
  | "surroundings ev s = Some s'"
  using first_some_in [OF assms [unfolded srv_exec_def]] by auto

lemma main_cases [consumes 1]:
  assumes "runPreparedServer cfg m ev s = Some s'"
  obtains
    (mkdir) "rs_pc s = SvMkdir" "s' = s\<lparr>rs_pc := SvMount\<rparr>"
  | (mkdir_failed) e where "rs_pc s = SvMkdir" "s' = s\<lparr>rs_pc := SvReturned (Some (SeMkdir e))\<rparr>"
  | (mounted) out mt where "rs_pc s = SvMount" "mountWorkspace cfg m out = Inr mt" "s' = s\<lparr>rs_pc := SvPTY, rs_mount := Some mt\<rparr>"
  | (mount_failed) e where "rs_pc s = SvMount" "s' = s\<lparr>rs_pc := SvReturned (Some (SeMount e))\<rparr>"
  | (pty) "rs_pc s = SvPTY" "s' = s\<lparr>rs_pc := SvListen\<rparr>"
  | (pty_failed) e where "rs_pc s = SvPTY" "s' = s\<lparr>rs_pc := SvUnmount (Some (SePTY e))\<rparr>"
  | (listening) "rs_pc s = SvListen" "s' = s\<lparr>rs_pc := SvSelect, rs_listener := True, rs_serve := ServeRunning\<rparr>"
  | (listen_failed) e where "rs_pc s = SvListen" "s' = s\<lparr>rs_pc := SvUnmount (Some (SeListen e))\<rparr>"
  | (listener_closed) r where "rs_pc s = SvCloseListener r" "s' = s\<lparr>rs_pc := SvUnmount r, rs_listener := False\<rparr>"
  | (close) r mt mt' where "rs_pc s = SvUnmount r" "rs_mount s = Some mt" "Close mt = Some (mt', True)"
      "s' = s\<lparr>rs_pc := SvUnmounting r, rs_mount := Some mt'\<rparr>"
  | (close_late) r mt mt' where "rs_pc s = SvUnmount r" "rs_mount s = Some mt" "Close mt = Some (mt', False)"
      "s' = s\<lparr>rs_pc := SvReturned r, rs_mount := Some mt'\<rparr>"
  | (unmounted) r ok where "rs_pc s = SvUnmounting r" "s' = s\<lparr>rs_pc := SvReturned r, rs_mount := map_option (Close_unmounted ok) (rs_mount s)\<rparr>"
proof (cases "rs_pc s")
  case SvMkdir
  then show ?thesis using assms by (cases ev) (auto simp: runPreparedServer_def split: option.splits sum.splits intro: mkdir mkdir_failed)
next
  case SvMount
  then show ?thesis using assms by (cases ev) (auto simp: runPreparedServer_def split: option.splits sum.splits intro: mounted mount_failed)
next
  case SvPTY
  then show ?thesis using assms by (cases ev) (auto simp: runPreparedServer_def split: option.splits sum.splits intro: pty pty_failed)
next
  case SvListen
  then show ?thesis using assms by (cases ev) (auto simp: runPreparedServer_def split: option.splits sum.splits intro: listening listen_failed)
next
  case (SvCloseListener r)
  then show ?thesis using assms by (cases ev) (auto simp: runPreparedServer_def split: option.splits sum.splits intro: listener_closed)
next
  case (SvUnmount r)
  then show ?thesis using assms by (cases ev) (auto simp: runPreparedServer_def bind_eq_Some_conv split: if_splits bool.splits intro: close close_late)
next
  case (SvUnmounting r)
  then show ?thesis using assms by (cases ev) (auto simp: runPreparedServer_def split: option.splits sum.splits intro: unmounted)
qed (use assms in \<open>simp_all add: runPreparedServer_def\<close>)

lemma serve_cases [consumes 1]:
  assumes "serveUntilDone ev s = Some s'"
  obtains
    (cancelled) "rs_pc s = SvSelect" "rs_ctx s" "s' = s\<lparr>rs_pc := SvStopping, rs_stop := StopWaiting\<rparr>"
  | (serve_ended) e where "rs_pc s = SvSelect \<or> rs_pc s = SvServeWait" "rs_serve s = ServeEnded e"
      "s' = s\<lparr>rs_pc := SvCloseListener (serve_result e)\<rparr>"
  | (ending) e where "rs_serve s = ServeRunning" "s' = s\<lparr>rs_serve := ServeEnded e\<rparr>"
  using assms
  by (cases ev) (auto simp: serveUntilDone_def split: if_splits serve_state.splits intro: cancelled serve_ended ending)

lemma stop_cases [consumes 1]:
  assumes "stopGRPCServer ev s = Some s'"
  obtains
    (stopped) "rs_pc s = SvStopping \<or> rs_pc s = SvForced" "rs_stop s = StopDone" "s' = s\<lparr>rs_pc := SvServeWait\<rparr>"
  | (grace_over) "rs_pc s = SvStopping" "s' = s\<lparr>rs_pc := SvForced, rs_streams := 0\<rparr>"
  | (graceful) "rs_stop s = StopWaiting" "rs_streams s = 0" "s' = s\<lparr>rs_stop := StopDone\<rparr>"
  using assms
  by (cases ev) (auto simp: stopGRPCServer_def split: if_splits intro: stopped grace_over graceful)

lemma around_cases [consumes 1]:
  assumes "surroundings ev s = Some s'"
  obtains
    (signal) "\<not> rs_ctx s" "s' = s\<lparr>rs_ctx := True\<rparr>"
  | (closer) cev mt mt' where "rs_mount s = Some mt" "closer_run (rs_ctx s) cev mt = Some mt'" "s' = s\<lparr>rs_mount := Some mt'\<rparr>"
  | (stream_open) "rs_serve s = ServeRunning" "rs_stop s = StopOff" "s' = s\<lparr>rs_streams := Suc (rs_streams s)\<rparr>"
  | (stream_close) "rs_streams s \<noteq> 0" "s' = s\<lparr>rs_streams := rs_streams s - 1\<rparr>"
  using assms
  by (cases ev) (auto simp: surroundings_def bind_eq_Some_conv split: if_splits intro: signal closer stream_open stream_close)

lemma srv_run_append: "srv_run cfg m (xs @ ys) s = Option.bind (srv_run cfg m xs s) (srv_run cfg m ys)"
  by (induction xs arbitrary: s) (auto split: Option.bind_split)

text \<open>Where the mount stands while the main goroutine is at each place.\<close>

definition srv_mount_inv :: "srv_state \<Rightarrow> bool" where
  "srv_mount_inv s \<longleftrightarrow>
     (rs_mount s = None \<longrightarrow> 10 \<le> pc_rank (rs_pc s) \<or> (\<exists>e. rs_pc s = SvReturned (Some e))) \<and>
     (\<forall>mt. rs_mount s = Some mt \<longrightarrow>
        pc_rank (rs_pc s) < 10 \<and> mount_inv (rs_ctx s) (pc_rank (rs_pc s) = 1) mt \<and>
        (pc_rank (rs_pc s) = 0 \<longrightarrow> mf_once mt = OnceDone) \<and>
        (\<not> rs_ctx s \<and> mf_once mt \<noteq> OnceFree \<longrightarrow> pc_rank (rs_pc s) \<le> 1))"

text \<open>What the serving goroutine, the stop and the listener can be doing there.\<close>

definition srv_serve_inv :: "srv_state \<Rightarrow> bool" where
  "srv_serve_inv s \<longleftrightarrow>
     (8 \<le> pc_rank (rs_pc s) \<longrightarrow> rs_serve s = ServeOff \<and> \<not> rs_listener s) \<and>
     (7 \<le> pc_rank (rs_pc s) \<longrightarrow> rs_stop s = StopOff) \<and>
     (4 \<le> pc_rank (rs_pc s) \<and> pc_rank (rs_pc s) \<le> 7 \<longrightarrow> rs_serve s \<noteq> ServeOff) \<and>
     (4 \<le> pc_rank (rs_pc s) \<and> pc_rank (rs_pc s) \<le> 6 \<longrightarrow> rs_ctx s \<and> rs_stop s \<noteq> StopOff) \<and>
     (pc_rank (rs_pc s) = 5 \<longrightarrow> rs_streams s = 0) \<and>
     (pc_rank (rs_pc s) = 4 \<longrightarrow> rs_stop s = StopDone) \<and>
     (pc_rank (rs_pc s) \<le> 3 \<longrightarrow> rs_serve s \<noteq> ServeRunning) \<and>
     (pc_rank (rs_pc s) \<le> 2 \<longrightarrow> \<not> rs_listener s)"

lemma srv_serve_inv_step:
  assumes "srv_exec cfg m ev s = Some s'" and "srv_serve_inv s"
  shows "srv_serve_inv s'"
  using assms(1)
proof (cases rule: srv_exec_cases)
  case main
  then show ?thesis using assms(2) by (cases rule: main_cases) (simp_all add: srv_serve_inv_def)
next
  case serve
  then show ?thesis using assms(2) by (cases rule: serve_cases) (simp_all add: srv_serve_inv_def, (elim disjE; simp)?)
next
  case stop
  then show ?thesis using assms(2) by (cases rule: stop_cases) (simp_all add: srv_serve_inv_def, (elim disjE; simp)?)
next
  case around
  then show ?thesis using assms(2) by (cases rule: around_cases) (auto simp: srv_serve_inv_def)
qed

lemma srv_mount_inv_step:
  assumes "srv_exec cfg m ev s = Some s'" and "srv_mount_inv s"
  shows "srv_mount_inv s'"
  using assms(1)
proof (cases rule: srv_exec_cases)
  case main
  then show ?thesis
    using assms(2)
    by (cases rule: main_cases)
      (auto simp: srv_mount_inv_def mountWorkspace_def dest: Close_once Mount_once intro: Mount_inv Close_inv Close_unmounted_inv)
next
  case serve
  then show ?thesis using assms(2) by (cases rule: serve_cases) (auto simp: srv_mount_inv_def)
next
  case stop
  then show ?thesis using assms(2) by (cases rule: stop_cases) (auto simp: srv_mount_inv_def)
next
  case around
  then show ?thesis
  proof (cases rule: around_cases)
    case (closer cev mt mt')
    have old: "mount_inv (rs_ctx s) (pc_rank (rs_pc s) = 1) mt" and pc: "pc_rank (rs_pc s) < 10"
      "pc_rank (rs_pc s) = 0 \<longrightarrow> mf_once mt = OnceDone" "\<not> rs_ctx s \<longrightarrow> mf_once mt \<noteq> OnceFree \<longrightarrow> pc_rank (rs_pc s) \<le> 1"
      using assms(2) closer(1) by (simp_all add: srv_mount_inv_def)
    have "mount_inv (rs_ctx s) (pc_rank (rs_pc s) = 1) mt'" and "mf_once mt = OnceDone \<longrightarrow> mf_once mt' = OnceDone"
      and "\<not> rs_ctx s \<longrightarrow> mf_once mt' = mf_once mt"
      using closer_run_inv [OF old closer(2)] closer_run_once [OF closer(2)] old by (auto simp: mount_inv_def)
    then show ?thesis using pc closer(3) by (cases "rs_ctx s") (simp_all add: srv_mount_inv_def)
  qed (use assms(2) in \<open>auto simp: srv_mount_inv_def mount_inv_def\<close>)
qed

lemma srv_run_inv: "srv_run cfg m evs s = Some s' \<Longrightarrow> srv_mount_inv s \<and> srv_serve_inv s \<Longrightarrow> srv_mount_inv s' \<and> srv_serve_inv s'"
  by (induction evs arbitrary: s) (auto simp: bind_eq_Some_conv dest: srv_mount_inv_step srv_serve_inv_step)

lemma runServer_inv: "runServer load logger path evs = Some s \<Longrightarrow> srv_mount_inv s \<and> srv_serve_inv s"
proof (cases "prepareRuntime load logger path")
  case (Inr x)
  assume "runServer load logger path evs = Some s"
  then obtain cfg m v where "srv_run cfg m evs srv_init = Some s" using Inr by (cases x) (auto simp: runServer_def)
  then show ?thesis by (rule srv_run_inv) (simp add: srv_init_def srv_mount_inv_def srv_serve_inv_def)
qed (auto simp: runServer_def srv_init_def srv_mount_inv_def srv_serve_inv_def split: if_splits)

subsection \<open>The stop\<close>

text \<open>Whatever happens next, the function returns: every step leads to such a state again, there is one, and it cannot go on forever.\<close>

inductive must_return :: "server_config \<Rightarrow> manager \<Rightarrow> srv_state \<Rightarrow> bool" for cfg m where
  returned: "rs_pc s = SvReturned r \<Longrightarrow> must_return cfg m s"
| steps: "srv_exec cfg m ev s = Some s' \<Longrightarrow> (\<And>ev' s''. srv_exec cfg m ev' s = Some s'' \<Longrightarrow> must_return cfg m s'') \<Longrightarrow> must_return cfg m s"

definition srv_measure :: "srv_state \<Rightarrow> nat" where
  "srv_measure s =
     pc_rank (rs_pc s) + (if rs_ctx s then 0 else 1) + (case rs_mount s of None \<Rightarrow> 0 | Some mt \<Rightarrow> closer_rank mt) + rs_streams s +
     (if rs_serve s = ServeRunning then 1 else 0) + (if rs_stop s = StopWaiting then 1 else 0)"

lemma srv_measure_decreases:
  assumes "srv_exec cfg m ev s = Some s'" and inv: "srv_serve_inv s" and "pc_rank (rs_pc s) \<le> 6"
  shows "srv_measure s' < srv_measure s \<and> pc_rank (rs_pc s') \<le> 6"
  using assms(1)
proof (cases rule: srv_exec_cases)
  case main
  then show ?thesis using assms(3) by (cases rule: main_cases) (auto simp: srv_measure_def split: option.split)
next
  case serve
  then show ?thesis using assms(3) by (cases rule: serve_cases) (auto simp: srv_measure_def)
next
  case stop
  then show ?thesis using assms(3) by (cases rule: stop_cases) (auto simp: srv_measure_def)
next
  case around
  then show ?thesis
  proof (cases rule: around_cases)
    case (closer cev mt mt')
    then show ?thesis using closer_rank_decreases [OF closer(2)] assms(3) by (simp add: srv_measure_def)
  next
    case stream_open
    then show ?thesis using inv assms(3) by (cases "rs_pc s") (auto simp: srv_serve_inv_def)
  qed (use assms(3) in \<open>auto simp: srv_measure_def\<close>)
qed

lemma first_some_defined: "\<exists>x \<in> set xs. x \<noteq> None \<Longrightarrow> \<exists>y. first_some xs = Some y"
  by (induction xs rule: first_some.induct) auto

lemma srv_exec_enabled:
  assumes "runPreparedServer cfg m ev s \<noteq> None \<or> serveUntilDone ev s \<noteq> None \<or> stopGRPCServer ev s \<noteq> None \<or> surroundings ev s \<noteq> None"
  shows "\<exists>s'. srv_exec cfg m ev s = Some s'"
  unfolding srv_exec_def by (rule first_some_defined) (use assms in simp)

lemma unmount_enabled:
  assumes "rs_pc s = SvUnmount r" "srv_mount_inv s"
  shows "\<exists>ev s'. srv_exec cfg m ev s = Some s'"
proof -
  obtain mt where mt: "rs_mount s = Some mt" "mount_inv (rs_ctx s) False mt" using assms by (auto simp: srv_mount_inv_def)
  show ?thesis
  proof (cases "mf_once mt = OnceRunning")
    case True
    then have "surroundings (EvCloser (ClUnmounted True)) s \<noteq> None"
      using mt by (simp add: surroundings_def closer_run_def mount_inv_def)
    then show ?thesis using srv_exec_enabled by blast
  next
    case False
    then have "runPreparedServer cfg m EvClose s \<noteq> None"
      using assms(1) mt by (cases "mf_once mt") (simp_all add: runPreparedServer_def Close_def)
    then show ?thesis using srv_exec_enabled by blast
  qed
qed

lemma stopping_enabled:
  assumes "srv_mount_inv s" "srv_serve_inv s" and "0 < pc_rank (rs_pc s)" "pc_rank (rs_pc s) \<le> 6"
  shows "\<exists>ev s'. srv_exec cfg m ev s = Some s'"
proof (cases "rs_pc s")
  case SvStopping
  then show ?thesis by (intro exI [of _ EvGraceOver] srv_exec_enabled) (simp add: stopGRPCServer_def)
next
  case SvForced
  then have "rs_stop s = StopDone \<or> (rs_stop s = StopWaiting \<and> rs_streams s = 0)"
    using assms(2) by (cases "rs_stop s") (auto simp: srv_serve_inv_def)
  then have "stopGRPCServer (if rs_stop s = StopDone then EvStopped else EvGracefulEnds) s \<noteq> None"
    using SvForced by (auto simp: stopGRPCServer_def)
  then show ?thesis using srv_exec_enabled by blast
next
  case SvServeWait
  then have "serveUntilDone (if rs_serve s = ServeRunning then EvServeStops False else EvServeErr) s \<noteq> None"
    using assms(2) by (cases "rs_serve s") (auto simp: serveUntilDone_def srv_serve_inv_def)
  then show ?thesis using srv_exec_enabled by blast
next
  case (SvCloseListener r)
  then show ?thesis by (intro exI [of _ EvCloseListener] srv_exec_enabled) (simp add: runPreparedServer_def)
next
  case (SvUnmount r)
  then show ?thesis using assms(1) by (rule unmount_enabled)
next
  case (SvUnmounting r)
  then show ?thesis by (intro exI [of _ "EvUnmounted True"] srv_exec_enabled) (simp add: runPreparedServer_def)
qed (use assms in simp_all)

lemma stopping_must_return:
  "srv_mount_inv s \<Longrightarrow> srv_serve_inv s \<Longrightarrow> pc_rank (rs_pc s) \<le> 6 \<Longrightarrow> must_return cfg m s"
proof (induction "srv_measure s" arbitrary: s rule: less_induct)
  case less
  show ?case
  proof (cases "0 < pc_rank (rs_pc s)")
    case True
    obtain ev s' where "srv_exec cfg m ev s = Some s'" using stopping_enabled [OF less.prems(1,2) True less.prems(3)] by blast
    then show ?thesis
    proof (rule must_return.steps)
      fix ev' s'' assume st: "srv_exec cfg m ev' s = Some s''"
      show "must_return cfg m s''"
        using srv_measure_decreases [OF st less.prems(2,3)] srv_mount_inv_step [OF st less.prems(1)] srv_serve_inv_step [OF st less.prems(2)]
        by (auto intro: less.hyps)
    qed
  next
    case False
    then show ?thesis by (cases "rs_pc s") (auto intro: must_return.returned)
  qed
qed
subsection \<open>Properties\<close>

definition srv_demo_load :: "string \<Rightarrow> server_config \<Rightarrow> server_config option" where
  "srv_demo_load p c = Some (c\<lparr>sc_listen := ''l'', sc_tokens := [(''t'', ''u'')], sc_mountpoint := ''/w''\<rparr>)"

text \<open>A start, and a client connected.\<close>

definition demo_connected :: "srv_event list" where
  "demo_connected = [EvMkdir None, EvMount Mounts, EvPTY, EvListen None, EvStreamOpen]"

text \<open>The signal arrives; the goroutine of the mount runs first, and the unmount fails.\<close>

definition demo_busy :: "srv_event list" where
  "demo_busy = [EvSignal, EvCloser ClContextDone, EvCloser (ClUnmounted False)]"

definition demo_stop :: "srv_event list" where
  "demo_stop = [EvSelectContext, EvStreamClose, EvGracefulEnds, EvStopped, EvServeStops False, EvServeErr, EvCloseListener, EvClose]"





text \<open>C34: The unmount can be lost. The comments of the server promise that the deferred unmount always runs after the graceful or
  the forced stop. But the goroutine of the mount sees the same context: here it unmounts first, while a client is connected, and
  fails because the workspace is busy; the deferred \<open>Close\<close> then finds the guard used and does nothing. The server returns
  without an error, no stream is open, and the mount is still there.
\<close>

theorem unmount_lost:
  "\<exists>s1 s2 mt.
     runServer srv_demo_load None [] demo_connected = Some s1 \<and> rs_streams s1 = 1 \<and>
     runServer srv_demo_load None [] (demo_connected @ demo_busy @ demo_stop) = Some s2 \<and>
     rs_pc s2 = SvReturned None \<and> rs_streams s2 = 0 \<and> rs_mount s2 = Some mt \<and> mf_kernel mt"
proof -
  have "case (runServer srv_demo_load None [] demo_connected, runServer srv_demo_load None [] (demo_connected @ demo_busy @ demo_stop)) of
      (Some s1, Some s2) \<Rightarrow> rs_streams s1 = 1 \<and> rs_pc s2 = SvReturned None \<and> rs_streams s2 = 0 \<and>
        (case rs_mount s2 of Some mt \<Rightarrow> mf_kernel mt | None \<Rightarrow> False)
    | _ \<Rightarrow> False" by code_simp
  then show ?thesis by (auto split: option.splits)
qed


text \<open>A stream is served only for an authenticated caller, and a panic in serving it ends that stream only. A call without a
  valid token never reaches the handler and changes nothing; otherwise the handler runs with the user of the token in its
  context, its result is the call's, and a panic becomes an internal error with the server's state as the handler left it.
\<close>

theorem stream_guarded:
  "chainStream v ctx handler s =
     (case FromIncomingContext ctx v of
        Inl e \<Rightarrow> (s, Inl (StreamUnauthenticated e))
      | Inr uid \<Rightarrow> (fst (handler (WithUserID ctx uid) s),
                   case snd (handler (WithUserID ctx uid) s) of None \<Rightarrow> Inl StreamInternal | Some r \<Rightarrow> r))"
  by (simp add: chainStream_def recoveryStreamInterceptor_def authStream_def StreamServerInterceptor_def split: sum.split prod.split option.split)

end
