(* ===== verification/Ratelimit.thy ===== *)
theory Ratelimit
  imports Complex_Main
begin

text \<open>
  The token bucket, \<open>src/pkg/ratelimit/limiter.go\<close>, and the limiters per user of \<open>src/app/server/pty_runtime.go\<close>. Time is in
  nanoseconds. The bucket counts in \<open>float64\<close>; the model counts in rational numbers, so the rounding of the floating-point
  operations is not part of it.
\<close>

section \<open>Definitions\<close>

record limiter =
  lm_rate :: int
  lm_burst :: rat
  lm_tokens :: rat
  lm_last :: "int option"

definition nanos_per_second :: rat where "nanos_per_second = 1000000000"

definition limiter_New :: "int \<Rightarrow> int \<Rightarrow> int \<Rightarrow> limiter" where
  "limiter_New now rate burst =
     (if rate \<le> 0 then \<lparr>lm_rate = 0, lm_burst = 0, lm_tokens = 0, lm_last = None\<rparr>
      else let b = of_int (if burst \<le> 0 then rate else burst)
           in \<lparr>lm_rate = rate, lm_burst = b, lm_tokens = b, lm_last = Some now\<rparr>)"

definition limiter_Enabled :: "limiter \<Rightarrow> bool" where
  "limiter_Enabled l = (lm_rate l > 0)"

definition refillLocked :: "int \<Rightarrow> limiter \<Rightarrow> limiter" where
  "refillLocked now l =
     (if \<not> limiter_Enabled l then l
      else case lm_last l of
             None \<Rightarrow> l\<lparr>lm_last := Some now\<rparr>
           | Some t \<Rightarrow>
               if now - t \<le> 0 then l
               else let tk = lm_tokens l + of_int (lm_rate l) * (of_int (now - t) / nanos_per_second)
                    in l\<lparr>lm_tokens := (if tk > lm_burst l then lm_burst l else tk), lm_last := Some now\<rparr>)"

definition minFloat64 :: "rat \<Rightarrow> rat \<Rightarrow> rat" where
  "minFloat64 a b = (if a < b then a else b)"

definition durationForUnits :: "rat \<Rightarrow> int \<Rightarrow> int" where
  "durationForUnits units rate =
     (if units \<le> 0 \<or> rate \<le> 0 then 0
      else let nanos = \<lceil>units / of_int rate * nanos_per_second\<rceil> in if nanos < 1 then 1 else nanos)"

text \<open>The critical section of one round of \<open>Wait\<close>: what is left to take, and how long to wait before the next round.\<close>

definition wait_round :: "int \<Rightarrow> limiter \<Rightarrow> rat \<Rightarrow> limiter \<times> rat \<times> int" where
  "wait_round now l0 remaining0 =
     (let l1 = refillLocked now l0;
          (l, remaining) =
            (if lm_tokens l1 > 0
             then let consume = minFloat64 remaining0 (lm_tokens l1) in (l1\<lparr>lm_tokens := lm_tokens l1 - consume\<rparr>, remaining0 - consume)
             else (l1, remaining0));
          waitFor =
            (if remaining > 0
             then let nextChunk = minFloat64 remaining (lm_burst l);
                      need = nextChunk - lm_tokens l
                  in durationForUnits (if need < 1 then 1 else need) (lm_rate l)
             else 0)
      in (l, remaining, waitFor))"

text \<open>The loop for a caller that is alone: each wait takes the time asked for and some more; when the list of these delays
  is used up the context ends during the wait.\<close>

fun wait_loop :: "limiter \<Rightarrow> rat \<Rightarrow> int \<Rightarrow> int list \<Rightarrow> limiter \<times> bool" where
  "wait_loop l remaining now ds =
     (case wait_round now l remaining of
        (l', remaining', waitFor) \<Rightarrow>
          if remaining' \<le> 0 then (l', True)
          else (case ds of [] \<Rightarrow> (l', False) | d # ds' \<Rightarrow> wait_loop l' remaining' (now + waitFor + d) ds'))"

definition limiter_Wait :: "limiter \<Rightarrow> int \<Rightarrow> int \<Rightarrow> int list \<Rightarrow> limiter \<times> bool" where
  "limiter_Wait l n now ds = (if \<not> limiter_Enabled l \<or> n \<le> 0 then (l, True) else wait_loop l (of_int n) now ds)"

text \<open>The rounds of any number of callers, in the order in which they take the lock, with what each still wants: the
  limiter after them and what they got in all.\<close>

fun rounds :: "limiter \<Rightarrow> (int \<times> rat) list \<Rightarrow> limiter \<times> rat" where
  "rounds l [] = (l, 0)"
| "rounds l ((now, want) # rs) =
     (case wait_round now l want of (l', left, _) \<Rightarrow> (case rounds l' rs of (l'', got) \<Rightarrow> (l'', got + (want - left))))"

text \<open>One limiter per user, made when the user is first seen.\<close>

record limiter_store =
  st_rate :: int
  st_burst :: int
  st_limiters :: "(string \<times> limiter) list"

definition limiterFor :: "int \<Rightarrow> string \<Rightarrow> limiter_store \<Rightarrow> limiter_store \<times> limiter" where
  "limiterFor now uid s =
     (case map_of (st_limiters s) uid of
        Some l \<Rightarrow> (s, l)
      | None \<Rightarrow> (let l = limiter_New now (st_rate s) (st_burst s) in (s\<lparr>st_limiters := (uid, l) # st_limiters s\<rparr>, l)))"

section \<open>The invariant\<close>

definition limiter_ok :: "limiter \<Rightarrow> bool" where
  "limiter_ok l = (lm_rate l > 0 \<and> lm_burst l \<ge> 1 \<and> 0 \<le> lm_tokens l \<and> lm_tokens l \<le> lm_burst l \<and> lm_last l \<noteq> None)"

definition per_nano :: "limiter \<Rightarrow> rat" where
  "per_nano l = of_int (lm_rate l) / nanos_per_second"

lemma limiter_New_ok: "rate > 0 \<Longrightarrow> limiter_ok (limiter_New now rate burst)"
  by (simp add: limiter_ok_def limiter_New_def Let_def)

lemma refill_ok:
  assumes "limiter_ok l" "lm_last l = Some t"
  shows "limiter_ok (refillLocked now l)" "lm_last (refillLocked now l) = Some (max t now)"
    "lm_tokens (refillLocked now l) = min (lm_burst l) (lm_tokens l + per_nano l * of_int (max t now - t))"
    "lm_rate (refillLocked now l) = lm_rate l" "lm_burst (refillLocked now l) = lm_burst l"
proof -
  have "0 \<le> of_int (lm_rate l) * (of_int (now - t) / nanos_per_second)" if "t < now"
    using assms that by (simp add: limiter_ok_def nanos_per_second_def)
  then show "limiter_ok (refillLocked now l)" "lm_last (refillLocked now l) = Some (max t now)"
    "lm_tokens (refillLocked now l) = min (lm_burst l) (lm_tokens l + per_nano l * of_int (max t now - t))"
    "lm_rate (refillLocked now l) = lm_rate l" "lm_burst (refillLocked now l) = lm_burst l"
    using assms by (auto simp: refillLocked_def limiter_ok_def limiter_Enabled_def Let_def per_nano_def max_def min_def)
qed

lemma wait_round_eq:
  fixes now :: int
  assumes "limiter_ok l" "lm_last l = Some t" "0 < want"
  defines "tk \<equiv> lm_tokens (refillLocked now l)"
  shows "wait_round now l want =
    ((refillLocked now l)\<lparr>lm_tokens := tk - min want tk\<rparr>, want - min want tk,
     if want - min want tk > 0 then durationForUnits (let n = minFloat64 (want - tk) (lm_burst l) in if n < 1 then 1 else n) (lm_rate l) else 0)"
proof -
  let ?r = "refillLocked now l"
  have tk: "0 \<le> tk" using refill_ok(1) [OF assms(1,2), of now] by (simp add: limiter_ok_def tk_def)
  have u: "?r\<lparr>lm_tokens := tk\<rparr> = ?r" by (simp add: tk_def)
  consider "tk = 0" | "0 < tk" "want < tk" | "0 < tk" "tk \<le> want" using tk by linarith
  then show ?thesis
  proof cases
    case 1
    then have z: "lm_tokens ?r = 0" by (simp add: tk_def)
    show ?thesis
      using assms(3) u refill_ok(4,5) [OF assms(1,2), of now] by (simp add: wait_round_def Let_def tk_def z)
  next
    case 2
    then show ?thesis unfolding wait_round_def Let_def tk_def [symmetric] by (simp add: minFloat64_def)
  next
    case 3
    then have "minFloat64 want tk = tk" "min want tk = tk" by (simp_all add: minFloat64_def)
    then show ?thesis
      using 3 refill_ok(4,5) [OF assms(1,2), of now] unfolding wait_round_def Let_def tk_def [symmetric] by simp
  qed
qed

lemma round_ok:
  assumes "limiter_ok l" "lm_last l = Some t" "0 < want" "wait_round now l want = (l', left, w)"
  shows "limiter_ok l'" "lm_last l' = Some (max t now)" "lm_rate l' = lm_rate l" "lm_burst l' = lm_burst l"
    "want - left = min want (lm_tokens (refillLocked now l))" "lm_tokens l' = lm_tokens (refillLocked now l) - (want - left)"
    "left > 0 \<Longrightarrow> w = durationForUnits (let n = minFloat64 left (lm_burst l) in if n < 1 then 1 else n) (lm_rate l)"
proof -
  let ?r = "refillLocked now l"
  note r = refill_ok [OF assms(1,2), of now]
  have e: "l' = ?r\<lparr>lm_tokens := lm_tokens ?r - min want (lm_tokens ?r)\<rparr>" "left = want - min want (lm_tokens ?r)"
    "w = (if left > 0 then durationForUnits (let n = minFloat64 (want - lm_tokens ?r) (lm_burst l) in if n < 1 then 1 else n) (lm_rate l) else 0)"
    using assms(4) wait_round_eq [OF assms(1-3), of now] by auto
  show "lm_last l' = Some (max t now)" "lm_rate l' = lm_rate l" "lm_burst l' = lm_burst l"
    "want - left = min want (lm_tokens ?r)" "lm_tokens l' = lm_tokens ?r - (want - left)"
    using r by (simp_all add: e(1,2))
  show "limiter_ok l'" using r(1) assms(3) by (simp add: e(1) limiter_ok_def min_def)
  show "w = durationForUnits (let n = minFloat64 left (lm_burst l) in if n < 1 then 1 else n) (lm_rate l)" if "left > 0"
  proof -
    have "left = want - lm_tokens ?r" using that e(2) by (simp add: min_def split: if_splits)
    then show ?thesis using that e(3) by simp
  qed
qed

section \<open>Properties\<close>

lemma rounds_bound:
  assumes "limiter_ok l" "lm_last l = Some t" "list_all (\<lambda>r. 0 < snd r) rs" "rounds l rs = (l', got)"
  shows "limiter_ok l' \<and> got + lm_tokens l' \<le> lm_tokens l + per_nano l * of_int (fold max (map fst rs) t - t)"
  using assms
proof (induction rs arbitrary: l t l' got)
  case (Cons r rs)
  obtain now want where r: "r = (now, want)" by fastforce
  obtain l1 left w where w: "wait_round now l want = (l1, left, w)" by (metis prod_cases3)
  obtain l2 g where g: "rounds l1 rs = (l2, g)" by fastforce
  have p: "0 < want" "list_all (\<lambda>r. 0 < snd r) rs" using Cons.prems(3) r by simp_all
  note o = round_ok [OF Cons.prems(1,2) p(1) w]
  have e: "l' = l2" "got = g + (want - left)" using Cons.prems(4) r w g by simp_all
  have n: "per_nano l1 = per_nano l" using o(3) by (simp add: per_nano_def)
  have ih: "limiter_ok l2" "g + lm_tokens l2 \<le> lm_tokens l1 + per_nano l * of_int (fold max (map fst rs) (max t now) - max t now)"
    using Cons.IH [OF o(1,2) p(2) g] n by simp_all
  have "lm_tokens (refillLocked now l) \<le> lm_tokens l + per_nano l * of_int (max t now - t)"
    using refill_ok(3) [OF Cons.prems(1,2), of now] by simp
  then have "got + lm_tokens l' \<le> lm_tokens l + per_nano l * of_int (max t now - t) + per_nano l * of_int (fold max (map fst rs) (max t now) - max t now)"
    using ih(2) o(6) unfolding e by linarith
  also have "\<dots> = lm_tokens l + per_nano l * of_int (fold max (map fst rs) (max t now) - t)"
    by (simp add: algebra_simps)
  finally show ?case using ih(1) e r by (simp add: max.commute)
qed simp



text \<open>Waiting for the time asked for fills the bucket with what the next round needs.\<close>

lemma duration_fills:
  assumes "limiter_ok l" "0 < u"
  shows "u \<le> per_nano l * of_int (durationForUnits u (lm_rate l))" "0 \<le> durationForUnits u (lm_rate l)"
proof -
  have r: "lm_rate l > 0" using assms(1) by (simp add: limiter_ok_def)
  have "0 < u / of_int (lm_rate l) * nanos_per_second"
    using r assms(2) by (simp add: nanos_per_second_def)
  then have "1 \<le> \<lceil>u / of_int (lm_rate l) * nanos_per_second\<rceil>" by linarith
  then have d: "durationForUnits u (lm_rate l) = \<lceil>u / of_int (lm_rate l) * nanos_per_second\<rceil>"
    using r assms(2) unfolding durationForUnits_def Let_def by (simp only: if_False not_le [symmetric]) auto
  have c: "u / of_int (lm_rate l) * nanos_per_second \<le> of_int (durationForUnits u (lm_rate l))"
    unfolding d by (rule le_of_int_ceiling)
  have "u = per_nano l * (u / of_int (lm_rate l) * nanos_per_second)"
    using r by (simp add: per_nano_def nanos_per_second_def)
  also have "\<dots> \<le> per_nano l * of_int (durationForUnits u (lm_rate l))"
    using c r by (intro mult_left_mono) (simp_all add: per_nano_def nanos_per_second_def)
  finally show "u \<le> per_nano l * of_int (durationForUnits u (lm_rate l))" .
  show "0 \<le> durationForUnits u (lm_rate l)" using r by (simp add: durationForUnits_def Let_def)
qed

definition ready :: "limiter \<Rightarrow> int \<Rightarrow> rat \<Rightarrow> int \<Rightarrow> bool" where
  "ready l t remaining now = (t \<le> now \<and> min remaining (lm_burst l) \<le> lm_tokens l + per_nano l * of_int (now - t))"

lemma next_round_ready:
  assumes "limiter_ok l" "lm_last l = Some t" "0 < want" "t \<le> now" "wait_round now l want = (l', left, w)" "0 < left" "0 \<le> d"
  shows "ready l' now left (now + w + d)"
proof -
  note o = round_ok [OF assms(1-3,5)]
  let ?u = "let n = minFloat64 left (lm_burst l) in if n < 1 then 1 else n"
  have u: "min left (lm_burst l) \<le> ?u" "0 < ?u"
    using assms(1,6) by (auto simp: Let_def minFloat64_def limiter_ok_def)
  have w: "w = durationForUnits ?u (lm_rate l)" using o(7) [OF assms(6)] .
  have "lm_tokens l' = 0" using o(5,6) assms(6) by (simp add: min_def split: if_splits)
  moreover have "min left (lm_burst l) \<le> per_nano l * of_int w"
    using duration_fills(1) [OF assms(1) u(2)] u(1) unfolding w by linarith
  moreover have "per_nano l * of_int w \<le> per_nano l * of_int (w + d)"
    using assms(1,7) by (intro mult_left_mono) (simp_all add: per_nano_def limiter_ok_def nanos_per_second_def)
  ultimately show ?thesis
    using o(3,4) duration_fills(2) [OF assms(1) u(2)] assms(7) unfolding w by (simp add: ready_def per_nano_def)
qed

lemma wait_loop_ready:
  assumes "limiter_ok l" "lm_last l = Some t" "0 < want" "ready l t want now" "want \<le> of_nat (Suc (length ds)) * lm_burst l" "list_all (\<lambda>d. 0 \<le> d) ds"
  shows "snd (wait_loop l want now ds)"
  using assms
proof (induction ds arbitrary: l t want now)
  case Nil
  obtain l' left w where w: "wait_round now l want = (l', left, w)" by (metis prod_cases3)
  have "want \<le> lm_tokens (refillLocked now l)"
    using refill_ok(3) [OF Nil.prems(1,2), of now] Nil.prems(4,5) by (simp add: ready_def max_def min_def split: if_splits)
  then have "left \<le> 0" using round_ok(5) [OF Nil.prems(1-3) w] by simp
  then show ?case by (simp add: w)
next
  case (Cons d ds)
  obtain l' left w where w: "wait_round now l want = (l', left, w)" by (metis prod_cases3)
  note o = round_ok [OF Cons.prems(1-3) w]
  have t: "t \<le> now" using Cons.prems(4) by (simp add: ready_def)
  show ?case
  proof (cases "left \<le> 0")
    case False
    have "lm_burst l \<le> lm_tokens (refillLocked now l) \<or> want \<le> lm_tokens (refillLocked now l)"
      using refill_ok(3) [OF Cons.prems(1,2), of now] Cons.prems(4) t by (auto simp: ready_def max_def min_def split: if_splits)
    then have "left \<le> want - lm_burst l" using o(5) False by (auto simp: min_def split: if_splits)
    then have "left \<le> of_nat (Suc (length ds)) * lm_burst l'" using Cons.prems(5) o(4) by (simp add: algebra_simps)
    then have "snd (wait_loop l' left (now + w + d) ds)"
      using Cons.IH [OF o(1), of now left "now + w + d"] o(2) t False next_round_ready [OF Cons.prems(1-3) t w, of d] Cons.prems(6)
      by (simp add: max_def)
    then show ?thesis using False by (simp add: w)
  qed (simp add: w)
qed

text \<open>A caller that is alone gets through. It waits at most as often as its request is larger than the burst, rounded up: with
  that many waits, each taking at least the time asked for, \<open>Wait\<close> returns without an error.
\<close>

theorem limiter_wait_returns:
  assumes "limiter_ok l" "lm_last l = Some t" "t \<le> now" "of_int n \<le> of_nat (length ds) * lm_burst l" "list_all (\<lambda>d. 0 \<le> d) ds"
  shows "snd (limiter_Wait l n now ds)"
proof (cases "0 < n")
  case True
  obtain l' left w where w: "wait_round now l (of_int n) = (l', left, w)" by (metis prod_cases3)
  have n: "(0::rat) < of_int n" using True by simp
  note o = round_ok [OF assms(1,2) n w]
  show ?thesis
  proof (cases "left \<le> 0")
    case False
    obtain d ds' where d: "ds = d # ds'" using assms(4) n by (cases ds) auto
    have "left \<le> of_int n" using o(5) refill_ok(1) [OF assms(1,2), of now] n by (simp add: limiter_ok_def min_def split: if_splits)
    then have "left \<le> of_nat (Suc (length ds')) * lm_burst l'" using assms(4) o(4) d by simp
    then have "snd (wait_loop l' left (now + w + d) ds')"
      using wait_loop_ready [OF o(1), of now left "now + w + d" ds'] o(2) assms(3,5) False d next_round_ready [OF assms(1,2) n assms(3) w, of d]
      by (simp add: max_def)
    then show ?thesis using False by (simp add: limiter_Wait_def w d)
  qed (simp add: limiter_Wait_def w)
qed (simp add: limiter_Wait_def)

theorem limiter_wait_returns_witness: "snd (limiter_Wait (limiter_New 0 1 3) 7 0 [0, 0, 0])"
  by (rule limiter_wait_returns [of _ 0]) (simp_all add: limiter_New_def limiter_ok_def)

end
