(* ===== verification/Audit_Sql.thy ===== *)
theory Audit_Sql
  imports Sync_Handle Config
begin

text \<open>
  The SQL store of the audit records, \<open>src/pkg/audit/sqlstore.go\<close>: the choice of the dialect, the check of the table name, the
  statements that are sent, and the row that is inserted. The database is an argument: opening, pinging and executing a
  statement succeed or fail.
\<close>

section \<open>Definitions\<close>

datatype sql_error =
  ErrUnsupportedDriver string | ErrInvalidTable string | SqlOpen string | SqlPing string | SqlCreate string string
| SqlInsert string | SqlClose string | SqlJoin sql_error string

definition DefaultTable :: string where "DefaultTable = ''file_audit_log''"

record sql_dialect =
  driverName :: string
  createDDL :: string
  insertStmt :: string

text \<open>The columns of a table, one a line, as the source lays them out.\<close>

definition table_ddl :: "string list \<Rightarrow> string" where
  "table_ddl cols =
     ''CREATE TABLE IF NOT EXISTS %s ('' @ concat (map (\<lambda>c. [CHR 10, CHR 9, CHR 9, CHR 9] @ c @ '','') (butlast cols)) @
     [CHR 10, CHR 9, CHR 9, CHR 9] @ last cols @ [CHR 10, CHR 9, CHR 9] @ '')''"

definition insert_into :: "string \<Rightarrow> string" where
  "insert_into placeholders =
     ''INSERT INTO %s (created_at_ms, request_id, operation, path, target, bytes, success, error) VALUES ('' @ placeholders @ '')''"

definition sqlite_dialect :: sql_dialect where
  "sqlite_dialect = \<lparr>driverName = ''sqlite'',
     createDDL = table_ddl [''id INTEGER PRIMARY KEY AUTOINCREMENT'', ''created_at_ms BIGINT NOT NULL'', ''request_id TEXT NOT NULL'',
       ''operation TEXT NOT NULL'', ''path TEXT NOT NULL'', ''target TEXT NOT NULL'', ''bytes BIGINT NOT NULL'', ''success SMALLINT NOT NULL'',
       ''error TEXT NOT NULL''],
     insertStmt = insert_into ''?, ?, ?, ?, ?, ?, ?, ?''\<rparr>"

definition mysql_dialect :: sql_dialect where
  "mysql_dialect = \<lparr>driverName = ''mysql'',
     createDDL = table_ddl [''id BIGINT NOT NULL AUTO_INCREMENT PRIMARY KEY'', ''created_at_ms BIGINT NOT NULL'', ''request_id VARCHAR(128) NOT NULL'',
       ''operation VARCHAR(32) NOT NULL'', ''path TEXT NOT NULL'', ''target TEXT NOT NULL'', ''bytes BIGINT NOT NULL'', ''success SMALLINT NOT NULL'',
       ''error TEXT NOT NULL''],
     insertStmt = insert_into ''?, ?, ?, ?, ?, ?, ?, ?''\<rparr>"

definition postgres_dialect :: sql_dialect where
  "postgres_dialect = \<lparr>driverName = ''pgx'',
     createDDL = table_ddl [''id BIGSERIAL PRIMARY KEY'', ''created_at_ms BIGINT NOT NULL'', ''request_id TEXT NOT NULL'',
       ''operation TEXT NOT NULL'', ''path TEXT NOT NULL'', ''target TEXT NOT NULL'', ''bytes BIGINT NOT NULL'', ''success SMALLINT NOT NULL'',
       ''error TEXT NOT NULL''],
     insertStmt = insert_into ''$1, $2, $3, $4, $5, $6, $7, $8''\<rparr>"

definition dialectFor :: "string \<Rightarrow> sql_error + sql_dialect" where
  "dialectFor driver =
     (let d = to_lower (trim_space driver) in
      if d \<in> {''sqlite'', ''sqlite3''} then Inr sqlite_dialect
      else if d = ''mysql'' then Inr mysql_dialect
      else if d \<in> {''postgres'', ''postgresql'', ''pgsql''} then Inr postgres_dialect
      else Inl (ErrUnsupportedDriver driver))"

text \<open>The pattern of the table name is the same expression as in the configuration.\<close>

definition tableOrDefault :: "string \<Rightarrow> sql_error + string" where
  "tableOrDefault table =
     (if table = [] then Inr DefaultTable
      else if \<not> auditTablePattern table then Inl (ErrInvalidTable table)
      else Inr table)"

text \<open>\<open>fmt.Sprintf\<close> with one string argument.\<close>

fun sprintf_s :: "string \<Rightarrow> string \<Rightarrow> string" where
  "sprintf_s [] arg = []"
| "sprintf_s [c] arg = [c]"
| "sprintf_s (c # d # rest) arg = (if c = CHR ''%'' \<and> d = CHR ''s'' then arg @ rest else c # sprintf_s (d # rest) arg)"

record sql_options =
  so_driver :: string
  so_dsn :: string
  so_table :: string

text \<open>The database: what each call returns. The statements executed and whether the handle is open are the state.\<close>

record sql_env =
  se_open :: "string \<Rightarrow> string \<Rightarrow> string option"
  se_ping :: "string option"
  se_exec :: "string \<Rightarrow> string option"
  se_close :: "string option"

record sql_db =
  db_open :: bool
  db_statements :: "string list"

record sql_store =
  ss_insert :: string

definition initSchema :: "sql_env \<Rightarrow> sql_dialect \<Rightarrow> string \<Rightarrow> sql_db \<Rightarrow> sql_db \<times> sql_error option" where
  "initSchema env dialect table db =
     (case se_ping env of
        Some e \<Rightarrow> (db, Some (SqlPing e))
      | None \<Rightarrow>
          (let ddl = sprintf_s (createDDL dialect) table; db' = db\<lparr>db_statements := db_statements db @ [ddl]\<rparr>
           in case se_exec env ddl of Some e \<Rightarrow> (db', Some (SqlCreate table e)) | None \<Rightarrow> (db', None)))"

definition closeOnError :: "sql_env \<Rightarrow> sql_db \<Rightarrow> sql_error \<Rightarrow> sql_db \<times> sql_error" where
  "closeOnError env db e = (db\<lparr>db_open := False\<rparr>, case se_close env of Some ce \<Rightarrow> SqlJoin e ce | None \<Rightarrow> e)"

definition OpenSQL :: "sql_env \<Rightarrow> sql_options \<Rightarrow> sql_db \<Rightarrow> sql_db \<times> (sql_error + sql_store)" where
  "OpenSQL env opts db0 =
     (case dialectFor (so_driver opts) of
        Inl e \<Rightarrow> (db0, Inl e)
      | Inr dialect \<Rightarrow>
          (case tableOrDefault (so_table opts) of
             Inl e \<Rightarrow> (db0, Inl e)
           | Inr table \<Rightarrow>
               (case se_open env (driverName dialect) (so_dsn opts) of
                  Some e \<Rightarrow> (db0, Inl (SqlOpen e))
                | None \<Rightarrow>
                    (case initSchema env dialect table (db0\<lparr>db_open := True\<rparr>) of
                       (db, Some e) \<Rightarrow> map_prod id Inl (closeOnError env db e)
                     | (db, None) \<Rightarrow> (db, Inr \<lparr>ss_insert = sprintf_s (insertStmt dialect) table\<rparr>)))))"

text \<open>The options the daemon passes.\<close>

definition auditOptions :: "audit_config \<Rightarrow> sql_options" where
  "auditOptions a = \<lparr>so_driver = au_driver a, so_dsn = au_dsn a, so_table = au_table a\<rparr>"

text \<open>A record becomes the arguments of one insert; the statement itself never holds any of its text.\<close>

datatype sql_value = SqlInt int | SqlText string

definition UnixMilli :: "int \<Rightarrow> int" where "UnixMilli t = t div 1000000"

definition sql_Save :: "(string \<Rightarrow> sql_value list \<Rightarrow> string option) \<Rightarrow> sql_store \<Rightarrow> audit_record option \<Rightarrow> (string \<times> sql_value list) option \<times> sql_error option" where
  "sql_Save exec st rec =
     (case rec of
        None \<Rightarrow> (None, None)
      | Some r \<Rightarrow>
          (let success = (if ar_success r then 1 else 0);
               args = [SqlInt (UnixMilli (ar_time r)), SqlText (ar_request_id r), SqlText (ar_operation r), SqlText (ar_path r),
                       SqlText (ar_target r), SqlInt (ar_bytes r), SqlInt success, SqlText (ar_error r)]
           in (Some (ss_insert st, args), map_option SqlInsert (exec (ss_insert st) args))))"

definition sql_Close :: "sql_env \<Rightarrow> sql_db \<Rightarrow> sql_db \<times> sql_error option" where
  "sql_Close env db = (db\<lparr>db_open := False\<rparr>, map_option SqlClose (se_close env))"

section \<open>Statements\<close>

lemma sprintf_insert:
  "sprintf_s (insert_into p) t =
     ''INSERT INTO '' @ t @ '' (created_at_ms, request_id, operation, path, target, bytes, success, error) VALUES ('' @ p @ '')''"
  by (simp add: insert_into_def)

lemma sprintf_ddl: "\<exists>cols. sprintf_s (table_ddl cs) t = ''CREATE TABLE IF NOT EXISTS '' @ t @ '' ('' @ cols"
  by (rule exI) (simp add: table_ddl_def)

lemma dialect_statements:
  assumes "dialectFor driver = Inr d"
  shows "\<exists>cs. createDDL d = table_ddl cs" "\<exists>p. insertStmt d = insert_into p"
  using assms by (auto simp: dialectFor_def Let_def sqlite_dialect_def mysql_dialect_def postgres_dialect_def split: if_splits)

lemma dialectFor_supported: "IsSupportedAuditDriver driver \<Longrightarrow> \<exists>d. dialectFor driver = Inr d"
  by (auto simp: IsSupportedAuditDriver_def dialectFor_def Let_def)

lemma validated_audit:
  assumes "daemon_Validate cfg = (cfg', None)" "au_enabled (dc_audit cfg')"
  shows "IsSupportedAuditDriver (au_driver (dc_audit cfg'))" "auditTablePattern (au_table (dc_audit cfg'))"
  using assms by (auto simp: daemon_Validate_def validateAudit_def Let_def split: if_splits)

text \<open>A validated configuration opens its audit store, unless the database refuses, and no configuration can put anything but an
  identifier into a statement. The driver and the table that the validation lets through are accepted; the statements
  are the fixed ones with the table name, letters, digits and underscores, in its place; and a store that could not
  be opened leaves no open handle behind.
\<close>

theorem audit_store_opens:
  assumes "daemon_Validate cfg = (cfg', None)" "au_enabled (dc_audit cfg')" "OpenSQL env (auditOptions (dc_audit cfg')) \<lparr>db_open = False, db_statements = []\<rparr> = (db, res)"
  shows "list_all table_char (au_table (dc_audit cfg')) \<and>
    (\<forall>st \<in> set (db_statements db). \<exists>cols. st = ''CREATE TABLE IF NOT EXISTS '' @ au_table (dc_audit cfg') @ '' ('' @ cols) \<and>
    (case res of
       Inr store \<Rightarrow> db_open db \<and> length (db_statements db) = 1 \<and> (\<exists>p. ss_insert store =
         ''INSERT INTO '' @ au_table (dc_audit cfg') @ '' (created_at_ms, request_id, operation, path, target, bytes, success, error) VALUES ('' @ p @ '')'')
     | Inl e \<Rightarrow> \<not> db_open db \<and> e \<notin> range ErrUnsupportedDriver \<union> range ErrInvalidTable)"
proof -
  let ?a = "dc_audit cfg'"
  note v = validated_audit [OF assms(1,2)]
  obtain d where d: "dialectFor (au_driver ?a) = Inr d" using dialectFor_supported [OF v(1)] by blast
  obtain cs p where c: "createDDL d = table_ddl cs" "insertStmt d = insert_into p" using dialect_statements [OF d] by blast
  have t: "tableOrDefault (au_table ?a) = Inr (au_table ?a)" "list_all table_char (au_table ?a)"
    using v(2) by (auto simp: tableOrDefault_def auditTablePattern_def)
  show ?thesis
    using assms(3) t(2) sprintf_ddl [of cs "au_table ?a"]
    by (auto simp: OpenSQL_def auditOptions_def d t(1) initSchema_def closeOnError_def Let_def c sprintf_insert split: option.splits)
qed

definition demo_sql_env :: sql_env where
  "demo_sql_env = \<lparr>se_open = (\<lambda>_ _. None), se_ping = None, se_exec = (\<lambda>_. None), se_close = None\<rparr>"

definition demo_audit_config :: daemon_config where
  "demo_audit_config = defaultDaemonConfig\<lparr>dc_server := (dc_server defaultDaemonConfig)\<lparr>se_address := ''h''\<rparr>,
     dc_audit := \<lparr>au_enabled = True, au_driver = ''mysql'', au_dsn = ''d'', au_table = ''t'', au_queue_size = 1\<rparr>\<rparr>"

theorem audit_store_opens_witness:
  "\<exists>db store. OpenSQL demo_sql_env (auditOptions (dc_audit demo_audit_config)) \<lparr>db_open = False, db_statements = []\<rparr> = (db, Inr store) \<and> db_open db"
proof -
  obtain db res where o: "OpenSQL demo_sql_env (auditOptions (dc_audit demo_audit_config)) \<lparr>db_open = False, db_statements = []\<rparr> = (db, res)"
    by fastforce
  have v: "daemon_Validate demo_audit_config = (demo_audit_config, None)" by code_simp
  have e: "au_enabled (dc_audit demo_audit_config)" by (simp add: demo_audit_config_def)
  have "(case snd (OpenSQL demo_sql_env (auditOptions (dc_audit demo_audit_config)) \<lparr>db_open = False, db_statements = []\<rparr>) of Inr _ \<Rightarrow> True | _ \<Rightarrow> False)"
    by code_simp
  then obtain store where "res = Inr store" using o by (cases res) simp_all
  then show ?thesis using audit_store_opens [OF v e o] o by auto
qed

end
